(* ===== verification/Prelude.thy ===== *)
theory Prelude imports Main "HOL-Library.Word" begin

text \<open>
  What every component shares: the widths of the C integers, the bytes they occupy in memory in
  either byte order, the alignment arithmetic of \<^verbatim>\<open>ALIGN_VALUE\<close>, the results of
  operations that can fail, slices of memory, and C strings. The collections \<open>bytes_simps\<close>,
  \<open>align_simps\<close> and \<open>len_simps\<close> carry the component proofs.
\<close>

unbundle bit_operations_syntax

named_theorems bytes_simps "bytes of machine integers and back"
named_theorems align_simps "rounding up to a boundary"
named_theorems len_simps "lengths of encoded data"

section \<open>Machine integers\<close>

type_synonym byte = "8 word"
type_synonym u16 = "16 word"
type_synonym u32 = "32 word"
type_synonym u64 = "64 word"

text \<open>The bytes of an integer, least significant first, and the integer they make.\<close>

fun le_bytes :: "nat \<Rightarrow> 'a::len word \<Rightarrow> byte list" where
  "le_bytes 0 w = []"
| "le_bytes (Suc n) w = ucast w # le_bytes n (drop_bit 8 w)"

fun le_word :: "byte list \<Rightarrow> 'a::len word" where
  "le_word [] = 0"
| "le_word (b # bs) = ucast b OR push_bit 8 (le_word bs)"

lemma le_bytes_numeral [simp]:
  "le_bytes (numeral k) w = ucast w # le_bytes (pred_numeral k) (drop_bit 8 w)"
  by (simp add: numeral_eq_Suc)

lemma le_bytes_length [len_simps]: "length (le_bytes n w) = n"
  by (induction n arbitrary: w) auto

lemma le_word_le_bytes: "le_word (le_bytes n w) = take_bit (8 * n) (w :: 'a::len word)"
proof (induction n arbitrary: w)
  case (Suc n)
  have "le_word (le_bytes (Suc n) w)
      = ucast (ucast w :: byte) OR push_bit 8 (take_bit (8 * n) (drop_bit 8 w))"
    by (simp add: Suc)
  also have "\<dots> = take_bit (8 * Suc n) w"
    by (rule bit_word_eqI) (auto simp: bit_simps)
  finally show ?case .
qed simp

lemma le_word_le_bytes_full:
  "LENGTH('a) \<le> 8 * n \<Longrightarrow> le_word (le_bytes n w) = (w :: 'a::len word)"
  by (simp add: le_word_le_bytes take_bit_word_eq_self)

lemma le_word_high_bits: "8 * length bs \<le> n \<Longrightarrow> \<not> bit (le_word bs :: 'a::len word) n"
  by (induction bs arbitrary: n) (auto simp: bit_simps dest!: bit_imp_le_length)

lemma le_bytes_le_word_le:
  "8 * length bs \<le> LENGTH('a) \<Longrightarrow> le_bytes (length bs) (le_word bs :: 'a::len word) = bs"
proof (induction bs)
  case (Cons b bs)
  have low: "(ucast (ucast b OR push_bit 8 (le_word bs) :: 'a word) :: byte) = b"
    using Cons.prems by - (rule bit_word_eqI, auto simp: bit_simps)
  have high: "drop_bit 8 (ucast b OR push_bit 8 (le_word bs) :: 'a word) = le_word bs"
  proof (rule bit_word_eqI)
    fix n assume n: "n < LENGTH('a)"
    show "bit (drop_bit 8 (ucast b OR push_bit 8 (le_word bs) :: 'a word)) n
        = bit (le_word bs :: 'a word) n"
    proof (cases "8 + n < LENGTH('a)")
      case True
      have "\<not> bit b (8 + n)" by (simp add: bit_word.rep_eq)
      with True show ?thesis by (simp add: bit_simps)
    next
      case False
      then have "8 * length bs \<le> n" using Cons.prems by simp
      from le_word_high_bits[OF this] False show ?thesis by (simp add: bit_simps)
    qed
  qed
  show ?case using Cons low high by simp
qed simp

text \<open>
  Byte order, \<^verbatim>\<open>G_BYTE_ORDER\<close>: True is little endian. \<open>mem_bytes n e w\<close> is the image of an
  \<open>n\<close>-byte integer in the memory of a host of byte order \<open>e\<close>; \<open>mem_word e bs\<close> is the value
  such a host reads through a pointer to \<open>bs\<close>.
\<close>

type_synonym endian = bool

definition in_order :: "endian \<Rightarrow> byte list \<Rightarrow> byte list" where
  "in_order e bs = (if e then bs else rev bs)"

definition mem_bytes :: "nat \<Rightarrow> endian \<Rightarrow> 'a::len word \<Rightarrow> byte list" where
  "mem_bytes n e w = in_order e (le_bytes n w)"

definition mem_word :: "endian \<Rightarrow> byte list \<Rightarrow> 'a::len word" where
  "mem_word e bs = le_word (in_order e bs)"

abbreviation u16_bytes :: "endian \<Rightarrow> u16 \<Rightarrow> byte list" where "u16_bytes \<equiv> mem_bytes 2"
abbreviation u32_bytes :: "endian \<Rightarrow> u32 \<Rightarrow> byte list" where "u32_bytes \<equiv> mem_bytes 4"
abbreviation u64_bytes :: "endian \<Rightarrow> u64 \<Rightarrow> byte list" where "u64_bytes \<equiv> mem_bytes 8"

text \<open>
  GLib's byte swaps \<^verbatim>\<open>GUINT16_SWAP_LE_BE\<close>, \<^verbatim>\<open>GUINT32_SWAP_LE_BE\<close> and
  \<^verbatim>\<open>GUINT64_SWAP_LE_BE\<close> reverse the bytes of the value.
\<close>

definition swap_bytes :: "nat \<Rightarrow> 'a::len word \<Rightarrow> 'a word" where
  "swap_bytes n w = le_word (rev (le_bytes n w))"

definition GUINT16_SWAP_LE_BE :: "u16 \<Rightarrow> u16" where "GUINT16_SWAP_LE_BE = swap_bytes 2"
definition GUINT32_SWAP_LE_BE :: "u32 \<Rightarrow> u32" where "GUINT32_SWAP_LE_BE = swap_bytes 4"
definition GUINT64_SWAP_LE_BE :: "u64 \<Rightarrow> u64" where "GUINT64_SWAP_LE_BE = swap_bytes 8"

lemma in_order_length [len_simps, simp]: "length (in_order e bs) = length bs"
  by (simp add: in_order_def)

lemma in_order_in_order [simp]: "in_order e (in_order e bs) = bs"
  by (simp add: in_order_def)

lemma mem_bytes_length [len_simps, simp]: "length (mem_bytes n e w) = n"
  by (simp add: mem_bytes_def le_bytes_length)

lemma mem_word_mem_bytes:
  "LENGTH('a) \<le> 8 * n \<Longrightarrow> mem_word e (mem_bytes n e w) = (w :: 'a::len word)"
  by (simp add: mem_word_def mem_bytes_def le_word_le_bytes_full)

lemma mem_word_u16 [bytes_simps, simp]: "mem_word e (u16_bytes e w) = w"
  by (simp add: mem_word_mem_bytes)

lemma mem_word_u32 [bytes_simps, simp]: "mem_word e (u32_bytes e w) = w"
  by (simp add: mem_word_mem_bytes)

lemma mem_word_u64 [bytes_simps, simp]: "mem_word e (u64_bytes e w) = w"
  by (simp add: mem_word_mem_bytes)

lemma four_bytes: "length bs = 4 \<Longrightarrow> bs = u32_bytes e (mem_word e bs)"
  using le_bytes_le_word_le[of "in_order e bs", where 'a = 32]
  by (simp add: mem_bytes_def mem_word_def)

text \<open>
  A host that reads the image of another byte order sees the bytes swapped, and swapping them
  back gives the value that was written.
\<close>

lemma swap_mem_word:
  assumes "8 * length bs = LENGTH('a)"
  shows "swap_bytes (length bs) (mem_word e bs :: 'a::len word) = mem_word (\<not> e) bs"
proof -
  have "le_bytes (length (in_order e bs)) (le_word (in_order e bs) :: 'a word) = in_order e bs"
    using assms by (intro le_bytes_le_word_le) simp
  then have "le_bytes (length bs) (le_word (in_order e bs) :: 'a word) = in_order e bs" by simp
  then show ?thesis by (simp add: swap_bytes_def mem_word_def in_order_def)
qed

lemma swap16_mem_word [bytes_simps]:
  "length bs = 2 \<Longrightarrow> GUINT16_SWAP_LE_BE (mem_word e bs) = mem_word (\<not> e) bs"
  using swap_mem_word[of bs e, where 'a = 16] by (simp add: GUINT16_SWAP_LE_BE_def)

lemma swap32_mem_word [bytes_simps]:
  "length bs = 4 \<Longrightarrow> GUINT32_SWAP_LE_BE (mem_word e bs) = mem_word (\<not> e) bs"
  using swap_mem_word[of bs e, where 'a = 32] by (simp add: GUINT32_SWAP_LE_BE_def)

lemma swap64_mem_word [bytes_simps]:
  "length bs = 8 \<Longrightarrow> GUINT64_SWAP_LE_BE (mem_word e bs) = mem_word (\<not> e) bs"
  using swap_mem_word[of bs e, where 'a = 64] by (simp add: GUINT64_SWAP_LE_BE_def)

section \<open>Alignment\<close>

text \<open>
  \<^verbatim>\<open>ALIGN_VALUE\<close> of \<^verbatim>\<open>matecorba-util.h\<close>, in two forms: the bit operation on a 64-bit
  \<^verbatim>\<open>gulong\<close> as the macro writes it, and the rounding up that it computes.
\<close>

definition ALIGN_VALUE_word :: "u64 \<Rightarrow> u64 \<Rightarrow> u64" where
  "ALIGN_VALUE_word this boundary = (this + (boundary - 1)) AND NOT (boundary - 1)"

definition ALIGN_VALUE :: "nat \<Rightarrow> nat \<Rightarrow> nat" where
  "ALIGN_VALUE this boundary = (this + (boundary - 1)) div boundary * boundary"

text \<open>The bytes skipped to reach the next multiple of \<open>b\<close> from position \<open>p\<close>.\<close>

definition pad :: "nat \<Rightarrow> nat \<Rightarrow> byte list" where
  "pad b p = replicate (ALIGN_VALUE p b - p) 0"

lemma ALIGN_VALUE_ge [align_simps]: "0 < b \<Longrightarrow> p \<le> ALIGN_VALUE p b"
  unfolding ALIGN_VALUE_def
  using div_mult_mod_eq[of "p + (b - 1)" b] mod_less_divisor[of b "p + (b - 1)"] by linarith

lemma ALIGN_VALUE_less: "0 < b \<Longrightarrow> ALIGN_VALUE p b < p + b"
  unfolding ALIGN_VALUE_def
  using div_mult_mod_eq[of "p + (b - 1)" b] by linarith

lemma ALIGN_VALUE_dvd [align_simps]: "b dvd ALIGN_VALUE p b"
  by (simp add: ALIGN_VALUE_def)

lemma ALIGN_VALUE_1 [simp]: "ALIGN_VALUE p (Suc 0) = p"
  by (simp add: ALIGN_VALUE_def)

lemma ALIGN_VALUE_least: "0 < b \<Longrightarrow> b dvd q \<Longrightarrow> p \<le> q \<Longrightarrow> ALIGN_VALUE p b \<le> q"
proof -
  assume b: "0 < b" and d: "b dvd q" and pq: "p \<le> q"
  from d obtain k where k: "q = b * k" ..
  from ALIGN_VALUE_dvd[of b p] obtain j where j: "ALIGN_VALUE p b = b * j" ..
  have "b * j < b * Suc k"
    using ALIGN_VALUE_less[OF b, of p] pq j k by simp
  then have "j < Suc k" using nat_mult_less_cancel_disj by blast
  then have "j \<le> k" by simp
  then show ?thesis using j k by simp
qed

lemma ALIGN_VALUE_id [align_simps]: "0 < b \<Longrightarrow> b dvd p \<Longrightarrow> ALIGN_VALUE p b = p"
  using ALIGN_VALUE_least[of b p p] ALIGN_VALUE_ge[of b p] by simp

lemma ALIGN_VALUE_idem [simp]: "0 < b \<Longrightarrow> ALIGN_VALUE (ALIGN_VALUE p b) b = ALIGN_VALUE p b"
  by (simp add: ALIGN_VALUE_id ALIGN_VALUE_dvd)

lemma pad_length [len_simps, simp]: "length (pad b p) = ALIGN_VALUE p b - p"
  by (simp add: pad_def)

lemma pad_pos: "0 < b \<Longrightarrow> p + length (pad b p) = ALIGN_VALUE p b"
  using ALIGN_VALUE_ge[of b p] by simp

lemma pad_Nil [align_simps]: "0 < b \<Longrightarrow> b dvd p \<Longrightarrow> pad b p = []"
  by (simp add: pad_def ALIGN_VALUE_id)

lemma pad_less: "0 < b \<Longrightarrow> length (pad b p) < b"
  using ALIGN_VALUE_less[of b p] ALIGN_VALUE_ge[of b p] by simp

lemma ALIGN_VALUE_add:
  "0 < b \<Longrightarrow> b dvd k \<Longrightarrow> ALIGN_VALUE (k + p) b = k + ALIGN_VALUE p b"
proof -
  assume b: "0 < b" and "b dvd k"
  from \<open>b dvd k\<close> obtain j where k: "k = b * j" ..
  have "(b * j + (p + (b - 1))) div b = j + (p + (b - 1)) div b"
    by (rule div_mult_self4) (use b in simp)
  then show ?thesis unfolding ALIGN_VALUE_def k by (simp add: add.assoc distrib_right distrib_left mult.commute)
qed

text \<open>Only the position modulo the boundary matters, so the wrap of a 32-bit size does not.\<close>

lemma pad_mod: "0 < b \<Longrightarrow> b dvd m \<Longrightarrow> pad b (p mod m) = pad b p"
proof -
  assume b: "0 < b" and d: "b dvd m"
  have "p = m * (p div m) + p mod m" by simp
  moreover have "b dvd m * (p div m)" using d by simp
  ultimately have "ALIGN_VALUE p b = m * (p div m) + ALIGN_VALUE (p mod m) b"
    using ALIGN_VALUE_add[OF b] by metis
  then have "ALIGN_VALUE p b - p = ALIGN_VALUE (p mod m) b - p mod m"
    using \<open>p = m * (p div m) + p mod m\<close> by linarith
  then show ?thesis by (simp add: pad_def)
qed

text \<open>The macro computes the rounding up, as long as the sum does not wrap.\<close>

lemma and_not_mask_eq: "(w :: 'a::len word) AND NOT (2 ^ k - 1) = w - take_bit k w"
proof -
  have "w - take_bit k w = w AND NOT (take_bit k w)"
    by (rule disjunctive_diff_eq_and_not) (auto intro!: bit_word_eqI simp: bit_simps)
  also have "\<dots> = w AND NOT (mask k)" by (auto intro!: bit_word_eqI simp: bit_simps)
  finally show ?thesis by (simp add: mask_eq_decr_exp)
qed

lemma unat_low_mask:
  assumes k: "k < 64" shows "unat (2 ^ k - 1 :: u64) = 2 ^ k - 1"
proof -
  have "(2 ^ k - 1 :: u64) = take_bit k (- 1)"
    by (simp add: take_bit_minus_one_eq_mask mask_eq_decr_exp)
  then have "unat (2 ^ k - 1 :: u64) = take_bit k (mask LENGTH(64))"
    by (simp only: unsigned_take_bit_eq unsigned_minus_1_eq_mask)
  also have "\<dots> = mask k" using k by (simp only: take_bit_of_mask) (simp add: min_def)
  finally show ?thesis by (simp add: mask_eq_exp_minus_1)
qed

lemma ALIGN_VALUE_word_eq:
  assumes k: "k < 64" and x: "unat x + 2 ^ k \<le> 2 ^ 64"
  shows "unat (ALIGN_VALUE_word x (2 ^ k)) = ALIGN_VALUE (unat x) (2 ^ k)"
proof -
  have m: "unat (2 ^ k - 1 :: u64) = 2 ^ k - 1" using k by (rule unat_low_mask)
  have s: "unat (x + (2 ^ k - 1) :: u64) = unat x + (2 ^ k - 1)"
  proof -
    have "unat x + (2 ^ k - 1) < 2 ^ LENGTH(64)"
      using x by (simp only: len_of_numeral_defs) (simp, linarith?)
    then show ?thesis by (simp only: unat_word_ariths(1) m mod_less)
  qed
  have "ALIGN_VALUE_word x (2 ^ k) = x + (2 ^ k - 1) - take_bit k (x + (2 ^ k - 1))"
    by (simp add: ALIGN_VALUE_word_def and_not_mask_eq)
  moreover have t: "unat (take_bit k (x + (2 ^ k - 1)) :: u64) = (unat x + (2 ^ k - 1)) mod 2 ^ k"
    by (simp only: unsigned_take_bit_eq s) (simp only: take_bit_eq_mod)
  moreover have "take_bit k (x + (2 ^ k - 1)) \<le> x + (2 ^ k - 1)"
    by (simp only: word_le_nat_alt t s) simp
  ultimately show ?thesis
    by (simp add: unat_sub t s ALIGN_VALUE_def minus_mod_eq_div_mult)
qed

section \<open>Results\<close>

text \<open>
  \<open>Broken\<close> is the clean failure the code reports (TRUE, or a NULL result); \<open>Overrun\<close> is a read or
  write outside the memory the code owns; \<open>Abort\<close> ends the process (\<^verbatim>\<open>g_error\<close>, a failed
  \<^verbatim>\<open>g_assert\<close>, a NULL pointer followed); \<open>Wild\<close> is a pointer followed that nothing was ever stored in;
  \<open>Hang\<close> is a call that never returns, because it waits for a lock its own thread holds.
\<close>

datatype err = Broken | Overrun | Abort | Wild | Hang

type_synonym 'a res = "err + 'a"

definition rbind :: "'a res \<Rightarrow> ('a \<Rightarrow> 'b res) \<Rightarrow> 'b res" where
  "rbind m k = (case m of Inl e \<Rightarrow> Inl e | Inr x \<Rightarrow> k x)"

lemma rbind_simps [simp]: "rbind (Inl e) k = Inl e" "rbind (Inr x) k = k x"
  by (simp_all add: rbind_def)

lemma rbind_Inr [simp]: "rbind m Inr = m"
  by (cases m) auto

lemma rbind_assoc: "rbind (rbind m k) h = rbind m (\<lambda>x. rbind (k x) h)"
  by (cases m) auto

lemma rbind_eq_Inr: "rbind m k = Inr y \<longleftrightarrow> (\<exists>x. m = Inr x \<and> k x = Inr y)"
  by (cases m) auto

lemma rbind_cong: "m = m' \<Longrightarrow> (\<And>x. m' = Inr x \<Longrightarrow> k x = k' x) \<Longrightarrow> rbind m k = rbind m' k'"
  by (cases m') auto

section \<open>Slices of memory\<close>

definition slice :: "nat \<Rightarrow> nat \<Rightarrow> 'a list \<Rightarrow> 'a list" where
  "slice p n xs = take n (drop p xs)"

lemma slice_length [len_simps]: "p + n \<le> length xs \<Longrightarrow> length (slice p n xs) = n"
  by (simp add: slice_def)

lemma slice_0 [simp]: "slice p 0 xs = []"
  by (simp add: slice_def)

lemma slice_add: "slice p (m + n) xs = slice p m xs @ slice (p + m) n xs"
  by (simp add: slice_def take_add add.commute)

lemma slice_append_eq:
  assumes "slice p (length as + length bs) xs = as @ bs"
  shows "slice p (length as) xs = as \<and> slice (p + length as) (length bs) xs = bs"
proof -
  have "length (slice p (length as) xs) = length as"
    using arg_cong[OF assms, of length] by (simp add: slice_def)
  with assms show ?thesis by (simp add: slice_add append_eq_append_conv)
qed

lemma slice_take: "p + n \<le> m \<Longrightarrow> slice p n (take m xs) = slice p n xs"
  by (simp add: slice_def drop_take min_def)

lemma slice_middle: "slice (length pre) (length xs) (pre @ xs @ post) = xs"
  by (simp add: slice_def)

section \<open>C strings\<close>

text \<open>
  A \<^verbatim>\<open>char *\<close> is the block of memory it points to, the terminating NUL included; the empty
  block is the NULL pointer (what \<^verbatim>\<open>g_memdup\<close> and \<^verbatim>\<open>g_malloc\<close> return for a size of 0).
  A block without a NUL is not a string: code that scans it leaves the block, which is an
  \<open>Overrun\<close>.
\<close>

type_synonym cblock = "byte list"

definition cstr :: "string \<Rightarrow> cblock" where
  "cstr s = map of_char s @ [0]"

definition c_text :: "cblock \<Rightarrow> byte list" where
  "c_text b = takeWhile (\<lambda>c. c \<noteq> 0) b"

definition c_terminated :: "cblock \<Rightarrow> bool" where
  "c_terminated b \<longleftrightarrow> 0 \<in> set b"

text \<open>\<^verbatim>\<open>strlen\<close>, \<^verbatim>\<open>strcmp\<close> (as a test of equality) and \<^verbatim>\<open>g_strdup\<close>.\<close>

definition c_strlen :: "cblock \<Rightarrow> nat res" where
  "c_strlen b = (if b = [] then Inl Abort else if c_terminated b then Inr (length (c_text b)) else Inl Overrun)"

definition c_streq :: "cblock \<Rightarrow> cblock \<Rightarrow> bool res" where
  "c_streq a b = (if a = [] \<or> b = [] then Inl Abort
     else if c_terminated a \<and> c_terminated b then Inr (c_text a = c_text b)
     else Inl Overrun)"

definition g_strdup :: "cblock \<Rightarrow> cblock res" where
  "g_strdup b = (if b = [] then Inr []
     else if c_terminated b then Inr (c_text b @ [0]) else Inl Overrun)"

text \<open>A block that is exactly one string: its only NUL is its last byte.\<close>

definition c_string :: "cblock \<Rightarrow> bool" where
  "c_string b \<longleftrightarrow> b \<noteq> [] \<and> last b = 0 \<and> 0 \<notin> set (butlast b)"

lemma c_stringE:
  assumes "c_string b" obtains t where "b = t @ [0]" "0 \<notin> set t"
  using assms unfolding c_string_def by (metis append_butlast_last_id)

lemma c_text_append: "0 \<notin> set t \<Longrightarrow> c_text (t @ 0 # u) = t"
  unfolding c_text_def by (induction t) auto

lemma c_string_facts [simp]:
  assumes "c_string b"
  shows "b \<noteq> []" "c_terminated b" "c_text b @ [0] = b" "g_strdup b = Inr b"
    "c_strlen b = Inr (length b - 1)"
proof -
  obtain t where b: "b = t @ [0]" and t: "0 \<notin> set t" using c_stringE[OF assms] .
  have "c_text b = t" using c_text_append[OF t, of "[]"] b by simp
  then show "b \<noteq> []" "c_terminated b" "c_text b @ [0] = b" "g_strdup b = Inr b"
    "c_strlen b = Inr (length b - 1)"
    using b by (simp_all add: c_terminated_def g_strdup_def c_strlen_def)
qed

lemma c_text_Cons_zero [simp]: "c_text (0 # b) = []"
  by (simp add: c_text_def)

end
