(* ===== verification/Giop_Types.thy ===== *)
theory Giop_Types imports Prelude begin

text \<open>
  The data of \<^verbatim>\<open>giop-types.h\<close> and \<^verbatim>\<open>giop-basics.h\<close> that both sides of a connection
  share: protocol versions, message types, header flags and the twelve-byte message header.
  The byte order of the machine, a build constant of the C code, is the parameter \<open>host\<close>
  throughout (True is little endian), so that a sender and a receiver of different byte orders
  can appear in one statement.
\<close>

section \<open>Versions and message types\<close>

datatype GIOPVersion = GIOP_1_0 | GIOP_1_1 | GIOP_1_2

definition GIOP_LATEST :: GIOPVersion where "GIOP_LATEST = GIOP_1_2"

text \<open>\<^verbatim>\<open>giop_version_ids\<close>: the major and minor version bytes of the header.\<close>

fun giop_version_ids :: "GIOPVersion \<Rightarrow> byte list" where
  "giop_version_ids GIOP_1_0 = [1, 0]"
| "giop_version_ids GIOP_1_1 = [1, 1]"
| "giop_version_ids GIOP_1_2 = [1, 2]"

text \<open>\<^verbatim>\<open>GIOPMsgType\<close>, as the octet of the header.\<close>

definition GIOP_REQUEST :: byte where "GIOP_REQUEST = 0"
definition GIOP_REPLY :: byte where "GIOP_REPLY = 1"
definition GIOP_CANCELREQUEST :: byte where "GIOP_CANCELREQUEST = 2"
definition GIOP_LOCATEREQUEST :: byte where "GIOP_LOCATEREQUEST = 3"
definition GIOP_LOCATEREPLY :: byte where "GIOP_LOCATEREPLY = 4"
definition GIOP_CLOSECONNECTION :: byte where "GIOP_CLOSECONNECTION = 5"
definition GIOP_MESSAGEERROR :: byte where "GIOP_MESSAGEERROR = 6"
definition GIOP_FRAGMENT :: byte where "GIOP_FRAGMENT = 7"
definition GIOP_NUM_MSG_TYPES :: byte where "GIOP_NUM_MSG_TYPES = 8"

lemmas giop_msg_types = GIOP_REQUEST_def GIOP_REPLY_def GIOP_CANCELREQUEST_def
  GIOP_LOCATEREQUEST_def GIOP_LOCATEREPLY_def GIOP_CLOSECONNECTION_def GIOP_MESSAGEERROR_def
  GIOP_FRAGMENT_def GIOP_NUM_MSG_TYPES_def

section \<open>Flags\<close>

definition GIOP_FLAG_LITTLE_ENDIAN :: byte where "GIOP_FLAG_LITTLE_ENDIAN = 1"
definition GIOP_FLAG_FRAGMENTED :: byte where "GIOP_FLAG_FRAGMENTED = 2"

definition GIOP_FLAG_ENDIANNESS :: "endian \<Rightarrow> byte" where
  "GIOP_FLAG_ENDIANNESS host = (if host then GIOP_FLAG_LITTLE_ENDIAN else 0)"

definition giop_endian_conversion_needed :: "endian \<Rightarrow> byte \<Rightarrow> bool" where
  "giop_endian_conversion_needed host to_endianness \<longleftrightarrow>
     to_endianness AND GIOP_FLAG_LITTLE_ENDIAN \<noteq> GIOP_FLAG_ENDIANNESS host"

text \<open>The byte order a flags octet announces.\<close>

definition flag_endian :: "byte \<Rightarrow> endian" where
  "flag_endian fl \<longleftrightarrow> bit fl 0"

lemma and_1_byte: "(w :: byte) AND 1 = (if bit w 0 then 1 else 0)"
  by (simp add: and_one_eq bit_0 odd_iff_mod_2_eq_one)

lemma conversion_needed_iff: "giop_endian_conversion_needed host fl \<longleftrightarrow> flag_endian fl \<noteq> host"
  by (simp add: giop_endian_conversion_needed_def GIOP_FLAG_ENDIANNESS_def
      GIOP_FLAG_LITTLE_ENDIAN_def flag_endian_def and_1_byte)

lemma flag_endian_ENDIANNESS [simp]: "flag_endian (GIOP_FLAG_ENDIANNESS e) = e"
  by (simp add: flag_endian_def GIOP_FLAG_ENDIANNESS_def GIOP_FLAG_LITTLE_ENDIAN_def)

section \<open>The message header\<close>

record GIOPMsgHeader =
  magic :: "byte list"
  version :: "byte list"
  flags :: byte
  message_type :: byte
  message_size :: u32

definition giop_magic :: "byte list" where
  "giop_magic = [0x47, 0x49, 0x4f, 0x50]"

text \<open>The image of the header in the memory of the host that holds it, and back.\<close>

definition header_image :: "endian \<Rightarrow> GIOPMsgHeader \<Rightarrow> byte list" where
  "header_image host h =
     magic h @ version h @ [flags h, message_type h] @ u32_bytes host (message_size h)"

definition header_of_image :: "endian \<Rightarrow> byte list \<Rightarrow> GIOPMsgHeader" where
  "header_of_image host m = \<lparr> magic = slice 0 4 m, version = slice 4 2 m,
     flags = m ! 6, message_type = m ! 7, message_size = mem_word host (slice 8 4 m) \<rparr>"

lemma header_image_length:
  "length (magic h) = 4 \<Longrightarrow> length (version h) = 2 \<Longrightarrow> length (header_image host h) = 12"
  by (simp add: header_image_def)

lemma header_of_header_image:
  assumes "length (magic h) = 4" "length (version h) = 2"
  shows "header_of_image host (header_image host h) = h"
proof -
  obtain a b c d where m: "magic h = [a, b, c, d]"
    using assms(1) by (auto simp: length_Suc_conv eval_nat_numeral)
  obtain x y where v: "version h = [x, y]"
    using assms(2) by (auto simp: length_Suc_conv eval_nat_numeral)
  show ?thesis
    using m v by (simp add: header_of_image_def header_image_def slice_def)
qed

lemma version_ids_length [simp]: "length (giop_version_ids v) = 2"
  by (cases v) auto

lemma magic_length [simp]: "length giop_magic = 4"
  by (simp add: giop_magic_def)

end
