(* ===== verification/Send_Buffer.thy ===== *)
theory Send_Buffer imports Giop_Types begin

text \<open>
  The send buffer of \<^verbatim>\<open>giop-send-buffer.c\<close> seen as the bytes it will send. \<open>out\<close> is
  what has been appended behind the message header, \<open>message_size\<close> is the 32-bit size field the
  alignment is computed from. Marshalling code is written over these operations; the iovecs and
  chunks behind them are in the theory \<^verbatim>\<open>Send_Iovec\<close>, which shows that they
  produce these bytes.
\<close>

section \<open>The buffer\<close>

record sbuf =
  s_host :: endian
  s_version :: GIOPVersion
  s_type :: byte
  s_size :: u32
  s_header_size :: nat
  s_out :: "byte list"

text \<open>
  The size field counts what has been appended. \<^verbatim>\<open>header_size\<close> is 12 for a message and 0
  for the buffer an object reference is turned into a string with.
\<close>

definition sb_ok :: "sbuf \<Rightarrow> bool" where
  "sb_ok b \<longleftrightarrow> s_size b = of_nat (length (s_out b)) \<and> s_header_size b < 2 ^ 32"

definition spos :: "sbuf \<Rightarrow> nat" where
  "spos b = s_header_size b + length (s_out b)"

section \<open>Appending\<close>

text \<open>\<^verbatim>\<open>giop_send_buffer_append_real\<close> and \<^verbatim>\<open>giop_send_buffer_append\<close>.\<close>

definition sb_append :: "byte list \<Rightarrow> sbuf \<Rightarrow> sbuf" where
  "sb_append bs b = b\<lparr> s_out := s_out b @ bs, s_size := s_size b + of_nat (length bs) \<rparr>"

definition sb_align :: "nat \<Rightarrow> sbuf \<Rightarrow> sbuf" where
  "sb_align boundary b = (let ms = unat (s_size b + of_nat (s_header_size b));
       align_amt = ALIGN_VALUE ms boundary - ms
     in if align_amt \<noteq> 0 then sb_append (replicate align_amt 0) b else b)"

definition sb_append_aligned :: "byte list \<Rightarrow> sbuf \<Rightarrow> sbuf" where
  "sb_append_aligned bs b = sb_append bs (sb_align (length bs) b)"

text \<open>
  \<^verbatim>\<open>giop_send_buffer_append_aligned\<close> returns where it wrote, which serves as the marker for the
  length of an encapsulation: the code appends a placeholder (or zeros, for a NULL pointer),
  and writes the length into it once it is known.
\<close>

definition sb_append_aligned_at :: "byte list \<Rightarrow> sbuf \<Rightarrow> nat \<times> sbuf" where
  "sb_append_aligned_at bs b = (let b = sb_align (length bs) b in (length (s_out b), sb_append bs b))"

definition sb_patch :: "nat \<Rightarrow> byte list \<Rightarrow> sbuf \<Rightarrow> sbuf" where
  "sb_patch off bs b = b\<lparr> s_out := take off (s_out b) @ bs @ drop (off + length bs) (s_out b) \<rparr>"

text \<open>
  \<^verbatim>\<open>giop_send_buffer_append_string\<close>: the argument is the string with its NUL. The two ways
  the code writes it (contiguously, or in two appends when the chunk is short) send the same bytes.
\<close>

definition sb_append_string :: "cblock \<Rightarrow> sbuf \<Rightarrow> sbuf" where
  "sb_append_string str b = (let b = sb_align 4 b;
       len = of_nat (length (c_text str) + 1) :: u32;
       b = sb_append (u32_bytes (s_host b) len) b
     in sb_append (slice 0 (unat len) str) b)"

text \<open>\<^verbatim>\<open>giop_send_buffer_use\<close>: a fresh buffer, whichever way it was obtained.\<close>

definition giop_send_buffer_use :: "endian \<Rightarrow> GIOPVersion \<Rightarrow> sbuf" where
  "giop_send_buffer_use host v = \<lparr> s_host = host, s_version = v, s_type = 0,
     s_size = 0, s_header_size = 12, s_out = [] \<rparr>"

text \<open>The message as \<^verbatim>\<open>giop_send_buffer_write\<close> sends it.\<close>

definition sb_header :: "sbuf \<Rightarrow> GIOPMsgHeader" where
  "sb_header b = \<lparr> magic = giop_magic, version = giop_version_ids (s_version b),
     flags = GIOP_FLAG_ENDIANNESS (s_host b), message_type = s_type b, message_size = s_size b \<rparr>"

definition sb_wire :: "sbuf \<Rightarrow> byte list" where
  "sb_wire b = header_image (s_host b) (sb_header b) @ s_out b"

section \<open>What the operations append\<close>

lemma sb_append_Nil [simp]: "sb_append [] b = b"
  by (simp add: sb_append_def)

lemma sb_append_append [simp]: "sb_append ys (sb_append xs b) = sb_append (xs @ ys) b"
  by (simp add: sb_append_def)

lemma sb_ok_append [simp]: "sb_ok (sb_append bs b) \<longleftrightarrow> sb_ok b"
  by (simp add: sb_ok_def sb_append_def)

lemma spos_append [simp]: "spos (sb_append bs b) = spos b + length bs"
  by (simp add: spos_def sb_append_def)

lemma sb_append_sel [simp]:
  "s_host (sb_append bs b) = s_host b" "s_version (sb_append bs b) = s_version b"
  "s_type (sb_append bs b) = s_type b" "s_header_size (sb_append bs b) = s_header_size b"
  "s_out (sb_append bs b) = s_out b @ bs"
  by (simp_all add: sb_append_def)

lemma sb_align_sel [simp]:
  "s_host (sb_align n b) = s_host b" "s_version (sb_align n b) = s_version b"
  "s_type (sb_align n b) = s_type b" "s_header_size (sb_align n b) = s_header_size b"
  by (simp_all add: sb_align_def Let_def)

lemma sb_ok_use [simp]: "sb_ok (giop_send_buffer_use host v)"
  by (simp add: sb_ok_def giop_send_buffer_use_def)

lemma use_sel [simp]:
  "s_host (giop_send_buffer_use host v) = host" "s_version (giop_send_buffer_use host v) = v"
  "s_out (giop_send_buffer_use host v) = []" "spos (giop_send_buffer_use host v) = 12"
  "s_header_size (giop_send_buffer_use host v) = 12"
  by (simp_all add: giop_send_buffer_use_def spos_def)

text \<open>The 32-bit size may wrap; the padding is right all the same for every boundary of the code.\<close>

lemma sb_align_pad:
  assumes ok: "sb_ok b" and n: "0 < n" "n dvd 2 ^ 32"
  shows "sb_align n b = sb_append (pad n (spos b)) b"
proof -
  have "unat (s_size b + of_nat (s_header_size b)) = spos b mod 2 ^ 32"
  proof -
    have "s_size b + of_nat (s_header_size b) = (of_nat (spos b) :: u32)"
      using ok by (simp add: sb_ok_def spos_def)
    then show ?thesis by (simp only: unat_of_nat len_of_numeral_defs) simp
  qed
  then have "sb_align n b = sb_append (pad n (spos b mod 2 ^ 32)) b"
    by (simp add: sb_align_def pad_def Let_def)
  then show ?thesis by (simp only: pad_mod[OF n])
qed

lemma sb_align_Suc_0 [simp]: "sb_align (Suc 0) b = b"
  by (simp add: sb_align_def)

lemma sb_align_1248 [simp]:
  assumes "sb_ok b"
  shows "sb_align 1 b = b" "sb_align 2 b = sb_append (pad 2 (spos b)) b"
    "sb_align 4 b = sb_append (pad 4 (spos b)) b" "sb_align 8 b = sb_append (pad 8 (spos b)) b"
proof -
  have d: "(2::nat) dvd 2 ^ 32" "(4::nat) dvd 2 ^ 32" "(8::nat) dvd 2 ^ 32"
    by simp_all
  show "sb_align 1 b = b" by (simp add: sb_align_def)
  show "sb_align 2 b = sb_append (pad 2 (spos b)) b" using assms d by (simp add: sb_align_pad)
  show "sb_align 4 b = sb_append (pad 4 (spos b)) b" using assms d by (simp add: sb_align_pad)
  show "sb_align 8 b = sb_append (pad 8 (spos b)) b" using assms d by (simp add: sb_align_pad)
qed

lemma sb_append_aligned_enc [simp]:
  assumes "sb_ok b"
  shows "sb_append_aligned (u16_bytes e v) b = sb_append (pad 2 (spos b) @ u16_bytes e v) b"
    "sb_append_aligned (u32_bytes e w) b = sb_append (pad 4 (spos b) @ u32_bytes e w) b"
    "sb_append_aligned (u64_bytes e x) b = sb_append (pad 8 (spos b) @ u64_bytes e x) b"
  using assms by (simp_all add: sb_append_aligned_def)

section \<open>Encapsulations\<close>

text \<open>
  Writing over a placeholder that ends up in front of \<open>body\<close> gives what appending the final bytes
  in the first place would have given.
\<close>

lemma sb_patch_append:
  assumes "length old = length new"
  shows "sb_patch (length (s_out b)) new (sb_append (old @ body) b) = sb_append (new @ body) b"
  using assms by (simp add: sb_patch_def sb_append_def)

text \<open>
  The steps every encapsulation is written with: the placeholder, the size so far, the octet with
  the byte order, the contents, and the length over the placeholder.
\<close>

definition sb_encaps :: "u32 \<Rightarrow> (sbuf \<Rightarrow> sbuf) \<Rightarrow> sbuf \<Rightarrow> sbuf" where
  "sb_encaps placeholder body b = (let (marker, b) = sb_append_aligned_at (u32_bytes (s_host b) placeholder) b;
       len = s_size b;
       b = sb_append [GIOP_FLAG_ENDIANNESS (s_host b)] b;
       b = body b;
       len = s_size b - len
     in sb_patch marker (u32_bytes (s_host b) len) b)"

lemma s_size_append: "s_size (sb_append bs b) = s_size b + of_nat (length bs)"
  by (simp add: sb_append_def)

lemma sb_encaps_append:
  assumes b: "sb_ok b"
    and body: "\<And>c. sb_ok c \<Longrightarrow> s_host c = s_host b \<Longrightarrow> s_header_size c = s_header_size b \<Longrightarrow>
      spos c = ALIGN_VALUE (spos b) 4 + 5 \<Longrightarrow> body c = sb_append x c"
  shows "sb_encaps pl body b = sb_append (pad 4 (spos b) @
    u32_bytes (s_host b) (of_nat (Suc (length x))) @ GIOP_FLAG_ENDIANNESS (s_host b) # x) b"
proof -
  let ?f = "GIOP_FLAG_ENDIANNESS (s_host b)" and ?pl = "u32_bytes (s_host b) pl"
  let ?c = "sb_append (pad 4 (spos b)) b"
  have q: "spos (sb_append (?pl @ [?f]) ?c) = ALIGN_VALUE (spos b) 4 + 5"
    using pad_pos[of 4 "spos b"] by simp
  have "body (sb_append (?pl @ [?f]) ?c) = sb_append x (sb_append (?pl @ [?f]) ?c)"
    by (rule body) (use b q in simp_all)
  then have "sb_encaps pl body b = sb_patch (length (s_out ?c))
      (u32_bytes (s_host b) (of_nat (Suc (length x)))) (sb_append (?pl @ ?f # x) ?c)"
    using b by (simp add: sb_encaps_def sb_append_aligned_at_def Let_def s_size_append)
  also have "\<dots> = sb_append (u32_bytes (s_host b) (of_nat (Suc (length x))) @ ?f # x) ?c"
    by (rule sb_patch_append) simp
  finally show ?thesis by simp
qed

end
