(* ===== verification/Recv_Base.thy ===== *)
theory Recv_Base imports Send_Buffer begin

text \<open>
  The receive buffer as the demarshalling code sees it (\<^verbatim>\<open>giop-recv-buffer.h\<close>): a block of
  memory, the window \<^verbatim>\<open>cur\<close> to \<^verbatim>\<open>end\<close> in it, and the header's flags. Pointers are offsets
  into the block, which starts on an 8-byte boundary as \<^verbatim>\<open>alloc_buffer\<close> assumes, so that
  aligning the address is aligning the offset. A reader is a function of the buffer that returns a
  value and the advanced buffer; a read outside the block is an \<open>Overrun\<close>. Addresses are 64 bits
  wide and a length is at most 32 bits, so the second half of the code's length checks,
  \<^verbatim>\<open>(cur + len) < cur\<close>, cannot hold and \<open>rd_need\<close> keeps the first.
\<close>

section \<open>The buffer and its readers\<close>

record rbuf =
  r_host :: endian
  r_mem :: "byte list"
  r_flags :: byte
  r_version :: GIOPVersion
  r_type :: byte
  r_size :: u32
  r_body :: nat
  r_cur :: nat
  r_end :: nat

type_synonym 'a reader = "rbuf \<Rightarrow> ('a \<times> rbuf) res"

definition rd_ret :: "'a \<Rightarrow> 'a reader" where
  "rd_ret v b = Inr (v, b)"

definition rd_bind :: "'a reader \<Rightarrow> ('a \<Rightarrow> 'b reader) \<Rightarrow> 'b reader" where
  "rd_bind m k b = rbind (m b) (\<lambda>(v, b'). k v b')"

definition rd_fail :: "err \<Rightarrow> 'a reader" where
  "rd_fail e b = Inl e"

definition giop_msg_conversion_needed :: "rbuf \<Rightarrow> bool" where
  "giop_msg_conversion_needed b = giop_endian_conversion_needed (r_host b) (r_flags b)"

text \<open>\<^verbatim>\<open>buf->cur = ALIGN_ADDRESS (buf->cur, n)\<close>, and
  \<^verbatim>\<open>if ((buf->cur + n) > buf->end) return TRUE\<close>.\<close>

definition rd_align :: "nat \<Rightarrow> unit reader" where
  "rd_align n b = Inr ((), b\<lparr> r_cur := ALIGN_VALUE (r_cur b) n \<rparr>)"

definition rd_need :: "nat \<Rightarrow> unit reader" where
  "rd_need n b = (if r_cur b + n > r_end b then Inl Broken else Inr ((), b))"

text \<open>Reading the next bytes and stepping over them; loads swap when the orders differ.\<close>

definition rd_bytes :: "nat \<Rightarrow> byte list reader" where
  "rd_bytes n b = (if n = 0 \<or> r_cur b + n \<le> length (r_mem b)
     then Inr (slice (r_cur b) n (r_mem b), b\<lparr> r_cur := r_cur b + n \<rparr>) else Inl Overrun)"

definition rd_load :: "nat \<Rightarrow> ('a::len word \<Rightarrow> 'a word) \<Rightarrow> 'a word reader" where
  "rd_load n swap b = rd_bind (rd_bytes n) (\<lambda>m. rd_ret
     (let w = mem_word (r_host b) m in if giop_msg_conversion_needed b then swap w else w)) b"

definition rd_u16 :: "u16 reader" where "rd_u16 = rd_load 2 GUINT16_SWAP_LE_BE"
definition rd_u32 :: "u32 reader" where "rd_u32 = rd_load 4 GUINT32_SWAP_LE_BE"
definition rd_u64 :: "u64 reader" where "rd_u64 = rd_load 8 GUINT64_SWAP_LE_BE"

definition rd_byte :: "byte reader" where
  "rd_byte = rd_bind (rd_bytes 1) (\<lambda>m. rd_ret (m ! 0))"

text \<open>The three lines every integer is read with, and a counted block of octets.\<close>

definition rd_ulong :: "u32 reader" where
  "rd_ulong = rd_bind (rd_align 4) (\<lambda>_. rd_bind (rd_need 4) (\<lambda>_. rd_u32))"

definition rd_octets :: "byte list reader" where
  "rd_octets = rd_bind rd_ulong (\<lambda>len. rd_bind (rd_need (unat len)) (\<lambda>_. rd_bytes (unat len)))"

lemma rd_bind_assoc: "rd_bind (rd_bind m k) h = rd_bind m (\<lambda>x. rd_bind (k x) h)"
  by (rule ext) (auto simp: rd_bind_def rbind_def split: sum.splits prod.splits)

lemma rd_bind_ret [simp]: "rd_bind (rd_ret x) k = k x"
  by (rule ext) (simp add: rd_bind_def rd_ret_def)

section \<open>What a reader accepts\<close>

text \<open>
  \<open>parses m e p bs v\<close>: on every buffer whose sender has byte order \<open>e\<close> and whose window shows the
  bytes \<open>bs\<close> at offset \<open>p\<close>, whatever follows them, the reader returns \<open>v\<close> and steps over \<open>bs\<close>.
  The rules below turn a reader into the format it reads.
\<close>

definition at_bytes :: "nat \<Rightarrow> byte list \<Rightarrow> rbuf \<Rightarrow> bool" where
  "at_bytes p bs b \<longleftrightarrow> r_cur b = p \<and> p + length bs \<le> r_end b \<and> r_end b \<le> length (r_mem b)
     \<and> slice p (length bs) (r_mem b) = bs"

definition parses :: "'a reader \<Rightarrow> endian \<Rightarrow> nat \<Rightarrow> byte list \<Rightarrow> 'a \<Rightarrow> bool" where
  "parses m e p bs v \<longleftrightarrow> (\<forall>b. flag_endian (r_flags b) = e \<longrightarrow> at_bytes p bs b \<longrightarrow>
     m b = Inr (v, b\<lparr> r_cur := p + length bs \<rparr>))"

lemma parsesI:
  "(\<And>b. flag_endian (r_flags b) = e \<Longrightarrow> at_bytes p bs b \<Longrightarrow>
     m b = Inr (v, b\<lparr> r_cur := p + length bs \<rparr>)) \<Longrightarrow> parses m e p bs v"
  by (simp add: parses_def)

lemma parsesD:
  "parses m e p bs v \<Longrightarrow> flag_endian (r_flags b) = e \<Longrightarrow> at_bytes p bs b \<Longrightarrow>
     m b = Inr (v, b\<lparr> r_cur := p + length bs \<rparr>)"
  by (simp add: parses_def)

lemma at_bytes_append:
  assumes "at_bytes p (as @ bs) b"
  shows "at_bytes p as b" "at_bytes (p + length as) bs (b\<lparr> r_cur := p + length as \<rparr>)"
  using assms slice_append_eq[of p as bs "r_mem b"] by (simp_all add: at_bytes_def)

lemma parses_ret [intro]: "parses (rd_ret v) e p [] v"
  by (rule parsesI) (simp add: rd_ret_def at_bytes_def)

lemma parses_bind:
  assumes "parses m e p as u" "parses (k u) e (p + length as) bs v"
  shows "parses (rd_bind m k) e p (as @ bs) v"
proof (rule parsesI)
  fix b assume e: "flag_endian (r_flags b) = e" and a: "at_bytes p (as @ bs) b"
  note w = at_bytes_append[OF a]
  have "k u (b\<lparr> r_cur := p + length as \<rparr>)
      = Inr (v, b\<lparr> r_cur := p + length as \<rparr>\<lparr> r_cur := p + length as + length bs \<rparr>)"
    by (rule parsesD[OF assms(2)]) (use e w in simp_all)
  with parsesD[OF assms(1) e w(1)]
  show "rd_bind m k b = Inr (v, b\<lparr> r_cur := p + length (as @ bs) \<rparr>)"
    by (simp add: rd_bind_def add.assoc)
qed

lemma parses_bind':
  "parses m e p as u \<Longrightarrow> parses (k u) e (p + length as) bs v \<Longrightarrow> cs = as @ bs \<Longrightarrow>
     parses (rd_bind m k) e p cs v"
  by (simp add: parses_bind)

lemma parses_bind_ret:
  "parses m e p bs u \<Longrightarrow> v = f u \<Longrightarrow> parses (rd_bind m (\<lambda>x. rd_ret (f x))) e p bs v"
  using parses_bind[of m e p bs u "\<lambda>x. rd_ret (f x)" "[]" v] by auto

lemma parses_align: "0 < n \<Longrightarrow> parses (rd_align n) e p (pad n p) ()"
  by (rule parsesI) (auto simp: rd_align_def at_bytes_def dest: ALIGN_VALUE_ge[of n p])

lemma parses_need:
  "n \<le> length bs \<Longrightarrow> parses (k ()) e p bs v \<Longrightarrow> parses (rd_bind (rd_need n) k) e p bs v"
  by (rule parsesI) (auto simp: rd_bind_def rd_need_def at_bytes_def dest!: parsesD)

lemma parses_bytes: "n = length bs \<Longrightarrow> parses (rd_bytes n) e p bs bs"
  by (rule parsesI) (auto simp: rd_bytes_def at_bytes_def)

lemma parses_load:
  assumes swap: "\<And>h bs. length bs = n \<Longrightarrow> swap (mem_word h bs) = mem_word (\<not> h) bs"
    and w: "mem_word e (mem_bytes n e w) = w"
  shows "parses (rd_load n swap) e p (mem_bytes n e w) w"
proof (rule parsesI)
  fix b assume e: "flag_endian (r_flags b) = e" and a: "at_bytes p (mem_bytes n e w) b"
  have c: "giop_msg_conversion_needed b \<longleftrightarrow> e \<noteq> r_host b"
    using e by (simp add: giop_msg_conversion_needed_def conversion_needed_iff)
  show "rd_load n swap b = Inr (w, b\<lparr> r_cur := p + length (mem_bytes n e w) \<rparr>)"
    using parsesD[OF parses_bytes[OF refl] e a] w swap[of "mem_bytes n e w" "r_host b"]
    by (cases "e = r_host b") (simp_all add: rd_load_def rd_bind_def rd_ret_def c)
qed

lemma parses_u16: "parses rd_u16 e p (u16_bytes e w) w"
  unfolding rd_u16_def by (rule parses_load) (simp_all add: bytes_simps)

lemma parses_u32: "parses rd_u32 e p (u32_bytes e w) w"
  unfolding rd_u32_def by (rule parses_load) (simp_all add: bytes_simps)

lemma parses_u64: "parses rd_u64 e p (u64_bytes e w) w"
  unfolding rd_u64_def by (rule parses_load) (simp_all add: bytes_simps)

lemma parses_byte: "parses rd_byte e p [c] c"
  unfolding rd_byte_def by (rule parses_bind_ret[OF parses_bytes]) simp_all

text \<open>The format of an aligned integer and of a counted block, from position \<open>p\<close>.\<close>

definition enc_ulong :: "endian \<Rightarrow> u32 \<Rightarrow> nat \<Rightarrow> byte list" where
  "enc_ulong e w p = pad 4 p @ u32_bytes e w"

definition enc_octets :: "endian \<Rightarrow> byte list \<Rightarrow> nat \<Rightarrow> byte list" where
  "enc_octets e bs p = enc_ulong e (of_nat (length bs)) p @ bs"

lemma parses_ulong: "parses rd_ulong e p (enc_ulong e w p) w"
  unfolding rd_ulong_def enc_ulong_def
  by (intro parses_bind[OF parses_align] parses_need parses_u32) simp_all

lemma unat_of_nat_u32: "n < 2 ^ 32 \<Longrightarrow> unat (of_nat n :: u32) = n"
  by (simp add: unat_of_nat take_bit_nat_eq_self)

lemma parses_octets:
  assumes "length bs < 2 ^ 32" shows "parses rd_octets e p (enc_octets e bs p) bs"
  unfolding rd_octets_def enc_octets_def
  by (intro parses_bind[OF parses_ulong] parses_need parses_bytes)
    (use unat_of_nat_u32[OF assms] in simp_all)

section \<open>Readers that stay inside the block\<close>

text \<open>
  \<open>safe E s n m\<close>: on a buffer whose block goes on for at least \<open>s\<close> bytes behind the window, with
  \<open>n\<close> bytes left in the window (nothing known when \<open>n\<close> is 0), the reader fails cleanly, or with one
  of the errors \<open>E\<close>, or returns with the window's start moved forward and nothing else changed.
  \<open>safe {} 0 0 m\<close> says that the reader never reads outside the block and never ends the process.
\<close>

definition rwf :: "nat \<Rightarrow> rbuf \<Rightarrow> bool" where
  "rwf s b \<longleftrightarrow> r_end b + s \<le> length (r_mem b)"

definition avail :: "nat \<Rightarrow> rbuf \<Rightarrow> bool" where
  "avail n b \<longleftrightarrow> n = 0 \<or> r_cur b + n \<le> r_end b"

definition moved :: "rbuf \<Rightarrow> rbuf \<Rightarrow> bool" where
  "moved b b' \<longleftrightarrow> r_cur b \<le> r_cur b' \<and> b' = b\<lparr> r_cur := r_cur b' \<rparr>"

definition safe :: "err set \<Rightarrow> nat \<Rightarrow> nat \<Rightarrow> 'a reader \<Rightarrow> bool" where
  "safe E s n m \<longleftrightarrow> (\<forall>b. rwf s b \<longrightarrow> avail n b \<longrightarrow>
     (case m b of Inl e \<Rightarrow> e \<in> insert Broken E | Inr (v, b') \<Rightarrow> moved b b'))"

named_theorems safe_rules "rules for readers that stay inside the block"

lemma safeI:
  "(\<And>b. rwf s b \<Longrightarrow> avail n b \<Longrightarrow> case m b of Inl e \<Rightarrow> e \<in> insert Broken E | Inr (v, b') \<Rightarrow> moved b b')
     \<Longrightarrow> safe E s n m"
  by (simp add: safe_def)

lemma moved_refl [simp]: "moved b b"
  by (simp add: moved_def)

lemma moved_trans: "moved a b \<Longrightarrow> moved b c \<Longrightarrow> moved a c"
  unfolding moved_def
  by (metis (no_types, lifting) order_trans rbuf.surjective rbuf.update_convs(8))

lemma moved_rwf: "moved b b' \<Longrightarrow> rwf s b \<Longrightarrow> rwf s b'"
  unfolding moved_def rwf_def by (metis rbuf.select_convs(2,9) rbuf.surjective rbuf.update_convs(8))

lemma safeD: "safe E s n m \<Longrightarrow> rwf s b \<Longrightarrow> avail n b \<Longrightarrow> m b = Inl e \<Longrightarrow> e \<in> insert Broken E"
  by (auto simp: safe_def split: sum.splits)

lemma safe_moved:
  "safe E s n m \<Longrightarrow> rwf s b \<Longrightarrow> avail n b \<Longrightarrow> m b = Inr (v, b') \<Longrightarrow> moved b b'"
  by (fastforce simp: safe_def split: sum.splits)

lemma safe_0 [dest]: "safe E s 0 m \<Longrightarrow> safe E s n m"
  by (simp add: safe_def avail_def)

lemma safe_ret [safe_rules]: "safe E s n (rd_ret v)"
  by (rule safeI) (simp add: rd_ret_def)

lemma safe_fail [safe_rules]: "e \<in> insert Broken E \<Longrightarrow> safe E s n (rd_fail e)"
  by (rule safeI) (simp add: rd_fail_def)

text \<open>
  Steps of known length use up what is known to be left; after any other step nothing is known.
\<close>

lemma safe_bind:
  assumes m: "safe E s 0 m" and k: "\<And>x. safe E s 0 (k x)"
  shows "safe E s n (rd_bind m k)"
proof (rule safeI)
  fix b assume b: "rwf s b"
  have a: "avail 0 c" for c by (simp add: avail_def)
  show "case rd_bind m k b of Inl e \<Rightarrow> e \<in> insert Broken E | Inr (v, b') \<Rightarrow> moved b b'"
  proof (cases "m b")
    case (Inl e)
    then show ?thesis using safeD[OF m b a] by (simp add: rd_bind_def)
  next
    case (Inr vb)
    then obtain v b1 where v: "m b = Inr (v, b1)" by (cases vb) auto
    have mv: "moved b b1" and b1: "rwf s b1"
      using safe_moved[OF m b a v] moved_rwf b by auto
    show ?thesis
      using v k[of v] b1 a[of b1] mv moved_trans[OF mv]
      by (fastforce simp: rd_bind_def safe_def split: sum.splits)
  qed
qed

lemma safe_need:
  assumes "safe E s m (k ())" shows "safe E s n (rd_bind (rd_need m) k)"
proof (rule safeI)
  fix b assume b: "rwf s b"
  show "case rd_bind (rd_need m) k b of Inl e \<Rightarrow> e \<in> insert Broken E | Inr (v, b') \<Rightarrow> moved b b'"
    using assms b by (auto simp: rd_bind_def rd_need_def safe_def avail_def split: sum.splits)
qed

lemma safe_need_end [safe_rules]: "safe E s n (rd_need m)"
  by (rule safeI) (auto simp: rd_need_def split: sum.splits)

lemma safe_align [safe_rules]: "0 < m \<Longrightarrow> safe E s n (rd_align m)"
  by (rule safeI) (simp add: rd_align_def moved_def ALIGN_VALUE_ge)

lemma safe_bytes_bind:
  assumes len: "m \<le> n" and k: "\<And>x. length x = m \<Longrightarrow> safe E s (n - m) (k x)"
  shows "safe E s n (rd_bind (rd_bytes m) k)"
proof (rule safeI)
  fix b assume b: "rwf s b" and a: "avail n b"
  show "case rd_bind (rd_bytes m) k b of Inl e \<Rightarrow> e \<in> insert Broken E | Inr (v, b') \<Rightarrow> moved b b'"
  proof (cases "m = 0 \<or> r_cur b + m \<le> length (r_mem b)")
    case True
    let ?b = "b\<lparr> r_cur := r_cur b + m \<rparr>"
    have mv: "moved b ?b" and b': "rwf s ?b" using b by (simp_all add: moved_def rwf_def)
    have a': "avail (n - m) ?b" using a len by (auto simp: avail_def)
    have "safe E s (n - m) (k (slice (r_cur b) m (r_mem b)))"
      using True by (intro k) (auto simp: slice_length)
    then show ?thesis
      using True b' a' moved_trans[OF mv]
      by (fastforce simp: rd_bind_def rd_bytes_def safe_def split: sum.splits)
  next
    case False
    then show ?thesis using a b len by (auto simp: avail_def rwf_def)
  qed
qed

lemma safe_load_bind:
  "m \<le> n \<Longrightarrow> (\<And>x. safe E s (n - m) (k x)) \<Longrightarrow> safe E s n (rd_bind (rd_load m sw) k)"
proof (rule safeI)
  fix b assume len: "m \<le> n" and k: "\<And>x. safe E s (n - m) (k x)" and b: "rwf s b" and a: "avail n b"
  let ?f = "\<lambda>mm. k (let w = mem_word (r_host b) mm in if giop_msg_conversion_needed b then sw w else w)"
  have "rd_bind (rd_load m sw) k b = rd_bind (rd_bytes m) ?f b"
    by (auto simp: rd_bind_def rd_load_def rd_ret_def rbind_def split: sum.splits)
  moreover have "safe E s n (rd_bind (rd_bytes m) ?f)" by (rule safe_bytes_bind[OF len k])
  ultimately show "case rd_bind (rd_load m sw) k b of Inl e \<Rightarrow> e \<in> insert Broken E | Inr (v, b') \<Rightarrow> moved b b'"
    using a b by (simp add: safe_def)
qed

lemma safe_u32_bind: "4 \<le> n \<Longrightarrow> (\<And>x. safe E s (n - 4) (k x)) \<Longrightarrow> safe E s n (rd_bind rd_u32 k)"
  unfolding rd_u32_def by (rule safe_load_bind)

lemma safe_u16_bind: "2 \<le> n \<Longrightarrow> (\<And>x. safe E s (n - 2) (k x)) \<Longrightarrow> safe E s n (rd_bind rd_u16 k)"
  unfolding rd_u16_def by (rule safe_load_bind)

lemma safe_u64_bind: "8 \<le> n \<Longrightarrow> (\<And>x. safe E s (n - 8) (k x)) \<Longrightarrow> safe E s n (rd_bind rd_u64 k)"
  unfolding rd_u64_def by (rule safe_load_bind)

lemma safe_byte_bind: "1 \<le> n \<Longrightarrow> (\<And>x. safe E s (n - 1) (k x)) \<Longrightarrow> safe E s n (rd_bind rd_byte k)"
  unfolding rd_byte_def rd_bind_assoc by (rule safe_bytes_bind) simp_all

lemma safe_end: "safe E s n (rd_bind m rd_ret) \<Longrightarrow> safe E s n m"
proof -
  have "rd_bind m rd_ret = m"
    by (rule ext) (auto simp: rd_bind_def rd_ret_def rbind_def split: sum.splits)
  then show "safe E s n (rd_bind m rd_ret) \<Longrightarrow> safe E s n m" by simp
qed

lemma safe_bytes: "m \<le> n \<Longrightarrow> safe E s n (rd_bytes m)"
  by (rule safe_end, erule safe_bytes_bind, rule safe_ret)

lemma safe_u32: "4 \<le> n \<Longrightarrow> safe E s n rd_u32"
  by (rule safe_end, erule safe_u32_bind, rule safe_ret)

lemma safe_u16: "2 \<le> n \<Longrightarrow> safe E s n rd_u16"
  by (rule safe_end, erule safe_u16_bind, rule safe_ret)

lemma safe_u64: "8 \<le> n \<Longrightarrow> safe E s n rd_u64"
  by (rule safe_end, erule safe_u64_bind, rule safe_ret)

lemma safe_byte: "1 \<le> n \<Longrightarrow> safe E s n rd_byte"
  by (rule safe_end, erule safe_byte_bind, rule safe_ret)

lemma safe_ulong [safe_rules]: "safe E s n rd_ulong"
  unfolding rd_ulong_def
  by (rule safe_bind, rule safe_align, simp, rule safe_need, rule safe_u32, simp)

lemma safe_octets [safe_rules]: "safe E s n rd_octets"
  unfolding rd_octets_def
  by (rule safe_bind, rule safe_ulong, rule safe_need, rule safe_bytes, simp)

lemma safe_if [safe_rules]: "(c \<Longrightarrow> safe E s n m) \<Longrightarrow> (\<not> c \<Longrightarrow> safe E s n m') \<Longrightarrow> safe E s n (if c then m else m')"
  by simp

section \<open>Encapsulations\<close>

text \<open>
  \<^verbatim>\<open>giop_recv_buffer_use_encaps\<close> opens a buffer on part of the block; its first octet says
  which byte order the rest is in. The octet is read before any check of the length: an empty
  encapsulation at the very end of the block is read one byte past it.
\<close>

definition giop_recv_buffer_use_encaps :: "rbuf \<Rightarrow> nat \<Rightarrow> nat \<Rightarrow> rbuf res" where
  "giop_recv_buffer_use_encaps b mem len = (if mem < length (r_mem b)
     then Inr \<lparr> r_host = r_host b, r_mem = r_mem b, r_flags = r_mem b ! mem,
       r_version = GIOP_LATEST, r_type = 0, r_size = of_nat len, r_body = mem,
       r_cur = mem + 1, r_end = mem + len \<rparr>
     else Inl Overrun)"

definition giop_recv_buffer_use_encaps_buf :: "rbuf reader" where
  "giop_recv_buffer_use_encaps_buf = rd_bind rd_ulong (\<lambda>len. rd_bind (rd_need (unat len)) (\<lambda>_ b.
     rbind (giop_recv_buffer_use_encaps b (r_cur b) (unat len)) (\<lambda>sub.
       Inr (sub, b\<lparr> r_cur := r_cur b + unat len \<rparr>))))"

text \<open>Reading from the inner buffer leaves the outer one where it is.\<close>

definition rd_sub :: "'a reader \<Rightarrow> rbuf \<Rightarrow> 'a reader" where
  "rd_sub m sub b = rbind (m sub) (\<lambda>(v, _). Inr (v, b))"

definition rd_encaps :: "'a reader \<Rightarrow> 'a reader" where
  "rd_encaps m = rd_bind giop_recv_buffer_use_encaps_buf (rd_sub m)"

lemma slice_nth: "slice p (Suc n) xs = y # ys \<Longrightarrow> p < length xs \<and> xs ! p = y"
proof -
  assume a: "slice p (Suc n) xs = y # ys"
  then have "drop p xs \<noteq> []" by (auto simp: slice_def)
  then have p: "p < length xs" by simp
  with a show ?thesis by (simp add: slice_def flip: Cons_nth_drop_Suc)
qed

text \<open>
  \<open>accepts\<close> is \<open>parses\<close> for a reader that may leave some of the bytes unread, as the reader of an
  encapsulation may.
\<close>

definition accepts :: "'a reader \<Rightarrow> endian \<Rightarrow> nat \<Rightarrow> byte list \<Rightarrow> 'a \<Rightarrow> bool" where
  "accepts m e p bs v \<longleftrightarrow> (\<exists>ys zs. bs = ys @ zs \<and> parses m e p ys v)"

lemma accepts_parses: "parses m e p bs v \<Longrightarrow> accepts m e p bs v"
  unfolding accepts_def by (metis append_Nil2)

lemma accepts_prefix: "parses m e p ys v \<Longrightarrow> accepts m e p (ys @ zs) v"
  by (auto simp: accepts_def)

lemma accepts_bind:
  "parses m e p as u \<Longrightarrow> accepts (k u) e (p + length as) bs v \<Longrightarrow>
     accepts (rd_bind m k) e p (as @ bs) v"
  unfolding accepts_def by (metis append_assoc parses_bind)

lemma parses_open_encaps:
  assumes m: "accepts m (flag_endian f) (p + 1) bs v" and n: "n = Suc (length bs)"
  shows "parses (\<lambda>b. rbind (giop_recv_buffer_use_encaps b (r_cur b) n)
      (\<lambda>sub. rd_sub m sub (b\<lparr> r_cur := r_cur b + n \<rparr>))) e p (f # bs) v"
proof (rule parsesI)
  fix b assume a: "at_bytes p (f # bs) b"
  obtain ys zs where bs: "bs = ys @ zs" and ys: "parses m (flag_endian f) (p + 1) ys v"
    using m by (auto simp: accepts_def)
  have p: "r_cur b = p" "p < length (r_mem b)" "r_mem b ! p = f"
    using a slice_nth[of p "length bs" "r_mem b" f bs] by (simp_all add: at_bytes_def)
  then obtain sub where sub: "giop_recv_buffer_use_encaps b (r_cur b) n = Inr sub"
      "r_mem sub = r_mem b" "r_flags sub = f" "r_cur sub = p + 1" "r_end sub = p + n"
    by (simp add: giop_recv_buffer_use_encaps_def)
  have "at_bytes (p + 1) bs sub"
    using at_bytes_append(2)[of p "[f]" bs b] a n sub by (simp add: at_bytes_def)
  then have "at_bytes (p + 1) ys sub" unfolding bs by (rule at_bytes_append(1))
  then have "m sub = Inr (v, sub\<lparr> r_cur := p + 1 + length ys \<rparr>)"
    by (intro parsesD[OF ys]) (simp_all add: sub)
  then show "rbind (giop_recv_buffer_use_encaps b (r_cur b) n)
      (\<lambda>sub. rd_sub m sub (b\<lparr> r_cur := r_cur b + n \<rparr>))
      = Inr (v, b\<lparr> r_cur := p + length (f # bs) \<rparr>)"
    using p sub n by (simp add: rd_sub_def)
qed

text \<open>Opening an encapsulation, once its length is known.\<close>

definition rd_window :: "nat \<Rightarrow> 'a reader \<Rightarrow> 'a reader" where
  "rd_window l m = rd_bind (rd_need l) (\<lambda>_ b.
     rbind (giop_recv_buffer_use_encaps b (r_cur b) l)
      (\<lambda>sub. rd_sub m sub (b\<lparr> r_cur := r_cur b + l \<rparr>)))"

lemma rd_encaps_window: "rd_encaps m = rd_bind rd_ulong (\<lambda>len. rd_window (unat len) m)"
  by (rule ext) (auto simp: rd_encaps_def giop_recv_buffer_use_encaps_buf_def rd_bind_def
      rd_window_def rbind_def split: sum.splits)

lemma parses_encaps:
  assumes m: "accepts m (flag_endian f) (ALIGN_VALUE p 4 + 5) bs v" and n: "Suc (length bs) < 2 ^ 32"
  shows "parses (rd_encaps m) e p (enc_octets e (f # bs) p) v"
proof -
  obtain w :: u32 where w: "w = of_nat (length (f # bs))" by blast
  have u: "unat w = Suc (length bs)" using unat_of_nat_u32[OF n] w by simp
  have q: "p + length (enc_ulong e w p) = ALIGN_VALUE p 4 + 4"
    using pad_pos[of 4 p] by (simp add: enc_ulong_def)
  have "parses (rd_window (unat w) m) e (p + length (enc_ulong e w p)) (f # bs) v"
    unfolding q rd_window_def using m u
    by (intro parses_need parses_open_encaps) (simp_all add: eval_nat_numeral)
  then show ?thesis
    unfolding enc_octets_def w[symmetric] rd_encaps_window
    by (auto intro!: parses_bind[OF parses_ulong])
qed

lemma safe_window:
  assumes m: "safe E s 0 m" and E: "0 < s \<or> Overrun \<in> E"
  shows "safe E s n (rd_window l m)"
proof (rule safeI)
  fix b assume b: "rwf s b"
  show "case rd_window l m b of Inl e \<Rightarrow> e \<in> insert Broken E | Inr (v, b') \<Rightarrow> moved b b'"
  proof (cases "r_cur b + l > r_end b")
    case True
    then show ?thesis by (simp add: rd_window_def rd_bind_def rd_need_def)
  next
    case False
    show ?thesis
    proof (cases "giop_recv_buffer_use_encaps b (r_cur b) l")
      case (Inl e)
      then show ?thesis using E b False
        by (auto simp: rd_window_def rd_bind_def rd_need_def giop_recv_buffer_use_encaps_def
            rwf_def split: if_splits)
    next
      case (Inr sub)
      then have sub: "rwf s sub" "avail 0 sub"
        using b False by (auto simp: giop_recv_buffer_use_encaps_def avail_def rwf_def split: if_splits)
      show ?thesis
      proof (cases "m sub")
        case (Inl e)
        then show ?thesis using False Inr safeD[OF m sub Inl]
          by (simp add: rd_window_def rd_bind_def rd_need_def rd_sub_def)
      next
        case (Inr vb)
        then show ?thesis using False \<open>giop_recv_buffer_use_encaps b (r_cur b) l = Inr sub\<close>
          by (cases vb) (simp add: rd_window_def rd_bind_def rd_need_def rd_sub_def moved_def)
      qed
    qed
  qed
qed

lemma safe_encaps:
  "safe E s 0 m \<Longrightarrow> 0 < s \<or> Overrun \<in> E \<Longrightarrow> safe E s n (rd_encaps m)"
  unfolding rd_encaps_window by (rule safe_bind, rule safe_ulong, rule safe_window)

text \<open>Counted repetition: \<^verbatim>\<open>for (i = 0; i < len; i++)\<close> around a reader.\<close>

fun rd_loop :: "'a reader \<Rightarrow> nat \<Rightarrow> 'a list reader" where
  "rd_loop g 0 = rd_ret []"
| "rd_loop g (Suc n) = rd_bind g (\<lambda>x. rd_bind (rd_loop g n) (\<lambda>xs. rd_ret (x # xs)))"

lemma safe_loop: "safe E s 0 g \<Longrightarrow> safe E s k (rd_loop g n)"
proof (induction n arbitrary: k)
  case (Suc n)
  then show ?case by (simp add: safe_bind safe_ret)
qed (simp add: safe_ret)

text \<open>
  The rules in the order to try them: a check first, then the steps of known length, then the
  general rule for sequences.
\<close>

lemmas safe_steps = safe_need safe_u32_bind safe_u16_bind safe_u64_bind safe_byte_bind
  safe_bytes_bind safe_u32 safe_u16 safe_u64 safe_byte safe_bytes safe_ret safe_fail safe_if
  safe_need_end safe_align safe_ulong safe_octets safe_encaps safe_loop safe_bind

lemma safe_mono: "safe E s 0 m \<Longrightarrow> E \<subseteq> E' \<Longrightarrow> s \<le> s' \<Longrightarrow> safe E' s' n m"
  unfolding safe_def rwf_def avail_def by (auto split: sum.splits dest: spec)
    (metis (no_types, lifting) add_le_cancel_left insertE le_trans sum.simps(5) subsetD)+

lemma safe_self: "(\<And>buf. safe E s n (f buf)) \<Longrightarrow> safe E s n (\<lambda>b. f b b)"
  by (simp add: safe_def)

end
