(* ===== verification/Codec.thy ===== *)
theory Codec imports Recv_Base begin

text \<open>
  The contract between marshalling and demarshalling: the interface \<open>cdr_codec\<close> of a type that
  is written to a send buffer and read back from a receive buffer, what follows from it for lists
  of such values and for whole messages, and the codecs of the basic types.
\<close>

section \<open>Messages in transit\<close>

text \<open>
  The receive buffer that holds the message of a send buffer after it has travelled to a machine of
  byte order \<open>host\<close>, with the reading position at \<open>p\<close>: \<^verbatim>\<open>alloc_buffer\<close> leaves twelve bytes
  for the header in front of the body, so positions on both sides agree.
\<close>

definition received :: "endian \<Rightarrow> sbuf \<Rightarrow> nat \<Rightarrow> rbuf" where
  "received host s p = \<lparr> r_host = host, r_mem = sb_wire s,
     r_flags = GIOP_FLAG_ENDIANNESS (s_host s), r_version = s_version s, r_type = s_type s,
     r_size = s_size s, r_body = 0, r_cur = p, r_end = length (sb_wire s) \<rparr>"

lemma sb_wire_length: "length (sb_wire s) = 12 + length (s_out s)"
  by (simp add: sb_wire_def header_image_length sb_header_def)

lemma at_bytes_received:
  assumes "s_header_size b = 12" "s_out s = s_out b @ bs @ rest"
  shows "at_bytes (spos b) bs (received host s (spos b))"
proof -
  have "slice (spos b) (length bs) (sb_wire s) = bs"
    using slice_middle[of "header_image (s_host s) (sb_header s) @ s_out b" bs rest] assms
    by (simp add: sb_wire_def spos_def header_image_length sb_header_def)
  then show ?thesis
    using assms by (simp add: at_bytes_def received_def spos_def sb_wire_length)
qed

lemma received_cur [simp]: "received host s p\<lparr> r_cur := q \<rparr> = received host s q"
  by (simp add: received_def)

section \<open>The interface\<close>

fun enc_list :: "('v \<Rightarrow> nat \<Rightarrow> byte list) \<Rightarrow> 'v list \<Rightarrow> nat \<Rightarrow> byte list" where
  "enc_list f [] p = []"
| "enc_list f (v # vs) p = f v p @ enc_list f vs (p + length (f v p))"

text \<open>
  \<open>put\<close> appends exactly the encoding of the value at the buffer's position and \<open>get\<close> accepts that
  encoding, whatever follows it and whatever the byte order of the machine it runs on. \<open>view\<close> is
  what the receiver gets to see of the value.
\<close>

locale cdr_codec =
  fixes put :: "'v \<Rightarrow> sbuf \<Rightarrow> sbuf"
    and get :: "'w reader"
    and enc :: "endian \<Rightarrow> 'v \<Rightarrow> nat \<Rightarrow> byte list"
    and ok :: "'v \<Rightarrow> bool"
    and view :: "'v \<Rightarrow> 'w"
  assumes put_enc: "sb_ok b \<Longrightarrow> ok v \<Longrightarrow> put v b = sb_append (enc (s_host b) v (spos b)) b"
    and get_enc: "ok v \<Longrightarrow> parses get e p (enc e v p) (view v)"
begin

lemma put_ok: "sb_ok b \<Longrightarrow> ok v \<Longrightarrow> sb_ok (put v b)"
  by (simp add: put_enc)

lemma round_trip:
  assumes b: "sb_ok b" "s_header_size b = 12" and v: "ok v"
  shows "get (received host (sb_append rest (put v b)) (spos b))
    = Inr (view v, received host (sb_append rest (put v b)) (spos (put v b)))"
proof -
  let ?s = "sb_append rest (put v b)"
  have "get (received host ?s (spos b)) = Inr (view v, (received host ?s (spos b))
      \<lparr> r_cur := spos b + length (enc (s_host b) v (spos b)) \<rparr>)"
    by (rule parsesD[OF get_enc[OF v]], simp add: received_def put_enc[OF b(1) v])
      (rule at_bytes_received[OF b(2)], simp add: put_enc[OF b(1) v])
  then show ?thesis by (simp add: put_enc[OF b(1) v])
qed

lemma put_list:
  "sb_ok b \<Longrightarrow> list_all ok vs \<Longrightarrow>
     fold put vs b = sb_append (enc_list (enc (s_host b)) vs (spos b)) b"
  by (induction vs arbitrary: b) (auto simp: put_enc)

lemma get_list:
  "list_all ok vs \<Longrightarrow> parses (rd_loop get (length vs)) e p (enc_list (enc e) vs p) (map view vs)"
proof (induction vs arbitrary: p)
  case (Cons v vs)
  then show ?case
    by (auto intro!: parses_bind[OF get_enc] parses_bind_ret)
qed auto

lemma get_counted:
  assumes "list_all ok vs" "length vs < 2 ^ 32"
  shows "parses (rd_bind rd_ulong (\<lambda>n. rd_loop get (unat n))) e p
    (enc_ulong e (of_nat (length vs)) p
      @ enc_list (enc e) vs (p + length (enc_ulong e (of_nat (length vs)) p))) (map view vs)"
  by (rule parses_bind[OF parses_ulong]) (use assms in \<open>simp add: unat_of_nat_u32 get_list\<close>)

end

section \<open>Basic types\<close>

interpretation ulong: cdr_codec "\<lambda>w b. sb_append_aligned (u32_bytes (s_host b) w) b" rd_ulong
  enc_ulong "\<lambda>_. True" "\<lambda>w. w"
  by unfold_locales (simp add: enc_ulong_def, rule parses_ulong)

text \<open>
  A string travels with its NUL, counted in its length. What the receiver makes of it is up to the
  demarshaller at hand; most copy the counted block.
\<close>

definition enc_string :: "endian \<Rightarrow> cblock \<Rightarrow> nat \<Rightarrow> byte list" where
  "enc_string e str p = enc_octets e str p"

definition string_ok :: "cblock \<Rightarrow> bool" where
  "string_ok s \<longleftrightarrow> c_string s \<and> length s < 2 ^ 32"

lemma sb_append_string_enc:
  assumes b: "sb_ok b" and s: "string_ok str"
  shows "sb_append_string str b = sb_append (enc_string (s_host b) str (spos b)) b"
proof -
  have c: "c_text str @ [0] = str" using s by (simp add: string_ok_def)
  then have l: "length (c_text str) + 1 = length str" by (metis length_append_singleton Suc_eq_plus1)
  have "unat (of_nat (length (c_text str) + 1) :: u32) = length str"
    using s l by (simp only: unat_of_nat_u32 string_ok_def)
  then show ?thesis
    using b by (simp add: sb_append_string_def enc_string_def enc_octets_def enc_ulong_def
        l[simplified] slice_def Let_def)
qed

interpretation cstring: cdr_codec sb_append_string rd_octets enc_string string_ok "\<lambda>s. s"
  by unfold_locales
    (simp_all add: sb_append_string_enc enc_string_def parses_octets string_ok_def)

section \<open>Encapsulations\<close>

text \<open>The format of an encapsulation whose contents have the format \<open>x\<close>.\<close>

definition enc_encaps :: "endian \<Rightarrow> (nat \<Rightarrow> byte list) \<Rightarrow> nat \<Rightarrow> byte list" where
  "enc_encaps e x p = enc_octets e (GIOP_FLAG_ENDIANNESS e # x (ALIGN_VALUE p 4 + 5)) p"

lemma sb_encaps_enc:
  assumes b: "sb_ok b"
    and body: "\<And>c. sb_ok c \<Longrightarrow> s_host c = s_host b \<Longrightarrow> body c = sb_append (x (spos c)) c"
  shows "sb_encaps pl body b = sb_append (enc_encaps (s_host b) x (spos b)) b"
  using sb_encaps_append[OF b, of body "x (ALIGN_VALUE (spos b) 4 + 5)" pl] body
  by (simp add: enc_encaps_def enc_octets_def enc_ulong_def)

lemma parses_encaps_enc:
  assumes m: "\<And>q. accepts m e q (x q) v" and n: "\<And>q. Suc (length (x q)) < 2 ^ 32"
  shows "parses (rd_encaps m) e p (enc_encaps e x p) v"
  unfolding enc_encaps_def using n m by (intro parses_encaps) simp_all

text \<open>Upper bounds of lengths, whatever the padding turns out to be.\<close>

lemma enc_ulong_length [len_simps]: "length (enc_ulong e w p) \<le> 7"
  using pad_less[of 4 p] by (simp add: enc_ulong_def del: pad_length)

lemma enc_octets_length [len_simps]: "length (enc_octets e bs p) \<le> 7 + length bs"
  using enc_ulong_length[of e "of_nat (length bs)" p] by (simp add: enc_octets_def)

lemma enc_string_length [len_simps]: "length (enc_string e s p) \<le> 7 + length s"
  by (simp add: enc_string_def enc_octets_length)

lemma enc_encaps_length:
  "(\<And>q. length (x q) \<le> n) \<Longrightarrow> length (enc_encaps e x p) \<le> 8 + n"
  using enc_octets_length[of e "GIOP_FLAG_ENDIANNESS e # x (ALIGN_VALUE p 4 + 5)" p]
  by (simp add: enc_encaps_def) (meson Suc_le_mono add_le_mono le_refl order_trans)

lemma enc_list_length:
  "(\<And>v q. v \<in> set vs \<Longrightarrow> length (f v q) \<le> g v) \<Longrightarrow> length (enc_list f vs p) \<le> sum_list (map g vs)"
  by (induction vs arbitrary: p) (auto intro!: add_mono)

lemma parses_self:
  "(\<And>buf. flag_endian (r_flags buf) = e \<Longrightarrow> parses (f buf) e p bs v) \<Longrightarrow>
     parses (\<lambda>b. f b b) e p bs v"
  by (simp add: parses_def)

end
