(* ===== verification/Iop_Profiles.thy ===== *)
theory Iop_Profiles imports Codec begin

text \<open>
  \<^verbatim>\<open>iop-profiles.c\<close>: the profiles of an object reference and their tagged components, how they
  are marshalled, demarshalled, compared, hashed, copied, and how one object key is taken out of a
  list of profiles. An object key that the code has moved elsewhere and set to NULL is \<open>None\<close>.
\<close>

section \<open>Profiles and components\<close>

definition IOP_TAG_INTERNET_IOP :: u32 where "IOP_TAG_INTERNET_IOP = 0"
definition IOP_TAG_MULTIPLE_COMPONENTS :: u32 where "IOP_TAG_MULTIPLE_COMPONENTS = 1"
definition IOP_TAG_MATECORBA_SPECIFIC :: u32 where "IOP_TAG_MATECORBA_SPECIFIC = 0xBADFAECA"
definition IOP_TAG_GENERIC_IOP :: u32 where "IOP_TAG_GENERIC_IOP = 0x4f425400"
definition IOP_TAG_CODE_SETS :: u32 where "IOP_TAG_CODE_SETS = 1"
definition IOP_TAG_COMPLETE_OBJECT_KEY :: u32 where "IOP_TAG_COMPLETE_OBJECT_KEY = 5"
definition IOP_TAG_SSL_SEC_TRANS :: u32 where "IOP_TAG_SSL_SEC_TRANS = 20"
definition IOP_TAG_GENERIC_SSL_SEC_TRANS :: u32 where "IOP_TAG_GENERIC_SSL_SEC_TRANS = 0x4f425400"

lemmas iop_profile_tags = IOP_TAG_INTERNET_IOP_def IOP_TAG_MULTIPLE_COMPONENTS_def
  IOP_TAG_MATECORBA_SPECIFIC_def IOP_TAG_GENERIC_IOP_def
lemmas iop_component_tags = IOP_TAG_CODE_SETS_def IOP_TAG_COMPLETE_OBJECT_KEY_def
  IOP_TAG_SSL_SEC_TRANS_def IOP_TAG_GENERIC_SSL_SEC_TRANS_def

type_synonym objkey = "byte list"

text \<open>\<^verbatim>\<open>CONV_FRAME_CodeSetComponent\<close>; an empty conversion list is a NULL buffer.\<close>

record codeset =
  native_code_set :: u32
  conversion_code_sets :: "u32 list"

datatype component =
    GENERIC_SSL_SEC_TRANS cblock
  | SSL_SEC_TRANS u32 u32 u16
  | COMPLETE_OBJECT_KEY "objkey option"
  | CODE_SETS codeset codeset
  | UnknownComponent u32 "byte list"

fun component_type :: "component \<Rightarrow> u32" where
  "component_type (GENERIC_SSL_SEC_TRANS _) = IOP_TAG_GENERIC_SSL_SEC_TRANS"
| "component_type (SSL_SEC_TRANS _ _ _) = IOP_TAG_SSL_SEC_TRANS"
| "component_type (COMPLETE_OBJECT_KEY _) = IOP_TAG_COMPLETE_OBJECT_KEY"
| "component_type (CODE_SETS _ _) = IOP_TAG_CODE_SETS"
| "component_type (UnknownComponent t _) = t"

record iiop_info =
  iiop_version :: GIOPVersion
  iiop_host :: cblock
  iiop_port :: u16
  iiop_key :: "objkey option"
  iiop_components :: "component list"

record generic_info =
  gen_version :: GIOPVersion
  gen_proto :: cblock
  gen_host :: cblock
  gen_service :: cblock
  gen_components :: "component list"

record specific_info =
  unix_sock_path :: cblock
  ipv6_port :: u16
  os_key :: "objkey option"

datatype profile =
    INTERNET_IOP iiop_info
  | GENERIC_IOP generic_info
  | MATECORBA_SPECIFIC specific_info
  | MULTIPLE_COMPONENTS "component list"
  | UnknownProfile u32 "byte list"

fun profile_type :: "profile \<Rightarrow> u32" where
  "profile_type (INTERNET_IOP _) = IOP_TAG_INTERNET_IOP"
| "profile_type (GENERIC_IOP _) = IOP_TAG_GENERIC_IOP"
| "profile_type (MATECORBA_SPECIFIC _) = IOP_TAG_MATECORBA_SPECIFIC"
| "profile_type (MULTIPLE_COMPONENTS _) = IOP_TAG_MULTIPLE_COMPONENTS"
| "profile_type (UnknownProfile t _) = t"

section \<open>Marshalling\<close>

text \<open>
  The key of the object, \<^verbatim>\<open>obj->object_key\<close>, is the argument \<open>key\<close>; profiles do not hold keys of
  their own when they are marshalled.
\<close>

definition IOP_ObjectKey_marshal :: "objkey \<Rightarrow> sbuf \<Rightarrow> sbuf" where
  "IOP_ObjectKey_marshal k b = sb_append k
     (sb_append_aligned (u32_bytes (s_host b) (of_nat (length k))) b)"

definition CodeSetComponent_marshal :: "codeset \<Rightarrow> sbuf \<Rightarrow> sbuf" where
  "CodeSetComponent_marshal cs b =
    (let b = sb_append_aligned (u32_bytes (s_host b) (native_code_set cs)) b;
         b = sb_append_aligned (u32_bytes (s_host b) (of_nat (length (conversion_code_sets cs)))) b
     in if conversion_code_sets cs \<noteq> []
        then sb_append (concat (map (u32_bytes (s_host b)) (conversion_code_sets cs))) b else b)"

definition IOP_TAG_SSL_SEC_TRANS_marshal :: "u32 \<Rightarrow> u32 \<Rightarrow> u16 \<Rightarrow> sbuf \<Rightarrow> sbuf" where
  "IOP_TAG_SSL_SEC_TRANS_marshal supports requires port b =
     sb_append (u32_bytes (s_host b) supports @ u32_bytes (s_host b) requires
       @ u16_bytes (s_host b) port) (sb_align 4 b)"

definition IOP_UnknownComponent_marshal :: "byte list \<Rightarrow> sbuf \<Rightarrow> sbuf" where
  "IOP_UnknownComponent_marshal data b =
     sb_append data (sb_append (u32_bytes (s_host b) (of_nat (length data))) b)"

text \<open>
  One turn of the loop of \<^verbatim>\<open>IOP_components_marshal\<close>. The placeholder of an encapsulation's
  length holds whatever \<^verbatim>\<open>len\<close> was (\<open>old\<close>).
\<close>

definition IOP_component_marshal :: "objkey \<Rightarrow> u32 \<Rightarrow> component \<Rightarrow> sbuf \<Rightarrow> sbuf" where
  "IOP_component_marshal key old c b =
    (let b = sb_append (u32_bytes (s_host b) (component_type c)) (sb_align 4 b) in
     case c of
       GENERIC_SSL_SEC_TRANS service \<Rightarrow> sb_encaps old (sb_append_string service) b
     | SSL_SEC_TRANS supports requires port \<Rightarrow>
         sb_encaps old (IOP_TAG_SSL_SEC_TRANS_marshal supports requires port) b
     | COMPLETE_OBJECT_KEY _ \<Rightarrow> IOP_ObjectKey_marshal key b
     | CODE_SETS chars wchars \<Rightarrow>
         sb_encaps old (\<lambda>b. CodeSetComponent_marshal wchars (CodeSetComponent_marshal chars b)) b
     | UnknownComponent _ data \<Rightarrow> IOP_UnknownComponent_marshal data b)"

definition IOP_components_marshal :: "objkey \<Rightarrow> component list \<Rightarrow> sbuf \<Rightarrow> sbuf" where
  "IOP_components_marshal key cs b =
    (let len = of_nat (length cs)
     in fold (IOP_component_marshal key len) cs (sb_append_aligned (u32_bytes (s_host b) len) b))"

definition IOP_TAG_INTERNET_IOP_marshal :: "objkey \<Rightarrow> iiop_info \<Rightarrow> sbuf \<Rightarrow> sbuf" where
  "IOP_TAG_INTERNET_IOP_marshal key iiop b =
    (let b = sb_append (giop_version_ids (iiop_version iiop)) b;
         b = sb_append_string (iiop_host iiop) b;
         b = sb_append (u16_bytes (s_host b) (iiop_port iiop)) (sb_align 2 b);
         b = IOP_ObjectKey_marshal key b
     in IOP_components_marshal key (iiop_components iiop) b)"

definition IOP_TAG_GENERIC_IOP_marshal :: "objkey \<Rightarrow> generic_info \<Rightarrow> sbuf \<Rightarrow> sbuf" where
  "IOP_TAG_GENERIC_IOP_marshal key giop b =
    (let b = sb_append (giop_version_ids (gen_version giop)) b;
         b = sb_append_string (gen_proto giop) b;
         b = sb_append_string (gen_host giop) b;
         b = sb_append_string (gen_service giop) b
     in IOP_components_marshal key (gen_components giop) b)"

definition IOP_TAG_MATECORBA_SPECIFIC_marshal :: "objkey \<Rightarrow> specific_info \<Rightarrow> sbuf \<Rightarrow> sbuf" where
  "IOP_TAG_MATECORBA_SPECIFIC_marshal key osi b =
    (let b = sb_append [1, 2] b;
         b = sb_append_string (unix_sock_path osi) b;
         b = sb_append (u16_bytes (s_host b) (ipv6_port osi)) (sb_align 2 b)
     in IOP_ObjectKey_marshal key b)"

text \<open>
  \<^verbatim>\<open>IOP_profile_marshal\<close>: every known profile is an encapsulation; the data of an unknown one is
  sent back as it came, its octet of byte order included.
\<close>

definition IOP_profile_marshal :: "objkey \<Rightarrow> profile \<Rightarrow> sbuf \<Rightarrow> sbuf" where
  "IOP_profile_marshal key p b =
    (let b = sb_append_aligned (u32_bytes (s_host b) (profile_type p)) b in
     case p of
       INTERNET_IOP iiop \<Rightarrow> sb_encaps 0 (IOP_TAG_INTERNET_IOP_marshal key iiop) b
     | MATECORBA_SPECIFIC osi \<Rightarrow> sb_encaps 0 (IOP_TAG_MATECORBA_SPECIFIC_marshal key osi) b
     | GENERIC_IOP giop \<Rightarrow> sb_encaps 0 (IOP_TAG_GENERIC_IOP_marshal key giop) b
     | MULTIPLE_COMPONENTS cs \<Rightarrow> sb_encaps 0 (IOP_components_marshal key cs) b
     | UnknownProfile _ data \<Rightarrow> (let (marker, b) = sb_append_aligned_at (replicate 4 0) b;
           msgsz = s_size b;
           b = sb_append data b
         in sb_patch marker (u32_bytes (s_host b) (s_size b - msgsz)) b))"

end
