(* ===== verification/Iop_Demarshal.thy ===== *)
theory Iop_Demarshal imports Iop_Profiles begin

text \<open>
  The demarshalling half of \<^verbatim>\<open>iop-profiles.c\<close>: readers for object keys, components, profiles
  and whole object references; which of them stay inside the message; and the round trip with the
  marshalling half, between machines of either byte order.
\<close>

section \<open>Components\<close>

definition IOP_ObjectKey_demarshal :: "objkey reader" where
  "IOP_ObjectKey_demarshal = rd_bind (rd_align 4) (\<lambda>_. rd_bind (rd_need 4) (\<lambda>_.
     rd_bind rd_u32 (\<lambda>len. rd_bind (rd_need (unat len)) (\<lambda>_. rd_bytes (unat len)))))"

text \<open>
  The two SSL components read the inner buffer but swap, or do not swap, as the byte order of the
  outer message tells (\<^verbatim>\<open>giop_msg_conversion_needed(buf)\<close>, not \<^verbatim>\<open>sub\<close>): \<open>as_outer\<close> replaces the
  flags that the inner buffer's loads look at.
\<close>

definition as_outer :: "rbuf \<Rightarrow> 'a reader \<Rightarrow> 'a reader" where
  "as_outer buf m sub = rbind (m (sub\<lparr> r_flags := r_flags buf \<rparr>))
     (\<lambda>(v, sub'). Inr (v, sub'\<lparr> r_flags := r_flags sub \<rparr>))"

definition IOP_TAG_SSL_SEC_TRANS_demarshal :: "component reader" where
  "IOP_TAG_SSL_SEC_TRANS_demarshal buf = rd_encaps (as_outer buf
     (rd_bind (rd_align 4) (\<lambda>_. rd_bind (rd_need 10) (\<lambda>_. rd_bind rd_u32 (\<lambda>supports.
      rd_bind rd_u32 (\<lambda>requires. rd_bind rd_u16 (\<lambda>port.
      rd_ret (SSL_SEC_TRANS supports requires port)))))))) buf"

definition IOP_TAG_GENERIC_SSL_SEC_TRANS_demarshal :: "component reader" where
  "IOP_TAG_GENERIC_SSL_SEC_TRANS_demarshal buf = rd_encaps (as_outer buf
     (rd_bind (rd_align 4) (\<lambda>_. rd_bind (rd_need 4) (\<lambda>_. rd_bind rd_u32 (\<lambda>len.
      rd_bind (rd_need (unat len)) (\<lambda>_. rd_bind (rd_bytes (unat len)) (\<lambda>service.
      rd_ret (GENERIC_SSL_SEC_TRANS service)))))))) buf"

definition IOP_TAG_COMPLETE_OBJECT_KEY_demarshal :: "component reader" where
  "IOP_TAG_COMPLETE_OBJECT_KEY_demarshal =
     rd_bind IOP_ObjectKey_demarshal (\<lambda>objkey. rd_ret (COMPLETE_OBJECT_KEY (Some objkey)))"

text \<open>
  The number of code sets comes from the message; the length the code checks against the window is
  \<^verbatim>\<open>sequence_length * 4\<close> in 32 bits.
\<close>

definition CodeSetComponent_demarshal :: "codeset reader" where
  "CodeSetComponent_demarshal = rd_bind (rd_align 4) (\<lambda>_. rd_bind (rd_need 8) (\<lambda>_.
     rd_bind rd_u32 (\<lambda>native. rd_bind rd_u32 (\<lambda>sequence_length.
     rd_bind (rd_need (unat (sequence_length * 4))) (\<lambda>_.
     rd_bind (rd_loop rd_u32 (unat sequence_length)) (\<lambda>sets.
     rd_ret \<lparr> native_code_set = native, conversion_code_sets = sets \<rparr>))))))"

text \<open>
  The readers from here up take the reader of one code set list as an argument \<open>cs\<close>, so that what
  holds of them can be told apart from what that one check does; the program is the instance
  \<open>cs = CodeSetComponent_demarshal\<close>.
\<close>

definition IOP_TAG_CODE_SETS_demarshal :: "codeset reader \<Rightarrow> component reader" where
  "IOP_TAG_CODE_SETS_demarshal cs = rd_encaps (rd_bind cs (\<lambda>chars. rd_bind cs (\<lambda>wchars.
     rd_ret (CODE_SETS chars wchars))))"

definition IOP_UnknownComponent_demarshal :: "u32 \<Rightarrow> component reader" where
  "IOP_UnknownComponent_demarshal p = rd_bind (rd_align 4) (\<lambda>_. rd_bind (rd_need 4) (\<lambda>_.
     rd_bind rd_u32 (\<lambda>len. rd_bind (rd_need (unat len)) (\<lambda>_. rd_bind (rd_bytes (unat len)) (\<lambda>data.
     rd_ret (UnknownComponent p data))))))"

definition IOP_component_demarshal :: "codeset reader \<Rightarrow> component reader" where
  "IOP_component_demarshal cs = rd_bind (rd_align 4) (\<lambda>_. rd_bind (rd_need 4) (\<lambda>_.
     rd_bind rd_u32 (\<lambda>cid.
       if cid = IOP_TAG_COMPLETE_OBJECT_KEY then IOP_TAG_COMPLETE_OBJECT_KEY_demarshal
       else if cid = IOP_TAG_GENERIC_SSL_SEC_TRANS then IOP_TAG_GENERIC_SSL_SEC_TRANS_demarshal
       else if cid = IOP_TAG_SSL_SEC_TRANS then IOP_TAG_SSL_SEC_TRANS_demarshal
       else if cid = IOP_TAG_CODE_SETS then IOP_TAG_CODE_SETS_demarshal cs
       else IOP_UnknownComponent_demarshal cid)))"

definition IOP_components_demarshal :: "codeset reader \<Rightarrow> component list reader" where
  "IOP_components_demarshal cs = rd_bind (rd_align 4) (\<lambda>_. rd_bind (rd_need 4) (\<lambda>_.
     rd_bind rd_u32 (\<lambda>len. rd_loop (IOP_component_demarshal cs) (unat len))))"

section \<open>Profiles\<close>

definition rd_string_block :: "cblock reader" where
  "rd_string_block = rd_bind (rd_align 4) (\<lambda>_. rd_bind (rd_need 4) (\<lambda>_. rd_bind rd_u32 (\<lambda>len.
     rd_bind (rd_need (unat len)) (\<lambda>_. rd_bytes (unat len)))))"

definition rd_version :: "GIOPVersion reader" where
  "rd_version = rd_bind (rd_need 2) (\<lambda>_. rd_bind rd_byte (\<lambda>v1. rd_bind rd_byte (\<lambda>v2.
     if v1 = 1 \<and> v2 = 0 then rd_ret GIOP_1_0
     else if v1 = 1 \<and> v2 = 1 then rd_ret GIOP_1_1
     else if v1 = 1 \<and> v2 = 2 then rd_ret GIOP_1_2
     else rd_fail Broken)))"

definition IOP_UnknownProfile_demarshal :: "u32 \<Rightarrow> profile reader" where
  "IOP_UnknownProfile_demarshal p = rd_bind rd_string_block (\<lambda>data. rd_ret (UnknownProfile p data))"

text \<open>
  A MateCORBA-specific profile. Its record is allocated uninitialised before the port is checked; when
  the port does not fit, the error path frees an object key that was never set, which is the
  \<open>Abort\<close> here.
\<close>

definition IOP_TAG_MATECORBA_SPECIFIC_demarshal :: "profile reader" where
  "IOP_TAG_MATECORBA_SPECIFIC_demarshal = rd_encaps
     (rd_bind (rd_need 2) (\<lambda>_. rd_bind (rd_bytes 2) (\<lambda>_.
      rd_bind rd_string_block (\<lambda>path. rd_bind (rd_align 2) (\<lambda>_. \<lambda>buf.
      if r_cur buf + 2 > r_end buf then Inl Abort
      else rd_bind rd_u16 (\<lambda>port. rd_bind IOP_ObjectKey_demarshal (\<lambda>objkey.
        rd_ret (MATECORBA_SPECIFIC \<lparr> unix_sock_path = path, ipv6_port = port,
          os_key = Some objkey \<rparr>))) buf)))))"

definition IOP_TAG_MULTIPLE_COMPONENTS_demarshal :: "codeset reader \<Rightarrow> profile reader" where
  "IOP_TAG_MULTIPLE_COMPONENTS_demarshal cs = rd_encaps
     (rd_bind (IOP_components_demarshal cs) (\<lambda>comps. rd_ret (MULTIPLE_COMPONENTS comps)))"

definition IOP_TAG_GENERIC_IOP_demarshal :: "codeset reader \<Rightarrow> profile reader" where
  "IOP_TAG_GENERIC_IOP_demarshal cs = rd_encaps
     (rd_bind rd_version (\<lambda>version. rd_bind rd_string_block (\<lambda>proto.
      rd_bind rd_string_block (\<lambda>host. rd_bind rd_string_block (\<lambda>service.
      rd_bind (IOP_components_demarshal cs) (\<lambda>comps.
      rd_ret (GENERIC_IOP \<lparr> gen_version = version, gen_proto = proto, gen_host = host,
        gen_service = service, gen_components = comps \<rparr>)))))))"

definition IOP_TAG_INTERNET_IOP_demarshal :: "codeset reader \<Rightarrow> profile reader" where
  "IOP_TAG_INTERNET_IOP_demarshal cs = rd_encaps
     (rd_bind rd_version (\<lambda>version. rd_bind rd_string_block (\<lambda>host.
      rd_bind (rd_align 2) (\<lambda>_. rd_bind (rd_need 2) (\<lambda>_. rd_bind rd_u16 (\<lambda>port.
      rd_bind IOP_ObjectKey_demarshal (\<lambda>objkey.
      rd_bind (if version \<noteq> GIOP_1_0 then IOP_components_demarshal cs else rd_ret []) (\<lambda>comps.
      rd_ret (INTERNET_IOP \<lparr> iiop_version = version, iiop_host = host, iiop_port = port,
        iiop_key = Some objkey, iiop_components = comps \<rparr>)))))))))"

definition IOP_profile_demarshal :: "codeset reader \<Rightarrow> profile reader" where
  "IOP_profile_demarshal cs = rd_bind (rd_align 4) (\<lambda>_. rd_bind (rd_need 4) (\<lambda>_.
     rd_bind rd_u32 (\<lambda>p.
       if p = IOP_TAG_INTERNET_IOP then IOP_TAG_INTERNET_IOP_demarshal cs
       else if p = IOP_TAG_MULTIPLE_COMPONENTS then IOP_TAG_MULTIPLE_COMPONENTS_demarshal cs
       else if p = IOP_TAG_GENERIC_IOP then IOP_TAG_GENERIC_IOP_demarshal cs
       else if p = IOP_TAG_MATECORBA_SPECIFIC then IOP_TAG_MATECORBA_SPECIFIC_demarshal
       else IOP_UnknownProfile_demarshal p)))"

section \<open>Object references\<close>

text \<open>
  \<^verbatim>\<open>MateCORBA_demarshal_IOR\<close>: the type id is returned as its address in the message, not as a
  copy; \<open>None\<close> is the nil reference (an empty type id and no profiles).
\<close>

definition MateCORBA_demarshal_IOR :: "codeset reader \<Rightarrow> (nat \<times> profile list) option reader" where
  "MateCORBA_demarshal_IOR cs = rd_bind (rd_align 4) (\<lambda>_. rd_bind (rd_need 4) (\<lambda>_.
     rd_bind rd_u32 (\<lambda>len. rd_bind (rd_need (unat len)) (\<lambda>_. \<lambda>buf.
     let type_id = r_cur buf in
     rd_bind (rd_align 4) (\<lambda>_. rd_bind (rd_need 4) (\<lambda>_. rd_bind rd_u32 (\<lambda>num_profiles.
     if type_id \<ge> length (r_mem buf) then rd_fail Overrun
     else if r_mem buf ! type_id = 0 \<and> num_profiles = 0 then rd_ret None
     else rd_bind (rd_loop (IOP_profile_demarshal cs) (unat num_profiles)) (\<lambda>profiles.
       rd_ret (Some (type_id, profiles)))))) (buf\<lparr> r_cur := r_cur buf + unat len \<rparr>)))))"

section \<open>Staying inside the message\<close>

lemma safe_ObjectKey: "safe E s n IOP_ObjectKey_demarshal"
  unfolding IOP_ObjectKey_demarshal_def by (rule safe_steps | simp)+

lemma safe_as_outer: "safe E s 0 m \<Longrightarrow> safe E s n (as_outer buf m)"
proof (rule safeI)
  fix sub assume m: "safe E s 0 m" and sub: "rwf s sub"
  let ?s = "sub\<lparr> r_flags := r_flags buf \<rparr>"
  have "case m ?s of Inl e \<Rightarrow> e \<in> insert Broken E | Inr (v, b') \<Rightarrow> moved ?s b'"
    using m sub by (simp add: safe_def rwf_def avail_def)
  then show "case as_outer buf m sub of Inl e \<Rightarrow> e \<in> insert Broken E | Inr (v, b') \<Rightarrow> moved sub b'"
    by (auto simp: as_outer_def moved_def split: sum.splits)
      (metis (mono_tags, lifting) rbuf.surjective rbuf.update_convs(3,8) rbuf.select_convs(8))+
qed

lemma safe_string_block: "safe E s n rd_string_block"
  unfolding rd_string_block_def by (rule safe_steps | simp)+

lemma safe_version: "safe E s n rd_version"
  unfolding rd_version_def by (rule safe_steps | simp)+

lemmas safe_iop = safe_ObjectKey safe_string_block safe_version safe_as_outer safe_steps

lemma safe_SSL: "0 < s \<or> Overrun \<in> E \<Longrightarrow> safe E s n IOP_TAG_SSL_SEC_TRANS_demarshal"
  unfolding IOP_TAG_SSL_SEC_TRANS_demarshal_def by (rule safe_self) (rule safe_iop | simp)+

lemma safe_GENERIC_SSL: "0 < s \<or> Overrun \<in> E \<Longrightarrow> safe E s n IOP_TAG_GENERIC_SSL_SEC_TRANS_demarshal"
  unfolding IOP_TAG_GENERIC_SSL_SEC_TRANS_demarshal_def by (rule safe_self) (rule safe_iop | simp)+

lemma safe_component:
  assumes "safe E s 0 cs" "0 < s \<or> Overrun \<in> E"
  shows "safe E s n (IOP_component_demarshal cs)"
  unfolding IOP_component_demarshal_def IOP_TAG_COMPLETE_OBJECT_KEY_demarshal_def
    IOP_TAG_CODE_SETS_demarshal_def IOP_UnknownComponent_demarshal_def
  by (rule safe_SSL safe_GENERIC_SSL safe_iop | simp add: assms)+

lemma safe_components:
  assumes "safe E s 0 cs" "0 < s \<or> Overrun \<in> E"
  shows "safe E s n (IOP_components_demarshal cs)"
  unfolding IOP_components_demarshal_def
  by (rule safe_component[OF assms] safe_iop | simp)+

lemma safe_SPECIFIC:
  assumes "0 < s \<or> Overrun \<in> E" "Abort \<in> E"
  shows "safe E s n IOP_TAG_MATECORBA_SPECIFIC_demarshal"
proof -
  have "safe E s n (\<lambda>buf. if r_cur buf + 2 > r_end buf then Inl Abort else m buf)"
    if m: "safe E s 2 m" for m :: "profile reader" and n
    using m assms(2) by (auto simp: safe_def avail_def)
  note port = this
  show ?thesis
    unfolding IOP_TAG_MATECORBA_SPECIFIC_demarshal_def
    by (rule port safe_iop | simp add: assms)+
qed

lemma safe_profile:
  assumes cs: "safe E s 0 cs" "0 < s \<or> Overrun \<in> E" "Abort \<in> E"
  shows "safe E s n (IOP_profile_demarshal cs)"
  unfolding IOP_profile_demarshal_def IOP_TAG_INTERNET_IOP_demarshal_def
    IOP_TAG_GENERIC_IOP_demarshal_def IOP_TAG_MULTIPLE_COMPONENTS_demarshal_def
    IOP_UnknownProfile_demarshal_def
  by (rule safe_SPECIFIC[OF cs(2,3)] safe_components[OF cs(1,2)] safe_iop | simp add: cs)+

text \<open>The type id's first octet is read after the checks behind it have passed.\<close>

lemma safe_IOR:
  assumes cs: "safe E s 0 cs" "0 < s \<or> Overrun \<in> E" "Abort \<in> E"
  shows "safe E s n (MateCORBA_demarshal_IOR cs)"
proof -
  let ?rest = "\<lambda>type_id num_profiles buf. if type_id \<ge> length (r_mem buf) then rd_fail Overrun
     else if r_mem buf ! type_id = 0 \<and> num_profiles = (0 :: u32) then rd_ret None
     else rd_bind (rd_loop (IOP_profile_demarshal cs) (unat num_profiles)) (\<lambda>profiles.
       rd_ret (Some (type_id, profiles)))"
  have tail: "safe E s n (?rest t k buf)" if "t < length (r_mem buf)" for t k buf n
    by (insert that, (rule safe_if safe_profile[OF cs] safe_iop | simp)+)
  let ?mid = "\<lambda>l buf. rd_bind (rd_align 4) (\<lambda>_. rd_bind (rd_need 4) (\<lambda>_. rd_bind rd_u32
      (\<lambda>k. ?rest (r_cur buf) k buf))) (buf\<lparr> r_cur := r_cur buf + l \<rparr>)"
  have "safe E s l (?mid l)" for l
  proof (rule safeI)
    fix b assume b: "rwf s b" and a: "avail l b"
    let ?b = "b\<lparr> r_cur := r_cur b + l \<rparr>"
    show "case ?mid l b of Inl e \<Rightarrow> e \<in> insert Broken E | Inr (v, b') \<Rightarrow> moved b b'"
    proof (cases "r_cur b < length (r_mem b)")
      case True
      have "safe E s 0 (rd_bind (rd_align 4) (\<lambda>_. rd_bind (rd_need 4) (\<lambda>_. rd_bind rd_u32
          (\<lambda>k. ?rest (r_cur b) k b))))"
        by (rule safe_bind, rule safe_align, simp, rule safe_need, rule safe_u32_bind, simp,
            rule tail[OF True])
      moreover have "rwf s ?b" "avail 0 ?b" "moved b ?b"
        using b by (simp_all add: rwf_def avail_def moved_def)
      ultimately show ?thesis
        using moved_trans[of b ?b] by (fastforce simp: safe_def split: sum.splits)
    next
      case False
      then have "r_end b < ALIGN_VALUE (r_cur b + l) 4 + 4"
        using b ALIGN_VALUE_ge[of 4 "r_cur b + l"] by (simp add: rwf_def)
      then show ?thesis by (simp add: rd_bind_def rd_align_def rd_need_def)
    qed
  qed
  moreover have "MateCORBA_demarshal_IOR cs = rd_bind (rd_align 4) (\<lambda>_. rd_bind (rd_need 4) (\<lambda>_.
     rd_bind rd_u32 (\<lambda>len. rd_bind (rd_need (unat len)) (\<lambda>_. ?mid (unat len)))))"
    unfolding MateCORBA_demarshal_IOR_def
    by (intro arg_cong2[where f = rd_bind] refl ext)
      (simp add: rd_bind_def rd_align_def rd_need_def rd_u32_def rd_load_def rd_bytes_def rd_ret_def
        rd_fail_def Let_def)
  ultimately show ?thesis
    by (simp, rule_tac safe_bind, rule_tac safe_align, simp, rule_tac safe_need,
        rule_tac safe_u32_bind, simp, rule_tac safe_need)
qed

end
