(* ===== verification/Iop_Codec.thy ===== *)
theory Iop_Codec imports Iop_Demarshal begin

text \<open>
  Profiles and components as codecs: the bytes the marshalling half of \<^verbatim>\<open>iop-profiles.c\<close>
  writes, and the proof that the demarshalling half reads them back on a machine of either byte
  order.
\<close>

section \<open>Formats\<close>

definition enc_codeset :: "endian \<Rightarrow> codeset \<Rightarrow> nat \<Rightarrow> byte list" where
  "enc_codeset e cs p = enc_ulong e (native_code_set cs) p
     @ u32_bytes e (of_nat (length (conversion_code_sets cs)))
     @ concat (map (u32_bytes e) (conversion_code_sets cs))"

definition enc_ssl :: "endian \<Rightarrow> u32 \<Rightarrow> u32 \<Rightarrow> u16 \<Rightarrow> nat \<Rightarrow> byte list" where
  "enc_ssl e supports requires port p = pad 4 p
     @ u32_bytes e supports @ u32_bytes e requires @ u16_bytes e port"

fun enc_component_data :: "objkey \<Rightarrow> endian \<Rightarrow> component \<Rightarrow> nat \<Rightarrow> byte list" where
  "enc_component_data key e (GENERIC_SSL_SEC_TRANS s) p = enc_encaps e (enc_string e s) p"
| "enc_component_data key e (SSL_SEC_TRANS su re po) p = enc_encaps e (enc_ssl e su re po) p"
| "enc_component_data key e (COMPLETE_OBJECT_KEY _) p = enc_octets e key p"
| "enc_component_data key e (CODE_SETS a b) p = enc_encaps e
     (\<lambda>p. enc_codeset e a p @ enc_codeset e b (p + length (enc_codeset e a p))) p"
| "enc_component_data key e (UnknownComponent _ d) p = enc_octets e d p"

definition enc_component :: "objkey \<Rightarrow> endian \<Rightarrow> component \<Rightarrow> nat \<Rightarrow> byte list" where
  "enc_component key e c p = enc_ulong e (component_type c) p
     @ enc_component_data key e c (p + length (enc_ulong e (component_type c) p))"

definition enc_components :: "objkey \<Rightarrow> endian \<Rightarrow> component list \<Rightarrow> nat \<Rightarrow> byte list" where
  "enc_components key e cs p = enc_ulong e (of_nat (length cs)) p
     @ enc_list (enc_component key e) cs (p + length (enc_ulong e (of_nat (length cs)) p))"

text \<open>What fits: strings end in their only NUL, and every length fits its 32-bit field.\<close>

fun component_len :: "objkey \<Rightarrow> component \<Rightarrow> nat" where
  "component_len key (GENERIC_SSL_SEC_TRANS s) = 22 + length s"
| "component_len key (SSL_SEC_TRANS _ _ _) = 28"
| "component_len key (COMPLETE_OBJECT_KEY _) = 14 + length key"
| "component_len key (CODE_SETS a b) = 37 + 4 * (length (conversion_code_sets a)
     + length (conversion_code_sets b))"
| "component_len key (UnknownComponent _ d) = 14 + length d"

fun component_ok :: "objkey \<Rightarrow> component \<Rightarrow> bool" where
  "component_ok key (GENERIC_SSL_SEC_TRANS s) \<longleftrightarrow> c_string s \<and> 22 + length s < 2 ^ 32"
| "component_ok key (SSL_SEC_TRANS _ _ _) \<longleftrightarrow> True"
| "component_ok key (COMPLETE_OBJECT_KEY _) \<longleftrightarrow> length key < 2 ^ 32"
| "component_ok key (CODE_SETS a b) \<longleftrightarrow> 37 + 4 * (length (conversion_code_sets a)
     + length (conversion_code_sets b)) < 2 ^ 32"
| "component_ok key (UnknownComponent t d) \<longleftrightarrow> length d < 2 ^ 32
     \<and> t \<notin> {IOP_TAG_GENERIC_SSL_SEC_TRANS, IOP_TAG_SSL_SEC_TRANS, IOP_TAG_COMPLETE_OBJECT_KEY,
         IOP_TAG_CODE_SETS}"

text \<open>A component with the key of the object comes back with that key.\<close>

fun component_view :: "objkey \<Rightarrow> component \<Rightarrow> component" where
  "component_view key (COMPLETE_OBJECT_KEY _) = COMPLETE_OBJECT_KEY (Some key)"
| "component_view key c = c"

section \<open>Components\<close>

lemma ObjectKey_marshal_enc:
  "sb_ok b \<Longrightarrow> IOP_ObjectKey_marshal k b = sb_append (enc_octets (s_host b) k (spos b)) b"
  by (simp add: IOP_ObjectKey_marshal_def enc_octets_def enc_ulong_def)

lemma ObjectKey_demarshal_octets: "IOP_ObjectKey_demarshal = rd_octets"
  by (simp add: IOP_ObjectKey_demarshal_def rd_octets_def rd_ulong_def rd_bind_assoc)

lemma string_block_octets: "rd_string_block = rd_octets"
  by (simp add: rd_string_block_def rd_octets_def rd_ulong_def rd_bind_assoc)

interpretation objkey: cdr_codec IOP_ObjectKey_marshal IOP_ObjectKey_demarshal enc_octets
  "\<lambda>k. length k < 2 ^ 32" "\<lambda>k. k"
  by unfold_locales (simp_all add: ObjectKey_marshal_enc ObjectKey_demarshal_octets parses_octets)

lemma pad_4_u32 [simp]: "pad 4 (p + length (enc_ulong e w p)) = []"
proof -
  have "p + length (enc_ulong e w p) = ALIGN_VALUE p 4 + 4"
    using pad_pos[of 4 p] by (simp add: enc_ulong_def)
  then show ?thesis using ALIGN_VALUE_dvd[of 4 p] by (simp add: pad_Nil)
qed

lemma CodeSetComponent_marshal_enc:
  "sb_ok b \<Longrightarrow> CodeSetComponent_marshal cs b = sb_append (enc_codeset (s_host b) cs (spos b)) b"
  using pad_4_u32[of "spos b" "s_host b" "native_code_set cs"]
  by (simp add: CodeSetComponent_marshal_def enc_codeset_def enc_ulong_def Let_def)

lemma parses_u32_list:
  "parses (rd_loop rd_u32 (length ws)) e p (concat (map (u32_bytes e) ws)) ws"
proof (induction ws arbitrary: p)
  case (Cons w ws)
  then show ?case by (auto intro!: parses_bind[OF parses_u32] parses_bind_ret)
qed auto

lemma concat_u32_length [simp]: "length (concat (map (u32_bytes e) ws)) = 4 * length ws"
  by (induction ws) auto

lemma parses_CodeSet:
  assumes "4 * length (conversion_code_sets cs) < 2 ^ 32"
  shows "parses CodeSetComponent_demarshal e p (enc_codeset e cs p) cs"
proof -
  let ?n = "of_nat (length (conversion_code_sets cs)) :: u32"
  have n: "unat ?n = length (conversion_code_sets cs)"
    using assms unat_of_nat_u32 by force
  have "?n * 4 = of_nat (4 * length (conversion_code_sets cs))" by (simp add: mult.commute)
  then have n4: "unat (?n * 4) = 4 * length (conversion_code_sets cs)"
    using unat_of_nat_u32[OF assms] by (simp only:)
  show ?thesis
    unfolding CodeSetComponent_demarshal_def enc_codeset_def enc_ulong_def append_assoc
    by (intro parses_bind[OF parses_align] parses_need parses_bind[OF parses_u32])
      (simp_all add: n n4 parses_bind_ret[OF parses_u32_list])
qed

lemma enc_codeset_length [len_simps]:
  "length (enc_codeset e cs p) \<le> 11 + 4 * length (conversion_code_sets cs)"
  using enc_ulong_length[of e "native_code_set cs" p] by (simp add: enc_codeset_def)

lemma enc_ssl_length: "length (enc_ssl e su re po p) \<le> 13"
  using pad_less[of 4 p] by (simp add: enc_ssl_def del: pad_length)

lemma parses_as_outer:
  assumes "parses m (flag_endian (r_flags buf)) p bs v" shows "parses (as_outer buf m) e p bs v"
proof (rule parsesI)
  fix b assume "at_bytes p bs b"
  then have "at_bytes p bs (b\<lparr> r_flags := r_flags buf \<rparr>)" by (simp add: at_bytes_def)
  then show "as_outer buf m b = Inr (v, b\<lparr> r_cur := p + length bs \<rparr>)"
    using parsesD[OF assms, of "b\<lparr> r_flags := r_flags buf \<rparr>"] by (simp add: as_outer_def)
qed

lemma parses_SSL:
  "parses IOP_TAG_SSL_SEC_TRANS_demarshal e p (enc_encaps e (enc_ssl e su re po) p)
     (SSL_SEC_TRANS su re po)"
  unfolding IOP_TAG_SSL_SEC_TRANS_demarshal_def
proof (rule parses_self, rule parses_encaps_enc, rule accepts_parses)
  fix buf :: rbuf and q assume e: "flag_endian (r_flags buf) = e"
  show "parses (as_outer buf (rd_bind (rd_align 4) (\<lambda>_. rd_bind (rd_need 10) (\<lambda>_. rd_bind rd_u32
      (\<lambda>su. rd_bind rd_u32 (\<lambda>re. rd_bind rd_u16 (\<lambda>po. rd_ret (SSL_SEC_TRANS su re po))))))))
      e q (enc_ssl e su re po q) (SSL_SEC_TRANS su re po)"
    unfolding enc_ssl_def
    by (rule parses_as_outer, unfold e)
      (intro parses_bind[OF parses_align] parses_need parses_bind[OF parses_u32]
        parses_bind_ret[OF parses_u16], simp_all)
  show "Suc (length (enc_ssl e su re po q)) < 2 ^ 32"
    using enc_ssl_length[of e su re po q] by simp
qed

lemma parses_GENERIC_SSL:
  assumes s: "22 + length s < 2 ^ 32"
  shows "parses IOP_TAG_GENERIC_SSL_SEC_TRANS_demarshal e p (enc_encaps e (enc_string e s) p)
     (GENERIC_SSL_SEC_TRANS s)"
  unfolding IOP_TAG_GENERIC_SSL_SEC_TRANS_demarshal_def
proof (rule parses_self, rule parses_encaps_enc, rule accepts_parses)
  fix buf :: rbuf and q assume e: "flag_endian (r_flags buf) = e"
  have "parses (rd_bind rd_octets (\<lambda>service. rd_ret (GENERIC_SSL_SEC_TRANS service))) e q
      (enc_string e s q) (GENERIC_SSL_SEC_TRANS s)"
    unfolding enc_string_def by (rule parses_bind_ret[OF parses_octets]) (use s in simp_all)
  then show "parses (as_outer buf (rd_bind (rd_align 4) (\<lambda>_. rd_bind (rd_need 4) (\<lambda>_. rd_bind rd_u32
      (\<lambda>len. rd_bind (rd_need (unat len)) (\<lambda>_. rd_bind (rd_bytes (unat len))
      (\<lambda>service. rd_ret (GENERIC_SSL_SEC_TRANS service))))))))
      e q (enc_string e s q) (GENERIC_SSL_SEC_TRANS s)"
    by (intro parses_as_outer) (simp add: e rd_octets_def rd_ulong_def rd_bind_assoc)
  show "Suc (length (enc_string e s q)) < 2 ^ 32"
    using enc_string_length[of e s q] s by simp
qed

lemma parses_CODE_SETS:
  assumes "component_ok key (CODE_SETS a b)"
  shows "parses (IOP_TAG_CODE_SETS_demarshal CodeSetComponent_demarshal) e p
    (enc_component_data key e (CODE_SETS a b) p) (CODE_SETS a b)"
proof -
  have "parses (rd_bind CodeSetComponent_demarshal (\<lambda>chars.
      rd_bind CodeSetComponent_demarshal (\<lambda>wchars. rd_ret (CODE_SETS chars wchars)))) e q
      (enc_codeset e a q @ enc_codeset e b (q + length (enc_codeset e a q))) (CODE_SETS a b)" for q
    using assms by (intro parses_bind[OF parses_CodeSet] parses_bind_ret[OF parses_CodeSet]) simp_all
  moreover have "Suc (length (enc_codeset e a q @ enc_codeset e b (q + length (enc_codeset e a q))))
      < 2 ^ 32" for q
    using enc_codeset_length[of e a q] enc_codeset_length[of e b "q + length (enc_codeset e a q)"]
      assms by simp
  ultimately show ?thesis
    unfolding IOP_TAG_CODE_SETS_demarshal_def enc_component_data.simps
    by (intro parses_encaps_enc accepts_parses)
qed

lemma UnknownComponent_octets:
  "IOP_UnknownComponent_demarshal t = rd_bind rd_octets (\<lambda>d. rd_ret (UnknownComponent t d))"
  by (simp add: IOP_UnknownComponent_demarshal_def rd_octets_def rd_ulong_def rd_bind_assoc)

lemma parses_component:
  assumes ok: "component_ok key c"
  shows "parses (IOP_component_demarshal CodeSetComponent_demarshal) e p (enc_component key e c p)
    (component_view key c)"
proof -
  let ?p = "p + length (enc_ulong e (component_type c) p)"
  let ?k = "\<lambda>cid. if cid = IOP_TAG_COMPLETE_OBJECT_KEY then IOP_TAG_COMPLETE_OBJECT_KEY_demarshal
       else if cid = IOP_TAG_GENERIC_SSL_SEC_TRANS then IOP_TAG_GENERIC_SSL_SEC_TRANS_demarshal
       else if cid = IOP_TAG_SSL_SEC_TRANS then IOP_TAG_SSL_SEC_TRANS_demarshal
       else if cid = IOP_TAG_CODE_SETS then IOP_TAG_CODE_SETS_demarshal CodeSetComponent_demarshal
       else IOP_UnknownComponent_demarshal cid"
  have "parses (?k (component_type c)) e ?p (enc_component_data key e c ?p) (component_view key c)"
  proof (cases c)
    case (GENERIC_SSL_SEC_TRANS s)
    then show ?thesis using ok by (simp add: iop_component_tags parses_GENERIC_SSL)
  next
    case (SSL_SEC_TRANS a b c)
    then show ?thesis by (simp add: iop_component_tags parses_SSL)
  next
    case (COMPLETE_OBJECT_KEY k)
    then show ?thesis using ok
      by (auto simp: iop_component_tags IOP_TAG_COMPLETE_OBJECT_KEY_demarshal_def
          ObjectKey_demarshal_octets intro!: parses_bind_ret[OF parses_octets])
  next
    case (CODE_SETS a b)
    then show ?thesis using parses_CODE_SETS[of key a b e ?p] ok
      by (simp add: iop_component_tags del: enc_component_data.simps)
  next
    case (UnknownComponent t d)
    then show ?thesis using ok
      by (auto simp: UnknownComponent_octets intro!: parses_bind_ret[OF parses_octets])
  qed
  then have "parses (rd_bind rd_ulong ?k) e p (enc_component key e c p) (component_view key c)"
    unfolding enc_component_def by (rule parses_bind[OF parses_ulong])
  then show ?thesis by (simp add: IOP_component_demarshal_def rd_ulong_def rd_bind_assoc)
qed

lemma put_component:
  assumes b: "sb_ok b" and ok: "component_ok key c"
  shows "IOP_component_marshal key old c b
    = sb_append (enc_component key (s_host b) c (spos b)) b"
proof -
  let ?b = "sb_append (enc_ulong (s_host b) (component_type c) (spos b)) b"
  have head: "sb_append (u32_bytes (s_host b) (component_type c)) (sb_align 4 b) = ?b"
    using b by (simp add: enc_ulong_def)
  have body: "(case c of
       GENERIC_SSL_SEC_TRANS service \<Rightarrow> sb_encaps old (sb_append_string service) ?b
     | SSL_SEC_TRANS su re po \<Rightarrow> sb_encaps old (IOP_TAG_SSL_SEC_TRANS_marshal su re po) ?b
     | COMPLETE_OBJECT_KEY _ \<Rightarrow> IOP_ObjectKey_marshal key ?b
     | CODE_SETS chars wchars \<Rightarrow>
         sb_encaps old (\<lambda>b. CodeSetComponent_marshal wchars (CodeSetComponent_marshal chars b)) ?b
     | UnknownComponent _ data \<Rightarrow> IOP_UnknownComponent_marshal data ?b)
     = sb_append (enc_component_data key (s_host b) c (spos ?b)) ?b"
  proof (cases c)
    case (GENERIC_SSL_SEC_TRANS s)
    then show ?thesis using b ok sb_encaps_enc[of ?b "sb_append_string s" "enc_string (s_host b) s" old]
      by (simp add: sb_append_string_enc string_ok_def)
  next
    case (SSL_SEC_TRANS su re po)
    then show ?thesis
      using b sb_encaps_enc[of ?b "IOP_TAG_SSL_SEC_TRANS_marshal su re po" "enc_ssl (s_host b) su re po" old]
      by (simp add: IOP_TAG_SSL_SEC_TRANS_marshal_def enc_ssl_def)
  next
    case (CODE_SETS x y)
    then show ?thesis
      using b sb_encaps_enc[of ?b "\<lambda>b. CodeSetComponent_marshal y (CodeSetComponent_marshal x b)"
        "\<lambda>p. enc_codeset (s_host b) x p @ enc_codeset (s_host b) y (p + length (enc_codeset (s_host b) x p))" old]
      by (simp add: CodeSetComponent_marshal_enc)
  next
    case (UnknownComponent t d)
    then show ?thesis using b
      by (simp add: IOP_UnknownComponent_marshal_def enc_octets_def enc_ulong_def[of _ "of_nat _"])
  qed (use b in \<open>simp add: ObjectKey_marshal_enc\<close>)
  show ?thesis
    unfolding IOP_component_marshal_def Let_def head using body by (simp add: enc_component_def)
qed

interpretation component: cdr_codec "IOP_component_marshal key old"
  "IOP_component_demarshal CodeSetComponent_demarshal" "enc_component key" "component_ok key"
  "component_view key" for key old
  by unfold_locales (simp_all add: put_component parses_component)

lemma component_length: "length (enc_component key e c p) \<le> component_len key c"
proof -
  let ?p = "p + length (enc_ulong e (component_type c) p)"
  have "length (enc_component_data key e c ?p) + 7 \<le> component_len key c"
  proof (cases c)
    case (GENERIC_SSL_SEC_TRANS s)
    then show ?thesis
      using enc_encaps_length[of "enc_string e s" "7 + length s" e ?p] by (simp add: len_simps)
  next
    case (SSL_SEC_TRANS su re po)
    then show ?thesis
      using enc_encaps_length[of "enc_ssl e su re po" 13 e ?p] by (simp add: enc_ssl_length)
  next
    case (CODE_SETS x y)
    have "length (enc_codeset e x q @ enc_codeset e y (q + length (enc_codeset e x q)))
        \<le> 22 + 4 * (length (conversion_code_sets x) + length (conversion_code_sets y))" for q
      using enc_codeset_length[of e x q] enc_codeset_length[of e y "q + length (enc_codeset e x q)"]
      by simp
    from enc_encaps_length[of "\<lambda>q. enc_codeset e x q @ enc_codeset e y (q + length (enc_codeset e x q))",
        OF this] CODE_SETS show ?thesis by simp
  qed (use enc_octets_length in auto)
  then show ?thesis using enc_ulong_length[of e "component_type c" p]
    by (simp add: enc_component_def)
qed

lemma IOP_components_demarshal_counted:
  "IOP_components_demarshal cs = rd_bind rd_ulong (\<lambda>n. rd_loop (IOP_component_demarshal cs) (unat n))"
  by (simp add: IOP_components_demarshal_def rd_ulong_def rd_bind_assoc)

definition components_ok :: "objkey \<Rightarrow> component list \<Rightarrow> bool" where
  "components_ok key cs \<longleftrightarrow> list_all (component_ok key) cs \<and> length cs < 2 ^ 32"

definition components_len :: "objkey \<Rightarrow> component list \<Rightarrow> nat" where
  "components_len key cs = 7 + sum_list (map (component_len key) cs)"

lemma components_length: "length (enc_components key e cs p) \<le> components_len key cs"
  using enc_list_length[of cs "enc_component key e" "component_len key"]
    enc_ulong_length[of e "of_nat (length cs)" p]
  by (simp add: enc_components_def components_len_def component_length add_mono)

lemma put_components:
  "sb_ok b \<Longrightarrow> components_ok key cs \<Longrightarrow>
     IOP_components_marshal key cs b = sb_append (enc_components key (s_host b) cs (spos b)) b"
  by (simp add: IOP_components_marshal_def component.put_list components_ok_def enc_components_def
      enc_ulong_def Let_def)

interpretation components: cdr_codec "IOP_components_marshal key"
  "IOP_components_demarshal CodeSetComponent_demarshal" "enc_components key" "components_ok key"
  "map (component_view key)" for key
  by unfold_locales
    (simp_all add: put_components IOP_components_demarshal_counted enc_components_def
      component.get_counted components_ok_def)

section \<open>Profiles\<close>

definition enc_u16 :: "endian \<Rightarrow> u16 \<Rightarrow> nat \<Rightarrow> byte list" where
  "enc_u16 e w p = pad 2 p @ u16_bytes e w"

text \<open>Formats one after the other.\<close>

fun enc_seq :: "(nat \<Rightarrow> byte list) list \<Rightarrow> nat \<Rightarrow> byte list" where
  "enc_seq [] p = []"
| "enc_seq (f # fs) p = f p @ enc_seq fs (p + length (f p))"

definition enc_iiop :: "objkey \<Rightarrow> endian \<Rightarrow> iiop_info \<Rightarrow> nat \<Rightarrow> byte list" where
  "enc_iiop key e i = enc_seq [\<lambda>_. giop_version_ids (iiop_version i), enc_string e (iiop_host i),
     enc_u16 e (iiop_port i), enc_octets e key, enc_components key e (iiop_components i)]"

definition enc_generic :: "objkey \<Rightarrow> endian \<Rightarrow> generic_info \<Rightarrow> nat \<Rightarrow> byte list" where
  "enc_generic key e g = enc_seq [\<lambda>_. giop_version_ids (gen_version g), enc_string e (gen_proto g),
     enc_string e (gen_host g), enc_string e (gen_service g),
     enc_components key e (gen_components g)]"

definition enc_specific :: "objkey \<Rightarrow> endian \<Rightarrow> specific_info \<Rightarrow> nat \<Rightarrow> byte list" where
  "enc_specific key e s = enc_seq [\<lambda>_. [1, 2], enc_string e (unix_sock_path s),
     enc_u16 e (ipv6_port s), enc_octets e key]"

fun enc_profile_data :: "objkey \<Rightarrow> endian \<Rightarrow> profile \<Rightarrow> nat \<Rightarrow> byte list" where
  "enc_profile_data key e (INTERNET_IOP i) p = enc_encaps e (enc_iiop key e i) p"
| "enc_profile_data key e (GENERIC_IOP g) p = enc_encaps e (enc_generic key e g) p"
| "enc_profile_data key e (MATECORBA_SPECIFIC s) p = enc_encaps e (enc_specific key e s) p"
| "enc_profile_data key e (MULTIPLE_COMPONENTS cs) p = enc_encaps e (enc_components key e cs) p"
| "enc_profile_data key e (UnknownProfile _ d) p = enc_octets e d p"

definition enc_profile :: "objkey \<Rightarrow> endian \<Rightarrow> profile \<Rightarrow> nat \<Rightarrow> byte list" where
  "enc_profile key e pr p = enc_ulong e (profile_type pr) p
     @ enc_profile_data key e pr (p + length (enc_ulong e (profile_type pr) p))"

text \<open>What fits, as for components, and what the receiver sees: the key in its place.\<close>

fun profile_ok :: "objkey \<Rightarrow> profile \<Rightarrow> bool" where
  "profile_ok key (INTERNET_IOP i) \<longleftrightarrow> c_string (iiop_host i) \<and> components_ok key (iiop_components i)
     \<and> 20 + length (iiop_host i) + length key + components_len key (iiop_components i) < 2 ^ 32"
| "profile_ok key (GENERIC_IOP g) \<longleftrightarrow> c_string (gen_proto g) \<and> c_string (gen_host g)
     \<and> c_string (gen_service g) \<and> components_ok key (gen_components g)
     \<and> 24 + length (gen_proto g) + length (gen_host g) + length (gen_service g)
         + components_len key (gen_components g) < 2 ^ 32"
| "profile_ok key (MATECORBA_SPECIFIC s) \<longleftrightarrow> c_string (unix_sock_path s)
     \<and> 20 + length (unix_sock_path s) + length key < 2 ^ 32"
| "profile_ok key (MULTIPLE_COMPONENTS cs) \<longleftrightarrow> components_ok key cs
     \<and> 1 + components_len key cs < 2 ^ 32"
| "profile_ok key (UnknownProfile t d) \<longleftrightarrow> length d < 2 ^ 32
     \<and> t \<notin> {IOP_TAG_INTERNET_IOP, IOP_TAG_MULTIPLE_COMPONENTS, IOP_TAG_GENERIC_IOP,
         IOP_TAG_MATECORBA_SPECIFIC}"

text \<open>An IIOP 1.0 profile has no components for the receiver, although the sender writes them.\<close>

fun profile_view :: "objkey \<Rightarrow> profile \<Rightarrow> profile" where
  "profile_view key (INTERNET_IOP i) = INTERNET_IOP (i\<lparr> iiop_key := Some key, iiop_components :=
     (if iiop_version i = GIOP_1_0 then [] else map (component_view key) (iiop_components i)) \<rparr>)"
| "profile_view key (GENERIC_IOP g) = GENERIC_IOP (g\<lparr> gen_components :=
     map (component_view key) (gen_components g) \<rparr>)"
| "profile_view key (MATECORBA_SPECIFIC s) = MATECORBA_SPECIFIC (s\<lparr> os_key := Some key \<rparr>)"
| "profile_view key (MULTIPLE_COMPONENTS cs) = MULTIPLE_COMPONENTS (map (component_view key) cs)"
| "profile_view key (UnknownProfile t d) = UnknownProfile t d"

lemma parses_two_bytes:
  assumes "parses (k x y) e (p + 2) [] v"
  shows "parses (rd_bind rd_byte (\<lambda>a. rd_bind rd_byte (k a))) e p [x, y] v"
  by (rule parses_bind'[OF parses_byte, where bs = "[y]"],
      rule parses_bind'[OF parses_byte, where bs = "[]"]) (use assms in simp_all)

lemma parses_version: "parses rd_version e p (giop_version_ids v) v"
  unfolding rd_version_def
  by (cases v) (auto intro!: parses_need parses_two_bytes parses_ret)

lemma parses_string_block:
  "length s < 2 ^ 32 \<Longrightarrow> parses rd_string_block e p (enc_string e s p) s"
  by (simp add: string_block_octets enc_string_def parses_octets)

lemma parses_key:
  "length k < 2 ^ 32 \<Longrightarrow> parses IOP_ObjectKey_demarshal e p (enc_octets e k p) k"
  by (rule objkey.get_enc)

lemma accepts_u16:
  "accepts (k w) e (p + length (enc_u16 e w p)) bs v \<Longrightarrow>
   accepts (rd_bind (rd_align 2) (\<lambda>_. rd_bind (rd_need 2) (\<lambda>_. rd_bind rd_u16 k))) e p
     (enc_u16 e w p @ bs) v"
  unfolding accepts_def
  by (elim exE conjE, rule_tac x = "enc_u16 e w p @ ys" in exI, rule_tac x = zs in exI,
      unfold enc_u16_def append_assoc)
    (auto intro!: parses_bind[OF parses_align] parses_need parses_bind[OF parses_u16] simp: add.assoc)

lemma accepts_iiop:
  assumes ok: "profile_ok key (INTERNET_IOP i)"
  shows "accepts (rd_bind rd_version (\<lambda>version. rd_bind rd_string_block (\<lambda>host.
      rd_bind (rd_align 2) (\<lambda>_. rd_bind (rd_need 2) (\<lambda>_. rd_bind rd_u16 (\<lambda>port.
      rd_bind IOP_ObjectKey_demarshal (\<lambda>objkey.
      rd_bind (if version \<noteq> GIOP_1_0
        then IOP_components_demarshal CodeSetComponent_demarshal else rd_ret []) (\<lambda>comps.
      rd_ret (INTERNET_IOP \<lparr> iiop_version = version, iiop_host = host, iiop_port = port,
        iiop_key = Some objkey, iiop_components = comps \<rparr>)))))))))
      e p (enc_iiop key e i p) (profile_view key (INTERNET_IOP i))"
proof -
  have len: "length (iiop_host i) < 2 ^ 32" "length key < 2 ^ 32" using ok by simp_all
  have tail: "accepts (rd_bind (if iiop_version i \<noteq> GIOP_1_0
        then IOP_components_demarshal CodeSetComponent_demarshal else rd_ret []) (\<lambda>comps.
      rd_ret (INTERNET_IOP \<lparr> iiop_version = iiop_version i, iiop_host = iiop_host i,
        iiop_port = iiop_port i, iiop_key = Some key, iiop_components = comps \<rparr>)))
      e q (enc_components key e (iiop_components i) q) (profile_view key (INTERNET_IOP i))" for q
  proof (cases "iiop_version i = GIOP_1_0")
    case True
    then show ?thesis
      using accepts_prefix[OF parses_ret, of _ e q "enc_components key e (iiop_components i) q"]
      by (cases i) simp
  next
    case False
    then show ?thesis using ok
      by (cases i) (auto intro!: accepts_parses parses_bind_ret[OF components.get_enc])
  qed
  show ?thesis
    unfolding enc_iiop_def enc_seq.simps
    by (rule accepts_bind[OF parses_version], rule accepts_bind[OF parses_string_block[OF len(1)]],
        rule accepts_u16, rule accepts_bind[OF parses_key[OF len(2)]])
      (use tail in simp)
qed

lemma accepts_generic:
  assumes ok: "profile_ok key (GENERIC_IOP g)"
  shows "accepts (rd_bind rd_version (\<lambda>version. rd_bind rd_string_block (\<lambda>proto.
      rd_bind rd_string_block (\<lambda>host. rd_bind rd_string_block (\<lambda>service.
      rd_bind (IOP_components_demarshal CodeSetComponent_demarshal) (\<lambda>comps.
      rd_ret (GENERIC_IOP \<lparr> gen_version = version, gen_proto = proto, gen_host = host,
        gen_service = service, gen_components = comps \<rparr>)))))))
      e p (enc_generic key e g p) (profile_view key (GENERIC_IOP g))"
proof -
  have len: "length (gen_proto g) < 2 ^ 32" "length (gen_host g) < 2 ^ 32"
    "length (gen_service g) < 2 ^ 32" using ok by simp_all
  have tail: "accepts (rd_bind (IOP_components_demarshal CodeSetComponent_demarshal) (\<lambda>comps.
      rd_ret (GENERIC_IOP \<lparr> gen_version = gen_version g, gen_proto = gen_proto g,
        gen_host = gen_host g, gen_service = gen_service g, gen_components = comps \<rparr>)))
      e q (enc_components key e (gen_components g) q) (profile_view key (GENERIC_IOP g))" for q
    using ok by (cases g) (auto intro!: accepts_parses parses_bind_ret[OF components.get_enc])
  show ?thesis
    unfolding enc_generic_def enc_seq.simps
    by (rule accepts_bind[OF parses_version], rule accepts_bind[OF parses_string_block[OF len(1)]],
        rule accepts_bind[OF parses_string_block[OF len(2)]],
        rule accepts_bind[OF parses_string_block[OF len(3)]])
      (use tail in simp)
qed

lemma accepts_specific:
  assumes ok: "profile_ok key (MATECORBA_SPECIFIC s)"
  shows "accepts (rd_bind (rd_need 2) (\<lambda>_. rd_bind (rd_bytes 2) (\<lambda>_.
      rd_bind rd_string_block (\<lambda>path. rd_bind (rd_align 2) (\<lambda>_. \<lambda>buf.
      if r_cur buf + 2 > r_end buf then Inl Abort
      else rd_bind rd_u16 (\<lambda>port. rd_bind IOP_ObjectKey_demarshal (\<lambda>objkey.
        rd_ret (MATECORBA_SPECIFIC \<lparr> unix_sock_path = path, ipv6_port = port,
          os_key = Some objkey \<rparr>))) buf)))))
      e p (enc_specific key e s p) (profile_view key (MATECORBA_SPECIFIC s))"
proof -
  have len: "length (unix_sock_path s) < 2 ^ 32" "length key < 2 ^ 32" using ok by simp_all
  have port: "parses (\<lambda>buf. if r_cur buf + 2 > r_end buf then Inl Abort else m buf) e q bs v"
    if "parses m e q bs v" "2 \<le> length bs" for m :: "profile reader" and q bs v
    using that by (auto simp: parses_def at_bytes_def)
  have "parses (rd_bind (rd_bytes 2) (\<lambda>_.
      rd_bind rd_string_block (\<lambda>path. rd_bind (rd_align 2) (\<lambda>_. \<lambda>buf.
      if r_cur buf + 2 > r_end buf then Inl Abort
      else rd_bind rd_u16 (\<lambda>port. rd_bind IOP_ObjectKey_demarshal (\<lambda>objkey.
        rd_ret (MATECORBA_SPECIFIC \<lparr> unix_sock_path = path, ipv6_port = port,
          os_key = Some objkey \<rparr>))) buf))))
      e p (enc_specific key e s p) (profile_view key (MATECORBA_SPECIFIC s))"
    unfolding enc_specific_def enc_seq.simps enc_u16_def append_assoc
    by (rule parses_bind[OF parses_bytes], simp, rule parses_bind[OF parses_string_block[OF len(1)]],
        rule parses_bind[OF parses_align], simp, rule port, rule parses_bind[OF parses_u16],
        simp only: length_append add.assoc append_Nil2,
        rule parses_bind_ret[OF parses_key[OF len(2)]])
      (cases s, simp_all)
  then show ?thesis
    by (intro accepts_parses parses_need) (simp_all add: enc_specific_def)
qed
text \<open>Lengths, so that every encapsulation's length fits.\<close>

lemma enc_u16_length: "length (enc_u16 e w p) \<le> 3"
  using pad_less[of 2 p] by (simp add: enc_u16_def del: pad_length)

lemma profile_data_length:
  "length (enc_iiop key e i p) \<le> 19 + length (iiop_host i) + length key
     + components_len key (iiop_components i)"
  "length (enc_generic key e g p) \<le> 23 + length (gen_proto g) + length (gen_host g)
     + length (gen_service g) + components_len key (gen_components g)"
  "length (enc_specific key e s p) \<le> 19 + length (unix_sock_path s) + length key"
proof -
  let ?a = "length (enc_string e (iiop_host i) (p + 2))"
  let ?b = "length (enc_u16 e (iiop_port i) (p + 2 + ?a))"
  let ?c = "length (enc_octets e key (p + 2 + ?a + ?b))"
  show "length (enc_iiop key e i p) \<le> 19 + length (iiop_host i) + length key
     + components_len key (iiop_components i)"
    using enc_string_length[of e "iiop_host i" "p + 2"] enc_u16_length[of e "iiop_port i" "p + 2 + ?a"]
      enc_octets_length[of e key "p + 2 + ?a + ?b"]
      components_length[of key e "iiop_components i" "p + 2 + ?a + ?b + ?c"]
    by (simp add: enc_iiop_def)
  let ?a = "length (enc_string e (gen_proto g) (p + 2))"
  let ?b = "length (enc_string e (gen_host g) (p + 2 + ?a))"
  let ?c = "length (enc_string e (gen_service g) (p + 2 + ?a + ?b))"
  show "length (enc_generic key e g p) \<le> 23 + length (gen_proto g) + length (gen_host g)
     + length (gen_service g) + components_len key (gen_components g)"
    using enc_string_length[of e "gen_proto g" "p + 2"] enc_string_length[of e "gen_host g" "p + 2 + ?a"]
      enc_string_length[of e "gen_service g" "p + 2 + ?a + ?b"]
      components_length[of key e "gen_components g" "p + 2 + ?a + ?b + ?c"]
    by (simp add: enc_generic_def)
  let ?a = "length (enc_string e (unix_sock_path s) (p + 2))"
  let ?b = "length (enc_u16 e (ipv6_port s) (p + 2 + ?a))"
  show "length (enc_specific key e s p) \<le> 19 + length (unix_sock_path s) + length key"
    using enc_string_length[of e "unix_sock_path s" "p + 2"]
      enc_u16_length[of e "ipv6_port s" "p + 2 + ?a"] enc_octets_length[of e key "p + 2 + ?a + ?b"]
    by (simp add: enc_specific_def)
qed

lemma parses_profile:
  assumes ok: "profile_ok key pr"
  shows "parses (IOP_profile_demarshal CodeSetComponent_demarshal) e p (enc_profile key e pr p)
    (profile_view key pr)"
proof -
  let ?p = "p + length (enc_ulong e (profile_type pr) p)"
  let ?cs = CodeSetComponent_demarshal
  let ?k = "\<lambda>t. if t = IOP_TAG_INTERNET_IOP then IOP_TAG_INTERNET_IOP_demarshal ?cs
       else if t = IOP_TAG_MULTIPLE_COMPONENTS then IOP_TAG_MULTIPLE_COMPONENTS_demarshal ?cs
       else if t = IOP_TAG_GENERIC_IOP then IOP_TAG_GENERIC_IOP_demarshal ?cs
       else if t = IOP_TAG_MATECORBA_SPECIFIC then IOP_TAG_MATECORBA_SPECIFIC_demarshal
       else IOP_UnknownProfile_demarshal t"
  have "parses (?k (profile_type pr)) e ?p (enc_profile_data key e pr ?p) (profile_view key pr)"
  proof (cases pr)
    case (INTERNET_IOP i)
    have "Suc (length (enc_iiop key e i q)) < 2 ^ 32" for q
      using profile_data_length(1)[of key e i q] ok INTERNET_IOP by simp
    then have "parses (IOP_TAG_INTERNET_IOP_demarshal ?cs) e ?p (enc_encaps e (enc_iiop key e i) ?p)
        (profile_view key (INTERNET_IOP i))"
      unfolding IOP_TAG_INTERNET_IOP_demarshal_def
      by (intro parses_encaps_enc[OF accepts_iiop]) (use ok INTERNET_IOP in simp_all)
    then show ?thesis using INTERNET_IOP by (simp add: iop_profile_tags)
  next
    case (GENERIC_IOP g)
    have "Suc (length (enc_generic key e g q)) < 2 ^ 32" for q
      using profile_data_length(2)[of key e g q] ok GENERIC_IOP by simp
    then have "parses (IOP_TAG_GENERIC_IOP_demarshal ?cs) e ?p (enc_encaps e (enc_generic key e g) ?p)
        (profile_view key (GENERIC_IOP g))"
      unfolding IOP_TAG_GENERIC_IOP_demarshal_def
      by (intro parses_encaps_enc[OF accepts_generic]) (use ok GENERIC_IOP in simp_all)
    then show ?thesis using GENERIC_IOP by (simp add: iop_profile_tags)
  next
    case (MATECORBA_SPECIFIC s)
    have "Suc (length (enc_specific key e s q)) < 2 ^ 32" for q
      using profile_data_length(3)[of key e s q] ok MATECORBA_SPECIFIC by simp
    then have "parses IOP_TAG_MATECORBA_SPECIFIC_demarshal e ?p
        (enc_encaps e (enc_specific key e s) ?p) (profile_view key (MATECORBA_SPECIFIC s))"
      unfolding IOP_TAG_MATECORBA_SPECIFIC_demarshal_def
      by (intro parses_encaps_enc[OF accepts_specific]) (use ok MATECORBA_SPECIFIC in simp_all)
    then show ?thesis using MATECORBA_SPECIFIC by (simp add: iop_profile_tags)
  next
    case (MULTIPLE_COMPONENTS cs)
    have "Suc (length (enc_components key e cs q)) < 2 ^ 32" for q
      using components_length[of key e cs q] ok MULTIPLE_COMPONENTS by simp
    then have "parses (IOP_TAG_MULTIPLE_COMPONENTS_demarshal ?cs) e ?p
        (enc_encaps e (enc_components key e cs) ?p) (profile_view key (MULTIPLE_COMPONENTS cs))"
      unfolding IOP_TAG_MULTIPLE_COMPONENTS_demarshal_def
      by (intro parses_encaps_enc[OF accepts_parses[OF parses_bind_ret[OF components.get_enc]]])
        (use ok MULTIPLE_COMPONENTS in simp_all)
    then show ?thesis using MULTIPLE_COMPONENTS by (simp add: iop_profile_tags)
  next
    case (UnknownProfile t d)
    then show ?thesis using ok
      by (auto simp: IOP_UnknownProfile_demarshal_def string_block_octets
          intro!: parses_bind_ret[OF parses_octets])
  qed
  then have "parses (rd_bind rd_ulong ?k) e p (enc_profile key e pr p) (profile_view key pr)"
    unfolding enc_profile_def by (rule parses_bind[OF parses_ulong])
  then show ?thesis by (simp add: IOP_profile_demarshal_def rd_ulong_def rd_bind_assoc)
qed

text \<open>The marshalling side.\<close>

lemma put_iiop:
  "sb_ok b \<Longrightarrow> profile_ok key (INTERNET_IOP i) \<Longrightarrow>
     IOP_TAG_INTERNET_IOP_marshal key i b = sb_append (enc_iiop key (s_host b) i (spos b)) b"
  by (simp add: IOP_TAG_INTERNET_IOP_marshal_def enc_iiop_def enc_u16_def Let_def string_ok_def
      sb_append_string_enc ObjectKey_marshal_enc put_components add.assoc)

lemma put_generic:
  "sb_ok b \<Longrightarrow> profile_ok key (GENERIC_IOP g) \<Longrightarrow>
     IOP_TAG_GENERIC_IOP_marshal key g b = sb_append (enc_generic key (s_host b) g (spos b)) b"
  by (simp add: IOP_TAG_GENERIC_IOP_marshal_def enc_generic_def Let_def string_ok_def
      sb_append_string_enc put_components add.assoc)

lemma put_specific:
  "sb_ok b \<Longrightarrow> profile_ok key (MATECORBA_SPECIFIC s) \<Longrightarrow>
     IOP_TAG_MATECORBA_SPECIFIC_marshal key s b
       = sb_append (enc_specific key (s_host b) s (spos b)) b"
  by (simp add: IOP_TAG_MATECORBA_SPECIFIC_marshal_def enc_specific_def enc_u16_def Let_def
      string_ok_def sb_append_string_enc ObjectKey_marshal_enc add.assoc)

lemma put_profile:
  assumes b: "sb_ok b" and ok: "profile_ok key pr"
  shows "IOP_profile_marshal key pr b = sb_append (enc_profile key (s_host b) pr (spos b)) b"
proof -
  let ?b = "sb_append (enc_ulong (s_host b) (profile_type pr) (spos b)) b"
  have head: "sb_append_aligned (u32_bytes (s_host b) (profile_type pr)) b = ?b"
    using b by (simp add: enc_ulong_def)
  have body: "(case pr of
       INTERNET_IOP iiop \<Rightarrow> sb_encaps 0 (IOP_TAG_INTERNET_IOP_marshal key iiop) ?b
     | MATECORBA_SPECIFIC osi \<Rightarrow> sb_encaps 0 (IOP_TAG_MATECORBA_SPECIFIC_marshal key osi) ?b
     | GENERIC_IOP giop \<Rightarrow> sb_encaps 0 (IOP_TAG_GENERIC_IOP_marshal key giop) ?b
     | MULTIPLE_COMPONENTS cs \<Rightarrow> sb_encaps 0 (IOP_components_marshal key cs) ?b
     | UnknownProfile _ data \<Rightarrow> (let (marker, b) = sb_append_aligned_at (replicate 4 0) ?b;
           msgsz = s_size b;
           b = sb_append data b
         in sb_patch marker (u32_bytes (s_host b) (s_size b - msgsz)) b))
     = sb_append (enc_profile_data key (s_host b) pr (spos ?b)) ?b"
  proof (cases pr)
    case (INTERNET_IOP i)
    then show ?thesis using b ok
      by (simp add: sb_encaps_enc[where x = "enc_iiop key (s_host b) i"] put_iiop)
  next
    case (GENERIC_IOP g)
    then show ?thesis using b ok
      by (simp add: sb_encaps_enc[where x = "enc_generic key (s_host b) g"] put_generic)
  next
    case (MATECORBA_SPECIFIC s)
    then show ?thesis using b ok
      by (simp add: sb_encaps_enc[where x = "enc_specific key (s_host b) s"] put_specific)
  next
    case (MULTIPLE_COMPONENTS cs)
    then show ?thesis using b ok
      by (simp add: sb_encaps_enc[where x = "enc_components key (s_host b) cs"] put_components)
  next
    case (UnknownProfile t d)
    have "sb_patch (length (s_out ?b)) (u32_bytes (s_host b) (of_nat (length d)))
        (sb_append (replicate 4 0 @ d) ?b)
        = sb_append (u32_bytes (s_host b) (of_nat (length d)) @ d) ?b"
      by (rule sb_patch_append) simp
    then show ?thesis using b UnknownProfile
      by (simp add: sb_append_aligned_at_def Let_def s_size_append enc_octets_def
          enc_ulong_def[of _ "of_nat _"])
  qed
  show ?thesis
    unfolding IOP_profile_marshal_def Let_def head body[unfolded Let_def]
    by (simp add: enc_profile_def)
qed

interpretation profile: cdr_codec "IOP_profile_marshal key"
  "IOP_profile_demarshal CodeSetComponent_demarshal" "enc_profile key" "profile_ok key"
  "profile_view key" for key
  by unfold_locales (simp_all add: put_profile parses_profile)

end
