(* ===== verification/Ior.thy ===== *)
theory Ior imports Iop_Codec begin

text \<open>
  Object references on the wire and as strings: \<^verbatim>\<open>MateCORBA_marshal_object\<close> of
  \<^verbatim>\<open>corba-object.c\<close>, the reader \<^verbatim>\<open>MateCORBA_demarshal_IOR\<close> as its inverse, and the
  hexadecimal form of \<^verbatim>\<open>CORBA_ORB_object_to_string\<close> and
  \<^verbatim>\<open>CORBA_ORB_string_to_object\<close> (\<^verbatim>\<open>corba-orb.c\<close>).
\<close>

section \<open>Marshalling an object reference\<close>

text \<open>
  The part of \<^verbatim>\<open>struct CORBA_Object_type\<close> that travels: the interned type id (\<open>[]\<close> when the quark has
  no string), the profiles and the key. \<open>o_adaptor_key\<close> is the key the object adaptor would make
  (\<^verbatim>\<open>MateCORBA_OAObject_object_to_objkey\<close>), \<open>None\<close> for an object without adaptor.
\<close>

record objref =
  o_type :: cblock
  o_profiles :: "profile list"
  o_key :: "objkey option"
  o_adaptor_key :: "objkey option"

text \<open>\<^verbatim>\<open>IOP_generate_profiles\<close>, given the profiles of the ORB's servers.\<close>

definition IOP_generate_profiles :: "profile list \<Rightarrow> objref \<Rightarrow> objref" where
  "IOP_generate_profiles orb_profiles obj = obj\<lparr>
     o_key := (if o_key obj = None then o_adaptor_key obj else o_key obj),
     o_profiles := orb_profiles \<rparr>"

text \<open>
  Marshalling; a local object gets its profiles first, and registering it asserts that it has a key.
  \<^verbatim>\<open>None\<close> is the nil reference.
\<close>

definition MateCORBA_marshal_object :: "profile list \<Rightarrow> objref option \<Rightarrow> sbuf \<Rightarrow> sbuf res" where
  "MateCORBA_marshal_object orb_profiles obj b = (case obj of
     None \<Rightarrow> (let b = sb_append_string [0] b in Inr (sb_append_aligned (u32_bytes (s_host b) 0) b))
   | Some obj \<Rightarrow>
       if o_type obj = [] then Inl Abort
       else (let b = sb_append_string (o_type obj) b;
               obj = (if o_profiles obj = [] then IOP_generate_profiles orb_profiles obj else obj)
             in case o_key obj of None \<Rightarrow> Inl Abort
              | Some key \<Rightarrow>
                  if o_profiles obj = [] then Inl Abort
                  else Inr (fold (IOP_profile_marshal key) (o_profiles obj)
                    (sb_append_aligned (u32_bytes (s_host b) (of_nat (length (o_profiles obj)))) b))))"

section \<open>The format and its reader\<close>

definition enc_ior :: "objkey \<Rightarrow> endian \<Rightarrow> cblock \<Rightarrow> profile list \<Rightarrow> nat \<Rightarrow> byte list" where
  "enc_ior key e tid ps = enc_seq [enc_string e tid, enc_ulong e (of_nat (length ps)),
     enc_list (enc_profile key e) ps]"

definition ior_ok :: "objkey \<Rightarrow> cblock \<Rightarrow> profile list \<Rightarrow> bool" where
  "ior_ok key tid ps \<longleftrightarrow> string_ok tid \<and> list_all (profile_ok key) ps \<and> length ps < 2 ^ 32
     \<and> ps \<noteq> []"

definition type_id_pos :: "nat \<Rightarrow> nat" where
  "type_id_pos p = ALIGN_VALUE p 4 + 4"

lemma marshal_object_enc:
  assumes "sb_ok b" "ior_ok key (o_type obj) (o_profiles obj)" "o_key obj = Some key"
  shows "MateCORBA_marshal_object orb_profiles (Some obj) b
    = Inr (sb_append (enc_ior key (s_host b) (o_type obj) (o_profiles obj) (spos b)) b)"
proof -
  have "o_type obj \<noteq> []" using assms by (auto simp: ior_ok_def string_ok_def)
  then show ?thesis
    using assms by (simp add: MateCORBA_marshal_object_def ior_ok_def sb_append_string_enc Let_def
        enc_ior_def profile.put_list enc_ulong_def add.assoc)
qed

lemma at_bytes_nth:
  assumes "at_bytes p bs b" "i < length bs"
  shows "p + i < length (r_mem b) \<and> r_mem b ! (p + i) = bs ! i"
proof -
  have "bs ! i = slice p (length bs) (r_mem b) ! i" using assms by (simp add: at_bytes_def)
  also have "\<dots> = r_mem b ! (p + i)"
    using assms(2) by (simp add: slice_def) (use assms(1) in \<open>simp add: at_bytes_def\<close>)
  finally show ?thesis using assms by (simp add: at_bytes_def)
qed

lemma parses_IOR:
  assumes ok: "ior_ok key tid ps"
  shows "parses (MateCORBA_demarshal_IOR CodeSetComponent_demarshal) e p (enc_ior key e tid ps p)
    (Some (type_id_pos p, map (profile_view key) ps))"
proof -
  let ?n = "of_nat (length tid) :: u32" and ?k = "of_nat (length ps) :: u32"
  let ?cs = CodeSetComponent_demarshal
  have n: "unat ?n = length tid" and k: "unat ?k = length ps"
    using ok by (auto simp: ior_ok_def string_ok_def intro!: unat_of_nat_u32)
  have k0: "?k \<noteq> 0" using k ok by (auto simp: ior_ok_def)
  let ?rest = "\<lambda>t num buf. if t \<ge> length (r_mem buf) then rd_fail Overrun
     else if r_mem buf ! t = 0 \<and> num = (0 :: u32) then rd_ret None
     else rd_bind (rd_loop (IOP_profile_demarshal ?cs) (unat num)) (\<lambda>profiles.
       rd_ret (Some (t, profiles)))"
  define q where "q = type_id_pos p"
  define bs where "bs = enc_ulong e ?k (q + length tid)
    @ enc_list (enc_profile key e) ps (q + length tid + length (enc_ulong e ?k (q + length tid)))"
  have q: "p + length (enc_ulong e ?n p) = q"
    using pad_pos[of 4 p] by (simp add: q_def type_id_pos_def enc_ulong_def)
  have enc: "enc_ior key e tid ps p = enc_ulong e ?n p @ tid @ bs"
    using q by (simp add: enc_ior_def enc_string_def enc_octets_def bs_def add.assoc[symmetric])
  have profiles: "parses (rd_bind (rd_loop (IOP_profile_demarshal ?cs) (unat ?k)) (\<lambda>profiles.
       rd_ret (Some (q, profiles)))) e r (enc_list (enc_profile key e) ps r)
       (Some (q, map (profile_view key) ps))" for r
    using ok unfolding k by (auto simp: ior_ok_def intro!: parses_bind_ret[OF profile.get_list])
  let ?tail = "\<lambda>buf. rd_bind (rd_align 4) (\<lambda>_. rd_bind (rd_need 4) (\<lambda>_. rd_bind rd_u32
      (\<lambda>num. ?rest q num buf)))"
  have tail: "parses (?tail buf) e (q + length tid) bs (Some (q, map (profile_view key) ps))"
    if "q < length (r_mem buf)" for buf :: rbuf
    unfolding bs_def enc_ulong_def append_assoc
    by (intro parses_bind[OF parses_align] parses_need parses_bind[OF parses_u32])
      (use that k0 profiles in \<open>simp_all add: add.assoc\<close>)
  have mid: "parses (\<lambda>buf. let t = r_cur buf in
     rd_bind (rd_align 4) (\<lambda>_. rd_bind (rd_need 4) (\<lambda>_. rd_bind rd_u32 (\<lambda>num. ?rest t num buf)))
       (buf\<lparr> r_cur := r_cur buf + length tid \<rparr>)) e q (tid @ bs)
     (Some (q, map (profile_view key) ps))"
  proof (rule parsesI)
    fix b assume e: "flag_endian (r_flags b) = e" and a: "at_bytes q (tid @ bs) b"
    have "q < length (r_mem b)" "r_cur b = q"
      using a ok at_bytes_nth[OF a, of 0] by (auto simp: ior_ok_def string_ok_def at_bytes_def)
    then show "(let t = r_cur b in
      rd_bind (rd_align 4) (\<lambda>_. rd_bind (rd_need 4) (\<lambda>_. rd_bind rd_u32 (\<lambda>num. ?rest t num b)))
       (b\<lparr> r_cur := r_cur b + length tid \<rparr>))
       = Inr (Some (q, map (profile_view key) ps), b\<lparr> r_cur := q + length (tid @ bs) \<rparr>)"
      using parsesD[OF tail[of b], of "b\<lparr> r_cur := q + length tid \<rparr>"] e at_bytes_append(2)[OF a]
      by (simp add: add.assoc)
  qed
  show ?thesis
    unfolding MateCORBA_demarshal_IOR_def enc enc_ulong_def append_assoc q_def[symmetric]
    by (intro parses_bind[OF parses_align] parses_need parses_bind[OF parses_u32])
      (use mid q n in \<open>simp_all add: add.assoc enc_ulong_def\<close>)
qed

section \<open>References as strings\<close>

definition num2hexdigit :: "nat \<Rightarrow> char" where
  "num2hexdigit n = (if n > 9 then char_of (n + 97 - 10) else char_of (n + 48))"

definition hex_byte :: "byte \<Rightarrow> string" where
  "hex_byte b = [num2hexdigit (unat (drop_bit 4 (b AND 0xF0))), num2hexdigit (unat (b AND 0xF))]"

text \<open>\<^verbatim>\<open>g_ascii_xdigit_value\<close>: -1 for a character that is not a hexadecimal digit.\<close>

definition g_ascii_isxdigit :: "char \<Rightarrow> bool" where
  "g_ascii_isxdigit c \<longleftrightarrow> (let n = of_char c :: nat in
     48 \<le> n \<and> n \<le> 57 \<or> 65 \<le> n \<and> n \<le> 70 \<or> 97 \<le> n \<and> n \<le> 102)"

definition g_ascii_xdigit_value :: "char \<Rightarrow> u32" where
  "g_ascii_xdigit_value c = (let n = of_char c :: nat in
     if 48 \<le> n \<and> n \<le> 57 then of_nat (n - 48)
     else if 65 \<le> n \<and> n \<le> 70 then of_nat (n - 65 + 10)
     else if 97 \<le> n \<and> n \<le> 102 then of_nat (n - 97 + 10) else - 1)"

fun hex_decode :: "string \<Rightarrow> byte list" where
  "hex_decode (a # b # s) =
     ucast (push_bit 4 (g_ascii_xdigit_value a) OR g_ascii_xdigit_value b) # hex_decode s"
| "hex_decode _ = []"

definition rstrip_nonhex :: "string \<Rightarrow> string" where
  "rstrip_nonhex s = rev (dropWhile (\<lambda>c. \<not> g_ascii_isxdigit c) (rev s))"

lemma hexdigit_cases:
  assumes "n < 16"
  shows "g_ascii_isxdigit (num2hexdigit n)" "g_ascii_xdigit_value (num2hexdigit n) = of_nat n"
proof -
  show "g_ascii_isxdigit (num2hexdigit n)"
    using assms by (cases "n > 9") (simp_all add: g_ascii_isxdigit_def num2hexdigit_def Let_def)
  show "g_ascii_xdigit_value (num2hexdigit n) = of_nat n"
    using assms by (cases "n > 9") (simp_all add: g_ascii_xdigit_value_def num2hexdigit_def Let_def)
qed

lemma nibble_less: "unat (b AND 0xF :: byte) < 16"
proof -
  have "b AND 0xF = take_bit 4 b" by (simp add: take_bit_eq_mask mask_eq_decr_exp)
  then show ?thesis by (simp add: unsigned_take_bit_eq take_bit_nat_def)
qed

lemma nibbles:
  "ucast (push_bit 4 (ucast (drop_bit 4 b AND 0xF)) OR ucast (b AND 0xF) :: u32) = (b :: byte)"
proof -
  have m: "(0xF :: byte) = mask 4" by (simp add: mask_eq_decr_exp)
  show ?thesis
    unfolding m by (rule bit_word_eqI) (auto simp: bit_simps dest: bit_imp_le_length)
qed

lemma hex_decode_hex: "hex_decode (concat (map hex_byte bs)) = bs"
  by (induction bs) (simp_all add: hex_byte_def hexdigit_cases nibble_less nibbles)

lemma rstrip_hex: "\<forall>c \<in> set s. g_ascii_isxdigit c \<Longrightarrow> rstrip_nonhex s = s"
  by (cases s rule: rev_cases) (simp_all add: rstrip_nonhex_def)

lemma hex_isxdigit: "c \<in> set (concat (map hex_byte bs)) \<Longrightarrow> g_ascii_isxdigit c"
  by (auto simp: hex_byte_def hexdigit_cases nibble_less nibbles)

lemma hex_length: "length (concat (map hex_byte bs)) = 2 * length bs"
  by (induction bs) (auto simp: hex_byte_def)
text \<open>
  \<^verbatim>\<open>CORBA_ORB_object_to_string\<close> (with \<^verbatim>\<open>matecorba_use_corbaloc\<close> off): the buffer starts
  without a header, so positions count from the octet of byte order. A nil reference is refused.
\<close>

definition ior_buffer :: "endian \<Rightarrow> GIOPVersion \<Rightarrow> sbuf" where
  "ior_buffer host v = (giop_send_buffer_use host v)\<lparr> s_header_size := 0, s_size := 0 \<rparr>"

definition CORBA_ORB_object_to_string ::
  "endian \<Rightarrow> GIOPVersion \<Rightarrow> profile list \<Rightarrow> objref option \<Rightarrow> string res" where
  "CORBA_ORB_object_to_string host v orb_profiles obj = (case obj of
     None \<Rightarrow> Inl Broken
   | Some _ \<Rightarrow> rbind (MateCORBA_marshal_object orb_profiles obj
        (sb_append [GIOP_FLAG_ENDIANNESS host] (ior_buffer host v)))
       (\<lambda>b. Inr (''IOR:'' @ concat (map hex_byte (s_out b)))))"

text \<open>
  The branch of \<^verbatim>\<open>CORBA_ORB_string_to_object\<close> for \<^verbatim>\<open>IOR:\<close>, up to the type id and profiles it
  hands to \<^verbatim>\<open>MateCORBA_objref_find\<close>: an odd number of digits gives the nil reference, a broken
  reference an exception. The decoded block starts on a boundary of its own.
\<close>

definition c_string_at :: "byte list \<Rightarrow> nat \<Rightarrow> cblock res" where
  "c_string_at mem off = (if c_terminated (drop off mem)
     then Inr (c_text (drop off mem) @ [0]) else Inl Overrun)"

definition ior_block :: "endian \<Rightarrow> byte list \<Rightarrow> rbuf" where
  "ior_block host mem = \<lparr> r_host = host, r_mem = mem, r_flags = 0, r_version = GIOP_LATEST,
     r_type = 0, r_size = 0, r_body = 0, r_cur = 0, r_end = length mem \<rparr>"

definition string_to_IOR :: "endian \<Rightarrow> string \<Rightarrow> (cblock \<times> profile list) option res" where
  "string_to_IOR host str = (let hex = rstrip_nonhex (drop 4 str) in
     if take 4 str \<noteq> ''IOR:'' then Inl Broken
     else if odd (length hex) then Inr None
     else (let mem = hex_decode hex in
       rbind (giop_recv_buffer_use_encaps (ior_block host mem) 0 (length mem)) (\<lambda>buf.
       rbind (MateCORBA_demarshal_IOR CodeSetComponent_demarshal buf) (\<lambda>(ior, _).
       case ior of None \<Rightarrow> Inr None
       | Some (tid, profiles) \<Rightarrow> rbind (c_string_at mem tid) (\<lambda>t. Inr (Some (t, profiles)))))))"

lemma ior_buffer_sel [simp]:
  "sb_ok (ior_buffer host v)" "s_host (ior_buffer host v) = host" "spos (ior_buffer host v) = 0"
  "s_out (ior_buffer host v) = []"
  by (simp_all add: ior_buffer_def sb_ok_def spos_def giop_send_buffer_use_def)

lemma type_id_text:
  assumes "string_ok tid"
  shows "c_string_at (f # enc_ior key e tid ps 1) (type_id_pos 1) = Inr tid"
proof -
  obtain t where t: "tid = t @ [0]" "0 \<notin> set t"
    using assms by (auto simp: string_ok_def elim: c_stringE)
  have "drop (type_id_pos 1) (f # enc_ior key e tid ps 1)
      = t @ 0 # enc_seq [enc_ulong e (of_nat (length ps)), enc_list (enc_profile key e) ps]
          (1 + length (enc_string e tid 1))"
    using t by (simp add: type_id_pos_def enc_ior_def enc_string_def enc_octets_def enc_ulong_def
        pad_def ALIGN_VALUE_def)
  then show ?thesis using t by (simp add: c_string_at_def c_terminated_def c_text_append)
qed

lemma string_to_IOR_hex:
  assumes ok: "ior_ok key tid ps"
  shows "string_to_IOR host (''IOR:'' @ concat (map hex_byte
      (GIOP_FLAG_ENDIANNESS e # enc_ior key e tid ps 1)))
    = Inr (Some (tid, map (profile_view key) ps))"
proof -
  let ?enc = "enc_ior key e tid ps 1"
  let ?mem = "GIOP_FLAG_ENDIANNESS e # ?enc"
  obtain sub where sub: "giop_recv_buffer_use_encaps (ior_block host ?mem) 0 (length ?mem) = Inr sub"
    "r_mem sub = ?mem" "r_flags sub = GIOP_FLAG_ENDIANNESS e" "r_cur sub = 1" "r_end sub = length ?mem"
    by (simp add: giop_recv_buffer_use_encaps_def ior_block_def)
  have "at_bytes 1 ?enc sub"
    using sub by (simp add: at_bytes_def slice_def)
  then have d: "MateCORBA_demarshal_IOR CodeSetComponent_demarshal sub
      = Inr (Some (type_id_pos 1, map (profile_view key) ps), sub\<lparr> r_cur := 1 + length ?enc \<rparr>)"
    by (intro parsesD[OF parses_IOR[OF ok]]) (simp_all add: sub)
  have "string_ok tid" using ok by (simp add: ior_ok_def)
  moreover have "rstrip_nonhex (concat (map hex_byte ?mem)) = concat (map hex_byte ?mem)"
    by (rule rstrip_hex) (use hex_isxdigit in blast)
  moreover have "hex_decode (concat (map hex_byte ?mem)) = ?mem" by (rule hex_decode_hex)
  moreover have "even (length (concat (map hex_byte ?mem)))" by (simp only: hex_length) simp
  ultimately show ?thesis
    using sub(1) d type_id_text[of tid "GIOP_FLAG_ENDIANNESS e" key e ps]
    by (simp add: string_to_IOR_def Let_def del: list.map(2) concat.simps(2))
qed

lemma object_to_string_enc:
  assumes ok: "ior_ok key (o_type obj) (o_profiles obj)" and k: "o_key obj = Some key"
  shows "CORBA_ORB_object_to_string host v orb_profiles (Some obj)
    = Inr (''IOR:'' @ concat (map hex_byte
        (GIOP_FLAG_ENDIANNESS host # enc_ior key host (o_type obj) (o_profiles obj) 1)))"
  using marshal_object_enc[of "sb_append [GIOP_FLAG_ENDIANNESS host] (ior_buffer host v)", OF _ ok k]
  by (simp add: CORBA_ORB_object_to_string_def)

end
