(* ===== verification/Iop_Objects.thy ===== *)
theory Iop_Objects imports Ior begin

text \<open>
  What \<^verbatim>\<open>iop-profiles.c\<close> and \<^verbatim>\<open>corba-object.c\<close> do with profiles once they are in memory:
  comparing and hashing keys and profiles, taking the one object key out of a profile list, copying
  profile lists, making the ORB's own profiles from its servers, and the table of object references
  that keeps one object for all references that denote it.
\<close>

section \<open>Keys and profiles compared\<close>

definition IOP_ObjectKey_equal :: "objkey \<Rightarrow> objkey \<Rightarrow> bool" where
  "IOP_ObjectKey_equal a b = (if length a \<noteq> length b then False else take (length a) b = a)"

text \<open>\<^verbatim>\<open>IOP_mem_hash\<close>: the bytes are signed characters.\<close>

definition IOP_mem_hash :: "byte list \<Rightarrow> u32" where
  "IOP_mem_hash key = fold (\<lambda>p h. push_bit 5 h - h + signed p) key 0"

definition IOP_ObjectKey_hash :: "objkey \<Rightarrow> u32" where
  "IOP_ObjectKey_hash k = IOP_mem_hash k"

fun IOP_get_mci :: "profile list \<Rightarrow> component list option" where
  "IOP_get_mci [] = None"
| "IOP_get_mci (MULTIPLE_COMPONENTS cs # ps) = Some cs"
| "IOP_get_mci (_ # ps) = IOP_get_mci ps"

text \<open>
  \<^verbatim>\<open>IOP_profile_equal\<close>; the profile lists of the two objects are consulted for the multiple
  components that generic profiles need.
\<close>

definition IOP_profile_equal :: "profile list \<Rightarrow> profile list \<Rightarrow> profile \<Rightarrow> profile \<Rightarrow> bool res" where
  "IOP_profile_equal l1 l2 d1 d2 =
    (let mci1 = IOP_get_mci l1; mci2 = IOP_get_mci l2 in
     if profile_type d1 \<noteq> profile_type d2 then Inr False
     else case (d1, d2) of
       (INTERNET_IOP i1, INTERNET_IOP i2) \<Rightarrow>
         if iiop_key i1 \<noteq> None \<or> iiop_key i2 \<noteq> None then Inl Abort
         else if iiop_port i1 \<noteq> iiop_port i2 then Inr False
         else c_streq (iiop_host i1) (iiop_host i2)
     | (GENERIC_IOP g1, GENERIC_IOP g2) \<Rightarrow>
         if mci1 = None \<and> mci2 = None then Inr False
         else rbind (c_streq (gen_service g1) (gen_service g2)) (\<lambda>s. if \<not> s then Inr False
           else rbind (c_streq (gen_host g1) (gen_host g2)) (\<lambda>h. if \<not> h then Inr False
           else c_streq (gen_proto g1) (gen_proto g2)))
     | (MATECORBA_SPECIFIC s1, MATECORBA_SPECIFIC s2) \<Rightarrow>
         if os_key s1 \<noteq> None \<or> os_key s2 \<noteq> None then Inl Abort
         else if ipv6_port s1 \<noteq> ipv6_port s2 then Inr False
         else c_streq (unix_sock_path s1) (unix_sock_path s2)
     | _ \<Rightarrow> Inr False)"

section \<open>The object key of a list of profiles\<close>

text \<open>
  \<^verbatim>\<open>IOP_profiles_sync_objkey\<close>: the first key found is returned, every key is taken out; a key
  that differs from the first is only warned about (\<open>match\<close>). Comparing with a missing key follows
  a NULL pointer.
\<close>

definition sync_one :: "objkey option \<Rightarrow> objkey option \<Rightarrow> (objkey option) res" where
  "sync_one objkey k = (case objkey of
     None \<Rightarrow> Inr k
   | Some _ \<Rightarrow> (case k of None \<Rightarrow> Inl Abort | Some _ \<Rightarrow> Inr objkey))"

fun sync_components :: "objkey option \<Rightarrow> component list \<Rightarrow> (objkey option \<times> component list) res" where
  "sync_components objkey [] = Inr (objkey, [])"
| "sync_components objkey (COMPLETE_OBJECT_KEY k # cs) = rbind (sync_one objkey k) (\<lambda>objkey.
     rbind (sync_components objkey cs) (\<lambda>(objkey, cs). Inr (objkey, COMPLETE_OBJECT_KEY None # cs)))"
| "sync_components objkey (c # cs) =
     rbind (sync_components objkey cs) (\<lambda>(objkey, cs). Inr (objkey, c # cs))"

definition sync_profile :: "objkey option \<Rightarrow> profile \<Rightarrow> (objkey option \<times> profile) res" where
  "sync_profile objkey p = (case p of
     INTERNET_IOP i \<Rightarrow> rbind (sync_one objkey (iiop_key i)) (\<lambda>k.
       Inr (k, INTERNET_IOP (i\<lparr> iiop_key := None \<rparr>)))
   | MATECORBA_SPECIFIC s \<Rightarrow> rbind (sync_one objkey (os_key s)) (\<lambda>k.
       Inr (k, MATECORBA_SPECIFIC (s\<lparr> os_key := None \<rparr>)))
   | MULTIPLE_COMPONENTS cs \<Rightarrow> rbind (sync_components objkey cs) (\<lambda>(k, cs).
       Inr (k, MULTIPLE_COMPONENTS cs))
   | _ \<Rightarrow> Inr (objkey, p))"

fun sync_profiles :: "objkey option \<Rightarrow> profile list \<Rightarrow> (objkey option \<times> profile list) res" where
  "sync_profiles objkey [] = Inr (objkey, [])"
| "sync_profiles objkey (p # ps) = rbind (sync_profile objkey p) (\<lambda>(objkey, p).
     rbind (sync_profiles objkey ps) (\<lambda>(objkey, ps). Inr (objkey, p # ps)))"

definition IOP_profiles_sync_objkey :: "profile list \<Rightarrow> (objkey option \<times> profile list) res" where
  "IOP_profiles_sync_objkey ps = sync_profiles None ps"

section \<open>Copies\<close>

text \<open>
  The copies: \<^verbatim>\<open>g_strdup\<close> of every string, and each list built by prepending, which reverses it.
  \<^verbatim>\<open>IOP_TAG_CODE_SETS_copy\<close> does nothing, so the copy of a code-set component is all zeros.
\<close>

definition IOP_component_copy :: "component \<Rightarrow> component res" where
  "IOP_component_copy c = (case c of
     COMPLETE_OBJECT_KEY k \<Rightarrow> Inr (COMPLETE_OBJECT_KEY k)
   | GENERIC_SSL_SEC_TRANS s \<Rightarrow> rbind (g_strdup s) (\<lambda>s. Inr (GENERIC_SSL_SEC_TRANS s))
   | SSL_SEC_TRANS su re po \<Rightarrow> Inr (SSL_SEC_TRANS su re po)
   | CODE_SETS _ _ \<Rightarrow> Inr (CODE_SETS \<lparr> native_code_set = 0, conversion_code_sets = [] \<rparr>
       \<lparr> native_code_set = 0, conversion_code_sets = [] \<rparr>)
   | UnknownComponent t d \<Rightarrow> Inr (UnknownComponent t d))"

fun copy_prepend :: "('a \<Rightarrow> 'a res) \<Rightarrow> 'a list \<Rightarrow> 'a list \<Rightarrow> 'a list res" where
  "copy_prepend f ret [] = Inr ret"
| "copy_prepend f ret (x # xs) = rbind (f x) (\<lambda>y. copy_prepend f (y # ret) xs)"

definition IOP_components_copy :: "component list \<Rightarrow> component list res" where
  "IOP_components_copy = copy_prepend IOP_component_copy []"

definition IOP_profile_copy :: "profile \<Rightarrow> profile res" where
  "IOP_profile_copy p = (case p of
     INTERNET_IOP i \<Rightarrow> rbind (g_strdup (iiop_host i)) (\<lambda>host.
       rbind (IOP_components_copy (iiop_components i)) (\<lambda>cs.
       Inr (INTERNET_IOP (i\<lparr> iiop_host := host, iiop_components := cs \<rparr>))))
   | GENERIC_IOP g \<Rightarrow> rbind (g_strdup (gen_proto g)) (\<lambda>proto. rbind (g_strdup (gen_host g)) (\<lambda>host.
       rbind (g_strdup (gen_service g)) (\<lambda>service.
       rbind (IOP_components_copy (gen_components g)) (\<lambda>cs.
       Inr (GENERIC_IOP (g\<lparr> gen_proto := proto, gen_host := host, gen_service := service,
         gen_components := cs \<rparr>))))))
   | MATECORBA_SPECIFIC s \<Rightarrow> rbind (g_strdup (unix_sock_path s)) (\<lambda>path.
       Inr (MATECORBA_SPECIFIC (s\<lparr> unix_sock_path := path \<rparr>)))
   | MULTIPLE_COMPONENTS cs \<Rightarrow> rbind (IOP_components_copy cs) (\<lambda>cs. Inr (MULTIPLE_COMPONENTS cs))
   | UnknownProfile t d \<Rightarrow> Inr (UnknownProfile t d))"

definition IOP_profiles_copy :: "profile list \<Rightarrow> profile list res" where
  "IOP_profiles_copy = copy_prepend IOP_profile_copy []"

section \<open>The table of object references\<close>

text \<open>
  \<^verbatim>\<open>g_CORBA_Object_equal\<close>: same key, and some profile of the one equal to some profile of
  the other.
\<close>

fun any_equal :: "('a \<Rightarrow> bool res) \<Rightarrow> 'a list \<Rightarrow> bool res" where
  "any_equal f [] = Inr False"
| "any_equal f (x # xs) = rbind (f x) (\<lambda>t. if t then Inr True else any_equal f xs)"

definition g_CORBA_Object_equal :: "objref \<Rightarrow> objref \<Rightarrow> bool res" where
  "g_CORBA_Object_equal a b = (case (o_key a, o_key b) of
     (Some k1, Some k2) \<Rightarrow>
       if \<not> IOP_ObjectKey_equal k1 k2 then Inr False
       else any_equal (\<lambda>p1. any_equal (\<lambda>p2. IOP_profile_equal (o_profiles a) (o_profiles b) p1 p2)
         (o_profiles b)) (o_profiles a)
   | _ \<Rightarrow> Inl Abort)"

text \<open>
  \<^verbatim>\<open>orb->objrefs\<close> is a hash table of objects, keyed by themselves. An entry is the address of the
  object it is for with the object, and the address it leads to. Equal objects have equal keys and so
  equal hashes; where several entries are equal to an object (the comparison is not transitive) the
  model takes the oldest. \<open>None\<close> is the table before its first use.
\<close>

type_synonym objrefs = "((nat \<times> objref) \<times> nat) list option"

fun find_entry :: "objref \<Rightarrow> ((nat \<times> objref) \<times> nat) list \<Rightarrow> nat option res" where
  "find_entry obj [] = Inr None"
| "find_entry obj (((k, kobj), v) # t) = rbind (g_CORBA_Object_equal kobj obj) (\<lambda>eq.
     if eq then Inr (Some v) else find_entry obj t)"

fun insert_entry :: "nat \<Rightarrow> objref \<Rightarrow> ((nat \<times> objref) \<times> nat) list
    \<Rightarrow> ((nat \<times> objref) \<times> nat) list res" where
  "insert_entry a obj [] = Inr [((a, obj), a)]"
| "insert_entry a obj (((k, kobj), v) # t) = rbind (g_CORBA_Object_equal kobj obj) (\<lambda>eq.
     if eq then Inr (((k, kobj), a) # t)
     else rbind (insert_entry a obj t) (\<lambda>t. Inr (((k, kobj), v) # t)))"

fun remove_entry :: "objref \<Rightarrow> ((nat \<times> objref) \<times> nat) list \<Rightarrow> ((nat \<times> objref) \<times> nat) list res" where
  "remove_entry obj [] = Inr []"
| "remove_entry obj (((k, kobj), v) # t) = rbind (g_CORBA_Object_equal kobj obj) (\<lambda>eq.
     if eq then Inr t else rbind (remove_entry obj t) (\<lambda>t. Inr (((k, kobj), v) # t)))"

definition MateCORBA_register_objref :: "nat \<Rightarrow> objref \<Rightarrow> objrefs \<Rightarrow> objrefs res" where
  "MateCORBA_register_objref a obj table =
    (if o_key obj = None \<or> o_profiles obj = [] then Inl Abort
     else rbind (insert_entry a obj (case table of None \<Rightarrow> [] | Some t \<Rightarrow> t)) (\<lambda>t. Inr (Some t)))"

definition MateCORBA_lookup_objref :: "objref \<Rightarrow> objrefs \<Rightarrow> nat option res" where
  "MateCORBA_lookup_objref obj table = (case table of
     None \<Rightarrow> Inr None
   | Some t \<Rightarrow> if o_profiles obj = [] then Inr None
       else if o_key obj = None then Inl Abort
       else find_entry obj t)"

text \<open>
  \<^verbatim>\<open>MateCORBA_objref_find\<close>: \<open>fresh\<close> is the address \<^verbatim>\<open>MateCORBA_objref_new\<close> would return. The result is
  the address of the object for the reference, and the table.
\<close>

definition MateCORBA_objref_find :: "nat \<Rightarrow> cblock \<Rightarrow> profile list \<Rightarrow> objrefs \<Rightarrow> (nat \<times> objrefs) res" where
  "MateCORBA_objref_find fresh type_id profiles table =
     rbind (IOP_profiles_sync_objkey profiles) (\<lambda>(key, ps).
     let obj = \<lparr> o_type = type_id, o_profiles = ps, o_key = key, o_adaptor_key = None \<rparr> in
     rbind (MateCORBA_lookup_objref obj table) (\<lambda>found. case found of
       Some a \<Rightarrow> Inr (a, table)
     | None \<Rightarrow> rbind (MateCORBA_register_objref fresh obj table) (\<lambda>table. Inr (fresh, table))))"

text \<open>The part of \<^verbatim>\<open>CORBA_Object_release_cb\<close> that takes an object out of the table.\<close>

definition release_objref :: "objref \<Rightarrow> objrefs \<Rightarrow> objrefs res" where
  "release_objref obj table = (if o_profiles obj = [] then Inr table
     else case table of None \<Rightarrow> Inr None
     | Some t \<Rightarrow> if o_key obj = None then Inl Abort
         else rbind (remove_entry obj t) (\<lambda>t. Inr (Some t)))"

section \<open>Keys and synchronisation\<close>

lemma ObjectKey_equal_iff [simp]: "IOP_ObjectKey_equal a b \<longleftrightarrow> a = b"
  by (auto simp: IOP_ObjectKey_equal_def)

text \<open>
  What \<^verbatim>\<open>IOP_profiles_sync_objkey\<close> leaves of a profile, and whether it looks for a key there: in the profile's
  own key and among the components of a profile of multiple components. A complete object key among the components of an IIOP
  or generic profile is neither looked at nor freed.
\<close>

fun strip_component :: "component \<Rightarrow> component" where
  "strip_component (COMPLETE_OBJECT_KEY _) = COMPLETE_OBJECT_KEY None"
| "strip_component c = c"

fun key_taken :: "profile \<Rightarrow> profile" where
  "key_taken (INTERNET_IOP i) = INTERNET_IOP (i\<lparr> iiop_key := None \<rparr>)"
| "key_taken (MATECORBA_SPECIFIC s) = MATECORBA_SPECIFIC (s\<lparr> os_key := None \<rparr>)"
| "key_taken (MULTIPLE_COMPONENTS cs) = MULTIPLE_COMPONENTS (map strip_component cs)"
| "key_taken p = p"

fun yields_key :: "profile \<Rightarrow> bool" where
  "yields_key (INTERNET_IOP _) = True"
| "yields_key (MATECORBA_SPECIFIC _) = True"
| "yields_key (MULTIPLE_COMPONENTS cs) \<longleftrightarrow> (\<exists>c \<in> set cs. component_type c = IOP_TAG_COMPLETE_OBJECT_KEY)"
| "yields_key _ = False"

lemma sync_components_view:
  assumes "k = None \<or> k = Some key" "list_all (component_ok key) cs"
  shows "sync_components k (map (component_view key) cs)
    = Inr (if \<exists>c \<in> set cs. component_type c = IOP_TAG_COMPLETE_OBJECT_KEY then Some key else k,
        map strip_component cs)"
  using assms
proof (induction cs arbitrary: k)
  case (Cons c cs)
  show ?case
  proof (cases "\<exists>k. c = COMPLETE_OBJECT_KEY k")
    case True
    have "sync_one k (Some key) = Inr (Some key)"
      using Cons.prems(1) by (auto simp: sync_one_def)
    then show ?thesis using True Cons.IH[of "Some key"] Cons.prems by auto
  next
    case False
    then have "component_type c \<noteq> IOP_TAG_COMPLETE_OBJECT_KEY"
      "component_view key c = c" "strip_component c = c"
      using Cons.prems(2) by (cases c; auto simp: iop_component_tags)+
    moreover have "sync_components k (c # map (component_view key) cs)
        = rbind (sync_components k (map (component_view key) cs)) (\<lambda>(k, cs). Inr (k, c # cs))"
      using False by (cases c) auto
    ultimately show ?thesis using Cons by simp
  qed
qed simp

lemma sync_profile_view:
  assumes "k = None \<or> k = Some key" "profile_ok key p"
  shows "sync_profile k (profile_view key p)
    = Inr (if yields_key p then Some key else k, key_taken (profile_view key p))"
proof -
  have one: "sync_one k (Some key) = Inr (Some key)" using assms(1) by (auto simp: sync_one_def)
  have strip: "map strip_component (map (component_view key) cs) = map strip_component cs" for cs
  proof -
    have "strip_component (component_view key c) = strip_component c" for c by (cases c) auto
    then show ?thesis by simp
  qed
  show ?thesis
  proof (cases p)
    case (MULTIPLE_COMPONENTS cs)
    then show ?thesis using assms strip[of cs]
      by (auto simp: sync_profile_def sync_components_view components_ok_def)
  qed (simp_all add: sync_profile_def one)
qed

lemma sync_profiles_view:
  "k = None \<or> k = Some key \<Longrightarrow> list_all (profile_ok key) ps \<Longrightarrow>
   sync_profiles k (map (profile_view key) ps)
     = Inr (if \<exists>p \<in> set ps. yields_key p then Some key else k,
         map (\<lambda>p. key_taken (profile_view key p)) ps)"
  by (induction ps arbitrary: k) (auto simp: sync_profile_view)

section \<open>What the comparison decides\<close>

text \<open>
  Profiles whose strings are strings and whose keys have been taken can be compared without mishap;
  \<open>profile_same\<close> is what the comparison then says, given whether either object has a profile of
  multiple components.
\<close>

fun comparable :: "profile \<Rightarrow> bool" where
  "comparable (INTERNET_IOP i) \<longleftrightarrow> iiop_key i = None \<and> c_string (iiop_host i)"
| "comparable (GENERIC_IOP g) \<longleftrightarrow> c_string (gen_proto g) \<and> c_string (gen_host g) \<and> c_string (gen_service g)"
| "comparable (MATECORBA_SPECIFIC s) \<longleftrightarrow> os_key s = None \<and> c_string (unix_sock_path s)"
| "comparable _ \<longleftrightarrow> True"

fun profile_same :: "bool \<Rightarrow> profile \<Rightarrow> profile \<Rightarrow> bool" where
  "profile_same mci (INTERNET_IOP a) (INTERNET_IOP b) \<longleftrightarrow>
     iiop_port a = iiop_port b \<and> iiop_host a = iiop_host b"
| "profile_same mci (GENERIC_IOP a) (GENERIC_IOP b) \<longleftrightarrow> mci \<and> gen_service a = gen_service b
     \<and> gen_host a = gen_host b \<and> gen_proto a = gen_proto b"
| "profile_same mci (MATECORBA_SPECIFIC a) (MATECORBA_SPECIFIC b) \<longleftrightarrow>
     ipv6_port a = ipv6_port b \<and> unix_sock_path a = unix_sock_path b"
| "profile_same mci _ _ \<longleftrightarrow> False"

lemma c_text_inject: "c_string a \<Longrightarrow> c_string b \<Longrightarrow> c_text a = c_text b \<longleftrightarrow> a = b"
  by (metis c_string_facts(3))

lemma c_streq_string [simp]: "c_string a \<Longrightarrow> c_string b \<Longrightarrow> c_streq a b = Inr (a = b)"
  by (simp add: c_streq_def c_text_inject)

lemma profile_equal_same:
  assumes "comparable p1" "comparable p2"
  shows "IOP_profile_equal l1 l2 p1 p2
    = Inr (profile_same (IOP_get_mci l1 \<noteq> None \<or> IOP_get_mci l2 \<noteq> None) p1 p2)"
  using assms by (cases p1; cases p2) (auto simp: IOP_profile_equal_def Let_def iop_profile_tags)

definition objref_ok :: "objref \<Rightarrow> bool" where
  "objref_ok obj \<longleftrightarrow> o_key obj \<noteq> None \<and> o_profiles obj \<noteq> [] \<and> list_all comparable (o_profiles obj)"

definition has_mci :: "objref \<Rightarrow> bool" where
  "has_mci obj \<longleftrightarrow> IOP_get_mci (o_profiles obj) \<noteq> None"

definition same_object :: "objref \<Rightarrow> objref \<Rightarrow> bool" where
  "same_object a b \<longleftrightarrow> o_key a = o_key b \<and> (\<exists>p1 \<in> set (o_profiles a). \<exists>p2 \<in> set (o_profiles b).
     profile_same (has_mci a \<or> has_mci b) p1 p2)"

lemma any_equal_Inr:
  "(\<And>x. x \<in> set xs \<Longrightarrow> f x = Inr (g x)) \<Longrightarrow> any_equal f xs = Inr (\<exists>x \<in> set xs. g x)"
  by (induction xs) auto

lemma Object_equal_same:
  assumes "objref_ok a" "objref_ok b"
  shows "g_CORBA_Object_equal a b = Inr (same_object a b)"
proof -
  obtain k1 k2 where k: "o_key a = Some k1" "o_key b = Some k2"
    using assms by (auto simp: objref_ok_def)
  have inner: "any_equal (\<lambda>p2. IOP_profile_equal (o_profiles a) (o_profiles b) p1 p2) (o_profiles b)
      = Inr (\<exists>p2 \<in> set (o_profiles b). profile_same (has_mci a \<or> has_mci b) p1 p2)"
    if "p1 \<in> set (o_profiles a)" for p1
    using assms that
    by (intro any_equal_Inr) (auto simp: objref_ok_def list_all_iff profile_equal_same has_mci_def)
  show ?thesis
    using any_equal_Inr[of "o_profiles a", OF inner]
    by (simp add: g_CORBA_Object_equal_def k same_object_def)
qed

lemma profile_same_sym: "profile_same m a b \<longleftrightarrow> profile_same m b a"
  by (cases a; cases b) auto

lemma same_object_sym: "same_object a b \<longleftrightarrow> same_object b a"
  unfolding same_object_def
  using profile_same_sym[of "has_mci a \<or> has_mci b"] by (auto simp: disj_commute)

text \<open>A profile is equal to itself when it says where the object is.\<close>

fun addresses :: "bool \<Rightarrow> profile \<Rightarrow> bool" where
  "addresses mci (INTERNET_IOP _) = True"
| "addresses mci (MATECORBA_SPECIFIC _) = True"
| "addresses mci (GENERIC_IOP _) = mci"
| "addresses mci _ = False"

lemma profile_same_refl: "profile_same mci p p \<longleftrightarrow> addresses mci p"
  by (cases p) auto

definition addressable :: "objref \<Rightarrow> bool" where
  "addressable obj \<longleftrightarrow> (\<exists>p \<in> set (o_profiles obj). addresses (has_mci obj) p)"

lemma profile_same_addresses: "profile_same mci p q \<Longrightarrow> addresses mci p"
  by (cases p; cases q) auto

lemma same_object_refl: "same_object obj obj \<longleftrightarrow> addressable obj"
  unfolding same_object_def addressable_def
  using profile_same_refl profile_same_addresses by (metis (no_types))

section \<open>The table keeps one object per reference\<close>

text \<open>
  What registering and looking up keep true of the table: every entry is a comparable object that
  leads to itself, and no entry is equal to an earlier one.
\<close>

definition entries_ok :: "((nat \<times> objref) \<times> nat) list \<Rightarrow> bool" where
  "entries_ok t \<longleftrightarrow> (\<forall>((k, obj), v) \<in> set t. objref_ok obj \<and> v = k)
     \<and> sorted_wrt (\<lambda>x y. \<not> same_object (snd (fst x)) (snd (fst y))) t"

definition table_ok :: "objrefs \<Rightarrow> bool" where
  "table_ok table \<longleftrightarrow> (case table of None \<Rightarrow> True | Some t \<Rightarrow> entries_ok t)"

definition entries :: "objrefs \<Rightarrow> ((nat \<times> objref) \<times> nat) list" where
  "entries table = (case table of None \<Rightarrow> [] | Some t \<Rightarrow> t)"

lemma entries_simps [simp]: "entries None = []" "entries (Some t) = t"
  by (simp_all add: entries_def)

lemma find_entry_spec:
  assumes "entries_ok t" "objref_ok obj"
  shows "find_entry obj t = Inr (map_option snd (List.find (\<lambda>x. same_object (snd (fst x)) obj) t))"
  using assms
proof (induction t)
  case (Cons x t)
  obtain k kobj v where x: "x = ((k, kobj), v)" by (cases x) auto
  then have "g_CORBA_Object_equal kobj obj = Inr (same_object kobj obj)"
    using Cons.prems by (intro Object_equal_same) (auto simp: entries_ok_def)
  moreover have "entries_ok t" using Cons.prems by (auto simp: entries_ok_def)
  ultimately show ?case using Cons x by simp
qed simp

lemma insert_entry_new:
  assumes "entries_ok t" "objref_ok obj" "\<forall>x \<in> set t. \<not> same_object (snd (fst x)) obj"
  shows "insert_entry a obj t = Inr (t @ [((a, obj), a)])"
  using assms
proof (induction t)
  case (Cons x t)
  obtain k kobj v where x: "x = ((k, kobj), v)" by (cases x) auto
  then have "g_CORBA_Object_equal kobj obj = Inr (same_object kobj obj)"
    using Cons.prems by (intro Object_equal_same) (auto simp: entries_ok_def)
  moreover have "entries_ok t" using Cons.prems by (auto simp: entries_ok_def)
  ultimately show ?case using Cons x by simp
qed simp

lemma entries_ok_snoc:
  "entries_ok t \<Longrightarrow> objref_ok obj \<Longrightarrow> \<forall>x \<in> set t. \<not> same_object (snd (fst x)) obj \<Longrightarrow>
     entries_ok (t @ [((a, obj), a)])"
  by (auto simp: entries_ok_def sorted_wrt_append)

text \<open>The reference as an object, once its key has been taken out of the profiles.\<close>

definition reference :: "cblock \<Rightarrow> profile list \<Rightarrow> objref res" where
  "reference tid ps = rbind (IOP_profiles_sync_objkey ps) (\<lambda>(key, ps).
     Inr \<lparr> o_type = tid, o_profiles = ps, o_key = key, o_adaptor_key = None \<rparr>)"

lemma objref_find_spec:
  assumes t: "table_ok table" and r: "reference tid ps = Inr obj" and ok: "objref_ok obj"
  shows "MateCORBA_objref_find fresh tid ps table = Inr
    (case List.find (\<lambda>x. same_object (snd (fst x)) obj) (entries table) of
       Some x \<Rightarrow> (snd x, table)
     | None \<Rightarrow> (fresh, Some (entries table @ [((fresh, obj), fresh)])))"
proof -
  obtain key qs where s: "IOP_profiles_sync_objkey ps = Inr (key, qs)"
    and obj: "obj = \<lparr> o_type = tid, o_profiles = qs, o_key = key, o_adaptor_key = None \<rparr>"
    using r by (auto simp: reference_def rbind_eq_Inr)
  have t': "entries_ok (entries table)"
    using t by (auto simp: table_ok_def entries_def entries_ok_def split: option.splits)
  have look: "MateCORBA_lookup_objref obj table
      = Inr (map_option snd (List.find (\<lambda>x. same_object (snd (fst x)) obj) (entries table)))"
    using find_entry_spec[OF t' ok] ok
    by (auto simp: MateCORBA_lookup_objref_def entries_def objref_ok_def split: option.splits)
  have reg: "MateCORBA_register_objref fresh obj table
      = Inr (Some (entries table @ [((fresh, obj), fresh)]))"
    if "List.find (\<lambda>x. same_object (snd (fst x)) obj) (entries table) = None"
  proof -
    have "\<forall>x \<in> set (entries table). \<not> same_object (snd (fst x)) obj"
      using that by (simp only: find_None_iff) blast
    from insert_entry_new[OF t' ok this] show ?thesis
      using ok by (simp add: MateCORBA_register_objref_def objref_ok_def flip: entries_def)
  qed
  show ?thesis
    using look reg s obj
    by (simp add: MateCORBA_objref_find_def Let_def split: option.splits)
qed

lemma objref_find_table_ok:
  assumes t: "table_ok table" and r: "reference tid ps = Inr obj" and ok: "objref_ok obj"
    and f: "MateCORBA_objref_find fresh tid ps table = Inr (a, table')"
  shows "table_ok table'"
proof (cases "List.find (\<lambda>x. same_object (snd (fst x)) obj) (entries table)")
  case None
  then have "\<forall>x \<in> set (entries table). \<not> same_object (snd (fst x)) obj"
    by (simp only: find_None_iff) blast
  then have "entries_ok (entries table @ [((fresh, obj), fresh)])"
    using t ok by (intro entries_ok_snoc)
      (auto simp: table_ok_def entries_def entries_ok_def split: option.splits)
  then show ?thesis
    using f None by (auto simp: objref_find_spec[OF t r ok] table_ok_def)
next
  case (Some x)
  then show ?thesis using f t by (simp add: objref_find_spec[OF t r ok])
qed

lemma find_snoc: "List.find P (xs @ [x]) = (case List.find P xs of Some y \<Rightarrow> Some y
    | None \<Rightarrow> if P x then Some x else None)"
  by (induction xs) auto

lemma objref_find_again:
  assumes t: "table_ok table" and r: "reference tid ps = Inr obj" and ok: "objref_ok obj"
    and self: "addressable obj"
    and f: "MateCORBA_objref_find fresh tid ps table = Inr (a, table')"
  shows "MateCORBA_objref_find fresh' tid ps table' = Inr (a, table')"
proof -
  note t' = objref_find_table_ok[OF t r ok f]
  show ?thesis
  proof (cases "List.find (\<lambda>x. same_object (snd (fst x)) obj) (entries table)")
    case None
    then have tab: "table' = Some (entries table @ [((fresh, obj), fresh)])" and a: "a = fresh"
      using f by (auto simp: objref_find_spec[OF t r ok])
    have "List.find (\<lambda>x. same_object (snd (fst x)) obj) (entries table @ [((fresh, obj), fresh)])
        = Some ((fresh, obj), fresh)"
      using None self by (simp add: find_snoc same_object_refl)
    then show ?thesis by (simp add: objref_find_spec[OF t'[unfolded tab] r ok] tab a)
  next
    case (Some x)
    then have "table' = table" and "a = snd x" using f by (simp_all add: objref_find_spec[OF t r ok])
    then show ?thesis using Some by (simp add: objref_find_spec[OF t r ok])
  qed
qed

section \<open>Proxies\<close>

text \<open>
  \<^verbatim>\<open>MateCORBA_objref_get_proxy\<close> on the object at the address \<open>a\<close>: an object that has no profiles yet gets those
  of the ORB's servers and is registered. The proxy is a second object with copies of the profiles and of the key, which stays
  out of the table. The result is the object, the table and the proxy.
\<close>

definition MateCORBA_objref_get_proxy ::
  "profile list \<Rightarrow> nat \<Rightarrow> objref \<Rightarrow> objrefs \<Rightarrow> ((objref \<times> objrefs) \<times> objref) res" where
  "MateCORBA_objref_get_proxy orb_profiles a obj table =
     rbind (if o_profiles obj = []
            then let obj = IOP_generate_profiles orb_profiles obj
                 in rbind (MateCORBA_register_objref a obj table) (\<lambda>table. Inr (obj, table))
            else Inr (obj, table)) (\<lambda>(obj, table).
     rbind (IOP_profiles_copy (o_profiles obj)) (\<lambda>ps.
     Inr ((obj, table), \<lparr> o_type = o_type obj, o_profiles = ps, o_key = o_key obj, o_adaptor_key = None \<rparr>)))"

text \<open>The object with its profiles, and the table with the object in it.\<close>

definition with_profiles :: "profile list \<Rightarrow> objref \<Rightarrow> objref" where
  "with_profiles orb_profiles obj = (if o_profiles obj = [] then IOP_generate_profiles orb_profiles obj else obj)"

lemma insert_entry_total:
  assumes "entries_ok t" "objref_ok obj"
  shows "\<exists>t'. insert_entry a obj t = Inr t'"
  using assms
proof (induction t)
  case (Cons x t)
  obtain k kobj v where x: "x = ((k, kobj), v)" by (cases x) auto
  then have "g_CORBA_Object_equal kobj obj = Inr (same_object kobj obj)"
    using Cons.prems by (intro Object_equal_same) (auto simp: entries_ok_def)
  moreover have "entries_ok t" using Cons.prems by (auto simp: entries_ok_def)
  ultimately show ?case using Cons x by auto
qed simp

lemma register_total:
  assumes "table_ok table" "objref_ok obj"
  shows "\<exists>table'. MateCORBA_register_objref a obj table = Inr table'"
proof -
  have "entries_ok (entries table)"
    using assms(1) by (auto simp: table_ok_def entries_def entries_ok_def split: option.splits)
  from insert_entry_total[OF this assms(2), of a] show ?thesis
    using assms(2) by (auto simp: MateCORBA_register_objref_def objref_ok_def simp flip: entries_def)
qed

lemma copy_prepend_rev:
  assumes "\<And>x. x \<in> set xs \<Longrightarrow> f x = Inr (g x)"
  shows "copy_prepend f ret xs = Inr (rev (map g xs) @ ret)"
  using assms by (induction xs arbitrary: ret) auto

fun copy_ok :: "component \<Rightarrow> bool" where
  "copy_ok (GENERIC_SSL_SEC_TRANS s) \<longleftrightarrow> c_string s"
| "copy_ok _ \<longleftrightarrow> True"

definition profile_components :: "profile \<Rightarrow> component list" where
  "profile_components p = (case p of INTERNET_IOP i \<Rightarrow> iiop_components i
     | GENERIC_IOP g \<Rightarrow> gen_components g | MULTIPLE_COMPONENTS cs \<Rightarrow> cs | _ \<Rightarrow> [])"

text \<open>The copy of a component, and of a profile, as the code leaves them.\<close>

fun copied_component :: "component \<Rightarrow> component" where
  "copied_component (CODE_SETS _ _) = CODE_SETS \<lparr> native_code_set = 0, conversion_code_sets = [] \<rparr>
     \<lparr> native_code_set = 0, conversion_code_sets = [] \<rparr>"
| "copied_component c = c"

fun copied_profile :: "profile \<Rightarrow> profile" where
  "copied_profile (INTERNET_IOP i) =
     INTERNET_IOP (i\<lparr> iiop_components := rev (map copied_component (iiop_components i)) \<rparr>)"
| "copied_profile (GENERIC_IOP g) =
     GENERIC_IOP (g\<lparr> gen_components := rev (map copied_component (gen_components g)) \<rparr>)"
| "copied_profile (MULTIPLE_COMPONENTS cs) = MULTIPLE_COMPONENTS (rev (map copied_component cs))"
| "copied_profile p = p"

lemma component_copy: "copy_ok c \<Longrightarrow> IOP_component_copy c = Inr (copied_component c)"
  by (cases c) (auto simp: IOP_component_copy_def)

lemma components_copy:
  "list_all copy_ok cs \<Longrightarrow> IOP_components_copy cs = Inr (rev (map copied_component cs))"
  unfolding IOP_components_copy_def
  by (subst copy_prepend_rev[where g = copied_component]) (auto simp: list_all_iff component_copy)

lemma profile_copy:
  "comparable p \<Longrightarrow> list_all copy_ok (profile_components p) \<Longrightarrow>
     IOP_profile_copy p = Inr (copied_profile p)"
  by (cases p) (auto simp: IOP_profile_copy_def profile_components_def components_copy)

definition copyable :: "objref \<Rightarrow> bool" where
  "copyable obj \<longleftrightarrow> objref_ok obj
     \<and> (\<forall>p \<in> set (o_profiles obj). list_all copy_ok (profile_components p))"

lemma profiles_copy:
  "copyable obj \<Longrightarrow> IOP_profiles_copy (o_profiles obj) = Inr (rev (map copied_profile (o_profiles obj)))"
  unfolding IOP_profiles_copy_def
  by (subst copy_prepend_rev[where g = copied_profile])
    (auto simp: copyable_def objref_ok_def list_all_iff profile_copy)

lemma comparable_copied: "comparable p \<Longrightarrow> comparable (copied_profile p)"
  by (cases p) auto

lemma profile_same_copied: "profile_same mci p (copied_profile p) \<longleftrightarrow> addresses mci p"
  by (cases p) auto

lemma get_mci_iff: "IOP_get_mci ps \<noteq> None \<longleftrightarrow> (\<exists>cs. MULTIPLE_COMPONENTS cs \<in> set ps)"
  by (induction ps rule: IOP_get_mci.induct) auto

lemma proxy_spec:
  assumes c: "copyable (with_profiles orb_profiles obj)" and t: "table_ok table"
  obtains table' proxy where
    "MateCORBA_objref_get_proxy orb_profiles a obj table = Inr ((with_profiles orb_profiles obj, table'), proxy)"
    "if o_profiles obj = [] then MateCORBA_register_objref a (with_profiles orb_profiles obj) table = Inr table' else table' = table"
    "objref_ok proxy" "o_profiles proxy = rev (map copied_profile (o_profiles (with_profiles orb_profiles obj)))"
    "o_key proxy = o_key (with_profiles orb_profiles obj)" "o_type proxy = o_type obj"
proof -
  let ?o = "with_profiles orb_profiles obj"
  let ?p = "\<lparr> o_type = o_type obj, o_profiles = rev (map copied_profile (o_profiles ?o)), o_key = o_key ?o, o_adaptor_key = None \<rparr>"
  obtain reg where reg: "MateCORBA_register_objref a ?o table = Inr reg"
    using register_total[OF t, of ?o a] c by (auto simp: copyable_def)
  define table' where "table' = (if o_profiles obj = [] then reg else table)"
  then have table': "if o_profiles obj = [] then MateCORBA_register_objref a ?o table = Inr table' else table' = table"
    using reg by simp
  have ty: "o_type ?o = o_type obj" by (simp add: with_profiles_def IOP_generate_profiles_def)
  have "MateCORBA_objref_get_proxy orb_profiles a obj table = Inr ((?o, table'), ?p)"
    using table' profiles_copy[OF c] ty
    by (auto simp: MateCORBA_objref_get_proxy_def with_profiles_def Let_def split: if_splits)
  moreover have "objref_ok ?p"
    using c by (auto simp: objref_ok_def copyable_def list_all_iff comparable_copied)
  ultimately show ?thesis using that[of table' ?p] table' by simp
qed

text \<open>The proxy of an object that can be addressed is equal to it.\<close>

lemma proxy_same:
  assumes c: "copyable obj" and a: "addressable obj" and ok: "objref_ok proxy"
    and ps: "o_profiles proxy = rev (map copied_profile (o_profiles obj))" and k: "o_key proxy = o_key obj"
  shows "g_CORBA_Object_equal obj proxy = Inr True"
proof -
  obtain pr where pr: "pr \<in> set (o_profiles obj)" "addresses (has_mci obj) pr"
    using a by (auto simp: addressable_def)
  have "profile_same (has_mci obj \<or> has_mci proxy) pr (copied_profile pr)"
    using pr(2) by (cases pr) auto
  then have "same_object obj proxy"
    using pr(1) ps k by (auto simp: same_object_def)
  then show ?thesis
    using c ok Object_equal_same[of obj proxy] by (simp add: copyable_def)
qed

section \<open>Release\<close>

text \<open>
  Releasing an object takes out the first entry equal to it; an object that is not even equal to
  itself stays in the table.
\<close>

lemma remove_entry_spec:
  assumes "entries_ok t" "objref_ok obj" "\<forall>x \<in> set t. \<not> same_object (snd (fst x)) obj"
  shows "remove_entry obj t = Inr t"
  using assms
proof (induction t)
  case (Cons x t)
  obtain k kobj v where x: "x = ((k, kobj), v)" by (cases x) auto
  then have "g_CORBA_Object_equal kobj obj = Inr (same_object kobj obj)"
    using Cons.prems by (intro Object_equal_same) (auto simp: entries_ok_def)
  moreover have "entries_ok t" using Cons.prems by (auto simp: entries_ok_def)
  ultimately show ?case using Cons x by simp
qed simp

lemma remove_entry_last:
  assumes "entries_ok t" "objref_ok obj" "\<forall>x \<in> set t. \<not> same_object (snd (fst x)) obj"
    "addressable obj"
  shows "remove_entry obj (t @ [((a, obj), v)]) = Inr t"
  using assms
proof (induction t)
  case Nil
  then show ?case by (simp add: Object_equal_same same_object_refl)
next
  case (Cons x t)
  obtain k kobj v where x: "x = ((k, kobj), v)" by (cases x) auto
  then have "g_CORBA_Object_equal kobj obj = Inr (same_object kobj obj)"
    using Cons.prems by (intro Object_equal_same) (auto simp: entries_ok_def)
  moreover have "entries_ok t" using Cons.prems by (auto simp: entries_ok_def)
  ultimately show ?case using Cons x by simp
qed

end
