(* ===== verification/Iop_Servers.thy ===== *)
theory Iop_Servers imports Iop_Objects begin

text \<open>
  \<^verbatim>\<open>IOP_start_profiles\<close> of \<^verbatim>\<open>iop-profiles.c\<close>: the profiles of the ORB's own objects, made
  from the servers it listens on. They carry no keys; those are put in as objects are marshalled.
\<close>

section \<open>The profiles of the servers\<close>

record server =
  proto_name :: cblock
  create_ssl :: bool
  local_host_info :: cblock
  local_serv_info :: cblock

text \<open>\<^verbatim>\<open>atoi\<close>: blanks, a sign, digits up to the first other character.\<close>

definition is_digit :: "byte \<Rightarrow> bool" where
  "is_digit c \<longleftrightarrow> 48 \<le> c \<and> c \<le> 57"

definition digits_value :: "byte list \<Rightarrow> int" where
  "digits_value s = fold (\<lambda>c n. 10 * n + (uint c - 48)) (takeWhile is_digit s) 0"

definition atoi :: "cblock \<Rightarrow> int" where
  "atoi s = (case dropWhile (\<lambda>c. c = 32 \<or> 9 \<le> c \<and> c \<le> 13) s of
     [] \<Rightarrow> 0
   | c # r \<Rightarrow> if c = 45 then - digits_value r else if c = 43 then digits_value r
       else digits_value (c # r))"

definition IPv4_name :: cblock where "IPv4_name = cstr ''IPv4''"
definition UNIX_name :: cblock where "UNIX_name = cstr ''UNIX''"

definition IOP_PROFILES_CODE_SET_UTF8 :: u32 where "IOP_PROFILES_CODE_SET_UTF8 = 0x05010001"
definition IOP_PROFILES_CODE_SET_UTF16 :: u32 where "IOP_PROFILES_CODE_SET_UTF16 = 0x00010109"

text \<open>
  The pointers \<^verbatim>\<open>iiop\<close> and \<^verbatim>\<open>giop\<close> of the code are into the list being built: the only IIOP
  profile in it, and the first generic one for the protocol.
\<close>

fun on_iiop :: "(iiop_info \<Rightarrow> iiop_info res) \<Rightarrow> profile list \<Rightarrow> profile list res" where
  "on_iiop f [] = Inr []"
| "on_iiop f (INTERNET_IOP i # ps) = rbind (f i) (\<lambda>i. Inr (INTERNET_IOP i # ps))"
| "on_iiop f (p # ps) = rbind (on_iiop f ps) (\<lambda>ps. Inr (p # ps))"

fun on_giop :: "cblock \<Rightarrow> (generic_info \<Rightarrow> generic_info res) \<Rightarrow> profile list \<Rightarrow> profile list res" where
  "on_giop proto f [] = Inr []"
| "on_giop proto f (GENERIC_IOP g # ps) = rbind (c_streq (gen_proto g) proto) (\<lambda>eq.
     if eq then rbind (f g) (\<lambda>g. Inr (GENERIC_IOP g # ps))
     else rbind (on_giop proto f ps) (\<lambda>ps. Inr (GENERIC_IOP g # ps)))"
| "on_giop proto f (p # ps) = rbind (on_giop proto f ps) (\<lambda>ps. Inr (p # ps))"

fun has_iiop :: "profile list \<Rightarrow> bool" where
  "has_iiop [] = False"
| "has_iiop (INTERNET_IOP i # ps) = True"
| "has_iiop (p # ps) = has_iiop ps"

fun has_giop :: "cblock \<Rightarrow> profile list \<Rightarrow> bool res" where
  "has_giop proto [] = Inr False"
| "has_giop proto (GENERIC_IOP g # ps) = rbind (c_streq (gen_proto g) proto) (\<lambda>eq.
     if eq then Inr True else has_giop proto ps)"
| "has_giop proto (p # ps) = has_giop proto ps"

definition iiop_server :: "GIOPVersion \<Rightarrow> server \<Rightarrow> iiop_info \<Rightarrow> iiop_info res" where
  "iiop_server default_giop_version serv iiop = (if create_ssl serv
     then Inr (iiop\<lparr> iiop_components := iiop_components iiop
       @ [SSL_SEC_TRANS (2 OR 4) (2 OR 4) (word_of_int (atoi (local_serv_info serv)))] \<rparr>)
     else if iiop_port iiop \<noteq> 0 then Inl Abort
     else Inr (iiop\<lparr> iiop_port := word_of_int (atoi (local_serv_info serv)),
       iiop_version := default_giop_version \<rparr>))"

definition giop_server :: "server \<Rightarrow> generic_info \<Rightarrow> generic_info res" where
  "giop_server serv giop = (if create_ssl serv
     then rbind (g_strdup (local_serv_info serv)) (\<lambda>s. Inr (giop\<lparr> gen_components :=
       gen_components giop @ [GENERIC_SSL_SEC_TRANS s] \<rparr>))
     else if gen_service giop \<noteq> [] then Inl Abort
     else rbind (g_strdup (local_serv_info serv)) (\<lambda>s. Inr (giop\<lparr> gen_service := s \<rparr>)))"

definition start_specific :: "server \<Rightarrow> bool \<Rightarrow> specific_info option \<Rightarrow> specific_info option res" where
  "start_specific serv uds osi = (case osi of
     None \<Rightarrow> if uds then rbind (g_strdup (local_serv_info serv)) (\<lambda>s. Inr (Some
         \<lparr> unix_sock_path = s, ipv6_port = 0, os_key = None \<rparr>)) else Inr None
   | Some o1 \<Rightarrow> if uds \<and> unix_sock_path o1 = [] then rbind (g_strdup (local_serv_info serv)) (\<lambda>s.
         Inr (Some (o1\<lparr> unix_sock_path := s \<rparr>))) else Inr osi)"

text \<open>One turn of the loop over the servers: the MateCORBA-specific profile and the list so far.\<close>

definition start_server :: "GIOPVersion \<Rightarrow> server \<Rightarrow> specific_info option \<times> profile list
    \<Rightarrow> (specific_info option \<times> profile list) res" where
  "start_server default_giop_version serv st = (case st of (osi, common) \<Rightarrow>
     rbind (c_streq (proto_name serv) IPv4_name) (\<lambda>ipv4.
     rbind (c_streq (proto_name serv) UNIX_name) (\<lambda>uds.
     rbind (start_specific serv uds osi) (\<lambda>osi.
     if ipv4 then
       rbind (if has_iiop common then Inr common
         else rbind (g_strdup (local_host_info serv)) (\<lambda>host. Inr (common @ [INTERNET_IOP
           \<lparr> iiop_version = GIOP_1_0, iiop_host = host, iiop_port = 0, iiop_key = None,
             iiop_components = [] \<rparr>]))) (\<lambda>common.
       rbind (on_iiop (iiop_server default_giop_version serv) common) (\<lambda>common. Inr (osi, common)))
     else
       rbind (has_giop (proto_name serv) common) (\<lambda>found.
       rbind (if found then Inr common
         else rbind (g_strdup (proto_name serv)) (\<lambda>proto.
           rbind (g_strdup (local_host_info serv)) (\<lambda>host. Inr (common @ [GENERIC_IOP
           \<lparr> gen_version = default_giop_version, gen_proto = proto, gen_host = host,
             gen_service = [], gen_components = [] \<rparr>])))) (\<lambda>common.
       rbind (on_giop (proto_name serv) (giop_server serv) common) (\<lambda>common. Inr (osi, common))))))))"

fun start_servers :: "GIOPVersion \<Rightarrow> server list \<Rightarrow> specific_info option \<times> profile list
    \<Rightarrow> (specific_info option \<times> profile list) res" where
  "start_servers v [] st = Inr st"
| "start_servers v (s # ss) st = rbind (start_server v s st) (start_servers v ss)"

definition code_sets_component :: component where
  "code_sets_component = CODE_SETS
     \<lparr> native_code_set = IOP_PROFILES_CODE_SET_UTF8, conversion_code_sets = [] \<rparr>
     \<lparr> native_code_set = IOP_PROFILES_CODE_SET_UTF16, conversion_code_sets = [] \<rparr>"

definition IOP_start_profiles :: "GIOPVersion \<Rightarrow> server list \<Rightarrow> profile list res" where
  "IOP_start_profiles default_giop_version servers =
     rbind (start_servers default_giop_version servers (None, [])) (\<lambda>(osi, common).
     Inr (common @ (case osi of None \<Rightarrow> [] | Some o1 \<Rightarrow> [MATECORBA_SPECIFIC o1])
       @ [MULTIPLE_COMPONENTS ((if servers = [] then [] else [COMPLETE_OBJECT_KEY None])
           @ [code_sets_component])]))"

section \<open>Plain servers on distinct protocols\<close>

definition server_ok :: "server \<Rightarrow> bool" where
  "server_ok s \<longleftrightarrow> c_string (proto_name s) \<and> c_string (local_host_info s)
     \<and> c_string (local_serv_info s) \<and> \<not> create_ssl s"

definition server_profile :: "GIOPVersion \<Rightarrow> server \<Rightarrow> profile" where
  "server_profile v s = (if proto_name s = IPv4_name
     then INTERNET_IOP \<lparr> iiop_version = v, iiop_host = local_host_info s,
       iiop_port = word_of_int (atoi (local_serv_info s)), iiop_key = None, iiop_components = [] \<rparr>
     else GENERIC_IOP \<lparr> gen_version = v, gen_proto = proto_name s, gen_host = local_host_info s,
       gen_service = local_serv_info s, gen_components = [] \<rparr>)"

definition server_specific :: "server list \<Rightarrow> specific_info option" where
  "server_specific ss = map_option (\<lambda>s. \<lparr> unix_sock_path = local_serv_info s, ipv6_port = 0,
     os_key = None \<rparr>) (List.find (\<lambda>s. proto_name s = UNIX_name) ss)"

lemma names_string [simp]: "c_string IPv4_name" "c_string UNIX_name" "IPv4_name \<noteq> UNIX_name"
  by (code_simp, code_simp, code_simp)

lemma on_iiop_last:
  "\<not> has_iiop ps \<Longrightarrow> on_iiop f (ps @ [INTERNET_IOP i])
     = rbind (f i) (\<lambda>i. Inr (ps @ [INTERNET_IOP i]))"
  by (induction ps rule: has_iiop.induct) (auto simp: rbind_def split: sum.splits)

lemma no_iiop: "IPv4_name \<notin> proto_name ` set done1 \<Longrightarrow> \<not> has_iiop (map (server_profile v) done1)"
  by (induction done1) (auto simp: server_profile_def)

lemma no_giop:
  "list_all server_ok done1 \<Longrightarrow> c_string n \<Longrightarrow> n \<notin> proto_name ` set done1 \<Longrightarrow>
     has_giop n (map (server_profile v) done1) = Inr False"
  by (induction done1) (auto simp: server_profile_def server_ok_def)

lemma on_giop_last:
  "list_all server_ok done1 \<Longrightarrow> c_string n \<Longrightarrow> n \<notin> proto_name ` set done1 \<Longrightarrow> gen_proto g = n \<Longrightarrow>
     on_giop n f (map (server_profile v) done1 @ [GENERIC_IOP g])
       = rbind (f g) (\<lambda>g. Inr (map (server_profile v) done1 @ [GENERIC_IOP g]))"
proof (induction done1)
  case (Cons s ss)
  then show ?case by (cases "f g") (auto simp: server_profile_def server_ok_def)
qed simp

lemma start_server_plain:
  assumes d: "list_all server_ok done1" and s: "server_ok s" "proto_name s \<notin> proto_name ` set done1"
  shows "start_server v s (server_specific done1, map (server_profile v) done1)
    = Inr (server_specific (done1 @ [s]), map (server_profile v) (done1 @ [s]))"
proof -
  let ?n = "proto_name s"
  have str: "c_string ?n" "c_string (local_host_info s)" "c_string (local_serv_info s)" "\<not> create_ssl s"
    using s by (simp_all add: server_ok_def)
  have path: "local_serv_info s \<noteq> []" using str by simp
  have old: "unix_sock_path o1 \<noteq> []" if "server_specific done1 = Some o1" for o1
    using that d by (auto simp: server_specific_def server_ok_def find_Some_iff list_all_length)
  have new: "server_specific (done1 @ [s]) = (if server_specific done1 = None \<and> ?n = UNIX_name
      then Some \<lparr> unix_sock_path = local_serv_info s, ipv6_port = 0, os_key = None \<rparr>
      else server_specific done1)"
    by (auto simp: server_specific_def find_snoc split: option.splits)
  have osi: "start_specific s uds (server_specific done1) = Inr (server_specific (done1 @ [s]))"
    if "uds \<longleftrightarrow> ?n = UNIX_name" for uds
    using str old new that by (auto simp: start_specific_def split: option.splits)
  show ?thesis
  proof (cases "?n = IPv4_name")
    case True
    then have "\<not> has_iiop (map (server_profile v) done1)" using s no_iiop by metis
    then show ?thesis
      using True str osi by (simp add: start_server_def on_iiop_last iiop_server_def server_profile_def)
  next
    case False
    then show ?thesis
      using str osi d s(2) path
      by (simp add: start_server_def no_giop on_giop_last giop_server_def server_profile_def)
  qed
qed

lemma start_servers_plain:
  assumes "list_all server_ok (done1 @ ss)" "distinct (map proto_name (done1 @ ss))"
  shows "start_servers v ss (server_specific done1, map (server_profile v) done1)
    = Inr (server_specific (done1 @ ss), map (server_profile v) (done1 @ ss))"
  using assms
proof (induction ss arbitrary: done1)
  case (Cons s ss)
  have "start_server v s (server_specific done1, map (server_profile v) done1)
      = Inr (server_specific (done1 @ [s]), map (server_profile v) (done1 @ [s]))"
    by (rule start_server_plain) (use Cons.prems in auto)
  then show ?case using Cons.IH[of "done1 @ [s]"] Cons.prems by simp
qed simp

lemma start_profiles_plain:
  assumes "list_all server_ok ss" "distinct (map proto_name ss)"
  shows "IOP_start_profiles v ss = Inr (map (server_profile v) ss
    @ (case server_specific ss of None \<Rightarrow> [] | Some o1 \<Rightarrow> [MATECORBA_SPECIFIC o1])
    @ [MULTIPLE_COMPONENTS ((if ss = [] then [] else [COMPLETE_OBJECT_KEY None]) @ [code_sets_component])])"
  using start_servers_plain[of "[]" ss v] assms
  by (simp add: IOP_start_profiles_def server_specific_def)

text \<open>Two servers for the Internet protocol without SSL end the process.\<close>

lemma two_iiop_servers_abort:
  assumes "server_ok s1" "server_ok s2" "proto_name s1 = IPv4_name" "proto_name s2 = IPv4_name"
    and port: "word_of_int (atoi (local_serv_info s1)) \<noteq> (0 :: u16)"
  shows "IOP_start_profiles v [s1, s2] = Inl Abort"
  using assms
  by (simp add: IOP_start_profiles_def start_server_def server_ok_def iiop_server_def
      start_specific_def)

end
