(* ===== verification/Iop_Inside.thy ===== *)
theory Iop_Inside imports Iop_Demarshal begin

text \<open>
  The readers of object references against the same readers with the one length check of
  \<^verbatim>\<open>CodeSetComponent_demarshal\<close> done in wide arithmetic. The two agree on every block below 4 GiB,
  except where the code's check wraps: there the code runs off the block and the other refuses the message.
\<close>

section \<open>The reader of a code-set list\<close>

definition CodeSet_wide :: "codeset reader" where
  "CodeSet_wide = rd_bind (rd_align 4) (\<lambda>_. rd_bind (rd_need 8) (\<lambda>_.
     rd_bind rd_u32 (\<lambda>native. rd_bind rd_u32 (\<lambda>sequence_length.
     rd_bind (rd_need (4 * unat sequence_length)) (\<lambda>_.
     rd_bind (rd_loop rd_u32 (unat sequence_length)) (\<lambda>sets.
     rd_ret \<lparr> native_code_set = native, conversion_code_sets = sets \<rparr>))))))"

lemma safe_u32_loop: "4 * n \<le> m \<Longrightarrow> (\<And>x. safe E s 0 (k x)) \<Longrightarrow> safe E s m (rd_bind (rd_loop rd_u32 n) k)"
proof (induction n arbitrary: m k)
  case 0
  then show ?case by (simp add: safe_0)
next
  case (Suc n)
  show ?case
    unfolding rd_loop.simps rd_bind_assoc
    by (rule safe_u32_bind) (use Suc in simp_all)
qed

lemma safe_CodeSet_wide: "safe E s n CodeSet_wide"
  unfolding CodeSet_wide_def by (rule safe_u32_loop safe_steps | simp)+

lemma u32_loop_overruns:
  "length (r_mem c) < r_cur c + 4 * n \<Longrightarrow> 0 < n \<Longrightarrow> rd_loop rd_u32 n c = Inl Overrun"
proof (induction n arbitrary: c)
  case (Suc n)
  show ?case
  proof (cases "r_cur c + 4 \<le> length (r_mem c)")
    case True
    then have "0 < n" using Suc.prems by simp
    then show ?thesis using True Suc.IH[of "c\<lparr> r_cur := r_cur c + 4 \<rparr>"] Suc.prems
      by (simp add: rd_bind_def rd_u32_def rd_load_def rd_bytes_def rd_ret_def)
  qed (simp add: rd_bind_def rd_u32_def rd_load_def rd_bytes_def)
qed simp

section \<open>Agreement\<close>

text \<open>Somewhere in the block two integers announce 2^30 code sets or more.\<close>

definition announces_too_many :: "byte list \<Rightarrow> bool" where
  "announces_too_many m \<longleftrightarrow> (\<exists>p e native n. 2 ^ 30 \<le> unat n
     \<and> slice p 8 m = u32_bytes e native @ u32_bytes e n)"

definition inside :: "rbuf \<Rightarrow> bool" where
  "inside b \<longleftrightarrow> r_end b \<le> length (r_mem b) \<and> length (r_mem b) < 2 ^ 32"

definition alike :: "'a reader \<Rightarrow> 'a reader \<Rightarrow> bool" where
  "alike m1 m2 \<longleftrightarrow> (\<forall>b. inside b \<longrightarrow>
     m1 b = m2 b \<and> (\<forall>v b'. m2 b = Inr (v, b') \<longrightarrow> r_mem b' = r_mem b \<and> r_end b' = r_end b)
   \<or> m1 b = Inl Overrun \<and> m2 b = Inl Broken \<and> announces_too_many (r_mem b))"

lemma alikeD:
  assumes "alike m1 m2" "inside b"
  obtains (same) v b' where "m1 b = Inr (v, b')" "m2 b = Inr (v, b')" "inside b'" "r_mem b' = r_mem b" "r_end b' = r_end b"
    | (fail) e where "m1 b = Inl e" "m2 b = Inl e"
    | (over) "m1 b = Inl Overrun" "m2 b = Inl Broken" "announces_too_many (r_mem b)"
proof (cases "m1 b = m2 b")
  case True
  show thesis
  proof (cases "m2 b")
    case (Inl e)
    then show thesis using True fail by simp
  next
    case (Inr vb)
    then show thesis using True assms same[of "fst vb" "snd vb"]
      by (cases vb) (auto simp: alike_def inside_def)
  qed
next
  case False
  then show thesis using assms over by (auto simp: alike_def)
qed

lemma alike_bind:
  assumes m: "alike m1 m2" and k: "\<And>x. alike (k1 x) (k2 x)"
  shows "alike (rd_bind m1 k1) (rd_bind m2 k2)"
  unfolding alike_def
proof (intro allI impI)
  fix b assume b: "inside b"
  show "rd_bind m1 k1 b = rd_bind m2 k2 b
      \<and> (\<forall>v b'. rd_bind m2 k2 b = Inr (v, b') \<longrightarrow> r_mem b' = r_mem b \<and> r_end b' = r_end b)
    \<or> rd_bind m1 k1 b = Inl Overrun \<and> rd_bind m2 k2 b = Inl Broken \<and> announces_too_many (r_mem b)"
    using m b
  proof (cases rule: alikeD)
    case (same v b')
    from k[of v] same(3) show ?thesis
      by (cases rule: alikeD) (use same in \<open>simp_all add: rd_bind_def\<close>)
  qed (simp_all add: rd_bind_def)
qed

lemma alike_ret: "alike (rd_ret v) (rd_ret v)"
  by (simp add: alike_def rd_ret_def)

lemma alike_fail: "alike (rd_fail e) (rd_fail e)"
  by (simp add: alike_def rd_fail_def)

lemma alike_align: "alike (rd_align n) (rd_align n)"
  by (simp add: alike_def rd_align_def)

lemma alike_need: "alike (rd_need n) (rd_need n)"
  by (auto simp: alike_def rd_need_def split: if_splits)

lemma alike_bytes: "alike (rd_bytes n) (rd_bytes n)"
  by (auto simp: alike_def rd_bytes_def split: if_splits)

lemma alike_self: "(\<And>b. alike (f b) (g b)) \<Longrightarrow> alike (\<lambda>b. f b b) (\<lambda>b. g b b)"
  by (simp add: alike_def)

lemma alike_load: "alike (rd_load n swap) (rd_load n swap)"
proof -
  have "alike (\<lambda>b. rd_bind (rd_bytes n) (\<lambda>m. rd_ret (let w = mem_word (r_host b) m
      in if giop_msg_conversion_needed b then swap w else w)) b)
    (\<lambda>b. rd_bind (rd_bytes n) (\<lambda>m. rd_ret (let w = mem_word (r_host b) m
      in if giop_msg_conversion_needed b then swap w else w)) b)"
    by (rule alike_self) (rule alike_bind alike_bytes alike_ret)+
  moreover have "rd_load n swap = (\<lambda>b. rd_bind (rd_bytes n) (\<lambda>m. rd_ret (let w = mem_word (r_host b) m
      in if giop_msg_conversion_needed b then swap w else w)) b)"
    by (rule ext) (simp add: rd_load_def)
  ultimately show ?thesis by simp
qed

lemma alike_if: "(c \<Longrightarrow> alike m1 m2) \<Longrightarrow> (\<not> c \<Longrightarrow> alike k1 k2)
    \<Longrightarrow> alike (if c then m1 else k1) (if c then m2 else k2)"
  by simp

lemma alike_loop: "alike g1 g2 \<Longrightarrow> alike (rd_loop g1 n) (rd_loop g2 n)"
  by (induction n) (auto intro: alike_bind alike_ret)

text \<open>A step that goes on from another position.\<close>

lemma alike_moved:
  assumes "\<And>b. alike (f b) (g b)"
  shows "alike (\<lambda>b. f b (b\<lparr> r_cur := h b \<rparr>)) (\<lambda>b. g b (b\<lparr> r_cur := h b \<rparr>))"
  unfolding alike_def
proof (intro allI impI)
  fix b assume "inside b"
  then have "inside (b\<lparr> r_cur := h b \<rparr>)" by (simp add: inside_def)
  with assms[of b] show "f b (b\<lparr> r_cur := h b \<rparr>) = g b (b\<lparr> r_cur := h b \<rparr>)
      \<and> (\<forall>v b'. g b (b\<lparr> r_cur := h b \<rparr>) = Inr (v, b') \<longrightarrow> r_mem b' = r_mem b \<and> r_end b' = r_end b)
    \<or> f b (b\<lparr> r_cur := h b \<rparr>) = Inl Overrun \<and> g b (b\<lparr> r_cur := h b \<rparr>) = Inl Broken
      \<and> announces_too_many (r_mem b)"
    by (cases rule: alikeD) simp_all
qed

lemma alike_window:
  assumes m: "alike m1 m2" shows "alike (rd_window l m1) (rd_window l m2)"
  unfolding alike_def
proof (intro allI impI)
  fix b assume b: "inside b"
  show "rd_window l m1 b = rd_window l m2 b
      \<and> (\<forall>v b'. rd_window l m2 b = Inr (v, b') \<longrightarrow> r_mem b' = r_mem b \<and> r_end b' = r_end b)
    \<or> rd_window l m1 b = Inl Overrun \<and> rd_window l m2 b = Inl Broken \<and> announces_too_many (r_mem b)"
  proof (cases "r_cur b + l > r_end b \<or> r_cur b \<ge> length (r_mem b)")
    case True
    then show ?thesis
      by (auto simp: rd_window_def rd_bind_def rd_need_def giop_recv_buffer_use_encaps_def)
  next
    case False
    then obtain sub where sub: "giop_recv_buffer_use_encaps b (r_cur b) l = Inr sub"
        "r_mem sub = r_mem b" "r_end sub = r_cur b + l"
      by (simp add: giop_recv_buffer_use_encaps_def)
    then have "inside sub" using b False by (simp add: inside_def)
    with m show ?thesis
      by (cases rule: alikeD)
        (use False sub in \<open>simp_all add: rd_window_def rd_bind_def rd_need_def rd_sub_def\<close>)
  qed
qed

lemma alike_ulong: "alike rd_ulong rd_ulong"
  unfolding rd_ulong_def rd_u32_def by (rule alike_bind alike_align alike_need alike_load)+

lemma alike_encaps: "alike m1 m2 \<Longrightarrow> alike (rd_encaps m1) (rd_encaps m2)"
  unfolding rd_encaps_window by (rule alike_bind, rule alike_ulong, rule alike_window)

lemma alike_as_outer:
  assumes m: "alike m m" shows "alike (as_outer buf m) (as_outer buf m)"
  unfolding alike_def
proof (intro allI impI disjI1 conjI refl)
  fix b v b' assume b: "inside b" and r: "as_outer buf m b = Inr (v, b')"
  have "inside (b\<lparr> r_flags := r_flags buf \<rparr>)" using b by (simp add: inside_def)
  with m show "r_mem b' = r_mem b" "r_end b' = r_end b"
    by (cases rule: alikeD; use r in \<open>auto simp: as_outer_def\<close>)+
qed

lemmas alike_steps = alike_ret alike_fail alike_align alike_need alike_bytes alike_load alike_ulong
  alike_if alike_loop alike_encaps alike_as_outer alike_bind

section \<open>Object references\<close>

definition codeset_tail :: "(nat \<Rightarrow> u32 \<Rightarrow> nat) \<Rightarrow> u32 \<times> u32 \<Rightarrow> codeset reader" where
  "codeset_tail f = (\<lambda>(native, n). rd_bind (rd_need (f 4 n)) (\<lambda>_. rd_bind (rd_loop rd_u32 (unat n)) (\<lambda>sets.
     rd_ret \<lparr> native_code_set = native, conversion_code_sets = sets \<rparr>)))"

definition codeset_head :: "(u32 \<times> u32) reader" where
  "codeset_head = rd_bind (rd_need 8) (\<lambda>_. rd_bind rd_u32 (\<lambda>native. rd_bind rd_u32 (\<lambda>n. rd_ret (native, n))))"

lemma codeset_parts:
  "CodeSetComponent_demarshal = rd_bind (rd_align 4) (\<lambda>_. rd_bind codeset_head (codeset_tail (\<lambda>k n. unat (n * of_nat k))))"
  "CodeSet_wide = rd_bind (rd_align 4) (\<lambda>_. rd_bind codeset_head (codeset_tail (\<lambda>k n. k * unat n)))"
  by (simp_all add: CodeSetComponent_demarshal_def CodeSet_wide_def codeset_head_def codeset_tail_def rd_bind_assoc)

lemma codeset_head_reads:
  assumes r: "codeset_head b = Inr ((native, n), c)" and b: "inside b"
  shows "r_mem c = r_mem b" "r_end c = r_end b" "r_cur c = r_cur b + 8" "r_cur c \<le> r_end c"
    "\<exists>e. slice (r_cur b) 8 (r_mem b) = u32_bytes e native @ u32_bytes e n"
proof -
  let ?e = "flag_endian (r_flags b)" and ?p = "r_cur b"
  let ?x = "slice ?p 4 (r_mem b)" and ?y = "slice (?p + 4) 4 (r_mem b)"
  have fit: "?p + 8 \<le> r_end b"
    using r by (simp add: codeset_head_def rd_bind_def rd_need_def split: if_splits)
  have len: "length ?x = 4" "length ?y = 4" using fit b by (simp_all add: slice_length inside_def)
  obtain v w where vw: "?x = u32_bytes ?e v" "?y = u32_bytes ?e w"
    using four_bytes[OF len(1)] four_bytes[OF len(2)] by blast
  have s: "slice ?p 8 (r_mem b) = u32_bytes ?e v @ u32_bytes ?e w"
    using slice_add[of ?p 4 4 "r_mem b"] vw by simp
  have "parses codeset_head ?e ?p (u32_bytes ?e v @ u32_bytes ?e w) (v, w)"
    unfolding codeset_head_def
    by (intro parses_need parses_bind[OF parses_u32] parses_bind_ret[OF parses_u32]) simp_all
  moreover have "at_bytes ?p (u32_bytes ?e v @ u32_bytes ?e w) b"
    using fit b s by (simp add: at_bytes_def inside_def)
  ultimately have "codeset_head b = Inr ((v, w), b\<lparr> r_cur := ?p + 8 \<rparr>)"
    using parsesD by fastforce
  then show "r_mem c = r_mem b" "r_end c = r_end b" "r_cur c = r_cur b + 8" "r_cur c \<le> r_end c"
    "\<exists>e. slice (r_cur b) 8 (r_mem b) = u32_bytes e native @ u32_bytes e n"
    using r s fit by auto
qed

lemma codeset_tail_alike:
  assumes c: "inside c" "r_cur c \<le> r_end c"
  shows "codeset_tail (\<lambda>k n. unat (n * of_nat k)) (native, n) c = codeset_tail (\<lambda>k n. k * unat n) (native, n) c
    \<or> codeset_tail (\<lambda>k n. unat (n * of_nat k)) (native, n) c = Inl Overrun
      \<and> codeset_tail (\<lambda>k n. k * unat n) (native, n) c = Inl Broken \<and> 2 ^ 30 \<le> unat n"
proof (cases "unat n < 2 ^ 30")
  case True
  then have "unat (n * 4) = 4 * unat n"
    by (simp add: unat_word_ariths)
  then show ?thesis by (simp add: codeset_tail_def)
next
  case False
  then have "r_end c < r_cur c + 4 * unat n" "length (r_mem c) < r_cur c + 4 * unat n" "0 < unat n"
    using c by (simp_all add: inside_def)
  then show ?thesis
    using False u32_loop_overruns[of c "unat n"]
    by (simp add: codeset_tail_def rd_bind_def rd_need_def)
qed

lemma alike_codeset_tail: "alike (codeset_tail (\<lambda>k n. k * unat n) x) (codeset_tail (\<lambda>k n. k * unat n) x)"
  unfolding codeset_tail_def rd_u32_def case_prod_beta by (rule alike_steps)+

lemma alike_codeset_head: "alike codeset_head codeset_head"
  unfolding codeset_head_def rd_u32_def by (rule alike_steps)+

lemma alike_CodeSet: "alike CodeSetComponent_demarshal CodeSet_wide"
  unfolding codeset_parts
proof (rule alike_bind[OF alike_align])
  fix x :: unit
  let ?t = "codeset_tail (\<lambda>k n. unat (n * of_nat k))" and ?w = "codeset_tail (\<lambda>k n. k * unat n)"
  show "alike (rd_bind codeset_head ?t) (rd_bind codeset_head ?w)"
    unfolding alike_def
  proof (intro allI impI)
    fix b assume b: "inside b"
    show "rd_bind codeset_head ?t b = rd_bind codeset_head ?w b
        \<and> (\<forall>v b'. rd_bind codeset_head ?w b = Inr (v, b') \<longrightarrow> r_mem b' = r_mem b \<and> r_end b' = r_end b)
      \<or> rd_bind codeset_head ?t b = Inl Overrun \<and> rd_bind codeset_head ?w b = Inl Broken
        \<and> announces_too_many (r_mem b)"
    proof (cases "codeset_head b")
      case (Inr vb)
      then obtain native n c where r: "codeset_head b = Inr ((native, n), c)" by (metis surj_pair)
      have c: "inside c" "r_cur c \<le> r_end c" "r_mem c = r_mem b" "r_end c = r_end b"
        using codeset_head_reads[OF r b] b by (simp_all add: inside_def)
      have "r_mem b' = r_mem b \<and> r_end b' = r_end b" if "?w (native, n) c = Inr (v, b')" for v b'
        using alike_codeset_tail[of "(native, n)"] c(1) by (cases rule: alikeD[where b = c]) (use that c in auto)
      moreover have "announces_too_many (r_mem b)" if "2 ^ 30 \<le> unat n"
        using codeset_head_reads(5)[OF r b] that unfolding announces_too_many_def by blast
      ultimately show ?thesis
        using codeset_tail_alike[OF c(1,2), of native n] r by (auto simp: rd_bind_def)
    qed (simp add: rd_bind_def)
  qed
qed

lemma alike_u32: "alike rd_u32 rd_u32" unfolding rd_u32_def by (rule alike_load)
lemma alike_u16: "alike rd_u16 rd_u16" unfolding rd_u16_def by (rule alike_load)
lemma alike_byte: "alike rd_byte rd_byte" unfolding rd_byte_def by (rule alike_steps)+

lemmas alike_iop = alike_u32 alike_u16 alike_byte alike_CodeSet alike_steps

lemma alike_SSL: "alike IOP_TAG_SSL_SEC_TRANS_demarshal IOP_TAG_SSL_SEC_TRANS_demarshal"
  unfolding IOP_TAG_SSL_SEC_TRANS_demarshal_def by (rule alike_self) (rule alike_iop)+

lemma alike_GENERIC_SSL: "alike IOP_TAG_GENERIC_SSL_SEC_TRANS_demarshal IOP_TAG_GENERIC_SSL_SEC_TRANS_demarshal"
  unfolding IOP_TAG_GENERIC_SSL_SEC_TRANS_demarshal_def by (rule alike_self) (rule alike_iop)+

lemma alike_component:
  "alike (IOP_component_demarshal CodeSetComponent_demarshal) (IOP_component_demarshal CodeSet_wide)"
  unfolding IOP_component_demarshal_def IOP_TAG_COMPLETE_OBJECT_KEY_demarshal_def IOP_ObjectKey_demarshal_def
    IOP_TAG_CODE_SETS_demarshal_def IOP_UnknownComponent_demarshal_def
  by (rule alike_SSL alike_GENERIC_SSL alike_iop)+

lemma alike_string_block: "alike rd_string_block rd_string_block"
  unfolding rd_string_block_def by (rule alike_iop)+

lemma alike_version: "alike rd_version rd_version"
  unfolding rd_version_def by (rule alike_iop)+

lemma alike_port:
  "alike m m \<Longrightarrow> alike (\<lambda>buf. if r_cur buf + 2 > r_end buf then Inl Abort else m buf)
     (\<lambda>buf. if r_cur buf + 2 > r_end buf then Inl Abort else m buf)"
  by (simp add: alike_def)

lemma alike_profile:
  "alike (IOP_profile_demarshal CodeSetComponent_demarshal) (IOP_profile_demarshal CodeSet_wide)"
  unfolding IOP_profile_demarshal_def IOP_TAG_INTERNET_IOP_demarshal_def IOP_ObjectKey_demarshal_def
    IOP_TAG_GENERIC_IOP_demarshal_def IOP_TAG_MULTIPLE_COMPONENTS_demarshal_def
    IOP_UnknownProfile_demarshal_def IOP_TAG_MATECORBA_SPECIFIC_demarshal_def IOP_components_demarshal_def
  by (rule alike_port alike_component alike_string_block alike_version alike_iop)+

lemma alike_IOR:
  "alike (MateCORBA_demarshal_IOR CodeSetComponent_demarshal) (MateCORBA_demarshal_IOR CodeSet_wide)"
  unfolding MateCORBA_demarshal_IOR_def Let_def
  by (rule alike_bind, rule alike_align, rule alike_bind, rule alike_need, rule alike_bind, rule alike_u32,
      rule alike_bind, rule alike_need, rule alike_moved) (rule alike_profile alike_iop)+

end
