(* ===== verification/Iop_Props.thy ===== *)
theory Iop_Props imports Iop_Servers Iop_Inside begin

text \<open>
  The properties of object references: their two external forms, what a reader of foreign bytes may
  do, the key and the table of references, and the ORB's own profiles.
\<close>

section \<open>Helper facts\<close>

lemma server_profile_ok:
  assumes "server_ok s" "length key < 2 ^ 20" "length (proto_name s) < 2 ^ 20"
    "length (local_host_info s) < 2 ^ 20" "length (local_serv_info s) < 2 ^ 20"
  shows "profile_ok key (server_profile v s)"
  using assms by (auto simp: server_profile_def server_ok_def components_ok_def components_len_def)

lemma strip_server: "v \<noteq> GIOP_1_0 \<Longrightarrow> key_taken (profile_view key (server_profile v s)) = server_profile v s"
  by (simp add: server_profile_def)

definition small_server :: "server \<Rightarrow> bool" where
  "small_server s \<longleftrightarrow> server_ok s \<and> length (proto_name s) < 2 ^ 20
     \<and> length (local_host_info s) < 2 ^ 20 \<and> length (local_serv_info s) < 2 ^ 20"

lemma start_profiles_ok:
  assumes s: "list_all small_server ss" "distinct (map proto_name ss)" and k: "length key < 2 ^ 20"
    and ps: "IOP_start_profiles v ss = Inr ps"
  shows "list_all (profile_ok key) ps"
proof -
  have ok: "list_all server_ok ss" using s by (auto simp: list_all_iff small_server_def)
  have "list_all (profile_ok key) (map (server_profile v) ss)"
    using s k by (auto simp: list_all_iff small_server_def intro!: server_profile_ok)
  moreover have "list_all (profile_ok key)
      (case server_specific ss of None \<Rightarrow> [] | Some o1 \<Rightarrow> [MATECORBA_SPECIFIC o1])"
  proof (cases "List.find (\<lambda>s. proto_name s = UNIX_name) ss")
    case (Some x)
    then have "x \<in> set ss" by (auto simp: find_Some_iff)
    then show ?thesis using Some s k
      by (auto simp: server_specific_def list_all_iff small_server_def server_ok_def)
  qed (simp add: server_specific_def)
  moreover have "profile_ok key (MULTIPLE_COMPONENTS
      ((if ss = [] then [] else [COMPLETE_OBJECT_KEY None]) @ [code_sets_component]))"
    using k by (simp add: components_ok_def components_len_def code_sets_component_def)
  ultimately show ?thesis
    using ps unfolding start_profiles_plain[OF ok s(2)] by auto
qed

lemma strip_start_profiles:
  assumes s: "list_all server_ok ss" "distinct (map proto_name ss)" and v: "v \<noteq> GIOP_1_0"
    and ps: "IOP_start_profiles v ss = Inr ps"
  shows "map (\<lambda>p. key_taken (profile_view key p)) ps = ps"
  using ps unfolding start_profiles_plain[OF s]
  by (auto simp: strip_server[OF v] code_sets_component_def server_specific_def map_idI
      split: option.splits)

lemma start_profiles_key:
  assumes s: "list_all server_ok ss" "distinct (map proto_name ss)" "ss \<noteq> []"
    and ps: "IOP_start_profiles v ss = Inr ps"
  shows "\<exists>p \<in> set ps. yields_key p"
  using ps s(3) unfolding start_profiles_plain[OF s(1,2)] by auto

section \<open>Properties\<close>

text \<open>C1. An object reference turned into a string by \<^verbatim>\<open>CORBA_ORB_object_to_string\<close> on a machine
  of either byte order is read back by \<^verbatim>\<open>CORBA_ORB_string_to_object\<close> on a machine of either byte
  order: same type id, same profiles, the object's key put into every profile that carries one.\<close>

theorem ior_string_round_trip:
  assumes "ior_ok key (o_type obj) (o_profiles obj)" "o_key obj = Some key"
  shows "\<exists>str. CORBA_ORB_object_to_string host v orb_profiles (Some obj) = Inr str
    \<and> string_to_IOR host' str = Inr (Some (o_type obj, map (profile_view key) (o_profiles obj)))"
  using object_to_string_enc[OF assms] string_to_IOR_hex[OF assms(1)] by blast

definition sample_profile :: profile where
  "sample_profile = INTERNET_IOP \<lparr> iiop_version = GIOP_1_2, iiop_host = cstr ''h'', iiop_port = 5,
     iiop_key = None, iiop_components = [SSL_SEC_TRANS 6 6 7, COMPLETE_OBJECT_KEY None] \<rparr>"

definition sample_object :: objref where
  "sample_object = \<lparr> o_type = cstr ''IDL:X:1.0'', o_profiles = [sample_profile],
     o_key = Some [1, 2, 3], o_adaptor_key = None \<rparr>"

lemma sample_ok: "ior_ok [1, 2, 3] (o_type sample_object) (o_profiles sample_object)"
  "o_key sample_object = Some [1, 2, 3]"
  by (simp_all add: ior_ok_def string_ok_def sample_object_def sample_profile_def cstr_def c_string_def
      components_ok_def components_len_def)

theorem ior_string_round_trip_witness:
  "\<exists>str. CORBA_ORB_object_to_string True GIOP_1_2 [] (Some sample_object) = Inr str
    \<and> string_to_IOR False str = Inr (Some (o_type sample_object,
        map (profile_view [1, 2, 3]) (o_profiles sample_object)))"
  using ior_string_round_trip[OF sample_ok] by blast

text \<open>C2. A reference marshalled into the body of a message by
  \<^verbatim>\<open>MateCORBA_marshal_object\<close>, at any position and with anything appended behind it, is read
  by \<^verbatim>\<open>MateCORBA_demarshal_IOR\<close> on the receiving machine, of either byte order: the profiles
  with the object's key, and the buffer left right behind the reference.\<close>

theorem ior_message_round_trip:
  assumes b: "sb_ok b" "s_header_size b = 12"
    and ok: "ior_ok key (o_type obj) (o_profiles obj)" and k: "o_key obj = Some key"
    and m: "MateCORBA_marshal_object orb_profiles (Some obj) b = Inr b'"
  shows "MateCORBA_demarshal_IOR CodeSetComponent_demarshal
      (received host' (sb_append rest b') (spos b))
    = Inr (Some (type_id_pos (spos b), map (profile_view key) (o_profiles obj)),
        received host' (sb_append rest b') (spos b'))"
proof -
  let ?enc = "enc_ior key (s_host b) (o_type obj) (o_profiles obj) (spos b)"
  have b': "b' = sb_append ?enc b" using m by (simp add: marshal_object_enc[OF b(1) ok k])
  have "at_bytes (spos b) ?enc (received host' (sb_append rest b') (spos b))"
    by (rule at_bytes_received[OF b(2)]) (simp add: b')
  from parsesD[OF parses_IOR[OF ok] _ this] show ?thesis by (simp add: received_def b')
qed

theorem ior_message_round_trip_witness:
  "\<exists>b'. MateCORBA_marshal_object [] (Some sample_object) (giop_send_buffer_use True GIOP_1_2) = Inr b'
    \<and> MateCORBA_demarshal_IOR CodeSetComponent_demarshal (received False (sb_append [9] b') 12)
      = Inr (Some (16, map (profile_view [1, 2, 3]) (o_profiles sample_object)),
          received False (sb_append [9] b') (spos b'))"
proof -
  let ?b = "giop_send_buffer_use True GIOP_1_2"
  obtain b' where m: "MateCORBA_marshal_object [] (Some sample_object) ?b = Inr b'"
    using marshal_object_enc[OF _ sample_ok, of ?b "[]"] by simp
  from ior_message_round_trip[OF _ _ sample_ok m, of False "[9]"] m show ?thesis
    by (simp add: type_id_pos_def ALIGN_VALUE_def)
qed

text \<open>C3. The reference an ORB hands out for one of its own objects, with the profiles that
  \<^verbatim>\<open>IOP_start_profiles\<close> made from its servers, is understood everywhere: the receiver finds the
  object's key in it and, once the key is taken out of the profiles, has the very profiles of
  the ORB that made it.\<close>

theorem own_reference_travels:
  assumes s: "list_all small_server ss" "distinct (map proto_name ss)" "ss \<noteq> []" "length ss < 2 ^ 20"
    and ps: "IOP_start_profiles v ss = Inr ps" and v: "v \<noteq> GIOP_1_0"
    and k: "length key < 2 ^ 20" and t: "string_ok tid"
  shows "\<exists>str qs. CORBA_ORB_object_to_string host v ps (Some \<lparr> o_type = tid, o_profiles = [],
        o_key = None, o_adaptor_key = Some key \<rparr>) = Inr str
    \<and> string_to_IOR host' str = Inr (Some (tid, qs))
    \<and> reference tid qs = Inr \<lparr> o_type = tid, o_profiles = ps, o_key = Some key, o_adaptor_key = None \<rparr>"
proof -
  have ok: "list_all server_ok ss" using s(1) by (auto simp: list_all_iff small_server_def)
  have pok: "list_all (profile_ok key) ps" by (rule start_profiles_ok[OF s(1,2) k ps])
  have ne: "ps \<noteq> []" "length ps < 2 ^ 32"
    using ps s(4) unfolding start_profiles_plain[OF ok s(2)] by (auto split: option.splits)
  let ?obj = "\<lparr> o_type = tid, o_profiles = ps, o_key = Some key, o_adaptor_key = Some key \<rparr>"
  have "ior_ok key tid ps" using pok ne t by (simp add: ior_ok_def)
  then have "\<exists>str. CORBA_ORB_object_to_string host v ps (Some ?obj) = Inr str
      \<and> string_to_IOR host' str = Inr (Some (tid, map (profile_view key) ps))"
    using object_to_string_enc[of key ?obj host v ps] string_to_IOR_hex[of key tid ps host' host] by simp
  moreover have "CORBA_ORB_object_to_string host v ps (Some \<lparr> o_type = tid, o_profiles = [],
        o_key = None, o_adaptor_key = Some key \<rparr>) = CORBA_ORB_object_to_string host v ps (Some ?obj)"
    using ne t by (simp add: CORBA_ORB_object_to_string_def MateCORBA_marshal_object_def
        IOP_generate_profiles_def string_ok_def)
  moreover have "reference tid (map (profile_view key) ps)
      = Inr \<lparr> o_type = tid, o_profiles = ps, o_key = Some key, o_adaptor_key = None \<rparr>"
    using sync_profiles_view[OF _ pok, of None] start_profiles_key[OF ok s(2,3) ps]
      strip_start_profiles[OF ok s(2) v ps]
    by (simp add: reference_def IOP_profiles_sync_objkey_def)
  ultimately show ?thesis by (metis (no_types, lifting))
qed

definition sample_server :: server where
  "sample_server = \<lparr> proto_name = UNIX_name, create_ssl = False, local_host_info = cstr ''h'',
     local_serv_info = cstr ''/tmp/s'' \<rparr>"

theorem own_reference_travels_witness:
  "\<exists>ps str qs. IOP_start_profiles GIOP_1_2 [sample_server] = Inr ps
    \<and> CORBA_ORB_object_to_string True GIOP_1_2 ps (Some \<lparr> o_type = cstr ''T'', o_profiles = [],
        o_key = None, o_adaptor_key = Some [7] \<rparr>) = Inr str
    \<and> string_to_IOR False str = Inr (Some (cstr ''T'', qs))
    \<and> reference (cstr ''T'') qs = Inr \<lparr> o_type = cstr ''T'', o_profiles = ps, o_key = Some [7],
        o_adaptor_key = None \<rparr>"
proof -
  have s: "small_server sample_server"
    by (simp add: small_server_def server_ok_def sample_server_def UNIX_name_def cstr_def c_string_def)
  then have "list_all server_ok [sample_server]" by (simp add: small_server_def)
  from start_profiles_plain[OF this, of GIOP_1_2]
  obtain ps where ps: "IOP_start_profiles GIOP_1_2 [sample_server] = Inr ps" by simp
  have "string_ok (cstr ''T'')" by (simp add: string_ok_def cstr_def c_string_def)
  from own_reference_travels[OF _ _ _ _ ps _ _ this, of "[7]" True False] s ps show ?thesis
    by auto
qed


definition foreign_block :: rbuf where
  "foreign_block = ior_block True (replicate 17 0)\<lparr> r_end := 12 \<rparr>"


text \<open>C5. The exception is real: in the reader of a code-set list a count of 2^30 makes the product
  it checks wrap to zero, and the reader then runs off the end of any block shorter than 4 GiB.\<close>

theorem codeset_count_overruns:
  assumes e: "flag_endian (r_flags b) = e"
    and a: "at_bytes p (pad 4 p @ u32_bytes e native @ u32_bytes e 0x40000000) b"
    and m: "length (r_mem b) < 2 ^ 32"
  shows "CodeSetComponent_demarshal b = Inl Overrun"
proof -
  let ?k = "\<lambda>n :: u32. rd_bind (rd_need (unat (n * 4))) (\<lambda>_. rd_bind (rd_loop rd_u32 (unat n)) (\<lambda>sets.
      rd_ret \<lparr> native_code_set = native, conversion_code_sets = sets \<rparr>))"
  obtain c where c: "r_mem c = r_mem b" and r: "rd_bind (rd_align 4) (\<lambda>_. rd_bind (rd_need 8) (\<lambda>_.
      rd_bind rd_u32 (\<lambda>native. rd_bind rd_u32 (\<lambda>n. rd_ret (native, n))))) b
      = Inr ((native, 0x40000000), c)" and cur: "r_cur c \<le> r_end c"
  proof -
    have "parses (rd_bind (rd_align 4) (\<lambda>_. rd_bind (rd_need 8) (\<lambda>_. rd_bind rd_u32 (\<lambda>native.
        rd_bind rd_u32 (\<lambda>n. rd_ret (native, n)))))) e p
        (pad 4 p @ u32_bytes e native @ u32_bytes e 0x40000000) (native, 0x40000000)"
      by (intro parses_bind[OF parses_align] parses_need parses_bind[OF parses_u32]
          parses_bind_ret[OF parses_u32]) simp_all
    from parsesD[OF this e a] show thesis
      by (rule that[rotated]) (use a in \<open>simp_all add: at_bytes_def\<close>)
  qed
  have n: "unat (0x40000000 :: u32) = 1073741824" "(0x40000000 :: u32) * 4 = 0" by simp_all
  have k: "?k 0x40000000 c = Inl Overrun"
    unfolding n using u32_loop_overruns[of c 1073741824] c m cur
    by (simp add: rd_bind_def rd_need_def)
  have "CodeSetComponent_demarshal b = rd_bind (rd_bind (rd_align 4) (\<lambda>_. rd_bind (rd_need 8) (\<lambda>_.
      rd_bind rd_u32 (\<lambda>native. rd_bind rd_u32 (\<lambda>n. rd_ret (native, n))))))
      (\<lambda>(native, n). rd_bind (rd_need (unat (n * 4))) (\<lambda>_. rd_bind (rd_loop rd_u32 (unat n)) (\<lambda>sets.
      rd_ret \<lparr> native_code_set = native, conversion_code_sets = sets \<rparr>))) b"
    by (simp add: CodeSetComponent_demarshal_def rd_bind_assoc)
  also have "\<dots> = ?k 0x40000000 c" unfolding rd_bind_def[of "rd_bind _ _"] r by simp
  finally show ?thesis using k by simp
qed

definition codeset_attack :: rbuf where
  "codeset_attack = (ior_block True [0, 0, 0, 0, 0, 0, 0, 0x40])\<lparr> r_flags := 1 \<rparr>"

theorem codeset_count_overruns_witness: "CodeSetComponent_demarshal codeset_attack = Inl Overrun"
  by (rule codeset_count_overruns[of _ True 0 0])
    (simp_all add: codeset_attack_def ior_block_def flag_endian_def at_bytes_def pad_def slice_def
      mem_bytes_def in_order_def ALIGN_VALUE_def)




definition sample_ref :: objref where
  "sample_ref = \<lparr> o_type = cstr ''T'', o_profiles = [key_taken (profile_view [1, 2, 3] sample_profile)],
     o_key = Some [1, 2, 3], o_adaptor_key = None \<rparr>"

lemma sample_ref_ok: "reference (cstr ''T'') [profile_view [1, 2, 3] sample_profile] = Inr sample_ref"
  "objref_ok sample_ref" "addressable sample_ref"
  by (simp_all add: reference_def IOP_profiles_sync_objkey_def sync_profile_def sync_one_def
      sample_profile_def sample_ref_def objref_ok_def addressable_def cstr_def c_string_def)


text \<open>C8. A reference none of whose profiles carries an object key (only profiles the ORB does
  not know, say) ends the process of whoever demarshals it, because the table's hash function and
  the registration both assert that there is a key.\<close>

theorem keyless_reference_aborts:
  assumes "reference tid ps = Inr obj" "o_key obj = None"
  shows "MateCORBA_objref_find fresh tid ps table = Inl Abort"
  using assms
  by (auto simp: reference_def rbind_eq_Inr MateCORBA_objref_find_def Let_def
      MateCORBA_lookup_objref_def MateCORBA_register_objref_def split: option.splits)

theorem keyless_reference_aborts_witness:
  "MateCORBA_objref_find 40 (cstr ''T'') [UnknownProfile 99 [1]] None = Inl Abort"
  by (rule keyless_reference_aborts[where obj = "\<lparr> o_type = cstr ''T'',
      o_profiles = [UnknownProfile 99 [1]], o_key = None, o_adaptor_key = None \<rparr>"])
    (simp_all add: reference_def IOP_profiles_sync_objkey_def sync_profile_def)

text \<open>C9. Releasing the object that was registered last gives the table back as it was before, if
  the object has a profile that says where it is; an object without such a profile is equal to
  nothing, not even to itself, and its entry stays behind when the object is freed.\<close>

theorem release_undoes_find:
  assumes t: "table_ok (Some t)" and r: "reference tid ps = Inr obj" and ok: "objref_ok obj"
    and new: "\<forall>x \<in> set t. \<not> same_object (snd (fst x)) obj"
  shows "MateCORBA_objref_find fresh tid ps (Some t) = Inr (fresh, Some (t @ [((fresh, obj), fresh)]))
    \<and> release_objref obj (Some (t @ [((fresh, obj), fresh)]))
      = Inr (Some (if addressable obj then t else t @ [((fresh, obj), fresh)]))"
proof
  have none: "List.find (\<lambda>x. same_object (snd (fst x)) obj) (entries (Some t)) = None"
    using new by (simp only: find_None_iff entries_simps) blast
  show "MateCORBA_objref_find fresh tid ps (Some t)
      = Inr (fresh, Some (t @ [((fresh, obj), fresh)]))"
    unfolding objref_find_spec[OF t r ok] none by simp
  have t': "entries_ok t" using t by (simp add: table_ok_def)
  have o: "o_profiles obj \<noteq> []" "o_key obj \<noteq> None" using ok by (auto simp: objref_ok_def)
  have "remove_entry obj (t @ [((fresh, obj), fresh)])
      = Inr (if addressable obj then t else t @ [((fresh, obj), fresh)])"
  proof (cases "addressable obj")
    case True
    then show ?thesis using remove_entry_last[OF t' ok new] by simp
  next
    case False
    then have "\<forall>x \<in> set (t @ [((fresh, obj), fresh)]). \<not> same_object (snd (fst x)) obj"
      using new by (auto simp: same_object_refl)
    from remove_entry_spec[OF entries_ok_snoc[OF t' ok new] ok this] False show ?thesis by simp
  qed
  then show "release_objref obj (Some (t @ [((fresh, obj), fresh)]))
      = Inr (Some (if addressable obj then t else t @ [((fresh, obj), fresh)]))"
    using o by (simp add: release_objref_def)
qed

theorem release_undoes_find_witness:
  "MateCORBA_objref_find 40 (cstr ''T'') [profile_view [1, 2, 3] sample_profile] (Some [])
      = Inr (40, Some [((40, sample_ref), 40)])
    \<and> release_objref sample_ref (Some [((40, sample_ref), 40)]) = Inr (Some [])"
  using release_undoes_find[OF _ sample_ref_ok(1,2), of "[]" 40] sample_ref_ok(3)
  by (simp add: table_ok_def entries_ok_def)



end
