(* ===== verification/Send_Iovec.thy ===== *)
theory Send_Iovec imports Send_Buffer begin

text \<open>
  The send buffer of \<^verbatim>\<open>giop-send-buffer.c\<close> as it is: a growing array of iovecs that point into
  the message header, into the buffer's own chunks of memory, or into memory of the caller that is
  queued without being copied. The refinement at the end shows that what is queued is what the
  operations of \<^verbatim>\<open>Send_Buffer\<close> append, that bytes once queued are never written over, and
  that no write leaves its chunk.
\<close>

section \<open>Memory and the buffer\<close>

datatype block = Header | Chunk nat | Caller nat

type_synonym ptr = "block \<times> nat"

definition ptr_add :: "ptr \<Rightarrow> nat \<Rightarrow> ptr" where
  "ptr_add p n = (fst p, snd p + n)"

definition GIOP_CHUNK_SIZE :: nat where "GIOP_CHUNK_SIZE = 8 * 256"

text \<open>
  \<open>num_used\<close> is the length of \<open>iovecs\<close>, \<open>num_indirects_alloced\<close> the length of \<open>indirects\<close>, whose
  elements are the contents of the chunks; fresh memory holds \<open>junk\<close>. \<open>lastptr\<close> is \<open>None\<close> for NULL.
  \<open>msg_header\<close> is the header in front of its size field, which is \<open>msg_size\<close> in the order of the host.
\<close>

record GIOPSendBuffer =
  msg_host :: endian
  msg_header :: "byte list"
  msg_size :: u32
  iovecs :: "(ptr \<times> nat) list"
  num_alloced :: nat
  lastptr :: "ptr option"
  indirect :: ptr
  indirect_left :: nat
  indirects :: "byte list list"
  num_indirects_used :: nat
  header_size :: nat
  junk :: byte

definition num_used :: "GIOPSendBuffer \<Rightarrow> nat" where
  "num_used b = length (iovecs b)"

text \<open>What a pointer shows, given the caller's memory.\<close>

fun block_bytes :: "(nat \<Rightarrow> byte list) \<Rightarrow> GIOPSendBuffer \<Rightarrow> block \<Rightarrow> byte list" where
  "block_bytes caller b Header = msg_header b @ u32_bytes (msg_host b) (msg_size b)"
| "block_bytes caller b (Chunk i) = (if i < length (indirects b) then indirects b ! i else [])"
| "block_bytes caller b (Caller i) = caller i"

definition iov_bytes :: "(nat \<Rightarrow> byte list) \<Rightarrow> GIOPSendBuffer \<Rightarrow> ptr \<times> nat \<Rightarrow> byte list" where
  "iov_bytes caller b v = slice (snd (fst v)) (snd v) (block_bytes caller b (fst (fst v)))"

text \<open>What \<^verbatim>\<open>link_connection_writev\<close> is given to send.\<close>

definition queued :: "(nat \<Rightarrow> byte list) \<Rightarrow> GIOPSendBuffer \<Rightarrow> byte list" where
  "queued caller b = concat (map (iov_bytes caller b) (iovecs b))"

section \<open>Operations\<close>

definition giop_send_buffer_append_real :: "ptr \<Rightarrow> nat \<Rightarrow> GIOPSendBuffer \<Rightarrow> GIOPSendBuffer" where
  "giop_send_buffer_append_real mem len b =
    (let b = (if num_used b \<noteq> 0 \<and> Some mem = lastptr b
           then b\<lparr> iovecs := butlast (iovecs b) @ [(fst (last (iovecs b)), snd (last (iovecs b)) + len)] \<rparr>
           else let b = (if num_used b \<ge> num_alloced b
                    then b\<lparr> num_alloced := max (num_alloced b) 4 * 2 \<rparr> else b)
                in b\<lparr> iovecs := iovecs b @ [(mem, len)] \<rparr>)
     in b\<lparr> msg_size := msg_size b + of_nat len, lastptr := Some (ptr_add mem len) \<rparr>)"

definition get_next_indirect :: "nat \<Rightarrow> GIOPSendBuffer \<Rightarrow> GIOPSendBuffer" where
  "get_next_indirect for_size_hint b =
    (let m = num_indirects_used b;
         b = (if m \<ge> length (indirects b)
           then let new_size = (if for_size_hint \<noteq> 0
                    then max ((for_size_hint + 7) div 8 * 8) GIOP_CHUNK_SIZE else GIOP_CHUNK_SIZE)
                in b\<lparr> indirects := indirects b @ [replicate new_size (junk b)] \<rparr>
           else b)
     in b\<lparr> indirect := (Chunk m, 0), indirect_left := length (indirects b ! m),
          num_indirects_used := m + 1 \<rparr>)"

text \<open>
  Writing to the chunk at \<^verbatim>\<open>indirect\<close>, queueing what was written, and stepping over it. Before
  the first chunk exists \<^verbatim>\<open>indirect\<close> is NULL, and queueing nothing there fails the assertion of
  \<^verbatim>\<open>giop_send_buffer_append_real\<close>.
\<close>

definition write_indirect :: "byte list \<Rightarrow> GIOPSendBuffer \<Rightarrow> GIOPSendBuffer res" where
  "write_indirect bs b = (if bs = [] then (if indirects b = [] then Inl Abort else Inr b)
   else case indirect b of
     (Chunk i, off) \<Rightarrow>
       if i < length (indirects b) \<and> off + length bs \<le> length (indirects b ! i)
       then Inr (b\<lparr> indirects := (indirects b)[i := take off (indirects b ! i) @ bs
              @ drop (off + length bs) (indirects b ! i)] \<rparr>)
       else Inl Overrun
   | _ \<Rightarrow> Inl Overrun)"

definition queue_indirect :: "byte list \<Rightarrow> GIOPSendBuffer \<Rightarrow> GIOPSendBuffer res" where
  "queue_indirect bs b = rbind (write_indirect bs b) (\<lambda>b.
     let b' = giop_send_buffer_append_real (indirect b) (length bs) b
     in Inr (b'\<lparr> indirect := ptr_add (indirect b) (length bs),
          indirect_left := indirect_left b - length bs \<rparr>))"

definition giop_send_buffer_append_copy :: "byte list \<Rightarrow> GIOPSendBuffer \<Rightarrow> GIOPSendBuffer res" where
  "giop_send_buffer_append_copy bs b = queue_indirect bs
     (if indirect_left b < length bs then get_next_indirect (length bs) b else b)"

text \<open>
  \<^verbatim>\<open>giop_send_buffer_append\<close>: up to 32 bytes are copied, longer blocks are queued where they
  are. \<open>caller\<close> is the memory at the time of the call.
\<close>

definition giop_send_buffer_append ::
  "(nat \<Rightarrow> byte list) \<Rightarrow> nat \<Rightarrow> nat \<Rightarrow> nat \<Rightarrow> GIOPSendBuffer \<Rightarrow> GIOPSendBuffer res" where
  "giop_send_buffer_append caller i off len b = (if len \<le> 32
     then giop_send_buffer_append_copy (slice off len (caller i)) b
     else Inr (giop_send_buffer_append_real (Caller i, off) len b))"

definition giop_send_buffer_align :: "nat \<Rightarrow> GIOPSendBuffer \<Rightarrow> GIOPSendBuffer res" where
  "giop_send_buffer_align boundary b =
    (let ms = unat (msg_size b + of_nat (header_size b));
         align_amt = ALIGN_VALUE ms boundary - ms
     in if align_amt \<noteq> 0 then queue_indirect (replicate align_amt 0)
          (if indirect_left b < align_amt then get_next_indirect 0 b else b)
        else Inr b)"

text \<open>\<open>None\<close> is the NULL that asks for zeroed space; the result comes with the address written to.\<close>

definition giop_send_buffer_append_aligned ::
  "byte list option \<Rightarrow> nat \<Rightarrow> GIOPSendBuffer \<Rightarrow> (ptr \<times> GIOPSendBuffer) res" where
  "giop_send_buffer_append_aligned mem align_len b = rbind (giop_send_buffer_align align_len b) (\<lambda>b.
     let b = (if indirect_left b < align_len then get_next_indirect 0 b else b)
     in rbind (queue_indirect (case mem of Some bs \<Rightarrow> bs | None \<Rightarrow> replicate align_len 0) b) (\<lambda>b'.
        Inr (indirect b, b')))"

definition giop_send_buffer_append_string ::
  "endian \<Rightarrow> (nat \<Rightarrow> byte list) \<Rightarrow> nat \<Rightarrow> GIOPSendBuffer \<Rightarrow> GIOPSendBuffer res" where
  "giop_send_buffer_append_string host caller i b =
    (let len = of_nat (length (c_text (caller i)) + 1) :: u32
     in rbind (giop_send_buffer_align 4 b) (\<lambda>b.
        if indirect_left b \<ge> 4 + unat len
        then queue_indirect (u32_bytes host len @ slice 0 (unat len) (caller i)) b
        else rbind (giop_send_buffer_append_copy (u32_bytes host len) b)
          (giop_send_buffer_append caller i 0 (unat len))))"

text \<open>
  \<^verbatim>\<open>giop_send_buffer_unuse\<close> gives oversized chunks back their usual size and pools the buffer;
  \<^verbatim>\<open>giop_send_buffer_use\<close> takes a pooled buffer, chunks and iovec array included, or makes a
  new one. \<open>blank\<close> is \<^verbatim>\<open>giop_blank_wire_data\<close>.
\<close>

definition giop_send_buffer_unuse :: "GIOPSendBuffer \<Rightarrow> GIOPSendBuffer" where
  "giop_send_buffer_unuse b = b\<lparr> indirects :=
     map (\<lambda>c. if length c > GIOP_CHUNK_SIZE then take GIOP_CHUNK_SIZE c else c)
       (take (num_indirects_used b) (indirects b)) @ drop (num_indirects_used b) (indirects b) \<rparr>"

definition giop_send_buffer_use_from ::
  "bool \<Rightarrow> byte \<Rightarrow> GIOPSendBuffer option \<Rightarrow> endian \<Rightarrow> GIOPVersion \<Rightarrow> GIOPSendBuffer" where
  "giop_send_buffer_use_from blank fill pool host v =
    (let b = (case pool of
         Some b \<Rightarrow> b\<lparr> iovecs := [], indirect_left := 0, num_indirects_used := 0,
           indirects := (if blank then map (\<lambda>c. replicate (length c) 0)
               (take (num_indirects_used b) (indirects b)) @ drop (num_indirects_used b) (indirects b)
             else indirects b) \<rparr>
       | None \<Rightarrow> \<lparr> msg_host = host, msg_header = giop_magic @ [0, 0] @ [GIOP_FLAG_ENDIANNESS host, 0],
           msg_size = 0, iovecs = [], num_alloced = 8, lastptr = None,
           indirect = (Chunk 0, 0), indirect_left = 0, indirects = [], num_indirects_used = 0,
           header_size = 0, junk = fill \<rparr>);
       b = b\<lparr> msg_header := take 4 (msg_header b) @ giop_version_ids v @ drop 6 (msg_header b) \<rparr>;
       b = giop_send_buffer_append_real (Header, 0) 12 b
     in b\<lparr> msg_size := 0, header_size := 12 \<rparr>)"

section \<open>What an operation may rely on\<close>

text \<open>The bytes behind the header, and how much of a chunk has been handed out.\<close>

fun data :: "(nat \<Rightarrow> byte list) \<Rightarrow> byte list list \<Rightarrow> ptr \<times> nat \<Rightarrow> byte list" where
  "data caller chunks ((Header, off), len) = []"
| "data caller chunks ((Chunk i, off), len) =
     slice off len (if i < length chunks then chunks ! i else [])"
| "data caller chunks ((Caller i, off), len) = slice off len (caller i)"

definition outq :: "(nat \<Rightarrow> byte list) \<Rightarrow> GIOPSendBuffer \<Rightarrow> byte list" where
  "outq caller b = concat (map (data caller (indirects b)) (iovecs b))"

definition handed_out :: "GIOPSendBuffer \<Rightarrow> nat \<Rightarrow> nat" where
  "handed_out b i = (if Suc i = num_indirects_used b then snd (indirect b)
     else if Suc i < num_indirects_used b then length (indirects b ! i) else 0)"

fun in_block :: "(nat \<Rightarrow> byte list) \<Rightarrow> GIOPSendBuffer \<Rightarrow> ptr \<times> nat \<Rightarrow> bool" where
  "in_block caller b ((Header, off), len) \<longleftrightarrow> off = 0 \<and> len = 12"
| "in_block caller b ((Chunk i, off), len) \<longleftrightarrow> off + len \<le> handed_out b i \<and> i < num_indirects_used b"
| "in_block caller b ((Caller i, off), len) \<longleftrightarrow> off + len \<le> length (caller i)"

definition chunks_ok :: "GIOPSendBuffer \<Rightarrow> bool" where
  "chunks_ok b \<longleftrightarrow> num_indirects_used b \<le> length (indirects b)
     \<and> (\<forall>c \<in> set (indirects b). GIOP_CHUNK_SIZE \<le> length c)
     \<and> (if num_indirects_used b = 0 then indirect_left b = 0
        else fst (indirect b) = Chunk (num_indirects_used b - 1)
          \<and> snd (indirect b) + indirect_left b = length (indirects b ! (num_indirects_used b - 1)))"

definition iovecs_ok :: "(nat \<Rightarrow> byte list) \<Rightarrow> GIOPSendBuffer \<Rightarrow> bool" where
  "iovecs_ok caller b \<longleftrightarrow> (\<forall>v \<in> set (iovecs b). in_block caller b v)
     \<and> (\<forall>v \<in> set (tl (iovecs b)). fst (fst v) \<noteq> Header)
     \<and> (iovecs b \<noteq> [] \<longrightarrow> lastptr b = Some (ptr_add (fst (last (iovecs b))) (snd (last (iovecs b)))))
     \<and> length (iovecs b) \<le> num_alloced b"

definition send_ok :: "(nat \<Rightarrow> byte list) \<Rightarrow> GIOPSendBuffer \<Rightarrow> bool" where
  "send_ok caller b \<longleftrightarrow> chunks_ok b \<and> iovecs_ok caller b"

lemma append_real_sel [simp]:
  "msg_header (giop_send_buffer_append_real p n b) = msg_header b"
  "msg_host (giop_send_buffer_append_real p n b) = msg_host b"
  "msg_size (giop_send_buffer_append_real p n b) = msg_size b + of_nat n"
  "indirect (giop_send_buffer_append_real p n b) = indirect b"
  "indirect_left (giop_send_buffer_append_real p n b) = indirect_left b"
  "indirects (giop_send_buffer_append_real p n b) = indirects b"
  "num_indirects_used (giop_send_buffer_append_real p n b) = num_indirects_used b"
  "header_size (giop_send_buffer_append_real p n b) = header_size b"
  "junk (giop_send_buffer_append_real p n b) = junk b"
  by (simp_all add: giop_send_buffer_append_real_def Let_def)

lemma append_real_iovecs:
  "iovecs (giop_send_buffer_append_real p n b)
    = (if num_used b \<noteq> 0 \<and> Some p = lastptr b
       then butlast (iovecs b) @ [(fst (last (iovecs b)), snd (last (iovecs b)) + n)]
       else iovecs b @ [(p, n)])"
  by (simp add: giop_send_buffer_append_real_def Let_def)

lemma data_split: "data caller c (q, l + n) = data caller c (q, l) @ data caller c (ptr_add q l, n)"
  by (cases q; cases "fst q") (auto simp: ptr_add_def slice_add)

text \<open>Queueing a piece of memory, whether or not it continues the last piece.\<close>

lemma append_real_outq:
  assumes ok: "iovecs_ok caller b"
  shows "outq caller (giop_send_buffer_append_real p n b)
    = outq caller b @ data caller (indirects b) (p, n)"
proof (cases "num_used b \<noteq> 0 \<and> Some p = lastptr b")
  case True
  then obtain vs q l where vs: "iovecs b = vs @ [(q, l)]"
    by (metis append_butlast_last_id surj_pair num_used_def list.size(3))
  have "p = ptr_add q l" using True ok vs by (simp add: iovecs_ok_def)
  then show ?thesis using True vs by (simp add: outq_def append_real_iovecs data_split)
next
  case False
  then show ?thesis by (simp only: outq_def append_real_iovecs append_real_sel if_False) simp
qed

lemma in_block_split:
  "in_block caller b (q, l) \<Longrightarrow> in_block caller b (ptr_add q l, n) \<Longrightarrow> fst q \<noteq> Header \<Longrightarrow>
     in_block caller b (q, l + n)"
  by (cases q; cases "fst q") (auto simp: ptr_add_def)

lemma append_real_iovecs_ok:
  assumes ok: "iovecs_ok caller b" and p: "fst p \<noteq> Header \<or> iovecs b = []" "in_block caller b (p, n)"
  shows "iovecs_ok caller (giop_send_buffer_append_real p n b)"
proof -
  have in': "in_block caller (giop_send_buffer_append_real p n b) v = in_block caller b v" for v
    by (cases "(caller, b, v)" rule: in_block.cases) (auto simp: handed_out_def)
  show ?thesis
  proof (cases "num_used b \<noteq> 0 \<and> Some p = lastptr b")
    case True
    then obtain vs q l where vs: "iovecs b = vs @ [(q, l)]"
      by (metis append_butlast_last_id surj_pair num_used_def list.size(3))
    have pq: "p = ptr_add q l" using True ok vs by (simp add: iovecs_ok_def)
    then have q: "fst q \<noteq> Header" using p True by (simp add: ptr_add_def num_used_def)
    have inq: "in_block caller b (q, l + n)"
      using ok vs p(2) q unfolding pq by (intro in_block_split) (auto simp: iovecs_ok_def)
    have tl: "\<forall>v \<in> set (tl (vs @ [(q, l + n)])). fst (fst v) \<noteq> Header"
      using ok vs by (cases vs) (auto simp: iovecs_ok_def)
    show ?thesis
      using True vs ok inq tl unfolding iovecs_ok_def in'
      by (simp add: append_real_iovecs giop_send_buffer_append_real_def Let_def pq ptr_add_def add.assoc)
  next
    case False
    have tl: "\<forall>v \<in> set (tl (iovecs b @ [(p, n)])). fst (fst v) \<noteq> Header"
      using ok p(1) by (cases "iovecs b") (auto simp: iovecs_ok_def)
    have alloc: "Suc (length (iovecs b)) \<le> num_alloced (giop_send_buffer_append_real p n b)"
      using False ok by (auto simp: giop_send_buffer_append_real_def Let_def iovecs_ok_def num_used_def)
    have last: "lastptr (giop_send_buffer_append_real p n b) = Some (ptr_add p n)"
      by (simp add: giop_send_buffer_append_real_def Let_def)
    have iov: "iovecs (giop_send_buffer_append_real p n b) = iovecs b @ [(p, n)]"
      using False unfolding append_real_iovecs by (simp only: if_False)
    show ?thesis
      using ok tl alloc last p(2) unfolding iovecs_ok_def in' iov by (auto simp: ptr_add_def)
  qed
qed

text \<open>The header is never extended by what follows it.\<close>

lemma append_real_headers:
  assumes ok: "iovecs_ok caller b" and p: "fst p \<noteq> Header"
  shows "filter (\<lambda>v. fst (fst v) = Header) (iovecs (giop_send_buffer_append_real p n b))
    = filter (\<lambda>v. fst (fst v) = Header) (iovecs b)"
proof (cases "num_used b \<noteq> 0 \<and> Some p = lastptr b")
  case True
  then obtain vs q l where vs: "iovecs b = vs @ [(q, l)]"
    by (metis append_butlast_last_id surj_pair num_used_def list.size(3))
  have "p = ptr_add q l" using True ok vs by (simp add: iovecs_ok_def)
  then show ?thesis using True vs p by (simp add: append_real_iovecs ptr_add_def)
next
  case False
  then show ?thesis using p unfolding append_real_iovecs by (simp only: if_False) simp
qed

lemma append_real_chunks_ok [simp]: "chunks_ok (giop_send_buffer_append_real p n b) \<longleftrightarrow> chunks_ok b"
  by (simp add: chunks_ok_def)

section \<open>Chunks\<close>

text \<open>
  Moving on to the next chunk leaves what has been queued in the old one where it is, and the new
  one has room for \<open>GIOP_CHUNK_SIZE\<close> bytes.
\<close>

lemma next_indirect_sel [simp]:
  "msg_header (get_next_indirect h b) = msg_header b" "msg_host (get_next_indirect h b) = msg_host b"
  "msg_size (get_next_indirect h b) = msg_size b" "iovecs (get_next_indirect h b) = iovecs b"
  "lastptr (get_next_indirect h b) = lastptr b" "header_size (get_next_indirect h b) = header_size b"
  "num_alloced (get_next_indirect h b) = num_alloced b"
  "num_indirects_used (get_next_indirect h b) = Suc (num_indirects_used b)"
  by (simp_all add: get_next_indirect_def Let_def)

lemma next_indirect_chunks:
  assumes "chunks_ok b"
  shows "chunks_ok (get_next_indirect h b)" "GIOP_CHUNK_SIZE \<le> indirect_left (get_next_indirect h b)"
    "\<exists>new. indirects (get_next_indirect h b) = indirects b @ new"
  using assms by (auto simp: get_next_indirect_def Let_def chunks_ok_def nth_append)

lemma data_append:
  assumes "in_block caller b v" "chunks_ok b"
  shows "data caller (indirects b @ new) v = data caller (indirects b) v"
  using assms
  by (cases "(caller, b, v)" rule: in_block.cases) (auto simp: chunks_ok_def nth_append)

lemma next_indirect_iovecs:
  assumes "chunks_ok b" "iovecs_ok caller b"
  shows "iovecs_ok caller (get_next_indirect h b)" "outq caller (get_next_indirect h b) = outq caller b"
proof -
  obtain new where new: "indirects (get_next_indirect h b) = indirects b @ new"
    using next_indirect_chunks(3)[OF assms(1)] by blast
  have "handed_out b i \<le> handed_out (get_next_indirect h b) i" if "i < num_indirects_used b" for i
  proof (cases "Suc i = num_indirects_used b")
    case True
    then have "num_indirects_used b - 1 = i" by simp
    then show ?thesis using True assms(1) new by (auto simp: handed_out_def chunks_ok_def nth_append)
  qed (use that assms(1) new in \<open>auto simp: handed_out_def chunks_ok_def nth_append\<close>)
  then have "in_block caller (get_next_indirect h b) v" if "in_block caller b v" for v
    using that by (cases "(caller, b, v)" rule: in_block.cases) fastforce+
  then show "iovecs_ok caller (get_next_indirect h b)"
    using assms(2) by (auto simp: iovecs_ok_def)
  show "outq caller (get_next_indirect h b) = outq caller b"
    unfolding outq_def next_indirect_sel new
    by (intro arg_cong[where f = concat] map_cong refl data_append[OF _ assms(1)])
      (use assms(2) in \<open>auto simp: iovecs_ok_def\<close>)
qed

text \<open>Writing at \<^verbatim>\<open>indirect\<close> touches nothing that has been queued.\<close>

lemma slice_append1: "p + n \<le> length xs \<Longrightarrow> slice p n (xs @ ys) = slice p n xs"
  by (simp add: slice_def)

lemma slice_below: "p + n \<le> off \<Longrightarrow> off \<le> length m \<Longrightarrow> slice p n (take off m @ r) = slice p n m"
  by (simp add: slice_append1 slice_take)

lemma write_indirect_ok:
  assumes c: "chunks_ok b" and i: "iovecs_ok caller b" and n: "length bs \<le> indirect_left b"
    and used: "num_indirects_used b \<noteq> 0"
  obtains b' k off where "write_indirect bs b = Inr b'" "indirect b = (Chunk k, off)"
    "Suc k = num_indirects_used b" "k < length (indirects b)"
    "off + indirect_left b = length (indirects b ! k)"
    "b' = b\<lparr> indirects := (indirects b)[k := take off (indirects b ! k) @ bs
       @ drop (off + length bs) (indirects b ! k)] \<rparr>"
    "outq caller b' = outq caller b" "data caller (indirects b') ((Chunk k, off), length bs) = bs"
proof -
  obtain k off where k: "indirect b = (Chunk k, off)" "Suc k = num_indirects_used b"
    "k < length (indirects b)" "off + indirect_left b = length (indirects b ! k)"
    using c used by (cases "indirect b") (auto simp: chunks_ok_def)
  let ?m = "take off (indirects b ! k) @ bs @ drop (off + length bs) (indirects b ! k)"
  let ?b = "b\<lparr> indirects := (indirects b)[k := ?m] \<rparr>"
  have w: "write_indirect bs b = Inr ?b"
    using k n by (auto simp: write_indirect_def)
  have "data caller ((indirects b)[k := ?m]) v = data caller (indirects b) v"
    if "in_block caller b v" for v
  proof (cases "(caller, b, v)" rule: in_block.cases)
    case (2 _ _ j p l)
    show ?thesis
    proof (cases "j = k")
      case True
      then have "p + l \<le> off" using that 2 k by (simp add: handed_out_def)
      then show ?thesis using 2 True k by (simp add: slice_below)
    qed (use 2 in simp)
  qed auto
  then have "outq caller ?b = outq caller b"
    unfolding outq_def using i
    by (auto intro!: arg_cong[where f = concat] map_cong simp: iovecs_ok_def)
  moreover have "data caller (indirects ?b) ((Chunk k, off), length bs) = bs"
    using k n by (simp add: slice_def)
  ultimately show thesis using that[OF w k] by simp
qed

lemma queue_indirect_ok:
  assumes ok: "send_ok caller b" and n: "length bs \<le> indirect_left b"
    and used: "num_indirects_used b \<noteq> 0"
  shows "\<exists>b'. queue_indirect bs b = Inr b' \<and> send_ok caller b' \<and> outq caller b' = outq caller b @ bs
    \<and> msg_size b' = msg_size b + of_nat (length bs) \<and> header_size b' = header_size b
    \<and> msg_header b' = msg_header b \<and> msg_host b' = msg_host b
    \<and> filter (\<lambda>v. fst (fst v) = Header) (iovecs b') = filter (\<lambda>v. fst (fst v) = Header) (iovecs b)"
proof -
  have c: "chunks_ok b" and i: "iovecs_ok caller b" using ok by (simp_all add: send_ok_def)
  obtain w k off where w: "write_indirect bs b = Inr w" "indirect b = (Chunk k, off)"
    "Suc k = num_indirects_used b" "k < length (indirects b)"
    "off + indirect_left b = length (indirects b ! k)"
    "w = b\<lparr> indirects := (indirects b)[k := take off (indirects b ! k) @ bs
       @ drop (off + length bs) (indirects b ! k)] \<rparr>"
    "outq caller w = outq caller b" "data caller (indirects w) ((Chunk k, off), length bs) = bs"
    using write_indirect_ok[OF c i n used] by metis
  define a where "a = w\<lparr> indirect := (Chunk k, off + length bs),
    indirect_left := indirect_left b - length bs \<rparr>"
  let ?b = "giop_send_buffer_append_real (Chunk k, off) (length bs) a"
  have q: "queue_indirect bs b = Inr ?b"
    using w by (simp add: queue_indirect_def ptr_add_def a_def giop_send_buffer_append_real_def
        num_used_def Let_def)
  have len: "length (indirects a ! j) = length (indirects b ! j)" for j
    using w n by (cases "j = k") (auto simp: a_def)
  have sel: "iovecs a = iovecs b" "lastptr a = lastptr b" "num_alloced a = num_alloced b"
    "num_indirects_used a = num_indirects_used b" "length (indirects a) = length (indirects b)"
    "indirect a = (Chunk k, off + length bs)" "indirect_left a = indirect_left b - length bs"
    "indirects a = indirects w" "msg_size a = msg_size b" "header_size a = header_size b" "msg_header a = msg_header b"
    "msg_host a = msg_host b"
    unfolding a_def w(6) by simp_all
  have oa: "outq caller a = outq caller b"
    using w(7) by (simp add: a_def outq_def)
  have ca: "chunks_ok a"
  proof -
    have "GIOP_CHUNK_SIZE \<le> length m" if m: "m \<in> set (indirects a)" for m
    proof -
      obtain j where j: "j < length (indirects a)" "m = indirects a ! j"
        using m by (auto simp: in_set_conv_nth)
      then have "indirects b ! j \<in> set (indirects b)" unfolding sel(5) by simp
      then have "GIOP_CHUNK_SIZE \<le> length (indirects b ! j)" using c by (simp add: chunks_ok_def)
      then show ?thesis using j(2) len[of j] by simp
    qed
    moreover have "num_indirects_used b - 1 = k" using w(3) by simp
    ultimately show ?thesis using c w(3-5) n len[of k] by (simp add: chunks_ok_def sel(4-7))
  qed
  have "in_block caller a v" if "in_block caller b v" for v
    using that w(2,3) sel len by (cases "(caller, b, v)" rule: in_block.cases) (auto simp: handed_out_def)
  then have ia: "iovecs_ok caller a" using i sel by (auto simp: iovecs_ok_def)
  have "in_block caller a ((Chunk k, off), length bs)"
    using w(3) sel by (simp add: handed_out_def)
  then have "iovecs_ok caller ?b" using append_real_iovecs_ok[OF ia] by simp
  moreover have "outq caller ?b = outq caller b @ bs"
    using append_real_outq[OF ia] sel oa w(8) by simp
  moreover have "filter (\<lambda>v. fst (fst v) = Header) (iovecs ?b)
      = filter (\<lambda>v. fst (fst v) = Header) (iovecs b)"
    using append_real_headers[OF ia, of "(Chunk k, off)"] sel(1) by simp
  ultimately show ?thesis using q ca sel by (simp add: send_ok_def)
qed

section \<open>Refinement of the byte buffer\<close>

text \<open>The buffer of bytes \<open>s\<close> is what \<open>b\<close> will send, given the caller's memory.\<close>

definition refines :: "(nat \<Rightarrow> byte list) \<Rightarrow> GIOPSendBuffer \<Rightarrow> sbuf \<Rightarrow> bool" where
  "refines caller b s \<longleftrightarrow> send_ok caller b \<and> outq caller b = s_out s \<and> msg_size b = s_size s
     \<and> header_size b = s_header_size s \<and> msg_host b = s_host s
     \<and> msg_header b = magic (sb_header s) @ version (sb_header s) @ [flags (sb_header s), s_type s]
     \<and> filter (\<lambda>v. fst (fst v) = Header) (iovecs b) = [((Header, 0), 12)]"

lemma refines_queue:
  assumes r: "refines caller b s" and n: "length bs \<le> indirect_left b"
    and used: "num_indirects_used b \<noteq> 0"
  shows "\<exists>b'. queue_indirect bs b = Inr b' \<and> refines caller b' (sb_append bs s)"
  using queue_indirect_ok[of caller b bs] assms
  by (auto simp: refines_def sb_append_def sb_header_def)

lemma refines_next:
  assumes r: "refines caller b s"
  shows "refines caller (get_next_indirect h b) s"
    "GIOP_CHUNK_SIZE \<le> indirect_left (get_next_indirect h b)"
    "num_indirects_used (get_next_indirect h b) \<noteq> 0"
  using r next_indirect_chunks[of b h] next_indirect_iovecs[of b caller h]
  by (auto simp: refines_def send_ok_def)

lemma used_left: "send_ok caller b \<Longrightarrow> 0 < indirect_left b \<Longrightarrow> num_indirects_used b \<noteq> 0"
  by (auto simp: send_ok_def chunks_ok_def split: if_splits)

text \<open>The pattern of every copying operation: next chunk when the rest is too small, then write.\<close>

lemma refines_copy:
  assumes r: "refines caller b s" and bs: "bs \<noteq> []" "length bs \<le> GIOP_CHUNK_SIZE"
  shows "\<exists>b'. queue_indirect bs (if indirect_left b < length bs then get_next_indirect h b else b)
    = Inr b' \<and> refines caller b' (sb_append bs s)"
proof (cases "indirect_left b < length bs")
  case True
  have "\<exists>b'. queue_indirect bs (get_next_indirect h b) = Inr b' \<and> refines caller b' (sb_append bs s)"
    by (rule refines_queue) (use refines_next[OF r, of h] bs in auto)
  then show ?thesis using True by simp
next
  case False
  have "num_indirects_used b \<noteq> 0"
    using used_left[of caller b] r False bs by (cases bs) (auto simp: refines_def)
  then show ?thesis using refines_queue[OF r, of bs] False by simp
qed

lemma refines_append:
  assumes r: "refines caller b s" and n: "0 < len" "off + len \<le> length (caller i)"
  shows "\<exists>b'. giop_send_buffer_append caller i off len b = Inr b'
    \<and> refines caller b' (sb_append (slice off len (caller i)) s)"
proof (cases "len \<le> 32")
  case True
  have "length (slice off len (caller i)) = len" using n by (simp add: slice_def)
  then have "slice off len (caller i) \<noteq> []" "length (slice off len (caller i)) \<le> GIOP_CHUNK_SIZE"
    using n True by (auto simp: GIOP_CHUNK_SIZE_def)
  from refines_copy[OF r this] True show ?thesis
    by (simp add: giop_send_buffer_append_def giop_send_buffer_append_copy_def)
next
  case False
  have ok: "send_ok caller b" using r by (simp add: refines_def)
  have "iovecs_ok caller (giop_send_buffer_append_real (Caller i, off) len b)"
    by (rule append_real_iovecs_ok) (use ok n in \<open>simp_all add: send_ok_def\<close>)
  moreover have "outq caller (giop_send_buffer_append_real (Caller i, off) len b)
      = outq caller b @ slice off len (caller i)"
    using append_real_outq[of caller b "(Caller i, off)" len] ok by (simp add: send_ok_def)
  moreover have "length (slice off len (caller i)) = len" using n by (simp add: slice_def)
  moreover have "filter (\<lambda>v. fst (fst v) = Header)
      (iovecs (giop_send_buffer_append_real (Caller i, off) len b))
      = filter (\<lambda>v. fst (fst v) = Header) (iovecs b)"
    using append_real_headers[of caller b "(Caller i, off)" len] ok by (simp add: send_ok_def)
  ultimately show ?thesis
    using False r by (simp add: giop_send_buffer_append_def refines_def send_ok_def sb_append_def sb_header_def)
qed

lemma refines_align:
  assumes r: "refines caller b s" and n: "0 < n" "n \<le> GIOP_CHUNK_SIZE"
  shows "\<exists>b'. giop_send_buffer_align n b = Inr b' \<and> refines caller b' (sb_align n s)"
proof -
  let ?ms = "unat (s_size s + of_nat (s_header_size s))"
  have ms: "unat (msg_size b + of_nat (header_size b)) = ?ms" using r by (simp add: refines_def)
  show ?thesis
  proof (cases "ALIGN_VALUE ?ms n - ?ms = 0")
    case True
    then show ?thesis using r unfolding giop_send_buffer_align_def ms sb_align_def Let_def by simp
  next
    case False
    have "ALIGN_VALUE ?ms n - ?ms \<le> GIOP_CHUNK_SIZE"
      using ALIGN_VALUE_less[OF n(1), of ?ms] n(2) by simp
    with False have "\<exists>b'. queue_indirect (replicate (ALIGN_VALUE ?ms n - ?ms) 0)
        (if indirect_left b < length (replicate (ALIGN_VALUE ?ms n - ?ms) (0 :: byte))
         then get_next_indirect 0 b else b) = Inr b'
        \<and> refines caller b' (sb_append (replicate (ALIGN_VALUE ?ms n - ?ms) 0) s)"
      by (intro refines_copy[OF r]) simp_all
    then show ?thesis
      using False unfolding giop_send_buffer_align_def ms sb_align_def Let_def by simp
  qed
qed

lemma refines_append_aligned:
  assumes r: "refines caller b s" and bs: "bs \<noteq> []" "length bs \<le> GIOP_CHUNK_SIZE"
  shows "\<exists>p b'. giop_send_buffer_append_aligned (Some bs) (length bs) b = Inr (p, b')
    \<and> refines caller b' (sb_append_aligned bs s)"
proof -
  obtain c where c: "giop_send_buffer_align (length bs) b = Inr c"
    "refines caller c (sb_align (length bs) s)"
    using refines_align[OF r, of "length bs"] bs by auto
  from refines_copy[OF c(2) bs, of 0] c(1) show ?thesis
    by (auto simp: giop_send_buffer_append_aligned_def sb_append_aligned_def Let_def)
qed

lemma refines_append_string:
  assumes r: "refines caller b s" and str: "c_string (caller i)" "length (caller i) < 2 ^ 32"
  shows "\<exists>b'. giop_send_buffer_append_string (s_host s) caller i b = Inr b'
    \<and> refines caller b' (sb_append_string (caller i) s)"
proof -
  let ?t = "caller i"
  define len where "len = (of_nat (length (c_text ?t) + 1) :: u32)"
  note t = str
  then have "length (c_text ?t) + 1 = length ?t"
    by (metis Suc_eq_plus1 c_string_facts(3) length_append_singleton)
  then have u: "unat len = length ?t"
    using t(2) unfolding len_def by (simp add: unat_of_nat take_bit_nat_eq_self)
  have ne: "0 < length ?t" using t by auto
  have sl: "slice 0 (length ?t) ?t = ?t" by (simp add: slice_def)
  obtain c where c: "giop_send_buffer_align 4 b = Inr c" "refines caller c (sb_align 4 s)"
    using refines_align[OF r, of 4] by (auto simp: GIOP_CHUNK_SIZE_def)
  have spec: "sb_append_string ?t s = sb_append (u32_bytes (s_host s) len @ ?t) (sb_align 4 s)"
    unfolding sb_append_string_def Let_def len_def[symmetric] u sl by simp
  show ?thesis
  proof (cases "4 + length ?t \<le> indirect_left c")
    case True
    have "num_indirects_used c \<noteq> 0" using used_left[of caller c] c(2) True by (simp add: refines_def)
    from refines_queue[OF c(2) _ this, of "u32_bytes (s_host s) len @ ?t"] True show ?thesis
      unfolding giop_send_buffer_append_string_def Let_def len_def[symmetric] u sl spec
      using c(1) by auto
  next
    case False
    obtain d where d: "giop_send_buffer_append_copy (u32_bytes (s_host s) len) c = Inr d"
      "refines caller d (sb_append (u32_bytes (s_host s) len) (sb_align 4 s))"
      using refines_copy[OF c(2), of "u32_bytes (s_host s) len" "length (u32_bytes (s_host s) len)"]
      by (auto simp: giop_send_buffer_append_copy_def GIOP_CHUNK_SIZE_def simp flip: length_0_conv)
    have "0 + length ?t \<le> length ?t" by simp
    from refines_append[OF d(2) ne this] show ?thesis
      unfolding giop_send_buffer_append_string_def Let_def len_def[symmetric] u sl spec
      using False c(1) d(1) sl by auto
  qed
qed

section \<open>Buffers from the pool\<close>

text \<open>
  A buffer that has been used and returned keeps its chunks; what \<^verbatim>\<open>giop_send_buffer_use\<close> makes
  of it refines an empty buffer, except that the message type is still the old one until the caller
  sets it.
\<close>

definition pool_ok :: "endian \<Rightarrow> GIOPSendBuffer \<Rightarrow> bool" where
  "pool_ok host b \<longleftrightarrow> (\<forall>c \<in> set (indirects b). GIOP_CHUNK_SIZE \<le> length c)
     \<and> msg_host b = host \<and> length (msg_header b) = 8 \<and> take 4 (msg_header b) = giop_magic
     \<and> msg_header b ! 6 = GIOP_FLAG_ENDIANNESS host \<and> 0 < num_alloced b"

lemma drop_6_of_8: "length h = 8 \<Longrightarrow> drop 6 h = [h ! 6, h ! 7]"
  by (simp add: list_eq_iff_nth_eq less_Suc_eq eval_nat_numeral)

lemma use_from_refines:
  assumes "case pool of None \<Rightarrow> True | Some b \<Rightarrow> pool_ok host b"
  shows "refines caller (giop_send_buffer_use_from blank fill pool host v)
    ((giop_send_buffer_use host v)\<lparr> s_type := (case pool of None \<Rightarrow> 0 | Some b \<Rightarrow> msg_header b ! 7) \<rparr>)"
proof (cases pool)
  case None
  then show ?thesis
    by (auto simp: giop_send_buffer_use_from_def giop_send_buffer_append_real_def Let_def num_used_def
        refines_def send_ok_def chunks_ok_def iovecs_ok_def outq_def giop_send_buffer_use_def
        sb_header_def giop_magic_def ptr_add_def)
next
  case (Some b)
  then have "drop 6 (msg_header b) = [GIOP_FLAG_ENDIANNESS host, msg_header b ! 7]"
    using assms by (simp add: pool_ok_def drop_6_of_8)
  then show ?thesis
    using Some assms
    by (auto simp: giop_send_buffer_use_from_def giop_send_buffer_append_real_def Let_def num_used_def
        refines_def send_ok_def chunks_ok_def iovecs_ok_def outq_def giop_send_buffer_use_def
        sb_header_def ptr_add_def pool_ok_def dest: in_set_takeD in_set_dropD)
qed

lemma unuse_pool_ok:
  assumes "send_ok caller b" "msg_host b = host" "length (msg_header b) = 8"
    "take 4 (msg_header b) = giop_magic" "msg_header b ! 6 = GIOP_FLAG_ENDIANNESS host"
    "iovecs b \<noteq> []"
  shows "pool_ok host (giop_send_buffer_unuse b)"
proof -
  have "0 < length (iovecs b)" "length (iovecs b) \<le> num_alloced b"
    using assms by (auto simp: send_ok_def iovecs_ok_def)
  then have "0 < num_alloced b" by linarith
  then show ?thesis
    using assms by (auto simp: pool_ok_def giop_send_buffer_unuse_def send_ok_def chunks_ok_def
        dest!: in_set_takeD in_set_dropD)
qed

section \<open>Runs\<close>

text \<open>Marshalling code is a sequence of these calls; \<open>i\<close> names a block of the caller.\<close>

datatype call = Append nat nat nat | Align nat | Append_aligned "byte list" | Append_string nat

fun do_call :: "(nat \<Rightarrow> byte list) \<Rightarrow> call \<Rightarrow> GIOPSendBuffer \<Rightarrow> GIOPSendBuffer res" where
  "do_call caller (Append i off len) b = giop_send_buffer_append caller i off len b"
| "do_call caller (Align n) b = giop_send_buffer_align n b"
| "do_call caller (Append_aligned bs) b =
     rbind (giop_send_buffer_append_aligned (Some bs) (length bs) b) (\<lambda>(_, b). Inr b)"
| "do_call caller (Append_string i) b = giop_send_buffer_append_string (msg_host b) caller i b"

fun byte_call :: "(nat \<Rightarrow> byte list) \<Rightarrow> call \<Rightarrow> sbuf \<Rightarrow> sbuf" where
  "byte_call caller (Append i off len) s = sb_append (slice off len (caller i)) s"
| "byte_call caller (Align n) s = sb_align n s"
| "byte_call caller (Append_aligned bs) s = sb_append_aligned bs s"
| "byte_call caller (Append_string i) s = sb_append_string (caller i) s"

fun call_ok :: "(nat \<Rightarrow> byte list) \<Rightarrow> call \<Rightarrow> bool" where
  "call_ok caller (Append i off len) \<longleftrightarrow> 0 < len \<and> off + len \<le> length (caller i)"
| "call_ok caller (Align n) \<longleftrightarrow> 0 < n \<and> n \<le> GIOP_CHUNK_SIZE"
| "call_ok caller (Append_aligned bs) \<longleftrightarrow> bs \<noteq> [] \<and> length bs \<le> GIOP_CHUNK_SIZE"
| "call_ok caller (Append_string i) \<longleftrightarrow> c_string (caller i) \<and> length (caller i) < 2 ^ 32"

fun run_calls :: "(call \<Rightarrow> 'b \<Rightarrow> 'b res) \<Rightarrow> call list \<Rightarrow> 'b \<Rightarrow> 'b res" where
  "run_calls op [] b = Inr b"
| "run_calls op (c # cs) b = rbind (op c b) (run_calls op cs)"

text \<open>
  What marshalling code may rely on: every call it is allowed to make succeeds and does to the buffer
  what it does to the bytes. So does every sequence of calls.
\<close>

locale send_buffer =
  fixes op :: "call \<Rightarrow> 'b \<Rightarrow> 'b res"
    and bytes :: "call \<Rightarrow> sbuf \<Rightarrow> sbuf"
    and allowed :: "call \<Rightarrow> bool"
    and rel :: "'b \<Rightarrow> sbuf \<Rightarrow> bool"
  assumes step: "rel b s \<Longrightarrow> allowed c \<Longrightarrow> \<exists>b'. op c b = Inr b' \<and> rel b' (bytes c s)"
begin

lemma run: "rel b s \<Longrightarrow> list_all allowed cs \<Longrightarrow>
  \<exists>b'. run_calls op cs b = Inr b' \<and> rel b' (fold bytes cs s)"
proof (induction cs arbitrary: b s)
  case (Cons c cs)
  then obtain b1 where "op c b = Inr b1" "rel b1 (bytes c s)"
    using step[of b s c] by auto
  then show ?case using Cons by simp
qed simp

end

lemma call_refines:
  assumes "refines caller b s" "call_ok caller c"
  shows "\<exists>b'. do_call caller c b = Inr b' \<and> refines caller b' (byte_call caller c s)"
proof (cases c)
  case (Append i off len)
  then show ?thesis using refines_append[OF assms(1)] assms(2) by simp
next
  case (Align n)
  then show ?thesis using refines_align[OF assms(1)] assms(2) by simp
next
  case (Append_aligned bs)
  then show ?thesis using refines_append_aligned[OF assms(1)] assms(2) by fastforce
next
  case (Append_string i)
  then show ?thesis using refines_append_string[OF assms(1)] assms
    by (simp add: refines_def)
qed

interpretation iovec: send_buffer "do_call caller" "byte_call caller" "call_ok caller"
  "refines caller" for caller
  by unfold_locales (rule call_refines)

text \<open>What is handed to the connection is the header with the final size, then the body.\<close>

lemma queued_wire:
  assumes r: "refines caller b s"
  shows "queued caller b = sb_wire s"
proof -
  have ok: "iovecs_ok caller b" using r by (simp add: refines_def send_ok_def)
  have f: "filter (\<lambda>v. fst (fst v) = Header) (iovecs b) = [((Header, 0), 12)]"
    using r by (simp add: refines_def)
  obtain v vs where iov: "iovecs b = v # vs" using f by (cases "iovecs b") auto
  have vs: "\<forall>v \<in> set vs. fst (fst v) \<noteq> Header" using ok iov by (simp add: iovecs_ok_def)
  then have none: "filter (\<lambda>v. fst (fst v) = Header) vs = []" by (simp add: filter_empty_conv)
  then have v: "v = ((Header, 0), 12)" using f iov by (auto split: if_splits)
  have same: "iov_bytes caller b w = data caller (indirects b) w" if "fst (fst w) \<noteq> Header" for w
    using that by (cases w rule: data.cases[where x = "(caller, indirects b, w)" for w, simplified])
      (auto simp: iov_bytes_def)
  have "concat (map (iov_bytes caller b) vs) = concat (map (data caller (indirects b)) vs)"
    using vs same by (intro arg_cong[where f = concat] map_cong) auto
  moreover have "outq caller b = concat (map (data caller (indirects b)) vs)"
    by (simp add: outq_def iov v)
  moreover have "iov_bytes caller b v = header_image (s_host s) (sb_header s)"
    using r v by (simp add: iov_bytes_def refines_def header_image_def sb_header_def slice_def
        giop_magic_def)
  ultimately show ?thesis
    using r by (simp add: queued_def iov sb_wire_def refines_def)
qed

section \<open>Properties\<close>

text \<open>C11. Whatever sequence of appends, alignments, aligned appends and strings marshalling code
  makes on a new buffer or on one from the pool, every call succeeds without writing outside a
  chunk, and the iovecs handed to the connection are the header, with the final message size, and
  then exactly the bytes appended, in order: nothing queued is written over, whether it was
  copied, coalesced or queued in place.\<close>

theorem iovecs_send_what_was_appended:
  assumes pool: "case pool of None \<Rightarrow> True | Some b \<Rightarrow> pool_ok host b"
    and cs: "list_all (call_ok caller) cs"
  shows "\<exists>b. run_calls (do_call caller) cs (giop_send_buffer_use_from blank fill pool host v) = Inr b
    \<and> queued caller b = sb_wire (fold (byte_call caller) cs ((giop_send_buffer_use host v)
        \<lparr> s_type := (case pool of None \<Rightarrow> 0 | Some b \<Rightarrow> msg_header b ! 7) \<rparr>))"
  using iovec.run[OF use_from_refines[OF pool] cs] queued_wire by blast

theorem iovecs_send_what_was_appended_witness:
  "\<exists>b. run_calls (do_call (\<lambda>_. replicate 40 7 @ [0])) [Append 0 1 2, Align 8, Append 0 0 40, Append_string 0]
      (giop_send_buffer_use_from False 9 None True GIOP_1_2) = Inr b
    \<and> queued (\<lambda>_. replicate 40 7 @ [0]) b = sb_wire (fold (byte_call (\<lambda>_. replicate 40 7 @ [0]))
        [Append 0 1 2, Align 8, Append 0 0 40, Append_string 0] ((giop_send_buffer_use True GIOP_1_2)
        \<lparr> s_type := 0 \<rparr>))"
  using iovecs_send_what_was_appended[where pool = None and host = True
    and caller = "\<lambda>_. replicate 40 7 @ [0]"
    and cs = "[Append 0 1 2, Align 8, Append 0 0 40, Append_string 0]" and blank = False
    and fill = 9 and v = GIOP_1_2]
  by (simp add: GIOP_CHUNK_SIZE_def c_string_def)

text \<open>C12. A buffer that has been sent and returned by \<^verbatim>\<open>giop_send_buffer_unuse\<close> is fit to be
  taken again by \<^verbatim>\<open>giop_send_buffer_use\<close>: its chunks, cut back to their usual size, still have
  room for every copying append.\<close>

theorem unused_buffer_is_reusable:
  assumes "refines caller b s" "pool_ok (s_host s) b"
  shows "refines caller (giop_send_buffer_use_from blank fill (Some (giop_send_buffer_unuse b)) (s_host s) v)
    ((giop_send_buffer_use (s_host s) v)\<lparr> s_type := s_type s \<rparr>)"
proof -
  have ne: "iovecs b \<noteq> []" using assms(1) by (auto simp: refines_def)
  have "pool_ok (s_host s) (giop_send_buffer_unuse b)"
  proof -
    have "send_ok caller b" using assms(1) by (simp add: refines_def)
    from unuse_pool_ok[OF this _ _ _ _ ne] show ?thesis using assms(2) by (simp add: pool_ok_def)
  qed
  moreover have "msg_header (giop_send_buffer_unuse b) ! 7 = s_type s"
  proof -
    have h: "msg_header b = giop_magic @ giop_version_ids (s_version s)
        @ [GIOP_FLAG_ENDIANNESS (s_host s), s_type s]"
      using assms(1) by (simp add: refines_def sb_header_def)
    show ?thesis by (cases "s_version s") (simp_all add: giop_send_buffer_unuse_def h giop_magic_def)
  qed
  ultimately show ?thesis
    using use_from_refines[where pool = "Some (giop_send_buffer_unuse b)" and host = "s_host s"
      and caller = caller and blank = blank and fill = fill and v = v] by simp
qed

theorem unused_buffer_is_reusable_witness:
  "refines (\<lambda>_. []) (giop_send_buffer_use_from True 1 (Some (giop_send_buffer_unuse
      (giop_send_buffer_use_from False 9 None True GIOP_1_2))) True GIOP_1_0)
    ((giop_send_buffer_use True GIOP_1_0)\<lparr> s_type := 0 \<rparr>)"
proof -
  let ?s = "(giop_send_buffer_use True GIOP_1_2)\<lparr> s_type := 0 \<rparr>"
  have r: "refines (\<lambda>_. []) (giop_send_buffer_use_from False 9 None True GIOP_1_2) ?s"
    using use_from_refines[where pool = None and host = True and caller = "\<lambda>_. []"
      and blank = False and fill = 9 and v = GIOP_1_2] by simp
  have "pool_ok (s_host ?s) (giop_send_buffer_use_from False 9 None True GIOP_1_2)"
    by (simp add: pool_ok_def giop_send_buffer_use_from_def giop_send_buffer_append_real_def Let_def
        num_used_def giop_magic_def)
  from unused_buffer_is_reusable[OF r this, of True 1 GIOP_1_0] show ?thesis by simp
qed

end
