(* ===== verification/Typecode.thy ===== *)
theory Typecode imports Codec begin

text \<open>
  TypeCodes (\<^verbatim>\<open>corba-typecode.h\<close>, \<^verbatim>\<open>corba-typecode.c\<close>): the structure, the native alignment of the
  type it describes, the comparison, and the operations of the TypeCode interface. A TypeCode is a
  tree of structures whose nodes carry the address they live at, because the encoder recognises a
  TypeCode it has already written by its address; two nodes with one address are the same structure.
  Structures that contain themselves through a pointer are not trees and are not modelled.
\<close>

section \<open>The platform\<close>

text \<open>
  What configure finds out about the machine (\<^verbatim>\<open>matecorba-config.h\<close>): the alignments of the basic
  types, and the sizes of a pointer and of the two structures made of pointers and words.
\<close>

record abi =
  sizeof_ptr :: nat
  sizeof_seq :: nat
  sizeof_any :: nat
  ALIGNOF_SHORT :: nat
  ALIGNOF_LONG :: nat
  ALIGNOF_LONG_LONG :: nat
  ALIGNOF_FLOAT :: nat
  ALIGNOF_DOUBLE :: nat
  ALIGNOF_LONG_DOUBLE :: nat
  ALIGNOF_CHAR :: nat
  ALIGNOF_OCTET :: nat
  ALIGNOF_BOOLEAN :: nat
  ALIGNOF_WCHAR :: nat
  ALIGNOF_POINTER :: nat
  ALIGNOF_STRUCT :: nat

text \<open>The alignments \<^verbatim>\<open>orb-types.h\<close> computes from these.\<close>

definition ALIGNOF_ANY :: "abi \<Rightarrow> nat" where
  "ALIGNOF_ANY m = max (ALIGNOF_STRUCT m) (ALIGNOF_POINTER m)"

definition ALIGNOF_SEQ :: "abi \<Rightarrow> nat" where
  "ALIGNOF_SEQ m = max (max (ALIGNOF_STRUCT m) (ALIGNOF_LONG m)) (ALIGNOF_POINTER m)"

definition ALIGNOF_FIXED :: "abi \<Rightarrow> nat" where
  "ALIGNOF_FIXED m = max (ALIGNOF_SHORT m) (ALIGNOF_STRUCT m)"

definition x86_64 :: abi where
  "x86_64 = \<lparr> sizeof_ptr = 8, sizeof_seq = 24, sizeof_any = 24, ALIGNOF_SHORT = 2, ALIGNOF_LONG = 4,
     ALIGNOF_LONG_LONG = 8, ALIGNOF_FLOAT = 4, ALIGNOF_DOUBLE = 8, ALIGNOF_LONG_DOUBLE = 8,
     ALIGNOF_CHAR = 1, ALIGNOF_OCTET = 1, ALIGNOF_BOOLEAN = 1, ALIGNOF_WCHAR = 2,
     ALIGNOF_POINTER = 8, ALIGNOF_STRUCT = 1 \<rparr>"

section \<open>Kinds\<close>

datatype TCKind = tk_null | tk_void | tk_short | tk_long | tk_ushort | tk_ulong | tk_float
  | tk_double | tk_boolean | tk_char | tk_octet | tk_any | tk_TypeCode | tk_Principal | tk_objref
  | tk_struct | tk_union | tk_enum | tk_string | tk_sequence | tk_array | tk_alias | tk_except
  | tk_longlong | tk_ulonglong | tk_longdouble | tk_wchar | tk_wstring | tk_fixed | tk_value
  | tk_value_box | tk_native | tk_abstract_interface | tk_recursive

definition tk_kinds :: "TCKind list" where
  "tk_kinds = [tk_null, tk_void, tk_short, tk_long, tk_ushort, tk_ulong, tk_float, tk_double,
     tk_boolean, tk_char, tk_octet, tk_any, tk_TypeCode, tk_Principal, tk_objref, tk_struct,
     tk_union, tk_enum, tk_string, tk_sequence, tk_array, tk_alias, tk_except, tk_longlong,
     tk_ulonglong, tk_longdouble, tk_wchar, tk_wstring, tk_fixed, tk_value, tk_value_box,
     tk_native, tk_abstract_interface]"

text \<open>\<^verbatim>\<open>CORBA_tk_last\<close> is the number of kinds in the list; \<^verbatim>\<open>CORBA_tk_recursive\<close> is all ones.\<close>

definition CORBA_tk_last :: u32 where "CORBA_tk_last = 33"
definition CORBA_tk_recursive :: u32 where "CORBA_tk_recursive = 0xffffffff"

fun index_of :: "'a \<Rightarrow> 'a list \<Rightarrow> nat" where
  "index_of x [] = 0"
| "index_of x (y # ys) = (if x = y then 0 else Suc (index_of x ys))"

definition kind_code :: "TCKind \<Rightarrow> u32" where
  "kind_code k = (if k = tk_recursive then CORBA_tk_recursive else of_nat (index_of k tk_kinds))"

definition kind_of_code :: "u32 \<Rightarrow> TCKind" where
  "kind_of_code c = tk_kinds ! unat c"

lemma kind_code_less: "k \<noteq> tk_recursive \<Longrightarrow> kind_code k < CORBA_tk_last"
  by (cases k) (simp_all add: kind_code_def tk_kinds_def CORBA_tk_last_def)

lemma kind_of_kind_code: "k \<noteq> tk_recursive \<Longrightarrow> kind_of_code (kind_code k) = k"
  by (cases k) (simp_all add: kind_code_def kind_of_code_def tk_kinds_def)

section \<open>The structure\<close>

text \<open>Static structures of the library have the address of their kind, allocated ones a number.\<close>

datatype addr = Static TCKind | Heap nat

record tc_fields =
  kind :: TCKind
  c_align :: int
  tc_length :: u32
  sub_parts :: u32
  tc_name :: cblock
  repo_id :: cblock
  subnames :: "cblock list"
  sublabels :: "u32 list"
  default_index :: u32
  recurse_depth :: u32
  digits :: u16
  scale :: u16

datatype tc = TC (tc_addr: addr) (tc_fields: tc_fields) (subtypes: "tc option list")
  (discriminator: "tc option")

abbreviation tc_kind :: "tc \<Rightarrow> TCKind" where "tc_kind t \<equiv> kind (tc_fields t)"
abbreviation parts :: "tc \<Rightarrow> nat" where "parts t \<equiv> unat (sub_parts (tc_fields t))"

text \<open>A structure of zeros, as \<^verbatim>\<open>g_new0\<close> makes it.\<close>

definition zero_fields :: "TCKind \<Rightarrow> tc_fields" where
  "zero_fields k = \<lparr> kind = k, c_align = 0, tc_length = 0, sub_parts = 0, tc_name = [], repo_id = [],
     subnames = [], sublabels = [], default_index = 0, recurse_depth = 0, digits = 0, scale = 0 \<rparr>"

text \<open>
  The static structures of the kinds without parameters (\<^verbatim>\<open>DEF_TC_BASIC\<close>, \<^verbatim>\<open>TC_null_struct\<close>,
  \<^verbatim>\<open>TC_void_struct\<close>): name and alignment. Null and void have the alignment -1.
\<close>

definition basic_tc_name :: "TCKind \<Rightarrow> string" where
  "basic_tc_name k = (case k of tk_null \<Rightarrow> ''null'' | tk_void \<Rightarrow> ''void'' | tk_short \<Rightarrow> ''short''
     | tk_long \<Rightarrow> ''long'' | tk_ushort \<Rightarrow> ''unsigned_short'' | tk_ulong \<Rightarrow> ''unsigned_long''
     | tk_float \<Rightarrow> ''float'' | tk_double \<Rightarrow> ''double'' | tk_boolean \<Rightarrow> ''boolean'' | tk_char \<Rightarrow> ''char''
     | tk_octet \<Rightarrow> ''octet'' | tk_any \<Rightarrow> ''any'' | tk_TypeCode \<Rightarrow> ''TypeCode''
     | tk_Principal \<Rightarrow> ''Principal'' | tk_longlong \<Rightarrow> ''long_long''
     | tk_ulonglong \<Rightarrow> ''unsigned_long_long'' | tk_longdouble \<Rightarrow> ''long_double'' | tk_wchar \<Rightarrow> ''wchar''
     | _ \<Rightarrow> '''')"

definition basic_tc_align :: "abi \<Rightarrow> TCKind \<Rightarrow> int" where
  "basic_tc_align m k = (case k of tk_null \<Rightarrow> - 1 | tk_void \<Rightarrow> - 1
     | tk_short \<Rightarrow> int (ALIGNOF_SHORT m) | tk_ushort \<Rightarrow> int (ALIGNOF_SHORT m)
     | tk_long \<Rightarrow> int (ALIGNOF_LONG m) | tk_ulong \<Rightarrow> int (ALIGNOF_LONG m)
     | tk_float \<Rightarrow> int (ALIGNOF_FLOAT m) | tk_double \<Rightarrow> int (ALIGNOF_DOUBLE m)
     | tk_boolean \<Rightarrow> int (ALIGNOF_BOOLEAN m) | tk_char \<Rightarrow> int (ALIGNOF_CHAR m)
     | tk_octet \<Rightarrow> int (ALIGNOF_OCTET m) | tk_any \<Rightarrow> int (ALIGNOF_ANY m)
     | tk_TypeCode \<Rightarrow> int (ALIGNOF_POINTER m) | tk_Principal \<Rightarrow> 1
     | tk_longlong \<Rightarrow> int (ALIGNOF_LONG_LONG m) | tk_ulonglong \<Rightarrow> int (ALIGNOF_LONG_LONG m)
     | tk_longdouble \<Rightarrow> int (ALIGNOF_LONG_DOUBLE m) | tk_wchar \<Rightarrow> int (ALIGNOF_WCHAR m)
     | _ \<Rightarrow> 0)"

definition basic_tc :: "abi \<Rightarrow> TCKind \<Rightarrow> tc" where
  "basic_tc m k = TC (Static k) ((zero_fields k)\<lparr> c_align := basic_tc_align m k,
     tc_name := cstr (basic_tc_name k),
     repo_id := cstr (''IDL:omg.org/CORBA/'' @ (if k = tk_null then ''Null'' else basic_tc_name k) @ '':1.0''),
     default_index := (if k = tk_null \<or> k = tk_void then 0 else - 1) \<rparr>) [] None"

text \<open>\<^verbatim>\<open>tk_info\<close>: the kinds whose encoding is the kind alone, followed by parameters, or an
  encapsulation. The last four kinds have no entry in the table, so theirs is all zeros: they count
  as empty, and their basic type is the NULL pointer.\<close>

datatype TkType = TK_EMPTY | TK_SIMPLE | TK_COMPLEX

definition tk_type :: "TCKind \<Rightarrow> TkType" where
  "tk_type k = (if k \<in> {tk_objref, tk_struct, tk_union, tk_enum, tk_sequence, tk_array, tk_alias, tk_except}
     then TK_COMPLEX else if k \<in> {tk_string, tk_wstring, tk_fixed} then TK_SIMPLE else TK_EMPTY)"

definition tk_basic_type :: "abi \<Rightarrow> TCKind \<Rightarrow> tc option" where
  "tk_basic_type m k = (if k \<in> {tk_value, tk_value_box, tk_native, tk_abstract_interface}
     then None else Some (basic_tc m k))"

text \<open>A structure member that must be there to be followed.\<close>

definition deref :: "'a option \<Rightarrow> 'a res" where
  "deref p = (case p of None \<Rightarrow> Inl Abort | Some x \<Rightarrow> Inr x)"

lemma deref_simps [simp]: "deref None = Inl Abort" "deref (Some x) = Inr x"
  by (simp_all add: deref_def)

section \<open>Native alignment\<close>

text \<open>
  \<^verbatim>\<open>MateCORBA_TC_find_c_alignment\<close>. The loop over the members is the second function: it stops
  after \<^verbatim>\<open>sub_parts\<close> members and goes out of bounds when there are fewer.
\<close>

fun find_c_alignment :: "abi \<Rightarrow> tc \<Rightarrow> int res"
  and max_c_alignment :: "abi \<Rightarrow> int \<Rightarrow> nat \<Rightarrow> tc option list \<Rightarrow> int res" where
  "find_c_alignment m (TC a f subs d) = (case kind f of
     tk_alias \<Rightarrow> (case subs of Some t # _ \<Rightarrow> find_c_alignment m t | _ \<Rightarrow> Inl Abort)
   | tk_union \<Rightarrow> (case d of None \<Rightarrow> Inl Abort | Some t \<Rightarrow>
       rbind (find_c_alignment m t) (\<lambda>v.
         max_c_alignment m (max (max 1 v) (int (ALIGNOF_STRUCT m))) (unat (sub_parts f)) subs))
   | tk_except \<Rightarrow> max_c_alignment m (max 1 (int (ALIGNOF_STRUCT m))) (unat (sub_parts f)) subs
   | tk_struct \<Rightarrow> max_c_alignment m (max 1 (int (ALIGNOF_STRUCT m))) (unat (sub_parts f)) subs
   | tk_ulong \<Rightarrow> Inr (int (ALIGNOF_LONG m)) | tk_long \<Rightarrow> Inr (int (ALIGNOF_LONG m))
   | tk_enum \<Rightarrow> Inr (int (ALIGNOF_LONG m))
   | tk_ushort \<Rightarrow> Inr (int (ALIGNOF_SHORT m)) | tk_short \<Rightarrow> Inr (int (ALIGNOF_SHORT m))
   | tk_wchar \<Rightarrow> Inr (int (ALIGNOF_SHORT m))
   | tk_longlong \<Rightarrow> Inr (int (ALIGNOF_LONG_LONG m)) | tk_ulonglong \<Rightarrow> Inr (int (ALIGNOF_LONG_LONG m))
   | tk_float \<Rightarrow> Inr (int (ALIGNOF_FLOAT m)) | tk_double \<Rightarrow> Inr (int (ALIGNOF_DOUBLE m))
   | tk_longdouble \<Rightarrow> Inr (int (ALIGNOF_LONG_DOUBLE m))
   | tk_boolean \<Rightarrow> Inr (int (ALIGNOF_CHAR m)) | tk_char \<Rightarrow> Inr (int (ALIGNOF_CHAR m))
   | tk_octet \<Rightarrow> Inr (int (ALIGNOF_CHAR m))
   | tk_string \<Rightarrow> Inr (int (ALIGNOF_POINTER m)) | tk_wstring \<Rightarrow> Inr (int (ALIGNOF_POINTER m))
   | tk_TypeCode \<Rightarrow> Inr (int (ALIGNOF_POINTER m)) | tk_objref \<Rightarrow> Inr (int (ALIGNOF_POINTER m))
   | tk_sequence \<Rightarrow> Inr (int (ALIGNOF_SEQ m)) | tk_any \<Rightarrow> Inr (int (ALIGNOF_ANY m))
   | tk_array \<Rightarrow> (case subs of [] \<Rightarrow> Inl Wild | None # _ \<Rightarrow> Inl Abort | Some t # _ \<Rightarrow> find_c_alignment m t)
   | tk_fixed \<Rightarrow> Inr (int (ALIGNOF_FIXED m))
   | _ \<Rightarrow> Inr 1)"
| "max_c_alignment m v 0 subs = Inr v"
| "max_c_alignment m v (Suc n) [] = Inl Overrun"
| "max_c_alignment m v (Suc n) (None # subs) = Inl Abort"
| "max_c_alignment m v (Suc n) (Some t # subs) = rbind (find_c_alignment m t) (\<lambda>w.
     max_c_alignment m (max v w) n subs)"

section \<open>Comparison\<close>

text \<open>
  \<^verbatim>\<open>typecode_equiv_internal\<close>. Without \<open>strict_equal\<close> aliases are skipped on both sides. A NULL
  TypeCode makes the comparison fail (\<^verbatim>\<open>g_return_val_if_fail\<close>); a missing string is followed.
  \<open>label_checks\<close> are the comparisons of the union labels, made member by member after the
  comparison of the member's type.
\<close>

definition label_checks :: "nat \<Rightarrow> u32 list \<Rightarrow> u32 list \<Rightarrow> bool res list" where
  "label_checks n ls ms = map (\<lambda>i. if i < length ls \<and> i < length ms then Inr (ls ! i = ms ! i)
     else Inl Overrun) [0..<n]"

fun names_equal :: "nat \<Rightarrow> cblock list \<Rightarrow> cblock list \<Rightarrow> bool res" where
  "names_equal 0 xs ys = Inr True"
| "names_equal (Suc n) (x # xs) (y # ys) = rbind (c_streq x y) (\<lambda>r.
     if r then names_equal n xs ys else Inr False)"
| "names_equal (Suc n) _ _ = Inl Overrun"

fun typecode_equiv_internal :: "bool \<Rightarrow> tc \<Rightarrow> tc \<Rightarrow> bool res"
  and equiv_pointers :: "bool \<Rightarrow> tc option \<Rightarrow> tc option \<Rightarrow> bool res"
  and equiv_members :: "bool \<Rightarrow> bool res list \<Rightarrow> tc option list \<Rightarrow> tc option list \<Rightarrow> bool res" where
  "typecode_equiv_internal strict_equal (TC a f subs d) (TC a' f' subs' d') =
    (if \<not> strict_equal \<and> kind f = tk_alias then
       (case subs of Some t # _ \<Rightarrow> typecode_equiv_internal strict_equal t (TC a' f' subs' d')
        | _ \<Rightarrow> Inl Abort)
     else if \<not> strict_equal \<and> kind f' = tk_alias then
       (case subs' of Some t # _ \<Rightarrow> typecode_equiv_internal strict_equal (TC a f subs d) t
        | _ \<Rightarrow> Inl Abort)
     else if kind f \<noteq> kind f' then Inr False
     else case kind f of
       tk_wstring \<Rightarrow> Inr (tc_length f = tc_length f')
     | tk_string \<Rightarrow> Inr (tc_length f = tc_length f')
     | tk_objref \<Rightarrow> c_streq (repo_id f) (repo_id f')
     | tk_except \<Rightarrow> rbind (c_streq (repo_id f) (repo_id f')) (\<lambda>r.
         if \<not> r \<or> sub_parts f \<noteq> sub_parts f' then Inr False
         else equiv_members strict_equal (replicate (unat (sub_parts f)) (Inr True)) subs subs')
     | tk_struct \<Rightarrow> rbind (c_streq (repo_id f) (repo_id f')) (\<lambda>r.
         if \<not> r \<or> sub_parts f \<noteq> sub_parts f' then Inr False
         else equiv_members strict_equal (replicate (unat (sub_parts f)) (Inr True)) subs subs')
     | tk_union \<Rightarrow> rbind (c_streq (repo_id f) (repo_id f')) (\<lambda>r.
         if \<not> r \<or> sub_parts f \<noteq> sub_parts f' then Inr False
         else rbind (equiv_pointers strict_equal d d') (\<lambda>r.
           if \<not> r \<or> default_index f \<noteq> default_index f' then Inr False
           else equiv_members strict_equal
             (label_checks (unat (sub_parts f)) (sublabels f) (sublabels f')) subs subs'))
     | tk_enum \<Rightarrow> if sub_parts f \<noteq> sub_parts f' then Inr False
         else rbind (c_streq (repo_id f) (repo_id f')) (\<lambda>r.
           if \<not> r then Inr False
           else names_equal (unat (sub_parts f)) (subnames f) (subnames f'))
     | tk_sequence \<Rightarrow> if tc_length f \<noteq> tc_length f' then Inr False
         else if sub_parts f \<noteq> 1 \<or> sub_parts f' \<noteq> 1 then Inl Abort
         else equiv_members strict_equal [Inr True] subs subs'
     | tk_array \<Rightarrow> if tc_length f \<noteq> tc_length f' then Inr False
         else if sub_parts f \<noteq> 1 \<or> sub_parts f' \<noteq> 1 then Inl Abort
         else equiv_members strict_equal [Inr True] subs subs'
     | tk_alias \<Rightarrow> rbind (c_streq (repo_id f) (repo_id f')) (\<lambda>r.
         if \<not> r then Inr False
         else if sub_parts f \<noteq> 1 \<or> sub_parts f' \<noteq> 1 then Inl Abort
         else equiv_members strict_equal [Inr True] subs subs')
     | tk_recursive \<Rightarrow> Inr (recurse_depth f = recurse_depth f')
     | tk_fixed \<Rightarrow> Inr (digits f = digits f' \<and> scale f = scale f')
     | _ \<Rightarrow> Inr True)"
| "equiv_pointers strict_equal (Some t) (Some t') = typecode_equiv_internal strict_equal t t'"
| "equiv_pointers strict_equal _ _ = Inr False"
| "equiv_members strict_equal [] xs ys = Inr True"
| "equiv_members strict_equal (c # cs) (x # xs) (y # ys) =
     rbind (equiv_pointers strict_equal x y) (\<lambda>r.
       if \<not> r then Inr False
       else rbind c (\<lambda>r. if \<not> r then Inr False else equiv_members strict_equal cs xs ys))"
| "equiv_members strict_equal (c # cs) _ _ = Inl Overrun"

definition CORBA_TypeCode_equal :: "tc \<Rightarrow> tc \<Rightarrow> bool res" where
  "CORBA_TypeCode_equal = typecode_equiv_internal True"

definition CORBA_TypeCode_equivalent :: "tc \<Rightarrow> tc \<Rightarrow> bool res" where
  "CORBA_TypeCode_equivalent = typecode_equiv_internal False"

section \<open>Well-formed TypeCodes\<close>

text \<open>
  The kinds a union may switch on for the coder, with the width of the label on the wire
  (\<^verbatim>\<open>UNION_MEMBERS\<close>).
\<close>

definition label_width :: "TCKind \<Rightarrow> nat option" where
  "label_width k = (if k \<in> {tk_long, tk_enum, tk_ulong} then Some 4
     else if k \<in> {tk_boolean, tk_char} then Some 1
     else if k \<in> {tk_short, tk_ushort, tk_wchar} then Some 2
     else if k \<in> {tk_longlong, tk_ulonglong} then Some 8 else None)"

definition tc_shape :: "abi \<Rightarrow> tc \<Rightarrow> bool" where
  "tc_shape m t = (case t of TC a f subs d \<Rightarrow>
     let named = string_ok (tc_name f) \<and> string_ok (repo_id f);
         leaf = (subs = [] \<and> sub_parts f = 0);
         one = (length subs = 1 \<and> sub_parts f = 1);
         members = (length subs = unat (sub_parts f) \<and> length (subnames f) = length subs
           \<and> list_all string_ok (subnames f))
     in (case kind f of
       tk_objref \<Rightarrow> named \<and> leaf \<and> d = None
     | tk_struct \<Rightarrow> named \<and> members \<and> d = None
     | tk_except \<Rightarrow> named \<and> members \<and> d = None
     | tk_union \<Rightarrow> named \<and> members \<and> length (sublabels f) = length subs
         \<and> (\<exists>t. d = Some t \<and> label_width (tc_kind t) \<noteq> None)
     | tk_enum \<Rightarrow> named \<and> subs = [] \<and> d = None \<and> list_all string_ok (subnames f)
         \<and> length (subnames f) = unat (sub_parts f)
     | tk_string \<Rightarrow> leaf \<and> d = None
     | tk_wstring \<Rightarrow> leaf \<and> d = None
     | tk_fixed \<Rightarrow> leaf \<and> d = None
     | tk_sequence \<Rightarrow> one \<and> d = None
     | tk_array \<Rightarrow> one \<and> d = None
     | tk_alias \<Rightarrow> named \<and> one \<and> d = None
     | k \<Rightarrow> k \<notin> {tk_value, tk_value_box, tk_native, tk_abstract_interface, tk_recursive}
         \<and> t = basic_tc m k))"

fun tc_ok :: "abi \<Rightarrow> tc \<Rightarrow> bool" where
  "tc_ok m (TC a f subs d) \<longleftrightarrow> tc_shape m (TC a f subs d) \<and> None \<notin> set subs
     \<and> list_all (pred_option (tc_ok m)) subs \<and> pred_option (tc_ok m) d"

section \<open>What the comparison compares\<close>

text \<open>
  \<open>ident s t\<close> is \<open>t\<close> reduced to what the comparison looks at: addresses, names of members and
  alignments go, and, unless the comparison is strict, aliases are replaced by what they stand for.
\<close>

definition ident_fields :: "tc_fields \<Rightarrow> tc_fields" where
  "ident_fields f = (let z = zero_fields (kind f) in case kind f of
     tk_wstring \<Rightarrow> z\<lparr> tc_length := tc_length f \<rparr>
   | tk_string \<Rightarrow> z\<lparr> tc_length := tc_length f \<rparr>
   | tk_objref \<Rightarrow> z\<lparr> repo_id := repo_id f \<rparr>
   | tk_except \<Rightarrow> z\<lparr> repo_id := repo_id f, sub_parts := sub_parts f \<rparr>
   | tk_struct \<Rightarrow> z\<lparr> repo_id := repo_id f, sub_parts := sub_parts f \<rparr>
   | tk_union \<Rightarrow> z\<lparr> repo_id := repo_id f, sub_parts := sub_parts f,
       default_index := default_index f, sublabels := sublabels f \<rparr>
   | tk_enum \<Rightarrow> z\<lparr> repo_id := repo_id f, sub_parts := sub_parts f, subnames := subnames f \<rparr>
   | tk_sequence \<Rightarrow> z\<lparr> tc_length := tc_length f \<rparr>
   | tk_array \<Rightarrow> z\<lparr> tc_length := tc_length f \<rparr>
   | tk_alias \<Rightarrow> z\<lparr> repo_id := repo_id f \<rparr>
   | tk_fixed \<Rightarrow> z\<lparr> digits := digits f, scale := scale f \<rparr>
   | _ \<Rightarrow> z)"

fun ident :: "bool \<Rightarrow> tc \<Rightarrow> tc" where
  "ident s (TC a f subs d) = (if \<not> s \<and> kind f = tk_alias
     then (case subs of Some t # _ \<Rightarrow> ident s t | _ \<Rightarrow> TC (Heap 0) (ident_fields f) [] None)
     else TC (Heap 0) (ident_fields f) (map (map_option (ident s)) subs) (map_option (ident s) d))"

lemma c_streq_strings: "string_ok x \<Longrightarrow> string_ok y \<Longrightarrow> c_streq x y = Inr (x = y)"
proof -
  assume "string_ok x" "string_ok y"
  then have xy: "c_string x" "c_string y" by (simp_all add: string_ok_def)
  then have "c_text x = c_text y \<longleftrightarrow> x = y" by (metis c_string_facts(3))
  with xy show "c_streq x y = Inr (x = y)" by (simp add: c_streq_def)
qed

lemma names_equal_strings:
  "length xs = n \<Longrightarrow> length ys = n \<Longrightarrow> list_all string_ok xs \<Longrightarrow> list_all string_ok ys \<Longrightarrow>
     names_equal n xs ys = Inr (xs = ys)"
proof (induction n xs ys rule: names_equal.induct)
  case (2 n x xs y ys)
  then show ?case by (auto simp: c_streq_strings)
qed auto

definition checks_pass :: "bool res list \<Rightarrow> bool" where
  "checks_pass cs \<longleftrightarrow> (\<forall>c \<in> set cs. c = Inr True)"

lemma checks_pass_simps [simp]:
  "checks_pass []" "checks_pass (c # cs) \<longleftrightarrow> c = Inr True \<and> checks_pass cs"
  "checks_pass (replicate n (Inr True))"
  by (auto simp: checks_pass_def)

lemma label_checks_equal:
  assumes "length ls = n" "length ms = n"
  shows "checks_pass (label_checks n ls ms) \<longleftrightarrow> ls = ms"
  using assms by (auto simp: checks_pass_def label_checks_def intro: nth_equalityI)

lemma label_checks_defined:
  "length ls = n \<Longrightarrow> length ms = n \<Longrightarrow> c \<in> set (label_checks n ls ms) \<Longrightarrow> \<exists>r. c = Inr r"
  by (auto simp: label_checks_def)

lemma label_checks_length [simp]: "length (label_checks n ls ms) = n"
  by (simp add: label_checks_def)

lemma ident_fields_kind [simp]: "kind (ident_fields f) = kind f"
  by (auto simp: ident_fields_def zero_fields_def Let_def split: TCKind.splits)

lemma ident_kind:
  "s \<or> tc_kind t \<noteq> tk_alias \<Longrightarrow> tc_kind (ident s t) = tc_kind t"
  by (cases t) auto

lemma tc_ok_alias:
  assumes "tc_ok m (TC a f subs d)" "kind f \<in> {tk_alias, tk_sequence, tk_array}"
  obtains t where "subs = [Some t]" "d = None" "tc_ok m t" "sub_parts f = 1"
  using assms by (cases subs; cases "hd subs") (auto simp: tc_shape_def Let_def)

lemma some_member:
  "list_all (pred_option P) xs \<Longrightarrow> None \<notin> set xs \<Longrightarrow> x \<in> set xs \<Longrightarrow> \<exists>u. x = Some u \<and> P u"
  by (cases x) (auto simp: list_all_iff)

text \<open>The kinds that have no parameters, and what it takes for each of the others to be equal.\<close>

definition plain :: "TCKind \<Rightarrow> bool" where
  "plain k \<longleftrightarrow> tk_type k = TK_EMPTY \<and> k \<notin> {tk_value, tk_value_box, tk_native, tk_abstract_interface, tk_recursive}"

lemma plain_ok: "tc_ok m t \<Longrightarrow> plain (tc_kind t) \<Longrightarrow> t = basic_tc m (tc_kind t)"
  by (cases t) (auto simp: tc_shape_def plain_def tk_type_def Let_def split: TCKind.splits)

lemma None_neq: "None \<noteq> x \<longleftrightarrow> (\<exists>y. x = Some y)"
  by (cases x) auto

lemma equiv_basic:
  "plain k \<Longrightarrow> typecode_equiv_internal s (basic_tc m k) (basic_tc m k) = Inr True"
  by (cases k) (simp_all add: plain_def tk_type_def basic_tc_def zero_fields_def)

lemma equiv_ident:
  "tc_ok m t \<Longrightarrow> tc_ok m u \<Longrightarrow> typecode_equiv_internal s t u = Inr (ident s t = ident s u)"
  "pred_option (tc_ok m) x \<Longrightarrow> pred_option (tc_ok m) y \<Longrightarrow> x \<noteq> None \<Longrightarrow> y \<noteq> None \<Longrightarrow>
     equiv_pointers s x y = Inr (map_option (ident s) x = map_option (ident s) y)"
  "list_all (pred_option (tc_ok m)) xs \<Longrightarrow> list_all (pred_option (tc_ok m)) ys \<Longrightarrow>
     None \<notin> set xs \<Longrightarrow> None \<notin> set ys \<Longrightarrow> length xs = length cs \<Longrightarrow> length ys = length cs \<Longrightarrow>
     (\<forall>c \<in> set cs. \<exists>r. c = Inr r) \<Longrightarrow>
     equiv_members s cs xs ys = Inr (checks_pass cs
       \<and> map (map_option (ident s)) xs = map (map_option (ident s)) ys)"
proof (induction s t u and s x y and s cs xs ys
    rule: typecode_equiv_internal_equiv_pointers_equiv_members.induct)
  case (1 s a f subs d a' f' subs' d')
  let ?t = "TC a f subs d" and ?u = "TC a' f' subs' d'"
  note ok = "1.prems"
  consider (left) "\<not> s" "kind f = tk_alias" | (right) "\<not> s" "kind f \<noteq> tk_alias" "kind f' = tk_alias"
    | (differ) "s \<or> kind f \<noteq> tk_alias \<and> kind f' \<noteq> tk_alias" "kind f \<noteq> kind f'"
    | (same) "s \<or> kind f \<noteq> tk_alias" "kind f = kind f'"
    by metis
  then show ?case
  proof cases
    case left
    obtain t where t: "subs = [Some t]" "tc_ok m t" using tc_ok_alias[OF ok(1)] left by auto
    show ?thesis using "1.IH"(1)[OF _ t(1)] left t ok by simp
  next
    case right
    obtain t where t: "subs' = [Some t]" "tc_ok m t" using tc_ok_alias[OF ok(2)] right by auto
    show ?thesis using "1.IH"(2)[OF _ _ t(1)] right t ok by simp
  next
    case differ
    then have "tc_kind (ident s ?t) \<noteq> tc_kind (ident s ?u)" using ident_kind[of s] by auto
    then show ?thesis using differ by auto
  next
    case same
    show ?thesis
    proof (cases "plain (kind f)")
      case True
      then have "?t = basic_tc m (kind f)" "?u = basic_tc m (kind f)"
        using plain_ok[OF ok(1)] plain_ok[OF ok(2)] same by auto
      then show ?thesis by (simp only: equiv_basic[OF True] simp_thms)
    next
      case False
      note simps = same ident_fields_def zero_fields_def tc_shape_def Let_def c_streq_strings
        names_equal_strings label_checks_equal label_checks_defined
      show ?thesis
      proof (cases "kind f")
        case tk_objref
        then show ?thesis using ok same by (auto simp: simps)
      next
        case tk_struct
        then show ?thesis using ok same "1.IH"(3) by (auto simp: simps)
      next
        case tk_except
        then show ?thesis using ok same "1.IH"(9) by (auto simp: simps)
      next
        case tk_union
        obtain e e' where d: "d = Some e" "d' = Some e'"
          using ok same(2) tk_union by (auto simp: tc_shape_def Let_def)
        have l: "length (sublabels f) = unat (sub_parts f)" "length (sublabels f') = unat (sub_parts f')"
          "length subs = unat (sub_parts f)" "length subs' = unat (sub_parts f')"
          "string_ok (repo_id f)" "string_ok (repo_id f')"
          using ok same(2) tk_union by (auto simp: tc_shape_def Let_def)
        have k: "kind f' = tk_union" using same(2) tk_union by simp
        have sub: "list_all (pred_option (tc_ok m)) subs" "list_all (pred_option (tc_ok m)) subs'"
          "None \<notin> set subs" "None \<notin> set subs'" "pred_option (tc_ok m) d" "pred_option (tc_ok m) d'"
          using ok by simp_all
        have P: "equiv_pointers s d d' = Inr (map_option (ident s) d = map_option (ident s) d')"
          if "sub_parts f = sub_parts f'"
          using "1.IH"(4)[where x = True] tk_union k sub d that by simp
        have M: "equiv_members s (label_checks (unat (sub_parts f)) (sublabels f) (sublabels f')) subs subs'
            = Inr (sublabels f = sublabels f'
                \<and> map (map_option (ident s)) subs = map (map_option (ident s)) subs')"
          if "sub_parts f = sub_parts f'" "default_index f = default_index f'"
          using "1.IH"(5)[where x = True and xa = True] tk_union k sub l that
            label_checks_equal[of "sublabels f" _ "sublabels f'"]
            label_checks_defined[of "sublabels f" _ "sublabels f'"] by simp
        show ?thesis
          using tk_union k l P M by (auto simp: ident_fields_def zero_fields_def c_streq_strings)
      next
        case tk_enum
        then show ?thesis using ok same by (auto simp: simps)
      next
        case tk_string
        then show ?thesis using ok same by (auto simp: simps)
      next
        case tk_wstring
        then show ?thesis using ok same by (auto simp: simps)
      next
        case tk_fixed
        then show ?thesis using ok same by (auto simp: simps)
      next
        case tk_sequence
        then show ?thesis using ok same "1.IH"(6) by (auto simp: simps)
      next
        case tk_array
        then show ?thesis using ok same "1.IH"(7) by (auto simp: simps)
      next
        case tk_alias
        then show ?thesis using ok same "1.IH"(8) by (auto simp: simps)
      qed (use False ok in \<open>simp_all add: plain_def tk_type_def tc_shape_def Let_def\<close>)
    qed
  qed
qed (auto simp: None_neq)

lemma ident_fields_idem [simp]: "ident_fields (ident_fields f) = ident_fields f"
  by (cases "kind f") (simp_all add: ident_fields_def zero_fields_def)

lemma ident_strict_first: "ident False (ident True t) = ident False t"
proof (induction t)
  case (TC a f subs d)
  have sub: "map_option (ident False \<circ> ident True) x = map_option (ident False) x" if "x \<in> set subs" for x
    using TC.IH(1)[OF that] by (cases x) auto
  have d: "map_option (ident False \<circ> ident True) d = map_option (ident False) d"
    using TC.IH(2) by (cases d) auto
  have hd: "ident False (ident True t) = ident False t" if "subs = Some t # ts" for t ts
    using TC.IH(1)[of "Some t" t] that by simp
  show ?case
    using sub d hd by (auto simp: comp_def option.map_comp split: list.splits option.splits)
qed

text \<open>C13. The comparison of two well-formed TypeCodes compares their kinds, repository ids, labels,
  bounds and members: \<^verbatim>\<open>CORBA_TypeCode_equal\<close> says that the structures agree in these,
  \<^verbatim>\<open>CORBA_TypeCode_equivalent\<close> that they agree once every alias is replaced by what it stands for.
  Both always return, both are equivalence relations, and equal TypeCodes are equivalent.\<close>

theorem typecode_comparison:
  assumes t: "tc_ok m t" and u: "tc_ok m u"
  shows "CORBA_TypeCode_equal t u = Inr (ident True t = ident True u)
    \<and> CORBA_TypeCode_equivalent t u = Inr (ident False t = ident False u)
    \<and> (ident True t = ident True u \<longrightarrow> CORBA_TypeCode_equivalent t u = Inr True)"
proof -
  have "ident False t = ident False u" if "ident True t = ident True u"
    using that ident_strict_first[of t] ident_strict_first[of u] by simp
  then show ?thesis
    using equiv_ident(1)[OF t u]
    by (simp add: CORBA_TypeCode_equal_def CORBA_TypeCode_equivalent_def)
qed

text \<open>A structure with a string and a long, and an alias of it.\<close>

definition sample_string_tc :: "nat \<Rightarrow> tc" where
  "sample_string_tc a = TC (Heap a) ((zero_fields tk_string)\<lparr> c_align := 8 \<rparr>) [] None"

definition sample_struct_tc :: "nat \<Rightarrow> tc" where
  "sample_struct_tc a = TC (Heap a) ((zero_fields tk_struct)\<lparr> c_align := 8, sub_parts := 2,
     tc_name := cstr ''S'', repo_id := cstr ''IDL:S:1.0'', subnames := [cstr ''s'', cstr ''n''] \<rparr>)
     [Some (sample_string_tc (a + 1)), Some (basic_tc x86_64 tk_long)] None"

definition sample_alias_tc :: "nat \<Rightarrow> tc" where
  "sample_alias_tc a = TC (Heap a) ((zero_fields tk_alias)\<lparr> c_align := 8, sub_parts := 1,
     tc_name := cstr ''A'', repo_id := cstr ''IDL:A:1.0'' \<rparr>) [Some (sample_struct_tc (a + 1))] None"

lemma sample_tcs_ok: "tc_ok x86_64 (sample_struct_tc a)" "tc_ok x86_64 (sample_alias_tc a)"
  by (simp_all add: sample_struct_tc_def sample_alias_tc_def sample_string_tc_def tc_shape_def
      zero_fields_def string_ok_def cstr_def c_string_def basic_tc_def)

theorem typecode_comparison_witness:
  "CORBA_TypeCode_equal (sample_alias_tc 1) (sample_struct_tc 5) = Inr False
   \<and> CORBA_TypeCode_equivalent (sample_alias_tc 1) (sample_struct_tc 5) = Inr True"
  using typecode_comparison[OF sample_tcs_ok(2)[of 1] sample_tcs_ok(1)[of 5]]
  by (simp add: sample_struct_tc_def sample_alias_tc_def sample_string_tc_def basic_tc_def
      zero_fields_def ident_fields_def)

section \<open>The operations of the TypeCode interface\<close>

text \<open>
  Each operation checks the kind and raises \<^verbatim>\<open>BadKind\<close>, the indexed ones then check the index and
  raise \<^verbatim>\<open>Bounds\<close>. A CORBA exception is a result; \<open>member\<close> is an access to an array of members.
\<close>

datatype tc_exception = BadKind | Bounds

type_synonym 'a tc_result = "(tc_exception + 'a) res"

definition member :: "'a list \<Rightarrow> u32 \<Rightarrow> 'a res" where
  "member xs i = (if unat i < length xs then Inr (xs ! unat i) else Inl Overrun)"

definition raise :: "tc_exception \<Rightarrow> 'a tc_result" where "raise e = Inr (Inl e)"

definition returns :: "'a res \<Rightarrow> 'a tc_result" where
  "returns r = rbind r (\<lambda>x. Inr (Inr x))"

definition CORBA_TypeCode_kind :: "tc \<Rightarrow> TCKind" where
  "CORBA_TypeCode_kind typecode = tc_kind typecode"

definition CORBA_TypeCode_id :: "tc \<Rightarrow> cblock tc_result" where
  "CORBA_TypeCode_id typecode = (if tc_kind typecode \<notin> {tk_objref, tk_value, tk_value_box,
       tk_abstract_interface, tk_native, tk_struct, tk_union, tk_enum, tk_alias, tk_except}
     then raise BadKind else returns (g_strdup (repo_id (tc_fields typecode))))"

definition CORBA_TypeCode_name :: "tc \<Rightarrow> cblock tc_result" where
  "CORBA_TypeCode_name typecode = (if tc_kind typecode \<notin> {tk_objref, tk_struct, tk_union, tk_enum,
       tk_alias, tk_abstract_interface, tk_value, tk_value_box, tk_native, tk_except}
     then raise BadKind else returns (g_strdup (tc_name (tc_fields typecode))))"

definition has_members :: "tc \<Rightarrow> bool" where
  "has_members t \<longleftrightarrow> tc_kind t \<in> {tk_struct, tk_union, tk_value, tk_enum, tk_except}"

definition CORBA_TypeCode_member_count :: "tc \<Rightarrow> u32 tc_result" where
  "CORBA_TypeCode_member_count typecode = (if \<not> has_members typecode then raise BadKind
     else returns (Inr (sub_parts (tc_fields typecode))))"

definition CORBA_TypeCode_member_name :: "tc \<Rightarrow> u32 \<Rightarrow> cblock tc_result" where
  "CORBA_TypeCode_member_name typecode index = (if \<not> has_members typecode then raise BadKind
     else if index > sub_parts (tc_fields typecode) then raise Bounds
     else returns (rbind (member (subnames (tc_fields typecode)) index) g_strdup))"

definition CORBA_TypeCode_member_type :: "tc \<Rightarrow> u32 \<Rightarrow> tc tc_result" where
  "CORBA_TypeCode_member_type typecode index = (if \<not> has_members typecode then raise BadKind
     else if index > sub_parts (tc_fields typecode) then raise Bounds
     else returns (rbind (member (subtypes typecode) index) deref))"

definition CORBA_TypeCode_discriminator_type :: "tc \<Rightarrow> tc tc_result" where
  "CORBA_TypeCode_discriminator_type typecode = (if tc_kind typecode \<noteq> tk_union then raise BadKind
     else returns (deref (discriminator typecode)))"

definition CORBA_TypeCode_default_index :: "tc \<Rightarrow> u32 tc_result" where
  "CORBA_TypeCode_default_index typecode = (if tc_kind typecode \<noteq> tk_union then raise BadKind
     else returns (Inr (default_index (tc_fields typecode))))"

definition CORBA_TypeCode_length :: "tc \<Rightarrow> u32 tc_result" where
  "CORBA_TypeCode_length typecode = (if tc_kind typecode \<notin> {tk_string, tk_wstring, tk_sequence, tk_array}
     then raise BadKind else returns (Inr (tc_length (tc_fields typecode))))"

definition CORBA_TypeCode_content_type :: "tc \<Rightarrow> tc tc_result" where
  "CORBA_TypeCode_content_type typecode =
     (if tc_kind typecode \<notin> {tk_sequence, tk_array, tk_value_box, tk_alias} then raise BadKind
      else if sub_parts (tc_fields typecode) \<noteq> 1 then Inl Abort
      else returns (rbind (member (subtypes typecode) 0) deref))"

definition CORBA_TypeCode_fixed_digits :: "tc \<Rightarrow> u16 tc_result" where
  "CORBA_TypeCode_fixed_digits typecode = (if tc_kind typecode \<noteq> tk_fixed then raise BadKind
     else returns (Inr (digits (tc_fields typecode))))"

definition CORBA_TypeCode_fixed_scale :: "tc \<Rightarrow> u16 tc_result" where
  "CORBA_TypeCode_fixed_scale typecode = (if tc_kind typecode \<noteq> tk_fixed then raise BadKind
     else returns (Inr (scale (tc_fields typecode))))"

text \<open>C15. The members of a well-formed structure, exception or union through its TypeCode: every
  index below the member count gives a name and a well-formed type, an index beyond the count is
  the exception \<^verbatim>\<open>Bounds\<close>, but the count itself passes the test and reads past both arrays.\<close>

theorem typecode_members:
  assumes t: "tc_ok m t" and k: "tc_kind t \<in> {tk_struct, tk_except, tk_union}"
  shows "CORBA_TypeCode_member_count t = Inr (Inr n) \<Longrightarrow>
      (i < n \<longrightarrow> (\<exists>s u. CORBA_TypeCode_member_name t i = Inr (Inr s)
         \<and> CORBA_TypeCode_member_type t i = Inr (Inr u) \<and> string_ok s \<and> tc_ok m u))
      \<and> (n < i \<longrightarrow> CORBA_TypeCode_member_name t i = Inr (Inl Bounds)
         \<and> CORBA_TypeCode_member_type t i = Inr (Inl Bounds))
      \<and> (i = n \<longrightarrow> CORBA_TypeCode_member_name t i = Inl Overrun
         \<and> CORBA_TypeCode_member_type t i = Inl Overrun)"
proof -
  assume n: "CORBA_TypeCode_member_count t = Inr (Inr n)"
  obtain a f subs d where T: "t = TC a f subs d" by (cases t)
  have K: "has_members t" using k by (auto simp: has_members_def)
  have N: "sub_parts f = n" using n K T by (simp add: CORBA_TypeCode_member_count_def returns_def)
  have L: "length subs = unat n" "length (subnames f) = unat n" "list_all string_ok (subnames f)"
      "None \<notin> set subs" "list_all (pred_option (tc_ok m)) subs"
    using t k T N by (auto simp: tc_shape_def Let_def)
  have "\<exists>s u. CORBA_TypeCode_member_name t i = Inr (Inr s)
      \<and> CORBA_TypeCode_member_type t i = Inr (Inr u) \<and> string_ok s \<and> tc_ok m u" if "i < n"
  proof -
    have i: "unat i < unat n" using that by (simp add: word_less_nat_alt)
    then have s: "string_ok (subnames f ! unat i)" using L by (simp add: list_all_length)
    have "subs ! unat i \<in> set subs" using i L by simp
    then obtain u where u: "subs ! unat i = Some u" "tc_ok m u"
      using some_member[OF L(5,4)] by blast
    have "\<not> i > n" using that by simp
    then show ?thesis using i s u L N T K
      by (simp add: CORBA_TypeCode_member_name_def CORBA_TypeCode_member_type_def member_def
          returns_def string_ok_def)
  qed
  moreover have "\<not> (n < n)" by simp
  ultimately show ?thesis using L N T K
    by (auto simp: CORBA_TypeCode_member_name_def CORBA_TypeCode_member_type_def member_def
        returns_def raise_def)
qed

theorem typecode_members_witness:
  "CORBA_TypeCode_member_name (sample_struct_tc 1) 2 = Inl Overrun
   \<and> CORBA_TypeCode_member_name (sample_struct_tc 1) 3 = Inr (Inl Bounds)"
proof -
  have n: "CORBA_TypeCode_member_count (sample_struct_tc 1) = Inr (Inr 2)"
    by (simp add: CORBA_TypeCode_member_count_def has_members_def sample_struct_tc_def zero_fields_def
        returns_def)
  have k: "tc_kind (sample_struct_tc 1) \<in> {tk_struct, tk_except, tk_union}"
    by (simp add: sample_struct_tc_def zero_fields_def)
  show ?thesis using typecode_members[OF sample_tcs_ok(1) k n, of 2]
      typecode_members[OF sample_tcs_ok(1) k n, of 3] by simp
qed

end
