(* ===== verification/Typecode_Coding.thy ===== *)
theory Typecode_Coding imports Typecode begin

text \<open>
  Encoding and decoding of TypeCodes (\<^verbatim>\<open>tc_enc\<close>, \<^verbatim>\<open>tc_dec\<close> of \<^verbatim>\<open>corba-typecode.c\<close>). A TypeCode
  met a second time is encoded as a reference back to the position of the first; the decoder keeps
  the TypeCodes it has built with their positions. The width of a pointer difference decides which
  references the decoder can follow: \<open>lp64\<close> says that it is 64 bits.
\<close>

section \<open>Encoding\<close>

text \<open>The prior TypeCodes with the value of the size field where they start, and the buffer.\<close>

type_synonym enc_state = "(addr \<times> u32) list \<times> sbuf"

definition CDR_put :: "byte list \<Rightarrow> enc_state \<Rightarrow> enc_state res" where
  "CDR_put bs s = Inr (fst s, sb_append bs (sb_align (length bs) (snd s)))"

definition CDR_put_ulong :: "u32 \<Rightarrow> enc_state \<Rightarrow> enc_state res" where
  "CDR_put_ulong w s = CDR_put (u32_bytes (s_host (snd s)) w) s"

definition CDR_put_ushort :: "u16 \<Rightarrow> enc_state \<Rightarrow> enc_state res" where
  "CDR_put_ushort w s = CDR_put (u16_bytes (s_host (snd s)) w) s"

definition CDR_put_string :: "cblock \<Rightarrow> enc_state \<Rightarrow> enc_state res" where
  "CDR_put_string str s = rbind (c_strlen str) (\<lambda>_. Inr (fst s, sb_append_string str (snd s)))"

text \<open>
  The label of a union member, converted to the discriminator's type (\<^verbatim>\<open>MEMBER_LOOPER\<close>): the low
  bytes of the 32-bit label, which is sign-extended to a 64-bit one. Labels are stored as 32-bit
  words.
\<close>

definition label_bytes :: "nat \<Rightarrow> endian \<Rightarrow> u32 \<Rightarrow> byte list" where
  "label_bytes w e l = (if w = 1 then [ucast l] else if w = 2 then u16_bytes e (ucast l)
     else if w = 8 then u64_bytes e (scast l) else u32_bytes e l)"

definition CDR_put_label :: "TCKind \<Rightarrow> u32 \<Rightarrow> enc_state \<Rightarrow> enc_state res" where
  "CDR_put_label k l s = (case label_width k of
     None \<Rightarrow> Inl Abort | Some w \<Rightarrow> CDR_put (label_bytes w (s_host (snd s)) l) s)"

text \<open>
  What is written for each of the \<open>n\<close> members before its type: the name, after the label if there
  is one. An array shorter than the count is left.
\<close>

type_synonym enc_step = "enc_state \<Rightarrow> enc_state res"

definition enc_seq :: "enc_step \<Rightarrow> enc_step \<Rightarrow> enc_step" where
  "enc_seq f g s = rbind (f s) g"

fun enc_names :: "nat \<Rightarrow> cblock list \<Rightarrow> enc_step list" where
  "enc_names 0 names = []"
| "enc_names (Suc n) (x # names) = CDR_put_string x # enc_names n names"
| "enc_names (Suc n) [] = (\<lambda>_. Inl Overrun) # enc_names n []"

fun enc_labels :: "TCKind \<Rightarrow> nat \<Rightarrow> u32 list \<Rightarrow> cblock list \<Rightarrow> enc_step list" where
  "enc_labels k 0 labels names = []"
| "enc_labels k (Suc n) (l # labels) (x # names) =
     enc_seq (CDR_put_label k l) (CDR_put_string x) # enc_labels k n labels names"
| "enc_labels k (Suc n) _ _ = (\<lambda>_. Inl Overrun) # enc_labels k n [] []"

fun enc_all :: "enc_step list \<Rightarrow> enc_step" where
  "enc_all [] s = Inr s"
| "enc_all (f # fs) s = rbind (f s) (enc_all fs)"

text \<open>
  \<^verbatim>\<open>tc_enc\<close>, the encoder of the TypeCode's kind (\<^verbatim>\<open>tc_enc_tk_struct\<close> and its like) and the loop over
  the members. The length of an encapsulation is written over a placeholder.
\<close>

definition back_ref_bytes :: "endian \<Rightarrow> u32 \<Rightarrow> byte list" where
  "back_ref_bytes e off = u32_bytes e CORBA_tk_recursive @ u32_bytes e off"

function (sequential) tc_enc :: "tc \<Rightarrow> enc_step"
  and tc_encoder :: "tc \<Rightarrow> enc_step"
  and enc_members :: "enc_step list \<Rightarrow> tc option list \<Rightarrow> enc_step" where
  "tc_enc (TC a f subs d) s = (let (prior, b) = s; b = sb_align 4 b in
    if kind f = tk_recursive then Inl Overrun
    else if tk_type (kind f) \<noteq> TK_EMPTY \<and> map_of prior a \<noteq> None then
      let b = sb_append_aligned (u32_bytes (s_host b) CORBA_tk_recursive) b;
          len = the (map_of prior a) - s_size b - 4
      in Inr (prior, sb_append_aligned (u32_bytes (s_host b) len) b)
    else
      let prior = (if tk_type (kind f) \<noteq> TK_EMPTY then (a, s_size b) # prior else prior);
          b = sb_append (u32_bytes (s_host b) (kind_code (kind f))) b
      in (case tk_type (kind f) of
        TK_EMPTY \<Rightarrow> Inr (prior, b)
      | TK_COMPLEX \<Rightarrow>
          let (marker, b) = sb_append_aligned_at (u32_bytes (s_host b) 0) b;
              tmp = s_size b;
              b = sb_append [GIOP_FLAG_ENDIANNESS (s_host b)] b
          in rbind (tc_encoder (TC a f subs d) (prior, b)) (\<lambda>(prior, b).
               Inr (prior, sb_patch marker (u32_bytes (s_host b) (s_size b - tmp)) b))
      | TK_SIMPLE \<Rightarrow> tc_encoder (TC a f subs d) (prior, b)))"
| "tc_encoder (TC a f subs d) s = (case kind f of
     tk_objref \<Rightarrow> enc_seq (CDR_put_string (repo_id f)) (CDR_put_string (tc_name f)) s
   | tk_sequence \<Rightarrow> (case subs of Some t # _ \<Rightarrow> rbind (tc_enc t s) (CDR_put_ulong (tc_length f))
       | _ \<Rightarrow> Inl Abort)
   | tk_array \<Rightarrow> (case subs of Some t # _ \<Rightarrow> rbind (tc_enc t s) (CDR_put_ulong (tc_length f))
       | _ \<Rightarrow> Inl Abort)
   | tk_string \<Rightarrow> CDR_put_ulong (tc_length f) s
   | tk_wstring \<Rightarrow> CDR_put_ulong (tc_length f) s
   | tk_struct \<Rightarrow> rbind (enc_seq (CDR_put_string (repo_id f)) (enc_seq (CDR_put_string (tc_name f))
         (CDR_put_ulong (sub_parts f))) s)
       (enc_members (enc_names (unat (sub_parts f)) (subnames f)) subs)
   | tk_except \<Rightarrow> rbind (enc_seq (CDR_put_string (repo_id f)) (enc_seq (CDR_put_string (tc_name f))
         (CDR_put_ulong (sub_parts f))) s)
       (enc_members (enc_names (unat (sub_parts f)) (subnames f)) subs)
   | tk_union \<Rightarrow> rbind (enc_seq (CDR_put_string (repo_id f)) (CDR_put_string (tc_name f)) s)
       (\<lambda>s. case d of None \<Rightarrow> Inl Abort | Some t \<Rightarrow> rbind (tc_enc t s) (\<lambda>s.
         rbind (enc_seq (CDR_put_ulong (default_index f)) (CDR_put_ulong (sub_parts f)) s)
           (if label_width (tc_kind t) = None then \<lambda>_. Inl Abort
            else enc_members (enc_labels (tc_kind t) (unat (sub_parts f)) (sublabels f) (subnames f)) subs)))
   | tk_enum \<Rightarrow> rbind (enc_seq (CDR_put_string (repo_id f)) (enc_seq (CDR_put_string (tc_name f))
         (CDR_put_ulong (sub_parts f))) s)
       (enc_all (enc_names (unat (sub_parts f)) (subnames f)))
   | tk_alias \<Rightarrow> rbind (enc_seq (CDR_put_string (repo_id f)) (CDR_put_string (tc_name f)) s)
       (\<lambda>s. case subs of Some t # _ \<Rightarrow> tc_enc t s | _ \<Rightarrow> Inl Abort)
   | tk_fixed \<Rightarrow> enc_seq (CDR_put_ushort (digits f)) (CDR_put_ushort (scale f)) s
   | _ \<Rightarrow> Inl Abort)"
| "enc_members [] subs s = Inr s"
| "enc_members (h # hs) [] s = Inl Overrun"
| "enc_members (h # hs) (x # subs) s = rbind (h s) (\<lambda>s. case x of None \<Rightarrow> Inl Abort
     | Some t \<Rightarrow> rbind (tc_enc t s) (enc_members hs subs))"

  by pat_completeness auto

termination
  by (relation "measure (\<lambda>x. case x of Inl (t, _) \<Rightarrow> 2 * size t + 1 | Inr (Inl (t, _)) \<Rightarrow> 2 * size t
      | Inr (Inr (_, ts, _)) \<Rightarrow> 2 * size_list (size_option size) ts)")
    (auto split: prod.splits)

definition MateCORBA_encode_CORBA_TypeCode :: "tc \<Rightarrow> sbuf \<Rightarrow> sbuf res" where
  "MateCORBA_encode_CORBA_TypeCode tc buf = rbind (tc_enc tc ([], buf)) (\<lambda>s. Inr (snd s))"

section \<open>Decoding\<close>

text \<open>
  The reads of the decoder tell success by a flag, and a failed read may be ignored: \<^verbatim>\<open>CDR_get\<close>
  aligns the reading position before it checks, so that it has moved even when the read fails.
  \<open>None\<close> is the result TRUE. Only reads outside the block and the ends of the process are errors
  of the model here.
\<close>

definition CDR_get :: "nat \<Rightarrow> 'a reader \<Rightarrow> 'a option reader" where
  "CDR_get n m = rd_bind (rd_align n) (\<lambda>_ b. if r_cur b + n > r_end b then Inr (None, b)
     else rd_bind m (\<lambda>w. rd_ret (Some w)) b)"

definition CDR_get_ulong :: "u32 option reader" where "CDR_get_ulong = CDR_get 4 rd_u32"
definition CDR_get_ushort :: "u16 option reader" where "CDR_get_ushort = CDR_get 2 rd_u16"

definition CDR_get_const_string :: "cblock option reader" where
  "CDR_get_const_string = rd_bind CDR_get_ulong (\<lambda>r b. case r of None \<Rightarrow> Inr (None, b)
     | Some len \<Rightarrow> if r_cur b + unat len > r_end b then Inr (None, b)
         else rd_bind (rd_bytes (unat len)) (\<lambda>s. rd_ret (Some s)) b)"

text \<open>
  The decoder's context: where the current encapsulation starts, counted from the outermost buffer,
  the TypeCodes built so far with their positions, and a counter for fresh addresses. A step works
  on the structure under construction and the context and says whether it failed.
\<close>

record dec_ctx =
  current_idx :: u32
  prior_tcs :: "(tc option \<times> u32) list"
  fresh :: nat

type_synonym dec_step = "tc \<times> dec_ctx \<Rightarrow> (bool \<times> tc \<times> dec_ctx) reader"

definition dec_ok :: dec_step where "dec_ok s = rd_ret (False, s)"

definition dec_seq :: "dec_step \<Rightarrow> dec_step \<Rightarrow> dec_step" where
  "dec_seq f g s = rd_bind (f s) (\<lambda>(failed, s). if failed then rd_ret (True, s) else g s)"

text \<open>Storing what was read in a member of the structure, and a step whose failure is ignored.\<close>

fun upd_fields :: "(tc_fields \<Rightarrow> tc_fields) \<Rightarrow> tc \<Rightarrow> tc" where
  "upd_fields g (TC a f subs d) = TC a (g f) subs d"

fun upd_subtypes :: "(tc option list \<Rightarrow> tc option list) \<Rightarrow> tc \<Rightarrow> tc" where
  "upd_subtypes g (TC a f subs d) = TC a f (g subs) d"

fun set_discriminator :: "tc option \<Rightarrow> tc \<Rightarrow> tc" where
  "set_discriminator x (TC a f subs d) = TC a f subs x"

definition dec_get :: "'a option reader \<Rightarrow> ('a \<Rightarrow> tc \<Rightarrow> tc) \<Rightarrow> dec_step" where
  "dec_get m store = (\<lambda>(t, c). rd_bind m (\<lambda>r. case r of None \<Rightarrow> rd_ret (True, t, c)
     | Some v \<Rightarrow> rd_ret (False, store v t, c)))"

definition dec_ignore :: "dec_step \<Rightarrow> dec_step" where
  "dec_ignore f s = rd_bind (f s) (\<lambda>(failed, s). rd_ret (False, s))"

definition dec_set :: "(tc \<Rightarrow> tc) \<Rightarrow> dec_step" where
  "dec_set g = (\<lambda>(t, c). rd_ret (False, g t, c))"

text \<open>A nested TypeCode: the result of \<^verbatim>\<open>tc_dec\<close> is a pointer, NULL for a kind without an entry.\<close>

type_synonym tc_decoder = "dec_ctx \<Rightarrow> (tc option option \<times> dec_ctx) reader"

definition dec_tc :: "tc_decoder \<Rightarrow> (tc option \<Rightarrow> tc \<Rightarrow> tc) \<Rightarrow> dec_step" where
  "dec_tc dec store = (\<lambda>(t, c). rd_bind (dec c) (\<lambda>(r, c). case r of None \<Rightarrow> rd_ret (True, t, c)
     | Some p \<Rightarrow> rd_ret (False, store p t, c)))"

fun dec_loop :: "(nat \<Rightarrow> dec_step) \<Rightarrow> nat \<Rightarrow> nat \<Rightarrow> dec_step" where
  "dec_loop step i 0 = dec_ok"
| "dec_loop step i (Suc n) = dec_seq (step i) (dec_loop step (Suc i) n)"

definition store_repo_id :: "cblock \<Rightarrow> tc \<Rightarrow> tc" where "store_repo_id s = upd_fields (repo_id_update (\<lambda>_. s))"
definition store_name :: "cblock \<Rightarrow> tc \<Rightarrow> tc" where "store_name s = upd_fields (tc_name_update (\<lambda>_. s))"
definition store_length :: "u32 \<Rightarrow> tc \<Rightarrow> tc" where "store_length n = upd_fields (tc_length_update (\<lambda>_. n))"
definition store_sub_parts :: "u32 \<Rightarrow> tc \<Rightarrow> tc" where "store_sub_parts n = upd_fields (sub_parts_update (\<lambda>_. n))"
definition store_subname :: "nat \<Rightarrow> cblock \<Rightarrow> tc \<Rightarrow> tc" where
  "store_subname i s = upd_fields (subnames_update (\<lambda>xs. xs[i := s]))"
definition store_sublabel :: "nat \<Rightarrow> u32 \<Rightarrow> tc \<Rightarrow> tc" where
  "store_sublabel i l = upd_fields (sublabels_update (\<lambda>xs. xs[i := l]))"
definition store_subtype :: "nat \<Rightarrow> tc option \<Rightarrow> tc \<Rightarrow> tc" where
  "store_subtype i p = upd_subtypes (\<lambda>xs. xs[i := p])"

definition alloc_subnames :: "tc \<Rightarrow> tc" where
  "alloc_subnames t = upd_fields (subnames_update (\<lambda>_. replicate (parts t) [])) t"
definition alloc_sublabels :: "tc \<Rightarrow> tc" where
  "alloc_sublabels t = upd_fields (sublabels_update (\<lambda>_. replicate (parts t) 0)) t"
definition alloc_subtypes :: "nat \<Rightarrow> tc \<Rightarrow> tc" where
  "alloc_subtypes n = upd_subtypes (\<lambda>_. replicate n None)"

text \<open>Storing the number of members, and allocating the arrays for them at once.\<close>

definition store_members :: "u32 \<Rightarrow> tc \<Rightarrow> tc" where
  "store_members n t = (let t = store_sub_parts n t in alloc_subtypes (parts t) (alloc_subnames t))"
definition store_labelled_members :: "u32 \<Rightarrow> tc \<Rightarrow> tc" where
  "store_labelled_members n t = alloc_sublabels (store_members n t)"
definition store_names :: "u32 \<Rightarrow> tc \<Rightarrow> tc" where
  "store_names n t = alloc_subnames (store_sub_parts n t)"

text \<open>A label is read in the width of the discriminator and stored as a 32-bit one.\<close>

definition label_reader :: "TCKind \<Rightarrow> u32 option reader" where
  "label_reader k = (case label_width k of
     Some w \<Rightarrow> if w = 1 then CDR_get 1 (rd_bind rd_byte (\<lambda>c. rd_ret
           (if k = tk_char then scast c else ucast c)))
       else if w = 2 then CDR_get 2 (rd_bind rd_u16 (\<lambda>c. rd_ret
           (if k = tk_short then scast c else ucast c)))
       else if w = 8 then CDR_get 8 (rd_bind rd_u64 (\<lambda>c. rd_ret (ucast c)))
       else CDR_get_ulong
   | None \<Rightarrow> rd_fail Abort)"

text \<open>
  The decoders of the kinds. All arrays are cleared when they are allocated, but for the one element of an array's
  TypeCode (\<^verbatim>\<open>g_new\<close> in \<^verbatim>\<open>tc_dec_tk_array\<close>): it is missing from the list until it is stored.
\<close>

definition alloc_uninitialised :: "tc \<Rightarrow> tc" where
  "alloc_uninitialised = upd_subtypes (\<lambda>_. [])"
definition store_element :: "tc option \<Rightarrow> tc \<Rightarrow> tc" where
  "store_element p = upd_subtypes (\<lambda>_. [p])"

definition tc_dec_tk_objref :: dec_step where
  "tc_dec_tk_objref = dec_seq (dec_get CDR_get_const_string store_repo_id)
     (dec_get CDR_get_const_string store_name)"

definition tc_dec_tk_sequence :: "tc_decoder \<Rightarrow> dec_step" where
  "tc_dec_tk_sequence dec = dec_seq (dec_set (alloc_subtypes 1)) (dec_seq (dec_tc dec (store_subtype 0))
     (dec_seq (dec_set (store_sub_parts 1)) (dec_get CDR_get_ulong store_length)))"

definition tc_dec_tk_string :: dec_step where
  "tc_dec_tk_string = dec_get CDR_get_ulong store_length"

definition tc_dec_tk_struct :: "tc_decoder \<Rightarrow> dec_step" where
  "tc_dec_tk_struct dec = dec_seq (dec_get CDR_get_const_string store_repo_id)
     (dec_seq (dec_get CDR_get_const_string store_name) (dec_seq (dec_get CDR_get_ulong store_members)
     (\<lambda>s. dec_loop (\<lambda>i. dec_seq (dec_get CDR_get_const_string (store_subname i))
        (dec_tc dec (store_subtype i))) 0 (parts (fst s)) s)))"

definition tc_dec_tk_union :: "tc_decoder \<Rightarrow> dec_step" where
  "tc_dec_tk_union dec = dec_seq (dec_get CDR_get_const_string store_repo_id)
     (dec_seq (dec_get CDR_get_const_string store_name) (dec_seq (dec_tc dec set_discriminator)
     (dec_seq (dec_get CDR_get_ulong (\<lambda>n. upd_fields (default_index_update (\<lambda>_. n))))
     (dec_seq (dec_get CDR_get_ulong store_labelled_members)
     (\<lambda>s. case discriminator (fst s) of None \<Rightarrow> rd_fail Abort
        | Some e \<Rightarrow> if label_width (tc_kind e) = None then rd_fail Abort
          else dec_loop (\<lambda>i. dec_seq (dec_get (label_reader (tc_kind e)) (store_sublabel i))
            (dec_seq (dec_get CDR_get_const_string (store_subname i))
              (dec_tc dec (store_subtype i)))) 0 (parts (fst s)) s)))))"

definition tc_dec_tk_enum :: dec_step where
  "tc_dec_tk_enum = dec_seq (dec_get CDR_get_const_string store_repo_id)
     (dec_seq (dec_get CDR_get_const_string store_name) (dec_seq (dec_get CDR_get_ulong store_names)
     (\<lambda>s. dec_loop (\<lambda>i. dec_get CDR_get_const_string (store_subname i)) 0 (parts (fst s)) s)))"

definition tc_dec_tk_alias :: "tc_decoder \<Rightarrow> dec_step" where
  "tc_dec_tk_alias dec = dec_seq (dec_ignore (dec_get CDR_get_const_string store_repo_id))
     (dec_seq (dec_ignore (dec_get CDR_get_const_string store_name))
     (dec_seq (dec_set (alloc_subtypes 1)) (dec_seq (dec_tc dec (store_subtype 0))
       (dec_set (store_sub_parts 1)))))"

definition tc_dec_tk_except :: "tc_decoder \<Rightarrow> dec_step" where
  "tc_dec_tk_except = tc_dec_tk_struct"

definition tc_dec_tk_array :: "tc_decoder \<Rightarrow> dec_step" where
  "tc_dec_tk_array dec = dec_seq (dec_set alloc_uninitialised) (dec_seq (dec_tc dec store_element)
     (dec_seq (dec_set (store_sub_parts 1)) (dec_get CDR_get_ulong store_length)))"

definition tc_dec_tk_wstring :: dec_step where
  "tc_dec_tk_wstring = dec_get CDR_get_ulong store_length"

definition tc_dec_tk_fixed :: dec_step where
  "tc_dec_tk_fixed = dec_seq (dec_get CDR_get_ushort (\<lambda>n. upd_fields (digits_update (\<lambda>_. n))))
     (dec_get CDR_get_ushort (\<lambda>n. upd_fields (scale_update (\<lambda>_. n))))"

definition tk_decoder :: "tc_decoder \<Rightarrow> TCKind \<Rightarrow> dec_step" where
  "tk_decoder dec k = (case k of
     tk_objref \<Rightarrow> tc_dec_tk_objref | tk_struct \<Rightarrow> tc_dec_tk_struct dec
   | tk_union \<Rightarrow> tc_dec_tk_union dec | tk_enum \<Rightarrow> tc_dec_tk_enum | tk_string \<Rightarrow> tc_dec_tk_string
   | tk_sequence \<Rightarrow> tc_dec_tk_sequence dec | tk_array \<Rightarrow> tc_dec_tk_array dec
   | tk_alias \<Rightarrow> tc_dec_tk_alias dec | tk_except \<Rightarrow> tc_dec_tk_except dec
   | tk_wstring \<Rightarrow> tc_dec_tk_wstring | tk_fixed \<Rightarrow> tc_dec_tk_fixed
   | _ \<Rightarrow> (\<lambda>_. rd_fail Abort))"

text \<open>
  The test of a back reference, \<^verbatim>\<open>offset == node->index - ctx->current_idx - get_rptr (c)\<close>: the first
  difference is one of 32-bit unsigned numbers, the second has the width of a pointer difference, and
  the offset is a signed 32-bit number.
\<close>

definition back_ref_hit :: "bool \<Rightarrow> u32 \<Rightarrow> u32 \<Rightarrow> u32 \<Rightarrow> nat \<Rightarrow> bool" where
  "back_ref_hit lp64 offset idx cur rptr = (if lp64 then sint offset = uint (idx - cur) - int rptr
     else offset = idx - cur - of_nat rptr)"

definition get_rptr :: "rbuf \<Rightarrow> nat" where "get_rptr b = r_cur b - r_body b"

text \<open>
  \<^verbatim>\<open>tc_dec\<close>, with the number of TypeCodes it may descend through as fuel: a reference back, or a
  node, whose start is remembered with it. An encapsulation that
  does not fit is a NULL buffer, which the decoder of the kind follows. What that decoder says
  about its success is not looked at.
\<close>

definition tc_encaps :: "'a reader \<Rightarrow> 'a reader" where
  "tc_encaps m b = (case giop_recv_buffer_use_encaps_buf b of
     Inl Broken \<Rightarrow> Inl Abort | Inl e \<Rightarrow> Inl e | Inr (encaps, b) \<Rightarrow> rd_sub m encaps b)"

definition aligned :: "abi \<Rightarrow> tc \<Rightarrow> dec_ctx \<Rightarrow> (tc option \<times> dec_ctx) reader" where
  "aligned m t ctx b = rbind (find_c_alignment m t) (\<lambda>v.
     Inr ((Some (upd_fields (c_align_update (\<lambda>_. v)) t), ctx), b))"

definition dec_back_ref :: "bool \<Rightarrow> tc_decoder" where
  "dec_back_ref lp64 ctx = rd_bind CDR_get_ulong (\<lambda>r. case r of None \<Rightarrow> rd_ret (None, ctx)
     | Some offset \<Rightarrow> (\<lambda>b.
         case List.find (\<lambda>(t, idx). back_ref_hit lp64 offset idx (current_idx ctx) (get_rptr b))
           (prior_tcs ctx) of
           Some (p, idx) \<Rightarrow> rd_ret (Some p, ctx) b
         | None \<Rightarrow> rd_fail Abort b))"

definition dec_body :: "abi \<Rightarrow> tc_decoder \<Rightarrow> TCKind \<Rightarrow> u32 \<Rightarrow> dec_ctx \<Rightarrow> (tc option \<times> dec_ctx) reader" where
  "dec_body m dec kd inner ctx = (let tc = TC (Heap (fresh ctx)) (zero_fields kd) [] None;
       ctx' = ctx\<lparr> fresh := Suc (fresh ctx) \<rparr>
     in case tk_type kd of
       TK_EMPTY \<Rightarrow> rd_ret (tk_basic_type m kd, ctx)
     | TK_COMPLEX \<Rightarrow>
         rd_bind (tc_encaps (tk_decoder dec kd (tc, ctx'\<lparr> current_idx := inner \<rparr>))) (\<lambda>(failed, tc, ctx').
           aligned m tc (ctx'\<lparr> current_idx := current_idx ctx \<rparr>))
     | TK_SIMPLE \<Rightarrow> rd_bind (tk_decoder dec kd (tc, ctx')) (\<lambda>(failed, tc, ctx). aligned m tc ctx))"

definition dec_node :: "abi \<Rightarrow> tc_decoder \<Rightarrow> TCKind \<Rightarrow> tc_decoder" where
  "dec_node m dec kd ctx b = rd_bind
     (dec_body m dec kd (current_idx ctx + of_nat (get_rptr b) + 4) ctx)
     (\<lambda>(p, ctx'). rd_ret (Some p, ctx'\<lparr> prior_tcs :=
         (p, current_idx ctx + of_nat (get_rptr b) - 4) # prior_tcs ctx' \<rparr>)) b"

fun tc_dec :: "abi \<Rightarrow> bool \<Rightarrow> nat \<Rightarrow> tc_decoder" where
  "tc_dec m lp64 0 ctx = rd_fail Abort"
| "tc_dec m lp64 (Suc n) ctx = rd_bind CDR_get_ulong (\<lambda>r. case r of None \<Rightarrow> rd_ret (None, ctx)
     | Some lkind \<Rightarrow>
       if lkind \<ge> CORBA_tk_last then
         if lkind \<noteq> CORBA_tk_recursive then rd_ret (None, ctx) else dec_back_ref lp64 ctx
       else dec_node m (tc_dec m lp64 n) (kind_of_code lkind) ctx)"

definition MateCORBA_decode_CORBA_TypeCode :: "abi \<Rightarrow> bool \<Rightarrow> nat \<Rightarrow> tc option option reader" where
  "MateCORBA_decode_CORBA_TypeCode m lp64 n b = rd_bind
     (tc_dec m lp64 (Suc (r_end b - r_cur b)) \<lparr> current_idx = 0, prior_tcs = [], fresh = n \<rparr>)
     (\<lambda>(r, ctx). rd_ret r) b"

end
