(* ===== verification/Typecode_Safety.thy ===== *)
theory Typecode_Safety imports Typecode_Coding begin

text \<open>
  The decoder on arbitrary bytes: it always returns or ends the process, it never reads outside the
  message (but for the octet of an empty encapsulation), and the fuel of the model is enough,
  because every TypeCode inside another one is inside a smaller encapsulation.
\<close>

section \<open>Two readers that agree\<close>

text \<open>
  \<open>agree_on M N Q m m'\<close>: on buffers on the block \<open>M\<close> with less than \<open>N\<close> bytes left the two readers do the same, and
  this is either to end the process or to return a value with \<open>Q\<close>, the reading position moved
  forward.
\<close>

definition left :: "rbuf \<Rightarrow> nat" where "left b = r_end b - r_cur b"

text \<open>
  The process ends, or the octet of an empty encapsulation at the very end of the block is read, or, where the block has
  the kind of an array in it, a pointer is followed that nothing was stored in.
\<close>

definition announces_array :: "byte list \<Rightarrow> bool" where
  "announces_array M \<longleftrightarrow> (\<exists>p e. slice p 4 M = u32_bytes e (kind_code tk_array))"

definition dies :: "rbuf \<Rightarrow> err \<Rightarrow> bool" where
  "dies b e \<longleftrightarrow> e = Abort \<or> e = Overrun \<and> \<not> rwf 1 b \<or> e = Wild \<and> announces_array (r_mem b)"

lemma dies_Abort [simp]: "dies b Abort"
  by (simp add: dies_def)

lemma moved_mem: "moved b c \<Longrightarrow> r_mem c = r_mem b"
  unfolding moved_def by (metis rbuf.select_convs(2) rbuf.surjective rbuf.update_convs(8))

lemma moved_dies: "moved b c \<Longrightarrow> dies c e \<Longrightarrow> dies b e"
  using moved_rwf[of b c 1] moved_mem[of b c] by (auto simp: dies_def)

definition agree_on :: "byte list \<Rightarrow> nat \<Rightarrow> ('a \<Rightarrow> bool) \<Rightarrow> 'a reader \<Rightarrow> 'a reader \<Rightarrow> bool" where
  "agree_on M N Q m m' \<longleftrightarrow> (\<forall>b. rwf 0 b \<longrightarrow> r_mem b = M \<longrightarrow> left b < N \<longrightarrow> m' b = m b \<and>
     (case m b of Inl e \<Rightarrow> dies b e | Inr (v, b') \<Rightarrow> moved b b' \<and> Q v))"

abbreviation agree :: "byte list \<Rightarrow> nat \<Rightarrow> 'a reader \<Rightarrow> 'a reader \<Rightarrow> bool" where
  "agree M N \<equiv> agree_on M N (\<lambda>_. True)"

lemmas agree_def = agree_on_def

lemma agree_onI:
  "(\<And>b. rwf 0 b \<Longrightarrow> r_mem b = M \<Longrightarrow> left b < N \<Longrightarrow> m' b = m b \<and>
     (case m b of Inl e \<Rightarrow> dies b e | Inr (v, b') \<Rightarrow> moved b b' \<and> Q v)) \<Longrightarrow> agree_on M N Q m m'"
  by (simp add: agree_on_def)

lemma moved_left: "moved b b' \<Longrightarrow> left b' \<le> left b"
  by (simp add: moved_def left_def) (metis diff_le_mono2 rbuf.select_convs(9) rbuf.surjective rbuf.update_convs(8))

lemma agree_bind:
  assumes m: "agree_on M N Q m m'" and k: "\<And>x. Q x \<Longrightarrow> agree_on M N R (k x) (k' x)"
  shows "agree_on M N R (rd_bind m k) (rd_bind m' k')"
proof (rule agree_onI)
  fix b assume b: "rwf 0 b" "r_mem b = M" "left b < N"
  show "rd_bind m' k' b = rd_bind m k b \<and>
     (case rd_bind m k b of Inl e \<Rightarrow> dies b e | Inr (v, b') \<Rightarrow> moved b b' \<and> R v)"
  proof (cases "m b")
    case (Inl e)
    then show ?thesis using m b by (auto simp: agree_def rd_bind_def)
  next
    case (Inr vb)
    then obtain v c where v: "m b = Inr (v, c)" by (cases vb) auto
    have mv: "m' b = m b" "moved b c" "Q v" using m b v by (auto simp: agree_def split: sum.splits prod.splits)
    have c: "rwf 0 c" "r_mem c = M" "left c < N"
      using mv b moved_rwf moved_left[OF mv(2)] moved_mem[OF mv(2)] by auto
    then show ?thesis using k[OF mv(3)] mv v
      by (auto simp: agree_def rd_bind_def moved_trans[OF mv(2)] moved_dies[OF mv(2)] split: sum.splits prod.splits)
  qed
qed

lemma agree_ret: "Q v \<Longrightarrow> agree_on M N Q (rd_ret v) (rd_ret v)"
  by (simp add: agree_def rd_ret_def)

lemma agree_abort: "agree_on M N Q (rd_fail Abort) (rd_fail Abort)"
  by (simp add: agree_def rd_fail_def)

text \<open>A read that is checked first.\<close>

lemma agree_checked:
  assumes "safe {} 0 n m" and never: "\<And>b. m b \<noteq> Inl Broken"
  shows "agree M N (\<lambda>b. if r_cur b + n > r_end b then Inr (None, b) else rd_bind m (\<lambda>w. rd_ret (Some w)) b)
    (\<lambda>b. if r_cur b + n > r_end b then Inr (None, b) else rd_bind m (\<lambda>w. rd_ret (Some w)) b)"
proof (rule agree_onI, rule conjI[OF refl])
  fix b assume "rwf 0 b"
  then have b: "rwf 0 b" by (simp add: rwf_def)
  show "case if r_cur b + n > r_end b then Inr (None, b) else rd_bind m (\<lambda>w. rd_ret (Some w)) b of
      Inl e \<Rightarrow> dies b e | Inr (v, b') \<Rightarrow> moved b b' \<and> True"
  proof (cases "r_cur b + n > r_end b")
    case False
    then have a: "avail n b" by (simp add: avail_def)
    have "case m b of Inl e \<Rightarrow> e \<in> insert Broken {} | Inr (v, b') \<Rightarrow> moved b b'"
      using assms(1) b a by (simp add: safe_def)
    then show ?thesis using never[of b] False
      by (auto simp: rd_bind_def rd_ret_def split: sum.splits)
  qed simp
qed

lemma never_broken:
  "rd_bytes n b \<noteq> Inl Broken" "rd_load n sw b \<noteq> Inl Broken" "rd_u16 b \<noteq> Inl Broken"
  "rd_u32 b \<noteq> Inl Broken" "rd_u64 b \<noteq> Inl Broken" "rd_byte b \<noteq> Inl Broken"
  by (simp_all add: rd_bytes_def rd_load_def rd_u16_def rd_u32_def rd_u64_def rd_byte_def rd_bind_def
      rd_ret_def)

lemma never_broken_map: "(\<And>b. m b \<noteq> Inl Broken) \<Longrightarrow> rd_bind m (\<lambda>x. rd_ret (f x)) b \<noteq> Inl Broken"
  by (cases "m b") (auto simp: rd_bind_def rd_ret_def)

lemma agree_CDR_get:
  assumes "0 < n" "safe {} 0 n m" "\<And>b. m b \<noteq> Inl Broken"
  shows "agree M N (CDR_get n m) (CDR_get n m)"
  unfolding CDR_get_def
proof (rule agree_bind)
  show "agree M N (rd_align n) (rd_align n)"
    using assms(1) by (simp add: agree_def rd_align_def moved_def ALIGN_VALUE_ge)
  show "agree M N (\<lambda>b. if r_cur b + n > r_end b then Inr (None, b) else rd_bind m (\<lambda>w. rd_ret (Some w)) b)
    (\<lambda>b. if r_cur b + n > r_end b then Inr (None, b) else rd_bind m (\<lambda>w. rd_ret (Some w)) b)"
    by (rule agree_checked[OF assms(2,3)])
qed

lemma agree_CDR_get_ulong: "agree M N CDR_get_ulong CDR_get_ulong"
  unfolding CDR_get_ulong_def by (rule agree_CDR_get) (simp_all add: safe_u32 never_broken)

lemma agree_CDR_get_ushort: "agree M N CDR_get_ushort CDR_get_ushort"
  unfolding CDR_get_ushort_def by (rule agree_CDR_get) (simp_all add: safe_u16 never_broken)

lemma agree_CDR_get_const_string: "agree M N CDR_get_const_string CDR_get_const_string"
  unfolding CDR_get_const_string_def
proof (rule agree_bind[OF agree_CDR_get_ulong])
  fix r :: "u32 option"
  have "agree M N (\<lambda>b. if r_cur b + unat len > r_end b then Inr (None, b)
        else rd_bind (rd_bytes (unat len)) (\<lambda>s. rd_ret (Some s)) b)
      (\<lambda>b. if r_cur b + unat len > r_end b then Inr (None, b)
        else rd_bind (rd_bytes (unat len)) (\<lambda>s. rd_ret (Some s)) b)" for len :: u32
    by (rule agree_checked) (simp_all add: safe_bytes never_broken)
  then show "agree M N (\<lambda>b. case r of None \<Rightarrow> Inr (None, b)
      | Some len \<Rightarrow> if r_cur b + unat len > r_end b then Inr (None, b)
          else rd_bind (rd_bytes (unat len)) (\<lambda>s. rd_ret (Some s)) b)
    (\<lambda>b. case r of None \<Rightarrow> Inr (None, b)
      | Some len \<Rightarrow> if r_cur b + unat len > r_end b then Inr (None, b)
          else rd_bind (rd_bytes (unat len)) (\<lambda>s. rd_ret (Some s)) b)"
    by (cases r) (auto simp: agree_def)
qed

lemma agree_label_reader: "agree M N (label_reader k) (label_reader k)"
  unfolding label_reader_def label_width_def
  by (auto intro!: agree_CDR_get agree_CDR_get_ulong agree_abort safe_byte_bind safe_u16_bind
      safe_u64_bind safe_ret never_broken_map never_broken)

section \<open>The structures the decoder builds\<close>

text \<open>
  \<open>sized\<close>: a structure that has members has room for as many as it counts, and an array has its element; the loop that
  computes its alignment stays inside the array. \<open>nearly\<close>: the same of a structure under construction, which may be an array
  without its element.
\<close>

fun sized :: "tc \<Rightarrow> bool" where
  "sized (TC a f subs d) \<longleftrightarrow>
     (kind f \<in> {tk_struct, tk_except, tk_union} \<longrightarrow> unat (sub_parts f) \<le> length subs)
     \<and> (kind f = tk_array \<longrightarrow> subs \<noteq> []) \<and> list_all (pred_option sized) subs \<and> pred_option sized d"

lemma find_c_alignment_sized:
  "sized t \<Longrightarrow> find_c_alignment m t = Inl e \<Longrightarrow> e = Abort"
  "n \<le> length subs \<Longrightarrow> list_all (pred_option sized) subs \<Longrightarrow> max_c_alignment m v n subs = Inl e \<Longrightarrow> e = Abort"
proof (induction m t and m v n subs arbitrary: e and e rule: find_c_alignment_max_c_alignment.induct)
  case (1 m a f subs d)
  then show ?case
    by (cases "kind f") (auto split: list.splits option.splits simp: rbind_def split: sum.splits)
qed (auto simp: rbind_def split: sum.splits)

fun nearly :: "tc \<Rightarrow> bool" where
  "nearly (TC a f subs d) \<longleftrightarrow>
     (kind f \<in> {tk_struct, tk_except, tk_union} \<longrightarrow> unat (sub_parts f) \<le> length subs)
     \<and> list_all (pred_option sized) subs \<and> pred_option sized d"

lemma sized_nearly: "sized t \<longleftrightarrow> nearly t \<and> (tc_kind t = tk_array \<longrightarrow> subtypes t \<noteq> [])"
  by (cases t) auto

lemma find_c_alignment_nearly:
  assumes "nearly t"
  shows "sized t \<or> tc_kind t = tk_array \<and> find_c_alignment m t = Inl Wild"
  using assms by (cases t) (auto split: list.splits)

lemma sized_basic: "k \<noteq> tk_array \<Longrightarrow> sized (basic_tc m k)"
  by (simp add: basic_tc_def zero_fields_def)

lemma sized_fields: "sized (upd_fields (c_align_update g) t) = sized t"
  by (cases t) simp

definition ctx_ok :: "dec_ctx \<Rightarrow> bool" where
  "ctx_ok c \<longleftrightarrow> (\<forall>(p, i) \<in> set (prior_tcs c). pred_option sized p)"

definition state_ok :: "TCKind \<Rightarrow> tc \<times> dec_ctx \<Rightarrow> bool" where
  "state_ok k s \<longleftrightarrow> tc_kind (fst s) = k \<and> nearly (fst s) \<and> ctx_ok (snd s)"

definition keeps :: "TCKind \<Rightarrow> (tc \<Rightarrow> tc) \<Rightarrow> bool" where
  "keeps k g \<longleftrightarrow> (\<forall>t. tc_kind t = k \<longrightarrow> nearly t \<longrightarrow> tc_kind (g t) = k \<and> nearly (g t))"

lemma keeps_stores:
  "keeps k (store_repo_id s)" "keeps k (store_name s)" "keeps k (store_length n)"
  "keeps k (store_subname i s)" "keeps k (store_sublabel i l)"
  "keeps k (upd_fields (default_index_update g))" "keeps k (upd_fields (digits_update h))"
  "keeps k (upd_fields (scale_update h))"
  by (auto simp: keeps_def store_repo_id_def store_name_def store_length_def store_subname_def
      store_sublabel_def split: tc.splits elim!: nearly.elims)

lemma list_all_update: "list_all P xs \<Longrightarrow> P x \<Longrightarrow> list_all P (xs[i := x])"
  by (auto simp: list_all_iff dest: set_update_subset_insert[THEN subsetD])

lemma keeps_subtype: "pred_option sized p \<Longrightarrow> keeps k (store_subtype i p)"
  by (auto simp: keeps_def store_subtype_def list_all_update split: tc.splits elim!: nearly.elims)

lemma keeps_discriminator: "pred_option sized p \<Longrightarrow> keeps k (set_discriminator p)"
  by (auto simp: keeps_def split: tc.splits elim!: nearly.elims)

lemma keeps_members: "keeps k (store_members n)" "keeps k (store_labelled_members n)"
  by (auto simp: keeps_def store_members_def store_labelled_members_def store_sub_parts_def
      alloc_subtypes_def alloc_subnames_def alloc_sublabels_def Let_def list_all_iff
      split: tc.splits elim!: nearly.elims)

lemma keeps_one:
  "k \<notin> {tk_struct, tk_except, tk_union} \<Longrightarrow> keeps k (store_sub_parts n)"
  "k \<notin> {tk_struct, tk_except, tk_union} \<Longrightarrow> keeps k (store_names n)"
  "k \<notin> {tk_struct, tk_except, tk_union} \<Longrightarrow> keeps k (alloc_subtypes j)"
  by (auto simp: keeps_def store_sub_parts_def store_names_def alloc_subnames_def alloc_subtypes_def
      list_all_iff split: tc.splits elim!: nearly.elims)

lemma keeps_element:
  "k \<notin> {tk_struct, tk_except, tk_union} \<Longrightarrow> keeps k alloc_uninitialised"
  "k \<notin> {tk_struct, tk_except, tk_union} \<Longrightarrow> pred_option sized p \<Longrightarrow> keeps k (store_element p)"
  by (auto simp: keeps_def alloc_uninitialised_def store_element_def split: tc.splits elim!: nearly.elims)

lemmas keeps_rules = keeps_element keeps_stores keeps_members keeps_one keeps_subtype keeps_discriminator

section \<open>The steps of the decoder\<close>

named_theorems agree_rules "rules for steps of the decoder that agree"

definition agree_step :: "byte list \<Rightarrow> TCKind \<Rightarrow> nat \<Rightarrow> dec_step \<Rightarrow> dec_step \<Rightarrow> bool" where
  "agree_step M k N f f' \<longleftrightarrow> (\<forall>s. state_ok k s \<longrightarrow> agree_on M N (\<lambda>r. state_ok k (snd r)) (f s) (f' s))"

definition agree_dec :: "byte list \<Rightarrow> nat \<Rightarrow> tc_decoder \<Rightarrow> tc_decoder \<Rightarrow> bool" where
  "agree_dec M N dec dec' \<longleftrightarrow> (\<forall>c. ctx_ok c \<longrightarrow>
     agree_on M N (\<lambda>r. pred_option (pred_option sized) (fst r) \<and> ctx_ok (snd r)) (dec c) (dec' c))"

lemma agree_stepD:
  "agree_step M k N f f' \<Longrightarrow> state_ok k s \<Longrightarrow> agree_on M N (\<lambda>r. state_ok k (snd r)) (f s) (f' s)"
  unfolding agree_step_def by blast

lemma agree_step_ret [agree_rules]: "agree_step M k N dec_ok dec_ok"
  by (simp add: agree_step_def dec_ok_def agree_ret)

lemma agree_step_seq [agree_rules]:
  assumes "agree_step M k N f f'" "agree_step M k N g g'"
  shows "agree_step M k N (dec_seq f g) (dec_seq f' g')"
  unfolding agree_step_def dec_seq_def
proof (intro allI impI)
  fix s assume "state_ok k s"
  with assms(1) have "agree_on M N (\<lambda>r. state_ok k (snd r)) (f s) (f' s)" by (rule agree_stepD)
  then show "agree_on M N (\<lambda>r. state_ok k (snd r))
      (rd_bind (f s) (\<lambda>(failed, s). if failed then rd_ret (True, s) else g s))
      (rd_bind (f' s) (\<lambda>(failed, s). if failed then rd_ret (True, s) else g' s))"
    by (rule agree_bind)
      (use assms(2) in \<open>auto intro!: agree_ret agree_stepD split: prod.splits\<close>)
qed

lemma agree_step_set [agree_rules]: "keeps k g \<Longrightarrow> agree_step M k N (dec_set g) (dec_set g)"
  by (auto simp: agree_step_def dec_set_def keeps_def state_ok_def intro!: agree_ret split: prod.splits)

lemma agree_step_get:
  "agree M N m m \<Longrightarrow> (\<And>v. keeps k (store v)) \<Longrightarrow> agree_step M k N (dec_get m store) (dec_get m store)"
  unfolding agree_step_def dec_get_def keeps_def state_ok_def
  by (auto intro!: agree_bind[where Q = "\<lambda>_. True"] agree_ret split: prod.splits option.splits)

lemmas agree_gets [agree_rules] = agree_step_get[OF agree_CDR_get_ulong]
  agree_step_get[OF agree_CDR_get_ushort] agree_step_get[OF agree_CDR_get_const_string]
  agree_step_get[OF agree_label_reader]

lemma agree_step_ignore [agree_rules]:
  assumes "agree_step M k N f f'" shows "agree_step M k N (dec_ignore f) (dec_ignore f')"
  unfolding agree_step_def dec_ignore_def
proof (intro allI impI)
  fix s assume "state_ok k s"
  with assms have "agree_on M N (\<lambda>r. state_ok k (snd r)) (f s) (f' s)" by (rule agree_stepD)
  then show "agree_on M N (\<lambda>r. state_ok k (snd r)) (rd_bind (f s) (\<lambda>(failed, s). rd_ret (False, s)))
      (rd_bind (f' s) (\<lambda>(failed, s). rd_ret (False, s)))"
    by (rule agree_bind) (auto intro!: agree_ret split: prod.splits)
qed

lemma agree_step_tc [agree_rules]:
  assumes dec: "agree_dec M N dec dec'" and k: "\<And>p. pred_option sized p \<Longrightarrow> keeps k (store p)"
  shows "agree_step M k N (dec_tc dec store) (dec_tc dec' store)"
  unfolding agree_step_def
proof (intro allI impI)
  fix s assume s: "state_ok k s"
  obtain t c where tc: "s = (t, c)" by (cases s)
  have "agree_on M N (\<lambda>r. pred_option (pred_option sized) (fst r) \<and> ctx_ok (snd r)) (dec c) (dec' c)"
    using dec s tc by (simp add: agree_dec_def state_ok_def)
  then show "agree_on M N (\<lambda>r. state_ok k (snd r)) (dec_tc dec store s) (dec_tc dec' store s)"
    unfolding tc dec_tc_def prod.case
    by (rule agree_bind)
      (use s k in \<open>auto simp: tc state_ok_def keeps_def intro!: agree_ret split: prod.splits option.splits\<close>)
qed

lemma agree_step_loop:
  "(\<And>i. agree_step M k N (step i) (step' i)) \<Longrightarrow> agree_step M k N (dec_loop step i n) (dec_loop step' i n)"
  by (induction n arbitrary: i) (simp_all add: agree_rules)

lemma agree_step_loop_parts [agree_rules]:
  "(\<And>i. agree_step M k N (step i) (step' i)) \<Longrightarrow>
     agree_step M k N (\<lambda>s. dec_loop step 0 (parts (fst s)) s) (\<lambda>s. dec_loop step' 0 (parts (fst s)) s)"
  using agree_step_loop[of M k N step step'] by (simp add: agree_step_def)

lemma agree_step_abort [agree_rules]: "agree_step M k N (\<lambda>_. rd_fail Abort) (\<lambda>_. rd_fail Abort)"
  by (simp add: agree_step_def agree_abort)

lemma agree_step_discriminator [agree_rules]:
  assumes "\<And>e i. agree_step M k N (step e i) (step' e i)"
  shows "agree_step M k N
    (\<lambda>s. case discriminator (fst s) of None \<Rightarrow> rd_fail Abort
        | Some e \<Rightarrow> if label_width (tc_kind e) = None then rd_fail Abort
          else dec_loop (step e) 0 (parts (fst s)) s)
    (\<lambda>s. case discriminator (fst s) of None \<Rightarrow> rd_fail Abort
        | Some e \<Rightarrow> if label_width (tc_kind e) = None then rd_fail Abort
          else dec_loop (step' e) 0 (parts (fst s)) s)"
  using agree_step_loop[of M k N "step e" "step' e" for e, OF assms]
  by (auto simp: agree_step_def agree_abort split: option.splits)

text \<open>The decoders of the kinds, and those that hold no other TypeCode.\<close>

lemma agree_tk_decoder:
  assumes "agree_dec M N dec dec'" shows "agree_step M k N (tk_decoder dec k) (tk_decoder dec' k)"
  unfolding tk_decoder_def tc_dec_tk_objref_def tc_dec_tk_struct_def tc_dec_tk_union_def
    tc_dec_tk_enum_def tc_dec_tk_string_def tc_dec_tk_sequence_def tc_dec_tk_array_def
    tc_dec_tk_alias_def tc_dec_tk_except_def tc_dec_tk_wstring_def tc_dec_tk_fixed_def
  by (cases k; simp only: TCKind.case; intro agree_rules assms keeps_rules; simp)

lemma simple_tk_decoder:
  "tk_type k = TK_SIMPLE \<Longrightarrow> tk_decoder dec k = tk_decoder dec' k"
  by (cases k) (simp_all add: tk_type_def tk_decoder_def)

lemma agree_simple:
  assumes "tk_type k = TK_SIMPLE" shows "agree_step M k N (tk_decoder dec k) (tk_decoder dec' k)"
proof -
  let ?a = "\<lambda>_. rd_fail Abort"
  have "agree_dec M N ?a ?a" by (simp add: agree_dec_def agree_abort)
  from agree_tk_decoder[OF this, of k] show ?thesis
    by (metis simple_tk_decoder[OF assms])
qed

text \<open>An encapsulation has fewer bytes than the buffer it is in.\<close>

lemma open_encaps:
  assumes "rwf 0 b"
  shows "(\<exists>sub b'. giop_recv_buffer_use_encaps_buf b = Inr (sub, b') \<and> moved b b' \<and> rwf 0 sub
      \<and> r_mem sub = r_mem b \<and> (rwf 1 b \<longrightarrow> rwf 1 sub) \<and> left sub < left b) \<or> giop_recv_buffer_use_encaps_buf b = Inl Broken
      \<or> giop_recv_buffer_use_encaps_buf b = Inl Overrun \<and> \<not> rwf 1 b"
proof -
  let ?p = "ALIGN_VALUE (r_cur b) 4"
  have p: "r_cur b \<le> ?p" by (simp add: ALIGN_VALUE_ge)
  show ?thesis
  proof (cases "?p + 4 \<le> r_end b")
    case False
    then show ?thesis
      by (simp add: giop_recv_buffer_use_encaps_buf_def rd_bind_def rd_ulong_def rd_align_def rd_need_def)
  next
    case True
    then have l: "?p + 4 \<le> length (r_mem b)" using assms by (simp add: rwf_def)
    define b1 where "b1 = b\<lparr> r_cur := ?p + 4 \<rparr>"
    obtain len where len: "rd_ulong b = Inr (len, b1)"
      using True l by (simp add: rd_ulong_def rd_bind_def rd_align_def rd_need_def rd_u32_def rd_load_def
          rd_bytes_def rd_ret_def b1_def Let_def)
    show ?thesis
    proof (cases "r_cur b1 + unat len > r_end b1")
      case True
      then show ?thesis using len
        by (simp add: giop_recv_buffer_use_encaps_buf_def rd_bind_def rd_need_def)
    next
      case False
      then have "r_cur b1 + unat len \<le> r_end b" by (simp add: b1_def)
      then show ?thesis using len False p l assms
        by (cases "r_cur b1 < length (r_mem b1)")
          (auto simp: giop_recv_buffer_use_encaps_buf_def rd_bind_def rd_need_def
            giop_recv_buffer_use_encaps_def b1_def rwf_def left_def moved_def)
    qed
  qed
qed

lemma agree_encaps:
  assumes m: "agree_on M N Q m m'" shows "agree_on M (Suc N) Q (tc_encaps m) (tc_encaps m')"
proof (rule agree_onI)
  fix b assume b: "rwf 0 b" "r_mem b = M" "left b < Suc N"
  show "tc_encaps m' b = tc_encaps m b \<and>
     (case tc_encaps m b of Inl e \<Rightarrow> dies b e | Inr (v, b') \<Rightarrow> moved b b' \<and> Q v)"
    using open_encaps[OF b(1)]
  proof (elim disjE exE conjE)
    fix sub b' assume o: "giop_recv_buffer_use_encaps_buf b = Inr (sub, b')" "moved b b'" "rwf 0 sub" "r_mem sub = r_mem b"
      "rwf 1 b \<longrightarrow> rwf 1 sub" "left sub < left b"
    have "left sub < N" "r_mem sub = M" using o(4,6) b(2,3) by simp_all
    with m o(3) have "m' sub = m sub" "case m sub of Inl e \<Rightarrow> dies sub e | Inr (v, c) \<Rightarrow> moved sub c \<and> Q v"
      by (simp_all add: agree_def)
    then show ?thesis using o by (auto simp: tc_encaps_def rd_sub_def dies_def split: sum.splits)
  qed (simp_all add: tc_encaps_def dies_def)
qed

section \<open>The decoder\<close>

lemma agree_aligned:
  assumes t: "nearly t" and a: "tc_kind t = tk_array \<longrightarrow> announces_array M" and c: "ctx_ok ctx"
  shows "agree_on M N (\<lambda>r. pred_option sized (fst r) \<and> ctx_ok (snd r)) (aligned m t ctx) (aligned m t ctx)"
  using find_c_alignment_nearly[OF t, of m] a c
  by (cases "find_c_alignment m t")
    (auto simp: agree_on_def aligned_def sized_fields dies_def dest: find_c_alignment_sized)

lemma ctx_ok_simps [simp]:
  "ctx_ok (ctx\<lparr> current_idx := i \<rparr>) = ctx_ok ctx" "ctx_ok (ctx\<lparr> fresh := j \<rparr>) = ctx_ok ctx"
  "ctx_ok (ctx\<lparr> prior_tcs := (p, i) # ps \<rparr>) \<longleftrightarrow> pred_option sized p \<and> ctx_ok (ctx\<lparr> prior_tcs := ps \<rparr>)"
  "ctx_ok (ctx\<lparr> prior_tcs := prior_tcs ctx \<rparr>) = ctx_ok ctx"
  by (auto simp: ctx_ok_def)

lemma agree_find:
  assumes "ctx_ok ctx"
  shows "agree_on M N (\<lambda>r. pred_option (pred_option sized) (fst r) \<and> ctx_ok (snd r))
    (\<lambda>b. case List.find (P b) (prior_tcs ctx) of
        Some (p, idx) \<Rightarrow> rd_ret (Some p, ctx) b | None \<Rightarrow> rd_fail Abort b)
    (\<lambda>b. case List.find (P b) (prior_tcs ctx) of
        Some (p, idx) \<Rightarrow> rd_ret (Some p, ctx) b | None \<Rightarrow> rd_fail Abort b)"
proof (rule agree_onI, rule conjI[OF refl])
  fix b
  show "case (case List.find (P b) (prior_tcs ctx) of
        Some (p, idx) \<Rightarrow> rd_ret (Some p, ctx) b | None \<Rightarrow> rd_fail Abort b) of
      Inl e \<Rightarrow> dies b e
    | Inr (r, b') \<Rightarrow> moved b b' \<and> pred_option (pred_option sized) (fst r) \<and> ctx_ok (snd r)"
  proof (cases "List.find (P b) (prior_tcs ctx)")
    case (Some x)
    obtain p idx where x: "x = (p, idx)" by (cases x)
    have "(p, idx) \<in> set (prior_tcs ctx)" using Some x by (auto simp: find_Some_iff)
    then have "pred_option sized p" using assms by (auto simp: ctx_ok_def)
    then show ?thesis using Some x assms by (simp add: rd_ret_def)
  qed (simp add: rd_fail_def)
qed

lemma agree_back_ref: "agree_dec M N (dec_back_ref lp64) (dec_back_ref lp64)"
  unfolding agree_dec_def dec_back_ref_def
  by (intro allI impI agree_bind[OF agree_CDR_get_ulong])
    (auto intro!: agree_ret agree_find split: option.splits)

lemma agree_node:
  assumes dec: "agree_dec M n dec dec'" and a: "kd = tk_array \<longrightarrow> announces_array M"
  shows "agree_dec M (Suc n) (dec_node m dec kd) (dec_node m dec' kd)"
proof -
  have body: "agree_on M (Suc n) (\<lambda>r. pred_option sized (fst r) \<and> ctx_ok (snd r))
      (dec_body m dec kd i ctx) (dec_body m dec' kd i ctx)" if c: "ctx_ok ctx" for i ctx
  proof -
    let ?t = "TC (Heap (fresh ctx)) (zero_fields kd) [] None"
    have s: "state_ok kd (?t, ctx\<lparr> fresh := Suc (fresh ctx) \<rparr>)"
        "state_ok kd (?t, ctx\<lparr> fresh := Suc (fresh ctx) \<rparr>\<lparr> current_idx := i \<rparr>)"
      using c by (simp_all add: state_ok_def zero_fields_def)
    show ?thesis
    proof (cases "tk_type kd")
      case TK_EMPTY
      then show ?thesis using c by (auto simp: dec_body_def tk_basic_type_def tk_type_def intro!: agree_ret sized_basic)
    next
      case TK_SIMPLE
      from agree_stepD[OF agree_simple[OF TK_SIMPLE, of M "Suc n" dec dec'] s(1)]
      show ?thesis unfolding dec_body_def TK_SIMPLE TkType.case Let_def
        by (rule agree_bind) (use a in \<open>clarsimp simp: state_ok_def agree_aligned\<close>)
    next
      case TK_COMPLEX
      from agree_encaps[OF agree_stepD[OF agree_tk_decoder[OF dec, of kd] s(2)]]
      show ?thesis unfolding dec_body_def TK_COMPLEX TkType.case Let_def
        by (rule agree_bind) (use a in \<open>clarsimp simp: state_ok_def agree_aligned\<close>)
    qed
  qed
  show ?thesis
    unfolding agree_dec_def
  proof (intro allI impI agree_onI)
    fix ctx b assume c: "ctx_ok ctx" and b: "rwf 0 b" "r_mem b = M" "left b < Suc n"
    let ?i = "current_idx ctx + of_nat (get_rptr b) + 4"
    let ?k = "\<lambda>(p, ctx'). rd_ret (Some p, ctx'\<lparr> prior_tcs :=
         (p, current_idx ctx + of_nat (get_rptr b) - 4) # prior_tcs ctx' \<rparr>)"
    have "agree_on M (Suc n) (\<lambda>r. pred_option (pred_option sized) (fst r) \<and> ctx_ok (snd r))
        (rd_bind (dec_body m dec kd ?i ctx) ?k) (rd_bind (dec_body m dec' kd ?i ctx) ?k)"
      by (rule agree_bind[OF body[OF c]]) (clarsimp simp: agree_ret)
    then show "dec_node m dec' kd ctx b = dec_node m dec kd ctx b \<and>
       (case dec_node m dec kd ctx b of Inl e \<Rightarrow> dies b e
        | Inr (v, b') \<Rightarrow> moved b b' \<and> pred_option (pred_option sized) (fst v) \<and> ctx_ok (snd v))"
      using b by (simp add: agree_on_def dec_node_def)
  qed
qed

text \<open>The kind that is read is somewhere in the block.\<close>

lemma agree_kind:
  "agree_on M N (\<lambda>r. r = Some (kind_code tk_array) \<longrightarrow> announces_array M) CDR_get_ulong CDR_get_ulong"
proof (rule agree_onI, rule conjI[OF refl])
  fix b assume b: "rwf 0 b" "r_mem b = M" "left b < N"
  let ?p = "ALIGN_VALUE (r_cur b) 4" and ?e = "flag_endian (r_flags b)"
  have ok: "case CDR_get_ulong b of Inl e \<Rightarrow> dies b e | Inr (v, b') \<Rightarrow> moved b b' \<and> True"
    using agree_CDR_get_ulong[of M N] b by (auto simp: agree_on_def)
  show "case CDR_get_ulong b of Inl e \<Rightarrow> dies b e
      | Inr (v, b') \<Rightarrow> moved b b' \<and> (v = Some (kind_code tk_array) \<longrightarrow> announces_array M)"
  proof (cases "?p + 4 \<le> r_end b")
    case False
    then show ?thesis using ok
      by (auto simp: CDR_get_ulong_def CDR_get_def rd_bind_def rd_align_def)
  next
    case True
    obtain w where w: "slice ?p 4 M = u32_bytes ?e w"
      using four_bytes[of "slice ?p 4 M" ?e] True b by (auto simp: slice_length rwf_def)
    have "at_bytes ?p (u32_bytes ?e w) (b\<lparr> r_cur := ?p \<rparr>)"
      using True b w by (simp add: at_bytes_def rwf_def)
    from parsesD[OF parses_u32 _ this] have "rd_u32 (b\<lparr> r_cur := ?p \<rparr>) = Inr (w, b\<lparr> r_cur := ?p + 4 \<rparr>)"
      by simp
    then have "CDR_get_ulong b = Inr (Some w, b\<lparr> r_cur := ?p + 4 \<rparr>)"
      using True by (simp add: CDR_get_ulong_def CDR_get_def rd_bind_def rd_align_def rd_ret_def)
    then show ?thesis using ok w by (auto simp: announces_array_def)
  qed
qed

lemma array_kind: "lkind < CORBA_tk_last \<Longrightarrow> kind_of_code lkind = tk_array \<Longrightarrow> lkind = kind_code tk_array"
proof -
  assume l: "lkind < CORBA_tk_last" and k: "kind_of_code lkind = tk_array"
  have d: "distinct tk_kinds" and n: "length tk_kinds = 33" by (simp_all add: tk_kinds_def)
  have c: "kind_of_code (kind_code tk_array) = tk_array" "kind_code tk_array < CORBA_tk_last"
    by (simp_all add: kind_of_kind_code kind_code_less)
  have "unat lkind = unat (kind_code tk_array)"
    using k c d l n nth_eq_iff_index_eq[OF d, of "unat lkind" "unat (kind_code tk_array)"]
    by (simp add: kind_of_code_def CORBA_tk_last_def word_less_nat_alt)
  then show ?thesis by (simp add: word_unat_eq_iff)
qed

lemma agree_tc_dec: "agree_dec M n (tc_dec m lp64 n) (tc_dec m lp64 (n + k))"
proof (induction n)
  case 0
  show ?case by (simp add: agree_dec_def agree_on_def)
next
  case (Suc n)
  let ?Q = "\<lambda>r. pred_option (pred_option sized) (fst r) \<and> ctx_ok (snd r)"
  show ?case
    unfolding agree_dec_def
  proof (intro allI impI)
    fix ctx assume c: "ctx_ok ctx"
    have backref: "agree_on M (Suc n) ?Q (dec_back_ref lp64 ctx) (dec_back_ref lp64 ctx)"
      using agree_back_ref c by (simp add: agree_dec_def)
    have node: "agree_on M (Suc n) ?Q (dec_node m (tc_dec m lp64 n) kd ctx)
        (dec_node m (tc_dec m lp64 (n + k)) kd ctx)" if "kd = tk_array \<longrightarrow> announces_array M" for kd
      using agree_node[OF Suc.IH that] c by (simp add: agree_dec_def)
    show "agree_on M (Suc n) ?Q (tc_dec m lp64 (Suc n) ctx) (tc_dec m lp64 (Suc n + k) ctx)"
      unfolding tc_dec.simps add_Suc
    proof (intro agree_bind[OF agree_kind])
      fix r assume r: "r = Some (kind_code tk_array) \<longrightarrow> announces_array M"
      let ?step = "\<lambda>f. case r of None \<Rightarrow> rd_ret (None, ctx)
        | Some lkind \<Rightarrow> if lkind \<ge> CORBA_tk_last then
            if lkind \<noteq> CORBA_tk_recursive then rd_ret (None, ctx) else dec_back_ref lp64 ctx
          else dec_node m f (kind_of_code lkind) ctx"
      have end_ret: "agree_on M (Suc n) ?Q (rd_ret (None, ctx)) (rd_ret (None, ctx))"
        by (rule agree_ret) (simp add: c)
      show "agree_on M (Suc n) ?Q (?step (tc_dec m lp64 n)) (?step (tc_dec m lp64 (n + k)))"
      proof (cases r)
        case None
        then show ?thesis using end_ret by simp
      next
        case (Some lkind)
        have "agree_on M (Suc n) ?Q (dec_node m (tc_dec m lp64 n) (kind_of_code lkind) ctx)
            (dec_node m (tc_dec m lp64 (n + k)) (kind_of_code lkind) ctx)" if "lkind < CORBA_tk_last"
          using array_kind[OF that] r Some by (intro node) blast
        then show ?thesis using Some end_ret backref by (cases "CORBA_tk_last \<le> lkind") simp_all
      qed
    qed
  qed
qed

lemma agree_onD:
  "agree_on M N Q m m' \<Longrightarrow> rwf 0 b \<Longrightarrow> r_mem b = M \<Longrightarrow> left b < N \<Longrightarrow> m' b = m b"
  "agree_on M N Q m m' \<Longrightarrow> rwf 0 b \<Longrightarrow> r_mem b = M \<Longrightarrow> left b < N \<Longrightarrow>
     (case m b of Inl e \<Rightarrow> dies b e | Inr (v, b') \<Rightarrow> moved b b' \<and> Q v)"
  by (simp_all add: agree_on_def)

lemma tc_dec_fuel:
  assumes "ctx_ok c" "rwf 0 b" "left b < n" "left b < n'"
  shows "tc_dec m lp64 n c b = tc_dec m lp64 n' c b"
proof -
  have "tc_dec m lp64 (Suc (left b) + j) c b = tc_dec m lp64 (Suc (left b)) c b" for j
  proof -
    have "agree_on (r_mem b) (Suc (left b)) (\<lambda>r. pred_option (pred_option sized) (fst r) \<and> ctx_ok (snd r))
        (tc_dec m lp64 (Suc (left b)) c) (tc_dec m lp64 (Suc (left b) + j) c)"
      using agree_tc_dec assms(1) unfolding agree_dec_def by blast
    from agree_onD(1)[OF this assms(2) refl] show ?thesis by (simp del: tc_dec.simps)
  qed
  from this[of "n - Suc (left b)"] this[of "n' - Suc (left b)"] show ?thesis
    using assms(3,4) by (simp del: tc_dec.simps)
qed



text \<open>C99. The pointer that is followed though nothing was stored in it: a TypeCode of kind array whose encapsulation ends
  before the element type, which nine octets of a message are enough for. The element's decoder reports the failure, the
  array's decoder hands it on, \<^verbatim>\<open>tc_dec\<close> looks at no such report and computes the alignment of the array through the element it
  never got, in whatever memory \<^verbatim>\<open>g_new\<close> returned.\<close>

theorem truncated_array_followed:
  assumes e: "flag_endian (r_flags b) = e" and p: "4 dvd p"
    and a: "at_bytes p (u32_bytes e (kind_code tk_array) @ u32_bytes e 1 @ [f]) b"
  shows "MateCORBA_decode_CORBA_TypeCode m lp64 k b = Inl Wild"
proof -
  have al: "ALIGN_VALUE p 4 = p" "ALIGN_VALUE (p + 4) 4 = p + 4" "ALIGN_VALUE (p + 9) 4 = p + 12"
    using p by (auto simp: ALIGN_VALUE_def elim!: dvdE)
  have c: "r_cur b = p" "p + 9 \<le> r_end b" "r_end b \<le> length (r_mem b)"
    using a by (simp_all add: at_bytes_def)
  define b4 where "b4 = b\<lparr> r_cur := p + 4 \<rparr>"
  define b8 where "b8 = b\<lparr> r_cur := p + 8 \<rparr>"
  have u1: "rd_u32 b = Inr (kind_code tk_array, b4)"
    using parsesD[OF parses_u32 e at_bytes_append(1)[OF a]] by (simp add: b4_def)
  have a4: "at_bytes (p + 4) (u32_bytes e 1 @ [f]) b4"
    using at_bytes_append(2)[OF a] by (simp add: b4_def)
  have u2: "rd_u32 b4 = Inr (1, b8)"
    using parsesD[OF parses_u32 _ at_bytes_append(1)[OF a4]] e by (simp add: b4_def b8_def)
  have bb: "b\<lparr> r_cur := p \<rparr> = b" "b4\<lparr> r_cur := p + 4 \<rparr> = b4" using c by (simp_all add: b4_def)
  define sub where "sub = \<lparr> r_host = r_host b, r_mem = r_mem b, r_flags = r_mem b ! (p + 8),
       r_version = GIOP_LATEST, r_type = 0, r_size = 1, r_body = p + 8, r_cur = p + 9, r_end = p + 9 \<rparr>"
  have get: "CDR_get_ulong b = Inr (Some (kind_code tk_array), b4)"
    using u1 c al by (simp add: CDR_get_ulong_def CDR_get_def rd_bind_def rd_align_def rd_ret_def bb)
  have encaps: "giop_recv_buffer_use_encaps_buf b4 = Inr (sub, b\<lparr> r_cur := p + 9 \<rparr>)"
    using u2 c al bb by (simp add: giop_recv_buffer_use_encaps_buf_def rd_ulong_def rd_bind_def rd_align_def
        rd_need_def giop_recv_buffer_use_encaps_def sub_def b4_def b8_def)
  have none: "CDR_get_ulong sub = Inr (None, sub\<lparr> r_cur := p + 12 \<rparr>)"
    using al by (simp add: CDR_get_ulong_def CDR_get_def rd_bind_def rd_align_def sub_def)
  have fuel: "Suc (r_end b - r_cur b) = Suc (Suc (r_end b - r_cur b - 1))" using c by simp
  have kc: "\<not> kind_code tk_array \<ge> CORBA_tk_last" "kind_of_code (kind_code tk_array) = tk_array"
    by (simp_all add: kind_code_less not_le kind_of_kind_code)
  have inner: "tk_decoder (tc_dec m lp64 (Suc n)) tk_array (TC x (zero_fields tk_array) [] None, ctx) sub
      = Inr ((True, TC x (zero_fields tk_array) [] None, ctx), sub\<lparr> r_cur := p + 12 \<rparr>)" for n x ctx
    using none by (simp add: tk_decoder_def tc_dec_tk_array_def dec_seq_def dec_set_def dec_tc_def
        alloc_uninitialised_def rd_bind_def rd_ret_def)
  have wild: "find_c_alignment m (TC x (zero_fields tk_array) [] None) = Inl Wild" for x
    by (simp add: zero_fields_def)
  show ?thesis
    unfolding MateCORBA_decode_CORBA_TypeCode_def fuel tc_dec.simps(2)[of m lp64 "Suc _"]
    using get kc encaps
    by (simp add: rd_bind_def dec_node_def dec_body_def tk_type_def tc_encaps_def rd_sub_def inner
        aligned_def wild del: tc_dec.simps find_c_alignment.simps)
qed

theorem truncated_array_followed_witness:
  "MateCORBA_decode_CORBA_TypeCode x86_64 True 0 \<lparr> r_host = True, r_mem = [20, 0, 0, 0, 1, 0, 0, 0, 1],
     r_flags = 1, r_version = GIOP_LATEST, r_type = 0, r_size = 0, r_body = 0, r_cur = 0, r_end = 9 \<rparr> = Inl Wild"
  by (rule truncated_array_followed[of _ True 0 1])
    (simp_all add: flag_endian_def at_bytes_def slice_def mem_bytes_def in_order_def kind_code_def tk_kinds_def)

end
