(* ===== verification/Typecode_Sim.thy ===== *)
theory Typecode_Sim imports Typecode_Safety begin

text \<open>
  What the TypeCode encoder writes the decoder reads back, step by step. The two keep different books:
  the encoder lists the TypeCodes it has begun, the decoder those it has finished, and positions are
  counted from different origins. \<open>coupled\<close> relates the two states, \<open>sim\<close> relates a step of the
  encoder with the step of the decoder that reads it; the rules for sequences, loops and the basic
  reads and writes are here, single TypeCodes in \<^verbatim>\<open>Typecode_Nodes\<close>, whole ones in
  \<^verbatim>\<open>Typecode_Round\<close>.
\<close>

section \<open>Readers that know where their buffer starts\<close>

definition tparses :: "nat \<Rightarrow> 'a reader \<Rightarrow> endian \<Rightarrow> nat \<Rightarrow> byte list \<Rightarrow> 'a \<Rightarrow> bool" where
  "tparses \<beta> m e p bs v \<longleftrightarrow> (\<forall>b. flag_endian (r_flags b) = e \<longrightarrow> r_body b = \<beta> \<longrightarrow> at_bytes p bs b \<longrightarrow>
     m b = Inr (v, b\<lparr> r_cur := p + length bs \<rparr>))"

lemma tparsesI:
  "(\<And>b. flag_endian (r_flags b) = e \<Longrightarrow> r_body b = \<beta> \<Longrightarrow> at_bytes p bs b \<Longrightarrow>
     m b = Inr (v, b\<lparr> r_cur := p + length bs \<rparr>)) \<Longrightarrow> tparses \<beta> m e p bs v"
  by (simp add: tparses_def)

lemma tparsesD:
  "tparses \<beta> m e p bs v \<Longrightarrow> flag_endian (r_flags b) = e \<Longrightarrow> r_body b = \<beta> \<Longrightarrow> at_bytes p bs b \<Longrightarrow>
     m b = Inr (v, b\<lparr> r_cur := p + length bs \<rparr>)"
  by (simp add: tparses_def)

lemma parses_tparses: "parses m e p bs v \<Longrightarrow> tparses \<beta> m e p bs v"
  by (simp add: parses_def tparses_def)

lemma tparses_ret: "tparses \<beta> (rd_ret v) e p [] v"
  by (rule parses_tparses) (rule parses_ret)

lemma tparses_bind:
  assumes "tparses \<beta> m e p as u" "tparses \<beta> (k u) e (p + length as) bs v"
  shows "tparses \<beta> (rd_bind m k) e p (as @ bs) v"
proof (rule tparsesI)
  fix b assume e: "flag_endian (r_flags b) = e" and \<beta>: "r_body b = \<beta>" and a: "at_bytes p (as @ bs) b"
  note w = at_bytes_append[OF a]
  have "k u (b\<lparr> r_cur := p + length as \<rparr>)
      = Inr (v, b\<lparr> r_cur := p + length as \<rparr>\<lparr> r_cur := p + length as + length bs \<rparr>)"
    by (rule tparsesD[OF assms(2)]) (use e \<beta> w in simp_all)
  with tparsesD[OF assms(1) e \<beta> w(1)]
  show "rd_bind m k b = Inr (v, b\<lparr> r_cur := p + length (as @ bs) \<rparr>)"
    by (simp add: rd_bind_def add.assoc)
qed

lemma tparses_bind_ret:
  "tparses \<beta> m e p bs u \<Longrightarrow> v = f u \<Longrightarrow> tparses \<beta> (rd_bind m (\<lambda>x. rd_ret (f x))) e p bs v"
  by (metis append_Nil2 tparses_bind tparses_ret)

lemma tparses_seq:
  assumes "tparses \<beta> (f s) e p as (False, s')" "tparses \<beta> (g s') e (p + length as) bs v"
  shows "tparses \<beta> (dec_seq f g s) e p (as @ bs) v"
  unfolding dec_seq_def by (rule tparses_bind[OF assms(1)]) (simp add: assms(2))

section \<open>The reads of the decoder\<close>

lemma parses_CDR_get:
  assumes n: "0 < n" "length bs = n" and m: "\<And>q. parses m e q bs v"
  shows "parses (CDR_get n m) e p (pad n p @ bs) (Some v)"
  unfolding CDR_get_def
proof (rule parses_bind[OF parses_align[OF n(1)]], rule parsesI)
  fix b assume e: "flag_endian (r_flags b) = e" and a: "at_bytes (p + length (pad n p)) bs b"
  then have "rd_bind m (\<lambda>w. rd_ret (Some w)) b = Inr (Some v, b\<lparr> r_cur := p + length (pad n p) + length bs \<rparr>)"
    by (intro parsesD[OF parses_bind_ret[OF m]]) simp_all
  moreover have "\<not> r_cur b + n > r_end b" using a n by (simp add: at_bytes_def)
  ultimately show "(if r_end b < r_cur b + n then Inr (None, b) else rd_bind m (\<lambda>w. rd_ret (Some w)) b)
      = Inr (Some v, b\<lparr> r_cur := p + length (pad n p) + length bs \<rparr>)" by simp
qed

lemma parses_CDR_get_ulong: "parses CDR_get_ulong e p (enc_ulong e w p) (Some w)"
  unfolding CDR_get_ulong_def enc_ulong_def by (rule parses_CDR_get) (simp_all add: parses_u32)

lemma parses_CDR_get_ushort: "parses CDR_get_ushort e p (pad 2 p @ u16_bytes e w) (Some w)"
  unfolding CDR_get_ushort_def by (rule parses_CDR_get) (simp_all add: parses_u16)

lemma parses_CDR_get_const_string:
  assumes "length str < 2 ^ 32"
  shows "parses CDR_get_const_string e p (enc_string e str p) (Some str)"
  unfolding CDR_get_const_string_def enc_string_def enc_octets_def
proof (rule parses_bind[OF parses_CDR_get_ulong], rule parsesI)
  fix b let ?q = "p + length (enc_ulong e (of_nat (length str)) p)"
  assume e: "flag_endian (r_flags b) = e" and a: "at_bytes ?q str b"
  have u: "unat (of_nat (length str) :: u32) = length str" by (rule unat_of_nat_u32[OF assms])
  have "rd_bind (rd_bytes (length str)) (\<lambda>s. rd_ret (Some s)) b
      = Inr (Some str, b\<lparr> r_cur := ?q + length str \<rparr>)"
    by (rule parsesD[OF parses_bind_ret[OF parses_bytes] e a]) simp_all
  moreover have "\<not> r_cur b + length str > r_end b" using a by (simp add: at_bytes_def)
  ultimately show "(case Some (of_nat (length str) :: u32) of None \<Rightarrow> Inr (None, b)
      | Some len \<Rightarrow> if r_end b < r_cur b + unat len then Inr (None, b)
          else rd_bind (rd_bytes (unat len)) (\<lambda>s. rd_ret (Some s)) b)
      = Inr (Some str, b\<lparr> r_cur := ?q + length str \<rparr>)"
    using u by simp
qed

text \<open>A label survives if the conversion to the discriminator's type and back keeps it.\<close>

definition label_ok :: "TCKind \<Rightarrow> u32 \<Rightarrow> bool" where
  "label_ok k l \<longleftrightarrow> (case k of
     tk_char \<Rightarrow> scast (ucast l :: byte) = l
   | tk_boolean \<Rightarrow> ucast (ucast l :: byte) = l
   | tk_short \<Rightarrow> scast (ucast l :: u16) = l
   | tk_ushort \<Rightarrow> ucast (ucast l :: u16) = l
   | tk_wchar \<Rightarrow> ucast (ucast l :: u16) = l
   | _ \<Rightarrow> True)"

lemma ucast_scast_id: "ucast (scast (l :: u32) :: u64) = l"
  by (rule bit_word_eqI) (auto simp: bit_simps)

lemma label_bytes_length: "label_width k = Some w \<Longrightarrow> length (label_bytes w e l) = w \<and> w \<in> {1, 2, 4, 8}"
  by (auto simp: label_width_def label_bytes_def split: if_splits)

lemma parses_label_reader:
  assumes w: "label_width k = Some w" and l: "label_ok k l"
  shows "parses (label_reader k) e p (pad w p @ label_bytes w e l) (Some l)"
proof -
  have wk: "w = (if k \<in> {tk_long, tk_enum, tk_ulong} then 4 else if k \<in> {tk_boolean, tk_char} then 1
      else if k \<in> {tk_short, tk_ushort, tk_wchar} then 2 else 8)"
      "k \<in> {tk_long, tk_enum, tk_ulong, tk_boolean, tk_char, tk_short, tk_ushort, tk_wchar, tk_longlong, tk_ulonglong}"
    using w by (auto simp: label_width_def split: if_splits)
  consider "w = 4" | "w = 1" | "w = 2" | "w = 8" using wk(1) by (auto split: if_splits)
  then show ?thesis
  proof cases
    case 1
    then show ?thesis using w parses_CDR_get_ulong[of e p l]
      by (simp add: label_reader_def label_bytes_def enc_ulong_def)
  next
    case 2
    let ?f = "\<lambda>c :: byte. if k = tk_char then scast c else ucast c"
    have "?f (ucast l) = l" using wk l 2 by (auto simp: label_ok_def split: if_splits)
    then have "parses (rd_bind rd_byte (\<lambda>c. rd_ret (?f c))) e q [ucast l] l" for q
      by (intro parses_bind_ret[OF parses_byte]) simp
    from parses_CDR_get[OF _ _ this, of 1 p] show ?thesis using w 2
      by (simp add: label_reader_def label_bytes_def)
  next
    case 3
    let ?f = "\<lambda>c :: u16. if k = tk_short then scast c else ucast c"
    have "?f (ucast l) = l" using wk l 3 by (auto simp: label_ok_def split: if_splits)
    then have "parses (rd_bind rd_u16 (\<lambda>c. rd_ret (?f c))) e q (u16_bytes e (ucast l)) l" for q
      by (intro parses_bind_ret[OF parses_u16]) simp
    from parses_CDR_get[OF _ _ this, of 2 p] show ?thesis using w 3
      by (simp add: label_reader_def label_bytes_def)
  next
    case 4
    have "parses (rd_bind rd_u64 (\<lambda>c. rd_ret (ucast c))) e q (u64_bytes e (scast l)) l" for q
      by (intro parses_bind_ret[OF parses_u64]) (simp add: ucast_scast_id)
    from parses_CDR_get[OF _ _ this, of 8 p] show ?thesis using w 4
      by (simp add: label_reader_def label_bytes_def)
  qed
qed

section \<open>Encapsulations\<close>

lemma open_encaps_at:
  assumes e: "flag_endian (r_flags b) = e" and a: "at_bytes p (enc_octets e (f # bs) p) b"
    and l: "Suc (length bs) < 2 ^ 32"
  obtains sub where "giop_recv_buffer_use_encaps_buf b
      = Inr (sub, b\<lparr> r_cur := p + length (enc_octets e (f # bs) p) \<rparr>)"
    "r_body sub = ALIGN_VALUE p 4 + 4" "r_flags sub = f" "at_bytes (ALIGN_VALUE p 4 + 5) bs sub"
proof -
  let ?n = "of_nat (length (f # bs)) :: u32" and ?q = "ALIGN_VALUE p 4 + 4"
  have u: "unat ?n = Suc (length bs)" using unat_of_nat_u32[OF l] by simp
  have q: "p + length (enc_ulong e ?n p) = ?q" using pad_pos[of 4 p] by (simp add: enc_ulong_def)
  note w = at_bytes_append[OF a[unfolded enc_octets_def]]
  have len: "rd_ulong b = Inr (?n, b\<lparr> r_cur := ?q \<rparr>)"
    using parsesD[OF parses_ulong e w(1)] q by simp
  have fb: "at_bytes ?q (f # bs) (b\<lparr> r_cur := ?q \<rparr>)" using w(2) q by simp
  then have inside: "?q + Suc (length bs) \<le> r_end b" "?q < length (r_mem b)" "r_mem b ! ?q = f"
    using slice_nth[of ?q "length bs" "r_mem b" f bs] by (simp_all add: at_bytes_def)
  define sub where "sub = \<lparr> r_host = r_host b, r_mem = r_mem b, r_flags = f,
       r_version = GIOP_LATEST, r_type = 0, r_size = of_nat (Suc (length bs)), r_body = ?q,
       r_cur = ?q + 1, r_end = ?q + Suc (length bs) \<rparr>"
  have "at_bytes (?q + 1) bs sub"
    using at_bytes_append(2)[of ?q "[f]" bs "b\<lparr> r_cur := ?q \<rparr>"] fb inside
    by (simp add: at_bytes_def sub_def)
  moreover have "giop_recv_buffer_use_encaps_buf b
      = Inr (sub, b\<lparr> r_cur := p + length (enc_octets e (f # bs) p) \<rparr>)"
    using len u inside q
    by (simp add: giop_recv_buffer_use_encaps_buf_def rd_bind_def rd_need_def
        giop_recv_buffer_use_encaps_def sub_def enc_octets_def)
  ultimately show ?thesis using that[of sub] by (simp add: sub_def eval_nat_numeral)
qed

lemma tparses_encaps:
  assumes m: "tparses (ALIGN_VALUE p 4 + 4) m (flag_endian f) (ALIGN_VALUE p 4 + 5) bs v"
    and l: "Suc (length bs) < 2 ^ 32"
  shows "tparses \<beta> (tc_encaps m) e p (enc_octets e (f # bs) p) v"
proof (rule tparsesI)
  fix b assume e: "flag_endian (r_flags b) = e" and a: "at_bytes p (enc_octets e (f # bs) p) b"
  from open_encaps_at[OF e a l] obtain sub where sub: "giop_recv_buffer_use_encaps_buf b
      = Inr (sub, b\<lparr> r_cur := p + length (enc_octets e (f # bs) p) \<rparr>)"
    "r_body sub = ALIGN_VALUE p 4 + 4" "r_flags sub = f" "at_bytes (ALIGN_VALUE p 4 + 5) bs sub" .
  have "m sub = Inr (v, sub\<lparr> r_cur := ALIGN_VALUE p 4 + 5 + length bs \<rparr>)"
    by (rule tparsesD[OF m]) (use sub in simp_all)
  then show "tc_encaps m b = Inr (v, b\<lparr> r_cur := p + length (enc_octets e (f # bs) p) \<rparr>)"
    using sub(1) by (simp add: tc_encaps_def rd_sub_def)
qed

section \<open>Trees\<close>

text \<open>What the decoder can know of a TypeCode: everything but where it lives, the alignment it
  computes itself, and what the kind has no use for.\<close>

definition canon_fields :: "tc_fields \<Rightarrow> tc_fields" where
  "canon_fields f = (let z = zero_fields (kind f);
       named = z\<lparr> tc_name := tc_name f, repo_id := repo_id f \<rparr>
     in case kind f of
       tk_objref \<Rightarrow> named
     | tk_struct \<Rightarrow> named\<lparr> sub_parts := sub_parts f, subnames := subnames f \<rparr>
     | tk_except \<Rightarrow> named\<lparr> sub_parts := sub_parts f, subnames := subnames f \<rparr>
     | tk_union \<Rightarrow> named\<lparr> sub_parts := sub_parts f, subnames := subnames f,
         sublabels := sublabels f, default_index := default_index f \<rparr>
     | tk_enum \<Rightarrow> named\<lparr> sub_parts := sub_parts f, subnames := subnames f \<rparr>
     | tk_string \<Rightarrow> z\<lparr> tc_length := tc_length f \<rparr>
     | tk_wstring \<Rightarrow> z\<lparr> tc_length := tc_length f \<rparr>
     | tk_sequence \<Rightarrow> z\<lparr> tc_length := tc_length f, sub_parts := sub_parts f \<rparr>
     | tk_array \<Rightarrow> z\<lparr> tc_length := tc_length f, sub_parts := sub_parts f \<rparr>
     | tk_alias \<Rightarrow> named\<lparr> sub_parts := sub_parts f \<rparr>
     | tk_fixed \<Rightarrow> z\<lparr> digits := digits f, scale := scale f \<rparr>
     | _ \<Rightarrow> z)"

fun canon :: "tc \<Rightarrow> tc" where
  "canon (TC a f subs d) = TC (Heap 0) (canon_fields f) (map (map_option canon) subs) (map_option canon d)"

text \<open>The nodes of a tree, and the addresses of those the encoder keeps track of.\<close>

fun nodes :: "tc \<Rightarrow> tc list" where
  "nodes (TC a f subs d) = TC a f subs d #
     concat (map (case_option [] nodes) subs) @ case_option [] nodes d"

definition tracked :: "tc \<Rightarrow> bool" where
  "tracked t \<longleftrightarrow> tk_type (tc_kind t) \<noteq> TK_EMPTY"

definition addrs :: "tc \<Rightarrow> addr list" where
  "addrs t = map tc_addr (filter tracked (nodes t))"

text \<open>Nodes with one address are one structure; labels that fit their discriminators.\<close>

definition well_shared :: "tc \<Rightarrow> bool" where
  "well_shared t \<longleftrightarrow> (\<forall>u \<in> set (nodes t). \<forall>v \<in> set (nodes t).
     tracked u \<longrightarrow> tracked v \<longrightarrow> tc_addr u = tc_addr v \<longrightarrow> u = v)"

definition node_labels_ok :: "tc \<Rightarrow> bool" where
  "node_labels_ok t \<longleftrightarrow> (tc_kind t = tk_union \<longrightarrow> (\<forall>e. discriminator t = Some e \<longrightarrow>
     list_all (label_ok (tc_kind e)) (sublabels (tc_fields t))))"

definition labels_ok :: "tc \<Rightarrow> bool" where
  "labels_ok t \<longleftrightarrow> list_all node_labels_ok (nodes t)"

text \<open>An upper bound of the length of the encoding.\<close>

fun tc_len :: "tc \<Rightarrow> nat" where
  "tc_len (TC a f subs d) = 50 + length (repo_id f) + length (tc_name f)
     + sum_list (map (\<lambda>s. 22 + length s) (subnames f))
     + sum_list (map (case_option 0 tc_len) subs) + case_option 0 tc_len d"

section \<open>The two states\<close>

text \<open>
  The setting of an encoding: the platform, the tree at each address, whether pointer differences
  have 64 bits, the TypeCodes that have been begun but not finished, the distance of the two counts
  of positions, and where the current buffer of the decoder starts.
\<close>

record coding =
  c_abi :: abi
  c_tree :: "addr \<Rightarrow> tc"
  c_lp64 :: bool
  c_open :: "addr set"
  c_shift :: u32
  c_body :: nat

definition dpos :: "coding \<Rightarrow> sbuf \<Rightarrow> dec_ctx \<Rightarrow> nat" where
  "dpos E b ctx = unat (current_idx ctx) + (spos b - c_body E)"

definition same_tc :: "abi \<Rightarrow> tc \<Rightarrow> tc \<Rightarrow> bool" where
  "same_tc m t t' \<longleftrightarrow> canon t' = canon t \<and> tc_ok m t'"

definition coupled :: "coding \<Rightarrow> (addr \<times> u32) list \<Rightarrow> sbuf \<Rightarrow> dec_ctx \<Rightarrow> bool" where
  "coupled E ep b ctx \<longleftrightarrow> sb_ok b \<and> c_body E \<le> spos b
     \<and> current_idx ctx + of_nat (spos b - c_body E) = s_size b + c_shift E
     \<and> distinct (map snd (prior_tcs ctx))
     \<and> (\<forall>(p, j) \<in> set (prior_tcs ctx). unat j + 4 \<le> dpos E b ctx)
     \<and> (\<forall>(a, i) \<in> set ep. a \<notin> c_open E \<longrightarrow>
         (\<exists>t'. (Some t', i + c_shift E) \<in> set (prior_tcs ctx) \<and> same_tc (c_abi E) (c_tree E a) t'))"

lemma coupled_append:
  assumes "coupled E ep b ctx"
  shows "coupled E ep (sb_append bs b) ctx"
proof -
  have "of_nat (spos b + length bs - c_body E) = (of_nat (spos b - c_body E) + of_nat (length bs) :: u32)"
    using assms by (simp add: coupled_def flip: of_nat_add)
  then show ?thesis
    using assms by (auto simp: coupled_def dpos_def s_size_append algebra_simps)
qed

lemma coupled_idx:
  "coupled E ep b ctx \<Longrightarrow> s_size b + c_shift E = current_idx ctx + of_nat (spos b - c_body E)"
  unfolding coupled_def by (elim conjE) (rule sym)

text \<open>The decoder's context goes on: the same encapsulation, new TypeCodes from position \<open>d\<close> on.\<close>

definition later :: "nat \<Rightarrow> dec_ctx \<Rightarrow> dec_ctx \<Rightarrow> bool" where
  "later d ctx ctx' \<longleftrightarrow> current_idx ctx' = current_idx ctx \<and>
     (\<exists>new. prior_tcs ctx' = new @ prior_tcs ctx \<and> (\<forall>(p, j) \<in> set new. d \<le> unat j))"

lemma later_refl [simp]: "later d ctx ctx"
  by (simp add: later_def)

lemma later_idx: "later d ctx ctx' \<Longrightarrow> current_idx ctx' = current_idx ctx"
  by (simp add: later_def)

lemma later_trans: "later d a b \<Longrightarrow> later d' b c \<Longrightarrow> d \<le> d' \<Longrightarrow> later d a c"
  unfolding later_def by (fastforce intro: order_trans)

lemma later_mono: "later d' a b \<Longrightarrow> d \<le> d' \<Longrightarrow> later d a b"
  unfolding later_def by fastforce

definition sim :: "coding \<Rightarrow> nat \<Rightarrow> addr set \<Rightarrow> (tc \<Rightarrow> bool) \<Rightarrow> enc_step \<Rightarrow> dec_step \<Rightarrow> (tc \<Rightarrow> bool) \<Rightarrow> bool" where
  "sim E N S P F G Q \<longleftrightarrow> (\<forall>ep b ctx t. coupled E ep b ctx \<longrightarrow> P t \<longrightarrow> dpos E b ctx + N < 2 ^ 32 \<longrightarrow>
     (c_lp64 E \<longrightarrow> S \<inter> fst ` set ep = {}) \<longrightarrow>
     (\<exists>new bs t' ctx'. F (ep, b) = Inr (new @ ep, sb_append bs b) \<and> length bs \<le> N \<and> fst ` set new \<subseteq> S
       \<and> tparses (c_body E) (G (t, ctx)) (s_host b) (spos b) bs (False, t', ctx') \<and> Q t'
       \<and> later (dpos E b ctx) ctx ctx' \<and> coupled E (new @ ep) (sb_append bs b) ctx'))"

definition sim_tc :: "coding \<Rightarrow> nat \<Rightarrow> addr set \<Rightarrow> tc \<Rightarrow> enc_step \<Rightarrow> tc_decoder \<Rightarrow> bool" where
  "sim_tc E N S u F D \<longleftrightarrow> (\<forall>ep b ctx. coupled E ep b ctx \<longrightarrow> dpos E b ctx + N < 2 ^ 32 \<longrightarrow>
     (c_lp64 E \<longrightarrow> S \<inter> fst ` set ep = {}) \<longrightarrow>
     (\<exists>new bs u' ctx'. F (ep, b) = Inr (new @ ep, sb_append bs b) \<and> length bs \<le> N \<and> fst ` set new \<subseteq> S
       \<and> tparses (c_body E) (D ctx) (s_host b) (spos b) bs (Some (Some u'), ctx')
       \<and> same_tc (c_abi E) u u'
       \<and> later (dpos E b ctx) ctx ctx' \<and> coupled E (new @ ep) (sb_append bs b) ctx'))"

lemma simD:
  assumes "sim E N S P F G Q" "coupled E ep b ctx" "P t" "dpos E b ctx + N < 2 ^ 32"
    "c_lp64 E \<Longrightarrow> S \<inter> fst ` set ep = {}"
  obtains new bs t' ctx' where "F (ep, b) = Inr (new @ ep, sb_append bs b)" "length bs \<le> N"
    "fst ` set new \<subseteq> S" "tparses (c_body E) (G (t, ctx)) (s_host b) (spos b) bs (False, t', ctx')" "Q t'"
    "later (dpos E b ctx) ctx ctx'" "coupled E (new @ ep) (sb_append bs b) ctx'"
proof -
  note step = assms(1)[unfolded sim_def, THEN spec, THEN spec, THEN spec, THEN spec, THEN mp, THEN mp,
      THEN mp, THEN mp]
  have "c_lp64 E \<longrightarrow> S \<inter> fst ` set ep = {}" using assms(5) by blast
  from step[OF assms(2-4) this] that show thesis by (elim exE conjE)
qed

lemma simI:
  assumes "\<And>ep b ctx t. coupled E ep b ctx \<Longrightarrow> P t \<Longrightarrow> dpos E b ctx + N < 2 ^ 32 \<Longrightarrow>
     (c_lp64 E \<longrightarrow> S \<inter> fst ` set ep = {}) \<Longrightarrow>
     \<exists>new bs t' ctx'. F (ep, b) = Inr (new @ ep, sb_append bs b) \<and> length bs \<le> N \<and> fst ` set new \<subseteq> S
       \<and> tparses (c_body E) (G (t, ctx)) (s_host b) (spos b) bs (False, t', ctx') \<and> Q t'
       \<and> later (dpos E b ctx) ctx ctx' \<and> coupled E (new @ ep) (sb_append bs b) ctx'"
  shows "sim E N S P F G Q"
  using assms unfolding sim_def by blast

lemma sim_seq:
  assumes 1: "sim E N1 S1 P F1 G1 Q" and 2: "sim E N2 S2 Q F2 G2 R" and d: "c_lp64 E \<Longrightarrow> S1 \<inter> S2 = {}"
  shows "sim E (N1 + N2) (S1 \<union> S2) P (enc_seq F1 F2) (dec_seq G1 G2) R"
proof (rule simI)
  fix ep b ctx t
  assume c: "coupled E ep b ctx" and t: "P t" and N: "dpos E b ctx + (N1 + N2) < 2 ^ 32"
    and S: "c_lp64 E \<longrightarrow> (S1 \<union> S2) \<inter> fst ` set ep = {}"
  obtain new1 bs1 t1 ctx1 where a: "F1 (ep, b) = Inr (new1 @ ep, sb_append bs1 b)" "length bs1 \<le> N1"
    "fst ` set new1 \<subseteq> S1" "tparses (c_body E) (G1 (t, ctx)) (s_host b) (spos b) bs1 (False, t1, ctx1)" "Q t1"
    "later (dpos E b ctx) ctx ctx1" "coupled E (new1 @ ep) (sb_append bs1 b) ctx1"
    by (rule simD[OF 1 c t]) (use N S in auto)
  have le: "dpos E (sb_append bs1 b) ctx1 \<le> dpos E b ctx + N1" "dpos E b ctx \<le> dpos E (sb_append bs1 b) ctx1"
    using a later_idx[OF a(6)] by (simp_all add: dpos_def)
  then obtain new2 bs2 t2 ctx2 where b: "F2 (new1 @ ep, sb_append bs1 b)
      = Inr (new2 @ new1 @ ep, sb_append bs2 (sb_append bs1 b))" "length bs2 \<le> N2"
    "fst ` set new2 \<subseteq> S2" "tparses (c_body E) (G2 (t1, ctx1)) (s_host b) (spos b + length bs1) bs2 (False, t2, ctx2)"
    "R t2" "later (dpos E (sb_append bs1 b) ctx1) ctx1 ctx2" "coupled E (new2 @ new1 @ ep) (sb_append bs2 (sb_append bs1 b)) ctx2"
    by (rule_tac simD[OF 2 a(7,5)]) (use N S d a(3) le in auto)
  show "\<exists>new bs t' ctx'. enc_seq F1 F2 (ep, b) = Inr (new @ ep, sb_append bs b) \<and> length bs \<le> N1 + N2
      \<and> fst ` set new \<subseteq> S1 \<union> S2
      \<and> tparses (c_body E) (dec_seq G1 G2 (t, ctx)) (s_host b) (spos b) bs (False, t', ctx') \<and> R t'
      \<and> later (dpos E b ctx) ctx ctx' \<and> coupled E (new @ ep) (sb_append bs b) ctx'"
    using a b le(2) tparses_seq[where f = G1 and g = G2, OF a(4) b(4)]
    by (intro exI[of _ "new2 @ new1"] exI[of _ "bs1 @ bs2"] exI[of _ t2] exI[of _ ctx2])
      (auto simp: enc_seq_def intro: later_trans)
qed

lemma sim_mono:
  "sim E N S P F G Q \<Longrightarrow> N \<le> N' \<Longrightarrow> S \<subseteq> S' \<Longrightarrow> (\<And>t. P' t \<Longrightarrow> P t) \<Longrightarrow> (\<And>t. Q t \<Longrightarrow> Q' t) \<Longrightarrow> sim E N' S' P' F G Q'"
proof (rule simI)
  fix ep b ctx t
  assume s: "sim E N S P F G Q" and le: "N \<le> N'" "S \<subseteq> S'" "\<And>t. P' t \<Longrightarrow> P t" "\<And>t. Q t \<Longrightarrow> Q' t"
    and c: "coupled E ep b ctx" "P' t" "dpos E b ctx + N' < 2 ^ 32" "c_lp64 E \<longrightarrow> S' \<inter> fst ` set ep = {}"
  obtain new bs t' ctx' where "F (ep, b) = Inr (new @ ep, sb_append bs b)" "length bs \<le> N"
    "fst ` set new \<subseteq> S" "tparses (c_body E) (G (t, ctx)) (s_host b) (spos b) bs (False, t', ctx')" "Q t'"
    "later (dpos E b ctx) ctx ctx'" "coupled E (new @ ep) (sb_append bs b) ctx'"
    by (rule simD[OF s c(1) le(3)[OF c(2)]]) (use c le in auto)
  then show "\<exists>new bs t' ctx'. F (ep, b) = Inr (new @ ep, sb_append bs b) \<and> length bs \<le> N' \<and> fst ` set new \<subseteq> S'
       \<and> tparses (c_body E) (G (t, ctx)) (s_host b) (spos b) bs (False, t', ctx') \<and> Q' t'
       \<and> later (dpos E b ctx) ctx ctx' \<and> coupled E (new @ ep) (sb_append bs b) ctx'"
    using le by (intro exI[of _ new] exI[of _ bs] exI[of _ t'] exI[of _ ctx']) auto
qed

lemma sim_set_first:
  "sim E N S P' F G Q \<Longrightarrow> (\<And>t. P t \<Longrightarrow> P' (g t)) \<Longrightarrow> sim E N S P F (dec_seq (dec_set g) G) Q"
  unfolding sim_def dec_seq_def dec_set_def by (simp add: split_beta)

lemma sim_set_last:
  assumes s: "sim E N S P F G Q" and g: "\<And>t. Q t \<Longrightarrow> R (g t)"
  shows "sim E N S P F (dec_seq G (dec_set g)) R"
proof (rule simI)
  fix ep b ctx t
  assume c: "coupled E ep b ctx" "P t" "dpos E b ctx + N < 2 ^ 32" "c_lp64 E \<longrightarrow> S \<inter> fst ` set ep = {}"
  obtain new bs t' ctx' where o: "F (ep, b) = Inr (new @ ep, sb_append bs b)" "length bs \<le> N"
    "fst ` set new \<subseteq> S" "tparses (c_body E) (G (t, ctx)) (s_host b) (spos b) bs (False, t', ctx')" "Q t'"
    "later (dpos E b ctx) ctx ctx'" "coupled E (new @ ep) (sb_append bs b) ctx'"
    by (rule simD[OF s c(1,2,3)]) (use c in auto)
  have "tparses (c_body E) (dec_seq G (dec_set g) (t, ctx)) (s_host b) (spos b) (bs @ []) (False, g t', ctx')"
    by (rule tparses_seq[where f = G and g = "dec_set g", OF o(4)]) (simp add: dec_set_def tparses_ret)
  then show "\<exists>new bs t' ctx'. F (ep, b) = Inr (new @ ep, sb_append bs b) \<and> length bs \<le> N \<and> fst ` set new \<subseteq> S
       \<and> tparses (c_body E) (dec_seq G (dec_set g) (t, ctx)) (s_host b) (spos b) bs (False, t', ctx') \<and> R t'
       \<and> later (dpos E b ctx) ctx ctx' \<and> coupled E (new @ ep) (sb_append bs b) ctx'"
    using o g by (intro exI[of _ new] exI[of _ bs] exI[of _ "g t'"] exI[of _ ctx']) auto
qed

lemma sim_get:
  assumes F: "\<And>ep b. sb_ok b \<Longrightarrow> F (ep, b) = Inr (ep, sb_append (x (s_host b) (spos b)) b)"
    and m: "\<And>e p. parses m e p (x e p) (Some v)" and N: "\<And>e p. length (x e p) \<le> N"
    and Q: "\<And>t. P t \<Longrightarrow> Q (store v t)"
  shows "sim E N {} P F (dec_get m store) Q"
proof (rule simI)
  fix ep b ctx t
  assume c: "coupled E ep b ctx" "P t"
  let ?bs = "x (s_host b) (spos b)"
  have "tparses (c_body E) (dec_get m store (t, ctx)) (s_host b) (spos b) (?bs @ []) (False, store v t, ctx)"
    unfolding dec_get_def prod.case
    by (rule tparses_bind[OF parses_tparses[OF m]]) (simp add: tparses_ret)
  then show "\<exists>new bs t' ctx'. F (ep, b) = Inr (new @ ep, sb_append bs b) \<and> length bs \<le> N \<and> fst ` set new \<subseteq> {}
       \<and> tparses (c_body E) (dec_get m store (t, ctx)) (s_host b) (spos b) bs (False, t', ctx') \<and> Q t'
       \<and> later (dpos E b ctx) ctx ctx' \<and> coupled E (new @ ep) (sb_append bs b) ctx'"
    using c F[of b ep] N Q coupled_append[OF c(1)]
    by (intro exI[of _ "[]"] exI[of _ ?bs] exI[of _ "store v t"] exI[of _ ctx]) (auto simp: coupled_def)
qed

section \<open>The basic steps\<close>

lemma sim_string:
  assumes str: "string_ok str" and Q: "\<And>t. P t \<Longrightarrow> Q (store str t)"
  shows "sim E (7 + length str) {} P (CDR_put_string str) (dec_get CDR_get_const_string store) Q"
proof (rule sim_get[where x = "\<lambda>e p. enc_string e str p" and v = str])
  show "CDR_put_string str (ep, b) = Inr (ep, sb_append (enc_string (s_host b) str (spos b)) b)"
    if "sb_ok b" for ep b
    using str sb_append_string_enc[OF that str] by (simp add: CDR_put_string_def string_ok_def)
  show "parses CDR_get_const_string e p (enc_string e str p) (Some str)" for e p
    using str by (intro parses_CDR_get_const_string) (simp add: string_ok_def)
qed (simp_all add: Q enc_string_length)

lemma sim_ulong:
  assumes "\<And>t. P t \<Longrightarrow> Q (store w t)"
  shows "sim E 7 {} P (CDR_put_ulong w) (dec_get CDR_get_ulong store) Q"
  by (rule sim_get[where x = "\<lambda>e p. enc_ulong e w p" and v = w])
    (simp_all add: assms CDR_put_ulong_def CDR_put_def enc_ulong_def parses_CDR_get_ulong[unfolded enc_ulong_def]
      enc_ulong_length[unfolded enc_ulong_def, simplified])

lemma sim_ushort:
  assumes "\<And>t. P t \<Longrightarrow> Q (store w t)"
  shows "sim E 7 {} P (CDR_put_ushort w) (dec_get CDR_get_ushort store) Q"
proof (rule sim_get[where x = "\<lambda>e p. pad 2 p @ u16_bytes e w" and v = w])
  show "length (pad 2 p @ u16_bytes e w) \<le> 7" for e p
    using pad_less[of 2 p] by (simp del: pad_length)
qed (simp_all add: assms CDR_put_ushort_def CDR_put_def parses_CDR_get_ushort)

lemma sim_label:
  assumes w: "label_width k = Some w" and l: "label_ok k l" and Q: "\<And>t. P t \<Longrightarrow> Q (store l t)"
  shows "sim E 15 {} P (CDR_put_label k l) (dec_get (label_reader k) store) Q"
proof (rule sim_get[where x = "\<lambda>e p. pad w p @ label_bytes w e l" and v = l])
  have w': "w \<in> {1, 2, 4, 8}" "length (label_bytes w e l) = w" for e
    using label_bytes_length[OF w] by auto
  show "CDR_put_label k l (ep, b) = Inr (ep, sb_append (pad w (spos b) @ label_bytes w (s_host b) l) b)"
    if "sb_ok b" for ep b
  proof -
    have "w dvd 2 ^ 32" "0 < w" using w' by auto
    then show ?thesis using w w' that
      by (simp add: CDR_put_label_def CDR_put_def sb_align_pad[OF that] del: sb_align_Suc_0 sb_align_1248)
  qed
  show "length (pad w p @ label_bytes w e l) \<le> 15" for e p
    using pad_less[of w p] w' by (auto simp del: pad_length)
qed (use parses_label_reader[OF w l] Q in auto)

lemma sim_ignore:
  assumes "sim E N S P F G Q" shows "sim E N S P F (dec_ignore G) Q"
proof (rule simI)
  fix ep b ctx t
  assume c: "coupled E ep b ctx" "P t" "dpos E b ctx + N < 2 ^ 32" "c_lp64 E \<longrightarrow> S \<inter> fst ` set ep = {}"
  obtain new bs t' ctx' where o: "F (ep, b) = Inr (new @ ep, sb_append bs b)" "length bs \<le> N"
    "fst ` set new \<subseteq> S" "tparses (c_body E) (G (t, ctx)) (s_host b) (spos b) bs (False, t', ctx')" "Q t'"
    "later (dpos E b ctx) ctx ctx'" "coupled E (new @ ep) (sb_append bs b) ctx'"
    by (rule simD[OF assms c(1,2,3)]) (use c in auto)
  have "tparses (c_body E) (dec_ignore G (t, ctx)) (s_host b) (spos b) (bs @ []) (False, t', ctx')"
    unfolding dec_ignore_def by (rule tparses_bind[OF o(4)]) (simp add: tparses_ret)
  then show "\<exists>new bs t' ctx'. F (ep, b) = Inr (new @ ep, sb_append bs b) \<and> length bs \<le> N \<and> fst ` set new \<subseteq> S
       \<and> tparses (c_body E) (dec_ignore G (t, ctx)) (s_host b) (spos b) bs (False, t', ctx') \<and> Q t'
       \<and> later (dpos E b ctx) ctx ctx' \<and> coupled E (new @ ep) (sb_append bs b) ctx'"
    using o by (intro exI[of _ new] exI[of _ bs] exI[of _ t'] exI[of _ ctx']) auto
qed

lemma sim_tcD:
  assumes "sim_tc E N S u F D" "coupled E ep b ctx" "dpos E b ctx + N < 2 ^ 32"
    "c_lp64 E \<Longrightarrow> S \<inter> fst ` set ep = {}"
  obtains new bs u' ctx' where "F (ep, b) = Inr (new @ ep, sb_append bs b)" "length bs \<le> N"
    "fst ` set new \<subseteq> S" "tparses (c_body E) (D ctx) (s_host b) (spos b) bs (Some (Some u'), ctx')"
    "same_tc (c_abi E) u u'" "later (dpos E b ctx) ctx ctx'" "coupled E (new @ ep) (sb_append bs b) ctx'"
proof -
  note step = assms(1)[unfolded sim_tc_def, THEN spec, THEN spec, THEN spec, THEN mp, THEN mp, THEN mp]
  have "c_lp64 E \<longrightarrow> S \<inter> fst ` set ep = {}" using assms(4) by blast
  from step[OF assms(2,3) this] that show thesis by (elim exE conjE)
qed

lemma sim_of_tc:
  assumes u: "sim_tc E N S u F D" and Q: "\<And>t u'. P t \<Longrightarrow> same_tc (c_abi E) u u' \<Longrightarrow> Q (store (Some u') t)"
  shows "sim E N S P F (dec_tc D store) Q"
proof (rule simI)
  fix ep b ctx t
  assume c: "coupled E ep b ctx" "P t" "dpos E b ctx + N < 2 ^ 32" "c_lp64 E \<longrightarrow> S \<inter> fst ` set ep = {}"
  obtain new bs u' ctx' where o: "F (ep, b) = Inr (new @ ep, sb_append bs b)" "length bs \<le> N"
    "fst ` set new \<subseteq> S" "tparses (c_body E) (D ctx) (s_host b) (spos b) bs (Some (Some u'), ctx')"
    "same_tc (c_abi E) u u'" "later (dpos E b ctx) ctx ctx'" "coupled E (new @ ep) (sb_append bs b) ctx'"
    by (rule sim_tcD[OF u c(1,3)]) (use c in auto)
  have "tparses (c_body E) (dec_tc D store (t, ctx)) (s_host b) (spos b) (bs @ []) (False, store (Some u') t, ctx')"
    unfolding dec_tc_def prod.case by (rule tparses_bind[OF o(4)]) (simp add: tparses_ret)
  then show "\<exists>new bs t' ctx'. F (ep, b) = Inr (new @ ep, sb_append bs b) \<and> length bs \<le> N \<and> fst ` set new \<subseteq> S
       \<and> tparses (c_body E) (dec_tc D store (t, ctx)) (s_host b) (spos b) bs (False, t', ctx') \<and> Q t'
       \<and> later (dpos E b ctx) ctx ctx' \<and> coupled E (new @ ep) (sb_append bs b) ctx'"
    using o Q[OF c(2) o(5)] by (intro exI[of _ new] exI[of _ bs] exI[of _ "store (Some u') t"] exI[of _ ctx']) auto
qed

text \<open>A loop of the decoder against a list of steps of the encoder.\<close>

fun apart :: "'a set list \<Rightarrow> bool" where
  "apart [] = True"
| "apart (S # Ss) \<longleftrightarrow> S \<inter> \<Union> (set Ss) = {} \<and> apart Ss"

lemma sim_nothing: "(\<And>t. P t \<Longrightarrow> Q t) \<Longrightarrow> sim E 0 {} P Inr dec_ok Q"
  by (rule simI, rule exI[of _ "[]"], rule exI[of _ "[]"])
    (auto simp: dec_ok_def intro!: tparses_ret exI)

lemma sim_loop:
  assumes "\<And>i. i < length xs \<Longrightarrow> sim E (fst (xs ! i)) (fst (snd (xs ! i))) (P (k + i)) (snd (snd (xs ! i)))
      (step (k + i)) (P (Suc (k + i)))"
    and "c_lp64 E \<Longrightarrow> apart (map (fst \<circ> snd) xs)"
  shows "sim E (sum_list (map fst xs)) (\<Union> (set (map (fst \<circ> snd) xs))) (P k) (enc_all (map (snd \<circ> snd) xs))
    (dec_loop step k (length xs)) (P (k + length xs))"
  using assms
proof (induction xs arbitrary: k)
  case Nil
  have "enc_all [] = Inr" by (rule ext) simp
  then show ?case by (simp add: sim_nothing)
next
  case (Cons x xs)
  have "enc_all (map (snd \<circ> snd) (x # xs)) = enc_seq (snd (snd x)) (enc_all (map (snd \<circ> snd) xs))"
    by (rule ext) (simp add: enc_seq_def)
  moreover have "sim E (fst x) (fst (snd x)) (P k) (snd (snd x)) (step k) (P (Suc k))"
    using Cons.prems(1)[of 0] by simp
  moreover have "sim E (sum_list (map fst xs)) (\<Union> (set (map (fst \<circ> snd) xs))) (P (Suc k))
      (enc_all (map (snd \<circ> snd) xs)) (dec_loop step (Suc k) (length xs)) (P (Suc k + length xs))"
    by (rule Cons.IH) (use Cons.prems(1)[of "Suc _"] Cons.prems(2) in auto)
  ultimately have "sim E (fst x + sum_list (map fst xs)) (fst (snd x) \<union> \<Union> (set (map (fst \<circ> snd) xs))) (P k)
      (enc_all (map (snd \<circ> snd) (x # xs))) (dec_seq (step k) (dec_loop step (Suc k) (length xs)))
      (P (Suc k + length xs))"
    using Cons.prems(2) by (simp only:) (rule sim_seq, auto)
  then show ?case by (simp add: comp_def del: enc_all.simps)
qed

lemma enc_members_all:
  "length us = length hs \<Longrightarrow> enc_members hs (map Some us) = enc_all (map2 (\<lambda>h u. enc_seq h (tc_enc u)) hs us)"
  by (rule ext, induction hs us rule: list_induct2') (auto simp: enc_seq_def rbind_assoc intro!: rbind_cong)

end
