(* ===== verification/Typecode_Nodes.thy ===== *)
theory Typecode_Nodes imports Typecode_Sim begin

text \<open>
  One TypeCode: a reference back, a kind without parameters, and a kind whose parameters follow it
  (\<^verbatim>\<open>TK_SIMPLE\<close>) or are in an encapsulation (\<^verbatim>\<open>TK_COMPLEX\<close>), given the step for the parameters.
\<close>

section \<open>One node\<close>

lemma unat_pos:
  assumes "unat (c :: u32) + n < 2 ^ 32" shows "unat (c + of_nat n) = unat c + n"
proof -
  have "unat (of_nat n :: u32) = n" using assms by (simp add: unat_of_nat_u32)
  then show ?thesis using assms by (simp add: unat_word_ariths)
qed

text \<open>The decoder has finished a node that began at \<open>b1\<close>, possibly in a buffer of its own.\<close>

lemma coupled_close:
  fixes E :: coding
  defines "idx \<equiv> \<lambda>ctx b1. current_idx ctx + of_nat (spos b1 - c_body E)"
  assumes c: "coupled E ep b1 ctx"
    and ci: "coupled (E\<lparr> c_open := insert a (c_open E), c_body := \<beta>' \<rparr>) (new @ (a, s_size b1) # ep) b2 ctx2"
    and l: "later dI ctx1 ctx2" "prior_tcs ctx1 = prior_tcs ctx"
      "current_idx ctx1 = current_idx ctx + of_nat (\<beta>' - c_body E)"
    and dI: "dpos E b1 ctx < dI"
    and \<beta>': "c_body E \<le> \<beta>'" "\<beta>' \<le> spos b2" "spos b1 + 4 \<le> spos b2"
    and bound: "unat (current_idx ctx) + (spos b2 - c_body E) < 2 ^ 32"
    and a: "a \<notin> fst ` set ep" "a \<notin> fst ` set new"
    and u: "same_tc (c_abi E) (c_tree E a) u"
  shows "coupled E (new @ (a, s_size b1) # ep) b2
      (ctx2\<lparr> current_idx := current_idx ctx, prior_tcs := (Some u, idx ctx b1) # prior_tcs ctx2 \<rparr>)"
    and "later (dpos E b1 ctx) ctx
      (ctx2\<lparr> current_idx := current_idx ctx, prior_tcs := (Some u, idx ctx b1) # prior_tcs ctx2 \<rparr>)"
proof -
  let ?E = "E\<lparr> c_open := insert a (c_open E), c_body := \<beta>' \<rparr>" and ?idx = "idx ctx b1"
  have pb: "c_body E \<le> spos b1" using c by (simp add: coupled_def)
  have ui: "unat ?idx = dpos E b1 ctx"
    unfolding idx_def dpos_def by (rule unat_pos) (use bound \<beta>' in auto)
  have uc: "unat (current_idx ctx1) = unat (current_idx ctx) + (\<beta>' - c_body E)"
    unfolding l(3) by (rule unat_pos) (use bound \<beta>' in auto)
  have c2: "current_idx ctx2 = current_idx ctx1" using l(1) by (simp add: later_def)
  have dp: "dpos ?E b2 ctx2 = dpos E b2 ctx"
    using uc c2 \<beta>' pb by (simp add: dpos_def)
  have K: "s_size b1 + c_shift E = ?idx" unfolding idx_def by (rule coupled_idx[OF c])
  obtain newp where newp: "prior_tcs ctx2 = newp @ prior_tcs ctx" "\<forall>(p, j) \<in> set newp. dI \<le> unat j"
    using l(1,2) by (auto simp: later_def)
  have old: "unat j + 4 \<le> dpos E b1 ctx" if "(p, j) \<in> set (prior_tcs ctx)" for p j
    using c that by (auto simp: coupled_def)
  have fresh_idx: "?idx \<notin> snd ` set (prior_tcs ctx2)"
    using newp old ui dI by fastforce
  have eq: "current_idx ctx + of_nat (spos b2 - c_body E) = s_size b2 + c_shift E"
  proof -
    have "(of_nat (\<beta>' - c_body E) + of_nat (spos b2 - \<beta>') :: u32) = of_nat (spos b2 - c_body E)"
      using \<beta>' by (simp flip: of_nat_add)
    then show ?thesis using ci c2 l(3) by (simp add: coupled_def add.assoc)
  qed
  have priors: "unat j + 4 \<le> dpos E b2 ctx" if "(p, j) \<in> set ((Some u, ?idx) # prior_tcs ctx2)" for p j
    using that ci dp ui \<beta>' pb by (auto simp: coupled_def dpos_def)
  have entries: "\<exists>t'. (Some t', i + c_shift E) \<in> set ((Some u, ?idx) # prior_tcs ctx2)
        \<and> same_tc (c_abi E) (c_tree E x) t'"
    if "(x, i) \<in> set (new @ (a, s_size b1) # ep)" "x \<notin> c_open E" for x i
  proof (cases "x = a")
    case True
    then have "i = s_size b1" using that(1) a by (auto simp: image_def)
    then show ?thesis using True K u by auto
  next
    case False
    then show ?thesis using that ci by (fastforce simp: coupled_def)
  qed
  show "coupled E (new @ (a, s_size b1) # ep) b2
      (ctx2\<lparr> current_idx := current_idx ctx, prior_tcs := (Some u, ?idx) # prior_tcs ctx2 \<rparr>)"
    using ci \<beta>' pb eq fresh_idx priors entries
    by (auto simp: coupled_def dpos_def)
  show "later (dpos E b1 ctx) ctx
      (ctx2\<lparr> current_idx := current_idx ctx, prior_tcs := (Some u, ?idx) # prior_tcs ctx2 \<rparr>)"
    using newp ui dI by (auto simp: later_def)
qed

lemma dpos_fresh [simp]: "dpos E b (ctx\<lparr> fresh := k \<rparr>) = dpos E b ctx"
  by (simp add: dpos_def)

lemma coupled_fresh [simp]: "coupled E ep b (ctx\<lparr> fresh := k \<rparr>) \<longleftrightarrow> coupled E ep b ctx"
  by (simp add: coupled_def)

text \<open>The decoder starts on the contents of a node.\<close>

lemma coupled_open:
  fixes E :: coding and a :: addr
  assumes c: "coupled E ep b ctx" and \<beta>': "c_body E \<le> \<beta>'" "\<beta>' \<le> spos b + length xs"
    and bound: "unat (current_idx ctx) + (\<beta>' - c_body E) < 2 ^ 32"
  defines "E' \<equiv> E\<lparr> c_open := insert a (c_open E), c_body := \<beta>' \<rparr>"
    and "ctx' \<equiv> ctx\<lparr> current_idx := current_idx ctx + of_nat (\<beta>' - c_body E) \<rparr>"
  shows "coupled E' ((a, i) # ep) (sb_append xs b) ctx'"
    and "dpos E' (sb_append xs b) ctx' = dpos E b ctx + length xs"
proof -
  have pb: "c_body E \<le> spos b" using c by (simp add: coupled_def)
  have uc: "unat (current_idx ctx') = unat (current_idx ctx) + (\<beta>' - c_body E)"
    unfolding ctx'_def using unat_pos[OF bound] by simp
  show dp: "dpos E' (sb_append xs b) ctx' = dpos E b ctx + length xs"
    using uc \<beta>' pb by (simp add: dpos_def E'_def)
  have "current_idx ctx' + of_nat (spos b + length xs - \<beta>') = s_size (sb_append xs b) + c_shift E"
  proof -
    have "(of_nat (\<beta>' - c_body E) + of_nat (spos b + length xs - \<beta>') :: u32)
        = of_nat (spos b - c_body E) + of_nat (length xs)"
      using \<beta>' pb by (simp del: of_nat_diff flip: of_nat_add)
    then show ?thesis using coupled_idx[OF c] by (simp add: ctx'_def s_size_append add.assoc add.commute)
  qed
  moreover have "unat j + 4 \<le> dpos E' (sb_append xs b) ctx'" if "(p, j) \<in> set (prior_tcs ctx)" for p j
    unfolding dp using c that by (auto simp: coupled_def)
  ultimately show "coupled E' ((a, i) # ep) (sb_append xs b) ctx'"
    using c \<beta>' by (auto simp: coupled_def E'_def ctx'_def)
qed

lemma find_unique:
  "distinct (map snd xs) \<Longrightarrow> (x, j) \<in> set xs \<Longrightarrow> (\<And>y k. P (y, k) \<longleftrightarrow> k = j) \<Longrightarrow> List.find P xs = Some (x, j)"
  by (induction xs) (force split: prod.splits)+

lemma tparses_here:
  "(\<And>b. r_body b = \<beta> \<Longrightarrow> r_cur b = p \<Longrightarrow> m b = m' b) \<Longrightarrow> tparses \<beta> m' e p bs v \<Longrightarrow> tparses \<beta> m e p bs v"
  by (simp add: tparses_def at_bytes_def)

lemma find_c_alignment_defined:
  "tc_ok m t \<Longrightarrow> \<exists>v. find_c_alignment m t = Inr v"
  "list_all (pred_option (tc_ok m)) xs \<Longrightarrow> None \<notin> set xs \<Longrightarrow> n \<le> length xs \<Longrightarrow>
     \<exists>v. max_c_alignment m w n xs = Inr v"
proof (induction m t and m w n xs rule: find_c_alignment_max_c_alignment.induct)
  case (1 m a f subs d)
  show ?case
  proof (cases "kind f \<in> {tk_alias, tk_array}")
    case True
    then obtain t where t: "subs = [Some t]" "tc_ok m t" using tc_ok_alias[OF "1.prems"] by auto
    then show ?thesis using True "1.IH"(5)[OF _ t(1)] "1.IH"(4)[OF _ t(1)] by auto
  next
    case other: False
    then show ?thesis
      using "1.prems" "1.IH"
      by (cases "kind f") (auto simp: tc_shape_def Let_def basic_tc_def zero_fields_def)
  qed
qed auto

lemma canon_kind: "canon u = canon t \<Longrightarrow> tc_kind u = tc_kind t"
proof -
  have "kind (canon_fields f) = kind f" for f
    by (cases "kind f") (simp_all add: canon_fields_def zero_fields_def Let_def)
  then show "canon u = canon t \<Longrightarrow> tc_kind u = tc_kind t"
    by (metis canon.simps tc.collapse tc.sel(2))
qed

lemma same_tc_align:
  assumes s: "same_tc m t u" and k: "tk_type (tc_kind t) \<noteq> TK_EMPTY"
  shows "same_tc m t (upd_fields (c_align_update (\<lambda>_. v)) u)"
proof -
  obtain a f subs d where u: "u = TC a f subs d" by (cases u)
  have kf: "tk_type (kind f) \<noteq> TK_EMPTY" using s k canon_kind[of u t] u by (simp add: same_tc_def)
  have "canon_fields (c_align_update (\<lambda>_. v) f) = canon_fields f"
    by (cases "kind f") (simp_all add: canon_fields_def Let_def)
  moreover have "tc_shape m (TC a (c_align_update (\<lambda>_. v) f) subs d)" if "tc_shape m (TC a f subs d)"
    using that kf by (cases "kind f") (simp_all add: tc_shape_def Let_def tk_type_def)
  ultimately show ?thesis using s u by (auto simp: same_tc_def)
qed

lemma parses_aligned:
  assumes "tc_ok m t"
  obtains v where
    "\<And>e p ctx. parses (aligned m t ctx) e p [] (Some (upd_fields (c_align_update (\<lambda>_. v)) t), ctx)"
proof -
  obtain v where v: "find_c_alignment m t = Inr v" using find_c_alignment_defined(1)[OF assms] by blast
  show thesis
    by (rule that[of v], rule parsesI) (simp add: aligned_def v at_bytes_def)
qed

lemma offset_cancel: "i - s - k - x = j - c - (s + h - c + k + x) \<longleftrightarrow> j = i + (h :: 'a::ab_group_add)"
proof -
  have "j - c - (s + h - c + k + x) = j - h - s - k - x" by (simp add: algebra_simps)
  moreover have "i - s - k - x = j - h - s - k - x \<longleftrightarrow> i = j - h" by (metis diff_add_cancel)
  ultimately show ?thesis by (auto simp: algebra_simps)
qed

text \<open>A reference back to a TypeCode that has been finished.\<close>

lemma sim_back_ref:
  assumes c: "coupled E ep b ctx" and i: "map_of ep a = Some i" and a: "a \<notin> c_open E" and lp: "\<not> c_lp64 E"
  defines "bs \<equiv> pad 4 (spos b) @ u32_bytes (s_host b) CORBA_tk_recursive
      @ u32_bytes (s_host b) (i - s_size b - of_nat (length (pad 4 (spos b))) - 8)"
  shows "\<exists>u. same_tc (c_abi E) (c_tree E a) u
    \<and> tparses (c_body E) (tc_dec m False (Suc n) ctx) (s_host b) (spos b) bs (Some (Some u), ctx)
    \<and> coupled E ep (sb_append bs b) ctx"
proof -
  let ?e = "s_host b" and ?p = "spos b" and ?\<beta> = "c_body E" and ?k = "length (pad 4 (spos b))"
  let ?off = "i - s_size b - of_nat ?k - 8 :: u32"
  have "(a, i) \<in> set ep" using i by (rule map_of_SomeD)
  then obtain u where u: "(Some u, i + c_shift E) \<in> set (prior_tcs ctx)" "same_tc (c_abi E) (c_tree E a) u"
    using c a by (auto simp: coupled_def)
  have pb: "?\<beta> \<le> ?p" using c by (simp add: coupled_def)
  have hit: "back_ref_hit False ?off j (current_idx ctx) (?p + ?k + 8 - ?\<beta>) \<longleftrightarrow> j = i + c_shift E" for j
  proof -
    have "?p + ?k + 8 - ?\<beta> = (?p - ?\<beta>) + ?k + 8" using pb by linarith
    then have "(of_nat (?p + ?k + 8 - ?\<beta>) :: u32) = of_nat (?p - ?\<beta>) + of_nat ?k + 8"
      by (simp only: of_nat_add of_nat_numeral)
    moreover have "(of_nat (?p - ?\<beta>) :: u32) = s_size b + c_shift E - current_idx ctx"
      unfolding coupled_idx[OF c] by (simp only: add_diff_cancel_left')
    ultimately have "(of_nat (?p + ?k + 8 - ?\<beta>) :: u32) = s_size b + c_shift E - current_idx ctx + of_nat ?k + 8"
      by (simp only:)
    then have "back_ref_hit False ?off j (current_idx ctx) (?p + ?k + 8 - ?\<beta>)
        \<longleftrightarrow> ?off = j - current_idx ctx - (s_size b + c_shift E - current_idx ctx + of_nat ?k + 8)"
      by (simp only: back_ref_hit_def if_False)
    also have "\<dots> \<longleftrightarrow> j = i + c_shift E" by (rule offset_cancel)
    finally show ?thesis .
  qed
  have find: "List.find (\<lambda>(t, idx). back_ref_hit False ?off idx (current_idx ctx) (?p + ?k + 8 - ?\<beta>))
      (prior_tcs ctx) = Some (Some u, i + c_shift E)"
    by (rule find_unique[OF _ u(1)]) (use c hit in \<open>auto simp: coupled_def\<close>)
  have "tparses ?\<beta> (dec_back_ref False ctx) ?e (?p + ?k + 4) (u32_bytes ?e ?off @ []) (Some (Some u), ctx)"
    unfolding dec_back_ref_def
  proof (rule tparses_bind)
    have "pad 4 (?p + ?k + 4) = []"
      using pad_pos[of 4 ?p] by (simp add: pad_Nil ALIGN_VALUE_dvd del: pad_length)
    then show "tparses ?\<beta> CDR_get_ulong ?e (?p + ?k + 4) (u32_bytes ?e ?off) (Some ?off)"
      using parses_tparses[OF parses_CDR_get_ulong, of ?\<beta> ?e "?p + ?k + 4" ?off] by (simp add: enc_ulong_def)
    show "tparses ?\<beta> (case Some ?off of None \<Rightarrow> rd_ret (None, ctx) | Some offset \<Rightarrow> (\<lambda>b.
         case List.find (\<lambda>(t, idx). back_ref_hit False offset idx (current_idx ctx) (get_rptr b))
           (prior_tcs ctx) of
           Some (p, idx) \<Rightarrow> rd_ret (Some p, ctx) b
         | None \<Rightarrow> rd_fail Abort b)) ?e (?p + ?k + 4 + length (u32_bytes ?e ?off)) [] (Some (Some u), ctx)"
      by (rule tparses_here[OF _ tparses_ret]) (simp add: get_rptr_def find add.assoc[of "?p + ?k" 4 4] del: pad_length)
  qed
  then have "tparses ?\<beta> (tc_dec m False (Suc n) ctx) ?e ?p
      (enc_ulong ?e CORBA_tk_recursive ?p @ u32_bytes ?e ?off @ []) (Some (Some u), ctx)"
    unfolding tc_dec.simps
    by (intro tparses_bind[OF parses_tparses[OF parses_CDR_get_ulong]])
      (simp add: CORBA_tk_last_def CORBA_tk_recursive_def enc_ulong_def add.assoc del: pad_length)
  then show ?thesis
    using u(2) coupled_append[OF c] by (auto simp: bs_def enc_ulong_def)
qed

text \<open>What the encoder writes for a node, and how the decoder takes it apart.\<close>

lemma tc_enc_empty:
  assumes "sb_ok b" "tk_type (kind f) = TK_EMPTY" "kind f \<noteq> tk_recursive"
  shows "tc_enc (TC a f subs d) (ep, b)
    = Inr (ep, sb_append (enc_ulong (s_host b) (kind_code (kind f)) (spos b)) b)"
  using assms by (simp add: enc_ulong_def)

lemma tc_enc_hit:
  assumes "sb_ok b" "tk_type (kind f) \<noteq> TK_EMPTY" "map_of ep a = Some i"
  shows "tc_enc (TC a f subs d) (ep, b) = Inr (ep, sb_append (pad 4 (spos b)
      @ u32_bytes (s_host b) CORBA_tk_recursive
      @ u32_bytes (s_host b) (i - s_size b - of_nat (length (pad 4 (spos b))) - 8)) b)"
proof -
  have k: "kind f \<noteq> tk_recursive" using assms(2) by (auto simp: tk_type_def)
  have p: "pad 4 (spos b + length (pad 4 (spos b))) = []" "pad 4 (spos b + length (pad 4 (spos b)) + 4) = []"
    using pad_pos[of 4 "spos b"] by (simp_all add: pad_Nil ALIGN_VALUE_dvd del: pad_length)
  show ?thesis
    using assms k p by (simp add: s_size_append Let_def algebra_simps del: pad_length)
qed

lemma tc_enc_simple:
  assumes "sb_ok b" "tk_type (kind f) = TK_SIMPLE" "map_of ep a = None"
  shows "tc_enc (TC a f subs d) (ep, b) = tc_encoder (TC a f subs d)
    ((a, s_size (sb_append (pad 4 (spos b)) b)) # ep,
      sb_append (enc_ulong (s_host b) (kind_code (kind f)) (spos b)) b)"
proof -
  have k: "kind f \<noteq> tk_recursive" using assms(2) by (auto simp: tk_type_def)
  show ?thesis using assms k by (simp add: enc_ulong_def del: tc_encoder.simps)
qed

lemma tc_enc_complex:
  fixes a :: addr
  assumes b: "sb_ok b" and k: "tk_type (kind f) = TK_COMPLEX" and m: "map_of ep a = None"
  defines "xs \<equiv> enc_ulong (s_host b) (kind_code (kind f)) (spos b) @ u32_bytes (s_host b) 0
      @ [GIOP_FLAG_ENDIANNESS (s_host b)]"
  assumes inner: "tc_encoder (TC a f subs d) ((a, s_size (sb_append (pad 4 (spos b)) b)) # ep, sb_append xs b)
      = Inr (ep', sb_append (xs @ bs) b)"
  shows "tc_enc (TC a f subs d) (ep, b) = Inr (ep', sb_append
      (enc_ulong (s_host b) (kind_code (kind f)) (spos b)
        @ enc_octets (s_host b) (GIOP_FLAG_ENDIANNESS (s_host b) # bs) (ALIGN_VALUE (spos b) 4 + 4)) b)"
proof -
  let ?e = "s_host b" and ?f = "GIOP_FLAG_ENDIANNESS (s_host b)"
  let ?b1 = "sb_append (enc_ulong ?e (kind_code (kind f)) (spos b)) b"
  have kr: "kind f \<noteq> tk_recursive" using k by (auto simp: tk_type_def)
  have p1: "pad 4 (spos ?b1) = []" "spos ?b1 = ALIGN_VALUE (spos b) 4 + 4"
    using pad_pos[of 4 "spos b"]
    by (simp_all add: enc_ulong_def pad_Nil ALIGN_VALUE_dvd del: pad_length flip: add.assoc)
  have al: "sb_align 4 ?b1 = ?b1" using b p1(1) by simp
  have patch: "sb_patch (length (s_out ?b1)) (u32_bytes ?e w) (sb_append (u32_bytes ?e 0 @ ?f # bs) ?b1)
      = sb_append (u32_bytes ?e w @ ?f # bs) ?b1" for w
    by (rule sb_patch_append) simp
  have len: "s_size (sb_append (xs @ bs) b) - s_size (sb_append (u32_bytes ?e 0) ?b1)
      = of_nat (Suc (length bs))"
    by (simp add: xs_def s_size_append)
  have st: "sb_align 4 b = sb_append (pad 4 (spos b)) b"
    "sb_append (u32_bytes ?e (kind_code (kind f))) (sb_append (pad 4 (spos b)) b) = ?b1"
    using b by (simp_all add: enc_ulong_def)
  have "tc_enc (TC a f subs d) (ep, b) = rbind (tc_encoder (TC a f subs d)
        ((a, s_size (sb_append (pad 4 (spos b)) b)) # ep, sb_append xs b))
      (\<lambda>(prior, b'). Inr (prior, sb_patch (length (s_out ?b1)) (u32_bytes (s_host b')
        (s_size b' - s_size (sb_append (u32_bytes ?e 0) ?b1))) b'))"
    using b k kr m st al
    by (simp add: sb_append_aligned_at_def Let_def xs_def tc_enc.simps del: tc_encoder.simps sb_append_append)
      (simp add: enc_ulong_def)
  then show ?thesis
    using inner patch[of "of_nat (Suc (length bs))"] len p1(1)[unfolded p1(2)]
    by (simp add: xs_def enc_octets_def enc_ulong_def del: pad_length tc_enc.simps tc_encoder.simps)
qed

lemma tparses_dec_node:
  assumes k: "kd \<noteq> tk_recursive" and \<beta>: "\<beta> \<le> p"
    and body: "tparses \<beta> (dec_body m (tc_dec m lp64 n) kd
      (current_idx ctx + of_nat (ALIGN_VALUE p 4 + 4 - \<beta>) + 4) ctx) e (ALIGN_VALUE p 4 + 4) bs (r, ctx')"
  shows "tparses \<beta> (tc_dec m lp64 (Suc n) ctx) e p (enc_ulong e (kind_code kd) p @ bs)
    (Some r, ctx'\<lparr> prior_tcs := (r, current_idx ctx + of_nat (ALIGN_VALUE p 4 - \<beta>)) # prior_tcs ctx' \<rparr>)"
proof -
  let ?q = "ALIGN_VALUE p 4" and ?i = "current_idx ctx + of_nat (ALIGN_VALUE p 4 - \<beta>)"
  have q: "p + length (enc_ulong e (kind_code kd) p) = ?q + 4" "p \<le> ?q"
    using pad_pos[of 4 p] ALIGN_VALUE_ge[of 4 p] by (simp_all add: enc_ulong_def del: pad_length flip: add.assoc)
  have idx: "current_idx ctx + of_nat (?q + 4 - \<beta>) - 4 = ?i"
  proof -
    have "?q + 4 - \<beta> = (?q - \<beta>) + 4" using q(2) \<beta> by linarith
    then show ?thesis by (simp only: of_nat_add of_nat_numeral add.assoc[symmetric] add_diff_cancel_right')
  qed
  have node: "tparses \<beta> (dec_node m (tc_dec m lp64 n) kd ctx) e (?q + 4) (bs @ [])
      (Some r, ctx'\<lparr> prior_tcs := (r, ?i) # prior_tcs ctx' \<rparr>)"
  proof (rule tparses_here)
    show "tparses \<beta> (rd_bind (dec_body m (tc_dec m lp64 n) kd
          (current_idx ctx + of_nat (?q + 4 - \<beta>) + 4) ctx)
        (\<lambda>(p, ctx'). rd_ret (Some p, ctx'\<lparr> prior_tcs := (p, ?i) # prior_tcs ctx' \<rparr>))) e (?q + 4) (bs @ [])
      (Some r, ctx'\<lparr> prior_tcs := (r, ?i) # prior_tcs ctx' \<rparr>)"
      by (rule tparses_bind[OF body]) (simp add: tparses_ret)
    show "dec_node m (tc_dec m lp64 n) kd ctx b = rd_bind (dec_body m (tc_dec m lp64 n) kd
          (current_idx ctx + of_nat (?q + 4 - \<beta>) + 4) ctx)
        (\<lambda>(p, ctx'). rd_ret (Some p, ctx'\<lparr> prior_tcs := (p, ?i) # prior_tcs ctx' \<rparr>)) b"
      if "r_body b = \<beta>" "r_cur b = ?q + 4" for b
      unfolding dec_node_def get_rptr_def that idx ..
  qed
  have "kind_code kd < CORBA_tk_last" by (rule kind_code_less[OF k])
  then have "\<not> kind_code kd \<ge> CORBA_tk_last" by simp
  then show ?thesis
    unfolding tc_dec.simps
    using node kind_of_kind_code[OF k] q(1)
    by (intro tparses_bind[OF parses_tparses[OF parses_CDR_get_ulong]]) simp
qed

text \<open>
  The decoder of a node from the step that decodes its contents: in the buffer it is in, or in one of
  its own.
\<close>

lemma tparses_simple_body:
  assumes k: "tk_type kd = TK_SIMPLE"
    and s: "tparses \<beta> (tk_decoder dec kd (TC (Heap (fresh ctx)) (zero_fields kd) [] None,
      ctx\<lparr> fresh := Suc (fresh ctx) \<rparr>)) e p bs (False, u, ctx2)"
    and v: "\<And>e p. parses (aligned m u ctx2) e p [] (Some w, ctx2)"
  shows "tparses \<beta> (dec_body m dec kd i ctx) e p bs (Some w, ctx2)"
proof -
  have "tparses \<beta> (rd_bind (tk_decoder dec kd (TC (Heap (fresh ctx)) (zero_fields kd) [] None,
      ctx\<lparr> fresh := Suc (fresh ctx) \<rparr>)) (\<lambda>(failed, tc, ctx). aligned m tc ctx)) e p (bs @ []) (Some w, ctx2)"
    by (rule tparses_bind[OF s]) (simp add: parses_tparses[OF v])
  then show ?thesis using k by (simp add: dec_body_def Let_def)
qed

lemma tparses_complex_body:
  assumes k: "tk_type kd = TK_COMPLEX" and l: "Suc (length bs) < 2 ^ 32"
    and s: "tparses (ALIGN_VALUE p 4 + 4) (tk_decoder dec kd (TC (Heap (fresh ctx)) (zero_fields kd) [] None,
      ctx\<lparr> fresh := Suc (fresh ctx), current_idx := i \<rparr>)) e (ALIGN_VALUE p 4 + 5) bs (False, u, ctx2)"
    and v: "\<And>e p ctx. parses (aligned m u ctx) e p [] (Some w, ctx)"
  shows "tparses \<beta> (dec_body m dec kd i ctx) e p (enc_octets e (GIOP_FLAG_ENDIANNESS e # bs) p)
    (Some w, ctx2\<lparr> current_idx := current_idx ctx \<rparr>)"
proof -
  let ?s = "tk_decoder dec kd (TC (Heap (fresh ctx)) (zero_fields kd) [] None,
      ctx\<lparr> fresh := Suc (fresh ctx), current_idx := i \<rparr>)"
  have "tparses \<beta> (tc_encaps ?s) e p (enc_octets e (GIOP_FLAG_ENDIANNESS e # bs) p) (False, u, ctx2)"
    by (rule tparses_encaps[OF _ l]) (use s in simp)
  then have "tparses \<beta> (rd_bind (tc_encaps ?s) (\<lambda>(failed, tc, ctx').
      aligned m tc (ctx'\<lparr> current_idx := current_idx ctx \<rparr>))) e p
      (enc_octets e (GIOP_FLAG_ENDIANNESS e # bs) p @ []) (Some w, ctx2\<lparr> current_idx := current_idx ctx \<rparr>)"
    by (rule tparses_bind) (simp add: parses_tparses[OF v])
  then show ?thesis using k by (simp add: dec_body_def Let_def)
qed

lemma coupled_plain:
  fixes r :: "tc option"
  assumes c: "coupled E ep b ctx" and bound: "dpos E b ctx + length (enc_ulong e w (spos b)) < 2 ^ 32"
  defines "q \<equiv> ALIGN_VALUE (spos b) 4"
  defines "ctx' \<equiv> ctx\<lparr> prior_tcs := (r, current_idx ctx + of_nat (q - c_body E)) # prior_tcs ctx \<rparr>"
  shows "coupled E ep (sb_append (enc_ulong e w (spos b)) b) ctx'"
    and "later (dpos E b ctx) ctx ctx'"
proof -
  let ?b = "sb_append (enc_ulong e w (spos b)) b"
  have q: "spos b + length (enc_ulong e w (spos b)) = q + 4" "spos b \<le> q"
    using pad_pos[of 4 "spos b"] ALIGN_VALUE_ge[of 4 "spos b"]
    by (simp_all add: enc_ulong_def q_def del: pad_length flip: add.assoc)
  have pb: "c_body E \<le> spos b" using c by (simp add: coupled_def)
  have i: "unat (current_idx ctx + of_nat (q - c_body E)) = unat (current_idx ctx) + (q - c_body E)"
    by (rule unat_pos) (use bound q pb in \<open>simp add: dpos_def\<close>)
  have old: "unat j + 4 \<le> dpos E b ctx" if "(p, j) \<in> set (prior_tcs ctx)" for p j
    using c that by (auto simp: coupled_def)
  have new: "dpos E b ctx \<le> unat (current_idx ctx + of_nat (q - c_body E))"
    unfolding i using q by (simp add: dpos_def)
  then show "later (dpos E b ctx) ctx ctx'"
    by (simp add: later_def ctx'_def)
  have "current_idx ctx + of_nat (q - c_body E) \<notin> snd ` set (prior_tcs ctx)"
    using old new by fastforce
  moreover have "dpos E ?b ctx' = unat (current_idx ctx + of_nat (q - c_body E)) + 4"
    unfolding i using q pb by (simp add: dpos_def ctx'_def)
  moreover have "unat j + 4 \<le> dpos E ?b ctx'" if "(p, j) \<in> set (prior_tcs ctx)" for p j
    using old[OF that] pb by (simp add: dpos_def ctx'_def)
  ultimately show "coupled E ep ?b ctx'"
    using coupled_append[OF c, of "enc_ulong e w (spos b)"] by (auto simp: coupled_def ctx'_def)
qed

text \<open>A TypeCode, given the step for its contents.\<close>

definition blank :: "TCKind \<Rightarrow> tc \<Rightarrow> bool" where
  "blank k u \<longleftrightarrow> (\<exists>a. u = TC (Heap a) (zero_fields k) [] None)"

lemma blankI: "blank k (TC (Heap a) (zero_fields k) [] None)"
  by (auto simp: blank_def)

lemma sim_tc_I:
  assumes "\<And>ep b ctx. coupled E ep b ctx \<Longrightarrow> dpos E b ctx + N < 2 ^ 32 \<Longrightarrow>
     (c_lp64 E \<longrightarrow> S \<inter> fst ` set ep = {}) \<Longrightarrow>
     \<exists>new bs u' ctx'. F (ep, b) = Inr (new @ ep, sb_append bs b) \<and> length bs \<le> N \<and> fst ` set new \<subseteq> S
       \<and> tparses (c_body E) (D ctx) (s_host b) (spos b) bs (Some (Some u'), ctx')
       \<and> same_tc (c_abi E) u u'
       \<and> later (dpos E b ctx) ctx ctx' \<and> coupled E (new @ ep) (sb_append bs b) ctx'"
  shows "sim_tc E N S u F D"
  using assms unfolding sim_tc_def by blast

lemma sim_tc_plain:
  assumes k: "plain k"
  shows "sim_tc E 7 {} (basic_tc (c_abi E) k) (tc_enc (basic_tc (c_abi E) k)) (tc_dec (c_abi E) (c_lp64 E) (Suc n))"
proof (rule sim_tc_I)
  fix ep b ctx
  assume c: "coupled E ep b ctx" and N: "dpos E b ctx + 7 < 2 ^ 32"
  let ?t = "basic_tc (c_abi E) k" and ?bs = "enc_ulong (s_host b) (kind_code k) (spos b)"
  let ?ctx = "ctx\<lparr> prior_tcs := (Some ?t, current_idx ctx + of_nat (ALIGN_VALUE (spos b) 4 - c_body E)) # prior_tcs ctx \<rparr>"
  have kd: "tk_type k = TK_EMPTY" "k \<noteq> tk_recursive" "tk_basic_type (c_abi E) k = Some ?t"
    using k by (auto simp: plain_def tk_basic_type_def)
  have b: "sb_ok b" "c_body E \<le> spos b" using c by (simp_all add: coupled_def)
  have l: "length ?bs \<le> 7" by (rule enc_ulong_length)
  have "tc_enc ?t (ep, b) = Inr (ep, sb_append ?bs b)"
    unfolding basic_tc_def using tc_enc_empty[OF b(1), of "(zero_fields k)\<lparr> c_align := basic_tc_align (c_abi E) k,
     tc_name := cstr (basic_tc_name k),
     repo_id := cstr (''IDL:omg.org/CORBA/'' @ (if k = tk_null then ''Null'' else basic_tc_name k) @ '':1.0''),
     default_index := (if k = tk_null \<or> k = tk_void then 0 else - 1) \<rparr>"] kd
    by (simp add: zero_fields_def del: tc_enc.simps)
  moreover have "tparses (c_body E) (tc_dec (c_abi E) (c_lp64 E) (Suc n) ctx) (s_host b) (spos b)
      (?bs @ []) (Some (Some ?t), ?ctx)"
    by (rule tparses_dec_node[OF kd(2) b(2)]) (simp add: dec_body_def kd tparses_ret Let_def)
  moreover have "coupled E ep (sb_append ?bs b) ?ctx" "later (dpos E b ctx) ctx ?ctx"
    using coupled_plain[OF c, of "s_host b" "kind_code k"] N l by simp_all
  moreover have "same_tc (c_abi E) ?t ?t"
  proof -
    have "tc_ok (c_abi E) ?t"
      using k by (cases k) (simp_all add: basic_tc_def tc_shape_def plain_def tk_type_def zero_fields_def)
    then show ?thesis by (simp add: same_tc_def)
  qed
  ultimately show "\<exists>new bs u' ctx'. tc_enc ?t (ep, b) = Inr (new @ ep, sb_append bs b) \<and> length bs \<le> 7
      \<and> fst ` set new \<subseteq> {}
      \<and> tparses (c_body E) (tc_dec (c_abi E) (c_lp64 E) (Suc n) ctx) (s_host b) (spos b) bs (Some (Some u'), ctx')
      \<and> same_tc (c_abi E) ?t u'
      \<and> later (dpos E b ctx) ctx ctx' \<and> coupled E (new @ ep) (sb_append bs b) ctx'"
    using l by (intro exI[of _ "[]"] exI[of _ ?bs] exI[of _ ?t] exI[of _ ?ctx]) (simp del: tc_dec.simps)
qed

lemma coupled_len:
  "length ys = length zs \<Longrightarrow> coupled E ep (sb_append ys b) ctx \<longleftrightarrow> coupled E ep (sb_append zs b) ctx"
  by (simp add: coupled_def dpos_def s_size_append)

text \<open>The contents of a node, written behind \<open>xs\<close> and read in a buffer that starts at \<open>\<beta>'\<close>.\<close>

lemma node_contents:
  fixes E :: coding and a :: addr
  assumes c: "coupled E ep b ctx" and tree: "c_tree E a = t" and a: "a \<notin> S" "a \<notin> fst ` set ep"
    and lp: "c_lp64 E \<Longrightarrow> S \<inter> fst ` set ep = {}"
    and N: "dpos E b ctx + length xs + N < 2 ^ 32"
    and \<beta>': "c_body E \<le> \<beta>'" "\<beta>' \<le> spos b + length xs" "ALIGN_VALUE (spos b) 4 + 4 \<le> spos b + length xs"
    and inner: "sim (E\<lparr> c_open := insert a (c_open E), c_body := \<beta>' \<rparr>) N S (blank k) F G (same_tc (c_abi E) t)"
  obtains new bs u ctx2 where
    "F ((a, s_size (sb_append (pad 4 (spos b)) b)) # ep, sb_append xs b)
      = Inr (new @ (a, s_size (sb_append (pad 4 (spos b)) b)) # ep, sb_append (xs @ bs) b)"
    "length bs \<le> N" "fst ` set new \<subseteq> S"
    "tparses \<beta>' (G (TC (Heap (fresh ctx)) (zero_fields k) [] None, ctx\<lparr> fresh := Suc (fresh ctx),
      current_idx := current_idx ctx + of_nat (\<beta>' - c_body E) \<rparr>))
      (s_host b) (spos b + length xs) bs (False, u, ctx2)"
    "same_tc (c_abi E) t u"
    "\<And>w ys. same_tc (c_abi E) t w \<Longrightarrow> length ys = length (xs @ bs) \<Longrightarrow>
      coupled E (new @ (a, s_size (sb_append (pad 4 (spos b)) b)) # ep) (sb_append ys b)
        (ctx2\<lparr> current_idx := current_idx ctx, prior_tcs :=
          (Some w, current_idx ctx + of_nat (ALIGN_VALUE (spos b) 4 - c_body E)) # prior_tcs ctx2 \<rparr>)
      \<and> later (dpos E b ctx) ctx (ctx2\<lparr> current_idx := current_idx ctx, prior_tcs :=
          (Some w, current_idx ctx + of_nat (ALIGN_VALUE (spos b) 4 - c_body E)) # prior_tcs ctx2 \<rparr>)"
    "current_idx ctx2 = current_idx ctx + of_nat (\<beta>' - c_body E)"
proof -
  let ?b0 = "sb_append (pad 4 (spos b)) b" and ?b3 = "sb_append xs b"
  let ?E = "E\<lparr> c_open := insert a (c_open E), c_body := \<beta>' \<rparr>"
  let ?ep = "(a, s_size ?b0) # ep"
  let ?ctx1 = "ctx\<lparr> fresh := Suc (fresh ctx), current_idx := current_idx ctx + of_nat (\<beta>' - c_body E) \<rparr>"
  have b: "c_body E \<le> spos b" using c by (simp add: coupled_def)
  have q: "spos ?b0 = ALIGN_VALUE (spos b) 4" using pad_pos[of 4 "spos b"] by (simp del: pad_length)
  have c0: "coupled E ep ?b0 ctx" and d0: "dpos E b ctx \<le> dpos E ?b0 ctx"
    using coupled_append[OF c] by (simp_all add: dpos_def)
  have bd: "unat (current_idx ctx) + (\<beta>' - c_body E) < 2 ^ 32"
    using N \<beta>' b by (simp add: dpos_def)
  have open1: "coupled ?E ?ep ?b3 ?ctx1" "dpos ?E ?b3 ?ctx1 = dpos E b ctx + length xs"
    using coupled_open[where ctx = "ctx\<lparr> fresh := Suc (fresh ctx) \<rparr>" and ep = ep, OF _ \<beta>'(1,2)] c bd
    by simp_all
  obtain new bs u ctx2 where o: "F (?ep, ?b3) = Inr (new @ ?ep, sb_append bs ?b3)" "length bs \<le> N"
    "fst ` set new \<subseteq> S" "tparses (c_body ?E) (G (TC (Heap (fresh ctx)) (zero_fields k) [] None, ?ctx1))
      (s_host ?b3) (spos ?b3) bs (False, u, ctx2)" "same_tc (c_abi E) t u"
    "later (dpos ?E ?b3 ?ctx1) ?ctx1 ctx2" "coupled ?E (new @ ?ep) (sb_append bs ?b3) ctx2"
    by (rule simD[OF inner open1(1) blankI[of k "fresh ctx"]]) (use open1(2) N lp a(1) in auto)
  have dI: "dpos E ?b0 ctx < dpos ?E ?b3 ?ctx1"
    using open1(2) \<beta>'(3) q b by (simp add: dpos_def)
  have fin: "coupled E (new @ ?ep) (sb_append ys b) (ctx2\<lparr> current_idx := current_idx ctx, prior_tcs :=
          (Some w, current_idx ctx + of_nat (ALIGN_VALUE (spos b) 4 - c_body E)) # prior_tcs ctx2 \<rparr>)
      \<and> later (dpos E b ctx) ctx (ctx2\<lparr> current_idx := current_idx ctx, prior_tcs :=
          (Some w, current_idx ctx + of_nat (ALIGN_VALUE (spos b) 4 - c_body E)) # prior_tcs ctx2 \<rparr>)"
    if w: "same_tc (c_abi E) t w" and ys: "length ys = length (xs @ bs)" for w ys
  proof -
    have w': "same_tc (c_abi E) (c_tree E a) w" using w tree by simp
    note close = coupled_close[OF c0 o(7,6) _ _ dI \<beta>'(1) _ _ _ a(2) _ w', unfolded q]
    have "coupled E (new @ ?ep) (sb_append bs ?b3) (ctx2\<lparr> current_idx := current_idx ctx, prior_tcs :=
          (Some w, current_idx ctx + of_nat (ALIGN_VALUE (spos b) 4 - c_body E)) # prior_tcs ctx2 \<rparr>)"
      by (rule close(1)) (use \<beta>' b N a o(2,3) in \<open>auto simp: dpos_def\<close>)
    moreover have "later (dpos E ?b0 ctx) ctx (ctx2\<lparr> current_idx := current_idx ctx, prior_tcs :=
          (Some w, current_idx ctx + of_nat (ALIGN_VALUE (spos b) 4 - c_body E)) # prior_tcs ctx2 \<rparr>)"
      by (rule close(2)) (use \<beta>' b N a o(2,3) in \<open>auto simp: dpos_def\<close>)
    ultimately show ?thesis
      using d0 ys coupled_len[of ys "xs @ bs"] later_mono by auto
  qed
  show thesis
    by (rule that[OF _ o(2,3) _ o(5) fin]) (use o later_idx[OF o(6)] in simp_all)
qed

lemma ctx_update_same:
  "(c :: dec_ctx)\<lparr> fresh := k, current_idx := current_idx c \<rparr> = c\<lparr> fresh := k \<rparr>"
  "current_idx c = i \<Longrightarrow> c\<lparr> current_idx := i, prior_tcs := x \<rparr> = c\<lparr> prior_tcs := x \<rparr>"
  by (cases c; simp)+

lemma sim_tc_tracked:
  fixes E :: coding
  assumes t: "t = TC a f subs d" "tk_type (kind f) \<noteq> TK_EMPTY" and tree: "c_tree E a = t"
    and a: "a \<notin> S" "a \<notin> c_open E"
    and inner: "\<And>\<beta>. sim (E\<lparr> c_open := insert a (c_open E), c_body := \<beta> \<rparr>) N S (blank (kind f))
      (tc_encoder t) (tk_decoder (tc_dec (c_abi E) (c_lp64 E) n) (kind f)) (same_tc (c_abi E) t)"
  shows "sim_tc E (N + 20) (insert a S) t (tc_enc t) (tc_dec (c_abi E) (c_lp64 E) (Suc n))"
proof (rule sim_tc_I)
  fix ep b ctx
  assume c: "coupled E ep b ctx" and N: "dpos E b ctx + (N + 20) < 2 ^ 32"
    and lp: "c_lp64 E \<longrightarrow> insert a S \<inter> fst ` set ep = {}"
  let ?m = "c_abi E" and ?e = "s_host b" and ?p = "spos b" and ?q = "ALIGN_VALUE (spos b) 4"
  let ?\<beta> = "c_body E" and ?dec = "tc_dec (c_abi E) (c_lp64 E) n" and ?k = "kind f"
  let ?kb = "enc_ulong (s_host b) (kind_code (kind f)) (spos b)"
  let ?f = "GIOP_FLAG_ENDIANNESS ?e" and ?al = "\<lambda>v. upd_fields (c_align_update (\<lambda>_. v))"
  let ?goal = "\<exists>new bs u' ctx'. tc_enc t (ep, b) = Inr (new @ ep, sb_append bs b) \<and> length bs \<le> N + 20
      \<and> fst ` set new \<subseteq> insert a S
      \<and> tparses ?\<beta> (tc_dec ?m (c_lp64 E) (Suc n) ctx) ?e ?p bs (Some (Some u'), ctx')
      \<and> same_tc ?m t u'
      \<and> later (dpos E b ctx) ctx ctx' \<and> coupled E (new @ ep) (sb_append bs b) ctx'"
  have kr: "?k \<noteq> tk_recursive" using t(2) by (auto simp: tk_type_def)
  have kt: "tk_type (tc_kind t) \<noteq> TK_EMPTY" using t by simp
  have b: "sb_ok b" "?\<beta> \<le> ?p" using c by (simp_all add: coupled_def)
  have q: "?p + length ?kb = ?q + 4" "?p \<le> ?q" "?q < ?p + 4" "?p + length (pad 4 ?p) = ?q"
    using pad_pos[of 4 ?p] ALIGN_VALUE_ge[of 4 ?p] ALIGN_VALUE_less[of 4 ?p]
    by (simp_all add: enc_ulong_def del: pad_length flip: add.assoc)
  have q8: "ALIGN_VALUE (?q + 4) 4 = ?q + 4" by (simp add: ALIGN_VALUE_id ALIGN_VALUE_dvd)
  show ?goal
  proof (cases "map_of ep a")
    case (Some i)
    then have ep: "a \<in> fst ` set ep" using map_of_SomeD by force
    then have lp: "c_lp64 E = False" using lp by auto
    let ?bs = "pad 4 ?p @ u32_bytes ?e CORBA_tk_recursive
        @ u32_bytes ?e (i - s_size b - of_nat (length (pad 4 ?p)) - 8)"
    obtain u where u: "same_tc ?m t u"
      "tparses ?\<beta> (tc_dec ?m False (Suc n) ctx) ?e ?p ?bs (Some (Some u), ctx)"
      "coupled E ep (sb_append ?bs b) ctx"
      using sim_back_ref[OF c Some a(2)] lp tree by metis
    have "tc_enc t (ep, b) = Inr (ep, sb_append ?bs b)"
      unfolding t(1) by (rule tc_enc_hit[OF b(1) t(2) Some])
    moreover have "length ?bs \<le> N + 20" using q by (simp del: pad_length)
    ultimately show ?goal using u lp
      by (intro exI[of _ "[]"] exI[of _ ?bs] exI[of _ u] exI[of _ ctx]) (simp del: tc_dec.simps tc_enc.simps)
  next
    case None
    then have ea: "a \<notin> fst ` set ep" by (simp add: map_of_eq_None_iff)
    let ?ep = "(a, s_size (sb_append (pad 4 ?p) b)) # ep"
    have lpS: "c_lp64 E \<Longrightarrow> S \<inter> fst ` set ep = {}" using lp by auto
    show ?goal
    proof (cases "tk_type ?k")
      case TK_SIMPLE
      obtain new bs u ctx2 where o: "tc_encoder t (?ep, sb_append ?kb b) = Inr (new @ ?ep, sb_append (?kb @ bs) b)"
        "length bs \<le> N" "fst ` set new \<subseteq> S"
        "tparses ?\<beta> (tk_decoder ?dec ?k (TC (Heap (fresh ctx)) (zero_fields ?k) [] None, ctx\<lparr> fresh := Suc (fresh ctx),
            current_idx := current_idx ctx + of_nat (?\<beta> - ?\<beta>) \<rparr>)) ?e (?p + length ?kb) bs (False, u, ctx2)"
        "same_tc ?m t u"
        "\<And>w ys. same_tc ?m t w \<Longrightarrow> length ys = length (?kb @ bs) \<Longrightarrow>
           coupled E (new @ ?ep) (sb_append ys b) (ctx2\<lparr> current_idx := current_idx ctx,
             prior_tcs := (Some w, current_idx ctx + of_nat (?q - ?\<beta>)) # prior_tcs ctx2 \<rparr>)
         \<and> later (dpos E b ctx) ctx (ctx2\<lparr> current_idx := current_idx ctx,
             prior_tcs := (Some w, current_idx ctx + of_nat (?q - ?\<beta>)) # prior_tcs ctx2 \<rparr>)"
        "current_idx ctx2 = current_idx ctx + of_nat (?\<beta> - ?\<beta>)"
        by (rule node_contents[OF c tree a(1) ea lpS _ _ _ _ inner, of ?kb ?\<beta>])
          (use N q b in \<open>auto simp del: tc_encoder.simps\<close>)
      obtain v where v: "\<And>e p ctx. parses (aligned ?m u ctx) e p [] (Some (?al v u), ctx)"
        using parses_aligned[of ?m u] o(5) by (auto simp: same_tc_def)
      have w: "same_tc ?m t (?al v u)" by (rule same_tc_align[OF o(5) kt])
      let ?ctx = "ctx2\<lparr> prior_tcs := (Some (?al v u), current_idx ctx + of_nat (?q - ?\<beta>)) # prior_tcs ctx2 \<rparr>"
      have "tparses ?\<beta> (dec_body ?m ?dec ?k (current_idx ctx + of_nat (?q + 4 - ?\<beta>) + 4) ctx)
          ?e (?q + 4) bs (Some (?al v u), ctx2)"
        by (rule tparses_simple_body[OF TK_SIMPLE _ v]) (use o(4) q(1) in \<open>simp add: ctx_update_same\<close>)
      then have "tparses ?\<beta> (tc_dec ?m (c_lp64 E) (Suc n) ctx) ?e ?p (?kb @ bs) (Some (Some (?al v u)), ?ctx)"
        by (rule tparses_dec_node[OF kr b(2)])
      moreover have "tc_enc t (ep, b) = Inr (new @ ?ep, sb_append (?kb @ bs) b)"
        using o(1) tc_enc_simple[OF b(1) TK_SIMPLE None] by (simp only: t(1))
      ultimately show ?goal
        using o(2,3) o(6)[OF w refl] o(7) w q
        by (intro exI[of _ "new @ [(a, s_size (sb_append (pad 4 ?p) b))]"] exI[of _ "?kb @ bs"]
            exI[of _ "?al v u"] exI[of _ ?ctx])
          (auto simp: ctx_update_same simp del: tc_dec.simps tc_enc.simps)
    next
      case TK_COMPLEX
      let ?xs = "?kb @ u32_bytes ?e 0 @ [?f]"
      have lxs: "?p + length ?xs = ?q + 9" using q by simp
      obtain new bs u ctx2 where o: "tc_encoder t (?ep, sb_append ?xs b) = Inr (new @ ?ep, sb_append (?xs @ bs) b)"
        "length bs \<le> N" "fst ` set new \<subseteq> S"
        "tparses (?q + 8) (tk_decoder ?dec ?k (TC (Heap (fresh ctx)) (zero_fields ?k) [] None, ctx\<lparr> fresh := Suc (fresh ctx),
            current_idx := current_idx ctx + of_nat (?q + 8 - ?\<beta>) \<rparr>)) ?e (?p + length ?xs) bs (False, u, ctx2)"
        "same_tc ?m t u"
        "\<And>w ys. same_tc ?m t w \<Longrightarrow> length ys = length (?xs @ bs) \<Longrightarrow>
           coupled E (new @ ?ep) (sb_append ys b) (ctx2\<lparr> current_idx := current_idx ctx,
             prior_tcs := (Some w, current_idx ctx + of_nat (?q - ?\<beta>)) # prior_tcs ctx2 \<rparr>)
         \<and> later (dpos E b ctx) ctx (ctx2\<lparr> current_idx := current_idx ctx,
             prior_tcs := (Some w, current_idx ctx + of_nat (?q - ?\<beta>)) # prior_tcs ctx2 \<rparr>)"
        "current_idx ctx2 = current_idx ctx + of_nat (?q + 8 - ?\<beta>)"
        by (rule node_contents[OF c tree a(1) ea lpS _ _ _ _ inner, of ?xs "?q + 8"])
          (use N q b lxs in \<open>auto simp del: tc_encoder.simps\<close>)
      obtain v where v: "\<And>e p ctx. parses (aligned ?m u ctx) e p [] (Some (?al v u), ctx)"
        using parses_aligned[of ?m u] o(5) by (auto simp: same_tc_def)
      have w: "same_tc ?m t (?al v u)" by (rule same_tc_align[OF o(5) kt])
      let ?ys = "?kb @ enc_octets ?e (?f # bs) (?q + 4)"
      let ?ctx = "ctx2\<lparr> current_idx := current_idx ctx,
        prior_tcs := (Some (?al v u), current_idx ctx + of_nat (?q - ?\<beta>)) # prior_tcs ctx2 \<rparr>"
      have pad4: "pad 4 (?q + 4) = []" by (simp add: pad_Nil ALIGN_VALUE_dvd)
      have lys: "length ?ys = length (?xs @ bs)" by (simp add: enc_octets_def enc_ulong_def pad4)
      have i: "current_idx ctx + of_nat (?q + 4 - ?\<beta>) + 4 = current_idx ctx + of_nat (?q + 8 - ?\<beta>)"
      proof -
        have "?q + 8 - ?\<beta> = (?q + 4 - ?\<beta>) + 4" using q(2) b(2) by linarith
        then show ?thesis by (simp only: of_nat_add of_nat_numeral add.assoc)
      qed
      have "tparses ?\<beta> (dec_body ?m ?dec ?k (current_idx ctx + of_nat (?q + 4 - ?\<beta>) + 4) ctx)
          ?e (?q + 4) (enc_octets ?e (?f # bs) (?q + 4)) (Some (?al v u), ctx2\<lparr> current_idx := current_idx ctx \<rparr>)"
        unfolding i by (rule tparses_complex_body[OF TK_COMPLEX _ _ v])
          (use o(2,4) N in \<open>simp_all only: q8 lxs\<close>, simp_all add: dpos_def add.commute)
      then have "tparses ?\<beta> (tc_dec ?m (c_lp64 E) (Suc n) ctx) ?e ?p ?ys (Some (Some (?al v u)), ?ctx)"
        using tparses_dec_node[OF kr b(2)] by fastforce
      moreover have "tc_enc t (ep, b) = Inr (new @ ?ep, sb_append ?ys b)"
        using o(1) tc_enc_complex[OF b(1) TK_COMPLEX None, of subs d] by (simp only: t(1))
      ultimately show ?goal
        using o(2,3) o(6)[OF w lys] w q lys lxs
        by (intro exI[of _ "new @ [(a, s_size (sb_append (pad 4 ?p) b))]"] exI[of _ ?ys]
            exI[of _ "?al v u"] exI[of _ ?ctx])
          (auto simp del: tc_dec.simps tc_enc.simps)
    qed (use t in auto)
  qed
qed

end
