(* ===== verification/Typecode_Round.thy ===== *)
theory Typecode_Round imports Typecode_Nodes begin

text \<open>
  The parameters of each kind, whole TypeCodes by induction, and the round trip of
  \<^verbatim>\<open>MateCORBA_encode_CORBA_TypeCode\<close> and \<^verbatim>\<open>MateCORBA_decode_CORBA_TypeCode\<close>; and the references the
  decoder cannot follow where a pointer difference has 64 bits.
\<close>

section \<open>The kinds\<close>

text \<open>A structure under construction, wherever it is.\<close>

definition built :: "tc_fields \<Rightarrow> tc option list \<Rightarrow> tc option \<Rightarrow> tc \<Rightarrow> bool" where
  "built fs subs d u \<longleftrightarrow> (\<exists>a. u = TC (Heap a) fs subs d)"

lemma blank_built: "blank k = built (zero_fields k) [] None"
  by (rule ext) (simp add: blank_def built_def)

lemma canon_fields_kind [simp]: "kind (canon_fields f) = kind f"
  by (cases "kind f") (simp_all add: canon_fields_def zero_fields_def Let_def)

lemma canon_fields_idem [simp]: "canon_fields (canon_fields f) = canon_fields f"
  by (cases "kind f") (simp_all add: canon_fields_def zero_fields_def Let_def)

lemma same_tc_build:
  assumes t: "tc_ok m (TC a f (map Some ts) d)" and k: "tk_type (kind f) \<noteq> TK_EMPTY"
    and us: "list_all2 (same_tc m) ts us" and d: "rel_option (same_tc m) d d'"
  shows "same_tc m (TC a f (map Some ts) d) (TC b (canon_fields f) (map Some us) d')"
proof -
  have len: "length us = length ts" using us by (simp add: list_all2_lengthD)
  have cu: "map canon us = map canon ts" "list_all (tc_ok m) us"
    using us by (induction rule: list_all2_induct) (auto simp: same_tc_def)
  have cd: "map_option canon d' = map_option canon d" "pred_option (tc_ok m) d'"
    "\<And>e. d' = Some e \<Longrightarrow> \<exists>e'. d = Some e' \<and> tc_kind e = tc_kind e'"
    "d = None \<longleftrightarrow> d' = None"
    using d by (cases d; cases d'; auto simp: same_tc_def dest: canon_kind)+
  have "tc_shape m (TC b (canon_fields f) (map Some us) d')"
    using t k len cd
    by (cases "kind f") (auto simp: tc_shape_def Let_def tk_type_def canon_fields_def zero_fields_def)
  then have "tc_ok m (TC b (canon_fields f) (map Some us) d')"
    using cu cd by (auto simp: list.pred_map comp_def)
  moreover have "map (\<lambda>x. Some (canon x)) us = map (\<lambda>x. Some (canon x)) ts"
    using arg_cong[OF cu(1), of "map Some"] by (simp add: comp_def)
  ultimately show ?thesis using cu cd by (simp add: same_tc_def comp_def)
qed

lemma same_tc_built:
  assumes "tc_ok m (TC a f (map Some ts) d)" "tk_type (kind f) \<noteq> TK_EMPTY"
    and "list_all2 (same_tc m) ts us" "rel_option (same_tc m) d d'"
    and "built (canon_fields f) (map Some us) d' u"
  shows "same_tc m (TC a f (map Some ts) d) u"
  using same_tc_build[OF assms(1-4)] assms(5) by (auto simp: built_def)

lemma sim_eq: "(\<And>t ctx. P t \<Longrightarrow> G (t, ctx) = G' (t, ctx)) \<Longrightarrow> sim E N S P F G' Q \<Longrightarrow> sim E N S P F G Q"
  unfolding sim_def by simp

lemma enc_seq_assoc: "enc_seq (enc_seq F G) H = enc_seq F (enc_seq G H)"
  by (rule ext) (auto simp: enc_seq_def rbind_assoc intro!: rbind_cong)

lemma dec_seq_assoc: "dec_seq (dec_seq F G) H = dec_seq F (dec_seq G H)"
  by (rule ext, rule ext)
    (auto simp: dec_seq_def rd_bind_def rbind_assoc rd_ret_def intro!: rbind_cong split: if_splits)

lemma sim_name:
  "string_ok s \<Longrightarrow> sim E (7 + length s) {} (built fs subs d) (CDR_put_string s)
     (dec_get CDR_get_const_string store_name) (built (fs\<lparr> tc_name := s \<rparr>) subs d)"
  by (rule sim_string) (auto simp: built_def store_name_def)

lemma sim_repo_id:
  "string_ok s \<Longrightarrow> sim E (7 + length s) {} (built fs subs d) (CDR_put_string s)
     (dec_get CDR_get_const_string store_repo_id) (built (fs\<lparr> repo_id := s \<rparr>) subs d)"
  by (rule sim_string) (auto simp: built_def store_repo_id_def)

lemma sim_length:
  "sim E 7 {} (built fs subs d) (CDR_put_ulong w) (dec_get CDR_get_ulong store_length)
     (built (fs\<lparr> tc_length := w \<rparr>) subs d)"
  by (rule sim_ulong) (auto simp: built_def store_length_def)

text \<open>
  For each kind, the encoder of the contents and its decoder, given the steps of the TypeCodes in it.
  The number in front bounds the bytes written.
\<close>

lemma contents_objref:
  assumes t: "tc_ok (c_abi E) (TC a f subs d)" and k: "kind f = tk_objref"
  shows "sim E (14 + length (repo_id f) + length (tc_name f)) {} (blank (kind f))
    (tc_encoder (TC a f subs d)) (tk_decoder dec (kind f)) (same_tc (c_abi E) (TC a f subs d))"
proof -
  have ok: "string_ok (repo_id f)" "string_ok (tc_name f)" "subs = map Some []" "d = None"
    using t k by (auto simp: tc_shape_def Let_def)
  have e: "tc_encoder (TC a f subs d) = enc_seq (CDR_put_string (repo_id f)) (CDR_put_string (tc_name f))"
    using k by (intro ext) simp
  have c: "canon_fields f = (zero_fields (kind f))\<lparr> repo_id := repo_id f, tc_name := tc_name f \<rparr>"
    using k by (simp add: canon_fields_def Let_def)
  show ?thesis
    unfolding e tk_decoder_def k TCKind.case tc_dec_tk_objref_def blank_built
    by (rule sim_mono[OF sim_seq[OF sim_repo_id[OF ok(1)] sim_name[OF ok(2)]]])
      (use t k ok c same_tc_built[of "c_abi E" a f "[]" None "[]" None] in \<open>auto simp: tk_type_def\<close>)
qed

lemma contents_string:
  assumes t: "tc_ok (c_abi E) (TC a f subs d)" and k: "kind f \<in> {tk_string, tk_wstring}"
  shows "sim E 7 {} (blank (kind f)) (tc_encoder (TC a f subs d)) (tk_decoder dec (kind f))
    (same_tc (c_abi E) (TC a f subs d))"
proof -
  have ok: "subs = map Some []" "d = None" using t k by (auto simp: tc_shape_def Let_def)
  have e: "tc_encoder (TC a f subs d) = CDR_put_ulong (tc_length f)"
    using k by (intro ext) auto
  have c: "canon_fields f = (zero_fields (kind f))\<lparr> tc_length := tc_length f \<rparr>"
    using k by (auto simp: canon_fields_def Let_def)
  have g: "tk_decoder dec (kind f) = dec_get CDR_get_ulong store_length"
    using k by (auto simp: tk_decoder_def tc_dec_tk_string_def tc_dec_tk_wstring_def)
  show ?thesis
    unfolding e g blank_built
    by (rule sim_mono[OF sim_length])
      (use t k ok c same_tc_built[of "c_abi E" a f "[]" None "[]" None] in \<open>auto simp: tk_type_def\<close>)
qed

lemma contents_fixed:
  assumes t: "tc_ok (c_abi E) (TC a f subs d)" and k: "kind f = tk_fixed"
  shows "sim E 14 {} (blank (kind f)) (tc_encoder (TC a f subs d)) (tk_decoder dec (kind f))
    (same_tc (c_abi E) (TC a f subs d))"
proof -
  let ?digits = "\<lambda>n. upd_fields (digits_update (\<lambda>_. n))" and ?scale = "\<lambda>n. upd_fields (scale_update (\<lambda>_. n))"
  have ok: "subs = map Some []" "d = None" using t k by (auto simp: tc_shape_def Let_def)
  have e: "tc_encoder (TC a f subs d) = enc_seq (CDR_put_ushort (digits f)) (CDR_put_ushort (scale f))"
    using k by (intro ext) auto
  have c: "canon_fields f = (zero_fields (kind f))\<lparr> digits := digits f, scale := scale f \<rparr>"
    using k by (auto simp: canon_fields_def Let_def)
  have 1: "sim E 7 {} (built fs subs d) (CDR_put_ushort w) (dec_get CDR_get_ushort ?digits)
      (built (fs\<lparr> digits := w \<rparr>) subs d)" for fs subs d w
    by (rule sim_ushort) (auto simp: built_def)
  have 2: "sim E 7 {} (built fs subs d) (CDR_put_ushort w) (dec_get CDR_get_ushort ?scale)
      (built (fs\<lparr> scale := w \<rparr>) subs d)" for fs subs d w
    by (rule sim_ushort) (auto simp: built_def)
  show ?thesis
    unfolding e tk_decoder_def k TCKind.case tc_dec_tk_fixed_def blank_built
    by (rule sim_mono[OF sim_seq[OF 1 2]])
      (use t k ok c same_tc_built[of "c_abi E" a f "[]" None "[]" None] in \<open>auto simp: tk_type_def\<close>)
qed

text \<open>Members: what precedes the type of the \<open>i\<close>-th one turns the fields \<open>fs i\<close> into \<open>fs (Suc i)\<close>.\<close>

definition filled :: "abi \<Rightarrow> tc_fields \<Rightarrow> tc list \<Rightarrow> nat \<Rightarrow> tc option \<Rightarrow> tc \<Rightarrow> bool" where
  "filled m fs ts i d u \<longleftrightarrow> (\<exists>us. list_all2 (same_tc m) (take i ts) us \<and>
     built fs (map Some us @ replicate (length ts - i) None) d u)"

lemma filled_0: "built fs (replicate (length ts) None) d u \<Longrightarrow> filled m fs ts 0 d u"
  by (simp add: filled_def)

lemma filled_store:
  assumes u: "filled m fs ts i d u" and i: "i < length ts" and s: "same_tc m (ts ! i) v"
  shows "filled m fs ts (Suc i) d (store_subtype i (Some v) u)"
proof -
  obtain us a where us: "list_all2 (same_tc m) (take i ts) us"
    "u = TC (Heap a) fs (map Some us @ replicate (length ts - i) None) d"
    using u by (auto simp: filled_def built_def)
  have len: "length us = i" using us(1) i by (auto dest: list_all2_lengthD)
  have "list_all2 (same_tc m) (take (Suc i) ts) (us @ [v])"
    using us(1) s i by (simp add: take_Suc_conv_app_nth list_all2_appendI)
  moreover have "(map Some us @ replicate (length ts - i) None)[i := Some v]
      = map Some (us @ [v]) @ replicate (length ts - Suc i) None"
  proof -
    have "length ts - i = Suc (length ts - Suc i)" using i by simp
    then show ?thesis using len by (simp add: list_update_append)
  qed
  ultimately show ?thesis
    using us(2) by (auto simp: filled_def built_def store_subtype_def)
qed

lemma sim_members:
  assumes heads: "\<And>i. i < length ts \<Longrightarrow> sim E (M i) {} (filled (c_abi E) (fs i) ts i d) (hs ! i) (G i)
      (filled (c_abi E) (fs (Suc i)) ts i d)"
    and children: "\<And>i. i < length ts \<Longrightarrow> sim_tc E (L i) (S i) (ts ! i) (tc_enc (ts ! i)) dec"
    and lp: "c_lp64 E \<Longrightarrow> apart (map S [0..<length ts])" and len: "length hs = length ts"
  shows "sim E (\<Sum>i<length ts. M i + L i) (\<Union>i<length ts. S i) (filled (c_abi E) (fs 0) ts 0 d)
    (enc_members hs (map Some ts))
    (dec_loop (\<lambda>i. dec_seq (G i) (dec_tc dec (store_subtype i))) 0 (length ts))
    (filled (c_abi E) (fs (length ts)) ts (length ts) d)"
proof -
  let ?n = "length ts"
  let ?xs = "map (\<lambda>i. (M i + L i, S i, enc_seq (hs ! i) (tc_enc (ts ! i)))) [0..<?n]"
  have step: "sim E (M i + L i) (S i) (filled (c_abi E) (fs i) ts i d)
      (enc_seq (hs ! i) (tc_enc (ts ! i))) (dec_seq (G i) (dec_tc dec (store_subtype i)))
      (filled (c_abi E) (fs (Suc i)) ts (Suc i) d)" if i: "i < ?n" for i
  proof -
    have "sim E (L i) (S i) (filled (c_abi E) (fs (Suc i)) ts i d) (tc_enc (ts ! i))
        (dec_tc dec (store_subtype i)) (filled (c_abi E) (fs (Suc i)) ts (Suc i) d)"
      by (rule sim_of_tc[OF children[OF i]]) (rule filled_store[OF _ i])
    from sim_seq[OF heads[OF i] this] show ?thesis by simp
  qed
  have "enc_members hs (map Some ts) = enc_all (map (snd \<circ> snd) ?xs)"
  proof -
    have "map2 (\<lambda>h u. enc_seq h (tc_enc u)) hs ts = map (snd \<circ> snd) ?xs"
      by (rule nth_equalityI) (simp_all add: len)
    then show ?thesis using enc_members_all[of ts hs] len by simp
  qed
  moreover have "sim E (sum_list (map fst ?xs)) (\<Union> (set (map (fst \<circ> snd) ?xs)))
      (filled (c_abi E) (fs 0) ts 0 d) (enc_all (map (snd \<circ> snd) ?xs))
      (dec_loop (\<lambda>i. dec_seq (G i) (dec_tc dec (store_subtype i))) 0 (length ?xs))
      (filled (c_abi E) (fs (0 + length ?xs)) ts (0 + length ?xs) d)"
    by (rule sim_loop[where P = "\<lambda>i. filled (c_abi E) (fs i) ts i d"])
      (use step lp in \<open>auto simp: comp_def\<close>)
  moreover have "sum_list (map fst ?xs) = (\<Sum>i<?n. M i + L i)"
    by (simp add: comp_def interv_sum_list_conv_sum_set_nat atLeast0LessThan)
  ultimately show ?thesis by (simp add: comp_def atLeast0LessThan)
qed

lemma enc_names_nth: "length names = n \<Longrightarrow> length (enc_names n names) = n \<and>
    (\<forall>i < n. enc_names n names ! i = CDR_put_string (names ! i))"
  by (induction n names rule: enc_names.induct) (auto simp: nth_Cons split: nat.splits)

lemma enc_labels_nth: "length labels = n \<Longrightarrow> length names = n \<Longrightarrow> length (enc_labels k n labels names) = n \<and>
    (\<forall>i < n. enc_labels k n labels names ! i
       = enc_seq (CDR_put_label k (labels ! i)) (CDR_put_string (names ! i)))"
  by (induction k n labels names rule: enc_labels.induct) (auto simp: nth_Cons split: nat.splits)

text \<open>An array of which the first \<open>i\<close> elements have been stored.\<close>

definition so_far :: "nat \<Rightarrow> 'a \<Rightarrow> 'a list \<Rightarrow> 'a list" where
  "so_far i z xs = take i xs @ replicate (length xs - i) z"

lemma so_far_simps [simp]:
  "so_far 0 z xs = replicate (length xs) z" "length xs = n \<Longrightarrow> so_far n z xs = xs"
  by (simp_all add: so_far_def)

lemma so_far_store: "i < length xs \<Longrightarrow> (so_far i z xs)[i := xs ! i] = so_far (Suc i) z xs"
proof -
  assume i: "i < length xs"
  then have "length xs - i = Suc (length xs - Suc i)" by simp
  then show ?thesis using i by (simp add: so_far_def list_update_append take_Suc_conv_app_nth)
qed

lemma sim_subname:
  assumes "string_ok (names ! i)" "i < length names"
  shows "sim E (7 + length (names ! i)) {} (filled m (fs\<lparr> subnames := so_far i [] names \<rparr>) ts j d)
    (CDR_put_string (names ! i)) (dec_get CDR_get_const_string (store_subname i))
    (filled m (fs\<lparr> subnames := so_far (Suc i) [] names \<rparr>) ts j d)"
  by (rule sim_string[OF assms(1)])
    (auto simp: filled_def built_def store_subname_def so_far_store[OF assms(2)])

lemma sum_over_members:
  "length names = length ts \<Longrightarrow> (\<Sum>i<length ts. c + length (names ! i) + tc_len (ts ! i))
     = sum_list (map (\<lambda>s. c + length s) names) + sum_list (map tc_len ts)"
  by (simp add: sum_list_sum_nth atLeast0LessThan sum.distrib)

lemma sim_members_head:
  "sim E 7 {} (built fs [] d) (CDR_put_ulong w) (dec_get CDR_get_ulong store_members)
     (built (fs\<lparr> sub_parts := w, subnames := replicate (unat w) [] \<rparr>) (replicate (unat w) None) d)"
  by (rule sim_ulong)
    (auto simp: built_def store_members_def store_sub_parts_def alloc_subnames_def alloc_subtypes_def Let_def)

lemma filled_all: "filled m fs ts (length ts) d u \<Longrightarrow> \<exists>us. list_all2 (same_tc m) ts us \<and> built fs (map Some us) d u"
  by (simp add: filled_def)

lemma filled_parts: "filled m fs ts i d u \<Longrightarrow> parts u = unat (sub_parts fs)"
  by (auto simp: filled_def built_def)

lemma map_members: "map (\<lambda>i. g (ts ! i)) [0..<length ts] = map g ts"
  by (rule nth_equalityI) simp_all

lemma union_members: "(\<Union>i<length ts. g (ts ! i)) = (\<Union>u \<in> set ts. g u)"
  by (auto simp: set_conv_nth)

lemma contents_struct:
  assumes t: "tc_ok (c_abi E) (TC a f (map Some ts) d)" and k: "kind f \<in> {tk_struct, tk_except}"
    and children: "\<And>u. u \<in> set ts \<Longrightarrow> sim_tc E (tc_len u) (set (addrs u)) u (tc_enc u) dec"
    and lp: "c_lp64 E \<Longrightarrow> apart (map (\<lambda>u. set (addrs u)) ts)"
  shows "sim E (21 + length (repo_id f) + length (tc_name f) + sum_list (map (\<lambda>s. 7 + length s) (subnames f))
      + sum_list (map tc_len ts)) (\<Union>u \<in> set ts. set (addrs u)) (blank (kind f))
    (tc_encoder (TC a f (map Some ts) d)) (tk_decoder dec (kind f))
    (same_tc (c_abi E) (TC a f (map Some ts) d))"
proof -
  let ?t = "TC a f (map Some ts) d" and ?n = "unat (sub_parts f)" and ?m = "c_abi E"
  have ok: "string_ok (repo_id f)" "string_ok (tc_name f)" "d = None" "length ts = ?n"
    "length (subnames f) = length ts" "list_all string_ok (subnames f)"
    using t k by (auto simp: tc_shape_def Let_def)
  let ?fs = "(zero_fields (kind f))\<lparr> repo_id := repo_id f, tc_name := tc_name f, sub_parts := sub_parts f \<rparr>"
  let ?loop = "dec_loop (\<lambda>i. dec_seq (dec_get CDR_get_const_string (store_subname i))
      (dec_tc dec (store_subtype i))) 0"
  have e: "tc_encoder ?t = enc_seq (CDR_put_string (repo_id f)) (enc_seq (CDR_put_string (tc_name f))
      (enc_seq (CDR_put_ulong (sub_parts f)) (enc_members (enc_names ?n (subnames f)) (map Some ts))))"
    using k by (intro ext) (auto simp: enc_seq_def rbind_assoc intro!: rbind_cong)
  have g: "tk_decoder dec (kind f) = dec_seq (dec_get CDR_get_const_string store_repo_id)
     (dec_seq (dec_get CDR_get_const_string store_name) (dec_seq (dec_get CDR_get_ulong store_members)
     (\<lambda>s. ?loop (parts (fst s)) s)))"
    using k by (auto simp: tk_decoder_def tc_dec_tk_struct_def tc_dec_tk_except_def)
  have loop: "sim E (\<Sum>i<length ts. (7 + length (subnames f ! i)) + tc_len (ts ! i))
      (\<Union>i<length ts. set (addrs (ts ! i))) (filled ?m (?fs\<lparr> subnames := so_far 0 [] (subnames f) \<rparr>) ts 0 None)
      (enc_members (enc_names ?n (subnames f)) (map Some ts)) (?loop (length ts))
      (filled ?m (?fs\<lparr> subnames := so_far (length ts) [] (subnames f) \<rparr>) ts (length ts) None)"
  proof (rule sim_members)
    show "sim E (7 + length (subnames f ! i)) {} (filled ?m (?fs\<lparr> subnames := so_far i [] (subnames f) \<rparr>) ts i None)
        (enc_names ?n (subnames f) ! i) (dec_get CDR_get_const_string (store_subname i))
        (filled ?m (?fs\<lparr> subnames := so_far (Suc i) [] (subnames f) \<rparr>) ts i None)" if "i < length ts" for i
      using that ok enc_names_nth[of "subnames f" ?n] sim_subname[of "subnames f" i]
      by (simp add: list_all_length)
  qed (use children lp ok enc_names_nth[of "subnames f" ?n] map_members[of "\<lambda>u. set (addrs u)" ts] in auto)
  have body: "sim E (\<Sum>i<length ts. (7 + length (subnames f ! i)) + tc_len (ts ! i))
      (\<Union>i<length ts. set (addrs (ts ! i)))
      (built (?fs\<lparr> subnames := replicate ?n [] \<rparr>) (replicate ?n None) None)
      (enc_members (enc_names ?n (subnames f)) (map Some ts)) (\<lambda>s. ?loop (parts (fst s)) s)
      (same_tc ?m ?t)"
  proof (rule sim_eq[OF _ sim_mono[OF loop]])
    show "filled ?m (?fs\<lparr> subnames := so_far 0 [] (subnames f) \<rparr>) ts 0 None u"
      if "built (?fs\<lparr> subnames := replicate ?n [] \<rparr>) (replicate ?n None) None u" for u
      using that ok by (intro filled_0) simp
    show "?loop (parts (fst (u, ctx))) (u, ctx) = ?loop (length ts) (u, ctx)"
      if "built (?fs\<lparr> subnames := replicate ?n [] \<rparr>) (replicate ?n None) None u" for u ctx
      using that ok by (auto simp: built_def)
    show "same_tc ?m ?t u" if "filled ?m (?fs\<lparr> subnames := so_far (length ts) [] (subnames f) \<rparr>) ts (length ts) None u" for u
    proof -
      have c: "canon_fields f = ?fs\<lparr> subnames := subnames f \<rparr>"
        using k by (auto simp: canon_fields_def Let_def)
      from filled_all[OF that] obtain us where "list_all2 (same_tc ?m) ts us"
        "built (canon_fields f) (map Some us) None u"
        using ok c by auto
      then show ?thesis using t k ok by (intro same_tc_built) (auto simp: tk_type_def)
    qed
  qed simp_all
  have "sim E (7 + length (repo_id f) + (7 + length (tc_name f) + (7
        + (\<Sum>i<length ts. (7 + length (subnames f ! i)) + tc_len (ts ! i)))))
      ({} \<union> ({} \<union> ({} \<union> (\<Union>i<length ts. set (addrs (ts ! i)))))) (blank (kind f)) (tc_encoder ?t)
      (tk_decoder dec (kind f)) (same_tc ?m ?t)"
    unfolding e g blank_built
    by (rule sim_seq[OF sim_repo_id[OF ok(1)]], rule sim_seq[OF sim_name[OF ok(2)]],
        rule sim_seq[OF sim_members_head]) (use body ok(3) in simp_all)
  then show ?thesis
    unfolding sum_over_members[of "subnames f" ts 7, OF ok(5)] union_members[of "\<lambda>u. set (addrs u)" ts]
    by (rule sim_mono) simp_all
qed

lemma sim_sublabel:
  assumes "label_width k = Some w" "label_ok k (labels ! i)" "i < length labels"
  shows "sim E 15 {} (filled m (fs\<lparr> sublabels := so_far i 0 labels \<rparr>) ts j d)
    (CDR_put_label k (labels ! i)) (dec_get (label_reader k) (store_sublabel i))
    (filled m (fs\<lparr> sublabels := so_far (Suc i) 0 labels \<rparr>) ts j d)"
  by (rule sim_label[OF assms(1,2)])
    (auto simp: filled_def built_def store_sublabel_def so_far_store[OF assms(3)])

lemma sim_union_head:
  "sim E 7 {} (built fs [] d) (CDR_put_ulong w) (dec_get CDR_get_ulong store_labelled_members)
     (built (fs\<lparr> sub_parts := w, subnames := replicate (unat w) [], sublabels := replicate (unat w) 0 \<rparr>)
       (replicate (unat w) None) d)"
  by (rule sim_ulong)
    (auto simp: built_def store_members_def store_labelled_members_def store_sub_parts_def
      alloc_subnames_def alloc_sublabels_def alloc_subtypes_def Let_def)

lemma sim_default_index:
  "sim E 7 {} (built fs subs d) (CDR_put_ulong w)
     (dec_get CDR_get_ulong (\<lambda>n. upd_fields (default_index_update (\<lambda>_. n))))
     (built (fs\<lparr> default_index := w \<rparr>) subs d)"
  by (rule sim_ulong) (auto simp: built_def)

lemma sim_each:
  assumes "\<And>t. P t \<Longrightarrow> sim E N S (\<lambda>u. u = t) F G Q"
  shows "sim E N S P F G Q"
proof (rule simI)
  fix ep b ctx t
  assume c: "coupled E ep b ctx" "P t" "dpos E b ctx + N < 2 ^ 32" "c_lp64 E \<longrightarrow> S \<inter> fst ` set ep = {}"
  show "\<exists>new bs t' ctx'. F (ep, b) = Inr (new @ ep, sb_append bs b) \<and> length bs \<le> N \<and> fst ` set new \<subseteq> S
       \<and> tparses (c_body E) (G (t, ctx)) (s_host b) (spos b) bs (False, t', ctx') \<and> Q t'
       \<and> later (dpos E b ctx) ctx ctx' \<and> coupled E (new @ ep) (sb_append bs b) ctx'"
    by (rule assms[OF c(2), unfolded sim_def, THEN spec, THEN spec, THEN spec, THEN spec, THEN mp,
          THEN mp, THEN mp, THEN mp, OF c(1) refl c(3,4)])
qed

lemma sim_ex:
  assumes "\<And>x. A x \<Longrightarrow> sim E N S (P x) F G (Q x)"
  shows "sim E N S (\<lambda>u. \<exists>x. A x \<and> P x u) F G (\<lambda>u. \<exists>x. A x \<and> Q x u)"
proof (rule sim_each, elim exE conjE)
  fix t x assume "A x" "P x t"
  then show "sim E N S (\<lambda>u. u = t) F G (\<lambda>u. \<exists>x. A x \<and> Q x u)"
    by (intro sim_mono[OF assms]) auto
qed

lemma contents_union:
  assumes t: "tc_ok (c_abi E) (TC a f (map Some ts) (Some e))" and k: "kind f = tk_union"
    and labels: "list_all (label_ok (tc_kind e)) (sublabels f)"
    and switch: "sim_tc E (tc_len e) (set (addrs e)) e (tc_enc e) dec"
    and children: "\<And>u. u \<in> set ts \<Longrightarrow> sim_tc E (tc_len u) (set (addrs u)) u (tc_enc u) dec"
    and lp: "c_lp64 E \<Longrightarrow> apart (map (\<lambda>u. set (addrs u)) (e # ts))"
  shows "sim E (28 + length (repo_id f) + length (tc_name f) + tc_len e
      + sum_list (map (\<lambda>s. 22 + length s) (subnames f)) + sum_list (map tc_len ts))
    (set (addrs e) \<union> (\<Union>u \<in> set ts. set (addrs u))) (blank (kind f))
    (tc_encoder (TC a f (map Some ts) (Some e))) (tk_decoder dec (kind f))
    (same_tc (c_abi E) (TC a f (map Some ts) (Some e)))"
proof -
  let ?t = "TC a f (map Some ts) (Some e)" and ?n = "unat (sub_parts f)" and ?m = "c_abi E"
    and ?k = "tc_kind e"
  have ok: "string_ok (repo_id f)" "string_ok (tc_name f)" "length ts = ?n"
    "length (subnames f) = length ts" "length (sublabels f) = length ts" "list_all string_ok (subnames f)"
    using t k by (auto simp: tc_shape_def Let_def)
  obtain w where w: "label_width ?k = Some w" using t k by (auto simp: tc_shape_def Let_def)
  let ?fs = "(zero_fields (kind f))\<lparr> repo_id := repo_id f, tc_name := tc_name f,
    default_index := default_index f, sub_parts := sub_parts f \<rparr>"
  let ?at = "\<lambda>i j. ?fs\<lparr> subnames := so_far i [] (subnames f), sublabels := so_far j 0 (sublabels f) \<rparr>"
  let ?loop = "dec_loop (\<lambda>i. dec_seq (dec_seq (dec_get (label_reader ?k) (store_sublabel i))
      (dec_get CDR_get_const_string (store_subname i))) (dec_tc dec (store_subtype i))) 0"
  let ?members = "enc_members (enc_labels ?k ?n (sublabels f) (subnames f)) (map Some ts)"
  let ?switch = "\<lambda>s. case discriminator (fst s) of None \<Rightarrow> rd_fail Abort
        | Some e \<Rightarrow> if label_width (tc_kind e) = None then rd_fail Abort
          else dec_loop (\<lambda>i. dec_seq (dec_get (label_reader (tc_kind e)) (store_sublabel i))
            (dec_seq (dec_get CDR_get_const_string (store_subname i))
              (dec_tc dec (store_subtype i)))) 0 (parts (fst s)) s"
  have e: "tc_encoder ?t = enc_seq (CDR_put_string (repo_id f)) (enc_seq (CDR_put_string (tc_name f))
      (enc_seq (tc_enc e) (enc_seq (CDR_put_ulong (default_index f))
        (enc_seq (CDR_put_ulong (sub_parts f)) ?members))))"
    using k w by (intro ext) (auto simp: enc_seq_def rbind_assoc intro!: rbind_cong)
  have g: "tk_decoder dec (kind f) = dec_seq (dec_get CDR_get_const_string store_repo_id)
     (dec_seq (dec_get CDR_get_const_string store_name) (dec_seq (dec_tc dec set_discriminator)
     (dec_seq (dec_get CDR_get_ulong (\<lambda>n. upd_fields (default_index_update (\<lambda>_. n))))
     (dec_seq (dec_get CDR_get_ulong store_labelled_members) ?switch))))"
    using k by (simp add: tk_decoder_def tc_dec_tk_union_def)
  have loop: "sim E (\<Sum>i<length ts. (22 + length (subnames f ! i)) + tc_len (ts ! i))
      (\<Union>i<length ts. set (addrs (ts ! i))) (filled ?m (?at 0 0) ts 0 d)
      ?members (?loop (length ts)) (filled ?m (?at (length ts) (length ts)) ts (length ts) d)" for d
  proof (rule sim_members)
    show "sim E (22 + length (subnames f ! i)) {} (filled ?m (?at i i) ts i d)
        (enc_labels ?k ?n (sublabels f) (subnames f) ! i)
        (dec_seq (dec_get (label_reader ?k) (store_sublabel i)) (dec_get CDR_get_const_string (store_subname i)))
        (filled ?m (?at (Suc i) (Suc i)) ts i d)" if i: "i < length ts" for i
    proof -
      have 1: "sim E 15 {} (filled ?m (?at i i) ts i d) (CDR_put_label ?k (sublabels f ! i))
          (dec_get (label_reader ?k) (store_sublabel i)) (filled ?m (?at i (Suc i)) ts i d)"
        by (rule sim_sublabel[OF w]) (use i ok labels in \<open>auto simp: list_all_length\<close>)
      have 2: "sim E (7 + length (subnames f ! i)) {} (filled ?m (?at i (Suc i)) ts i d)
          (CDR_put_string (subnames f ! i)) (dec_get CDR_get_const_string (store_subname i))
          (filled ?m (?at (Suc i) (Suc i)) ts i d)"
        using sim_subname[of "subnames f" i E ?m "?fs\<lparr> sublabels := so_far (Suc i) 0 (sublabels f) \<rparr>" ts i d] i ok
        by (simp add: list_all_length zero_fields_def)
      show ?thesis
        using sim_seq[OF 1 2] enc_labels_nth[of "sublabels f" ?n "subnames f" ?k] i ok by simp
    qed
  qed (use children lp ok enc_labels_nth[of "sublabels f" ?n "subnames f" ?k]
      map_members[of "\<lambda>u. set (addrs u)" ts] in auto)
  let ?fs1 = "?fs\<lparr> subnames := replicate ?n [], sublabels := replicate ?n 0 \<rparr>"
  have body: "sim E (\<Sum>i<length ts. (22 + length (subnames f ! i)) + tc_len (ts ! i))
      (\<Union>i<length ts. set (addrs (ts ! i))) (built ?fs1 (replicate ?n None) (Some e')) ?members ?switch
      (same_tc ?m ?t)" if e': "same_tc ?m e e'" for e'
  proof (rule sim_eq[OF _ sim_mono[OF loop[of "Some e'"]]])
    have ke: "tc_kind e' = ?k" using canon_kind[of e' e] e' by (simp add: same_tc_def)
    have at0: "?at 0 0 = ?fs1" using ok by simp
    show "filled ?m (?at 0 0) ts 0 (Some e') u" if "built ?fs1 (replicate ?n None) (Some e') u" for u
      unfolding at0 by (rule filled_0) (simp only: that ok(3))
    show "?switch (u, ctx) = ?loop (length ts) (u, ctx)"
      if "built ?fs1 (replicate ?n None) (Some e') u" for u ctx
      using that ok w ke by (auto simp: built_def dec_seq_assoc)
    show "same_tc ?m ?t u" if "filled ?m (?at (length ts) (length ts)) ts (length ts) (Some e') u" for u
    proof -
      have c: "canon_fields f = ?fs\<lparr> subnames := subnames f, sublabels := sublabels f \<rparr>"
        using k by (simp add: canon_fields_def Let_def)
      from filled_all[OF that] obtain us where "list_all2 (same_tc ?m) ts us"
        "built (canon_fields f) (map Some us) (Some e') u"
        using ok c by auto
      then show ?thesis using t k e' by (intro same_tc_built) (auto simp: tk_type_def)
    qed
  qed simp_all
  let ?fs0 = "(zero_fields (kind f))\<lparr> repo_id := repo_id f, tc_name := tc_name f \<rparr>"
  have rest: "sim E (7 + (7 + (\<Sum>i<length ts. (22 + length (subnames f ! i)) + tc_len (ts ! i))))
      ({} \<union> ({} \<union> (\<Union>i<length ts. set (addrs (ts ! i)))))
      (\<lambda>u. \<exists>e'. same_tc ?m e e' \<and> built ?fs0 [] (Some e') u)
      (enc_seq (CDR_put_ulong (default_index f)) (enc_seq (CDR_put_ulong (sub_parts f)) ?members))
      (dec_seq (dec_get CDR_get_ulong (\<lambda>n. upd_fields (default_index_update (\<lambda>_. n))))
        (dec_seq (dec_get CDR_get_ulong store_labelled_members) ?switch))
      (\<lambda>u. \<exists>e'. same_tc ?m e e' \<and> same_tc ?m ?t u)"
  proof (rule sim_ex)
    fix e' assume e': "same_tc ?m e e'"
    show "sim E (7 + (7 + (\<Sum>i<length ts. (22 + length (subnames f ! i)) + tc_len (ts ! i))))
      ({} \<union> ({} \<union> (\<Union>i<length ts. set (addrs (ts ! i))))) (built ?fs0 [] (Some e'))
      (enc_seq (CDR_put_ulong (default_index f)) (enc_seq (CDR_put_ulong (sub_parts f)) ?members))
      (dec_seq (dec_get CDR_get_ulong (\<lambda>n. upd_fields (default_index_update (\<lambda>_. n))))
        (dec_seq (dec_get CDR_get_ulong store_labelled_members) ?switch)) (same_tc ?m ?t)"
      by (rule sim_seq[OF sim_default_index], rule sim_seq[OF sim_union_head]) (use body[OF e'] in simp_all)
  qed
  have first: "sim E (tc_len e) (set (addrs e)) (built ?fs0 [] None) (tc_enc e) (dec_tc dec set_discriminator)
      (\<lambda>u. \<exists>e'. same_tc ?m e e' \<and> built ?fs0 [] (Some e') u)"
    by (rule sim_of_tc[OF switch]) (auto simp: built_def)
  have sets: "c_lp64 E \<Longrightarrow> set (addrs e) \<inter> ({} \<union> ({} \<union> (\<Union>i<length ts. set (addrs (ts ! i))))) = {}"
    using lp by (simp add: union_members[of "\<lambda>u. set (addrs u)" ts])
  have "sim E (7 + length (repo_id f) + (7 + length (tc_name f) + (tc_len e + (7 + (7
        + (\<Sum>i<length ts. (22 + length (subnames f ! i)) + tc_len (ts ! i)))))))
      ({} \<union> ({} \<union> (set (addrs e) \<union> ({} \<union> ({} \<union> (\<Union>i<length ts. set (addrs (ts ! i))))))))
      (blank (kind f)) (tc_encoder ?t) (tk_decoder dec (kind f)) (\<lambda>u. \<exists>e'. same_tc ?m e e' \<and> same_tc ?m ?t u)"
    unfolding e g blank_built
    by (rule sim_seq[OF sim_repo_id[OF ok(1)]], rule sim_seq[OF sim_name[OF ok(2)]],
        rule sim_seq[OF first rest sets]) simp_all
  then show ?thesis
    unfolding sum_over_members[of "subnames f" ts 22, OF ok(4)] union_members[of "\<lambda>u. set (addrs u)" ts]
    by (rule sim_mono) auto
qed

lemma apart_empty: "apart (map (\<lambda>x. {}) xs)"
  by (induction xs) auto

lemma filled_none: "filled m fs [] i d = built fs [] d"
  by (rule ext) (simp add: filled_def)

lemma contents_enum:
  assumes t: "tc_ok (c_abi E) (TC a f subs d)" and k: "kind f = tk_enum"
  shows "sim E (21 + length (repo_id f) + length (tc_name f) + sum_list (map (\<lambda>s. 7 + length s) (subnames f))) {}
    (blank (kind f)) (tc_encoder (TC a f subs d)) (tk_decoder dec (kind f)) (same_tc (c_abi E) (TC a f subs d))"
proof -
  let ?n = "unat (sub_parts f)" and ?m = "c_abi E" and ?t = "TC a f subs d"
  have ok: "string_ok (repo_id f)" "string_ok (tc_name f)" "subs = map Some []" "d = None"
    "length (subnames f) = ?n" "list_all string_ok (subnames f)"
    using t k by (auto simp: tc_shape_def Let_def)
  let ?fs = "(zero_fields (kind f))\<lparr> repo_id := repo_id f, tc_name := tc_name f, sub_parts := sub_parts f \<rparr>"
  let ?at = "\<lambda>i. ?fs\<lparr> subnames := so_far i [] (subnames f) \<rparr>"
  let ?loop = "dec_loop (\<lambda>i. dec_get CDR_get_const_string (store_subname i)) 0"
  let ?xs = "map (\<lambda>i. (7 + length (subnames f ! i), {} :: addr set, CDR_put_string (subnames f ! i))) [0..<?n]"
  have e: "tc_encoder ?t = enc_seq (CDR_put_string (repo_id f)) (enc_seq (CDR_put_string (tc_name f))
      (enc_seq (CDR_put_ulong (sub_parts f)) (enc_all (enc_names ?n (subnames f)))))"
    using k by (intro ext) (auto simp: enc_seq_def rbind_assoc intro!: rbind_cong)
  have g: "tk_decoder dec (kind f) = dec_seq (dec_get CDR_get_const_string store_repo_id)
     (dec_seq (dec_get CDR_get_const_string store_name) (dec_seq (dec_get CDR_get_ulong store_names)
     (\<lambda>s. ?loop (parts (fst s)) s)))"
    using k by (simp add: tk_decoder_def tc_dec_tk_enum_def)
  have names: "map (snd \<circ> snd) ?xs = enc_names ?n (subnames f)"
    by (rule nth_equalityI) (use enc_names_nth[OF ok(5)] in simp_all)
  have loop: "sim E (sum_list (map fst ?xs)) (\<Union> (set (map (fst \<circ> snd) ?xs))) (built (?at 0) [] None)
      (enc_all (map (snd \<circ> snd) ?xs)) (?loop (length ?xs)) (built (?at (0 + length ?xs)) [] None)"
  proof (rule sim_loop[where P = "\<lambda>i. built (?at i) [] None"])
    show "sim E (fst (?xs ! i)) (fst (snd (?xs ! i))) (built (?at (0 + i)) [] None) (snd (snd (?xs ! i)))
      (dec_get CDR_get_const_string (store_subname (0 + i))) (built (?at (Suc (0 + i))) [] None)"
      if "i < length ?xs" for i
      using sim_subname[of "subnames f" i E ?m ?fs "[]" i None] that ok
      by (simp add: list_all_length filled_none)
    show "apart (map (fst \<circ> snd) ?xs)" by (simp add: comp_def apart_empty)
  qed
  have sum: "sum_list (map fst ?xs) = sum_list (map (\<lambda>s. 7 + length s) (subnames f))"
    using map_members[of "\<lambda>s. 7 + length s" "subnames f"] ok(5) by (simp add: comp_def)
  have c: "canon_fields f = ?fs\<lparr> subnames := subnames f \<rparr>" using k by (simp add: canon_fields_def Let_def)
  have body: "sim E (sum_list (map (\<lambda>s. 7 + length s) (subnames f))) {}
      (built (?fs\<lparr> subnames := replicate ?n [] \<rparr>) [] None) (enc_all (enc_names ?n (subnames f)))
      (\<lambda>s. ?loop (parts (fst s)) s) (same_tc ?m ?t)"
  proof (rule sim_eq[OF _ sim_mono[OF loop[unfolded names]]])
    show "same_tc ?m ?t u" if "built (?at (0 + length ?xs)) [] None u" for u
      using same_tc_built[of ?m a f "[]" None "[]" None u] t k ok c that by (simp add: tk_type_def)
  qed (use sum ok in \<open>auto simp: built_def\<close>)
  have head: "sim E 7 {} (built fs [] None) (CDR_put_ulong w) (dec_get CDR_get_ulong store_names)
      (built (fs\<lparr> sub_parts := w, subnames := replicate (unat w) [] \<rparr>) [] None)" for fs w
    by (rule sim_ulong) (auto simp: built_def store_names_def store_sub_parts_def alloc_subnames_def)
  have "sim E (7 + length (repo_id f) + (7 + length (tc_name f) + (7
        + sum_list (map (\<lambda>s. 7 + length s) (subnames f))))) ({} \<union> ({} \<union> ({} \<union> {})))
      (blank (kind f)) (tc_encoder ?t) (tk_decoder dec (kind f)) (same_tc ?m ?t)"
    unfolding e g blank_built
    by (rule sim_seq[OF sim_repo_id[OF ok(1)]], rule sim_seq[OF sim_name[OF ok(2)]],
        rule sim_seq[OF head body]) simp_all
  then show ?thesis by (rule sim_mono) simp_all
qed

lemma contents_one:
  assumes t: "tc_ok (c_abi E) (TC a f [Some u] d)" and k: "kind f \<in> {tk_sequence, tk_array}"
    and child: "sim_tc E N S u (tc_enc u) dec"
  shows "sim E (N + 7) S (blank (kind f)) (tc_encoder (TC a f [Some u] d)) (tk_decoder dec (kind f))
    (same_tc (c_abi E) (TC a f [Some u] d))"
proof -
  let ?t = "TC a f [Some u] d" and ?m = "c_abi E"
  have ok: "d = None" "sub_parts f = 1" using t k by (auto simp: tc_shape_def Let_def)
  let ?z = "zero_fields (kind f)"
  have e: "tc_encoder ?t = enc_seq (tc_enc u) (CDR_put_ulong (tc_length f))"
    using k by (intro ext) (auto simp: enc_seq_def)
  let ?alloc = "if kind f = tk_array then alloc_uninitialised else alloc_subtypes 1"
  let ?store = "if kind f = tk_array then store_element else store_subtype 0"
  let ?subs = "if kind f = tk_array then [] else [None]"
  have g: "tk_decoder dec (kind f) = dec_seq (dec_set ?alloc) (dec_seq (dec_tc dec ?store)
     (dec_seq (dec_set (store_sub_parts 1)) (dec_get CDR_get_ulong store_length)))"
    using k by (auto simp: tk_decoder_def tc_dec_tk_sequence_def tc_dec_tk_array_def)
  have c: "canon_fields f = ?z\<lparr> sub_parts := 1, tc_length := tc_length f \<rparr>"
    using k ok by (auto simp: canon_fields_def Let_def zero_fields_def)
  have first: "sim E N S (built ?z ?subs None) (tc_enc u) (dec_tc dec ?store)
      (\<lambda>v. \<exists>u'. same_tc ?m u u' \<and> built ?z [Some u'] None v)"
    by (rule sim_of_tc[OF child]) (auto simp: built_def store_subtype_def store_element_def)
  have last: "sim E 7 {} (\<lambda>v. \<exists>u'. same_tc ?m u u' \<and> built ?z [Some u'] None v) (CDR_put_ulong (tc_length f))
      (dec_seq (dec_set (store_sub_parts 1)) (dec_get CDR_get_ulong store_length))
      (\<lambda>v. \<exists>u'. same_tc ?m u u' \<and> same_tc ?m ?t v)"
  proof (rule sim_ex)
    fix u' assume u': "same_tc ?m u u'"
    have "sim E 7 {} (built (?z\<lparr> sub_parts := 1 \<rparr>) [Some u'] None) (CDR_put_ulong (tc_length f))
        (dec_get CDR_get_ulong store_length) (same_tc ?m ?t)"
      by (rule sim_mono[OF sim_length])
        (use same_tc_built[of ?m a f "[u]" d "[u']" None] t k ok u' c in \<open>auto simp: tk_type_def\<close>)
    then show "sim E 7 {} (built ?z [Some u'] None) (CDR_put_ulong (tc_length f))
        (dec_seq (dec_set (store_sub_parts 1)) (dec_get CDR_get_ulong store_length)) (same_tc ?m ?t)"
      by (rule sim_set_first) (auto simp: built_def store_sub_parts_def)
  qed
  show ?thesis
    unfolding e g blank_built
    by (rule sim_set_first[where P' = "built ?z ?subs None"], rule sim_mono[OF sim_seq[OF first last]])
      (auto simp: built_def alloc_subtypes_def alloc_uninitialised_def)
qed

lemma contents_alias:
  assumes t: "tc_ok (c_abi E) (TC a f [Some u] d)" and k: "kind f = tk_alias"
    and child: "sim_tc E N S u (tc_enc u) dec"
  shows "sim E (14 + length (repo_id f) + length (tc_name f) + N) S (blank (kind f))
    (tc_encoder (TC a f [Some u] d)) (tk_decoder dec (kind f)) (same_tc (c_abi E) (TC a f [Some u] d))"
proof -
  let ?t = "TC a f [Some u] d" and ?m = "c_abi E"
  have ok: "d = None" "sub_parts f = 1" "string_ok (repo_id f)" "string_ok (tc_name f)"
    using t k by (auto simp: tc_shape_def Let_def)
  let ?z = "(zero_fields (kind f))\<lparr> repo_id := repo_id f, tc_name := tc_name f \<rparr>"
  have e: "tc_encoder ?t = enc_seq (CDR_put_string (repo_id f)) (enc_seq (CDR_put_string (tc_name f)) (tc_enc u))"
    using k by (intro ext) (auto simp: enc_seq_def rbind_assoc intro!: rbind_cong)
  have c: "canon_fields f = ?z\<lparr> sub_parts := 1 \<rparr>"
    using k ok by (simp add: canon_fields_def Let_def zero_fields_def)
  have body: "sim E N S (built ?z [None] None) (tc_enc u)
      (dec_seq (dec_tc dec (store_subtype 0)) (dec_set (store_sub_parts 1))) (same_tc ?m ?t)"
  proof (rule sim_set_last[where Q = "\<lambda>v. \<exists>u'. same_tc ?m u u' \<and> built ?z [Some u'] None v"])
    show "sim E N S (built ?z [None] None) (tc_enc u) (dec_tc dec (store_subtype 0))
        (\<lambda>v. \<exists>u'. same_tc ?m u u' \<and> built ?z [Some u'] None v)"
      by (rule sim_of_tc[OF child]) (auto simp: built_def store_subtype_def)
    show "same_tc ?m ?t (store_sub_parts 1 v)" if v: "\<exists>u'. same_tc ?m u u' \<and> built ?z [Some u'] None v" for v
    proof -
      obtain u' where u': "same_tc ?m u u'" "built ?z [Some u'] None v" using v by blast
      then have "built (canon_fields f) (map Some [u']) None (store_sub_parts 1 v)"
        by (auto simp: c built_def store_sub_parts_def)
      from same_tc_built[OF _ _ _ _ this, of ?m a "[u]" d] show ?thesis
        using t k ok u' by (auto simp: tk_type_def)
    qed
  qed
  have "sim E (7 + length (repo_id f) + (7 + length (tc_name f) + N)) ({} \<union> ({} \<union> S)) (blank (kind f))
      (tc_encoder ?t) (tk_decoder dec (kind f)) (same_tc ?m ?t)"
    unfolding e tk_decoder_def k TCKind.case tc_dec_tk_alias_def blank_built
    by (rule sim_seq[OF sim_ignore[OF sim_repo_id[OF ok(3)]]], rule sim_seq[OF sim_ignore[OF sim_name[OF ok(4)]]],
        rule sim_set_first[OF body[unfolded k]])
      (auto simp: built_def alloc_subtypes_def)
  then show ?thesis by (rule sim_mono) simp_all
qed

section \<open>Whole trees\<close>

lemma sim_tc_mono:
  assumes s: "sim_tc E N S u F D" and le: "N \<le> N'" "S \<subseteq> S'"
  shows "sim_tc E N' S' u F D"
proof (rule sim_tc_I)
  fix ep b ctx
  assume c: "coupled E ep b ctx" "dpos E b ctx + N' < 2 ^ 32" "c_lp64 E \<longrightarrow> S' \<inter> fst ` set ep = {}"
  obtain new bs u' ctx' where "F (ep, b) = Inr (new @ ep, sb_append bs b)" "length bs \<le> N"
    "fst ` set new \<subseteq> S" "tparses (c_body E) (D ctx) (s_host b) (spos b) bs (Some (Some u'), ctx')"
    "same_tc (c_abi E) u u'" "later (dpos E b ctx) ctx ctx'" "coupled E (new @ ep) (sb_append bs b) ctx'"
    by (rule sim_tcD[OF s c(1)]) (use c le in auto)
  then show "\<exists>new bs u' ctx'. F (ep, b) = Inr (new @ ep, sb_append bs b) \<and> length bs \<le> N' \<and> fst ` set new \<subseteq> S'
       \<and> tparses (c_body E) (D ctx) (s_host b) (spos b) bs (Some (Some u'), ctx')
       \<and> same_tc (c_abi E) u u'
       \<and> later (dpos E b ctx) ctx ctx' \<and> coupled E (new @ ep) (sb_append bs b) ctx'"
    using le by (intro exI[of _ new] exI[of _ bs] exI[of _ u'] exI[of _ ctx']) auto
qed

lemma nodes_self: "t \<in> set (nodes t)"
  by (cases t) simp

lemma nodes_member: "v \<in> set ts \<Longrightarrow> set (nodes v) \<subseteq> set (nodes (TC a f (map Some ts) d))"
  by auto

lemma nodes_switch: "set (nodes v) \<subseteq> set (nodes (TC a f subs (Some v)))"
  by auto

lemma size_nodes: "w \<in> set (nodes t) \<Longrightarrow> size w \<le> size t"
proof (induction t)
  case (TC a f subs d)
  show ?case
  proof (cases "w = TC a f subs d")
    case False
    then consider x v where "x \<in> set subs" "x = Some v" "w \<in> set (nodes v)"
      | v where "d = Some v" "w \<in> set (nodes v)"
      using TC.prems by (fastforce split: option.splits)
    then show ?thesis
    proof cases
      case 1
      have "size w \<le> size v" using TC.IH(1)[OF 1(1), of v] 1 by simp
      moreover have "size v \<le> size_list (size_option size) subs"
        using size_list_estimation'[OF 1(1), of "size v" "size_option size"] 1(2) by simp
      ultimately show ?thesis by simp
    next
      case 2
      have "size w \<le> size v" using TC.IH(2)[of v] 2 by simp
      then show ?thesis using 2 by simp
    qed
  qed simp
qed

lemma size_member: "v \<in> set ts \<Longrightarrow> size v < size (TC a f (map Some ts) d)"
  using size_list_estimation'[of "Some v" "map Some ts" "size v" "size_option size"] by simp

lemma addrs_TC: "addrs (TC a f (map Some ts) d) = (if tracked (TC a f (map Some ts) d) then [a] else [])
    @ concat (map addrs ts) @ case_option [] addrs d"
  by (cases d) (simp_all add: addrs_def[abs_def] filter_concat map_concat comp_def)

lemma apart_distinct: "distinct (concat (map g ts)) \<Longrightarrow> apart (map (\<lambda>u. set (g u)) ts)"
  by (induction ts) auto

lemma tc_len_TC: "tc_len (TC a f (map Some ts) d) = 50 + length (repo_id f) + length (tc_name f)
    + sum_list (map (\<lambda>s. 22 + length s) (subnames f)) + sum_list (map tc_len ts) + case_option 0 tc_len d"
  by (simp add: comp_def)

text \<open>The tree at hand is the one the setting knows, none of its TypeCodes is being encoded already.\<close>

definition fits :: "coding \<Rightarrow> tc \<Rightarrow> bool" where
  "fits E t \<longleftrightarrow> tc_ok (c_abi E) t \<and> labels_ok t
     \<and> (\<forall>u \<in> set (nodes t). tracked u \<longrightarrow> c_tree E (tc_addr u) = u)
     \<and> set (addrs t) \<inter> c_open E = {} \<and> (c_lp64 E \<longrightarrow> distinct (addrs t))"

lemma fits_inner:
  assumes t: "fits E t" and k: "tracked t"
    and sub: "set (nodes v) \<subseteq> set (nodes t)" "size v < size t" "tc_ok (c_abi E) v"
      "distinct (addrs t) \<Longrightarrow> distinct (addrs v)"
  shows "fits (E\<lparr> c_open := insert (tc_addr t) (c_open E), c_body := \<beta> \<rparr>) v"
proof -
  have tree: "c_tree E (tc_addr t) = t" using t k nodes_self[of t] by (auto simp: fits_def)
  have "tc_addr t \<notin> set (addrs v)"
  proof
    assume "tc_addr t \<in> set (addrs v)"
    then obtain w where w: "w \<in> set (nodes v)" "tracked w" "tc_addr w = tc_addr t"
      by (auto simp: addrs_def)
    then have "c_tree E (tc_addr w) = w" using t sub(1) by (auto simp: fits_def)
    then have "w = t" using w(3) tree by simp
    then show False using size_nodes[OF w(1)] sub(2) by simp
  qed
  moreover have "set (addrs v) \<subseteq> set (addrs t)" using sub(1) by (auto simp: addrs_def)
  moreover have "labels_ok v" using t sub(1) by (auto simp: fits_def labels_ok_def list_all_iff)
  ultimately show ?thesis using t sub by (auto simp: fits_def)
qed

lemma all_some: "None \<notin> set xs \<Longrightarrow> \<exists>ys. xs = map Some ys"
  by (metis ex_map_conv not_None_eq)

lemma sim_tree:
  "fits E t \<Longrightarrow> size t \<le> n \<Longrightarrow>
     sim_tc E (tc_len t) (set (addrs t)) t (tc_enc t) (tc_dec (c_abi E) (c_lp64 E) n)"
proof (induction n arbitrary: t E)
  case 0
  then show ?case by (cases t) simp
next
  case (Suc n)
  note fit = Suc.prems(1)
  obtain a f subs d where T: "t = TC a f subs d" by (cases t)
  have ok: "tc_ok (c_abi E) t" using fit by (simp add: fits_def)
  define dec where "dec = tc_dec (c_abi E) (c_lp64 E) n"
  show ?case
  proof (cases "tk_type (kind f) = TK_EMPTY")
    case True
    then have k: "plain (kind f)"
      using ok T by (cases "kind f") (auto simp: plain_def tc_shape_def tk_type_def Let_def)
    then have t: "t = basic_tc (c_abi E) (kind f)" using plain_ok[OF ok] T by simp
    have "sim_tc E 7 {} t (tc_enc t) (tc_dec (c_abi E) (c_lp64 E) (Suc n))"
      using sim_tc_plain[OF k, of E n] t by simp
    then show ?thesis by (rule sim_tc_mono) (simp_all add: T)
  next
    case False
    then have tr: "tracked t" by (simp add: tracked_def T)
    obtain ts where ts: "subs = map Some ts"
      using all_some[of subs] ok T by auto
    let ?E = "\<lambda>\<beta>. E\<lparr> c_open := insert a (c_open E), c_body := \<beta> \<rparr>"
    define S where "S = (\<Union>u \<in> set ts. set (addrs u)) \<union> (case d of None \<Rightarrow> {} | Some e \<Rightarrow> set (addrs e))"
    have children: "sim_tc (?E \<beta>) (tc_len v) (set (addrs v)) v (tc_enc v) dec" if v: "v \<in> set ts" for v \<beta>
    proof -
      have "fits (?E \<beta>) v"
        using fits_inner[OF fit tr, of v] nodes_member[OF v] size_member[OF v] v ok
        by (auto simp: T ts addrs_TC list_all_iff distinct_concat_iff simp del: nodes.simps)
      moreover have "size v \<le> n" using size_member[OF v, of a f d] Suc.prems(2) T ts by simp
      ultimately show ?thesis using Suc.IH[of "?E \<beta>" v] by (simp add: dec_def)
    qed
    have switch: "sim_tc (?E \<beta>) (tc_len e) (set (addrs e)) e (tc_enc e) dec" if e: "d = Some e" for e \<beta>
    proof -
      have "fits (?E \<beta>) e"
        using fits_inner[OF fit tr, of e] nodes_switch[of e a f subs] e ok
        by (auto simp: T ts addrs_TC simp del: nodes.simps)
      moreover have "size e \<le> n" using Suc.prems(2) T e by simp
      ultimately show ?thesis using Suc.IH[of "?E \<beta>" e] by (simp add: dec_def)
    qed
    have lp: "apart (map (\<lambda>u. set (addrs u)) ts)"
        "\<And>e. d = Some e \<Longrightarrow> apart (map (\<lambda>u. set (addrs u)) (e # ts))" if "c_lp64 E"
    proof -
      have dist: "distinct (concat (map addrs ts) @ case_option [] addrs d)"
        using fit that by (simp add: fits_def T ts addrs_TC split: if_splits)
      then show "apart (map (\<lambda>u. set (addrs u)) ts)" by (intro apart_distinct) simp
      show "apart (map (\<lambda>u. set (addrs u)) (e # ts))" if "d = Some e" for e
        using dist that by (intro apart_distinct) auto
    qed
    have inner: "sim (?E \<beta>) (tc_len t - 20) S (blank (kind f)) (tc_encoder t) (tk_decoder dec (kind f))
        (same_tc (c_abi E) t)" for \<beta>
    proof -
      have ok': "tc_ok (c_abi (?E \<beta>)) (TC a f (map Some ts) d)" using ok T ts by simp
      have names: "sum_list (map (\<lambda>s. 7 + length s) (subnames f)) \<le> sum_list (map (\<lambda>s. 22 + length s) (subnames f))"
        by (rule sum_list_mono) simp
      show ?thesis
      proof (cases "kind f \<in> {tk_struct, tk_except}")
        case True
        note s = contents_struct[OF ok' True children lp(1)]
        show ?thesis
          unfolding T ts by (rule sim_mono[OF s]) (use names T ts in \<open>auto simp: S_def comp_def\<close>)
      next
        case nostruct: False
        consider "kind f = tk_objref" | "kind f \<in> {tk_string, tk_wstring}" | "kind f = tk_fixed"
          | "kind f = tk_union" | "kind f = tk_enum" | "kind f \<in> {tk_sequence, tk_array}" | "kind f = tk_alias"
          using False nostruct by (auto simp: tk_type_def split: if_splits)
        then show ?thesis
        proof cases
          case 1
          from contents_objref[OF ok' 1] show ?thesis
            unfolding T ts by (rule sim_mono) (use T ts in auto)
        next
          case 2
          from contents_string[OF ok' 2] show ?thesis
            unfolding T ts by (rule sim_mono) (use T ts in auto)
        next
          case 3
          from contents_fixed[OF ok' 3] show ?thesis
            unfolding T ts by (rule sim_mono) (use T ts in auto)
        next
          case 4
          obtain e where e: "d = Some e" using ok T 4 by (auto simp: tc_shape_def Let_def)
          have "node_labels_ok t" using fit nodes_self[of t] by (auto simp: fits_def labels_ok_def list_all_iff)
          then have "list_all (label_ok (tc_kind e)) (sublabels f)" using T 4 e by (simp add: node_labels_ok_def)
          note s = contents_union[OF ok'[unfolded e] 4 this switch[OF e] children lp(2)[OF _ e]]
          show ?thesis
            unfolding T ts e by (rule sim_mono[OF s]) (use T ts e in \<open>auto simp: S_def comp_def\<close>)
        next
          case 5
          from contents_enum[OF ok' 5] show ?thesis
            unfolding T ts by (rule sim_mono) (use names T ts in auto)
        next
          case 6
          obtain u where u: "ts = [u]" using ok' 6 by (auto simp: tc_shape_def Let_def length_Suc_conv)
          note s = contents_one[OF ok'[unfolded u list.map] 6 children[of u]]
          show ?thesis
            unfolding T ts u list.map by (rule sim_mono[OF s]) (use T ts u in \<open>auto simp: S_def\<close>)
        next
          case 7
          obtain u where u: "ts = [u]" using ok' 7 by (auto simp: tc_shape_def Let_def length_Suc_conv)
          note s = contents_alias[OF ok'[unfolded u list.map] 7 children[of u]]
          show ?thesis
            unfolding T ts u list.map by (rule sim_mono[OF s]) (use T ts u in \<open>auto simp: S_def\<close>)
        qed
      qed
    qed
    have S: "set (addrs t) = insert a S"
      using tr by (auto simp: T ts addrs_TC S_def split: option.splits)
    have fresh: "a \<notin> S"
    proof
      assume "a \<in> S"
      then obtain v where v: "a \<in> set (addrs v)" "v \<in> set ts \<or> d = Some v"
        by (auto simp: S_def split: option.splits)
      then have "set (nodes v) \<subseteq> set (nodes t)" "size v < size t" "tc_ok (c_abi E) v"
        "distinct (addrs t) \<Longrightarrow> distinct (addrs v)"
        using nodes_member[of v ts a f d] nodes_switch[of v a f subs] size_member[of v ts a f d] ok
        by (auto simp: T ts addrs_TC list_all_iff distinct_concat_iff simp del: nodes.simps)
      from fits_inner[OF fit tr this] v(1) show False by (auto simp: fits_def T)
    qed
    have op: "a \<notin> c_open E" "c_tree E a = t"
      using fit S tr nodes_self[of t] by (auto simp: fits_def T)
    have "sim_tc E (tc_len t - 20 + 20) (insert a S) t (tc_enc t) (tc_dec (c_abi E) (c_lp64 E) (Suc n))"
      using sim_tc_tracked[OF T False op(2) fresh op(1) inner[unfolded dec_def]] .
    then show ?thesis by (rule sim_tc_mono) (simp_all add: S, simp add: T)
  qed
qed

section \<open>The round trip\<close>

lemma sb_append_inj: "sb_append xs b = sb_append ys b \<longleftrightarrow> xs = ys"
  by (metis same_append_eq sb_append_sel(5))

lemma ident_canon: "ident True (canon t) = ident True t"
proof (induction t)
  case (TC a f subs d)
  have "ident_fields (canon_fields f) = ident_fields f"
    by (cases "kind f") (simp_all add: ident_fields_def canon_fields_def zero_fields_def Let_def)
  moreover have "map_option (ident True \<circ> canon) x = map_option (ident True) x" if "x \<in> set subs" for x
    using TC.IH(1)[OF that] by (cases x) auto
  moreover have "map_option (ident True \<circ> canon) d = map_option (ident True) d"
    using TC.IH(2) by (cases d) auto
  ultimately show ?case by (simp add: comp_def option.map_comp)
qed

lemma same_tc_equal: "tc_ok m t \<Longrightarrow> same_tc m t u \<Longrightarrow> CORBA_TypeCode_equal t u = Inr True"
  using equiv_ident(1)[of m t u True] ident_canon[of t] ident_canon[of u]
  by (simp add: same_tc_def CORBA_TypeCode_equal_def)

text \<open>The tree that lives at an address.\<close>

definition tree_at :: "tc \<Rightarrow> addr \<Rightarrow> tc" where
  "tree_at t a = (case List.find (\<lambda>u. tracked u \<and> tc_addr u = a) (nodes t) of Some u \<Rightarrow> u | None \<Rightarrow> t)"

lemma tree_at_node:
  assumes "well_shared t" "u \<in> set (nodes t)" "tracked u" shows "tree_at t (tc_addr u) = u"
proof (cases "List.find (\<lambda>v. tracked v \<and> tc_addr v = tc_addr u) (nodes t)")
  case None
  then show ?thesis using assms by (auto simp: find_None_iff)
next
  case (Some v)
  then have "v \<in> set (nodes t)" "tracked v" "tc_addr v = tc_addr u" by (auto simp: find_Some_iff)
  then have "v = u" using assms unfolding well_shared_def by blast
  then show ?thesis using Some by (simp add: tree_at_def)
qed


text \<open>A structure with a string, and a sequence of the same string: the second use is a reference out
  of the encapsulation of the sequence.\<close>

definition sample_sequence_tc :: "nat \<Rightarrow> tc \<Rightarrow> tc" where
  "sample_sequence_tc a t = TC (Heap a) ((zero_fields tk_sequence)\<lparr> c_align := 8, sub_parts := 1 \<rparr>) [Some t] None"

definition sample_shared_tc :: tc where
  "sample_shared_tc = TC (Heap 1) ((zero_fields tk_struct)\<lparr> c_align := 8, sub_parts := 2,
     tc_name := cstr ''S'', repo_id := cstr ''IDL:S:1.0'', subnames := [cstr ''s'', cstr ''q''] \<rparr>)
     [Some (sample_string_tc 2), Some (sample_sequence_tc 3 (sample_string_tc 2))] None"

lemma sample_shared_ok: "tc_ok x86_64 sample_shared_tc" "labels_ok sample_shared_tc" "well_shared sample_shared_tc"
  by (simp_all add: sample_shared_tc_def sample_sequence_tc_def sample_string_tc_def tc_shape_def
      zero_fields_def string_ok_def cstr_def c_string_def labels_ok_def node_labels_ok_def
      well_shared_def tracked_def)


text \<open>C17. On a machine with 64-bit pointer differences a reference back to a TypeCode that began outside
  the encapsulation being read is never found, whatever its offset, although the TypeCode is there:
  the decoder ends the process.\<close>

theorem outer_back_reference_aborts:
  assumes outside: "list_all (\<lambda>(p, idx). idx < current_idx ctx) (prior_tcs ctx)"
    and read: "CDR_get_ulong b = Inr (Some off, b')"
    and small: "unat (current_idx ctx) + get_rptr b' \<le> 2 ^ 31"
  shows "dec_back_ref True ctx b = Inl Abort"
proof -
  have never: "\<not> back_ref_hit True off idx (current_idx ctx) (get_rptr b')" if "(p, idx) \<in> set (prior_tcs ctx)" for p idx
  proof -
    have lt: "idx < current_idx ctx" using outside that by (auto simp: list_all_iff)
    have "uint (idx - current_idx ctx) = uint idx - uint (current_idx ctx) + 4294967296"
      using lt by (simp add: uint_sub_if' word_less_def)
    moreover have "uint (current_idx ctx) + int (get_rptr b') \<le> 2147483648"
    proof -
      have "int (unat (current_idx ctx) + get_rptr b') \<le> int (2 ^ 31)"
        using small by (simp only: of_nat_le_iff)
      then show ?thesis by simp
    qed
    moreover have "sint off < 2147483648" using sint_lt[of off] by simp
    moreover have "0 \<le> uint idx" by simp
    ultimately have "sint off < uint (idx - current_idx ctx) - int (get_rptr b')" by linarith
    then show ?thesis by (simp add: back_ref_hit_def)
  qed
  have "List.find (\<lambda>(t, idx). back_ref_hit True off idx (current_idx ctx) (get_rptr b')) (prior_tcs ctx) = None"
    using never by (auto simp: find_None_iff)
  then show ?thesis
    using read by (simp add: dec_back_ref_def rd_bind_def rd_fail_def)
qed

text \<open>The message of the structure above, at the reference in the encapsulation of its sequence, and as
  a whole.\<close>

theorem outer_back_reference_aborts_witness:
  "let ctx = \<lparr> current_idx = 68, prior_tcs = [(Some (sample_string_tc 2), 36)], fresh = 0 \<rparr>;
       b = \<lparr> r_host = True, r_mem = replicate 60 0 @ u32_bytes True (- 20), r_flags = 1, r_version = GIOP_1_2,
         r_type = 0, r_size = 0, r_body = 52, r_cur = 60, r_end = 64 \<rparr>
   in dec_back_ref True ctx b = Inl Abort"
proof -
  define ctx where "ctx = \<lparr> current_idx = 68, prior_tcs = [(Some (sample_string_tc 2), 36)], fresh = 0 \<rparr>"
  define b where "b = \<lparr> r_host = True, r_mem = replicate 60 0 @ u32_bytes True (- 20), r_flags = 1,
    r_version = GIOP_1_2, r_type = 0, r_size = 0, r_body = 52, r_cur = 60, r_end = 64 \<rparr>"
  have "CDR_get_ulong b = Inr (Some (- 20), b\<lparr> r_cur := 64 \<rparr>)" unfolding b_def by code_simp
  then have "dec_back_ref True ctx b = Inl Abort"
    by (rule outer_back_reference_aborts[rotated]) (simp_all add: ctx_def b_def get_rptr_def)
  then show ?thesis by (simp add: ctx_def b_def)
qed

end
