(* ===== verification/Layout.thy ===== *)
theory Layout imports Typecode begin

text \<open>
  The native layout of the values a TypeCode describes: the size \<^verbatim>\<open>MateCORBA_gather_alloc_info\<close> computes
  (\<^verbatim>\<open>corba-any.c\<close>), the memory the allocators of \<^verbatim>\<open>allocators.c\<close> ask for, and the layout the C
  compiler gives to the structures, as the reference. The computation is done in the integers of the
  code: sums are 32-bit signed numbers, sizes and addresses 64-bit unsigned ones.
\<close>

section \<open>The size the code computes\<close>

definition sizeof_long_double :: nat where "sizeof_long_double = 16"
definition sizeof_fixed :: nat where "sizeof_fixed = 6"

definition scalar_size :: "abi \<Rightarrow> TCKind \<Rightarrow> nat" where
  "scalar_size m k = (case k of tk_long \<Rightarrow> 4 | tk_ulong \<Rightarrow> 4 | tk_enum \<Rightarrow> 4 | tk_short \<Rightarrow> 2 | tk_ushort \<Rightarrow> 2
     | tk_float \<Rightarrow> 4 | tk_double \<Rightarrow> 8 | tk_boolean \<Rightarrow> 1 | tk_char \<Rightarrow> 1 | tk_octet \<Rightarrow> 1
     | tk_any \<Rightarrow> sizeof_any m | tk_TypeCode \<Rightarrow> sizeof_ptr m | tk_Principal \<Rightarrow> sizeof_seq m
     | tk_objref \<Rightarrow> sizeof_ptr m | tk_wstring \<Rightarrow> sizeof_ptr m | tk_string \<Rightarrow> sizeof_ptr m
     | tk_sequence \<Rightarrow> sizeof_seq m | tk_longlong \<Rightarrow> 8 | tk_ulonglong \<Rightarrow> 8
     | tk_longdouble \<Rightarrow> sizeof_long_double | tk_wchar \<Rightarrow> 2 | tk_fixed \<Rightarrow> sizeof_fixed | _ \<Rightarrow> 0)"

text \<open>
  \<^verbatim>\<open>ALIGN_VALUE\<close> of an \<^verbatim>\<open>int\<close> and a \<^verbatim>\<open>CORBA_short\<close>, stored in an \<^verbatim>\<open>int\<close>, and \<^verbatim>\<open>sum += size\<close>.
\<close>

definition align_int :: "u32 \<Rightarrow> int \<Rightarrow> u32" where
  "align_int acc boundary = ucast (ALIGN_VALUE_word (scast acc) (word_of_int boundary))"

definition add_size :: "u32 \<Rightarrow> u64 \<Rightarrow> u32" where
  "add_size acc sz = ucast ((scast acc :: u64) + sz)"

definition max_int :: "u32 \<Rightarrow> u64 \<Rightarrow> u32" where
  "max_int prev sz = (if (scast prev :: u64) > sz then prev else ucast sz)"

abbreviation tc_align :: "tc \<Rightarrow> int" where "tc_align t \<equiv> c_align (tc_fields t)"

text \<open>
  \<^verbatim>\<open>MateCORBA_gather_alloc_info\<close>, its loop over the members of a structure, and the loop over those
  of a union: it finds the last member whose alignment is above that of the member before it, and
  the largest sz.
\<close>

fun MateCORBA_gather_alloc_info :: "abi \<Rightarrow> tc \<Rightarrow> u64 res"
  and gather_struct :: "abi \<Rightarrow> u32 \<Rightarrow> nat \<Rightarrow> tc option list \<Rightarrow> u32 res"
  and gather_union :: "abi \<Rightarrow> int \<Rightarrow> int option \<Rightarrow> u32 \<Rightarrow> nat \<Rightarrow> tc option list \<Rightarrow> (int option \<times> u32) res" where
  "MateCORBA_gather_alloc_info m (TC a f subs d) = (case kind f of
     tk_alias \<Rightarrow> (case subs of Some t # _ \<Rightarrow> MateCORBA_gather_alloc_info m t | _ \<Rightarrow> Inl Abort)
   | tk_except \<Rightarrow> rbind (gather_struct m 0 (unat (sub_parts f)) subs) (\<lambda>acc.
       Inr (scast (align_int acc (c_align f))))
   | tk_struct \<Rightarrow> rbind (gather_struct m 0 (unat (sub_parts f)) subs) (\<lambda>acc.
       Inr (scast (align_int acc (c_align f))))
   | tk_union \<Rightarrow> (case d of None \<Rightarrow> Inl Abort | Some e \<Rightarrow>
       rbind (MateCORBA_gather_alloc_info m e) (\<lambda>sz.
       rbind (gather_union m 1 None 0 (unat (sub_parts f)) subs) (\<lambda>(n, prev).
         let acc = ucast sz;
             acc = (case n of Some al \<Rightarrow> align_int acc al | None \<Rightarrow> acc);
             acc = add_size acc (scast prev)
         in Inr (scast (align_int acc (c_align f))))))
   | tk_array \<Rightarrow> (case subs of Some t # _ \<Rightarrow> rbind (MateCORBA_gather_alloc_info m t) (\<lambda>sz.
         Inr (sz * ucast (tc_length f)))
       | _ \<Rightarrow> Inl Abort)
   | k \<Rightarrow> Inr (of_nat (scalar_size m k)))"
| "gather_struct m acc 0 subs = Inr acc"
| "gather_struct m acc (Suc n) (Some t # subs) = rbind (MateCORBA_gather_alloc_info m t) (\<lambda>sz.
     gather_struct m (add_size (align_int acc (tc_align t)) sz) n subs)"
| "gather_struct m acc (Suc n) (None # subs) = Inl Abort"
| "gather_struct m acc (Suc n) [] = Inl Overrun"
| "gather_union m align n prev 0 subs = Inr (n, prev)"
| "gather_union m align n prev (Suc k) (Some t # subs) =
     rbind (MateCORBA_gather_alloc_info m t) (\<lambda>sz.
       gather_union m (tc_align t) (if tc_align t > align then Some (tc_align t) else n)
         (max_int prev sz) k subs)"
| "gather_union m align n prev (Suc k) (None # subs) = Inl Abort"
| "gather_union m align n prev (Suc k) [] = Inl Overrun"

text \<open>
  The memory of \<^verbatim>\<open>MateCORBA_alloc_by_tc\<close> and \<^verbatim>\<open>MateCORBA_alloc_tcval\<close> behind their prefix: the size is
  stored in a \<^verbatim>\<open>guint\<close>, and so is its product with the number of elements. 0 is the NULL pointer.
\<close>

definition MateCORBA_alloc_by_tc :: "abi \<Rightarrow> tc \<Rightarrow> nat res" where
  "MateCORBA_alloc_by_tc m t = rbind (MateCORBA_gather_alloc_info m t) (\<lambda>sz.
     Inr (unat (ucast sz :: u32)))"

definition MateCORBA_alloc_tcval :: "abi \<Rightarrow> tc \<Rightarrow> u32 \<Rightarrow> nat res" where
  "MateCORBA_alloc_tcval m t num_elements = (if num_elements = 0 then Inr 0
     else rbind (MateCORBA_gather_alloc_info m t) (\<lambda>sz.
       let element_size = ucast sz :: u32 in
       if element_size = 0 then Inr 0 else Inr (unat (element_size * num_elements))))"

section \<open>The layout of the C compiler\<close>

text \<open>
  Alignment and size of the C type for a TypeCode: a structure has the alignment of its most aligned
  member, its members at the next multiple of their alignment, and its size rounded up; a union is a
  structure of its discriminator and the C union of its members.
\<close>

definition c_scalar_align :: "abi \<Rightarrow> TCKind \<Rightarrow> nat" where
  "c_scalar_align m k = (case k of tk_long \<Rightarrow> ALIGNOF_LONG m | tk_ulong \<Rightarrow> ALIGNOF_LONG m
     | tk_enum \<Rightarrow> ALIGNOF_LONG m | tk_short \<Rightarrow> ALIGNOF_SHORT m | tk_ushort \<Rightarrow> ALIGNOF_SHORT m
     | tk_wchar \<Rightarrow> ALIGNOF_SHORT m | tk_float \<Rightarrow> ALIGNOF_FLOAT m | tk_double \<Rightarrow> ALIGNOF_DOUBLE m
     | tk_boolean \<Rightarrow> ALIGNOF_CHAR m | tk_char \<Rightarrow> ALIGNOF_CHAR m | tk_octet \<Rightarrow> ALIGNOF_CHAR m
     | tk_longlong \<Rightarrow> ALIGNOF_LONG_LONG m | tk_ulonglong \<Rightarrow> ALIGNOF_LONG_LONG m
     | tk_longdouble \<Rightarrow> ALIGNOF_LONG_DOUBLE m | tk_string \<Rightarrow> ALIGNOF_POINTER m
     | tk_wstring \<Rightarrow> ALIGNOF_POINTER m | tk_TypeCode \<Rightarrow> ALIGNOF_POINTER m | tk_objref \<Rightarrow> ALIGNOF_POINTER m
     | tk_any \<Rightarrow> ALIGNOF_ANY m | tk_sequence \<Rightarrow> ALIGNOF_SEQ m | tk_Principal \<Rightarrow> ALIGNOF_SEQ m
     | tk_fixed \<Rightarrow> ALIGNOF_FIXED m | _ \<Rightarrow> 1)"

text \<open>\<open>clayout m t\<close> is the size and the alignment; \<open>members\<close> lays out a list of members from an offset on,
  \<open>widest\<close> is the size and alignment of the C union of them.\<close>

fun clayout :: "abi \<Rightarrow> tc \<Rightarrow> nat \<times> nat"
  and members :: "abi \<Rightarrow> nat \<Rightarrow> nat \<Rightarrow> tc option list \<Rightarrow> nat \<times> nat"
  and widest :: "abi \<Rightarrow> nat \<Rightarrow> nat \<Rightarrow> tc option list \<Rightarrow> nat \<times> nat" where
  "clayout m (TC a f subs d) = (case kind f of
     tk_alias \<Rightarrow> (case subs of Some t # _ \<Rightarrow> clayout m t | _ \<Rightarrow> (0, 1))
   | tk_array \<Rightarrow> (case subs of Some t # _ \<Rightarrow> let (s, al) = clayout m t in (unat (tc_length f) * s, al)
       | _ \<Rightarrow> (0, 1))
   | tk_struct \<Rightarrow> let (s, al) = members m 0 (max 1 (ALIGNOF_STRUCT m)) subs in (ALIGN_VALUE s al, al)
   | tk_except \<Rightarrow> let (s, al) = members m 0 (max 1 (ALIGNOF_STRUCT m)) subs in (ALIGN_VALUE s al, al)
   | tk_union \<Rightarrow> (case d of None \<Rightarrow> (0, 1) | Some e \<Rightarrow>
       let (ds, dal) = clayout m e; (s, al) = widest m 0 1 subs;
           all = max (max dal al) (max 1 (ALIGNOF_STRUCT m))
       in (ALIGN_VALUE (ALIGN_VALUE ds al + ALIGN_VALUE s al) all, all))
   | k \<Rightarrow> (scalar_size m k, c_scalar_align m k))"
| "members m off al [] = (off, al)"
| "members m off al (x # subs) = (case x of None \<Rightarrow> members m off al subs | Some t \<Rightarrow>
     let (s, a) = clayout m t in members m (ALIGN_VALUE off a + s) (max al a) subs)"
| "widest m s al [] = (s, al)"
| "widest m s al (x # subs) = (case x of None \<Rightarrow> widest m s al subs | Some t \<Rightarrow>
     let (s', a) = clayout m t in widest m (max s s') (max al a) subs)"

section \<open>The two agree\<close>

text \<open>
  The alignments of a platform are powers of two up to 16. The size of a union is computed with the
  alignment of the last member that is more aligned than the one before it, which \<open>ascent\<close> finds.
\<close>

definition alignments :: "nat set" where "alignments = {1, 2, 4, 8, 16}"

definition abi_ok :: "abi \<Rightarrow> bool" where
  "abi_ok m \<longleftrightarrow> set [ALIGNOF_STRUCT m, ALIGNOF_LONG m, ALIGNOF_SHORT m, ALIGNOF_FLOAT m, ALIGNOF_DOUBLE m,
     ALIGNOF_CHAR m, ALIGNOF_LONG_LONG m, ALIGNOF_LONG_DOUBLE m, ALIGNOF_POINTER m] \<subseteq> alignments
     \<and> sizeof_ptr m < 2 ^ 16 \<and> sizeof_seq m < 2 ^ 16 \<and> sizeof_any m < 2 ^ 16"

fun ascent :: "abi \<Rightarrow> nat \<Rightarrow> nat \<Rightarrow> tc option list \<Rightarrow> nat" where
  "ascent m prev n [] = n"
| "ascent m prev n (x # subs) = (case x of None \<Rightarrow> ascent m prev n subs | Some t \<Rightarrow>
     let a = snd (clayout m t) in ascent m a (if a > prev then a else n) subs)"

text \<open>
  TypeCodes whose arrays are complete, whose alignments are those of the C types, whose values fill
  less than 2 GiB, and in whose unions the alignment the code picks is the largest one.
\<close>

fun laid_out :: "abi \<Rightarrow> tc \<Rightarrow> bool" where
  "laid_out m (TC a f subs d) \<longleftrightarrow> c_align f = int (snd (clayout m (TC a f subs d)))
     \<and> fst (clayout m (TC a f subs d)) < 2 ^ 31 \<and> None \<notin> set subs
     \<and> (kind f \<in> {tk_struct, tk_except, tk_union} \<longrightarrow> length subs = unat (sub_parts f))
     \<and> (kind f \<in> {tk_alias, tk_array, tk_sequence} \<longrightarrow> subs \<noteq> [])
     \<and> (kind f = tk_union \<longrightarrow> d \<noteq> None \<and> ascent m 1 1 subs = snd (widest m 0 1 subs))
     \<and> list_all (pred_option (laid_out m)) subs \<and> pred_option (laid_out m) d"

lemma alignments_pos: "b \<in> alignments \<Longrightarrow> 0 < b"
  by (auto simp: alignments_def)

lemma alignments_max: "a \<in> alignments \<Longrightarrow> b \<in> alignments \<Longrightarrow> max a b \<in> alignments"
  by (simp add: max_def)

lemma alignments_dvd: "a \<in> alignments \<Longrightarrow> b \<in> alignments \<Longrightarrow> a \<le> b \<Longrightarrow> a dvd b"
  by (auto simp: alignments_def)

lemma alignments_le: "b \<in> alignments \<Longrightarrow> b \<le> 16"
  by (auto simp: alignments_def)

lemma scast_small: "n < 2 ^ 31 \<Longrightarrow> scast (of_nat n :: u32) = (of_nat n :: u64)"
proof -
  assume n: "n < 2 ^ 31"
  have u: "uint (of_nat n :: u32) = int n"
    using n by (simp add: unsigned_of_nat take_bit_nat_eq_self)
  have "sint (of_nat n :: u32) = signed_take_bit 31 (int n)" by (simp add: sint_uint u)
  also have "\<dots> = int n" by (rule signed_take_bit_int_eq_self) (use n in simp_all)
  finally show ?thesis by (simp only: scast_eq) simp
qed

lemma ucast_of_nat: "ucast (of_nat n :: u64) = (of_nat n :: u32)"
  by (rule bit_word_eqI) (simp add: bit_simps)

lemma align_of_nat:
  assumes b: "b \<in> alignments" and x: "x < 2 ^ 31"
  shows "ALIGN_VALUE_word (of_nat x) (word_of_int (int b)) = of_nat (ALIGN_VALUE x b)"
proof -
  have u: "unat (of_nat x :: u64) = x"
    using x by (simp add: unat_of_nat take_bit_nat_eq_self)
  obtain k where k: "b = 2 ^ k" "k \<le> 4"
    using b that[of 0] that[of 1] that[of 2] that[of 3] that[of 4] by (auto simp: alignments_def)
  have w: "(word_of_int (int b) :: u64) = 2 ^ k" using k by simp
  have "(2::nat) ^ k \<le> 2 ^ 4" using k by (intro power_increasing) auto
  then have "unat (ALIGN_VALUE_word (of_nat x) (2 ^ k)) = ALIGN_VALUE (unat (of_nat x :: u64)) (2 ^ k)"
    using k(2) x u by (intro ALIGN_VALUE_word_eq) auto
  then have "unat (ALIGN_VALUE_word (of_nat x) (2 ^ k)) = ALIGN_VALUE x b" using u k by simp
  then show ?thesis unfolding w by (metis of_nat_unat ucast_id)
qed

lemma align_int_nat:
  "b \<in> alignments \<Longrightarrow> x < 2 ^ 31 \<Longrightarrow> align_int (of_nat x) (int b) = of_nat (ALIGN_VALUE x b)"
  by (simp only: align_int_def scast_small align_of_nat ucast_of_nat)

lemma add_size_nat: "x < 2 ^ 31 \<Longrightarrow> add_size (of_nat x) (of_nat y) = of_nat (x + y)"
  by (simp only: add_size_def scast_small of_nat_add[symmetric] ucast_of_nat)

lemma max_int_nat:
  assumes "x < 2 ^ 31" "y < 2 ^ 31" shows "max_int (of_nat x) (of_nat y) = of_nat (max x y)"
proof -
  have "(of_nat y :: u64) < of_nat x \<longleftrightarrow> y < x"
    using assms by (simp add: word_less_nat_alt unat_of_nat take_bit_nat_eq_self)
  then show ?thesis by (simp add: max_int_def scast_small[OF assms(1)] ucast_of_nat max_def)
qed

lemma one_alignment [simp]: "1 \<in> alignments" "Suc 0 \<in> alignments"
  by (simp_all add: alignments_def)

lemma scalar_align: "abi_ok m \<Longrightarrow> c_scalar_align m k \<in> alignments"
  by (cases k) (simp_all add: abi_ok_def c_scalar_align_def ALIGNOF_ANY_def ALIGNOF_SEQ_def ALIGNOF_FIXED_def
      alignments_max)

lemma scalar_size_small: "abi_ok m \<Longrightarrow> scalar_size m k < 2 ^ 16"
  by (cases k) (simp_all add: abi_ok_def scalar_size_def sizeof_long_double_def sizeof_fixed_def)

definition all_types :: "(tc \<Rightarrow> bool) \<Rightarrow> tc option list \<Rightarrow> bool" where
  "all_types P subs \<longleftrightarrow> (\<forall>x \<in> set subs. \<forall>t. x = Some t \<longrightarrow> P t)"

lemma all_types_Cons [simp]: "all_types P (x # xs) \<longleftrightarrow> (\<forall>t. x = Some t \<longrightarrow> P t) \<and> all_types P xs"
  by (auto simp: all_types_def)

lemma members_align:
  "all_types (\<lambda>t. snd (clayout m t) \<in> alignments) subs \<Longrightarrow> al \<in> alignments \<Longrightarrow>
     snd (members m off al subs) \<in> alignments"
  by (induction subs arbitrary: off al)
    (auto simp: Let_def alignments_max split: option.splits prod.splits)

lemma widest_align:
  "all_types (\<lambda>t. snd (clayout m t) \<in> alignments) subs \<Longrightarrow> al \<in> alignments \<Longrightarrow>
     snd (widest m s al subs) \<in> alignments"
  by (induction subs arbitrary: s al)
    (auto simp: Let_def alignments_max split: option.splits prod.splits)

lemma struct_align: "abi_ok m \<Longrightarrow> max 1 (ALIGNOF_STRUCT m) \<in> alignments"
  by (rule alignments_max) (simp_all add: abi_ok_def)

lemma clayout_align:
  assumes m: "abi_ok m" shows "snd (clayout m t) \<in> alignments"
proof (induction t)
  case (TC a f subs d)
  have subs: "all_types (\<lambda>t. snd (clayout m t) \<in> alignments) subs"
    using TC.IH(1) by (fastforce simp: all_types_def)
  have head: "snd (clayout m t) \<in> alignments" if "subs = Some t # r" for t r
    using subs that by simp
  have e: "snd (clayout m e) \<in> alignments" if "d = Some e" for e using TC.IH(2) that by simp
  show ?case
    by (cases "kind f")
      (use members_align[OF subs struct_align[OF m]] widest_align[OF subs, of 1] e head struct_align[OF m]
          scalar_align[OF m] in \<open>auto simp: Let_def case_prod_beta alignments_max split: list.splits option.splits\<close>)
qed

text \<open>The loops of the code, over members for which it computes the C size.\<close>

definition sized_right :: "abi \<Rightarrow> tc \<Rightarrow> bool" where
  "sized_right m t \<longleftrightarrow> MateCORBA_gather_alloc_info m t = Inr (of_nat (fst (clayout m t)))
     \<and> tc_align t = int (snd (clayout m t)) \<and> fst (clayout m t) < 2 ^ 31"

lemma members_ge:
  "all_types (\<lambda>t. snd (clayout m t) \<in> alignments) subs \<Longrightarrow> off \<le> fst (members m off al subs)"
proof (induction subs arbitrary: off al)
  case (Cons x subs)
  show ?case
  proof (cases x)
    case (Some t)
    obtain s a where sa: "clayout m t = (s, a)" by fastforce
    have a: "0 < a" using Cons.prems Some sa alignments_pos by simp
    have "off \<le> ALIGN_VALUE off a + s" using ALIGN_VALUE_ge[OF a, of off] by simp
    also have "\<dots> \<le> fst (members m (ALIGN_VALUE off a + s) (max al a) subs)"
      by (rule Cons.IH) (use Cons.prems in simp)
    finally show ?thesis using Some sa by simp
  qed (use Cons in simp)
qed simp

lemma gather_struct_members:
  assumes "abi_ok m" "all_types (sized_right m) subs" "None \<notin> set subs" "fst (members m off al subs) < 2 ^ 31"
  shows "gather_struct m (of_nat off) (length subs) subs = Inr (of_nat (fst (members m off al subs)))"
  using assms(2-)
proof (induction subs arbitrary: off al)
  case (Cons x subs)
  obtain t where x: "x = Some t" using Cons.prems by (cases x) auto
  obtain s a where sa: "clayout m t = (s, a)" by fastforce
  have r: "MateCORBA_gather_alloc_info m t = Inr (of_nat s)" "tc_align t = int a"
    using Cons.prems x sa by (auto simp: sized_right_def)
  have a: "a \<in> alignments" using clayout_align[OF assms(1), of t] sa by simp
  let ?o = "ALIGN_VALUE off a + s"
  have "all_types (\<lambda>t. snd (clayout m t) \<in> alignments) subs"
    by (simp add: all_types_def clayout_align[OF assms(1)])
  then have o: "?o \<le> fst (members m ?o (max al a) subs)" by (rule members_ge)
  then have o31: "?o < 2 ^ 31" using Cons.prems x sa by simp
  moreover have "off \<le> ALIGN_VALUE off a" using ALIGN_VALUE_ge alignments_pos[OF a] by simp
  ultimately have off: "off < 2 ^ 31" "ALIGN_VALUE off a < 2 ^ 31" by linarith+
  have "add_size (align_int (of_nat off) (int a)) (of_nat s) = of_nat ?o"
    using off a by (simp only: align_int_nat add_size_nat)
  then show ?case
    using Cons.IH[of ?o "max al a"] Cons.prems x sa r by simp
qed simp

lemma gather_union_widest:
  assumes "abi_ok m" "all_types (sized_right m) subs" "None \<notin> set subs" "p < 2 ^ 31"
    "case_option 1 (\<lambda>x. x) n \<ge> 0"
  shows "\<exists>n'. gather_union m (int prev) n (of_nat p) (length subs) subs
      = Inr (n', of_nat (fst (widest m p al subs)))
    \<and> case_option 1 (\<lambda>x. x) n' = int (ascent m prev (nat (case_option 1 (\<lambda>x. x) n)) subs)
    \<and> fst (widest m p al subs) < 2 ^ 31"
  using assms(2-)
proof (induction subs arbitrary: prev n p al)
  case (Cons x subs)
  obtain t where x: "x = Some t" using Cons.prems by (cases x) auto
  obtain s a where sa: "clayout m t = (s, a)" by fastforce
  have r: "MateCORBA_gather_alloc_info m t = Inr (of_nat s)" "tc_align t = int a" "s < 2 ^ 31"
    using Cons.prems x sa by (auto simp: sized_right_def)
  have mx: "max_int (of_nat p) (of_nat s) = of_nat (max p s)"
    using Cons.prems r by (simp add: max_int_nat)
  have ps: "max p s < 2 ^ 31" using Cons.prems r by simp
  let ?n = "if int prev < int a then Some (int a) else n"
  have "\<exists>n'. gather_union m (int a) ?n (of_nat (max p s)) (length subs) subs
      = Inr (n', of_nat (fst (widest m (max p s) (max al a) subs)))
    \<and> case_option 1 (\<lambda>x. x) n' = int (ascent m a (nat (case_option 1 (\<lambda>x. x) ?n)) subs)
    \<and> fst (widest m (max p s) (max al a) subs) < 2 ^ 31"
    by (rule Cons.IH) (use Cons.prems ps in simp_all)
  then show ?case using x sa r mx by (cases "prev < a") simp_all
qed simp

lemma ALIGN_absorb:
  assumes "0 < a" "0 < b" "a dvd b" "a dvd x"
  shows "ALIGN_VALUE (x + ALIGN_VALUE s a) b = ALIGN_VALUE (x + s) b"
proof (rule antisym)
  let ?q = "ALIGN_VALUE (x + s) b"
  have q: "x + s \<le> ?q" using ALIGN_VALUE_ge[OF assms(2)] .
  have "a dvd ?q" using assms(3) ALIGN_VALUE_dvd dvd_trans by blast
  then have "a dvd ?q - x" using assms(4) by simp
  then have "ALIGN_VALUE s a \<le> ?q - x" using q by (intro ALIGN_VALUE_least[OF assms(1)]) simp_all
  then have "x + ALIGN_VALUE s a \<le> ?q" using q by linarith
  then show "ALIGN_VALUE (x + ALIGN_VALUE s a) b \<le> ?q"
    by (rule ALIGN_VALUE_least[OF assms(2) ALIGN_VALUE_dvd])
  have "x + s \<le> x + ALIGN_VALUE s a" using ALIGN_VALUE_ge[OF assms(1)] by simp
  also have "\<dots> \<le> ALIGN_VALUE (x + ALIGN_VALUE s a) b" by (rule ALIGN_VALUE_ge[OF assms(2)])
  finally show "?q \<le> ALIGN_VALUE (x + ALIGN_VALUE s a) b"
    by (rule ALIGN_VALUE_least[OF assms(2) ALIGN_VALUE_dvd])
qed

lemma gather_aligned:
  assumes "b \<in> alignments" "ALIGN_VALUE x b < 2 ^ 31"
  shows "(scast (align_int (of_nat x) (int b)) :: u64) = of_nat (ALIGN_VALUE x b)"
proof -
  have "x < 2 ^ 31" using ALIGN_VALUE_ge[OF alignments_pos[OF assms(1)], of x] assms(2) by linarith
  then show ?thesis using assms by (simp only: align_int_nat scast_small)
qed

lemma sized_right_struct:
  assumes m: "abi_ok m" and k: "kind f = tk_struct \<or> kind f = tk_except"
    and t: "laid_out m (TC a f subs d)" and subs: "all_types (sized_right m) subs"
  shows "sized_right m (TC a f subs d)"
proof -
  let ?st = "max 1 (ALIGNOF_STRUCT m)"
  obtain s al where sa: "members m 0 ?st subs = (s, al)" by fastforce
  have all: "all_types (\<lambda>t. snd (clayout m t) \<in> alignments) subs"
    by (simp add: all_types_def clayout_align[OF m])
  have al: "al \<in> alignments" using members_align[OF all struct_align[OF m], of 0] sa by simp
  have l: "clayout m (TC a f subs d) = (ALIGN_VALUE s al, al)" using k sa by auto
  have t': "None \<notin> set subs" "length subs = unat (sub_parts f)" "c_align f = int al"
      "ALIGN_VALUE s al < 2 ^ 31"
    using t k l by auto
  have "s < 2 ^ 31" using ALIGN_VALUE_ge[OF alignments_pos[OF al], of s] t' by linarith
  then have "gather_struct m 0 (length subs) subs = Inr (of_nat s)"
    using gather_struct_members[OF m subs t'(1), of 0 ?st] sa by simp
  then have "MateCORBA_gather_alloc_info m (TC a f subs d) = Inr (of_nat (ALIGN_VALUE s al))"
    using k t' gather_aligned[OF al t'(4)] by auto
  then show ?thesis using l t' by (simp add: sized_right_def)
qed

lemma sized_right_union:
  assumes m: "abi_ok m" and k: "kind f = tk_union"
    and t: "laid_out m (TC a f subs d)" and subs: "all_types (sized_right m) subs"
    and d: "pred_option (sized_right m) d"
  shows "sized_right m (TC a f subs d)"
proof -
  obtain e where e: "d = Some e" using t k by auto
  obtain ds dal where de: "clayout m e = (ds, dal)" by fastforce
  obtain s al where sa: "widest m 0 1 subs = (s, al)" by fastforce
  define A where "A = max (max dal al) (max 1 (ALIGNOF_STRUCT m))"
  define size where "size = ALIGN_VALUE (ALIGN_VALUE ds al + ALIGN_VALUE s al) A"
  have all: "all_types (\<lambda>t. snd (clayout m t) \<in> alignments) subs"
    by (simp add: all_types_def clayout_align[OF m])
  have al: "al \<in> alignments" using widest_align[OF all, of 1 0] sa by simp
  have dal: "dal \<in> alignments" using clayout_align[OF m, of e] de by simp
  have A: "A \<in> alignments" unfolding A_def by (intro alignments_max al dal struct_align[OF m])
  have l: "clayout m (TC a f subs d) = (size, A)"
    using k e de sa by (simp add: Let_def A_def size_def)
  have t': "None \<notin> set subs" "length subs = unat (sub_parts f)" "c_align f = int A" "size < 2 ^ 31"
      "ascent m 1 1 subs = al"
    using t k l sa by auto
  have "al dvd A" by (rule alignments_dvd[OF al A]) (simp add: A_def)
  then have sz: "size = ALIGN_VALUE (ALIGN_VALUE ds al + s) A"
    unfolding size_def using alignments_pos[OF al] alignments_pos[OF A] ALIGN_VALUE_dvd by (intro ALIGN_absorb)
  have dr: "MateCORBA_gather_alloc_info m e = Inr (of_nat ds)" "ds < 2 ^ 31"
    using d e de by (simp_all add: sized_right_def)
  obtain n' where g: "gather_union m 1 None 0 (length subs) subs = Inr (n', of_nat s)"
      "case_option 1 (\<lambda>x. x) n' = int al" "s < 2 ^ 31"
    using gather_union_widest[OF m subs t'(1), of 0 None 1 1] t'(5) sa by auto
  have "ALIGN_VALUE ds al + s \<le> size" unfolding sz by (rule ALIGN_VALUE_ge[OF alignments_pos[OF A]])
  then have b31: "ALIGN_VALUE ds al < 2 ^ 31" using t'(4) by linarith
  have body: "(case n' of Some x \<Rightarrow> align_int (ucast (of_nat ds :: u64)) x | None \<Rightarrow> ucast (of_nat ds :: u64))
      = of_nat (ALIGN_VALUE ds al)"
  proof (cases n')
    case None
    then have "al = 1" using g by simp
    then show ?thesis using None by (simp add: ucast_of_nat)
  next
    case (Some x)
    then show ?thesis using g(2) align_int_nat[OF al dr(2)] by (simp only: ucast_of_nat) simp
  qed
  have "scast (of_nat s :: u32) = (of_nat s :: u64)" by (rule scast_small[OF g(3)])
  then have "add_size (of_nat (ALIGN_VALUE ds al)) (scast (of_nat s :: u32)) = of_nat (ALIGN_VALUE ds al + s)"
    by (simp only: add_size_nat[OF b31])
  then have "MateCORBA_gather_alloc_info m (TC a f subs d)
      = Inr (scast (align_int (of_nat (ALIGN_VALUE ds al + s)) (int A)))"
    using k e dr g t' body by (simp add: Let_def)
  also have "\<dots> = Inr (of_nat size)"
    using gather_aligned[OF A, of "ALIGN_VALUE ds al + s"] t'(4) sz by simp
  finally show ?thesis using l t' by (simp add: sized_right_def)
qed

lemma laid_out_sized:
  assumes m: "abi_ok m" shows "laid_out m t \<Longrightarrow> sized_right m t"
proof (induction t)
  case (TC a f subs d)
  have subs: "all_types (sized_right m) subs"
    using TC by (fastforce simp: all_types_def list_all_iff)
  have d: "pred_option (sized_right m) d" using TC by (cases d) auto
  consider (st) "kind f = tk_struct \<or> kind f = tk_except" | (un) "kind f = tk_union"
    | (ar) "kind f = tk_array \<or> kind f = tk_alias"
    | (sc) "kind f \<notin> {tk_struct, tk_except, tk_union, tk_array, tk_alias}" by blast
  then show ?case
  proof cases
    case ar
    have "subs \<noteq> []" "None \<notin> set subs" using ar TC.prems by auto
    then obtain t r where s: "subs = Some t # r" by (cases subs; cases "hd subs") auto
    obtain sz al where sa: "clayout m t = (sz, al)" by fastforce
    have "sized_right m t" using subs s by simp
    moreover have "(of_nat (unat (tc_length f) * sz) :: u64) = of_nat sz * ucast (tc_length f)"
      by (simp add: mult.commute)
    ultimately show ?thesis
      using ar TC.prems s sa by (auto simp: sized_right_def Let_def simp del: of_nat_mult)
  next
    case sc
    then have "clayout m (TC a f subs d) = (scalar_size m (kind f), c_scalar_align m (kind f))"
      "MateCORBA_gather_alloc_info m (TC a f subs d) = Inr (of_nat (scalar_size m (kind f)))"
      by (cases "kind f"; simp)+
    then show ?thesis using TC.prems by (simp add: sized_right_def)
  qed (use sized_right_struct[OF m _ TC.prems subs] sized_right_union[OF m _ TC.prems subs d] in auto)
qed

section \<open>What the allocators get\<close>

lemma laid_outD:
  assumes "abi_ok m" "laid_out m t"
  shows "MateCORBA_gather_alloc_info m t = Inr (of_nat (fst (clayout m t)))" "fst (clayout m t) < 2 ^ 31"
  using laid_out_sized[OF assms] by (simp_all add: sized_right_def)

lemma unat_of_nat_32: "unat (of_nat n :: u32) = n mod 2 ^ 32"
  by (simp add: unat_of_nat)

lemma alloc_of_gather:
  assumes "MateCORBA_gather_alloc_info m t = Inr (of_nat n)" "n < 2 ^ 32"
  shows "MateCORBA_alloc_by_tc m t = Inr n"
proof -
  have "unat (ucast (of_nat n :: u64) :: u32) = n"
    unfolding ucast_of_nat unat_of_nat_32 using assms(2) by simp
  then show ?thesis by (simp add: MateCORBA_alloc_by_tc_def assms(1))
qed

text \<open>C21. The size the code computes for a value is the size of the C type, and
  \<^verbatim>\<open>MateCORBA_alloc_by_tc\<close> allocates exactly that: for every TypeCode whose arrays are complete and whose
  alignments are right, with values below 2 GiB, and in whose unions the member with the last increase of
  alignment is a most aligned one.\<close>

theorem native_size_is_c_size:
  assumes "abi_ok m" "laid_out m t"
  shows "MateCORBA_gather_alloc_info m t = Inr (of_nat (fst (clayout m t)))
    \<and> MateCORBA_alloc_by_tc m t = Inr (fst (clayout m t))"
  using laid_outD[OF assms] by (simp add: alloc_of_gather)

definition sample_union_tc :: "u32 \<Rightarrow> tc" where
  "sample_union_tc n = TC (Heap 1) ((zero_fields tk_union)\<lparr> c_align := 8, sub_parts := 4,
     sublabels := [97, 98, 99, 100], default_index := - 1 \<rparr>)
     [Some (basic_tc x86_64 tk_double), Some (basic_tc x86_64 tk_char), Some (basic_tc x86_64 tk_short),
      Some (TC (Heap 2) ((zero_fields tk_array)\<lparr> c_align := 1, tc_length := n, sub_parts := 1 \<rparr>)
        [Some (basic_tc x86_64 tk_octet)] None)]
     (Some (basic_tc x86_64 tk_char))"

definition sample_layout_tc :: tc where
  "sample_layout_tc = TC (Heap 3) ((zero_fields tk_struct)\<lparr> c_align := 8, sub_parts := 3 \<rparr>)
     [Some (basic_tc x86_64 tk_octet), Some (basic_tc x86_64 tk_double),
      Some (TC (Heap 4) ((zero_fields tk_union)\<lparr> c_align := 8, sub_parts := 2 \<rparr>)
        [Some (basic_tc x86_64 tk_octet), Some (basic_tc x86_64 tk_double)] (Some (basic_tc x86_64 tk_long)))] None"

lemma x86_64_ok: "abi_ok x86_64"
  by (simp add: abi_ok_def x86_64_def alignments_def)

lemmas layout_eval = basic_tc_def basic_tc_align_def x86_64_def scalar_size_def c_scalar_align_def
  zero_fields_def ALIGN_VALUE_def Let_def

theorem native_size_is_c_size_witness:
  "laid_out x86_64 sample_layout_tc \<and> MateCORBA_alloc_by_tc x86_64 sample_layout_tc = Inr 32"
proof -
  have l: "laid_out x86_64 sample_layout_tc"
    by (simp add: sample_layout_tc_def layout_eval)
  moreover have "fst (clayout x86_64 sample_layout_tc) = 32"
    by (simp add: sample_layout_tc_def layout_eval)
  ultimately show ?thesis using native_size_is_c_size[OF x86_64_ok l] by simp
qed

text \<open>C22. For a union of a double, a char, a short and an octet array, in this order, the computed size
  follows the alignment of the short: when the array's length is one to six above a multiple of eight, the
  array, which starts at offset 8, does not fit in the memory that is allocated for the union.\<close>

theorem union_allocated_too_small:
  assumes n: "8 \<le> unat n" "unat n mod 8 \<in> {1..6}" "unat n < 2 ^ 30"
  shows "\<exists>s. MateCORBA_alloc_by_tc x86_64 (sample_union_tc n) = Inr s \<and> s < 8 + unat n
    \<and> fst (clayout x86_64 (sample_union_tc n)) = ALIGN_VALUE (8 + unat n) 8"
proof -
  let ?m = x86_64 and ?n = "unat n"
  define subs where "subs = subtypes (sample_union_tc n)"
  have "all_types (laid_out ?m) subs"
    using n by (simp add: all_types_def subs_def sample_union_tc_def layout_eval)
  then have right: "all_types (sized_right ?m) subs"
    using laid_out_sized[OF x86_64_ok] unfolding all_types_def by blast
  have "fst (widest ?m 0 1 subs) = ?n" "ascent ?m 1 1 subs = 2"
    using n by (simp_all add: subs_def sample_union_tc_def layout_eval max_def)
  moreover have "None \<notin> set subs" "length subs = 4" by (simp_all add: subs_def sample_union_tc_def)
  ultimately obtain n' where u: "gather_union ?m 1 None 0 4 subs = Inr (n', of_nat ?n)"
      "case_option 1 (\<lambda>x. x) n' = 2"
    using gather_union_widest[OF x86_64_ok right, of 0 None 1 1] by auto
  then have u: "gather_union ?m 1 None 0 4 subs = Inr (Some 2, of_nat ?n)" by (cases n') auto
  have b: "2 \<in> alignments" "8 \<in> alignments" by (simp_all add: alignments_def)
  have a1: "align_int 1 2 = 2" using align_int_nat[OF b(1), of 1] by (simp add: ALIGN_VALUE_def)
  have s1: "scast (of_nat ?n :: u32) = (of_nat ?n :: u64)" using n by (intro scast_small) simp
  have a2: "add_size 2 (of_nat ?n) = of_nat (2 + ?n)"
    using add_size_nat[of 2 ?n] by (simp only: of_nat_numeral) simp
  have al: "ALIGN_VALUE (2 + ?n) 8 = ?n div 8 * 8 + 8"
    using n(2) unfolding ALIGN_VALUE_def by simp presburger
  have a3: "(scast (align_int (of_nat (2 + ?n)) 8) :: u64) = of_nat (ALIGN_VALUE (2 + ?n) 8)"
    using gather_aligned[OF b(2), of "2 + ?n"] n(3) al by simp
  have "MateCORBA_gather_alloc_info ?m (sample_union_tc n) = Inr (of_nat (ALIGN_VALUE (2 + ?n) 8))"
    using u a1 a2 a3 s1
    by (simp add: sample_union_tc_def subs_def Let_def zero_fields_def basic_tc_def scalar_size_def)
  then have "MateCORBA_alloc_by_tc ?m (sample_union_tc n) = Inr (ALIGN_VALUE (2 + ?n) 8)"
    by (rule alloc_of_gather) (use al n(3) in simp)
  moreover have "ALIGN_VALUE (2 + ?n) 8 < 8 + ?n"
  proof -
    have "0 < ?n mod 8" using n(2) by simp
    then show ?thesis unfolding al using div_mult_mod_eq[of ?n 8] by linarith
  qed
  moreover have "fst (clayout ?m (sample_union_tc n)) = ALIGN_VALUE (8 + ?n) 8"
  proof -
    have "fst (clayout ?m (sample_union_tc n)) = ALIGN_VALUE (8 + ALIGN_VALUE ?n 8) 8"
      using n(1) by (simp add: sample_union_tc_def basic_tc_def basic_tc_align_def x86_64_def
          scalar_size_def c_scalar_align_def zero_fields_def ALIGN_VALUE_def[of "Suc 0"] max_def Let_def)
    also have "\<dots> = ALIGN_VALUE (8 + ?n) 8" by (rule ALIGN_absorb) simp_all
    finally show ?thesis .
  qed
  ultimately show ?thesis by blast
qed

theorem union_allocated_too_small_witness:
  "\<exists>s. MateCORBA_alloc_by_tc x86_64 (sample_union_tc 14) = Inr s \<and> s < 8 + unat (14 :: u32)
    \<and> fst (clayout x86_64 (sample_union_tc 14)) = ALIGN_VALUE (8 + unat (14 :: u32)) 8"
  by (rule union_allocated_too_small) simp_all

text \<open>C23. The size of a block for several values is a product of 32-bit numbers: the block has room for
  \<open>n\<close> values exactly when \<open>n\<close> times their size is below 4 GiB. For the first 4096 elements of a sequence
  of values of 1 MiB, which a message can announce with a few bytes each, nothing at all is allocated.\<close>

theorem sequence_allocation_wraps:
  assumes "abi_ok m" "laid_out m t" "0 < fst (clayout m t)" "n \<noteq> 0"
  shows "\<exists>s. MateCORBA_alloc_tcval m t n = Inr s \<and> s = fst (clayout m t) * unat n mod 2 ^ 32
    \<and> (fst (clayout m t) * unat n \<le> s \<longleftrightarrow> fst (clayout m t) * unat n < 2 ^ 32)"
proof -
  note g = laid_outD[OF assms(1,2)]
  let ?s = "fst (clayout m t)"
  have e: "ucast (of_nat ?s :: u64) = (of_nat ?s :: u32)" by (rule ucast_of_nat)
  have "unat (of_nat ?s :: u32) = ?s" unfolding unat_of_nat_32 using g(2) by simp
  then have nz: "(of_nat ?s :: u32) \<noteq> 0" using assms(3) by (metis unat_0 less_numeral_extra(3))
  have "(of_nat ?s * n :: u32) = of_nat (?s * unat n)" by simp
  then have "unat (of_nat ?s * n :: u32) = ?s * unat n mod 2 ^ 32" by (simp only: unat_of_nat_32)
  then have "MateCORBA_alloc_tcval m t n = Inr (?s * unat n mod 2 ^ 32)"
    using g assms(4) e nz by (simp add: MateCORBA_alloc_tcval_def Let_def)
  moreover have "(k \<le> k mod 2 ^ 32) = (k < 2 ^ 32)" for k :: nat
  proof
    assume "k \<le> k mod 2 ^ 32"
    also have "\<dots> < 2 ^ 32" by simp
    finally show "k < 2 ^ 32" .
  qed simp
  ultimately show ?thesis by blast
qed

theorem sequence_allocation_wraps_witness:
  "\<exists>s. MateCORBA_alloc_tcval x86_64 (TC (Heap 0) ((zero_fields tk_array)\<lparr> c_align := 1, tc_length := 0x100000,
       sub_parts := 1 \<rparr>) [Some (basic_tc x86_64 tk_octet)] None) 4096 = Inr s \<and> s = 0"
proof -
  define t where "t = TC (Heap 0) ((zero_fields tk_array)\<lparr> c_align := 1, tc_length := 0x100000, sub_parts := 1 \<rparr>)
    [Some (basic_tc x86_64 tk_octet)] None"
  have "laid_out x86_64 t" "fst (clayout x86_64 t) = 0x100000"
    by (simp_all add: t_def layout_eval)
  then show ?thesis
    using sequence_allocation_wraps[OF x86_64_ok, of t 4096] by (simp add: t_def)
qed

end
