(* ===== verification/Any_Value.thy ===== *)
theory Any_Value imports Typecode_Round Iop_Objects Layout begin

text \<open>
  Values described by TypeCodes (\<^verbatim>\<open>corba-any.c\<close>): marshalling, demarshalling, copying and
  comparison, all driven by the TypeCode. A native value is the tree of what its memory holds; where
  in memory the parts lie, and how large the memory is, is the subject of the theory
  \<^verbatim>\<open>Layout\<close>. Memory that holds something else than the TypeCode says is an \<open>Overrun\<close>.
  Pointers to TypeCode structures that are NULL end the process when they are followed.
\<close>

section \<open>Values\<close>

text \<open>
  The scalars by their width: floating point numbers are their images, a long double its sixteen
  bytes, least significant first. A string is its block, a wide string the words of its block. A
  Principal has its \<^verbatim>\<open>_maximum\<close> beside its octets. An object reference is \<open>None\<close> when nil.
\<close>

datatype cval = Void | Octet byte | Short u16 | Long u32 | LongLong u64 | LongDouble "byte list"
  | String cblock | WString "u16 list" | Any tc cval | Principal u32 "byte list"
  | Objref "objref option" | TypeCode "tc option" | Struct "cval list" | Union cval cval
  | Sequence "cval list" | Array "cval list"

definition small_kinds :: "TCKind set" where "small_kinds = {tk_boolean, tk_char, tk_octet}"

section \<open>The member of a union\<close>

text \<open>
  \<^verbatim>\<open>MateCORBA_get_union_switch\<close>: the discriminator as a \<^verbatim>\<open>glong\<close>. A value is read through a
  pointer to a signed type of the width of its kind, but for the one-byte kinds.
\<close>

fun MateCORBA_get_union_switch :: "tc \<Rightarrow> cval \<Rightarrow> int res" where
  "MateCORBA_get_union_switch (TC a f subs d) v = (case kind f of
     tk_alias \<Rightarrow> (case subs of Some t # _ \<Rightarrow> MateCORBA_get_union_switch t v | _ \<Rightarrow> Inl Abort)
   | tk_ulong \<Rightarrow> (case v of Long w \<Rightarrow> Inr (sint w) | _ \<Rightarrow> Inl Overrun)
   | tk_long \<Rightarrow> (case v of Long w \<Rightarrow> Inr (sint w) | _ \<Rightarrow> Inl Overrun)
   | tk_enum \<Rightarrow> (case v of Long w \<Rightarrow> Inr (sint w) | _ \<Rightarrow> Inl Overrun)
   | tk_ushort \<Rightarrow> (case v of Short w \<Rightarrow> Inr (sint w) | _ \<Rightarrow> Inl Overrun)
   | tk_short \<Rightarrow> (case v of Short w \<Rightarrow> Inr (sint w) | _ \<Rightarrow> Inl Overrun)
   | tk_char \<Rightarrow> (case v of Octet w \<Rightarrow> Inr (uint w) | _ \<Rightarrow> Inl Overrun)
   | tk_boolean \<Rightarrow> (case v of Octet w \<Rightarrow> Inr (uint w) | _ \<Rightarrow> Inl Overrun)
   | tk_octet \<Rightarrow> (case v of Octet w \<Rightarrow> Inr (uint w) | _ \<Rightarrow> Inl Overrun)
   | _ \<Rightarrow> Inl Abort)"

text \<open>
  The loop of \<^verbatim>\<open>MateCORBA_get_union_tag\<close> over the labels: the index it stops at, passing over the
  default.
\<close>

fun find_label :: "int \<Rightarrow> int \<Rightarrow> nat \<Rightarrow> nat \<Rightarrow> u32 list \<Rightarrow> nat option res" where
  "find_label dflt discrim_val i 0 labels = Inr None"
| "find_label dflt discrim_val i (Suc n) [] = Inl Overrun"
| "find_label dflt discrim_val i (Suc n) (l # labels) =
     (if int i \<noteq> dflt \<and> sint l = discrim_val then Inr (Some i)
      else find_label dflt discrim_val (Suc i) n labels)"

text \<open>
  The member the value of the discriminator selects: \<open>None\<close> when the union has no member for it
  (\<^verbatim>\<open>TC_null\<close>). A NULL member type counts as not found. The index of the default is not compared
  with the number of members.
\<close>

definition union_member :: "tc \<Rightarrow> cval \<Rightarrow> nat option res" where
  "union_member union_tc v = (case discriminator union_tc of None \<Rightarrow> Inl Abort
   | Some e \<Rightarrow> rbind (MateCORBA_get_union_switch e v) (\<lambda>discrim_val.
     let dflt = sint (default_index (tc_fields union_tc)) in
     rbind (find_label dflt discrim_val 0 (parts union_tc) (sublabels (tc_fields union_tc))) (\<lambda>found.
       case found of
         Some i \<Rightarrow> if i \<ge> length (subtypes union_tc) then Inl Overrun
           else if subtypes union_tc ! i \<noteq> None then Inr (Some i)
           else if dflt \<ge> 0 then Inr (Some (nat dflt)) else Inr None
       | None \<Rightarrow> if dflt \<ge> 0 then Inr (Some (nat dflt)) else Inr None)))"

fun nth_type :: "nat \<Rightarrow> tc option list \<Rightarrow> tc res" where
  "nth_type i [] = Inl Overrun"
| "nth_type 0 (x # xs) = deref x"
| "nth_type (Suc i) (x # xs) = nth_type i xs"

definition MateCORBA_get_union_tag :: "abi \<Rightarrow> tc \<Rightarrow> cval \<Rightarrow> tc res" where
  "MateCORBA_get_union_tag m union_tc v = rbind (union_member union_tc v) (\<lambda>r. case r of
     None \<Rightarrow> Inr (basic_tc m tk_null) | Some i \<Rightarrow> nth_type i (subtypes union_tc))"

section \<open>Marshalling\<close>

text \<open>\<^verbatim>\<open>CORBA_wstring_len\<close> and the words it counts.\<close>

definition w_text :: "u16 list \<Rightarrow> u16 list" where "w_text ws = takeWhile (\<lambda>c. c \<noteq> 0) ws"

definition CORBA_wstring_len :: "u16 list \<Rightarrow> u32 res" where
  "CORBA_wstring_len ws = (if ws = [] then Inl Abort else if 0 \<in> set ws
     then Inr (of_nat (length (w_text ws))) else Inl Overrun)"

definition marshal_wstring :: "u16 list \<Rightarrow> sbuf \<Rightarrow> sbuf res" where
  "marshal_wstring ws b = rbind (CORBA_wstring_len ws) (\<lambda>len.
     let ulval = (len + 1) * 2;
         b = sb_append_aligned (u32_bytes (s_host b) ulval) b;
         b = sb_append (u16_bytes (s_host b) 0xfeff) b
     in Inr (sb_append (slice 0 (unat (ulval - 2)) (concat (map (u16_bytes (s_host b)) ws))) b))"

text \<open>
  A Principal: the first word of the structure is \<^verbatim>\<open>_maximum\<close>, taken for the length, and what lies
  four bytes into it is not the pointer to the octets.
\<close>

definition marshal_principal :: "u32 \<Rightarrow> sbuf \<Rightarrow> sbuf res" where
  "marshal_principal ulval b = (let b = sb_append (u32_bytes (s_host b) ulval) b
     in if ulval = 0 then Inr b else Inl Overrun)"

definition marshal_scalar :: "TCKind \<Rightarrow> cval \<Rightarrow> sbuf \<Rightarrow> sbuf res" where
  "marshal_scalar k v b = (case v of
     Short w \<Rightarrow> if k \<in> {tk_wchar, tk_ushort, tk_short}
       then Inr (sb_append_aligned (u16_bytes (s_host b) w) b) else Inl Overrun
   | Long w \<Rightarrow> if k \<in> {tk_enum, tk_long, tk_ulong, tk_float}
       then Inr (sb_append_aligned (u32_bytes (s_host b) w) b) else Inl Overrun
   | LongLong w \<Rightarrow> if k \<in> {tk_longlong, tk_ulonglong, tk_double}
       then Inr (sb_append_aligned (u64_bytes (s_host b) w) b) else Inl Overrun
   | LongDouble bs \<Rightarrow> if k = tk_longdouble \<and> length bs = sizeof_long_double
       then Inr (sb_append_aligned (in_order (s_host b) bs) b) else Inl Overrun
   | Octet c \<Rightarrow> if k \<in> small_kinds then Inr (sb_append [c] b) else Inl Overrun
   | _ \<Rightarrow> Inl Overrun)"

text \<open>The octets of a sequence or array that is written in one piece.\<close>

fun octets_of :: "cval list \<Rightarrow> byte list res" where
  "octets_of [] = Inr []"
| "octets_of (Octet c # vs) = rbind (octets_of vs) (\<lambda>cs. Inr (c # cs))"
| "octets_of (_ # vs) = Inl Overrun"

text \<open>
  \<^verbatim>\<open>MateCORBA_marshal_value\<close>; \<open>orb_profiles\<close> are those of the ORB's servers, for objects that have
  not been marshalled before. The elements of a sequence or array are marshalled one by one unless
  they are of a one-byte kind (an alias of such a kind is not).
\<close>

function (sequential) MateCORBA_marshal_value :: "abi \<Rightarrow> profile list \<Rightarrow> tc \<Rightarrow> cval \<Rightarrow> sbuf \<Rightarrow> sbuf res"
  and marshal_members :: "abi \<Rightarrow> profile list \<Rightarrow> nat \<Rightarrow> tc option list \<Rightarrow> cval list \<Rightarrow> sbuf \<Rightarrow> sbuf res"
  and marshal_elements :: "abi \<Rightarrow> profile list \<Rightarrow> tc \<Rightarrow> nat \<Rightarrow> cval list \<Rightarrow> sbuf \<Rightarrow> sbuf res" where
  "MateCORBA_marshal_value m orb_profiles (TC a f subs d) v b = (case kind f of
     tk_alias \<Rightarrow> (case subs of Some t # _ \<Rightarrow> MateCORBA_marshal_value m orb_profiles t v b | _ \<Rightarrow> Inl Abort)
   | tk_any \<Rightarrow> (case v of Any t w \<Rightarrow> rbind (MateCORBA_encode_CORBA_TypeCode t b)
         (MateCORBA_marshal_value m orb_profiles t w)
       | _ \<Rightarrow> Inl Overrun)
   | tk_Principal \<Rightarrow> (case v of Principal mx bs \<Rightarrow> marshal_principal mx b | _ \<Rightarrow> Inl Overrun)
   | tk_objref \<Rightarrow> (case v of Objref obj \<Rightarrow> MateCORBA_marshal_object orb_profiles obj b | _ \<Rightarrow> Inl Overrun)
   | tk_TypeCode \<Rightarrow> (case v of TypeCode p \<Rightarrow> rbind (deref p) (\<lambda>t. MateCORBA_encode_CORBA_TypeCode t b) | _ \<Rightarrow> Inl Overrun)
   | tk_except \<Rightarrow> (case v of Struct vs \<Rightarrow> marshal_members m orb_profiles (unat (sub_parts f)) subs vs b
       | _ \<Rightarrow> Inl Overrun)
   | tk_struct \<Rightarrow> (case v of Struct vs \<Rightarrow> marshal_members m orb_profiles (unat (sub_parts f)) subs vs b
       | _ \<Rightarrow> Inl Overrun)
   | tk_union \<Rightarrow> (case v of Union discrim body \<Rightarrow> (case d of None \<Rightarrow> Inl Abort
       | Some e \<Rightarrow> rbind (MateCORBA_marshal_value m orb_profiles e discrim b) (\<lambda>b.
           rbind (union_member (TC a f subs d) discrim) (\<lambda>r.
           rbind (gather_union m 1 None 0 (unat (sub_parts f)) subs) (\<lambda>_. case r of None \<Rightarrow> Inr b
           | Some i \<Rightarrow> rbind (nth_type i subs) (\<lambda>t. MateCORBA_marshal_value m orb_profiles t body b)))))
       | _ \<Rightarrow> Inl Overrun)
   | tk_wstring \<Rightarrow> (case v of WString ws \<Rightarrow> marshal_wstring ws b | _ \<Rightarrow> Inl Overrun)
   | tk_string \<Rightarrow> (case v of String s \<Rightarrow> rbind (c_strlen s) (\<lambda>_. Inr (sb_append_string s b))
       | _ \<Rightarrow> Inl Overrun)
   | tk_sequence \<Rightarrow> (case v of Sequence vs \<Rightarrow>
         let b = sb_append (u32_bytes (s_host b) (of_nat (length vs))) (sb_align 4 b)
         in (case subs of Some t # _ \<Rightarrow> marshal_elements m orb_profiles t (length vs) vs b | _ \<Rightarrow> Inl Abort)
       | _ \<Rightarrow> Inl Overrun)
   | tk_array \<Rightarrow> (case v of Array vs \<Rightarrow> (case subs of
           Some t # _ \<Rightarrow> marshal_elements m orb_profiles t (unat (tc_length f)) vs b | _ \<Rightarrow> Inl Abort)
       | _ \<Rightarrow> Inl Overrun)
   | tk_null \<Rightarrow> Inr b
   | tk_void \<Rightarrow> Inr b
   | _ \<Rightarrow> if kind f \<in> {tk_fixed, tk_value, tk_value_box, tk_native, tk_abstract_interface, tk_recursive}
       then Inl Abort else marshal_scalar (kind f) v b)"
| "marshal_members m orb_profiles 0 subs vs b = Inr b"
| "marshal_members m orb_profiles (Suc n) (Some t # subs) (v # vs) b =
     rbind (MateCORBA_marshal_value m orb_profiles t v b) (\<lambda>b.
     rbind (MateCORBA_gather_alloc_info m t) (\<lambda>_. marshal_members m orb_profiles n subs vs b))"
| "marshal_members m orb_profiles (Suc n) (None # subs) vs b = Inl Abort"
| "marshal_members m orb_profiles (Suc n) _ _ b = Inl Overrun"
| "marshal_elements m orb_profiles t n vs b = (if tc_kind t \<in> small_kinds
     then (if length vs < n then Inl Overrun
       else rbind (octets_of (take n vs)) (\<lambda>cs. Inr (sb_append cs b)))
     else case n of 0 \<Rightarrow> Inr b | Suc n' \<Rightarrow> (case vs of [] \<Rightarrow> Inl Overrun
       | v # vs' \<Rightarrow> rbind (MateCORBA_marshal_value m orb_profiles t v b)
           (marshal_elements m orb_profiles t n' vs')))"
  by pat_completeness auto

termination
  by (relation "measures [\<lambda>x. case x of Inl (_, _, t, v, _) \<Rightarrow> 2 * size v
        | Inr (Inl (_, _, _, ts, vs, _)) \<Rightarrow> 2 * size_list size vs + 1
        | Inr (Inr (_, _, t, n, vs, _)) \<Rightarrow> 2 * size_list size vs + 1,
      \<lambda>x. case x of Inl (_, _, t, v, _) \<Rightarrow> size t | _ \<Rightarrow> 0]") auto

definition MateCORBA_marshal_arg :: "abi \<Rightarrow> profile list \<Rightarrow> cval \<Rightarrow> tc \<Rightarrow> sbuf \<Rightarrow> sbuf res" where
  "MateCORBA_marshal_arg m orb_profiles v t b = MateCORBA_marshal_value m orb_profiles t v b"

definition MateCORBA_marshal_any :: "abi \<Rightarrow> profile list \<Rightarrow> tc \<Rightarrow> cval \<Rightarrow> sbuf \<Rightarrow> sbuf res" where
  "MateCORBA_marshal_any m orb_profiles t v b = rbind (MateCORBA_encode_CORBA_TypeCode t b)
     (MateCORBA_marshal_value m orb_profiles t v)"

section \<open>Demarshalling\<close>

text \<open>\<^verbatim>\<open>giop_byteswap\<close> turns the bytes round; a long double is copied or turned.\<close>

definition giop_byteswap :: "byte list \<Rightarrow> byte list" where "giop_byteswap bs = rev bs"

definition rd_long_double :: "byte list reader" where
  "rd_long_double b = rd_bind (rd_bytes sizeof_long_double) (\<lambda>m. rd_ret (in_order (r_host b)
     (if giop_msg_conversion_needed b then giop_byteswap m else m))) b"

definition rd_checked :: "nat \<Rightarrow> 'a reader \<Rightarrow> 'a reader" where
  "rd_checked n m = rd_bind (rd_align n) (\<lambda>_. rd_bind (rd_need n) (\<lambda>_. m))"

definition demarshal_scalar :: "TCKind \<Rightarrow> cval reader" where
  "demarshal_scalar k = (if k \<in> {tk_short, tk_ushort, tk_wchar}
       then rd_bind (rd_checked 2 rd_u16) (\<lambda>w. rd_ret (Short w))
     else if k \<in> {tk_long, tk_ulong, tk_enum, tk_float}
       then rd_bind (rd_checked 4 rd_u32) (\<lambda>w. rd_ret (Long w))
     else if k \<in> {tk_longlong, tk_ulonglong, tk_double}
       then rd_bind (rd_checked 8 rd_u64) (\<lambda>w. rd_ret (LongLong w))
     else if k = tk_longdouble
       then rd_bind (rd_checked sizeof_long_double rd_long_double) (\<lambda>bs. rd_ret (LongDouble bs))
     else if k \<in> small_kinds
       then rd_bind (rd_need 1) (\<lambda>_. rd_bind rd_byte (\<lambda>c. rd_ret (Octet c)))
     else rd_fail Broken)"

definition demarshal_principal :: "cval reader" where
  "demarshal_principal = rd_bind rd_octets (\<lambda>bs. rd_ret (Principal 0 bs))"

text \<open>
  The length of a string is a signed 32-bit number, and a negative one takes the end of the string
  before its start. What is copied is everything up to the first NUL, wherever it is.
\<close>

definition rd_signed_length :: "nat reader" where
  "rd_signed_length = rd_bind rd_ulong (\<lambda>i. if sint i < 0 then rd_fail Broken
     else rd_bind (rd_need (unat i)) (\<lambda>_. rd_ret (unat i)))"

definition rd_string_dup :: "cblock reader" where
  "rd_string_dup b = rbind (g_strdup (drop (r_cur b) (r_mem b))) (\<lambda>s.
     if s = [] then Inl Overrun else Inr (s, b))"

definition rd_skip :: "nat \<Rightarrow> unit reader" where
  "rd_skip n b = Inr ((), b\<lparr> r_cur := r_cur b + n \<rparr>)"

definition demarshal_string :: "cval reader" where
  "demarshal_string = rd_bind rd_signed_length (\<lambda>i. rd_bind rd_string_dup (\<lambda>s.
     rd_bind (rd_skip i) (\<lambda>_. rd_ret (String s))))"

text \<open>
  A wide string may start with a mark of its byte order; without one it is big endian. Of an odd
  length the last byte is dropped when the words are swapped; otherwise it is half of a word whose
  other half is what the allocator left there, taken as 0 here.
\<close>

fun mem_words :: "endian \<Rightarrow> byte list \<Rightarrow> u16 list" where
  "mem_words e (a # c # bs) = mem_word e [a, c] # mem_words e bs"
| "mem_words e [a] = [mem_word e [a, 0]]"
| "mem_words e [] = []"

definition demarshal_wstring :: "cval reader" where
  "demarshal_wstring = rd_bind rd_signed_length (\<lambda>i b.
     rbind (if i \<ge> 2 then rd_bytes 2 b else Inr ([], b)) (\<lambda>(m, b').
     let mark = mem_word (r_host b) m :: u16;
         marked = (i \<ge> 2 \<and> (mark = 0xfeff \<or> mark = 0xfffe));
         swap = (if marked then mark = 0xfffe else mem_word (r_host b) [0xfe, 0xff] = (0xfffe :: u16));
         b = (if marked then b' else b); i = (if marked then i - 2 else i)
     in rd_bind (rd_bytes i) (\<lambda>bs. rd_ret (WString ((if swap
           then map GUINT16_SWAP_LE_BE (mem_words (r_host b) (take (i div 2 * 2) bs))
           else mem_words (r_host b) bs) @ [0]))) b))"

text \<open>
  \<^verbatim>\<open>MateCORBA_demarshal_object\<close>, with a reference for a value: the type id is read as a string
  where it stands in the message. Which object of the process stands for the reference is the
  subject of \<^verbatim>\<open>Iop_Objects\<close>.
\<close>

definition MateCORBA_demarshal_object :: "objref option reader" where
  "MateCORBA_demarshal_object = rd_bind (MateCORBA_demarshal_IOR CodeSetComponent_demarshal) (\<lambda>r b. case r of
     None \<Rightarrow> Inr (None, b)
   | Some (type_id, profiles) \<Rightarrow> rbind (g_strdup (drop type_id (r_mem b))) (\<lambda>tid.
       rbind (reference tid profiles) (\<lambda>obj. Inr (Some obj, b))))"

text \<open>
  A TypeCode in a message: TRUE of the decoder is a clean failure. New structures get addresses
  after their position in the message, so that those of two TypeCodes of a message differ.
\<close>

definition rd_typecode :: "abi \<Rightarrow> bool \<Rightarrow> tc option reader" where
  "rd_typecode m lp64 b = rd_bind (MateCORBA_decode_CORBA_TypeCode m lp64 (r_cur b)) (\<lambda>r. case r of
     None \<Rightarrow> rd_fail Broken | Some p \<Rightarrow> rd_ret p) b"

definition rd_deref :: "'a option reader \<Rightarrow> 'a reader" where
  "rd_deref m = rd_bind m (\<lambda>p. case p of None \<Rightarrow> rd_fail Abort | Some x \<Rightarrow> rd_ret x)"

definition rd_lift :: "'a res \<Rightarrow> 'a reader" where
  "rd_lift r b = rbind r (\<lambda>x. Inr (x, b))"

text \<open>\<^verbatim>\<open>MateCORBA_demarshal_any\<close>: the TypeCode, memory for a value of it, and the value.\<close>

definition MateCORBA_demarshal_any :: "abi \<Rightarrow> tc reader \<Rightarrow> (tc \<Rightarrow> cval reader) \<Rightarrow> cval reader" where
  "MateCORBA_demarshal_any m rd_tc val = rd_bind rd_tc (\<lambda>t.
     rd_bind (rd_lift (MateCORBA_alloc_by_tc m t)) (\<lambda>_. rd_bind (val t) (\<lambda>v. rd_ret (Any t v))))"

text \<open>
  \<^verbatim>\<open>MateCORBA_demarshal_value\<close>, with the number of anys it may descend through as fuel: each has a
  TypeCode of its own.
\<close>

function (sequential) MateCORBA_demarshal_value :: "abi \<Rightarrow> bool \<Rightarrow> nat \<Rightarrow> tc \<Rightarrow> cval reader"
  and demarshal_members :: "abi \<Rightarrow> bool \<Rightarrow> nat \<Rightarrow> nat \<Rightarrow> tc option list \<Rightarrow> cval list reader"
  and demarshal_nth :: "abi \<Rightarrow> bool \<Rightarrow> nat \<Rightarrow> nat \<Rightarrow> tc option list \<Rightarrow> cval reader" where
  "MateCORBA_demarshal_value m lp64 n (TC a f subs d) = (case kind f of
     tk_alias \<Rightarrow> (case subs of Some t # _ \<Rightarrow> MateCORBA_demarshal_value m lp64 n t | _ \<Rightarrow> rd_fail Abort)
   | tk_any \<Rightarrow> (case n of 0 \<Rightarrow> rd_fail Abort | Suc n' \<Rightarrow>
       MateCORBA_demarshal_any m (rd_deref (rd_typecode m lp64)) (\<lambda>t. MateCORBA_demarshal_value m lp64 n' t))
   | tk_Principal \<Rightarrow> demarshal_principal
   | tk_objref \<Rightarrow> rd_bind MateCORBA_demarshal_object (\<lambda>obj. rd_ret (Objref obj))
   | tk_TypeCode \<Rightarrow> rd_bind (rd_typecode m lp64) (\<lambda>p. rd_ret (TypeCode p))
   | tk_except \<Rightarrow> rd_bind (demarshal_members m lp64 n (unat (sub_parts f)) subs) (\<lambda>vs. rd_ret (Struct vs))
   | tk_struct \<Rightarrow> rd_bind (demarshal_members m lp64 n (unat (sub_parts f)) subs) (\<lambda>vs. rd_ret (Struct vs))
   | tk_union \<Rightarrow> (case d of None \<Rightarrow> rd_fail Abort | Some e \<Rightarrow>
       rd_bind (MateCORBA_demarshal_value m lp64 n e) (\<lambda>discrim.
       rd_bind (rd_lift (union_member (TC a f subs d) discrim)) (\<lambda>r.
       rd_bind (rd_lift (gather_union m 1 None 0 (unat (sub_parts f)) subs)) (\<lambda>_. case r of
         None \<Rightarrow> rd_ret (Union discrim Void)
       | Some i \<Rightarrow> rd_bind (demarshal_nth m lp64 n i subs) (\<lambda>body. rd_ret (Union discrim body))))))
   | tk_string \<Rightarrow> demarshal_string
   | tk_wstring \<Rightarrow> demarshal_wstring
   | tk_sequence \<Rightarrow> rd_bind rd_ulong (\<lambda>len. if len = 0 then rd_ret (Sequence []) else (case subs of
       Some t # _ \<Rightarrow> if tc_kind t \<in> small_kinds
         then rd_bind (rd_need (unat len)) (\<lambda>_. rd_bind (rd_bytes (unat len)) (\<lambda>cs.
           rd_ret (Sequence (map Octet cs))))
         else rd_bind (rd_lift (MateCORBA_alloc_tcval m t (min len 4096))) (\<lambda>_.
           rd_bind (rd_loop (MateCORBA_demarshal_value m lp64 n t) (unat len)) (\<lambda>vs. rd_ret (Sequence vs)))
     | _ \<Rightarrow> rd_fail Abort))
   | tk_array \<Rightarrow> (case subs of Some t # _ \<Rightarrow>
       rd_bind (rd_loop (MateCORBA_demarshal_value m lp64 n t) (unat (tc_length f))) (\<lambda>vs. rd_ret (Array vs))
     | _ \<Rightarrow> if tc_length f = 0 then rd_ret (Array []) else rd_fail Abort)
   | tk_void \<Rightarrow> rd_ret Void
   | tk_null \<Rightarrow> rd_ret Void
   | _ \<Rightarrow> demarshal_scalar (kind f))"
| "demarshal_members m lp64 n 0 subs = rd_ret []"
| "demarshal_members m lp64 n (Suc k) (Some t # subs) = rd_bind (MateCORBA_demarshal_value m lp64 n t)
     (\<lambda>v. rd_bind (rd_lift (MateCORBA_gather_alloc_info m t)) (\<lambda>_.
       rd_bind (demarshal_members m lp64 n k subs) (\<lambda>vs. rd_ret (v # vs))))"
| "demarshal_members m lp64 n (Suc k) (None # subs) = rd_fail Abort"
| "demarshal_members m lp64 n (Suc k) [] = rd_fail Overrun"
| "demarshal_nth m lp64 n i [] = rd_fail Overrun"
| "demarshal_nth m lp64 n 0 (x # subs) = (case x of None \<Rightarrow> rd_fail Abort
     | Some t \<Rightarrow> MateCORBA_demarshal_value m lp64 n t)"
| "demarshal_nth m lp64 n (Suc i) (x # subs) = demarshal_nth m lp64 n i subs"
  by pat_completeness auto

termination
  by (relation "measures [\<lambda>x. case x of Inl (_, _, n, _) \<Rightarrow> n | Inr (Inl (_, _, n, _)) \<Rightarrow> n
        | Inr (Inr (_, _, n, _)) \<Rightarrow> n,
      \<lambda>x. case x of Inl (_, _, _, t) \<Rightarrow> size t | Inr (Inl (_, _, _, _, ts)) \<Rightarrow> size_list (size_option size) ts
        | Inr (Inr (_, _, _, _, ts)) \<Rightarrow> size_list (size_option size) ts]") auto

text \<open>\<^verbatim>\<open>MateCORBA_demarshal_arg\<close>: each any takes at least the four bytes of a kind.\<close>

definition MateCORBA_demarshal_arg :: "abi \<Rightarrow> bool \<Rightarrow> tc \<Rightarrow> cval reader" where
  "MateCORBA_demarshal_arg m lp64 t b = rd_bind (rd_lift (MateCORBA_alloc_by_tc m t)) (\<lambda>_.
     MateCORBA_demarshal_value m lp64 (Suc (r_end b - r_cur b)) t) b"

section \<open>Values of a type\<close>

definition scalar_of :: "TCKind \<Rightarrow> cval \<Rightarrow> bool" where
  "scalar_of k v = (case v of Short w \<Rightarrow> k \<in> {tk_wchar, tk_ushort, tk_short}
   | Long w \<Rightarrow> k \<in> {tk_enum, tk_long, tk_ulong, tk_float}
   | LongLong w \<Rightarrow> k \<in> {tk_longlong, tk_ulonglong, tk_double}
   | LongDouble bs \<Rightarrow> k = tk_longdouble \<and> length bs = sizeof_long_double
   | Octet c \<Rightarrow> k \<in> small_kinds | _ \<Rightarrow> False)"

text \<open>A wide string is a block that ends with its only zero word.\<close>

definition w_string :: "u16 list \<Rightarrow> bool" where
  "w_string ws \<longleftrightarrow> ws \<noteq> [] \<and> last ws = 0 \<and> 0 \<notin> set (butlast ws) \<and> length ws < 2 ^ 29"

function (sequential) typed :: "abi \<Rightarrow> tc \<Rightarrow> cval \<Rightarrow> bool"
  and typed_members :: "abi \<Rightarrow> tc option list \<Rightarrow> cval list \<Rightarrow> bool"
  and typed_elements :: "abi \<Rightarrow> tc \<Rightarrow> cval list \<Rightarrow> bool" where
  "typed m (TC a f subs d) v = (case kind f of
     tk_alias \<Rightarrow> (case subs of Some t # _ \<Rightarrow> typed m t v | _ \<Rightarrow> False)
   | tk_any \<Rightarrow> (case v of Any t w \<Rightarrow> tc_ok m t \<and> typed m t w | _ \<Rightarrow> False)
   | tk_objref \<Rightarrow> (case v of Objref obj \<Rightarrow> True | _ \<Rightarrow> False)
   | tk_TypeCode \<Rightarrow> (case v of TypeCode p \<Rightarrow> True | _ \<Rightarrow> False)
   | tk_struct \<Rightarrow> (case v of Struct vs \<Rightarrow> typed_members m subs vs | _ \<Rightarrow> False)
   | tk_except \<Rightarrow> (case v of Struct vs \<Rightarrow> typed_members m subs vs | _ \<Rightarrow> False)
   | tk_union \<Rightarrow> (case v of Union discrim body \<Rightarrow> (case d of None \<Rightarrow> False | Some e \<Rightarrow> typed m e discrim)
       \<and> (case union_member (TC a f subs d) discrim of Inl e \<Rightarrow> False
          | Inr None \<Rightarrow> body = Void
          | Inr (Some i) \<Rightarrow> (case nth_type i subs of Inl e \<Rightarrow> False | Inr t \<Rightarrow> typed m t body))
       | _ \<Rightarrow> False)
   | tk_wstring \<Rightarrow> (case v of WString ws \<Rightarrow> w_string ws | _ \<Rightarrow> False)
   | tk_string \<Rightarrow> (case v of String s \<Rightarrow> c_string s \<and> length s < 2 ^ 31 | _ \<Rightarrow> False)
   | tk_sequence \<Rightarrow> (case v of Sequence vs \<Rightarrow> length vs < 2 ^ 32
         \<and> (case subs of Some t # _ \<Rightarrow> typed_elements m t vs | _ \<Rightarrow> False)
       | _ \<Rightarrow> False)
   | tk_array \<Rightarrow> (case v of Array vs \<Rightarrow> length vs = unat (tc_length f)
         \<and> (case subs of Some t # _ \<Rightarrow> typed_elements m t vs | _ \<Rightarrow> False)
       | _ \<Rightarrow> False)
   | tk_null \<Rightarrow> v = Void
   | tk_void \<Rightarrow> v = Void
   | k \<Rightarrow> scalar_of k v)"
| "typed_members m [] vs = (vs = [])"
| "typed_members m (Some t # subs) (v # vs) = (typed m t v \<and> typed_members m subs vs)"
| "typed_members m _ _ = False"
| "typed_elements m t [] = True"
| "typed_elements m t (v # vs) = (typed m t v \<and> typed_elements m t vs)"
  by pat_completeness auto

termination
  by (relation "measures [\<lambda>x. case x of Inl (_, t, v) \<Rightarrow> 2 * size v
        | Inr (Inl (_, ts, vs)) \<Rightarrow> 2 * size_list size vs + 1
        | Inr (Inr (_, t, vs)) \<Rightarrow> 2 * size_list size vs + 1,
      \<lambda>x. case x of Inl (_, t, v) \<Rightarrow> size t | _ \<Rightarrow> 0]") auto

text \<open>
  What the code relies on beyond the shape: the kinds it can handle, and sizes it can compute. A
  well-formed TypeCode is complete, so the size of a value can be computed.
\<close>

lemma gather_defined: "tc_ok m t \<Longrightarrow> \<exists>s. MateCORBA_gather_alloc_info m t = Inr s"
proof (induction t)
  case (TC a f subs d)
  have subs: "\<forall>t. Some t \<in> set subs \<longrightarrow> (\<exists>s. MateCORBA_gather_alloc_info m t = Inr s)"
    using TC by (fastforce simp: list_all_iff)
  have loop_st: "\<exists>s. gather_struct m acc (length xs) xs = Inr s" if "set xs \<subseteq> set subs" for acc xs
    using that
  proof (induction xs arbitrary: acc)
    case (Cons x xs)
    obtain t where "x = Some t" using Cons.prems TC.prems by (cases x) auto
    moreover then obtain s where "MateCORBA_gather_alloc_info m t = Inr s" using Cons.prems subs by auto
    ultimately show ?case using Cons by simp
  qed simp
  have loop_un: "\<exists>s. gather_union m al n p (length xs) xs = Inr s" if "set xs \<subseteq> set subs" for al n p xs
    using that
  proof (induction xs arbitrary: al n p)
    case (Cons x xs)
    obtain t where "x = Some t" using Cons.prems TC.prems by (cases x) auto
    moreover then obtain s where "MateCORBA_gather_alloc_info m t = Inr s" using Cons.prems subs by auto
    ultimately show ?case using Cons by simp
  qed simp
  have d: "\<forall>t. d = Some t \<longrightarrow> (\<exists>s. MateCORBA_gather_alloc_info m t = Inr s)" using TC by auto
  have shape: "tc_shape m (TC a f subs d)" using TC.prems by simp
  have len: "kind f \<in> {tk_struct, tk_except, tk_union} \<Longrightarrow> length subs = unat (sub_parts f)"
    using shape by (auto simp: tc_shape_def)
  have head: "\<exists>t r. subs = Some t # r" if "kind f \<in> {tk_alias, tk_array}"
  proof -
    have "length subs = 1" "None \<notin> set subs" using shape that TC.prems by (auto simp: tc_shape_def)
    then show ?thesis by (cases subs; cases "hd subs") auto
  qed
  consider (st) "kind f = tk_struct \<or> kind f = tk_except" | (un) "kind f = tk_union"
    | (hd) "kind f = tk_alias \<or> kind f = tk_array"
    | (sc) "kind f \<notin> {tk_struct, tk_except, tk_union, tk_alias, tk_array}" by blast
  then show ?case
  proof cases
    case st
    then show ?thesis using loop_st[of subs 0] len by auto
  next
    case un
    then obtain e where "d = Some e" using shape by (auto simp: tc_shape_def)
    moreover obtain n p where "gather_union m 1 None 0 (length subs) subs = Inr (n, p)"
      using loop_un[of subs 1 None 0] by auto
    ultimately show ?thesis using un len d by (auto simp: Let_def)
  next
    case hd
    then obtain t r where "subs = Some t # r" using head by auto
    then show ?thesis using hd subs by auto
  next
    case sc
    then show ?thesis by (cases "kind f") simp_all
  qed
qed

lemma alloc_defined:
  "tc_ok m t \<Longrightarrow> \<exists>s. MateCORBA_alloc_by_tc m t = Inr s"
  "tc_ok m t \<Longrightarrow> \<exists>s. MateCORBA_alloc_tcval m t n = Inr s"
  using gather_defined[of m t] by (auto simp: MateCORBA_alloc_by_tc_def MateCORBA_alloc_tcval_def Let_def)

lemma gather_union_defined:
  "list_all (pred_option (tc_ok m)) subs \<Longrightarrow> None \<notin> set subs \<Longrightarrow>
     \<exists>s. gather_union m al n p (length subs) subs = Inr s"
proof (induction subs arbitrary: al n p)
  case (Cons x xs)
  obtain t where "x = Some t" "tc_ok m t" using Cons.prems by (cases x) auto
  moreover then obtain s where "MateCORBA_gather_alloc_info m t = Inr s" using gather_defined by blast
  ultimately show ?case using Cons by simp
qed simp

section \<open>Induction over the values of well-formed types\<close>

lemma typed_scalar_kind:
  "kind f \<notin> {tk_alias, tk_any, tk_objref, tk_TypeCode, tk_struct, tk_except, tk_union, tk_wstring, tk_string,
     tk_sequence, tk_array, tk_null, tk_void} \<Longrightarrow> typed m (TC a f subs d) v = scalar_of (kind f) v"
  by (cases "kind f") simp_all

lemma tc_ok_subs: "tc_ok m (TC a f subs d) \<Longrightarrow> Some t \<in> set subs \<Longrightarrow> tc_ok m t"
  by (auto simp: list_all_iff)

lemma tc_ok_members:
  "tc_ok m (TC a f subs d) \<Longrightarrow> kind f \<in> {tk_struct, tk_except, tk_union} \<Longrightarrow> unat (sub_parts f) = length subs"
  by (auto simp: tc_shape_def Let_def)

lemma nth_type_iff: "nth_type i subs = Inr t \<longleftrightarrow> i < length subs \<and> subs ! i = Some t"
proof (induction i subs rule: nth_type.induct)
  case (2 x xs)
  then show ?case by (cases x) simp_all
qed simp_all

text \<open>
  The members of a structure and the elements of a sequence or array come as lists of which every
  item has the property; the member of a union comes with its index.
\<close>

lemma typed_induct [consumes 2, case_names ali any objref typecode struct union wstring string sequence array
    void scalar]:
  assumes "tc_ok m t" "typed m t v"
    and ali: "\<And>a f t d v. kind f = tk_alias \<Longrightarrow> tc_ok m (TC a f [Some t] d) \<Longrightarrow> tc_ok m t \<Longrightarrow> typed m t v
      \<Longrightarrow> P t v \<Longrightarrow> P (TC a f [Some t] d) v"
    and any: "\<And>a f subs d t v. kind f = tk_any \<Longrightarrow> tc_ok m t \<Longrightarrow> typed m t v \<Longrightarrow> P t v
      \<Longrightarrow> P (TC a f subs d) (Any t v)"
    and objref: "\<And>a f subs d obj. kind f = tk_objref \<Longrightarrow> P (TC a f subs d) (Objref obj)"
    and typecode: "\<And>a f subs d p. kind f = tk_TypeCode \<Longrightarrow> P (TC a f subs d) (TypeCode p)"
    and struct: "\<And>a f subs d ts vs. kind f = tk_struct \<or> kind f = tk_except \<Longrightarrow> tc_ok m (TC a f subs d)
      \<Longrightarrow> subs = map Some ts \<Longrightarrow> unat (sub_parts f) = length ts
      \<Longrightarrow> list_all2 (\<lambda>t v. tc_ok m t \<and> typed m t v \<and> P t v) ts vs \<Longrightarrow> P (TC a f subs d) (Struct vs)"
    and union: "\<And>a f subs e discrim body r. kind f = tk_union \<Longrightarrow> tc_ok m (TC a f subs (Some e)) \<Longrightarrow> tc_ok m e
      \<Longrightarrow> typed m e discrim \<Longrightarrow> P e discrim \<Longrightarrow> union_member (TC a f subs (Some e)) discrim = Inr r
      \<Longrightarrow> (r = None \<Longrightarrow> body = Void)
      \<Longrightarrow> (\<And>i. r = Some i \<Longrightarrow> \<exists>t. nth_type i subs = Inr t \<and> tc_ok m t \<and> typed m t body \<and> P t body)
      \<Longrightarrow> P (TC a f subs (Some e)) (Union discrim body)"
    and wstring: "\<And>a f subs d ws. kind f = tk_wstring \<Longrightarrow> w_string ws \<Longrightarrow> P (TC a f subs d) (WString ws)"
    and string: "\<And>a f subs d s. kind f = tk_string \<Longrightarrow> c_string s \<Longrightarrow> length s < 2 ^ 31
      \<Longrightarrow> P (TC a f subs d) (String s)"
    and sequence: "\<And>a f t d vs. kind f = tk_sequence \<Longrightarrow> tc_ok m t \<Longrightarrow> length vs < 2 ^ 32
      \<Longrightarrow> list_all (\<lambda>v. typed m t v \<and> P t v) vs \<Longrightarrow> P (TC a f [Some t] d) (Sequence vs)"
    and array: "\<And>a f t d vs. kind f = tk_array \<Longrightarrow> tc_ok m t \<Longrightarrow> length vs = unat (tc_length f)
      \<Longrightarrow> list_all (\<lambda>v. typed m t v \<and> P t v) vs \<Longrightarrow> P (TC a f [Some t] d) (Array vs)"
    and void: "\<And>a f subs d. kind f = tk_null \<or> kind f = tk_void \<Longrightarrow> P (TC a f subs d) Void"
    and scalar: "\<And>a f subs d v. kind f \<notin> {tk_alias, tk_any, tk_objref, tk_TypeCode, tk_struct, tk_except,
        tk_union, tk_wstring, tk_string, tk_sequence, tk_array, tk_null, tk_void}
      \<Longrightarrow> scalar_of (kind f) v \<Longrightarrow> P (TC a f subs d) v"
  shows "P t v"
proof -
  have "m' = m \<Longrightarrow> tc_ok m t \<Longrightarrow> typed m t v \<Longrightarrow> P t v"
    "\<And>ts. m' = m \<Longrightarrow> subs = map Some ts \<Longrightarrow> list_all (pred_option (tc_ok m)) subs \<Longrightarrow> typed_members m subs vs \<Longrightarrow>
       list_all2 (\<lambda>t v. tc_ok m t \<and> typed m t v \<and> P t v) ts vs"
    "m' = m \<Longrightarrow> tc_ok m t \<Longrightarrow> typed_elements m t vs \<Longrightarrow> list_all (\<lambda>v. typed m t v \<and> P t v) vs" for m' subs vs
  proof (induction m' t v and m' subs vs and m' t vs rule: typed_typed_members_typed_elements.induct)
    case (1 m' a f subs d v)
    note IH = "1.IH"[unfolded \<open>m' = m\<close>]
    note ok = \<open>tc_ok m (TC a f subs d)\<close> and ty = \<open>typed m (TC a f subs d) v\<close>
    have subs: "list_all (pred_option (tc_ok m)) subs" "None \<notin> set subs" "pred_option (tc_ok m) d" using ok by simp_all
    obtain ts where ts: "subs = map Some ts" using subs(2) by (metis ex_map_conv not_None_eq)
    consider (a) "kind f = tk_alias" | (b) "kind f = tk_any" | (c) "kind f = tk_objref" | (d) "kind f = tk_TypeCode"
      | (e) "kind f = tk_struct \<or> kind f = tk_except" | (f) "kind f = tk_union" | (g) "kind f = tk_wstring"
      | (h) "kind f = tk_string" | (i) "kind f = tk_sequence" | (j) "kind f = tk_array"
      | (k) "kind f = tk_null \<or> kind f = tk_void"
      | (l) "kind f \<notin> {tk_alias, tk_any, tk_objref, tk_TypeCode, tk_struct, tk_except, tk_union, tk_wstring,
          tk_string, tk_sequence, tk_array, tk_null, tk_void}" by blast
    then show ?case
    proof cases
      case a
      then obtain t where t: "subs = [Some t]" "tc_ok m t" using tc_ok_alias[OF ok] by auto
      have v: "typed m t v" using ty a t(1) by simp
      show ?thesis
        using ali[OF a ok[unfolded t(1)] t(2) v IH(7)[OF a t(1) refl refl t(2) v]] unfolding t(1) .
    next
      case b
      then obtain t w where v: "v = Any t w" "tc_ok m t" "typed m t w" using ty by (cases v) auto
      then show ?thesis using any[OF b v(2,3)] IH(1)[OF b v(1) refl v(2,3)] by simp
    next
      case e
      then obtain vs where v: "v = Struct vs" "typed_members m subs vs" using ty by (cases v) auto
      have "list_all2 (\<lambda>t v. tc_ok m t \<and> typed m t v \<and> P t v) ts vs"
        using e IH(2)[OF _ v(1) refl ts subs(1) v(2)] IH(8)[OF _ v(1) refl ts subs(1) v(2)] by blast
      then show ?thesis using struct[OF e ok ts] tc_ok_members[OF ok] e v(1) ts by auto
    next
      case f
      obtain discrim body where v: "v = Union discrim body" using ty f by (cases v) auto
      then obtain e where e: "d = Some e" "typed m e discrim" "tc_ok m e"
        using ty f subs(3) by (auto split: option.splits)
      obtain r where r: "union_member (TC a f subs d) discrim = Inr r" using ty f v by (auto split: sum.splits)
      have body: "case r of None \<Rightarrow> body = Void
          | Some i \<Rightarrow> (case nth_type i subs of Inl e \<Rightarrow> False | Inr t \<Rightarrow> typed m t body)"
        using ty f v r by simp
      have member: "\<exists>t. nth_type i subs = Inr t \<and> tc_ok m t \<and> typed m t body \<and> P t body" if ri: "r = Some i" for i
      proof -
        obtain t where t: "nth_type i subs = Inr t" "typed m t body"
          using body ri by (cases "nth_type i subs") auto
        then have "Some t \<in> set subs" by (metis nth_type_iff nth_mem)
        then have "tc_ok m t" by (rule tc_ok_subs[OF ok])
        then show ?thesis using t IH(4)[OF f v(1) r ri t(1) refl] by blast
      qed
      show ?thesis
        unfolding e(1) v
      proof (rule union[OF f _ e(3,2)])
        show "P e discrim" using IH(3)[OF f v e(1) refl e(3,2)] .
      qed (use ok e r member body in auto)
    next
      case i
      then obtain t where t: "subs = [Some t]" "tc_ok m t" using tc_ok_alias[OF ok] by auto
      then obtain vs where v: "v = Sequence vs" "typed_elements m t vs" "length vs < 2 ^ 32"
        using ty i by (cases v) auto
      then show ?thesis using sequence[OF i t(2) v(3)] IH(5)[OF i v(1) t(1) refl refl t(2) v(2)] t(1) by simp
    next
      case j
      then obtain t where t: "subs = [Some t]" "tc_ok m t" using tc_ok_alias[OF ok] by auto
      then obtain vs where v: "v = Array vs" "typed_elements m t vs" "length vs = unat (tc_length f)"
        using ty j by (cases v) auto
      then show ?thesis using array[OF j t(2) v(3)] IH(6)[OF j v(1) t(1) refl refl t(2) v(2)] t(1) by simp
    next
      case k
      then show ?thesis using ty void[OF k] by auto
    next
      case l
      then show ?thesis using ty typed_scalar_kind[OF l] scalar[OF l] by blast
    qed (use ty objref typecode wstring string in \<open>cases v; auto\<close>)+
  qed (auto simp: Cons_eq_map_conv)
  then show ?thesis using assms(1,2) by blast
qed

end
