(* ===== verification/Any_Ops.thy ===== *)
theory Any_Ops imports Any_Value begin

text \<open>
  Copying and comparing values (\<^verbatim>\<open>MateCORBA_copy_value\<close>, \<^verbatim>\<open>MateCORBA_value_equivalent\<close> and
  \<^verbatim>\<open>MateCORBA_any_equivalent\<close> of \<^verbatim>\<open>corba-any.c\<close>) and the operations on sequences that grow.
\<close>

section \<open>Copying\<close>

text \<open>
  Wide strings are copied with \<^verbatim>\<open>CORBA_string_dup\<close>, byte by byte up to the first byte that is 0. What
  is left are the words of the copy.
\<close>

definition copy_wstring :: "endian \<Rightarrow> u16 list \<Rightarrow> u16 list res" where
  "copy_wstring host ws = (let bs = concat (map (u16_bytes host) ws) in rbind (g_strdup bs) (\<lambda>bs.
     Inr (mem_words host (take (length bs div 2 * 2) bs))))"

definition copy_scalar :: "TCKind \<Rightarrow> cval \<Rightarrow> cval res" where
  "copy_scalar k v = (case v of
     Short w \<Rightarrow> if k \<in> {tk_wchar, tk_short, tk_ushort} then Inr v else Inl Overrun
   | Long w \<Rightarrow> if k \<in> {tk_enum, tk_long, tk_ulong, tk_float} then Inr v else Inl Overrun
   | LongLong w \<Rightarrow> if k \<in> {tk_longlong, tk_ulonglong, tk_double} then Inr v else Inl Overrun
   | LongDouble bs \<Rightarrow> if k = tk_longdouble then Inr v else Inl Overrun
   | Octet c \<Rightarrow> if k \<in> small_kinds then Inr v else Inl Overrun
   | _ \<Rightarrow> Inl Overrun)"

text \<open>
  \<^verbatim>\<open>MateCORBA_copy_value_core\<close>. References and TypeCodes are shared with the original; an any gets a value
  of its own. The octets of a Principal are copied by their length.
\<close>

function (sequential) MateCORBA_copy_value_core :: "abi \<Rightarrow> endian \<Rightarrow> tc \<Rightarrow> cval \<Rightarrow> cval res"
  and copy_members :: "abi \<Rightarrow> endian \<Rightarrow> nat \<Rightarrow> tc option list \<Rightarrow> cval list \<Rightarrow> cval list res"
  and copy_elements :: "abi \<Rightarrow> endian \<Rightarrow> tc \<Rightarrow> nat \<Rightarrow> cval list \<Rightarrow> cval list res" where
  "MateCORBA_copy_value_core m host (TC a f subs d) v = (case kind f of
     tk_alias \<Rightarrow> (case subs of Some t # _ \<Rightarrow> MateCORBA_copy_value_core m host t v | _ \<Rightarrow> Inl Abort)
   | tk_any \<Rightarrow> (case v of Any t w \<Rightarrow> rbind (MateCORBA_alloc_by_tc m t) (\<lambda>_.
         rbind (MateCORBA_copy_value_core m host t w) (\<lambda>w. Inr (Any t w)))
       | _ \<Rightarrow> Inl Overrun)
   | tk_Principal \<Rightarrow> (case v of Principal mx bs \<Rightarrow> Inr (Principal mx bs) | _ \<Rightarrow> Inl Overrun)
   | tk_TypeCode \<Rightarrow> (case v of TypeCode p \<Rightarrow> Inr v | _ \<Rightarrow> Inl Overrun)
   | tk_objref \<Rightarrow> (case v of Objref obj \<Rightarrow> Inr v | _ \<Rightarrow> Inl Overrun)
   | tk_struct \<Rightarrow> (case v of Struct vs \<Rightarrow> rbind (copy_members m host (unat (sub_parts f)) subs vs)
         (\<lambda>vs. Inr (Struct vs)) | _ \<Rightarrow> Inl Overrun)
   | tk_except \<Rightarrow> (case v of Struct vs \<Rightarrow> rbind (copy_members m host (unat (sub_parts f)) subs vs)
         (\<lambda>vs. Inr (Struct vs)) | _ \<Rightarrow> Inl Overrun)
   | tk_union \<Rightarrow> (case v of Union discrim body \<Rightarrow>
         rbind (MateCORBA_gather_alloc_info m (TC a f subs d)) (\<lambda>_.
         rbind (union_member (TC a f subs d) discrim) (\<lambda>r. case d of None \<Rightarrow> Inl Abort | Some e \<Rightarrow>
         rbind (MateCORBA_copy_value_core m host e discrim) (\<lambda>discrim'. case r of
           None \<Rightarrow> Inr (Union discrim' Void)
         | Some i \<Rightarrow> rbind (nth_type i subs) (\<lambda>t.
             rbind (MateCORBA_copy_value_core m host t body) (\<lambda>body. Inr (Union discrim' body))))))
       | _ \<Rightarrow> Inl Overrun)
   | tk_wstring \<Rightarrow> (case v of WString ws \<Rightarrow> rbind (copy_wstring host ws) (\<lambda>ws. Inr (WString ws))
       | _ \<Rightarrow> Inl Overrun)
   | tk_string \<Rightarrow> (case v of String s \<Rightarrow> rbind (g_strdup s) (\<lambda>s. Inr (String s)) | _ \<Rightarrow> Inl Overrun)
   | tk_sequence \<Rightarrow> (case v of Sequence vs \<Rightarrow> (case subs of Some t # _ \<Rightarrow>
           rbind (MateCORBA_alloc_tcval m t (of_nat (length vs))) (\<lambda>_.
           rbind (copy_elements m host t (length vs) vs) (\<lambda>vs. Inr (Sequence vs)))
         | _ \<Rightarrow> Inl Abort)
       | _ \<Rightarrow> Inl Overrun)
   | tk_array \<Rightarrow> (case v of Array vs \<Rightarrow> (case subs of Some t # _ \<Rightarrow>
           rbind (copy_elements m host t (unat (tc_length f)) vs) (\<lambda>vs. Inr (Array vs))
         | _ \<Rightarrow> if tc_length f = 0 then Inr (Array []) else Inl Abort)
       | _ \<Rightarrow> Inl Overrun)
   | tk_void \<Rightarrow> Inr Void
   | tk_null \<Rightarrow> Inr Void
   | _ \<Rightarrow> if kind f \<in> {tk_fixed, tk_value, tk_value_box, tk_native, tk_abstract_interface, tk_recursive}
       then Inl Abort else copy_scalar (kind f) v)"
| "copy_members m host 0 subs vs = Inr []"
| "copy_members m host (Suc n) (Some t # subs) (v # vs) =
     rbind (MateCORBA_copy_value_core m host t v) (\<lambda>v. rbind (MateCORBA_gather_alloc_info m t) (\<lambda>_.
     rbind (copy_members m host n subs vs) (\<lambda>vs. Inr (v # vs))))"
| "copy_members m host (Suc n) (None # subs) vs = Inl Abort"
| "copy_members m host (Suc n) _ _ = Inl Overrun"
| "copy_elements m host t 0 vs = Inr []"
| "copy_elements m host t (Suc n) (v # vs) = rbind (MateCORBA_copy_value_core m host t v) (\<lambda>v.
     rbind (copy_elements m host t n vs) (\<lambda>vs. Inr (v # vs)))"
| "copy_elements m host t (Suc n) [] = Inl Overrun"
  by pat_completeness auto

termination
  by (relation "measures [\<lambda>x. case x of Inl (_, _, t, v) \<Rightarrow> 2 * size v
        | Inr (Inl (_, _, _, ts, vs)) \<Rightarrow> 2 * size_list size vs + 1
        | Inr (Inr (_, _, t, n, vs)) \<Rightarrow> 2 * size_list size vs + 1,
      \<lambda>x. case x of Inl (_, _, t, v) \<Rightarrow> size t | _ \<Rightarrow> 0]") auto

definition MateCORBA_copy_value :: "abi \<Rightarrow> endian \<Rightarrow> tc \<Rightarrow> cval \<Rightarrow> cval res" where
  "MateCORBA_copy_value m host t v = rbind (MateCORBA_alloc_by_tc m t) (\<lambda>_.
     MateCORBA_copy_value_core m host t v)"

definition CORBA_any__copy :: "abi \<Rightarrow> endian \<Rightarrow> tc \<times> cval \<Rightarrow> (tc \<times> cval) res" where
  "CORBA_any__copy m host any = (case any of (t, v) \<Rightarrow>
     rbind (MateCORBA_copy_value m host t v) (\<lambda>v. Inr (t, v)))"

section \<open>Comparison\<close>

text \<open>
  C compares floating point numbers as numbers: not-a-number equals nothing, and the two zeros are
  equal. The long double is not modelled as a number, its comparison is the argument \<open>ldeq\<close>.
\<close>

definition ieee_equal :: "nat \<Rightarrow> 'a::len word \<Rightarrow> 'a word \<Rightarrow> bool" where
  "ieee_equal mant v w = (let bits = LENGTH('a) - 1;
       nan = (\<lambda>x. drop_bit mant (take_bit bits x) = mask (bits - mant) \<and> take_bit mant x \<noteq> 0)
     in \<not> nan v \<and> \<not> nan w \<and> (v = w \<or> take_bit bits v = 0 \<and> take_bit bits w = 0))"

definition scalar_equivalent :: "(byte list \<Rightarrow> byte list \<Rightarrow> bool) \<Rightarrow> TCKind \<Rightarrow> cval \<Rightarrow> cval \<Rightarrow> bool res" where
  "scalar_equivalent ldeq k a b = (case (a, b) of
     (Short v, Short w) \<Rightarrow> if k \<in> {tk_short, tk_ushort, tk_wchar} then Inr (v = w) else Inl Overrun
   | (Long v, Long w) \<Rightarrow> if k \<in> {tk_enum, tk_long, tk_ulong} then Inr (v = w)
       else if k = tk_float then Inr (ieee_equal 23 v w) else Inl Overrun
   | (LongLong v, LongLong w) \<Rightarrow> if k \<in> {tk_longlong, tk_ulonglong} then Inr (v = w)
       else if k = tk_double then Inr (ieee_equal 52 v w) else Inl Overrun
   | (LongDouble v, LongDouble w) \<Rightarrow> if k = tk_longdouble then Inr (ldeq v w) else Inl Overrun
   | (Octet v, Octet w) \<Rightarrow> if k \<in> {tk_char, tk_octet} then Inr (v = w)
       else if k = tk_boolean then Inr ((v \<noteq> 0) = (w \<noteq> 0)) else Inl Overrun
   | _ \<Rightarrow> Inl Overrun)"

text \<open>The two members a union is compared by: NULL makes the comparison of the TypeCodes fail.\<close>

definition union_type :: "abi \<Rightarrow> tc \<Rightarrow> cval \<Rightarrow> tc option res" where
  "union_type m t discrim = rbind (union_member t discrim) (\<lambda>r. case r of
     None \<Rightarrow> Inr (Some (basic_tc m tk_null))
   | Some i \<Rightarrow> if i < length (subtypes t) then Inr (subtypes t ! i) else Inl Overrun)"

text \<open>
  \<^verbatim>\<open>MateCORBA_value_equivalent\<close>. For an object reference and a TypeCode the comparison is given the
  address of the place the pointer is stored at, and takes it for the object; an any is looked for
  where its own first word points: both read memory of another structure.
\<close>

function (sequential) MateCORBA_value_equivalent ::
    "abi \<Rightarrow> (byte list \<Rightarrow> byte list \<Rightarrow> bool) \<Rightarrow> tc \<Rightarrow> cval \<Rightarrow> cval \<Rightarrow> bool res"
  and equivalent_members ::
    "abi \<Rightarrow> (byte list \<Rightarrow> byte list \<Rightarrow> bool) \<Rightarrow> nat \<Rightarrow> tc option list \<Rightarrow> cval list \<Rightarrow> cval list \<Rightarrow> bool res"
  and equivalent_elements ::
    "abi \<Rightarrow> (byte list \<Rightarrow> byte list \<Rightarrow> bool) \<Rightarrow> tc \<Rightarrow> nat \<Rightarrow> cval list \<Rightarrow> cval list \<Rightarrow> bool res" where
  "MateCORBA_value_equivalent m ldeq (TC a f subs d) v w = (case kind f of
     tk_alias \<Rightarrow> (case subs of Some t # _ \<Rightarrow> MateCORBA_value_equivalent m ldeq t v w | _ \<Rightarrow> Inl Abort)
   | tk_null \<Rightarrow> Inr True
   | tk_void \<Rightarrow> Inr True
   | tk_string \<Rightarrow> (case (v, w) of (String s, String r) \<Rightarrow> c_streq s r | _ \<Rightarrow> Inl Overrun)
   | tk_wstring \<Rightarrow> Inr False
   | tk_TypeCode \<Rightarrow> Inl Overrun
   | tk_objref \<Rightarrow> Inl Overrun
   | tk_any \<Rightarrow> Inl Overrun
   | tk_struct \<Rightarrow> (case (v, w) of (Struct vs, Struct ws) \<Rightarrow>
       equivalent_members m ldeq (unat (sub_parts f)) subs vs ws | _ \<Rightarrow> Inl Overrun)
   | tk_except \<Rightarrow> (case (v, w) of (Struct vs, Struct ws) \<Rightarrow>
       equivalent_members m ldeq (unat (sub_parts f)) subs vs ws | _ \<Rightarrow> Inl Overrun)
   | tk_sequence \<Rightarrow> (case (v, w) of (Sequence vs, Sequence ws) \<Rightarrow>
         if length vs \<noteq> length ws then Inr False
         else (case subs of Some t # _ \<Rightarrow> equivalent_elements m ldeq t (length vs) vs ws
           | _ \<Rightarrow> if vs = [] then Inr True else Inl Abort)
       | _ \<Rightarrow> Inl Overrun)
   | tk_union \<Rightarrow> (case (v, w) of (Union dv bv, Union dw bw) \<Rightarrow>
         rbind (MateCORBA_gather_alloc_info m (TC a f subs d)) (\<lambda>_.
         rbind (union_type m (TC a f subs d) dv) (\<lambda>tv. rbind (union_type m (TC a f subs d) dw) (\<lambda>tw.
         rbind (equiv_pointers True tv tw) (\<lambda>r. if \<not> r then Inr False
           else case d of None \<Rightarrow> Inl Abort | Some e \<Rightarrow>
             rbind (MateCORBA_value_equivalent m ldeq e dv dw) (\<lambda>r. if \<not> r then Inr False
               else case tv of None \<Rightarrow> Inl Abort | Some t \<Rightarrow> MateCORBA_value_equivalent m ldeq t bv bw)))))
       | _ \<Rightarrow> Inl Overrun)
   | tk_array \<Rightarrow> (case (v, w) of (Array vs, Array ws) \<Rightarrow> (case subs of
           Some t # _ \<Rightarrow> equivalent_elements m ldeq t (unat (tc_length f)) vs ws
         | _ \<Rightarrow> if tc_length f = 0 then Inr True else Inl Abort)
       | _ \<Rightarrow> Inl Overrun)
   | _ \<Rightarrow> if kind f \<in> {tk_Principal, tk_fixed, tk_value, tk_value_box, tk_native, tk_abstract_interface,
       tk_recursive} then Inr False else scalar_equivalent ldeq (kind f) v w)"
| "equivalent_members m ldeq 0 subs vs ws = Inr True"
| "equivalent_members m ldeq (Suc n) (Some t # subs) (v # vs) (w # ws) =
     rbind (MateCORBA_value_equivalent m ldeq t v w) (\<lambda>r. if \<not> r then Inr False
       else rbind (MateCORBA_gather_alloc_info m t) (\<lambda>_. equivalent_members m ldeq n subs vs ws))"
| "equivalent_members m ldeq (Suc n) (None # subs) vs ws = Inl Abort"
| "equivalent_members m ldeq (Suc n) _ _ _ = Inl Overrun"
| "equivalent_elements m ldeq t 0 vs ws = Inr True"
| "equivalent_elements m ldeq t (Suc n) (v # vs) (w # ws) =
     rbind (MateCORBA_value_equivalent m ldeq t v w) (\<lambda>r. if \<not> r then Inr False
       else equivalent_elements m ldeq t n vs ws)"
| "equivalent_elements m ldeq t (Suc n) _ _ = Inl Overrun"
  by pat_completeness auto

termination
  by (relation "measures [\<lambda>x. case x of Inl (_, _, t, v, _) \<Rightarrow> 2 * size v
        | Inr (Inl (_, _, _, ts, vs, _)) \<Rightarrow> 2 * size_list size vs + 1
        | Inr (Inr (_, _, t, n, vs, _)) \<Rightarrow> 2 * size_list size vs + 1,
      \<lambda>x. case x of Inl (_, _, t, v, _) \<Rightarrow> size t | _ \<Rightarrow> 0]") auto

text \<open>
  \<^verbatim>\<open>MateCORBA_any_equivalent\<close>: an any is its TypeCode and its value; \<open>None\<close> is the NULL pointer, and an
  any without a TypeCode raises an exception.
\<close>

definition MateCORBA_any_equivalent :: "abi \<Rightarrow> (byte list \<Rightarrow> byte list \<Rightarrow> bool)
    \<Rightarrow> (tc option \<times> cval) option \<Rightarrow> (tc option \<times> cval) option \<Rightarrow> bool res" where
  "MateCORBA_any_equivalent m ldeq obj any = (case (obj, any) of
     (None, None) \<Rightarrow> Inr True
   | (Some (Some t, v), Some (Some u, w)) \<Rightarrow> rbind (CORBA_TypeCode_equal t u) (\<lambda>r.
       if \<not> r then Inr False else MateCORBA_value_equivalent m ldeq u v w)
   | _ \<Rightarrow> Inr False)"

section \<open>A copy is the original\<close>

text \<open>Values without wide strings.\<close>

fun narrow :: "cval \<Rightarrow> bool" where
  "narrow (WString ws) = False"
| "narrow (Any t v) = narrow v"
| "narrow (Struct vs) = list_all narrow vs"
| "narrow (Union d v) = (narrow d \<and> narrow v)"
| "narrow (Sequence vs) = list_all narrow vs"
| "narrow (Array vs) = list_all narrow vs"
| "narrow _ = True"

lemma scalar_kind: "scalar_of k v \<Longrightarrow> k \<in> {tk_wchar, tk_ushort, tk_short, tk_enum, tk_long, tk_ulong, tk_float,
    tk_longlong, tk_ulonglong, tk_double, tk_longdouble, tk_boolean, tk_char, tk_octet}"
  by (auto simp: scalar_of_def small_kinds_def split: cval.splits)

lemma copy_scalar_same: "scalar_of k v \<Longrightarrow> copy_scalar k v = Inr v"
  by (cases v) (auto simp: scalar_of_def copy_scalar_def)

lemma copy_scalar_kind:
  "scalar_of (kind f) v \<Longrightarrow> MateCORBA_copy_value_core m host (TC a f subs d) v = copy_scalar (kind f) v"
  by (drule scalar_kind) auto

lemma copy_members_same:
  "list_all2 (\<lambda>t v. tc_ok m t \<and> MateCORBA_copy_value_core m host t v = Inr v) ts vs \<Longrightarrow>
     copy_members m host (length ts) (map Some ts) vs = Inr vs"
proof (induction rule: list_all2_induct)
  case (Cons t ts v vs)
  moreover from Cons obtain s where "MateCORBA_gather_alloc_info m t = Inr s" using gather_defined by blast
  ultimately show ?case by simp
qed simp

lemma copy_elements_same:
  "list_all (\<lambda>v. MateCORBA_copy_value_core m host t v = Inr v) vs \<Longrightarrow>
     copy_elements m host t (length vs) vs = Inr vs"
  by (induction vs) simp_all

lemma list_all_both: "list_all (\<lambda>v. P v \<and> (N v \<longrightarrow> Q v)) vs \<Longrightarrow> list_all N vs \<Longrightarrow> list_all Q vs"
  by (simp add: list_all_iff)

lemma list_all2_both:
  "list_all2 (\<lambda>t v. T t \<and> P t v \<and> (N v \<longrightarrow> Q t v)) ts vs \<Longrightarrow> list_all N vs \<Longrightarrow> list_all2 (\<lambda>t v. T t \<and> Q t v) ts vs"
  by (simp add: list_all2_conv_all_nth list_all_length)

lemma copy_same:
  assumes "tc_ok m t" "typed m t v"
  shows "narrow v \<longrightarrow> MateCORBA_copy_value_core m host t v = Inr v"
  using assms
proof (induction rule: typed_induct)
  case (any a f subs d t v)
  moreover obtain s where "MateCORBA_alloc_by_tc m t = Inr s" using any(2) alloc_defined by blast
  ultimately show ?case by simp
next
  case (struct a f subs d ts vs)
  then show ?case using copy_members_same[OF list_all2_both] by auto
next
  case (union a f subs e discrim body r)
  moreover obtain s where "MateCORBA_gather_alloc_info m (TC a f subs (Some e)) = Inr s"
    using gather_defined union(2) by blast
  ultimately show ?case by (cases r) auto
next
  case (sequence a f t d vs)
  moreover obtain s where "MateCORBA_alloc_tcval m t (of_nat (length vs)) = Inr s"
    using sequence(2) alloc_defined by blast
  ultimately show ?case using copy_elements_same[OF list_all_both] by auto
next
  case (array a f t d vs)
  then show ?case using copy_elements_same[OF list_all_both, of _ narrow m host t vs] by auto
next
  case (scalar a f subs d v)
  then show ?case by (simp only: copy_scalar_kind copy_scalar_same simp_thms)
qed auto


definition sample_any :: cval where
  "sample_any = Any (sample_alias_tc 1) (Struct [String (cstr ''x''), Long 5])"

lemma sample_any_typed: "typed x86_64 (basic_tc x86_64 tk_any) sample_any" "narrow sample_any"
  using sample_tcs_ok(2)[of 1]
  by (simp_all add: sample_any_def basic_tc_def zero_fields_def scalar_of_def cstr_def c_string_def
      sample_alias_tc_def sample_struct_tc_def sample_string_tc_def del: tc_ok.simps)

lemma basic_any_ok: "tc_ok m (basic_tc m tk_any)"
  by (simp add: tc_shape_def basic_tc_def zero_fields_def)


text \<open>C20. A wide string is copied with \<^verbatim>\<open>CORBA_string_dup\<close>. On a little-endian machine the copy of one that
  starts with a character below 256 is this character alone, without a zero word behind it, so
  whatever asks for the length of the copy, the marshaller for one, reads outside it.\<close>

theorem wide_copy_unterminated:
  assumes "w \<noteq> 0" "unat w < 256" "kind f = tk_wstring"
  shows "MateCORBA_copy_value m True (TC a f [] None) (WString (w # ws)) = Inr (WString [w])
    \<and> CORBA_wstring_len [w] = Inl Overrun
    \<and> MateCORBA_marshal_value m ops (TC a f [] None) (WString [w]) b = Inl Overrun"
proof -
  have low: "(ucast (ucast w :: byte) :: u16) = w" and nz: "(ucast w :: byte) \<noteq> 0"
  proof -
    have "unat (ucast w :: byte) = unat w" using assms(2) by (simp add: unsigned_ucast_eq unsigned_take_bit_eq take_bit_nat_eq_self)
    then show "(ucast w :: byte) \<noteq> 0" using assms(1) by (metis unat_0 unat_eq_zero)
    have "unat (ucast (ucast w :: byte) :: u16) = unat w" using assms(2) by (simp add: unsigned_ucast_eq unsigned_take_bit_eq take_bit_nat_eq_self)
    then show "(ucast (ucast w :: byte) :: u16) = w" by (simp only: word_unat_eq_iff)
  qed
  have "unat (drop_bit 8 w) = unat w div 256" by (simp add: unsigned_drop_bit_eq drop_bit_eq_div unat_div)
  then have high: "drop_bit 8 w = 0" using assms(2) by (simp add: unat_eq_zero)
  have bytes: "u16_bytes True w = [ucast w, 0]"
    using high by (simp add: mem_bytes_def in_order_def eval_nat_numeral)
  have "g_strdup (concat (map (u16_bytes True) (w # ws))) = Inr [ucast w, 0]"
    using nz by (simp add: bytes g_strdup_def c_terminated_def c_text_def)
  then have "copy_wstring True (w # ws) = Inr [w]"
    using low by (simp add: copy_wstring_def mem_word_def in_order_def del: list.map)
  moreover have "CORBA_wstring_len [w] = Inl Overrun" using assms(1) by (simp add: CORBA_wstring_len_def)
  moreover have "MateCORBA_gather_alloc_info m (TC a f [] None) = Inr (of_nat (sizeof_ptr m))"
    using assms(3) by (simp add: scalar_size_def)
  ultimately show ?thesis
    using assms(3) by (simp add: MateCORBA_copy_value_def MateCORBA_alloc_by_tc_def marshal_wstring_def Let_def)
qed

theorem wide_copy_unterminated_witness:
  "MateCORBA_copy_value x86_64 True (TC (Heap 0) (zero_fields tk_wstring) [] None) (WString [72, 105, 0])
     = Inr (WString [72])"
  using wide_copy_unterminated[of 72 "zero_fields tk_wstring" x86_64 "Heap 0" "[105, 0]" "[]" undefined]
  by (simp add: zero_fields_def)

section \<open>What the comparison decides\<close>

text \<open>
  The types whose values the comparison can read and of which it compares the images: no floating
  point numbers and booleans, no pointers to references or TypeCodes, no anys and wide strings.
\<close>

fun exact :: "tc \<Rightarrow> bool" where
  "exact (TC a f subs d) \<longleftrightarrow> kind f \<in> {tk_null, tk_void, tk_short, tk_ushort, tk_wchar, tk_long, tk_ulong, tk_enum,
     tk_longlong, tk_ulonglong, tk_char, tk_octet, tk_string, tk_struct, tk_except, tk_union, tk_sequence,
     tk_array, tk_alias} \<and> list_all (pred_option exact) subs \<and> pred_option exact d"

lemma scalar_exact:
  "k \<notin> {tk_float, tk_double, tk_longdouble, tk_boolean} \<Longrightarrow> scalar_of k v \<Longrightarrow> scalar_of k w \<Longrightarrow>
     scalar_equivalent ldeq k v w = Inr (v = w)"
  by (cases v; cases w) (auto simp: scalar_of_def scalar_equivalent_def small_kinds_def)

lemma equivalent_scalar_kind:
  "scalar_of (kind f) v \<Longrightarrow>
     MateCORBA_value_equivalent m ldeq (TC a f subs d) v w = scalar_equivalent ldeq (kind f) v w"
  by (drule scalar_kind) auto

lemma string_exact: "c_string s \<Longrightarrow> c_string r \<Longrightarrow> c_streq s r = Inr (s = r)"
proof -
  assume s: "c_string s" and r: "c_string r"
  have "c_text s = c_text r \<longleftrightarrow> s = r" using c_string_facts(3)[OF s] c_string_facts(3)[OF r] by metis
  then show ?thesis using s r by (simp add: c_streq_def)
qed

lemma union_type_typed:
  assumes ok: "tc_ok m (TC a f subs d)" and u: "union_member (TC a f subs d) discrim = Inr r"
    and i: "\<And>i. r = Some i \<Longrightarrow> \<exists>t. nth_type i subs = Inr t \<and> P t"
  obtains t where "union_type m (TC a f subs d) discrim = Inr (Some t)" "tc_ok m t"
    "r = None \<longrightarrow> t = basic_tc m tk_null" "\<forall>i. r = Some i \<longrightarrow> nth_type i subs = Inr t"
proof (cases r)
  case None
  moreover have "tc_ok m (basic_tc m tk_null)" by (simp add: tc_shape_def basic_tc_def zero_fields_def)
  ultimately show thesis using that u by (simp add: union_type_def)
next
  case (Some j)
  obtain t where t: "nth_type j subs = Inr t" using i[OF Some] by blast
  then have j: "j < length subs" "subs ! j = Some t" by (simp_all add: nth_type_iff)
  then have "Some t \<in> set subs" by (metis nth_mem)
  then have "tc_ok m t" by (rule tc_ok_subs[OF ok])
  then show thesis using that u Some j t by (simp add: union_type_def)
qed

lemma equivalent_members_exact:
  "list_all2 (\<lambda>t v. tc_ok m t \<and> (\<forall>w. typed m t w \<longrightarrow> MateCORBA_value_equivalent m ldeq t v w = Inr (v = w))) ts vs \<Longrightarrow>
     typed_members m (map Some ts) ws \<Longrightarrow>
     equivalent_members m ldeq (length ts) (map Some ts) vs ws = Inr (vs = ws)"
proof (induction arbitrary: ws rule: list_all2_induct)
  case Nil
  then show ?case by simp
next
  case (Cons t ts v vs)
  obtain s where s: "MateCORBA_gather_alloc_info m t = Inr s" using gather_defined Cons by blast
  obtain x xs where ws: "ws = x # xs" "typed m t x" "typed_members m (map Some ts) xs"
    using Cons.prems by (cases ws) auto
  have "MateCORBA_value_equivalent m ldeq t v x = Inr (v = x)" using Cons.hyps ws by blast
  then show ?case using Cons.IH[OF ws(3)] s ws(1) by auto
qed

lemma equivalent_elements_exact:
  "list_all (\<lambda>v. \<forall>w. typed m t w \<longrightarrow> MateCORBA_value_equivalent m ldeq t v w = Inr (v = w)) vs \<Longrightarrow>
     typed_elements m t ws \<Longrightarrow> length vs = length ws \<Longrightarrow>
     equivalent_elements m ldeq t (length vs) vs ws = Inr (vs = ws)"
proof (induction vs arbitrary: ws)
  case (Cons v vs)
  then obtain x xs where "ws = x # xs" by (cases ws) auto
  then show ?case using Cons by auto
qed simp

lemma exact_subs: "exact (TC a f subs d) \<Longrightarrow> Some t \<in> set subs \<Longrightarrow> exact t"
  by (auto simp: list_all_iff)

lemma equivalent_exact:
  assumes "tc_ok m t" "typed m t v"
  shows "exact t \<longrightarrow> (\<forall>w. typed m t w \<longrightarrow> MateCORBA_value_equivalent m ldeq t v w = Inr (v = w))"
  using assms
proof (induction rule: typed_induct)
  case (struct a f subs d ts vs)
  show ?case
  proof (intro impI allI)
    fix w assume ex: "exact (TC a f subs d)" and w: "typed m (TC a f subs d) w"
    have "list_all exact ts" using ex struct(3) by (simp add: list_all_iff)
    then have all: "list_all2 (\<lambda>t v. tc_ok m t \<and> (\<forall>w. typed m t w \<longrightarrow> MateCORBA_value_equivalent m ldeq t v w = Inr (v = w))) ts vs"
      using struct(5) by (simp add: list_all2_conv_all_nth list_all_length)
    obtain ws where ws: "w = Struct ws" "typed_members m (map Some ts) ws"
      using w struct(1,3) by (cases w) auto
    then show "MateCORBA_value_equivalent m ldeq (TC a f subs d) (Struct vs) w = Inr (Struct vs = w)"
      using equivalent_members_exact[OF all ws(2)] struct(1,3,4) by auto
  qed
next
  case (union a f subs e dv bv r)
  let ?t = "TC a f subs (Some e)"
  show ?case
  proof (intro impI allI)
    fix w assume ex: "exact ?t" and w: "typed m ?t w"
    obtain s where s: "MateCORBA_gather_alloc_info m ?t = Inr s" using gather_defined union(2) by blast
    obtain dw bw where w': "w = Union dw bw" using w union(1) by (cases w) auto
    then have dw: "typed m e dw" using w union(1) by auto
    obtain q where q: "union_member ?t dw = Inr q" using w union(1) w' by (auto split: sum.splits)
    have bw: "q = None \<Longrightarrow> bw = Void" "\<And>i. q = Some i \<Longrightarrow> \<exists>t. nth_type i subs = Inr t \<and> typed m t bw"
      using w union(1) w' q by (auto split: sum.splits)
    obtain x where x: "union_type m ?t dv = Inr (Some x)" "tc_ok m x" "r = None \<longrightarrow> x = basic_tc m tk_null"
        "\<forall>i. r = Some i \<longrightarrow> nth_type i subs = Inr x"
      by (rule union_type_typed[OF union(2,5,8)])
    obtain y where y: "union_type m ?t dw = Inr (Some y)" "tc_ok m y" by (rule union_type_typed[OF union(2) q bw(2)])
    have eq: "equiv_pointers True (Some x) (Some y) = Inr (ident True x = ident True y)"
      using equiv_ident(2)[of m "Some x" "Some y" True] x(2) y(2) by simp
    have disc: "MateCORBA_value_equivalent m ldeq e dv dw = Inr (dv = dw)" using union(7) ex dw by simp
    have body: "MateCORBA_value_equivalent m ldeq x bv bw = Inr (bv = bw)" if "dv = dw"
    proof (cases r)
      case None
      then show ?thesis using that union(5,6) q bw x(3) by (simp add: basic_tc_def zero_fields_def)
    next
      case (Some i)
      have i: "nth_type i subs = Inr x" using Some x(4) by simp
      then have "Some x \<in> set subs" by (metis nth_type_iff nth_mem)
      then have "exact x" using exact_subs[OF ex] by blast
      moreover have "typed m x bw" using bw(2)[of i] that union(5) q i Some by auto
      ultimately show ?thesis using union(8)[OF Some] i by auto
    qed
    have "x = y" if "dv = dw" using that x y by simp
    then show "MateCORBA_value_equivalent m ldeq ?t (Union dv bv) w = Inr (Union dv bv = w)"
      using union(1) w' s x(1) y(1) eq disc body by auto
  qed
next
  case (string a f subs d s)
  have "MateCORBA_value_equivalent m ldeq (TC a f subs d) (String s) w = Inr (String s = w)"
    if "typed m (TC a f subs d) w" for w
    using that string(1) string_exact[OF string(2)] by (cases w) auto
  then show ?case by blast
next
  case (sequence a f t d vs)
  have "MateCORBA_value_equivalent m ldeq (TC a f [Some t] d) (Sequence vs) w = Inr (Sequence vs = w)"
    if ex: "exact (TC a f [Some t] d)" and wt: "typed m (TC a f [Some t] d) w" for w
  proof -
    obtain ws where w: "w = Sequence ws" "typed_elements m t ws" using wt sequence(1) by (cases w) auto
    have "list_all (\<lambda>v. \<forall>w. typed m t w \<longrightarrow> MateCORBA_value_equivalent m ldeq t v w = Inr (v = w)) vs"
      using sequence(4) ex by (auto simp: list_all_iff)
    then show ?thesis using equivalent_elements_exact[OF _ w(2)] w(1) sequence(1) by auto
  qed
  then show ?case by blast
next
  case (array a f t d vs)
  have "MateCORBA_value_equivalent m ldeq (TC a f [Some t] d) (Array vs) w = Inr (Array vs = w)"
    if ex: "exact (TC a f [Some t] d)" and wt: "typed m (TC a f [Some t] d) w" for w
  proof -
    obtain ws where w: "w = Array ws" "typed_elements m t ws" "length ws = length vs"
      using wt array(1,3) by (cases w) auto
    have "list_all (\<lambda>v. \<forall>w. typed m t w \<longrightarrow> MateCORBA_value_equivalent m ldeq t v w = Inr (v = w)) vs"
      using array(4) ex by (auto simp: list_all_iff)
    then show ?thesis using equivalent_elements_exact[OF _ w(2)] w(1,3) array(1,3) by auto
  qed
  then show ?case by blast
next
  case (void a f subs d)
  then show ?case by auto
next
  case (scalar a f subs d v)
  show ?case
  proof (intro impI allI)
    fix w assume ex: "exact (TC a f subs d)" and w: "typed m (TC a f subs d) w"
    have w: "scalar_of (kind f) w" using w typed_scalar_kind[OF scalar(1)] by blast
    have k: "kind f \<notin> {tk_float, tk_double, tk_longdouble, tk_boolean}" using ex by auto
    show "MateCORBA_value_equivalent m ldeq (TC a f subs d) v w = Inr (v = w)"
      by (simp only: equivalent_scalar_kind[OF scalar(2)] scalar_exact[OF k scalar(2) w])
  qed
qed auto




end
