(* ===== verification/Any_Round.thy ===== *)
theory Any_Round imports Any_Value begin

text \<open>
  Values travel: what \<^verbatim>\<open>MateCORBA_marshal_value\<close> writes, \<^verbatim>\<open>MateCORBA_demarshal_value\<close> reads back on a
  machine of either byte order, for every type the code can marshal, anys in anys and object references
  included. The reader works with the TypeCode it has itself decoded, so the lemmas are stated for any
  TypeCode that is the same as the sender's up to addresses and alignments.
\<close>

section \<open>A TypeCode inside a message\<close>

definition sendable_tc :: "abi \<Rightarrow> bool \<Rightarrow> tc \<Rightarrow> bool" where
  "sendable_tc m lp64 t \<longleftrightarrow> tc_ok m t \<and> labels_ok t \<and> well_shared t \<and> (lp64 \<longrightarrow> distinct (addrs t))"

lemma typecode_run:
  assumes b: "sb_ok b" "s_header_size b = 12" and t: "sendable_tc m lp64 t"
    and size: "spos b + tc_len t < 2 ^ 32" and n: "size t \<le> n"
  shows "\<exists>bs t' ctx'. MateCORBA_encode_CORBA_TypeCode t b = Inr (sb_append bs b) \<and> length bs \<le> tc_len t
    \<and> tparses 0 (tc_dec m lp64 n \<lparr> current_idx = 0, prior_tcs = [], fresh = k \<rparr>) (s_host b) (spos b) bs
        (Some (Some t'), ctx')
    \<and> same_tc m t t'"
proof -
  define E where "E = \<lparr> c_abi = m, c_tree = tree_at t, c_lp64 = lp64, c_open = {}, c_shift = 12, c_body = 0 \<rparr>"
  let ?ctx = "\<lparr> current_idx = 0, prior_tcs = [], fresh = k \<rparr>"
  have fit: "fits E t"
    using t tree_at_node[of t] by (auto simp: fits_def E_def sendable_tc_def)
  have c: "coupled E [] b ?ctx"
    using b by (simp add: coupled_def E_def sb_ok_def spos_def dpos_def)
  show ?thesis
    by (rule sim_tcD[OF sim_tree[OF fit n] c])
      (use size in \<open>auto simp: E_def dpos_def MateCORBA_encode_CORBA_TypeCode_def
         simp del: tc_enc.simps tc_dec.simps\<close>)
qed

text \<open>
  The result does not depend on the fuel, so it is the same for all buffers, however much follows.
\<close>

lemma typecode_codec:
  assumes b: "sb_ok b" "s_header_size b = 12" and t: "sendable_tc m lp64 t"
    and size: "spos b + tc_len t < 2 ^ 32"
  obtains bs t' where "MateCORBA_encode_CORBA_TypeCode t b = Inr (sb_append bs b)" "length bs \<le> tc_len t"
    "tparses 0 (rd_typecode m lp64) (s_host b) (spos b) bs (Some t')" "same_tc m t t'"
proof -
  define p where "p = spos b"
  define e where "e = s_host b"
  let ?ctx = "\<lparr> current_idx = 0, prior_tcs = [], fresh = p \<rparr>"
  note run = typecode_run[OF b t size, of _ p, folded p_def e_def]
  obtain bs where enc: "MateCORBA_encode_CORBA_TypeCode t b = Inr (sb_append bs b)" "length bs \<le> tc_len t"
    using run[OF order_refl] by blast
  have run': "\<exists>t' ctx'. tparses 0 (tc_dec m lp64 n ?ctx) e p bs (Some (Some t'), ctx') \<and> same_tc m t t'"
    if "size t \<le> n" for n
    using run[OF that] enc(1) by (auto simp: sb_append_inj simp del: tc_dec.simps)
  define N where "N = size t + Suc (length bs)"
  obtain t' ctx' where d: "tparses 0 (tc_dec m lp64 N ?ctx) e p bs (Some (Some t'), ctx')" "same_tc m t t'"
    using run'[of N] unfolding N_def by (auto simp del: tc_dec.simps)
  define b0 where "b0 = \<lparr> r_host = True, r_mem = replicate p 0 @ bs, r_flags = GIOP_FLAG_ENDIANNESS e,
    r_version = GIOP_1_2, r_type = 0, r_size = 0, r_body = 0, r_cur = p, r_end = p + length bs \<rparr>"
  have b0: "at_bytes p bs b0" "rwf 0 b0" "left b0 = length bs" "flag_endian (r_flags b0) = e" "r_body b0 = 0"
    by (simp_all add: b0_def at_bytes_def rwf_def left_def slice_def)
  have ctx: "ctx_ok ?ctx" by (simp add: ctx_ok_def)
  have "tparses 0 (rd_typecode m lp64) e p bs (Some t')"
  proof (rule tparsesI)
    fix b assume e: "flag_endian (r_flags b) = e" and body: "r_body b = 0" and a: "at_bytes p bs b"
    have w: "rwf 0 b" "length bs \<le> left b" "r_cur b = p" using a by (auto simp: rwf_def at_bytes_def left_def)
    define M where "M = size t + Suc (left b)"
    obtain t'' ctx'' where d'': "tparses 0 (tc_dec m lp64 M ?ctx) e p bs (Some (Some t''), ctx'')"
      using run'[of M] unfolding M_def by (auto simp del: tc_dec.simps)
    have "tc_dec m lp64 N ?ctx b0 = tc_dec m lp64 M ?ctx b0"
      by (rule tc_dec_fuel[OF ctx b0(2)]) (use b0(3) w(2) in \<open>simp_all add: N_def M_def\<close>)
    then have t'': "t'' = t'"
      using tparsesD[OF d(1) b0(4,5,1)] tparsesD[OF d'' b0(4,5,1)] by (simp del: tc_dec.simps)
    have "tc_dec m lp64 (Suc (left b)) ?ctx b = tc_dec m lp64 M ?ctx b"
      by (rule tc_dec_fuel[OF ctx w(1)]) (simp_all add: M_def)
    then have "tc_dec m lp64 (Suc (left b)) ?ctx b = Inr ((Some (Some t'), ctx''), b\<lparr> r_cur := p + length bs \<rparr>)"
      using tparsesD[OF d'' e body a] t'' by (simp del: tc_dec.simps)
    then show "rd_typecode m lp64 b = Inr (Some t', b\<lparr> r_cur := p + length bs \<rparr>)"
      using w(3) unfolding rd_typecode_def MateCORBA_decode_CORBA_TypeCode_def left_def[symmetric] rd_bind_def
      by (simp add: rd_ret_def del: tc_dec.simps)
  qed
  then show thesis using that enc d(2) unfolding p_def e_def by blast
qed

section \<open>Scalars and strings\<close>

definition scalar_kinds :: "TCKind set" where
  "scalar_kinds = {tk_wchar, tk_ushort, tk_short, tk_enum, tk_long, tk_ulong, tk_float, tk_longlong,
     tk_ulonglong, tk_double, tk_longdouble, tk_boolean, tk_char, tk_octet}"

lemma parses_checked: "0 < n \<Longrightarrow> length bs = n \<Longrightarrow> (\<And>q. parses g e q bs v) \<Longrightarrow>
    parses (rd_checked n g) e p (pad n p @ bs) v"
  unfolding rd_checked_def by (intro parses_bind[OF parses_align] parses_need) simp_all

lemma parses_long_double:
  assumes "length bs = sizeof_long_double"
  shows "parses rd_long_double e p (in_order e bs) bs"
proof (rule parsesI)
  fix b assume e: "flag_endian (r_flags b) = e" and a: "at_bytes p (in_order e bs) b"
  have c: "giop_msg_conversion_needed b \<longleftrightarrow> e \<noteq> r_host b"
    using e by (simp add: giop_msg_conversion_needed_def conversion_needed_iff)
  have "rd_bytes sizeof_long_double b = Inr (in_order e bs, b\<lparr> r_cur := p + length (in_order e bs) \<rparr>)"
    by (rule parsesD[OF parses_bytes e a]) (simp add: assms)
  moreover have "in_order (r_host b) (if e \<noteq> r_host b then giop_byteswap (in_order e bs) else in_order e bs) = bs"
    by (cases "r_host b"; cases e) (simp_all add: in_order_def giop_byteswap_def)
  ultimately show "rd_long_double b = Inr (bs, b\<lparr> r_cur := p + length (in_order e bs) \<rparr>)"
    by (simp add: rd_long_double_def rd_bind_def rd_ret_def c)
qed

lemma sb_append_aligned_16:
  "sb_ok b \<Longrightarrow> length bs = sizeof_long_double \<Longrightarrow>
     sb_append_aligned bs b = sb_append (pad sizeof_long_double (spos b) @ bs) b"
  by (simp add: sb_append_aligned_def sizeof_long_double_def sb_align_pad)

fun scalar_len :: "cval \<Rightarrow> nat" where
  "scalar_len (Octet c) = 1" | "scalar_len (Short w) = 3" | "scalar_len (Long w) = 7"
| "scalar_len (LongLong w) = 15" | "scalar_len (LongDouble bs) = 31" | "scalar_len _ = 0"

lemma scalar_codec:
  assumes b: "sb_ok b" and v: "scalar_of k v"
  obtains bs where "marshal_scalar k v b = Inr (sb_append bs b)" "length bs \<le> scalar_len v"
    "parses (demarshal_scalar k) (s_host b) (spos b) bs v"
proof (cases v)
  case (Octet c)
  then have "parses (demarshal_scalar k) (s_host b) (spos b) [c] v"
    using v by (auto simp: scalar_of_def demarshal_scalar_def small_kinds_def
        intro!: parses_need parses_bind_ret[OF parses_byte])
  then show thesis using Octet v that by (auto simp: scalar_of_def marshal_scalar_def)
next
  case (Short w)
  have "parses (rd_checked 2 rd_u16) (s_host b) (spos b) (pad 2 (spos b) @ u16_bytes (s_host b) w) w"
    by (intro parses_checked parses_u16) simp_all
  then have "parses (demarshal_scalar k) (s_host b) (spos b) (pad 2 (spos b) @ u16_bytes (s_host b) w) v"
    using v Short by (auto simp: scalar_of_def demarshal_scalar_def intro!: parses_bind_ret)
  then show thesis using Short v b that pad_less[of 2 "spos b"] by (auto simp: scalar_of_def marshal_scalar_def)
next
  case (Long w)
  have "parses (rd_checked 4 rd_u32) (s_host b) (spos b) (pad 4 (spos b) @ u32_bytes (s_host b) w) w"
    by (intro parses_checked parses_u32) simp_all
  then have "parses (demarshal_scalar k) (s_host b) (spos b) (pad 4 (spos b) @ u32_bytes (s_host b) w) v"
    using v Long by (auto simp: scalar_of_def demarshal_scalar_def intro!: parses_bind_ret)
  then show thesis using Long v b that pad_less[of 4 "spos b"] by (auto simp: scalar_of_def marshal_scalar_def)
next
  case (LongLong w)
  have "parses (rd_checked 8 rd_u64) (s_host b) (spos b) (pad 8 (spos b) @ u64_bytes (s_host b) w) w"
    by (intro parses_checked parses_u64) simp_all
  then have "parses (demarshal_scalar k) (s_host b) (spos b) (pad 8 (spos b) @ u64_bytes (s_host b) w) v"
    using v LongLong by (auto simp: scalar_of_def demarshal_scalar_def intro!: parses_bind_ret)
  then show thesis using LongLong v b that pad_less[of 8 "spos b"] by (auto simp: scalar_of_def marshal_scalar_def)
next
  case (LongDouble bs)
  let ?n = sizeof_long_double
  have l: "length bs = ?n" "0 < ?n" "k = tk_longdouble"
    using v LongDouble by (simp_all add: scalar_of_def sizeof_long_double_def)
  have "parses (rd_checked ?n rd_long_double) (s_host b) (spos b) (pad ?n (spos b) @ in_order (s_host b) bs) bs"
    using l by (intro parses_checked parses_long_double) simp_all
  then have "parses (demarshal_scalar k) (s_host b) (spos b) (pad ?n (spos b) @ in_order (s_host b) bs) v"
    using l LongDouble by (auto simp: demarshal_scalar_def intro!: parses_bind_ret)
  then show thesis
    using LongDouble l b that pad_less[of ?n "spos b"] sb_append_aligned_16[OF b, of "in_order (s_host b) bs"]
    by (auto simp: marshal_scalar_def sizeof_long_double_def)
qed (use v in \<open>simp_all add: scalar_of_def\<close>)

lemma marshal_scalar_kind:
  "kind f \<in> scalar_kinds \<Longrightarrow> MateCORBA_marshal_value m ops (TC a f subs d) v b = marshal_scalar (kind f) v b"
  by (auto simp: scalar_kinds_def)

lemma demarshal_scalar_kind:
  "kind f \<in> scalar_kinds \<Longrightarrow> MateCORBA_demarshal_value m lp64 n (TC a f subs d) = demarshal_scalar (kind f)"
  by (auto simp: scalar_kinds_def)

lemma scalar_of_kind: "scalar_of k v \<Longrightarrow> k \<in> scalar_kinds"
  by (auto simp: scalar_of_def scalar_kinds_def small_kinds_def split: cval.splits)

lemma parses_signed_length:
  assumes "l < 2 ^ 31" "parses (k l) e q bs v" "l \<le> length bs" "q = p + length (enc_ulong e (of_nat l) p)"
  shows "parses (rd_bind rd_signed_length k) e p (enc_ulong e (of_nat l) p @ bs) v"
proof -
  have u: "unat (of_nat l :: u32) = l" using assms(1) by (intro unat_of_nat_u32) simp
  have s: "\<not> sint (of_nat l :: u32) < 0"
  proof -
    have "uint (of_nat l :: u32) = int l" using u by (metis uint_nat)
    moreover have "int l < 2 ^ 31" using assms(1) by (metis of_nat_less_iff of_nat_numeral of_nat_power)
    ultimately have "sint (of_nat l :: u32) = int l"
      by (simp add: sint_uint signed_take_bit_int_eq_self)
    then show ?thesis by simp
  qed
  show ?thesis
    unfolding rd_signed_length_def rd_bind_assoc
    by (rule parses_bind[OF parses_ulong])
      (use assms s u in \<open>simp add: rd_bind_assoc parses_need\<close>)
qed

lemma string_codec:
  assumes b: "sb_ok b" and s: "c_string s" "length s < 2 ^ 31"
  shows "rbind (c_strlen s) (\<lambda>_. Inr (sb_append_string s b)) = Inr (sb_append (enc_string (s_host b) s (spos b)) b)"
    "parses demarshal_string e p (enc_string e s p) (String s)"
proof -
  show "rbind (c_strlen s) (\<lambda>_. Inr (sb_append_string s b)) = Inr (sb_append (enc_string (s_host b) s (spos b)) b)"
    using s by (simp add: sb_append_string_enc[OF b] string_ok_def)
  have "parses (rd_bind rd_string_dup (\<lambda>s'. rd_bind (rd_skip (length s)) (\<lambda>_. rd_ret (String s')))) e q s (String s)" for q
  proof (rule parsesI)
    fix b assume a: "at_bytes q s b"
    obtain t where t: "s = t @ [0]" "0 \<notin> set t" using s(1) by (rule c_stringE)
    have "drop q (r_mem b) = s @ drop (q + length s) (r_mem b)"
      using a append_take_drop_id[of "length s" "drop q (r_mem b)"]
      by (simp add: at_bytes_def slice_def add.commute)
    then have "drop q (r_mem b) = t @ 0 # drop (q + length s) (r_mem b)" using t by simp
    then have "g_strdup (drop q (r_mem b)) = Inr s"
      using t c_text_append[OF t(2)] by (simp add: g_strdup_def c_terminated_def)
    then show "rd_bind rd_string_dup (\<lambda>s'. rd_bind (rd_skip (length s)) (\<lambda>_. rd_ret (String s'))) b
        = Inr (String s, b\<lparr> r_cur := q + length s \<rparr>)"
      using a s by (simp add: rd_bind_def rd_string_dup_def rd_skip_def rd_ret_def at_bytes_def)
  qed
  then show "parses demarshal_string e p (enc_string e s p) (String s)"
    unfolding demarshal_string_def enc_string_def enc_octets_def
    by (intro parses_signed_length[OF s(2) _ _ refl]) simp_all
qed

lemma two_bytes: "\<exists>a c. u16_bytes e w = [a, c]"
proof -
  have "length (u16_bytes e w) = 2" by simp
  then show ?thesis by (metis (no_types) length_0_conv length_Suc_conv numeral_2_eq_2)
qed

lemma mem_words_bytes:
  "mem_words host (concat (map (u16_bytes e) ws)) = map (\<lambda>w. mem_word host (u16_bytes e w)) ws"
proof (induction ws)
  case (Cons w ws)
  obtain a c where ac: "u16_bytes e w = [a, c]" using two_bytes by blast
  then show ?case using Cons by simp
qed simp

lemma words_length [simp]: "length (concat (map (u16_bytes e) ws)) = 2 * length ws"
  by (induction ws) simp_all

definition enc_wstring :: "endian \<Rightarrow> u16 list \<Rightarrow> nat \<Rightarrow> byte list" where
  "enc_wstring e t p = enc_ulong e (of_nat (2 * length t + 2)) p @ u16_bytes e 0xfeff @ concat (map (u16_bytes e) t)"

lemma w_stringE: assumes "w_string ws" obtains t where "ws = t @ [0]" "0 \<notin> set t" "length t < 2 ^ 29"
  using assms append_butlast_last_id[of ws] unfolding w_string_def by (metis length_append_singleton Suc_lessD)

lemma marshal_wstring_enc:
  assumes b: "sb_ok b" and t: "0 \<notin> set t" "length t < 2 ^ 29"
  shows "marshal_wstring (t @ [0]) b = Inr (sb_append (enc_wstring (s_host b) t (spos b)) b)"
proof -
  have len: "CORBA_wstring_len (t @ [0]) = Inr (of_nat (length t))"
    using t(1) by (induction t) (simp_all add: CORBA_wstring_len_def w_text_def)
  let ?ul = "(of_nat (length t) + 1) * 2 :: u32"
  have ul: "?ul = of_nat (2 * length t + 2)" by (simp add: distrib_right)
  have ul2: "?ul - 2 = of_nat (2 * length t)" by (simp add: algebra_simps)
  have "unat (?ul - 2) = unat (of_nat (2 * length t) :: u32)" unfolding ul2 ..
  also have "\<dots> = 2 * length t" by (rule unat_of_nat_u32) (use t(2) in simp)
  finally have "unat (?ul - 2) = 2 * length t" .
  moreover have "slice 0 (2 * length t) (concat (map (u16_bytes e) (t @ [0]))) = concat (map (u16_bytes e) t)" for e
    by (simp add: slice_def)
  ultimately show ?thesis
    using b len by (simp add: marshal_wstring_def Let_def enc_wstring_def enc_ulong_def ac_simps)
qed

lemma wstring_codec:
  assumes t: "0 \<notin> set t" "length t < 2 ^ 29"
  shows "parses demarshal_wstring e p (enc_wstring e t p) (WString (t @ [0]))"
proof -
  let ?m = "u16_bytes e 0xfeff" and ?bs = "concat (map (u16_bytes e) t)" and ?i = "2 * length t + 2"
  let ?rest = "\<lambda>i b. rbind (if i \<ge> 2 then rd_bytes 2 b else Inr ([], b)) (\<lambda>(m, b').
     let mark = mem_word (r_host b) m :: u16;
         marked = (i \<ge> 2 \<and> (mark = 0xfeff \<or> mark = 0xfffe));
         swap = (if marked then mark = 0xfffe else mem_word (r_host b) [0xfe, 0xff] = (0xfffe :: u16));
         b = (if marked then b' else b); i = (if marked then i - 2 else i)
     in rd_bind (rd_bytes i) (\<lambda>bs. rd_ret (WString ((if swap
           then map GUINT16_SWAP_LE_BE (mem_words (r_host b) (take (i div 2 * 2) bs))
           else mem_words (r_host b) bs) @ [0]))) b)"
  have "parses (?rest ?i) e q (?m @ ?bs) (WString (t @ [0]))" for q
  proof (rule parsesI)
    fix b assume e: "flag_endian (r_flags b) = e" and a: "at_bytes q (?m @ ?bs) b"
    let ?h = "r_host b" and ?b = "b\<lparr> r_cur := q + 2 \<rparr>"
    note w = at_bytes_append[OF a]
    have r1: "rd_bytes 2 b = Inr (?m, ?b)"
      using parsesD[OF parses_bytes e w(1), of 2] by simp
    have r2: "rd_bytes (2 * length t) ?b = Inr (?bs, b\<lparr> r_cur := q + 2 + 2 * length t \<rparr>)"
      using parsesD[OF parses_bytes _ w(2), of "2 * length t" e] e by simp
    have mark: "(mem_word ?h ?m :: u16) = (if e = ?h then 0xfeff else 0xfffe)"
    proof (cases "e = ?h")
      case False
      then have "e = (\<not> ?h)" by simp
      moreover have "GUINT16_SWAP_LE_BE (mem_word e ?m) = mem_word (\<not> e) ?m" by (rule swap16_mem_word) simp
      ultimately have "(mem_word ?h ?m :: u16) = GUINT16_SWAP_LE_BE 0xfeff" by simp
      also have "\<dots> = 0xfffe" by code_simp
      finally show ?thesis using False by simp
    qed simp
    have words: "mem_words ?h ?bs = map (\<lambda>w. mem_word ?h (u16_bytes e w)) t" by (rule mem_words_bytes)
    have swapped: "e \<noteq> ?h \<Longrightarrow> map GUINT16_SWAP_LE_BE (mem_words ?h ?bs) = t"
    proof -
      assume "e \<noteq> ?h"
      then have "e = (\<not> ?h)" by simp
      then have "GUINT16_SWAP_LE_BE (mem_word ?h (u16_bytes e w)) = w" for w
        by (simp add: swap16_mem_word)
      then show ?thesis unfolding words by (simp add: comp_def)
    qed
    have "2 * length t div 2 * 2 = 2 * length t" by simp
    then show "?rest ?i b = Inr (WString (t @ [0]), b\<lparr> r_cur := q + length (?m @ ?bs) \<rparr>)"
      using r1 r2 mark words swapped by (auto simp: Let_def rd_bind_def rd_ret_def)
  qed
  then show ?thesis
    unfolding demarshal_wstring_def enc_wstring_def
    by (intro parses_signed_length[OF _ _ _ refl]) (use t in simp_all)
qed

end
