(* ===== verification/Any_Travel.thy ===== *)
theory Any_Travel imports Any_Round Any_Ops begin

text \<open>
  Values travel: what \<^verbatim>\<open>MateCORBA_marshal_value\<close> writes, \<^verbatim>\<open>MateCORBA_demarshal_value\<close> reads back on a
  machine of either byte order. The induction follows the values of well-formed types; the reader is
  given any TypeCode that is the same as the sender's, because within an any it works with the one it
  has decoded itself.
\<close>

section \<open>What is sent and what arrives\<close>

text \<open>
  An object reference arrives as the one made of its type id and its profiles, with the key in its
  place; it must have profiles the reader understands.
\<close>

definition arriving :: "objref \<Rightarrow> objkey \<Rightarrow> objref res" where
  "arriving obj key = reference (o_type obj) (map (profile_view key) (o_profiles obj))"

definition same_ref :: "objref \<Rightarrow> objref \<Rightarrow> bool" where
  "same_ref obj obj' \<longleftrightarrow> (case o_key obj of None \<Rightarrow> False | Some key \<Rightarrow> arriving obj key = Inr obj')"

definition sendable_ref :: "objref \<Rightarrow> bool" where
  "sendable_ref obj \<longleftrightarrow> (case o_key obj of None \<Rightarrow> False
     | Some key \<Rightarrow> ior_ok key (o_type obj) (o_profiles obj) \<and> (\<exists>obj'. arriving obj key = Inr obj'))"

fun plain :: "cval \<Rightarrow> bool" where
  "plain Void = True" | "plain (Octet _) = True" | "plain (Short _) = True" | "plain (Long _) = True"
| "plain (LongLong _) = True" | "plain (LongDouble _) = True" | "plain (String _) = True"
| "plain (WString _) = True" | "plain _ = False"

text \<open>
  Values are the same up to the addresses and alignments of the TypeCodes in them, and what becomes
  of object references.
\<close>

inductive same_value :: "abi \<Rightarrow> cval \<Rightarrow> cval \<Rightarrow> bool" for m where
  plain: "plain v \<Longrightarrow> same_value m v v"
| any: "same_tc m t t' \<Longrightarrow> same_value m v v' \<Longrightarrow> same_value m (Any t v) (Any t' v')"
| typecode: "same_tc m t t' \<Longrightarrow> same_value m (TypeCode (Some t)) (TypeCode (Some t'))"
| nil: "same_value m (Objref None) (Objref None)"
| objref: "same_ref obj obj' \<Longrightarrow> same_value m (Objref (Some obj)) (Objref (Some obj'))"
| struct: "list_all2 (same_value m) vs vs' \<Longrightarrow> same_value m (Struct vs) (Struct vs')"
| union: "same_value m d d' \<Longrightarrow> same_value m v v' \<Longrightarrow> same_value m (Union d v) (Union d' v')"
| sequence: "list_all2 (same_value m) vs vs' \<Longrightarrow> same_value m (Sequence vs) (Sequence vs')"
| array: "list_all2 (same_value m) vs vs' \<Longrightarrow> same_value m (Array vs) (Array vs')"
  monos list_all2_mono

inductive_cases same_OctetE: "same_value m (Octet w) x"
inductive_cases same_ShortE: "same_value m (Short w) x"
inductive_cases same_LongE: "same_value m (Long w) x"
inductive_cases same_VoidE: "same_value m Void x"

lemma same_integers:
  "same_value m (Octet w8) x \<longleftrightarrow> x = Octet w8" "same_value m (Short w16) x \<longleftrightarrow> x = Short w16"
  "same_value m (Long w32) x \<longleftrightarrow> x = Long w32" "same_value m Void x \<longleftrightarrow> x = Void"
  by (auto intro: same_value.plain elim: same_OctetE same_ShortE same_LongE same_VoidE)

text \<open>
  What can be sent: the TypeCodes of anys, and those sent as values, are complete and the encoder can
  tell their nodes apart; object references have a key and are well formed.
\<close>

fun sendable :: "abi \<Rightarrow> bool \<Rightarrow> cval \<Rightarrow> bool" where
  "sendable m lp64 (Any t v) \<longleftrightarrow> sendable_tc m lp64 t \<and> sendable m lp64 v"
| "sendable m lp64 (TypeCode p) \<longleftrightarrow> (case p of None \<Rightarrow> False | Some t \<Rightarrow> sendable_tc m lp64 t)"
| "sendable m lp64 (Objref p) \<longleftrightarrow> (case p of None \<Rightarrow> True | Some obj \<Rightarrow> sendable_ref obj)"
| "sendable m lp64 (Struct vs) \<longleftrightarrow> list_all (sendable m lp64) vs"
| "sendable m lp64 (Union d v) \<longleftrightarrow> sendable m lp64 d \<and> sendable m lp64 v"
| "sendable m lp64 (Sequence vs) \<longleftrightarrow> list_all (sendable m lp64) vs"
| "sendable m lp64 (Array vs) \<longleftrightarrow> list_all (sendable m lp64) vs"
| "sendable m lp64 v \<longleftrightarrow> True"

text \<open>The anys within anys, and room enough for a value wherever it starts.\<close>

fun any_depth :: "cval \<Rightarrow> nat" where
  "any_depth (Any t v) = Suc (any_depth v)"
| "any_depth (Struct vs) = foldr (\<lambda>v n. max (any_depth v) n) vs 0"
| "any_depth (Union d v) = max (any_depth d) (any_depth v)"
| "any_depth (Sequence vs) = foldr (\<lambda>v n. max (any_depth v) n) vs 0"
| "any_depth (Array vs) = foldr (\<lambda>v n. max (any_depth v) n) vs 0"
| "any_depth v = 0"

fun profile_room :: "objkey \<Rightarrow> profile \<Rightarrow> nat" where
  "profile_room key (INTERNET_IOP i) = 34 + length (iiop_host i) + length key
     + components_len key (iiop_components i)"
| "profile_room key (GENERIC_IOP g) = 38 + length (gen_proto g) + length (gen_host g)
     + length (gen_service g) + components_len key (gen_components g)"
| "profile_room key (MATECORBA_SPECIFIC s) = 34 + length (unix_sock_path s) + length key"
| "profile_room key (MULTIPLE_COMPONENTS cs) = 15 + components_len key cs"
| "profile_room key (UnknownProfile t d) = 14 + length d"

definition ref_room :: "objref \<Rightarrow> nat" where
  "ref_room obj = 14 + length (o_type obj)
     + (case o_key obj of None \<Rightarrow> 0 | Some key \<Rightarrow> sum_list (map (profile_room key) (o_profiles obj)))"

fun room :: "cval \<Rightarrow> nat" where
  "room (String s) = 8 + length s"
| "room (WString ws) = 9 + 2 * length ws"
| "room (Any t v) = tc_len t + room v"
| "room (TypeCode p) = (case p of None \<Rightarrow> 0 | Some t \<Rightarrow> tc_len t)"
| "room (Objref p) = (case p of None \<Rightarrow> 16 | Some obj \<Rightarrow> ref_room obj)"
| "room (Struct vs) = sum_list (map room vs)"
| "room (Union d v) = room d + room v"
| "room (Sequence vs) = 7 + sum_list (map room vs)"
| "room (Array vs) = sum_list (map room vs)"
| "room v = scalar_len v"

section \<open>Room\<close>

lemma ulong_room: "length (enc_ulong e w p) + k \<le> 7 + n" if "k \<le> n"
  using enc_ulong_length[of e w p] that by simp

lemma encaps_room: "(\<And>q. length (x q) \<le> n) \<Longrightarrow> length (enc_encaps e x p) + 7 \<le> 15 + n"
  using enc_encaps_length[of x n e p] by simp

lemma profile_room: "length (enc_profile key e pr p) \<le> profile_room key pr"
proof -
  let ?q = "p + length (enc_ulong e (profile_type pr) p)"
  have "length (enc_profile_data key e pr ?q) + 7 \<le> profile_room key pr"
  proof (cases pr)
    case (INTERNET_IOP i)
    then show ?thesis using encaps_room[OF profile_data_length(1)[of key e i], where e=e and p="?q"] by simp
  next
    case (GENERIC_IOP g)
    then show ?thesis using encaps_room[OF profile_data_length(2)[of key e g], where e=e and p="?q"] by simp
  next
    case (MATECORBA_SPECIFIC s)
    then show ?thesis using encaps_room[OF profile_data_length(3)[of key e s], where e=e and p="?q"] by simp
  next
    case (MULTIPLE_COMPONENTS cs)
    then show ?thesis using encaps_room[OF components_length[of key e cs], where e=e and p="?q"] by simp
  next
    case (UnknownProfile t d)
    then show ?thesis using enc_octets_length[of e d ?q] by simp
  qed
  then show ?thesis using enc_ulong_length[of e "profile_type pr" p] by (simp add: enc_profile_def)
qed

lemma ref_room:
  assumes "o_key obj = Some key"
  shows "length (enc_ior key e (o_type obj) (o_profiles obj) p) \<le> ref_room obj"
proof -
  let ?p = "p + length (enc_string e (o_type obj) p)"
  let ?q = "?p + length (enc_ulong e (of_nat (length (o_profiles obj))) ?p)"
  have "length (enc_list (enc_profile key e) (o_profiles obj) ?q)
      \<le> sum_list (map (profile_room key) (o_profiles obj))"
    by (rule enc_list_length) (rule profile_room)
  then show ?thesis
    using assms enc_string_length[of e "o_type obj" p]
      enc_ulong_length[of e "of_nat (length (o_profiles obj))" ?p]
    by (simp add: enc_ior_def ref_room_def)
qed

section \<open>References\<close>

lemma parses_object:
  assumes ok: "ior_ok key (o_type obj) (o_profiles obj)" and r: "arriving obj key = Inr obj'"
  shows "parses MateCORBA_demarshal_object e p (enc_ior key e (o_type obj) (o_profiles obj) p) (Some obj')"
proof (rule parsesI)
  let ?enc = "enc_ior key e (o_type obj) (o_profiles obj) p" and ?t = "type_id_pos p"
  fix b assume e: "flag_endian (r_flags b) = e" and a: "at_bytes p ?enc b"
  let ?tid = "o_type obj"
  define rest where "rest = enc_ulong e (of_nat (length (o_profiles obj))) (?t + length ?tid)
    @ enc_list (enc_profile key e) (o_profiles obj)
      (?t + length ?tid + length (enc_ulong e (of_nat (length (o_profiles obj))) (?t + length ?tid)))"
  have q: "p + length (enc_ulong e (of_nat (length ?tid)) p) = ?t"
    using pad_pos[of 4 p] by (simp add: type_id_pos_def enc_ulong_def)
  have enc: "?enc = enc_ulong e (of_nat (length ?tid)) p @ ?tid @ rest"
    using q by (simp add: enc_ior_def enc_string_def enc_octets_def rest_def add.assoc[symmetric])
  note w = at_bytes_append[OF a[unfolded enc]]
  have "slice ?t (length ?tid) (r_mem b) = ?tid"
    using at_bytes_append(1)[OF w(2)] q by (simp add: at_bytes_def)
  then have "drop ?t (r_mem b) = ?tid @ drop (?t + length ?tid) (r_mem b)"
    using append_take_drop_id[of "length ?tid" "drop ?t (r_mem b)"] by (simp add: slice_def add.commute)
  moreover obtain t where t: "?tid = t @ [0]" "0 \<notin> set t"
    using ok by (auto simp: ior_ok_def string_ok_def elim: c_stringE)
  ultimately have "g_strdup (drop ?t (r_mem b)) = Inr ?tid"
    using c_text_append[OF t(2)] by (simp add: g_strdup_def c_terminated_def)
  then show "MateCORBA_demarshal_object b = Inr (Some obj', b\<lparr> r_cur := p + length ?enc \<rparr>)"
    using parsesD[OF parses_IOR[OF ok] e a] r
    by (simp add: MateCORBA_demarshal_object_def rd_bind_def arriving_def)
qed

definition enc_nil :: "endian \<Rightarrow> nat \<Rightarrow> byte list" where
  "enc_nil e p = enc_ulong e 1 p @ 0 # enc_ulong e 0 (type_id_pos p + 1)"

lemma nil_pos: "p + length (enc_ulong e w p) = type_id_pos p"
  using pad_pos[of 4 p] by (simp add: type_id_pos_def enc_ulong_def)

lemma marshal_nil:
  assumes "sb_ok b"
  shows "MateCORBA_marshal_object ops None b = Inr (sb_append (enc_nil (s_host b) (spos b)) b)"
proof -
  have "string_ok [0]" by (simp add: string_ok_def c_string_def)
  moreover have pos: "pad 4 (spos b + (ALIGN_VALUE (spos b) 4 - spos b + 5)) = pad 4 (Suc (type_id_pos (spos b)))"
    using ALIGN_VALUE_ge[of 4 "spos b"] by (intro arg_cong[where f = "pad 4"]) (simp add: type_id_pos_def)
  ultimately show ?thesis
    using assms
    by (simp add: pos MateCORBA_marshal_object_def sb_append_string_enc enc_nil_def enc_string_def enc_octets_def
        enc_ulong_def Let_def)
qed

lemma parses_nil: "parses MateCORBA_demarshal_object e p (enc_nil e p) None"
proof -
  let ?cs = CodeSetComponent_demarshal
  let ?rest = "\<lambda>t num buf. if t \<ge> length (r_mem buf) then rd_fail Overrun
     else if r_mem buf ! t = 0 \<and> num = (0 :: u32) then rd_ret None
     else rd_bind (rd_loop (IOP_profile_demarshal ?cs) (unat num)) (\<lambda>profiles.
       rd_ret (Some (t, profiles)))"
  define q where "q = type_id_pos p"
  have mid: "parses (\<lambda>buf. let t = r_cur buf in
     rd_bind (rd_align 4) (\<lambda>_. rd_bind (rd_need 4) (\<lambda>_. rd_bind rd_u32 (\<lambda>num. ?rest t num buf)))
       (buf\<lparr> r_cur := r_cur buf + 1 \<rparr>)) e q ([0] @ enc_ulong e 0 (q + 1)) None"
  proof (rule parsesI)
    fix b assume e: "flag_endian (r_flags b) = e" and a: "at_bytes q ([0] @ enc_ulong e 0 (q + 1)) b"
    have b: "q < length (r_mem b)" "r_cur b = q" "r_mem b ! q = 0"
      using a at_bytes_nth[OF a, of 0] by (auto simp: at_bytes_def)
    have "parses (rd_bind (rd_align 4) (\<lambda>_. rd_bind (rd_need 4) (\<lambda>_. rd_bind rd_u32 (\<lambda>num. ?rest q num b))))
        e (q + 1) (enc_ulong e 0 (q + 1)) None"
      unfolding enc_ulong_def
      by (intro parses_bind[OF parses_align] parses_need parses_bind[OF parses_u32, where bs = "[]", simplified])
        (use b in \<open>simp_all add: parses_def rd_ret_def at_bytes_def\<close>)
    from parsesD[OF this, of "b\<lparr> r_cur := q + 1 \<rparr>"] show "(let t = r_cur b in
      rd_bind (rd_align 4) (\<lambda>_. rd_bind (rd_need 4) (\<lambda>_. rd_bind rd_u32 (\<lambda>num. ?rest t num b)))
       (b\<lparr> r_cur := r_cur b + 1 \<rparr>)) = Inr (None, b\<lparr> r_cur := q + length ([0] @ enc_ulong e 0 (q + 1)) \<rparr>)"
      using b e at_bytes_append(2)[OF a] by (simp add: add.assoc)
  qed
  have ulong: "enc_ulong e 1 p = pad 4 p @ u32_bytes e 1" by (simp add: enc_ulong_def)
  have ior: "parses (MateCORBA_demarshal_IOR ?cs) e p (enc_nil e p) None"
    unfolding MateCORBA_demarshal_IOR_def enc_nil_def ulong append_assoc q_def[symmetric]
    by (intro parses_bind[OF parses_align] parses_need parses_bind[OF parses_u32])
      (use mid nil_pos[of p e 1] in \<open>simp_all add: add.assoc q_def ulong\<close>)
  show ?thesis
  proof (rule parsesI)
    fix b assume "flag_endian (r_flags b) = e" "at_bytes p (enc_nil e p) b"
    from parsesD[OF ior this]
    show "MateCORBA_demarshal_object b = Inr (None, b\<lparr> r_cur := p + length (enc_nil e p) \<rparr>)"
      by (simp add: MateCORBA_demarshal_object_def rd_bind_def)
  qed
qed

lemma nil_room: "length (enc_nil e p) \<le> 16"
  using enc_ulong_length[of e 1 p] enc_ulong_length[of e 0 "type_id_pos p + 1"] by (simp add: enc_nil_def)

section \<open>TypeCodes that are the same\<close>

lemma same_tc_parts:
  assumes "same_tc m (TC a f (map Some ts) d) u"
  obtains a' f' us d' where "u = TC a' f' (map Some us) d'" "canon_fields f' = canon_fields f"
    "kind f' = kind f" "list_all2 (same_tc m) ts us" "rel_option (same_tc m) d d'" "tc_ok m u"
proof -
  obtain a' f' subs d' where u: "u = TC a' f' subs d'" by (cases u)
  have ok: "tc_ok m (TC a' f' subs d')" and c: "canon_fields f' = canon_fields f"
    "map (map_option canon) subs = map (map_option canon) (map Some ts)" "map_option canon d' = map_option canon d"
    using assms u by (simp_all add: same_tc_def)
  have "None \<notin> set subs" using ok by simp
  then obtain us where us: "subs = map Some us" by (metis ex_map_conv not_None_eq)
  have "list_all (tc_ok m) us" using ok us by (simp add: list_all_iff)
  moreover have "map Some (map canon us) = map Some (map canon ts)" using c(2) us by (simp add: comp_def)
  then have "map canon us = map canon ts" by (simp only: inj_map_eq_map[OF inj_Some])
  ultimately have "list_all2 (same_tc m) ts us"
    by (auto simp: same_tc_def list_all2_conv_all_nth list_all_length list_eq_iff_nth_eq)
  moreover have "rel_option (same_tc m) d d'"
    using c(3) ok by (cases d; cases d') (auto simp: same_tc_def)
  moreover have "kind f' = kind f" using c(1) by (metis canon_fields_kind)
  ultimately show thesis using that u us c(1) ok by blast
qed

lemma same_tc_one:
  assumes "same_tc m (TC a f [Some t] d) u"
  obtains a' f' t' d' where "u = TC a' f' [Some t'] d'" "kind f' = kind f" "same_tc m t t'"
    "canon_fields f' = canon_fields f"
proof -
  have "same_tc m (TC a f (map Some [t]) d) u" using assms by simp
  then obtain a' f' us d' where u: "u = TC a' f' (map Some us) d'" "canon_fields f' = canon_fields f"
    "kind f' = kind f" "list_all2 (same_tc m) [t] us" by (rule same_tc_parts)
  then show thesis using that by (auto simp: list_all2_Cons1)
qed

lemma same_tc_kind:
  assumes "same_tc m (TC a f subs d) u"
  obtains a' f' subs' d' where "u = TC a' f' subs' d'" "kind f' = kind f" "tc_ok m u"
proof -
  obtain a' f' subs' d' where u: "u = TC a' f' subs' d'" by (cases u)
  have "canon_fields f' = canon_fields f" using assms u by (simp add: same_tc_def)
  then have "kind f' = kind f" by (metis canon_fields_kind)
  then show thesis using that u assms by (simp add: same_tc_def)
qed

section \<open>The discriminator and its member\<close>

text \<open>The discriminators that select a member are integers, so they arrive as they were sent.\<close>

lemma switch_canon: "MateCORBA_get_union_switch (canon t) v = MateCORBA_get_union_switch t v"
proof (induction t)
  case (TC a f subs d)
  have "\<And>t r. subs = Some t # r \<Longrightarrow> MateCORBA_get_union_switch (canon t) v = MateCORBA_get_union_switch t v"
    using TC(1) by fastforce
  note head = this
  show ?case
  proof (cases "kind f = tk_alias")
    case True
    then show ?thesis using head by (cases subs; cases "hd subs") simp_all
  qed (cases "kind f"; simp)
qed

lemma switch_same:
  assumes "same_tc m t u" shows "MateCORBA_get_union_switch u v = MateCORBA_get_union_switch t v"
  using assms switch_canon[of t v] switch_canon[of u v] by (simp add: same_tc_def)

lemma switch_integer:
  "MateCORBA_get_union_switch t v = Inr i \<Longrightarrow> same_value m v w \<Longrightarrow> w = v"
proof (induction t)
  case (TC a f subs d)
  have "\<And>t r. subs = Some t # r \<Longrightarrow> MateCORBA_get_union_switch t v = Inr i \<Longrightarrow> w = v"
    using TC by fastforce
  note head = this
  show ?case
  proof (cases "kind f = tk_alias")
    case True
    then show ?thesis using head TC.prems by (cases subs; cases "hd subs") simp_all
  next
    case False
    have "MateCORBA_get_union_switch (TC a f subs d) v = Inr i" by (rule TC.prems)
    then have "(\<exists>c. v = Octet c) \<or> (\<exists>h. v = Short h) \<or> (\<exists>l. v = Long l)"
      using False by (cases "kind f") (simp_all split: cval.splits)
    then show ?thesis using TC.prems(2) by (auto simp: same_integers)
  qed
qed

lemma member_same:
  assumes s: "same_tc m (TC a f subs (Some e)) u" and k: "kind f = tk_union"
  shows "union_member u v = union_member (TC a f subs (Some e)) v"
proof -
  obtain a' f' subs' d' where u: "u = TC a' f' subs' d'" by (cases u)
  have c: "canon_fields f' = canon_fields f" "map (map_option canon) subs' = map (map_option canon) subs"
    "map_option canon d' = Some (canon e)" "kind f' = tk_union"
    using s u k canon_kind[of u "TC a f subs (Some e)"] by (simp_all add: same_tc_def)
  obtain e' where e': "d' = Some e'" "canon e' = canon e" using c(3) by auto
  have f: "default_index f' = default_index f" "sub_parts f' = sub_parts f" "sublabels f' = sublabels f"
    using arg_cong[OF c(1), of default_index] arg_cong[OF c(1), of sub_parts] arg_cong[OF c(1), of sublabels] c(4) k
    by (simp_all add: canon_fields_def Let_def)
  have l: "length subs' = length subs" using c(2) by (metis length_map)
  have n: "subs' ! i \<noteq> None \<longleftrightarrow> subs ! i \<noteq> None" if "i < length subs" for i
    using arg_cong[OF c(2), of "\<lambda>xs. xs ! i"] that l by (cases "subs' ! i"; cases "subs ! i") simp_all
  have "MateCORBA_get_union_switch e' v = MateCORBA_get_union_switch e v"
    using e'(2) switch_canon[of e v] switch_canon[of e' v] by simp
  then show ?thesis unfolding u e'(1) union_member_def
    using f l n by (auto simp: Let_def intro!: rbind_cong split: option.splits)
qed

lemma member_integer:
  "union_member t v = Inr r \<Longrightarrow> same_value m v w \<Longrightarrow> w = v"
  by (auto simp: union_member_def rbind_eq_Inr split: option.splits dest: switch_integer)

section \<open>Travelling\<close>

definition travels :: "abi \<Rightarrow> bool \<Rightarrow> profile list \<Rightarrow> tc \<Rightarrow> cval \<Rightarrow> bool" where
  "travels m lp64 ops t v \<longleftrightarrow> (\<forall>u b n. same_tc m t u \<longrightarrow> sb_ok b \<longrightarrow> s_header_size b = 12
     \<longrightarrow> spos b + room v < 2 ^ 32 \<longrightarrow> any_depth v \<le> n
     \<longrightarrow> (\<exists>bs w. MateCORBA_marshal_value m ops t v b = Inr (sb_append bs b) \<and> length bs \<le> room v
       \<and> any_depth v \<le> length bs
       \<and> tparses 0 (MateCORBA_demarshal_value m lp64 n u) (s_host b) (spos b) bs w \<and> same_value m v w))"

lemma travelsI:
  assumes "\<And>u b n. same_tc m t u \<Longrightarrow> sb_ok b \<Longrightarrow> s_header_size b = 12 \<Longrightarrow> spos b + room v < 2 ^ 32
    \<Longrightarrow> any_depth v \<le> n \<Longrightarrow> \<exists>bs w. MateCORBA_marshal_value m ops t v b = Inr (sb_append bs b)
      \<and> length bs \<le> room v \<and> any_depth v \<le> length bs
      \<and> tparses 0 (MateCORBA_demarshal_value m lp64 n u) (s_host b) (spos b) bs w \<and> same_value m v w"
  shows "travels m lp64 ops t v"
  using assms unfolding travels_def by blast

lemma travelsE:
  assumes "travels m lp64 ops t v" "same_tc m t u" "sb_ok b" "s_header_size b = 12"
    "spos b + room v < 2 ^ 32" "any_depth v \<le> n"
  obtains bs w where "MateCORBA_marshal_value m ops t v b = Inr (sb_append bs b)" "length bs \<le> room v"
    "any_depth v \<le> length bs" "tparses 0 (MateCORBA_demarshal_value m lp64 n u) (s_host b) (spos b) bs w"
    "same_value m v w"
  using assms unfolding travels_def by blast

abbreviation depth :: "cval list \<Rightarrow> nat" where "depth vs \<equiv> foldr (\<lambda>v n. max (any_depth v) n) vs 0"

lemma elements_each:
  assumes "tc_kind t \<notin> small_kinds"
  shows "marshal_elements m ops t (length []) [] b = Inr b"
    "marshal_elements m ops t (length (v # vs)) (v # vs) b = rbind (MateCORBA_marshal_value m ops t v b)
       (marshal_elements m ops t (length vs) vs)"
  using assms by simp_all

lemma elements_travel:
  assumes "list_all (travels m lp64 ops t) vs" "same_tc m t u" "tc_kind t \<notin> small_kinds"
    "sb_ok b" "s_header_size b = 12" "spos b + sum_list (map room vs) < 2 ^ 32" "depth vs \<le> n"
  shows "\<exists>bs ws. marshal_elements m ops t (length vs) vs b = Inr (sb_append bs b)
    \<and> length bs \<le> sum_list (map room vs) \<and> depth vs \<le> length bs
    \<and> tparses 0 (rd_loop (MateCORBA_demarshal_value m lp64 n u) (length vs)) (s_host b) (spos b) bs ws
    \<and> list_all2 (same_value m) vs ws"
  using assms
proof (induction vs arbitrary: b)
  case Nil
  show ?case
    using elements_each(1)[OF Nil.prems(3), of m ops b]
    by (intro exI[of _ "[]"]) (simp add: tparses_ret del: marshal_elements.simps)
next
  case (Cons v vs)
  obtain bs w where v: "MateCORBA_marshal_value m ops t v b = Inr (sb_append bs b)" "length bs \<le> room v"
    "any_depth v \<le> length bs" "tparses 0 (MateCORBA_demarshal_value m lp64 n u) (s_host b) (spos b) bs w"
    "same_value m v w"
    by (rule travelsE[of m lp64 ops t v u b n]) (use Cons.prems in simp_all)
  let ?b = "sb_append bs b"
  obtain cs ws where vs: "marshal_elements m ops t (length vs) vs ?b = Inr (sb_append cs ?b)"
    "length cs \<le> sum_list (map room vs)" "depth vs \<le> length cs"
    "tparses 0 (rd_loop (MateCORBA_demarshal_value m lp64 n u) (length vs)) (s_host b) (spos b + length bs) cs ws"
    "list_all2 (same_value m) vs ws"
    using Cons.IH[of ?b] Cons.prems v(2) by auto
  have "tparses 0 (rd_loop (MateCORBA_demarshal_value m lp64 n u) (length (v # vs))) (s_host b) (spos b)
      (bs @ cs) (w # ws)"
    unfolding list.size rd_loop.simps by (simp, intro tparses_bind[OF v(4)] tparses_bind_ret[OF vs(4)] refl)
  then show ?case
    using v(1,2,3,5) vs(1,2,3,5) elements_each(2)[OF Cons.prems(3), of m ops v vs b]
    by (intro exI[of _ "bs @ cs"] exI[of _ "w # ws"]) (simp del: marshal_elements.simps)
qed

lemma members_travel:
  assumes "list_all2 (\<lambda>t v. tc_ok m t \<and> travels m lp64 ops t v) ts vs" "list_all2 (same_tc m) ts us"
    "sb_ok b" "s_header_size b = 12" "spos b + sum_list (map room vs) < 2 ^ 32" "depth vs \<le> n"
  shows "\<exists>bs ws. marshal_members m ops (length ts) (map Some ts) vs b = Inr (sb_append bs b)
    \<and> length bs \<le> sum_list (map room vs) \<and> depth vs \<le> length bs
    \<and> tparses 0 (demarshal_members m lp64 n (length ts) (map Some us)) (s_host b) (spos b) bs ws
    \<and> list_all2 (same_value m) vs ws"
  using assms
proof (induction ts vs arbitrary: us b rule: list_all2_induct)
  case Nil
  then show ?case by (intro exI[of _ "[]"]) (simp add: tparses_ret)
next
  case (Cons t ts v vs)
  obtain u us' where us: "us = u # us'" "same_tc m t u" "list_all2 (same_tc m) ts us'"
    using Cons.prems(1) by (auto simp: list_all2_Cons1)
  obtain bs w where v: "MateCORBA_marshal_value m ops t v b = Inr (sb_append bs b)" "length bs \<le> room v"
    "any_depth v \<le> length bs" "tparses 0 (MateCORBA_demarshal_value m lp64 n u) (s_host b) (spos b) bs w"
    "same_value m v w"
    by (rule travelsE[of m lp64 ops t v u b n]) (use Cons us in simp_all)
  let ?b = "sb_append bs b"
  obtain cs ws where vs: "marshal_members m ops (length ts) (map Some ts) vs ?b = Inr (sb_append cs ?b)"
    "length cs \<le> sum_list (map room vs)" "depth vs \<le> length cs"
    "tparses 0 (demarshal_members m lp64 n (length ts) (map Some us')) (s_host b) (spos b + length bs) cs ws"
    "list_all2 (same_value m) vs ws"
    using Cons.IH[OF us(3), of ?b] Cons.prems v(2) by auto
  obtain s s' where g: "MateCORBA_gather_alloc_info m t = Inr s" "MateCORBA_gather_alloc_info m u = Inr s'"
    using gather_defined[of m t] gather_defined[of m u] Cons.hyps us(2) by (auto simp: same_tc_def)
  have lift: "rd_bind (rd_lift (Inr s')) k = k s'" for k :: "u64 \<Rightarrow> cval list reader"
    by (rule ext) (simp add: rd_bind_def rd_lift_def)
  have "tparses 0 (demarshal_members m lp64 n (length (t # ts)) (map Some us)) (s_host b) (spos b) (bs @ cs) (w # ws)"
    unfolding us(1) by (simp add: g lift, intro tparses_bind[OF v(4)] tparses_bind_ret[OF vs(4)] refl)
  then show ?case
    using v(1,2,3,5) vs(1,2,3,5) g
    by (intro exI[of _ "bs @ cs"] exI[of _ "w # ws"]) simp
qed

section \<open>Every value of a well-formed type travels\<close>

lemma tparses_lift:
  "tparses \<beta> (k x) e p bs v \<Longrightarrow> tparses \<beta> (rd_bind (rd_lift (Inr x)) k) e p bs v"
  by (simp add: tparses_def rd_bind_def rd_lift_def)

lemma tparses_deref: "tparses \<beta> m e p bs (Some x) \<Longrightarrow> tparses \<beta> (rd_deref m) e p bs x"
  unfolding rd_deref_def
  using tparses_bind[of \<beta> m e p bs "Some x" "\<lambda>p. case p of None \<Rightarrow> rd_fail Abort | Some x \<Rightarrow> rd_ret x" "[]" x]
  by (simp add: tparses_ret)

lemma typecode_not_empty: "tparses 0 (rd_typecode m lp64) e p bs (Some t) \<Longrightarrow> 0 < length bs"
proof (rule ccontr)
  define b where "b = \<lparr> r_host = True, r_mem = replicate p 0, r_flags = GIOP_FLAG_ENDIANNESS e,
    r_version = GIOP_1_2, r_type = 0, r_size = 0, r_body = 0, r_cur = p, r_end = p \<rparr>"
  assume p: "tparses 0 (rd_typecode m lp64) e p bs (Some t)" and "\<not> 0 < length bs"
  then have "bs = []" by simp
  then have "at_bytes p bs b" by (simp add: b_def at_bytes_def)
  then have "rd_typecode m lp64 b = Inr (Some t, b\<lparr> r_cur := p + length bs \<rparr>)"
    by (intro tparsesD[OF p]) (simp_all add: b_def)
  moreover have "rd_typecode m lp64 b = Inl Broken"
    using ALIGN_VALUE_ge[of 4 p]
    by (simp add: rd_typecode_def MateCORBA_decode_CORBA_TypeCode_def CDR_get_ulong_def CDR_get_def rd_bind_def
        rd_align_def rd_ret_def rd_fail_def b_def)
  ultimately show False by simp
qed

lemma travels_any:
  assumes k: "kind f = tk_any" and s: "sendable_tc m lp64 t" and t: "tc_ok m t" and v: "travels m lp64 ops t v"
  shows "travels m lp64 ops (TC a f subs d) (Any t v)"
proof (rule travelsI)
  fix u b n assume u: "same_tc m (TC a f subs d) u" and b: "sb_ok b" "s_header_size b = 12"
    and room: "spos b + room (Any t v) < 2 ^ 32" and n: "any_depth (Any t v) \<le> n"
  obtain a' f' subs' d' where u': "u = TC a' f' subs' d'" "kind f' = kind f" by (rule same_tc_kind[OF u])
  obtain n' where n': "n = Suc n'" "any_depth v \<le> n'" using n by (cases n) auto
  obtain bs t' where t': "MateCORBA_encode_CORBA_TypeCode t b = Inr (sb_append bs b)" "length bs \<le> tc_len t"
    "tparses 0 (rd_typecode m lp64) (s_host b) (spos b) bs (Some t')" "same_tc m t t'"
    by (rule typecode_codec[OF b s]) (use room in simp)
  let ?b = "sb_append bs b"
  obtain cs w where w: "MateCORBA_marshal_value m ops t v ?b = Inr (sb_append cs ?b)" "length cs \<le> room v"
    "any_depth v \<le> length cs" "tparses 0 (MateCORBA_demarshal_value m lp64 n' t') (s_host b) (spos b + length bs) cs w"
    "same_value m v w"
    by (rule travelsE[OF v t'(4), of ?b n']) (use b room t'(2) n' in auto)
  obtain s where s: "MateCORBA_alloc_by_tc m t' = Inr s"
    using alloc_defined(1)[of m t'] t'(4) by (auto simp: same_tc_def)
  have "tparses 0 (MateCORBA_demarshal_value m lp64 n u) (s_host b) (spos b) (bs @ cs) (Any t' w)"
    using k u' by (simp add: n'(1) MateCORBA_demarshal_any_def,
      intro tparses_bind[OF tparses_deref[OF t'(3)]]) (simp add: s, intro tparses_lift tparses_bind_ret[OF w(4)] refl)
  moreover have "Suc (any_depth v) \<le> length bs + length cs"
    using typecode_not_empty[OF t'(3)] w(3) by linarith
  ultimately show "\<exists>bs w. MateCORBA_marshal_value m ops (TC a f subs d) (Any t v) b = Inr (sb_append bs b)
      \<and> length bs \<le> room (Any t v) \<and> any_depth (Any t v) \<le> length bs
      \<and> tparses 0 (MateCORBA_demarshal_value m lp64 n u) (s_host b) (spos b) bs w \<and> same_value m (Any t v) w"
    using k t'(1,2,4) w(1,2,5)
    by (intro exI[of _ "bs @ cs"] exI[of _ "Any t' w"]) (simp add: same_value.any)
qed

lemma travels_object:
  assumes k: "kind f = tk_objref" and s: "sendable m lp64 (Objref p)"
  shows "travels m lp64 ops (TC a f subs d) (Objref p)"
proof (rule travelsI)
  fix u b n assume u: "same_tc m (TC a f subs d) u" and b: "sb_ok b" "s_header_size b = 12"
  obtain a' f' subs' d' where u': "u = TC a' f' subs' d'" "kind f' = kind f" by (rule same_tc_kind[OF u])
  obtain bs q where q: "MateCORBA_marshal_object ops p b = Inr (sb_append bs b)" "length bs \<le> room (Objref p)"
    "parses MateCORBA_demarshal_object (s_host b) (spos b) bs q" "same_value m (Objref p) (Objref q)"
  proof (cases p)
    case None
    then show thesis
      using that[of "enc_nil (s_host b) (spos b)" None] marshal_nil[OF b(1)] nil_room parses_nil same_value.nil by simp
  next
    case (Some obj)
    then obtain key obj' where key: "o_key obj = Some key" "ior_ok key (o_type obj) (o_profiles obj)"
      "arriving obj key = Inr obj'"
      using s by (auto simp: sendable_ref_def split: option.splits)
    show thesis
      by (rule that[of "enc_ior key (s_host b) (o_type obj) (o_profiles obj) (spos b)" "Some obj'"])
        (use Some key in \<open>simp_all add: marshal_object_enc[OF b(1) key(2,1)] ref_room[OF key(1)]
          parses_object[OF key(2,3)] same_value.objref same_ref_def\<close>)
  qed
  have "parses (MateCORBA_demarshal_value m lp64 n u) (s_host b) (spos b) bs (Objref q)"
    using k u' by (auto intro: parses_bind_ret[OF q(3)])
  then show "\<exists>bs w. MateCORBA_marshal_value m ops (TC a f subs d) (Objref p) b = Inr (sb_append bs b)
      \<and> length bs \<le> room (Objref p) \<and> any_depth (Objref p) \<le> length bs
      \<and> tparses 0 (MateCORBA_demarshal_value m lp64 n u) (s_host b) (spos b) bs w \<and> same_value m (Objref p) w"
    using k q(1,2,4)
    by (intro exI[of _ bs] exI[of _ "Objref q"]) (simp add: parses_tparses)
qed

lemma travels_typecode:
  assumes k: "kind f = tk_TypeCode" and s: "sendable m lp64 (TypeCode p)"
  shows "travels m lp64 ops (TC a f subs d) (TypeCode p)"
proof (rule travelsI)
  fix u b n assume u: "same_tc m (TC a f subs d) u" and b: "sb_ok b" "s_header_size b = 12"
    and room: "spos b + room (TypeCode p) < 2 ^ 32"
  obtain a' f' subs' d' where u': "u = TC a' f' subs' d'" "kind f' = kind f" by (rule same_tc_kind[OF u])
  obtain t where t: "p = Some t" "sendable_tc m lp64 t" using s by (auto split: option.splits)
  obtain bs t' where t': "MateCORBA_encode_CORBA_TypeCode t b = Inr (sb_append bs b)" "length bs \<le> tc_len t"
    "tparses 0 (rd_typecode m lp64) (s_host b) (spos b) bs (Some t')" "same_tc m t t'"
    by (rule typecode_codec[OF b t(2)]) (use room t in simp)
  have "tparses 0 (MateCORBA_demarshal_value m lp64 n u) (s_host b) (spos b) bs (TypeCode (Some t'))"
    using k u' by (auto intro: tparses_bind_ret[OF t'(3)])
  then show "\<exists>bs w. MateCORBA_marshal_value m ops (TC a f subs d) (TypeCode p) b = Inr (sb_append bs b)
      \<and> length bs \<le> room (TypeCode p) \<and> any_depth (TypeCode p) \<le> length bs
      \<and> tparses 0 (MateCORBA_demarshal_value m lp64 n u) (s_host b) (spos b) bs w \<and> same_value m (TypeCode p) w"
    using k t(1) t'(1,2,4)
    by (intro exI[of _ bs] exI[of _ "TypeCode (Some t')"]) (simp add: same_value.typecode)
qed
lemma travels_struct:
  assumes k: "kind f = tk_struct \<or> kind f = tk_except" and ts: "subs = map Some ts" "unat (sub_parts f) = length ts"
    and vs: "list_all2 (\<lambda>t v. tc_ok m t \<and> travels m lp64 ops t v) ts vs"
  shows "travels m lp64 ops (TC a f subs d) (Struct vs)"
proof (rule travelsI)
  fix u b n assume u: "same_tc m (TC a f subs d) u" and b: "sb_ok b" "s_header_size b = 12"
    and room: "spos b + room (Struct vs) < 2 ^ 32" and n: "any_depth (Struct vs) \<le> n"
  obtain a' f' us d' where u': "u = TC a' f' (map Some us) d'" "kind f' = kind f" "list_all2 (same_tc m) ts us"
    "tc_ok m u" by (rule same_tc_parts[OF u[unfolded ts(1)]])
  have parts: "unat (sub_parts f') = length ts"
    using tc_ok_members[of m a' f' "map Some us" d'] u' k list_all2_lengthD[OF u'(3)] by auto
  obtain bs ws where ws: "marshal_members m ops (length ts) (map Some ts) vs b = Inr (sb_append bs b)"
    "length bs \<le> sum_list (map room vs)" "depth vs \<le> length bs"
    "tparses 0 (demarshal_members m lp64 n (length ts) (map Some us)) (s_host b) (spos b) bs ws"
    "list_all2 (same_value m) vs ws"
    using members_travel[OF vs u'(3) b, of n] room n by auto
  have "tparses 0 (MateCORBA_demarshal_value m lp64 n u) (s_host b) (spos b) bs (Struct ws)"
    using k u'(2) by (auto simp: u'(1) parts intro: tparses_bind_ret[OF ws(4)])
  then show "\<exists>bs w. MateCORBA_marshal_value m ops (TC a f subs d) (Struct vs) b = Inr (sb_append bs b)
      \<and> length bs \<le> room (Struct vs) \<and> any_depth (Struct vs) \<le> length bs
      \<and> tparses 0 (MateCORBA_demarshal_value m lp64 n u) (s_host b) (spos b) bs w \<and> same_value m (Struct vs) w"
    using k ts ws(1,2,3,5) by (intro exI[of _ bs] exI[of _ "Struct ws"]) (auto simp: same_value.struct)
qed

lemma demarshal_nth_Some: "nth_type i subs = Inr t \<Longrightarrow> demarshal_nth m lp64 n i subs = MateCORBA_demarshal_value m lp64 n t"
proof (induction i subs rule: nth_type.induct)
  case (2 x xs)
  then show ?case by (cases x) simp_all
qed simp_all

lemma travels_union:
  assumes k: "kind f = tk_union" and ok: "tc_ok m (TC a f subs (Some e))"
    and discrim: "travels m lp64 ops e discrim"
    and r: "union_member (TC a f subs (Some e)) discrim = Inr r" "r = None \<Longrightarrow> body = Void"
    and body: "\<And>i. r = Some i \<Longrightarrow> \<exists>t. nth_type i subs = Inr t \<and> travels m lp64 ops t body"
  shows "travels m lp64 ops (TC a f subs (Some e)) (Union discrim body)"
proof (rule travelsI)
  fix u b n assume u: "same_tc m (TC a f subs (Some e)) u" and b: "sb_ok b" "s_header_size b = 12"
    and room: "spos b + room (Union discrim body) < 2 ^ 32" and n: "any_depth (Union discrim body) \<le> n"
  have "None \<notin> set subs" using ok by simp
  then obtain ts where ts: "subs = map Some ts" by (metis ex_map_conv not_None_eq)
  obtain a' f' us d' where u': "u = TC a' f' (map Some us) d'" "kind f' = kind f" "list_all2 (same_tc m) ts us"
    "rel_option (same_tc m) (Some e) d'" "tc_ok m u" by (rule same_tc_parts[OF u[unfolded ts]])
  obtain e' where e': "d' = Some e'" "same_tc m e e'" using u'(4) by (auto simp: option_rel_Some1)
  obtain bs w where w: "MateCORBA_marshal_value m ops e discrim b = Inr (sb_append bs b)" "length bs \<le> room discrim"
    "any_depth discrim \<le> length bs" "tparses 0 (MateCORBA_demarshal_value m lp64 n e') (s_host b) (spos b) bs w"
    "same_value m discrim w"
    by (rule travelsE[OF discrim e'(2), of b n]) (use b room n in simp_all)
  have w': "w = discrim" by (rule member_integer[OF r(1) w(5)])
  have r': "union_member u discrim = Inr r" using member_same[OF u k] r(1) by simp
  have g: "\<exists>s. gather_union m 1 None 0 (unat (sub_parts f)) subs = Inr s"
    "\<exists>s. gather_union m 1 None 0 (unat (sub_parts f')) (map Some us) = Inr s"
    using gather_union_defined[of m subs 1 None 0] gather_union_defined[of m "map Some us" 1 None 0]
      tc_ok_members[OF ok] tc_ok_members[of m a' f' "map Some us" d'] ok u' k by auto
  let ?b = "sb_append bs b" and ?k = "\<lambda>r discrim. case r of None \<Rightarrow> rd_ret (Union discrim Void)
    | Some i \<Rightarrow> rd_bind (demarshal_nth m lp64 n i (map Some us)) (\<lambda>body. rd_ret (Union discrim body))"
  obtain cs x where x: "(case r of None \<Rightarrow> Inr ?b
        | Some i \<Rightarrow> rbind (nth_type i subs) (\<lambda>t. MateCORBA_marshal_value m ops t body ?b)) = Inr (sb_append cs ?b)"
    "length cs \<le> room body" "any_depth body \<le> length cs"
    "tparses 0 (?k r discrim) (s_host b) (spos b + length bs) cs (Union discrim x)" "same_value m body x"
  proof (cases r)
    case None
    then show thesis
      using that[of "[]" Void] r(2) same_value.plain[of Void m] by (simp add: tparses_ret)
  next
    case (Some i)
    then obtain t where t: "nth_type i subs = Inr t" "travels m lp64 ops t body" using body by blast
    then have i: "i < length ts" "ts ! i = t" by (auto simp: nth_type_iff ts)
    then have s: "same_tc m t (us ! i)" "nth_type i (map Some us) = Inr (us ! i)"
      using u'(3) by (auto simp: list_all2_conv_all_nth nth_type_iff)
    show thesis
    proof (rule travelsE[OF t(2) s(1), of ?b n])
      fix cs x
      assume cs: "MateCORBA_marshal_value m ops t body ?b = Inr (sb_append cs ?b)" "length cs \<le> room body"
        "any_depth body \<le> length cs" "same_value m body x"
        and x: "tparses 0 (MateCORBA_demarshal_value m lp64 n (us ! i)) (s_host ?b) (spos ?b) cs x"
      have "tparses 0 (?k r discrim) (s_host b) (spos b + length bs) cs (Union discrim x)"
        using x by (simp add: Some demarshal_nth_Some[OF s(2)] tparses_bind_ret)
      then show thesis using that cs t(1) Some by simp
    qed (use b room n w(2) in auto)
  qed
  have "tparses 0 (MateCORBA_demarshal_value m lp64 n u) (s_host b) (spos b) (bs @ cs) (Union discrim x)"
  proof -
    obtain s where s: "gather_union m 1 None 0 (unat (sub_parts f')) (map Some us) = Inr s" using g(2) by blast
    have r'': "union_member (TC a' f' (map Some us) (Some e')) discrim = Inr r" using r' u'(1) e'(1) by simp
    let ?j = "\<lambda>discrim. rd_bind (rd_lift (union_member (TC a' f' (map Some us) (Some e')) discrim)) (\<lambda>r.
       rd_bind (rd_lift (gather_union m 1 None 0 (unat (sub_parts f')) (map Some us))) (\<lambda>_. ?k r discrim))"
    have "tparses 0 (?j discrim) (s_host b) (spos b + length bs) cs (Union discrim x)"
      unfolding r'' s by (rule tparses_lift, rule tparses_lift, rule x(4))
    from tparses_bind[where k = ?j, OF w(4)[unfolded w'] this] show ?thesis
      using k u'(2) by (simp add: u'(1) e'(1))
  qed
  then show "\<exists>bs w. MateCORBA_marshal_value m ops (TC a f subs (Some e)) (Union discrim body) b = Inr (sb_append bs b)
      \<and> length bs \<le> room (Union discrim body) \<and> any_depth (Union discrim body) \<le> length bs
      \<and> tparses 0 (MateCORBA_demarshal_value m lp64 n u) (s_host b) (spos b) bs w
      \<and> same_value m (Union discrim body) w"
    using k w(1,2,3,5) x(1,2,3,5) r(1) g(1)
    by (intro exI[of _ "bs @ cs"] exI[of _ "Union discrim x"]) (auto simp: w' same_value.union)
qed
text \<open>Sequences and arrays, of octets and of anything else.\<close>

lemma octets_typed:
  assumes "tc_kind t \<in> small_kinds" "list_all (typed m t) vs"
  obtains cs where "vs = map Octet cs" "octets_of vs = Inr cs"
proof -
  have "\<exists>c. v = Octet c" if "typed m t v" for v
    using that assms(1) by (cases t; cases v) (auto simp: small_kinds_def scalar_of_def)
  then have "\<exists>cs. vs = map Octet cs" using assms(2) by (induction vs) (auto, metis list.simps(9))
  moreover have "octets_of (map Octet cs) = Inr cs" for cs by (induction cs) simp_all
  ultimately show thesis using that by blast
qed

lemma octet_reader: "tc_kind u \<in> small_kinds \<Longrightarrow> MateCORBA_demarshal_value m lp64 n u = demarshal_scalar (tc_kind u)"
  by (cases u) (auto simp: small_kinds_def)

lemma octets_same: "list_all2 (same_value m) (map Octet cs) (map Octet cs)"
  by (simp add: list_all2_conv_all_nth same_value.plain)

lemma octets_room: "sum_list (map room (map Octet cs)) = length cs" "depth (map Octet cs) = 0"
  by (induction cs) simp_all

lemma parses_octet_loop:
  assumes "k \<in> small_kinds" shows "parses (rd_loop (demarshal_scalar k) (length cs)) e p cs (map Octet cs)"
proof (induction cs arbitrary: p)
  case (Cons c cs)
  have "parses (demarshal_scalar k) e p [c] (Octet c)"
    using assms by (auto simp: demarshal_scalar_def small_kinds_def intro!: parses_need parses_bind_ret[OF parses_byte])
  then show ?case using Cons[of "p + 1"] parses_bind[of "demarshal_scalar k" e p "[c]" "Octet c"
      "\<lambda>x. rd_bind (rd_loop (demarshal_scalar k) (length cs)) (\<lambda>xs. rd_ret (x # xs))" cs "map Octet (c # cs)"]
    by (simp add: parses_bind_ret)
qed auto

lemma vector_travels:
  assumes vs: "list_all (\<lambda>v. typed m t v \<and> travels m lp64 ops t v) vs" and u: "same_tc m t u"
    and b: "sb_ok b" "s_header_size b = 12" "spos b + sum_list (map room vs) < 2 ^ 32" "depth vs \<le> n"
  obtains bs ws where "marshal_elements m ops t (length vs) vs b = Inr (sb_append bs b)"
    "length bs \<le> sum_list (map room vs)" "depth vs \<le> length bs"
    "tparses 0 (rd_loop (MateCORBA_demarshal_value m lp64 n u) (length vs)) (s_host b) (spos b) bs ws"
    "list_all2 (same_value m) vs ws"
    "tc_kind u \<in> small_kinds \<Longrightarrow> length bs = length vs \<and> ws = map Octet bs"
proof (cases "tc_kind t \<in> small_kinds")
  case True
  have "list_all (typed m t) vs" using vs by (simp add: list_all_iff)
  then obtain cs where cs: "vs = map Octet cs" "octets_of vs = Inr cs" by (rule octets_typed[OF True])
  have "tc_kind u = tc_kind t" using u by (auto simp: same_tc_def dest: canon_kind)
  then have reader: "MateCORBA_demarshal_value m lp64 n u = demarshal_scalar (tc_kind t)"
    using True octet_reader[of u m lp64 n] by simp
  show thesis
  proof (rule that[of cs "map Octet cs"])
    show "marshal_elements m ops t (length vs) vs b = Inr (sb_append cs b)"
      using True cs by simp
    show "tparses 0 (rd_loop (MateCORBA_demarshal_value m lp64 n u) (length vs)) (s_host b) (spos b) cs (map Octet cs)"
      using parses_tparses[OF parses_octet_loop[OF True]] by (simp add: reader cs(1))
  qed (simp_all add: cs(1) octets_room octets_same del: list_all2_map1 list_all2_map2 map_map)
next
  case False
  have "tc_kind u = tc_kind t" using u by (auto simp: same_tc_def dest: canon_kind)
  moreover have "list_all (travels m lp64 ops t) vs" using vs by (simp add: list_all_iff)
  ultimately show thesis using elements_travel[OF _ u False b, of lp64 ops] that False by metis
qed

lemma travels_array:
  assumes k: "kind f = tk_array" and t: "tc_ok m t" and len: "length vs = unat (tc_length f)"
    and vs: "list_all (\<lambda>v. typed m t v \<and> travels m lp64 ops t v) vs"
  shows "travels m lp64 ops (TC a f [Some t] d) (Array vs)"
proof (rule travelsI)
  fix u b n assume u: "same_tc m (TC a f [Some t] d) u" and b: "sb_ok b" "s_header_size b = 12"
    and room: "spos b + room (Array vs) < 2 ^ 32" and n: "any_depth (Array vs) \<le> n"
  obtain a' f' t' d' where u': "u = TC a' f' [Some t'] d'" "kind f' = kind f" "same_tc m t t'"
    "canon_fields f' = canon_fields f" by (rule same_tc_one[OF u])
  have len': "unat (tc_length f') = length vs"
    using arg_cong[OF u'(4), of tc_length] k u'(2) len by (simp add: canon_fields_def Let_def)
  obtain bs ws where ws: "marshal_elements m ops t (length vs) vs b = Inr (sb_append bs b)"
    "length bs \<le> sum_list (map room vs)" "depth vs \<le> length bs"
    "tparses 0 (rd_loop (MateCORBA_demarshal_value m lp64 n t') (length vs)) (s_host b) (spos b) bs ws"
    "list_all2 (same_value m) vs ws"
    by (rule vector_travels[OF vs u'(3) b, of n]) (use room n in simp_all)
  have "tparses 0 (MateCORBA_demarshal_value m lp64 n u) (s_host b) (spos b) bs (Array ws)"
    using k u'(2) by (simp add: u'(1) len' tparses_bind_ret[OF ws(4)])
  then show "\<exists>bs w. MateCORBA_marshal_value m ops (TC a f [Some t] d) (Array vs) b = Inr (sb_append bs b)
      \<and> length bs \<le> room (Array vs) \<and> any_depth (Array vs) \<le> length bs
      \<and> tparses 0 (MateCORBA_demarshal_value m lp64 n u) (s_host b) (spos b) bs w \<and> same_value m (Array vs) w"
    using k len ws(1,2,3,5) by (intro exI[of _ bs] exI[of _ "Array ws"]) (simp add: same_value.array del: marshal_elements.simps)
qed

lemma travels_sequence:
  assumes k: "kind f = tk_sequence" and t: "tc_ok m t" and len: "length vs < 2 ^ 32"
    and vs: "list_all (\<lambda>v. typed m t v \<and> travels m lp64 ops t v) vs"
  shows "travels m lp64 ops (TC a f [Some t] d) (Sequence vs)"
proof (rule travelsI)
  fix u b n assume u: "same_tc m (TC a f [Some t] d) u" and b: "sb_ok b" "s_header_size b = 12"
    and room: "spos b + room (Sequence vs) < 2 ^ 32" and n: "any_depth (Sequence vs) \<le> n"
  obtain a' f' t' d' where u': "u = TC a' f' [Some t'] d'" "kind f' = kind f" "same_tc m t t'"
    by (rule same_tc_one[OF u])
  let ?e = "s_host b" and ?p = "spos b" and ?n = "of_nat (length vs) :: u32"
  let ?l = "enc_ulong ?e ?n ?p"
  have un: "unat ?n = length vs" using len by (rule unat_of_nat_u32)
  have l: "length ?l \<le> 7" by (rule enc_ulong_length)
  let ?b = "sb_append ?l b"
  obtain bs ws where ws: "marshal_elements m ops t (length vs) vs ?b = Inr (sb_append bs ?b)"
    "length bs \<le> sum_list (map room vs)" "depth vs \<le> length bs"
    "tparses 0 (rd_loop (MateCORBA_demarshal_value m lp64 n t') (length vs)) (s_host ?b) (spos ?b) bs ws"
    "list_all2 (same_value m) vs ws"
    "tc_kind t' \<in> small_kinds \<Longrightarrow> length bs = length vs \<and> ws = map Octet bs"
    by (rule vector_travels[OF vs u'(3), of ?b n]) (use b room n l in simp_all)
  have head: "sb_append (u32_bytes ?e ?n) (sb_align 4 b) = ?b"
    using b by (simp add: enc_ulong_def)
  let ?k = "\<lambda>len :: u32. if len = 0 then rd_ret (Sequence []) else (if tc_kind t' \<in> small_kinds
         then rd_bind (rd_need (unat len)) (\<lambda>_. rd_bind (rd_bytes (unat len)) (\<lambda>cs.
           rd_ret (Sequence (map Octet cs))))
         else rd_bind (rd_lift (MateCORBA_alloc_tcval m t' (min len 4096))) (\<lambda>_.
           rd_bind (rd_loop (MateCORBA_demarshal_value m lp64 n t') (unat len)) (\<lambda>vs. rd_ret (Sequence vs))))"
  have "tparses 0 (?k ?n) ?e (?p + length ?l) bs (Sequence ws)"
  proof (cases "?n = 0")
    case True
    then have "vs = []" using un by simp
    then show ?thesis using ws(2,5) by (simp add: tparses_ret)
  next
    case n0: False
    show ?thesis
    proof (cases "tc_kind t' \<in> small_kinds")
      case True
      have "parses (rd_bind (rd_need (length bs)) (\<lambda>_. rd_bind (rd_bytes (length bs)) (\<lambda>cs.
           rd_ret (Sequence (map Octet cs))))) ?e q bs (Sequence (map Octet bs))" for q
        by (intro parses_need parses_bind_ret[OF parses_bytes]) simp_all
      then show ?thesis using ws(6)[OF True] n0 True un by (simp add: parses_tparses)
    next
      case False
      obtain s where "MateCORBA_alloc_tcval m t' (min ?n 4096) = Inr s"
        using alloc_defined(2)[of m t'] u'(3) by (auto simp: same_tc_def)
      then show ?thesis
        using ws(4) False n0 un by (simp add: tparses_lift tparses_bind_ret)
    qed
  qed
  from tparses_bind[where k = ?k, OF parses_tparses[OF parses_ulong] this]
  have "tparses 0 (MateCORBA_demarshal_value m lp64 n u) ?e ?p (?l @ bs) (Sequence ws)"
    using k u'(2) by (simp add: u'(1) cong: if_cong)
  then show "\<exists>bs w. MateCORBA_marshal_value m ops (TC a f [Some t] d) (Sequence vs) b = Inr (sb_append bs b)
      \<and> length bs \<le> room (Sequence vs) \<and> any_depth (Sequence vs) \<le> length bs
      \<and> tparses 0 (MateCORBA_demarshal_value m lp64 n u) (s_host b) (spos b) bs w \<and> same_value m (Sequence vs) w"
    using k l ws(1,2,3,5)
    by (intro exI[of _ "?l @ bs"] exI[of _ "Sequence ws"]) (simp add: head same_value.sequence del: marshal_elements.simps)
qed
text \<open>What has no TypeCodes and no references in it arrives as it is.\<close>

lemma travels_plain:
  assumes v: "plain v" "any_depth v = 0"
    and run: "\<And>b a' f' subs' d' n. sb_ok b \<Longrightarrow> kind f' = kind f \<Longrightarrow> \<exists>bs.
      MateCORBA_marshal_value m ops (TC a f subs d) v b = Inr (sb_append bs b) \<and> length bs \<le> room v
      \<and> parses (MateCORBA_demarshal_value m lp64 n (TC a' f' subs' d')) (s_host b) (spos b) bs v"
  shows "travels m lp64 ops (TC a f subs d) v"
proof (rule travelsI)
  fix u b n assume u: "same_tc m (TC a f subs d) u" and b: "sb_ok b"
  obtain a' f' subs' d' where u': "u = TC a' f' subs' d'" "kind f' = kind f" by (rule same_tc_kind[OF u])
  from run[OF b u'(2), of n a' subs' d'] obtain bs where
    "MateCORBA_marshal_value m ops (TC a f subs d) v b = Inr (sb_append bs b)" "length bs \<le> room v"
    "parses (MateCORBA_demarshal_value m lp64 n u) (s_host b) (spos b) bs v"
    unfolding u'(1) by blast
  then show "\<exists>bs w. MateCORBA_marshal_value m ops (TC a f subs d) v b = Inr (sb_append bs b)
      \<and> length bs \<le> room v \<and> any_depth v \<le> length bs
      \<and> tparses 0 (MateCORBA_demarshal_value m lp64 n u) (s_host b) (spos b) bs w \<and> same_value m v w"
    using v by (intro exI[of _ bs] exI[of _ v]) (simp add: parses_tparses same_value.plain)
qed

lemma scalar_plain: "scalar_of k v \<Longrightarrow> plain v \<and> any_depth v = 0 \<and> room v = scalar_len v"
  by (cases v) (simp_all add: scalar_of_def)

lemma travels_scalar:
  assumes "scalar_of (kind f) v" shows "travels m lp64 ops (TC a f subs d) v"
proof (rule travels_plain)
  fix b :: sbuf and a' and f' :: tc_fields and subs' d' n assume b: "sb_ok b" and k: "kind f' = kind f"
  obtain bs where bs: "marshal_scalar (kind f) v b = Inr (sb_append bs b)" "length bs \<le> scalar_len v"
    "parses (demarshal_scalar (kind f)) (s_host b) (spos b) bs v" by (rule scalar_codec[OF b assms])
  have K: "kind f \<in> scalar_kinds" "kind f' \<in> scalar_kinds" using scalar_of_kind[OF assms] k by simp_all
  show "\<exists>bs. MateCORBA_marshal_value m ops (TC a f subs d) v b = Inr (sb_append bs b) \<and> length bs \<le> room v
      \<and> parses (MateCORBA_demarshal_value m lp64 n (TC a' f' subs' d')) (s_host b) (spos b) bs v"
    unfolding marshal_scalar_kind[OF K(1)] demarshal_scalar_kind[OF K(2)] k
    using bs scalar_plain[OF assms] by auto
qed (use scalar_plain[OF assms] in simp_all)

lemma travels_text:
  assumes "kind f = tk_string" "c_string s" "length s < 2 ^ 31"
  shows "travels m lp64 ops (TC a f subs d) (String s)"
proof (rule travels_plain)
  fix b :: sbuf and a' and f' :: tc_fields and subs' d' n assume b: "sb_ok b" and k: "kind f' = kind f"
  show "\<exists>bs. MateCORBA_marshal_value m ops (TC a f subs d) (String s) b = Inr (sb_append bs b)
      \<and> length bs \<le> room (String s)
      \<and> parses (MateCORBA_demarshal_value m lp64 n (TC a' f' subs' d')) (s_host b) (spos b) bs (String s)"
    using assms k string_codec[OF b assms(2,3)] enc_string_length[of "s_host b" s "spos b"]
    by (intro exI[of _ "enc_string (s_host b) s (spos b)"]) simp
qed simp_all

lemma travels_wtext:
  assumes k: "kind f = tk_wstring" and w: "w_string ws"
  shows "travels m lp64 ops (TC a f subs d) (WString ws)"
proof (rule travels_plain)
  fix b :: sbuf and a' and f' :: tc_fields and subs' d' n assume b: "sb_ok b" and k': "kind f' = kind f"
  obtain t where t: "ws = t @ [0]" "0 \<notin> set t" "length t < 2 ^ 29" using w by (rule w_stringE)
  show "\<exists>bs. MateCORBA_marshal_value m ops (TC a f subs d) (WString ws) b = Inr (sb_append bs b)
      \<and> length bs \<le> room (WString ws)
      \<and> parses (MateCORBA_demarshal_value m lp64 n (TC a' f' subs' d')) (s_host b) (spos b) bs (WString ws)"
    using k k' t(1) marshal_wstring_enc[OF b t(2,3)] wstring_codec[OF t(2,3)]
      enc_ulong_length[of "s_host b" "of_nat (2 * length t + 2)" "spos b"]
    by (intro exI[of _ "enc_wstring (s_host b) t (spos b)"]) (simp add: enc_wstring_def)
qed simp_all

lemma travels_void:
  assumes "kind f = tk_null \<or> kind f = tk_void" shows "travels m lp64 ops (TC a f subs d) Void"
proof (rule travels_plain)
  fix b :: sbuf and a' and f' :: tc_fields and subs' d' n assume "kind f' = kind f"
  then show "\<exists>bs. MateCORBA_marshal_value m ops (TC a f subs d) Void b = Inr (sb_append bs b) \<and> length bs \<le> room Void
      \<and> parses (MateCORBA_demarshal_value m lp64 n (TC a' f' subs' d')) (s_host b) (spos b) bs Void"
    using assms by (intro exI[of _ "[]"]) (auto intro: parses_ret)
qed simp_all

lemma value_travels_all:
  assumes "tc_ok m t" "typed m t v" "sendable m lp64 v" shows "travels m lp64 ops t v"
  using assms
proof (induction rule: typed_induct)
  case (ali a f t d v)
  note kind = this
  show ?case
  proof (rule travelsI)
    fix u b n assume u: "same_tc m (TC a f [Some t] d) u" and b: "sb_ok b" "s_header_size b = 12"
      and room: "spos b + room v < 2 ^ 32" "any_depth v \<le> n"
    obtain a' f' t' d' where u': "u = TC a' f' [Some t'] d'" "kind f' = kind f" "same_tc m t t'"
      by (rule same_tc_one[OF u])
    have "travels m lp64 ops t v" using kind by blast
    from travelsE[OF this u'(3) b room] show "\<exists>bs w. MateCORBA_marshal_value m ops (TC a f [Some t] d) v b
        = Inr (sb_append bs b) \<and> length bs \<le> room v \<and> any_depth v \<le> length bs
        \<and> tparses 0 (MateCORBA_demarshal_value m lp64 n u) (s_host b) (spos b) bs w \<and> same_value m v w"
      using kind(1) u' by simp metis
  qed
next
  case (any a f subs d t v)
  then show ?case using travels_any[of f m lp64 t ops v] by simp
next
  case (struct a f subs d ts vs)
  have "list_all2 (\<lambda>t v. tc_ok m t \<and> travels m lp64 ops t v) ts vs"
    using struct(5,6) by (auto simp: list_all2_conv_all_nth list_all_length)
  then show ?case by (rule travels_struct[OF struct(1,3,4)])
next
  case (union a f subs e discrim body r)
  show ?case
    by (rule travels_union[OF union(1,2) _ union(5,6)]) (use union(7,8,9) in auto)
next
  case (sequence a f t d vs)
  then show ?case by (intro travels_sequence) (simp_all add: list_all_iff)
next
  case (array a f t d vs)
  then show ?case by (intro travels_array) (simp_all add: list_all_iff)
qed (simp_all add: travels_object travels_typecode travels_text travels_wtext travels_void travels_scalar
  del: sendable.simps)

lemma sample_alias_sendable: "sendable_tc x86_64 True (sample_alias_tc 1)"
proof -
  have "labels_ok (sample_alias_tc 1) \<and> well_shared (sample_alias_tc 1) \<and> distinct (addrs (sample_alias_tc 1))"
    by (simp add: sample_alias_tc_def sample_struct_tc_def sample_string_tc_def basic_tc_def zero_fields_def
        labels_ok_def node_labels_ok_def well_shared_def addrs_def tracked_def)
  then show ?thesis using sample_tcs_ok(2)[of 1] by (simp add: sendable_tc_def del: tc_ok.simps)
qed


end
