(* ===== verification/Giop_Recv.thy ===== *)
theory Giop_Recv imports Any_Round begin

text \<open>
  The headers of the GIOP messages: what \<^verbatim>\<open>giop_recv_buffer_demarshal\<close> of
  \<^verbatim>\<open>giop-recv-buffer.c\<close> makes of the start of a message body, and what the \<^verbatim>\<open>use\<close>
  functions of \<^verbatim>\<open>giop-send-buffer.c\<close> start a message with. Object keys, operation names and principals are
  not copied: the message holds pointers into its body, which are offsets into the block here.
\<close>

section \<open>Messages\<close>

text \<open>A counted block in the body: its offset and length.\<close>

type_synonym span = "nat \<times> nat"

text \<open>\<^verbatim>\<open>GIOP_TargetAddress\<close>; any other discriminator than that of a key leaves the union unset.\<close>

datatype giop_target = KeyAddr span | OtherAddr u16

text \<open>
  The union of \<^verbatim>\<open>GIOPMsg\<close>. The structures for GIOP 1.0 and 1.1 have the same layout. \<open>NoMsg\<close> is the
  union before anything is read into it, with all its members zero.
\<close>

datatype giop_msg = NoMsg
  | Request_1_1 cval u32 byte span nat span
  | Request_1_2 u32 byte giop_target nat cval
  | Reply_1_1 cval u32 u32
  | Reply_1_2 u32 u32 cval
  | CancelRequest u32
  | LocateRequest_1_1 u32 span
  | LocateRequest_1_2 u32 giop_target
  | LocateReply u32 u32

section \<open>Service contexts\<close>

text \<open>The TypeCode of \<^verbatim>\<open>IOP::ServiceContextList\<close>, as the IDL compiler writes it for \<^verbatim>\<open>IOP.idl\<close>.\<close>

definition octet_seq_tc :: "abi \<Rightarrow> tc" where
  "octet_seq_tc m = TC (Heap 0) ((zero_fields tk_sequence)\<lparr> c_align := 8, sub_parts := 1 \<rparr>)
     [Some (basic_tc m tk_octet)] None"

definition service_context_tc :: "abi \<Rightarrow> tc" where
  "service_context_tc m = TC (Heap 0) ((zero_fields tk_struct)\<lparr> c_align := 8, sub_parts := 2,
       tc_name := cstr ''ServiceContext'', repo_id := cstr ''IDL:omg.org/IOP/ServiceContext:1.0'',
       subnames := [cstr ''context_id'', cstr ''context_data''] \<rparr>)
     [Some (TC (Heap 0) ((zero_fields tk_alias)\<lparr> c_align := 4, sub_parts := 1,
        tc_name := cstr ''ServiceId'', repo_id := cstr ''IDL:omg.org/IOP/ServiceId:1.0'' \<rparr>)
        [Some (basic_tc m tk_ulong)] None),
      Some (octet_seq_tc m)] None"

definition TC_IOP_ServiceContextList :: "abi \<Rightarrow> tc" where
  "TC_IOP_ServiceContextList m = TC (Heap 0) ((zero_fields tk_alias)\<lparr> c_align := 8, sub_parts := 1,
       tc_name := cstr ''ServiceContextList'', repo_id := cstr ''IDL:omg.org/IOP/ServiceContextList:1.0'' \<rparr>)
     [Some (TC (Heap 0) ((zero_fields tk_sequence)\<lparr> c_align := 8, sub_parts := 1 \<rparr>)
        [Some (service_context_tc m)] None)] None"

definition giop_IOP_ServiceContextList_demarshal :: "abi \<Rightarrow> bool \<Rightarrow> cval reader" where
  "giop_IOP_ServiceContextList_demarshal m lp64 = MateCORBA_demarshal_value m lp64 0 (TC_IOP_ServiceContextList m)"

section \<open>Demarshalling\<close>

text \<open>
  A pointer to the next \<open>n\<close> bytes, which are stepped over once they are known to be there. The name of an
  operation is such a pointer without its length: nothing checks that it ends with a NUL.
\<close>

definition rd_pos :: "nat reader" where "rd_pos b = Inr (r_cur b, b)"

definition rd_span :: "nat \<Rightarrow> span reader" where
  "rd_span n = rd_bind (rd_need n) (\<lambda>_. rd_bind rd_pos (\<lambda>p. rd_bind (rd_skip n) (\<lambda>_. rd_ret (p, n))))"

definition rd_counted :: "span reader" where
  "rd_counted = rd_bind rd_ulong (\<lambda>n. rd_span (unat n))"

definition rd_operation :: "nat reader" where
  "rd_operation = rd_bind rd_counted (\<lambda>s. rd_ret (fst s))"

definition GIOP_KeyAddr :: u16 where "GIOP_KeyAddr = 0"
definition GIOP_ProfileAddr :: u16 where "GIOP_ProfileAddr = 1"
definition GIOP_ReferenceAddr :: u16 where "GIOP_ReferenceAddr = 2"

definition giop_GIOP_TargetAddress_demarshal :: "giop_target reader" where
  "giop_GIOP_TargetAddress_demarshal = rd_bind (rd_checked 2 rd_u16) (\<lambda>d.
     if d = GIOP_KeyAddr then rd_bind rd_counted (\<lambda>key. rd_ret (KeyAddr key))
     else if d = GIOP_ProfileAddr \<or> d = GIOP_ReferenceAddr then rd_fail Broken
     else rd_ret (OtherAddr d))"

definition giop_recv_buffer_demarshal_request_1_1 :: "abi \<Rightarrow> bool \<Rightarrow> giop_msg reader" where
  "giop_recv_buffer_demarshal_request_1_1 m lp64 =
     rd_bind (giop_IOP_ServiceContextList_demarshal m lp64) (\<lambda>service_context.
     rd_bind (rd_align 4) (\<lambda>_. rd_bind (rd_need 12) (\<lambda>_.
     rd_bind rd_u32 (\<lambda>request_id. rd_bind rd_byte (\<lambda>response_expected. rd_bind (rd_bytes 3) (\<lambda>_.
     rd_bind rd_u32 (\<lambda>len. rd_bind (rd_span (unat len)) (\<lambda>object_key.
     rd_bind rd_operation (\<lambda>operation.
     rd_bind rd_counted (\<lambda>requesting_principal.
     rd_ret (Request_1_1 service_context request_id response_expected object_key operation
       requesting_principal)))))))))))"

definition giop_recv_buffer_demarshal_request_1_2 :: "abi \<Rightarrow> bool \<Rightarrow> giop_msg reader" where
  "giop_recv_buffer_demarshal_request_1_2 m lp64 = rd_bind (rd_align 4) (\<lambda>_. rd_bind (rd_need 8) (\<lambda>_.
     rd_bind rd_u32 (\<lambda>request_id. rd_bind rd_byte (\<lambda>response_flags. rd_bind (rd_bytes 3) (\<lambda>_.
     rd_bind giop_GIOP_TargetAddress_demarshal (\<lambda>target.
     rd_bind rd_operation (\<lambda>operation.
     rd_bind (giop_IOP_ServiceContextList_demarshal m lp64) (\<lambda>service_context.
     rd_bind (rd_align 8) (\<lambda>_.
     rd_ret (Request_1_2 request_id response_flags target operation service_context))))))))))"

definition giop_recv_buffer_demarshal_reply_1_1 :: "abi \<Rightarrow> bool \<Rightarrow> giop_msg reader" where
  "giop_recv_buffer_demarshal_reply_1_1 m lp64 =
     rd_bind (giop_IOP_ServiceContextList_demarshal m lp64) (\<lambda>service_context.
     rd_bind (rd_align 4) (\<lambda>_. rd_bind (rd_need 8) (\<lambda>_.
     rd_bind rd_u32 (\<lambda>request_id. rd_bind rd_u32 (\<lambda>reply_status.
     rd_ret (Reply_1_1 service_context request_id reply_status))))))"

definition giop_recv_buffer_demarshal_reply_1_2 :: "abi \<Rightarrow> bool \<Rightarrow> giop_msg reader" where
  "giop_recv_buffer_demarshal_reply_1_2 m lp64 = rd_bind (rd_align 4) (\<lambda>_. rd_bind (rd_need 8) (\<lambda>_.
     rd_bind rd_u32 (\<lambda>request_id. rd_bind rd_u32 (\<lambda>reply_status.
     rd_bind (giop_IOP_ServiceContextList_demarshal m lp64) (\<lambda>service_context.
     rd_bind (rd_align 8) (\<lambda>_. rd_ret (Reply_1_2 request_id reply_status service_context)))))))"

definition giop_recv_buffer_demarshal_cancel :: "giop_msg reader" where
  "giop_recv_buffer_demarshal_cancel = rd_bind rd_ulong (\<lambda>request_id. rd_ret (CancelRequest request_id))"

definition giop_recv_buffer_demarshal_locate_request_1_1 :: "giop_msg reader" where
  "giop_recv_buffer_demarshal_locate_request_1_1 = rd_bind (rd_align 4) (\<lambda>_. rd_bind (rd_need 8) (\<lambda>_.
     rd_bind rd_u32 (\<lambda>request_id. rd_bind rd_u32 (\<lambda>len. rd_bind (rd_span (unat len)) (\<lambda>object_key.
     rd_ret (LocateRequest_1_1 request_id object_key))))))"

definition giop_recv_buffer_demarshal_locate_request_1_2 :: "giop_msg reader" where
  "giop_recv_buffer_demarshal_locate_request_1_2 = rd_bind rd_ulong (\<lambda>request_id.
     rd_bind giop_GIOP_TargetAddress_demarshal (\<lambda>target. rd_ret (LocateRequest_1_2 request_id target)))"

definition giop_recv_buffer_demarshal_locate_reply_1_1 :: "giop_msg reader" where
  "giop_recv_buffer_demarshal_locate_reply_1_1 = rd_bind (rd_align 4) (\<lambda>_. rd_bind (rd_need 8) (\<lambda>_.
     rd_bind rd_u32 (\<lambda>request_id. rd_bind rd_u32 (\<lambda>locate_status.
     rd_ret (LocateReply request_id locate_status)))))"

definition giop_recv_buffer_demarshal_locate_reply_1_2 :: "giop_msg reader" where
  "giop_recv_buffer_demarshal_locate_reply_1_2 = giop_recv_buffer_demarshal_locate_reply_1_1"

text \<open>The table of the decoders; the messages without a header of their own are accepted as they are.\<close>

definition giop_recv_buffer_demarshal :: "abi \<Rightarrow> bool \<Rightarrow> giop_msg reader" where
  "giop_recv_buffer_demarshal m lp64 b = (let t = r_type b; old = (r_version b \<noteq> GIOP_1_2) in
     if t \<ge> GIOP_NUM_MSG_TYPES then Inl Broken
     else if t = GIOP_REQUEST then (if old then giop_recv_buffer_demarshal_request_1_1 m lp64 b
       else giop_recv_buffer_demarshal_request_1_2 m lp64 b)
     else if t = GIOP_REPLY then (if old then giop_recv_buffer_demarshal_reply_1_1 m lp64 b
       else giop_recv_buffer_demarshal_reply_1_2 m lp64 b)
     else if t = GIOP_CANCELREQUEST then giop_recv_buffer_demarshal_cancel b
     else if t = GIOP_LOCATEREQUEST then (if old then giop_recv_buffer_demarshal_locate_request_1_1 b
       else giop_recv_buffer_demarshal_locate_request_1_2 b)
     else if t = GIOP_LOCATEREPLY then (if old then giop_recv_buffer_demarshal_locate_reply_1_1 b
       else giop_recv_buffer_demarshal_locate_reply_1_2 b)
     else Inr (NoMsg, b))"

section \<open>Access to a message\<close>

text \<open>
  \<^verbatim>\<open>giop_recv_buffer_get_request_id\<close> finds the member by the type and the version of the message; the
  messages without a header have none, and the result is 0.
\<close>

fun giop_recv_buffer_get_request_id :: "giop_msg \<Rightarrow> u32" where
  "giop_recv_buffer_get_request_id (Request_1_1 _ request_id _ _ _ _) = request_id"
| "giop_recv_buffer_get_request_id (Request_1_2 request_id _ _ _ _) = request_id"
| "giop_recv_buffer_get_request_id (Reply_1_1 _ request_id _) = request_id"
| "giop_recv_buffer_get_request_id (Reply_1_2 request_id _ _) = request_id"
| "giop_recv_buffer_get_request_id (CancelRequest request_id) = request_id"
| "giop_recv_buffer_get_request_id (LocateRequest_1_1 request_id _) = request_id"
| "giop_recv_buffer_get_request_id (LocateRequest_1_2 request_id _) = request_id"
| "giop_recv_buffer_get_request_id (LocateReply request_id _) = request_id"
| "giop_recv_buffer_get_request_id NoMsg = 0"

text \<open>
  In GIOP 1.2 the status of a locate reply lies where that of a reply does; before, the macro reads a part
  of the union that nothing was written to, and finds 0 there.
\<close>

fun giop_recv_buffer_reply_status :: "GIOPVersion \<Rightarrow> giop_msg \<Rightarrow> u32" where
  "giop_recv_buffer_reply_status v (Reply_1_1 _ _ reply_status) = reply_status"
| "giop_recv_buffer_reply_status v (Reply_1_2 _ reply_status _) = reply_status"
| "giop_recv_buffer_reply_status v (LocateReply _ locate_status) = (if v = GIOP_1_2 then locate_status else 0)"
| "giop_recv_buffer_reply_status v _ = 0"

text \<open>
  The object key of a request or locate request. A target that is not a key fails an assertion; for
  any other message \<^verbatim>\<open>g_assert_not_reached\<close> ends the process.
\<close>

fun giop_recv_buffer_get_objkey :: "giop_msg \<Rightarrow> span res" where
  "giop_recv_buffer_get_objkey (Request_1_1 _ _ _ object_key _ _) = Inr object_key"
| "giop_recv_buffer_get_objkey (Request_1_2 _ _ (KeyAddr object_key) _ _) = Inr object_key"
| "giop_recv_buffer_get_objkey (LocateRequest_1_1 _ object_key) = Inr object_key"
| "giop_recv_buffer_get_objkey (LocateRequest_1_2 _ (KeyAddr object_key)) = Inr object_key"
| "giop_recv_buffer_get_objkey NoMsg = Inr (0, 0)"
| "giop_recv_buffer_get_objkey _ = Inl Abort"

definition c_at :: "nat \<Rightarrow> byte list \<Rightarrow> cblock res" where
  "c_at p mem = (let b = drop p mem in if c_terminated b then Inr (c_text b @ [0]) else Inl Overrun)"

text \<open>The name of the operation as a C string: a pointer that is NULL in a request that was not read.\<close>

fun giop_recv_buffer_get_opname :: "byte list \<Rightarrow> giop_msg \<Rightarrow> cblock res" where
  "giop_recv_buffer_get_opname mem (Request_1_1 _ _ _ _ operation _) = c_at operation mem"
| "giop_recv_buffer_get_opname mem (Request_1_2 _ _ _ operation _) = c_at operation mem"
| "giop_recv_buffer_get_opname mem _ = Inl Abort"

section \<open>Starting a message\<close>

text \<open>
  The service contexts of every request and reply, written when the library is compiled: one context with
  an encapsulation, which names the code sets UTF-8 and UTF-16.
\<close>

definition iop_service_context_data :: "endian \<Rightarrow> byte list" where
  "iop_service_context_data host = concat (map (u32_bytes host)
     [1, 1, 12, if host then 0x01010101 else 0, 0x05010001, 0x00010109])"

definition append_ulong :: "u32 \<Rightarrow> sbuf \<Rightarrow> sbuf" where
  "append_ulong w b = sb_append (u32_bytes (s_host b) w) b"

definition append_key :: "byte list \<Rightarrow> sbuf \<Rightarrow> sbuf" where
  "append_key objkey b = sb_append objkey (sb_append_aligned (u32_bytes (s_host b) (of_nat (length objkey))) b)"

definition start_message :: "byte \<Rightarrow> endian \<Rightarrow> GIOPVersion \<Rightarrow> sbuf" where
  "start_message t host v = (giop_send_buffer_use host v)\<lparr> s_type := t \<rparr>"

text \<open>
  \<^verbatim>\<open>giop_send_buffer_use_request\<close>: the operation and the principal are what the caller has put into
  their iovecs; without a principal four zeros are sent.
\<close>

definition giop_send_buffer_use_request ::
    "endian \<Rightarrow> GIOPVersion \<Rightarrow> u32 \<Rightarrow> bool \<Rightarrow> byte list \<Rightarrow> byte list \<Rightarrow> byte list option \<Rightarrow> sbuf" where
  "giop_send_buffer_use_request host v request_id response_expected objkey operation_vec principal_vec = (let
       principal = (case principal_vec of None \<Rightarrow> replicate 4 0 | Some p \<Rightarrow> p);
       b = sb_align 4 (start_message GIOP_REQUEST host v)
     in if v = GIOP_1_2 then (let
         b = append_ulong request_id (sb_align 4 b);
         b = sb_append [if response_expected then 3 else 0] b;
         b = sb_append (replicate 3 0) b;
         b = sb_append (u16_bytes host GIOP_KeyAddr) b;
         b = append_key objkey b;
         b = sb_append operation_vec (sb_align 4 b);
         b = sb_append (iop_service_context_data host) b
       in sb_align 8 b)
     else (let
         b = sb_append (iop_service_context_data host) b;
         b = append_ulong request_id b;
         b = sb_append [of_bool response_expected] b;
         b = append_key objkey b;
         b = sb_append operation_vec (sb_align 4 b)
       in sb_append principal b))"

definition giop_send_buffer_use_reply :: "endian \<Rightarrow> GIOPVersion \<Rightarrow> u32 \<Rightarrow> u32 \<Rightarrow> sbuf" where
  "giop_send_buffer_use_reply host v request_id reply_status = (let b = start_message GIOP_REPLY host v
     in if v = GIOP_1_2 then sb_align 8 (sb_append (iop_service_context_data host)
         (append_ulong reply_status (append_ulong request_id b)))
       else append_ulong reply_status (append_ulong request_id (sb_append (iop_service_context_data host) b)))"

definition giop_send_buffer_use_locate_request :: "endian \<Rightarrow> GIOPVersion \<Rightarrow> u32 \<Rightarrow> byte list \<Rightarrow> sbuf" where
  "giop_send_buffer_use_locate_request host v request_id objkey = (let
       b = append_ulong request_id (start_message GIOP_LOCATEREQUEST host v)
     in if v = GIOP_1_2 then append_key objkey (sb_append (u16_bytes host GIOP_KeyAddr) b)
       else append_key objkey b)"

definition giop_send_buffer_use_locate_reply :: "endian \<Rightarrow> GIOPVersion \<Rightarrow> u32 \<Rightarrow> u32 \<Rightarrow> sbuf" where
  "giop_send_buffer_use_locate_reply host v request_id locate_status =
     append_ulong locate_status (append_ulong request_id (start_message GIOP_LOCATEREPLY host v))"

definition giop_send_buffer_use_close_connection :: "endian \<Rightarrow> GIOPVersion \<Rightarrow> sbuf" where
  "giop_send_buffer_use_close_connection = start_message GIOP_CLOSECONNECTION"

definition giop_send_buffer_use_message_error :: "endian \<Rightarrow> GIOPVersion \<Rightarrow> sbuf" where
  "giop_send_buffer_use_message_error = start_message GIOP_MESSAGEERROR"

text \<open>
  \<^verbatim>\<open>giop_send_buffer_is_oneway\<close> looks at the flag of the request that is being sent.
\<close>

definition giop_send_buffer_is_oneway :: "GIOPVersion \<Rightarrow> byte \<Rightarrow> bool" where
  "giop_send_buffer_is_oneway v response = (response = 0)"

text \<open>
  The operation as \<^verbatim>\<open>matecorba_small_marshal\<close> puts it into its iovec: the length with the NUL, as many bytes
  of the name, and zeros up to a multiple of four. The length is that of the method's description.
\<close>

definition operation_header :: "endian \<Rightarrow> cblock \<Rightarrow> nat \<Rightarrow> byte list" where
  "operation_header host name name_len = (let header = u32_bytes host (of_nat (name_len + 1)) @ slice 0 (name_len + 1) name
     in header @ replicate (ALIGN_VALUE (length header) 4 - length header) 0)"

section \<open>Formats\<close>

text \<open>A list of service contexts as bytes and as a value.\<close>

fun enc_context :: "endian \<Rightarrow> u32 \<times> byte list \<Rightarrow> nat \<Rightarrow> byte list" where
  "enc_context e (i, data) p = enc_ulong e i p @ enc_octets e data (p + length (enc_ulong e i p))"

definition enc_contexts :: "endian \<Rightarrow> (u32 \<times> byte list) list \<Rightarrow> nat \<Rightarrow> byte list" where
  "enc_contexts e cs p = enc_ulong e (of_nat (length cs)) p
     @ enc_list (enc_context e) cs (p + length (enc_ulong e (of_nat (length cs)) p))"

fun context_value :: "u32 \<times> byte list \<Rightarrow> cval" where
  "context_value (i, data) = Struct [Long i, Sequence (map Octet data)]"

definition contexts_value :: "(u32 \<times> byte list) list \<Rightarrow> cval" where
  "contexts_value cs = Sequence (map context_value cs)"

lemma tc_simps [simp]: "tc_kind (octet_seq_tc m) = tk_sequence" "tc_kind (service_context_tc m) = tk_struct"
  by (simp_all add: octet_seq_tc_def service_context_tc_def zero_fields_def)

lemma demarshal_octet_seq:
  "MateCORBA_demarshal_value m lp64 n (octet_seq_tc m) = rd_bind rd_ulong (\<lambda>len. if len = 0 then rd_ret (Sequence [])
     else rd_bind (rd_need (unat len)) (\<lambda>_. rd_bind (rd_bytes (unat len)) (\<lambda>cs. rd_ret (Sequence (map Octet cs)))))"
  by (simp add: octet_seq_tc_def zero_fields_def basic_tc_def small_kinds_def cong: if_cong)

lemma parses_octet_seq:
  assumes "length data < 2 ^ 32"
  shows "parses (MateCORBA_demarshal_value m lp64 n (octet_seq_tc m)) e p (enc_octets e data p) (Sequence (map Octet data))"
proof -
  have u: "unat (of_nat (length data) :: u32) = length data" using assms by (rule unat_of_nat_u32)
  then have z: "(of_nat (length data) :: u32) = 0 \<longleftrightarrow> data = []" by (metis length_0_conv unat_eq_zero)
  show ?thesis
    unfolding demarshal_octet_seq enc_octets_def
    by (rule parses_bind[OF parses_ulong], cases "data = []")
      (auto simp: u z intro!: parses_need parses_bind_ret[OF parses_bytes])
qed

lemma contexts_tc_ok:
  "tc_ok m (octet_seq_tc m)" "tc_ok m (service_context_tc m)" "tc_ok m (TC_IOP_ServiceContextList m)"
  by (simp_all add: TC_IOP_ServiceContextList_def service_context_tc_def octet_seq_tc_def tc_shape_def zero_fields_def
      string_ok_def cstr_def c_string_def basic_tc_def)

lemma rd_lift_Inr [simp]: "rd_lift (Inr x) = rd_ret x"
  by (rule ext) (simp add: rd_lift_def rd_ret_def)

lemma rd_bind_return [simp]: "rd_bind m rd_ret = m"
  by (rule ext) (auto simp: rd_bind_def rd_ret_def rbind_def split: sum.splits)

lemma demarshal_context:
  "MateCORBA_demarshal_value m lp64 n (service_context_tc m) = rd_bind rd_ulong (\<lambda>w.
     rd_bind (MateCORBA_demarshal_value m lp64 n (octet_seq_tc m)) (\<lambda>d. rd_ret (Struct [Long w, d])))"
proof -
  obtain s where s: "MateCORBA_gather_alloc_info m (octet_seq_tc m) = Inr s" using gather_defined contexts_tc_ok by blast
  have two: "demarshal_members m lp64 n 2 ts = demarshal_members m lp64 n (Suc (Suc 0)) ts" for ts
    by (simp add: numeral_2_eq_2)
  show ?thesis using s
    by (simp add: service_context_tc_def zero_fields_def basic_tc_def demarshal_scalar_def two rd_bind_assoc
        rd_checked_def rd_ulong_def)
qed

lemma demarshal_contexts:
  "giop_IOP_ServiceContextList_demarshal m lp64 = rd_bind rd_ulong (\<lambda>len.
     rd_bind (rd_loop (MateCORBA_demarshal_value m lp64 0 (service_context_tc m)) (unat len)) (\<lambda>vs. rd_ret (Sequence vs)))"
proof -
  have alloc: "\<exists>s. MateCORBA_alloc_tcval m (service_context_tc m) k = Inr s" for k
    using alloc_defined(2) contexts_tc_ok by blast
  have "rd_lift (MateCORBA_alloc_tcval m (service_context_tc m) k) = rd_ret (projr (MateCORBA_alloc_tcval m (service_context_tc m) k))" for k
    using alloc[of k] by auto
  then show ?thesis
    by (auto simp: giop_IOP_ServiceContextList_demarshal_def TC_IOP_ServiceContextList_def zero_fields_def small_kinds_def
        cong: if_cong intro!: arg_cong[where f = "rd_bind rd_ulong"])
qed

definition context_ok :: "u32 \<times> byte list \<Rightarrow> bool" where
  "context_ok c \<longleftrightarrow> length (snd c) < 2 ^ 32"

interpretation sctx: cdr_codec "\<lambda>c b. sb_append (enc_context (s_host b) c (spos b)) b"
  "MateCORBA_demarshal_value m lp64 n (service_context_tc m)" enc_context context_ok context_value
proof
  fix e p and c :: "u32 \<times> byte list" assume ok: "context_ok c"
  obtain i data where c: "c = (i, data)" by force
  show "parses (MateCORBA_demarshal_value m lp64 n (service_context_tc m)) e p (enc_context e c p) (context_value c)"
    using ok unfolding demarshal_context c context_ok_def
    by (auto intro!: parses_bind[OF parses_ulong] parses_bind_ret[OF parses_octet_seq])
qed simp

lemma parses_contexts:
  assumes "list_all context_ok cs" "length cs < 2 ^ 32"
  shows "parses (giop_IOP_ServiceContextList_demarshal m lp64) e p (enc_contexts e cs p) (contexts_value cs)"
  using parses_bind_ret[OF sctx.get_counted[OF assms], of _ Sequence, OF refl, of m lp64 0 e p]
  by (simp add: demarshal_contexts rd_bind_assoc enc_contexts_def contexts_value_def)

section \<open>What the decoders accept\<close>

lemma parses_at: "parses m e q bs v \<Longrightarrow> p = q \<Longrightarrow> parses m e p bs v"
  by simp

lemma parses_skip: "n = length bs \<Longrightarrow> parses (rd_skip n) e p bs ()"
  by (rule parsesI) (auto simp: rd_skip_def at_bytes_def)

lemma parses_span: "n = length bs \<Longrightarrow> parses (rd_span n) e p bs (p, n)"
proof (rule parsesI)
  fix b assume "n = length bs" "at_bytes p bs b"
  then show "rd_span n b = Inr ((p, n), b\<lparr> r_cur := p + length bs \<rparr>)"
    by (simp add: rd_span_def rd_bind_def rd_need_def rd_pos_def rd_skip_def rd_ret_def at_bytes_def)
qed

lemma parses_counted:
  assumes "length bs < 2 ^ 32"
  shows "parses rd_counted e p (enc_octets e bs p) (ALIGN_VALUE p 4 + 4, length bs)"
proof -
  have q: "p + length (enc_ulong e w p) = ALIGN_VALUE p 4 + 4" for w
    using pad_pos[of 4 p] by (simp add: enc_ulong_def)
  show ?thesis
    unfolding rd_counted_def enc_octets_def
    by (rule parses_bind[OF parses_ulong], rule parses_at[OF _ q])
      (simp add: unat_of_nat_u32[OF assms] parses_span)
qed

lemma parses_operation:
  "length bs < 2 ^ 32 \<Longrightarrow> parses rd_operation e p (enc_octets e bs p) (ALIGN_VALUE p 4 + 4)"
  unfolding rd_operation_def by (rule parses_bind_ret[OF parses_counted]) simp_all

definition enc_target :: "endian \<Rightarrow> byte list \<Rightarrow> nat \<Rightarrow> byte list" where
  "enc_target e key p = pad 2 p @ u16_bytes e GIOP_KeyAddr @ enc_octets e key (ALIGN_VALUE p 2 + 2)"

lemma parses_target:
  assumes "length key < 2 ^ 32"
  shows "parses giop_GIOP_TargetAddress_demarshal e p (enc_target e key p)
    (KeyAddr (ALIGN_VALUE (ALIGN_VALUE p 2 + 2) 4 + 4, length key))"
proof -
  have "parses (rd_checked 2 rd_u16) e p (pad 2 p @ u16_bytes e GIOP_KeyAddr) GIOP_KeyAddr"
    by (intro parses_checked parses_u16) simp_all
  moreover have "p + length (pad 2 p @ u16_bytes e GIOP_KeyAddr) = ALIGN_VALUE p 2 + 2"
    using pad_pos[of 2 p] by simp
  ultimately show ?thesis
    unfolding giop_GIOP_TargetAddress_demarshal_def enc_target_def
    using parses_bind_ret[OF parses_counted[OF assms, of e "ALIGN_VALUE p 2 + 2"], of _ KeyAddr, OF refl]
    by (auto intro!: parses_bind'[where as = "pad 2 p @ u16_bytes e GIOP_KeyAddr"])
qed

text \<open>The steps of a decoder, each with what is left to read behind it.\<close>

lemma parses_align_bind:
  "0 < n \<Longrightarrow> parses (k ()) e (ALIGN_VALUE p n) bs v \<Longrightarrow> parses (rd_bind (rd_align n) k) e p (pad n p @ bs) v"
  by (rule parses_bind[OF parses_align], assumption, rule parses_at, assumption) (rule pad_pos)

lemma parses_u32_bind: "parses (k w) e (p + 4) bs v \<Longrightarrow> parses (rd_bind rd_u32 k) e p (u32_bytes e w @ bs) v"
  by (rule parses_bind[OF parses_u32]) simp

lemma parses_byte_bind: "parses (k c) e (p + 1) bs v \<Longrightarrow> parses (rd_bind rd_byte k) e p (c # bs) v"
  using parses_bind[OF parses_byte, of k c e p bs v] by simp

lemma parses_bytes_bind:
  "n = length xs \<Longrightarrow> parses (k xs) e (p + n) bs v \<Longrightarrow> parses (rd_bind (rd_bytes n) k) e p (xs @ bs) v"
  by (rule parses_bind[OF parses_bytes]) simp_all

lemma parses_reserved_bind:
  "parses (k [x, y, z]) e (p + 3) bs v \<Longrightarrow> parses (rd_bind (rd_bytes 3) k) e p (x # y # z # bs) v"
  using parses_bytes_bind[of 3 "[x, y, z]"] by simp

lemma parses_span_bind:
  "n = length xs \<Longrightarrow> parses (k (p, n)) e (p + n) bs v \<Longrightarrow> parses (rd_bind (rd_span n) k) e p (xs @ bs) v"
  by (rule parses_bind[OF parses_span]) simp_all

lemma parses_operation_bind:
  "length xs < 2 ^ 32 \<Longrightarrow> parses (k (ALIGN_VALUE p 4 + 4)) e (p + length (enc_octets e xs p)) bs v \<Longrightarrow>
     parses (rd_bind rd_operation k) e p (enc_octets e xs p @ bs) v"
  by (rule parses_bind[OF parses_operation])

lemma parses_contexts_bind:
  "list_all context_ok cs \<Longrightarrow> length cs < 2 ^ 32 \<Longrightarrow>
     parses (k (contexts_value cs)) e (p + length (enc_contexts e cs p)) bs v \<Longrightarrow>
     parses (rd_bind (giop_IOP_ServiceContextList_demarshal m lp64) k) e p (enc_contexts e cs p @ bs) v"
  by (rule parses_bind[OF parses_contexts])

lemma ALIGN_VALUE_4_add: "ALIGN_VALUE (ALIGN_VALUE p 4 + 4 * k) 4 = ALIGN_VALUE p 4 + 4 * k"
  by (rule ALIGN_VALUE_id) (simp_all add: ALIGN_VALUE_dvd dvd_add)

lemma enc_octets_aligned: "4 dvd p \<Longrightarrow> enc_octets e xs p = u32_bytes e (of_nat (length xs)) @ xs"
  by (simp add: enc_octets_def enc_ulong_def pad_Nil)

lemma parses_request_1_1:
  assumes len: "length key < 2 ^ 32" "length op < 2 ^ 32" "length pr < 2 ^ 32"
    and cs: "list_all context_ok cs" "length cs < 2 ^ 32"
    and q: "q1 = p + length (enc_contexts e cs p)" "q2 = ALIGN_VALUE q1 4 + 8"
      "q3 = q2 + length (enc_octets e key q2)" "q4 = q3 + length (enc_octets e op q3)"
  shows "parses (giop_recv_buffer_demarshal_request_1_1 m lp64) e p
    (enc_contexts e cs p @ pad 4 q1 @ u32_bytes e i @ resp # [0, 0, 0]
      @ enc_octets e key q2 @ enc_octets e op q3 @ enc_octets e pr q4)
    (Request_1_1 (contexts_value cs) i resp (q2 + 4, length key) (ALIGN_VALUE q3 4 + 4) (ALIGN_VALUE q4 4 + 4, length pr))"
proof -
  have d: "4 dvd q2" unfolding q(2) by (intro dvd_add ALIGN_VALUE_dvd) simp
  have u: "unat (of_nat (length key) :: u32) = length key" using len(1) by (rule unat_of_nat_u32)
  have key: "enc_octets e key q2 = u32_bytes e (of_nat (length key)) @ key" by (rule enc_octets_aligned[OF d])
  have "parses (rd_bind rd_counted (\<lambda>pr. rd_ret (M pr))) e q4 (enc_octets e pr q4) (M (ALIGN_VALUE q4 4 + 4, length pr))" for M
    by (rule parses_bind_ret[OF parses_counted[OF len(3)] refl])
  then have "parses (rd_bind rd_operation (\<lambda>op. rd_bind rd_counted (\<lambda>pr. rd_ret (M op pr)))) e q3
      (enc_octets e op q3 @ enc_octets e pr q4) (M (ALIGN_VALUE q3 4 + 4) (ALIGN_VALUE q4 4 + 4, length pr))" for M
    by (intro parses_operation_bind[OF len(2)]) (simp add: q(4)[symmetric])
  then have "parses (rd_bind rd_u32 (\<lambda>len. rd_bind (rd_span (unat len)) (\<lambda>key. rd_bind rd_operation (\<lambda>op.
      rd_bind rd_counted (\<lambda>pr. rd_ret (M key op pr)))))) e q2
      (enc_octets e key q2 @ enc_octets e op q3 @ enc_octets e pr q4)
      (M (q2 + 4, length key) (ALIGN_VALUE q3 4 + 4) (ALIGN_VALUE q4 4 + 4, length pr))" for M
    unfolding key append_assoc
    by (intro parses_u32_bind parses_span_bind) (simp_all add: u q(3) key add.assoc)
  note tail = this
  have "parses (rd_bind rd_u32 (\<lambda>i. rd_bind rd_byte (\<lambda>resp. rd_bind (rd_bytes 3) (\<lambda>_. rd_bind rd_u32 (\<lambda>len.
      rd_bind (rd_span (unat len)) (\<lambda>key. rd_bind rd_operation (\<lambda>op. rd_bind rd_counted (\<lambda>pr.
      rd_ret (Request_1_1 (contexts_value cs) i resp key op pr))))))))) e (ALIGN_VALUE q1 4)
      (u32_bytes e i @ resp # 0 # 0 # 0 # enc_octets e key q2 @ enc_octets e op q3 @ enc_octets e pr q4)
      (Request_1_1 (contexts_value cs) i resp (q2 + 4, length key) (ALIGN_VALUE q3 4 + 4) (ALIGN_VALUE q4 4 + 4, length pr))"
    by (intro parses_u32_bind parses_byte_bind parses_reserved_bind parses_at[OF tail]) (simp add: q(2))
  then have "parses (rd_bind (rd_align 4) (\<lambda>_. rd_bind (rd_need 12) (\<lambda>_. rd_bind rd_u32 (\<lambda>i. rd_bind rd_byte (\<lambda>resp.
      rd_bind (rd_bytes 3) (\<lambda>_. rd_bind rd_u32 (\<lambda>len. rd_bind (rd_span (unat len)) (\<lambda>key. rd_bind rd_operation (\<lambda>op.
      rd_bind rd_counted (\<lambda>pr. rd_ret (Request_1_1 (contexts_value cs) i resp key op pr))))))))))) e q1
      (pad 4 q1 @ u32_bytes e i @ resp # 0 # 0 # 0 # enc_octets e key q2 @ enc_octets e op q3 @ enc_octets e pr q4)
      (Request_1_1 (contexts_value cs) i resp (q2 + 4, length key) (ALIGN_VALUE q3 4 + 4) (ALIGN_VALUE q4 4 + 4, length pr))"
    by (intro parses_align_bind parses_need) (simp_all add: key)
  then show ?thesis
    unfolding giop_recv_buffer_demarshal_request_1_1_def q(1) by (intro parses_contexts_bind[OF cs]) simp
qed

lemma parses_align_end:
  "0 < n \<Longrightarrow> v = k () \<Longrightarrow> parses (rd_bind (rd_align n) (\<lambda>x. rd_ret (k x))) e p (pad n p) v"
  by (rule parses_bind_ret[OF parses_align]) simp_all

lemma parses_request_1_2:
  assumes len: "length key < 2 ^ 32" "length op < 2 ^ 32"
    and cs: "list_all context_ok cs" "length cs < 2 ^ 32"
    and q: "q1 = ALIGN_VALUE p 4 + 8" "q2 = q1 + length (enc_target e key q1)"
      "q3 = q2 + length (enc_octets e op q2)" "q4 = q3 + length (enc_contexts e cs q3)"
  shows "parses (giop_recv_buffer_demarshal_request_1_2 m lp64) e p
    (pad 4 p @ u32_bytes e i @ resp # 0 # 0 # 0 # enc_target e key q1 @ enc_octets e op q2
      @ enc_contexts e cs q3 @ pad 8 q4)
    (Request_1_2 i resp (KeyAddr (ALIGN_VALUE (ALIGN_VALUE q1 2 + 2) 4 + 4, length key)) (ALIGN_VALUE q2 4 + 4)
      (contexts_value cs))"
proof -
  have "parses (rd_bind (giop_IOP_ServiceContextList_demarshal m lp64) (\<lambda>ctx. rd_bind (rd_align 8) (\<lambda>_. rd_ret (M ctx))))
      e q3 (enc_contexts e cs q3 @ pad 8 q4) (M (contexts_value cs))" for M
    by (intro parses_contexts_bind[OF cs], fold q(4)) (intro parses_align_end; simp)
  then have "parses (rd_bind rd_operation (\<lambda>op. rd_bind (giop_IOP_ServiceContextList_demarshal m lp64)
      (\<lambda>ctx. rd_bind (rd_align 8) (\<lambda>_. rd_ret (M op ctx))))) e q2
      (enc_octets e op q2 @ enc_contexts e cs q3 @ pad 8 q4) (M (ALIGN_VALUE q2 4 + 4) (contexts_value cs))" for M
    by (intro parses_operation_bind[OF len(2)]) (simp add: q(3)[symmetric])
  then have "parses (rd_bind giop_GIOP_TargetAddress_demarshal (\<lambda>t. rd_bind rd_operation (\<lambda>op.
      rd_bind (giop_IOP_ServiceContextList_demarshal m lp64) (\<lambda>ctx. rd_bind (rd_align 8) (\<lambda>_. rd_ret (M t op ctx))))))
      e q1 (enc_target e key q1 @ enc_octets e op q2 @ enc_contexts e cs q3 @ pad 8 q4)
      (M (KeyAddr (ALIGN_VALUE (ALIGN_VALUE q1 2 + 2) 4 + 4, length key)) (ALIGN_VALUE q2 4 + 4) (contexts_value cs))" for M
    by (intro parses_bind[OF parses_target[OF len(1)]]) (simp add: q(2)[symmetric])
  note tail = this
  have "parses (rd_bind rd_u32 (\<lambda>i. rd_bind rd_byte (\<lambda>resp. rd_bind (rd_bytes 3) (\<lambda>_.
      rd_bind giop_GIOP_TargetAddress_demarshal (\<lambda>t. rd_bind rd_operation (\<lambda>op.
      rd_bind (giop_IOP_ServiceContextList_demarshal m lp64) (\<lambda>ctx. rd_bind (rd_align 8) (\<lambda>_.
      rd_ret (Request_1_2 i resp t op ctx))))))))) e (ALIGN_VALUE p 4)
      (u32_bytes e i @ resp # 0 # 0 # 0 # enc_target e key q1 @ enc_octets e op q2 @ enc_contexts e cs q3 @ pad 8 q4)
      (Request_1_2 i resp (KeyAddr (ALIGN_VALUE (ALIGN_VALUE q1 2 + 2) 4 + 4, length key)) (ALIGN_VALUE q2 4 + 4)
      (contexts_value cs))"
    by (intro parses_u32_bind parses_byte_bind parses_reserved_bind parses_at[OF tail]) (simp add: q(1))
  then show ?thesis
    unfolding giop_recv_buffer_demarshal_request_1_2_def by (intro parses_align_bind parses_need) simp_all
qed

lemma parses_reply_1_1:
  assumes cs: "list_all context_ok cs" "length cs < 2 ^ 32" and q: "q1 = p + length (enc_contexts e cs p)"
  shows "parses (giop_recv_buffer_demarshal_reply_1_1 m lp64) e p
    (enc_contexts e cs p @ pad 4 q1 @ u32_bytes e i @ u32_bytes e st) (Reply_1_1 (contexts_value cs) i st)"
  unfolding giop_recv_buffer_demarshal_reply_1_1_def q
  by (intro parses_contexts_bind[OF cs] parses_align_bind parses_need parses_u32_bind parses_bind_ret[OF parses_u32])
    simp_all

lemma parses_reply_1_2:
  assumes cs: "list_all context_ok cs" "length cs < 2 ^ 32"
    and q: "q1 = ALIGN_VALUE p 4 + 8" "q2 = q1 + length (enc_contexts e cs q1)"
  shows "parses (giop_recv_buffer_demarshal_reply_1_2 m lp64) e p
    (pad 4 p @ u32_bytes e i @ u32_bytes e st @ enc_contexts e cs q1 @ pad 8 q2) (Reply_1_2 i st (contexts_value cs))"
proof -
  have "parses (rd_bind (giop_IOP_ServiceContextList_demarshal m lp64) (\<lambda>ctx. rd_bind (rd_align 8) (\<lambda>_. rd_ret (M ctx))))
      e q1 (enc_contexts e cs q1 @ pad 8 q2) (M (contexts_value cs))" for M
    by (intro parses_contexts_bind[OF cs], fold q(2)) (intro parses_align_end; simp)
  note tail = this
  show ?thesis
    unfolding giop_recv_buffer_demarshal_reply_1_2_def
    by (intro parses_align_bind parses_need parses_u32_bind parses_at[OF tail]) (simp_all add: q(1))
qed

lemma parses_cancel: "parses giop_recv_buffer_demarshal_cancel e p (enc_ulong e i p) (CancelRequest i)"
  unfolding giop_recv_buffer_demarshal_cancel_def by (rule parses_bind_ret[OF parses_ulong refl])

lemma parses_locate_request_1_1:
  assumes "length key < 2 ^ 32"
  shows "parses giop_recv_buffer_demarshal_locate_request_1_1 e p
    (pad 4 p @ u32_bytes e i @ u32_bytes e (of_nat (length key)) @ key)
    (LocateRequest_1_1 i (ALIGN_VALUE p 4 + 8, length key))"
  unfolding giop_recv_buffer_demarshal_locate_request_1_1_def
  by (intro parses_align_bind parses_need parses_u32_bind parses_bind_ret[OF parses_span])
    (simp_all add: unat_of_nat_u32[OF assms])

lemma parses_locate_request_1_2:
  assumes "length key < 2 ^ 32" "q = p + length (enc_ulong e i p)"
  shows "parses giop_recv_buffer_demarshal_locate_request_1_2 e p (enc_ulong e i p @ enc_target e key q)
    (LocateRequest_1_2 i (KeyAddr (ALIGN_VALUE (ALIGN_VALUE q 2 + 2) 4 + 4, length key)))"
  unfolding giop_recv_buffer_demarshal_locate_request_1_2_def assms(2)
  by (intro parses_bind[OF parses_ulong] parses_bind_ret[OF parses_target[OF assms(1)] refl])

lemma parses_locate_reply:
  "parses giop_recv_buffer_demarshal_locate_reply_1_1 e p (pad 4 p @ u32_bytes e i @ u32_bytes e st) (LocateReply i st)"
  unfolding giop_recv_buffer_demarshal_locate_reply_1_1_def
  by (intro parses_align_bind parses_need parses_u32_bind parses_bind_ret[OF parses_u32]) simp_all

section \<open>What the senders write\<close>

definition codesets :: "endian \<Rightarrow> u32 \<times> byte list" where
  "codesets host = (1, concat (map (u32_bytes host) [if host then 0x01010101 else 0, 0x05010001, 0x00010109]))"

lemma codesets_ok [simp]: "context_ok (codesets host)"
  by (simp add: context_ok_def codesets_def)

lemma context_data: "4 dvd p \<Longrightarrow> iop_service_context_data host = enc_contexts host [codesets host] p"
  by (simp add: iop_service_context_data_def codesets_def enc_contexts_def enc_octets_def enc_ulong_def pad_Nil dvd_add)

lemma context_data_length [simp]: "length (iop_service_context_data host) = 24"
  by (simp add: iop_service_context_data_def)

text \<open>An encoding that starts with an alignment is that at the next boundary behind the padding.\<close>

lemma enc_ulong_pad: "enc_ulong e w p = pad 4 p @ enc_ulong e w (ALIGN_VALUE p 4)"
  by (simp add: enc_ulong_def pad_Nil ALIGN_VALUE_dvd)

lemma enc_octets_pad: "enc_octets e xs p = pad 4 p @ enc_octets e xs (ALIGN_VALUE p 4)"
  unfolding enc_octets_def by (subst enc_ulong_pad) simp

lemma enc_contexts_pad: "enc_contexts e cs p = pad 4 p @ enc_contexts e cs (ALIGN_VALUE p 4)"
proof -
  have "p + length (enc_ulong e w p) = ALIGN_VALUE p 4 + length (enc_ulong e w (ALIGN_VALUE p 4))" for w
    using pad_pos[of 4 p] by (subst enc_ulong_pad) simp
  then show ?thesis unfolding enc_contexts_def by (subst enc_ulong_pad) simp
qed

lemma start_message_simps [simp]:
  "sb_ok (start_message t host v)" "s_host (start_message t host v) = host" "s_out (start_message t host v) = []"
  "s_version (start_message t host v) = v" "s_type (start_message t host v) = t"
  "s_header_size (start_message t host v) = 12" "spos (start_message t host v) = 12"
  using sb_ok_use[of host v] use_sel[of host v]
  by (simp_all add: start_message_def sb_ok_def spos_def giop_send_buffer_use_def)

text \<open>The operation ends where the description of the method says, and zeros fill the word.\<close>

lemma operation_header_enc:
  assumes "n < length name" "op = take (n + 1) name" "4 dvd p"
  shows "operation_header host name n = enc_octets host op p @ pad 4 (p + length (enc_octets host op p))"
proof -
  have l: "length op = n + 1" using assms(1,2) by simp
  have "length (enc_octets host op p) = 4 + length op" by (simp add: enc_octets_aligned[OF assms(3)])
  then have "pad 4 (p + length (enc_octets host op p)) = replicate (ALIGN_VALUE (4 + length op) 4 - (4 + length op)) 0"
    using ALIGN_VALUE_add[of 4 p "4 + length op"] assms(3) by (simp add: pad_def)
  then show ?thesis
    using l assms(2) unfolding operation_header_def Let_def
    by (simp add: enc_octets_aligned[OF assms(3)] slice_def)
qed

lemma operation_header_at:
  assumes "n < length name" "op = take (n + 1) name"
  shows "pad 4 q @ operation_header host name n = enc_octets host op q @ pad 4 (q + length (enc_octets host op q))"
proof -
  have "q + length (enc_octets host op q) = ALIGN_VALUE q 4 + length (enc_octets host op (ALIGN_VALUE q 4))"
    using pad_pos[of 4 q] by (subst enc_octets_pad) simp
  then show ?thesis
    using operation_header_enc[OF assms, of "ALIGN_VALUE q 4"] by (simp add: ALIGN_VALUE_dvd enc_octets_pad[of host op q])
qed

lemma pad_behind: "pad 4 (q + length (enc_octets e op q)) = pad 4 (length op)"
proof -
  have "q + length (enc_octets e op q) = (ALIGN_VALUE q 4 + 4) + length op"
    using pad_pos[of 4 q] by (simp add: enc_octets_def enc_ulong_def)
  moreover have "4 dvd ALIGN_VALUE q 4 + 4" by (intro dvd_add ALIGN_VALUE_dvd) simp
  ultimately show ?thesis using ALIGN_VALUE_add[of 4 "ALIGN_VALUE q 4 + 4" "length op"] by (simp add: pad_def)
qed

definition format_1_1 :: "endian \<Rightarrow> u32 \<Rightarrow> byte \<Rightarrow> byte list \<Rightarrow> cblock \<Rightarrow> byte list" where
  "format_1_1 e i resp key op = (let q3 = 44 + length (enc_octets e key 44) in
     enc_contexts e [codesets e] 12 @ u32_bytes e i @ resp # 0 # 0 # 0 # enc_octets e key 44
       @ enc_octets e op q3 @ enc_octets e [] (q3 + length (enc_octets e op q3)))"

definition format_1_2 :: "endian \<Rightarrow> u32 \<Rightarrow> byte \<Rightarrow> byte list \<Rightarrow> cblock \<Rightarrow> byte list" where
  "format_1_2 e i resp key op = (let q2 = 20 + length (enc_target e key 20); q3 = q2 + length (enc_octets e op q2);
       q4 = q3 + length (enc_contexts e [codesets e] q3) in
     u32_bytes e i @ resp # 0 # 0 # 0 # enc_target e key 20 @ enc_octets e op q2
       @ enc_contexts e [codesets e] q3 @ pad 8 q4)"

lemma align_12: "ALIGN_VALUE 12 4 = 12" "ALIGN_VALUE 36 4 = 36" "ALIGN_VALUE 22 4 = 24" "ALIGN_VALUE 20 2 = 20"
  "ALIGN_VALUE 41 4 = 44" "ALIGN_VALUE 44 4 = 44" "ALIGN_VALUE 18 2 = 18" "ALIGN_VALUE 16 2 = 16" "ALIGN_VALUE 16 4 = 16"
  by (simp_all add: ALIGN_VALUE_def)

lemma contexts_12: "enc_contexts e [codesets e] 12 = iop_service_context_data e"
  by (rule context_data[symmetric]) simp

lemma sb_append_key:
  "sb_ok b \<Longrightarrow> append_key key b = sb_append (enc_octets (s_host b) key (spos b)) b"
  by (simp add: append_key_def enc_octets_def enc_ulong_def)

lemma replicate_3 [simp]: "replicate 3 x = [x, x, x]"
  by (simp add: numeral_3_eq_3)

lemma enc_no_octets: "enc_octets e [] p = pad 4 p @ [0, 0, 0, 0]"
  by (simp add: enc_octets_def enc_ulong_def mem_bytes_def in_order_def)

lemma enc_codesets: "enc_contexts e [codesets e] p = pad 4 p @ iop_service_context_data e"
  by (subst enc_contexts_pad) (simp flip: context_data[OF ALIGN_VALUE_dvd])

lemma use_request_1_1:
  assumes op: "n < length name" "op = take (n + 1) name" and v: "v \<noteq> GIOP_1_2"
  shows "giop_send_buffer_use_request host v i resp key (operation_header host name n) None
    = sb_append (format_1_1 host i (of_bool resp) key op) (start_message GIOP_REQUEST host v)"
proof -
  let ?q3 = "44 + length (enc_octets host key 44)"
  have key: "enc_octets host key 41 = [0, 0, 0] @ enc_octets host key 44"
    by (subst enc_octets_pad) (simp add: pad_def align_12)
  have mid: "enc_octets host op ?q3 @ enc_octets host [] (?q3 + length (enc_octets host op ?q3))
      = pad 4 ?q3 @ operation_header host name n @ [0, 0, 0, 0]"
    using arg_cong[OF operation_header_at[OF op, of ?q3 host], of "\<lambda>y. y @ [0, 0, 0, 0]"]
    by (simp only: enc_no_octets append_assoc)
  have r4: "replicate 4 0 = [0, 0, 0, 0 :: byte]" by (simp add: numeral_eq_Suc)
  show ?thesis
    unfolding format_1_1_def Let_def mid using v
    by (simp add: giop_send_buffer_use_request_def Let_def append_ulong_def sb_append_key key r4
        contexts_12 pad_def[of 4 12] align_12)
qed

lemma use_request_1_2:
  assumes op: "n < length name" "op = take (n + 1) name"
  shows "giop_send_buffer_use_request host GIOP_1_2 i resp key (operation_header host name n) None
    = sb_append (format_1_2 host i (if resp then 3 else 0) key op) (start_message GIOP_REQUEST host GIOP_1_2)"
proof -
  let ?q2 = "20 + length (enc_target host key 20)"
  let ?q3 = "?q2 + length (enc_octets host op ?q2)"
  have t: "enc_target host key 20 = u16_bytes host GIOP_KeyAddr @ enc_octets host key 22"
    by (simp add: enc_target_def pad_def align_12)
  have mid: "enc_octets host op ?q2 @ enc_contexts host [codesets host] ?q3 @ x
      = pad 4 ?q2 @ operation_header host name n @ iop_service_context_data host @ x" for x
    using arg_cong[OF operation_header_at[OF op, of ?q2 host], of "\<lambda>y. y @ iop_service_context_data host @ x"]
    by (simp only: enc_codesets append_assoc)
  have q4: "?q3 + length (enc_contexts host [codesets host] ?q3) = ?q2 + length (pad 4 ?q2
      @ operation_header host name n @ iop_service_context_data host)"
    using arg_cong[OF mid[of "[]"], of length] by simp
  have "sb_align 8 (sb_append xs (start_message t host v)) = sb_append (xs @ pad 8 (12 + length xs)) (start_message t host v)" for xs t v
    by simp
  show ?thesis
    unfolding format_1_2_def Let_def mid q4
    by (simp add: giop_send_buffer_use_request_def Let_def append_ulong_def sb_append_key t
        pad_def[of 4 12] align_12 add.assoc)
qed

section \<open>A request arrives\<close>

lemma slice_of_bytes:
  assumes "at_bytes p bs b" "bs = xs @ ys @ zs" "q = p + length xs"
  shows "slice q (length ys) (r_mem b) = ys"
proof -
  have "at_bytes (p + length xs) (ys @ zs) (b\<lparr> r_cur := p + length xs \<rparr>)"
    using assms(1) unfolding assms(2) by (rule at_bytes_append)
  then have "at_bytes (p + length xs) ys (b\<lparr> r_cur := p + length xs \<rparr>)" by (rule at_bytes_append)
  then show ?thesis using assms(3) by (simp add: at_bytes_def)
qed

lemma c_at_text:
  assumes "slice q (length s) mem = s" "0 \<in> set s"
  shows "c_at q mem = Inr (c_text s @ [0])"
proof -
  have "drop q mem = s @ drop (length s) (drop q mem)"
    using assms(1) append_take_drop_id[of "length s" "drop q mem"] by (simp add: slice_def)
  then obtain u where u: "drop q mem = s @ u" by blast
  have "c_text (s @ u) = c_text s" unfolding c_text_def using assms(2) by (intro takeWhile_append1) auto
  then show ?thesis using assms(2) by (simp add: c_at_def c_terminated_def u)
qed

text \<open>Whether the sender of a request waits for the reply.\<close>

fun response_wanted :: "giop_msg \<Rightarrow> bool" where
  "response_wanted (Request_1_1 _ _ response_expected _ _ _) = (response_expected \<noteq> 0)"
| "response_wanted (Request_1_2 _ response_flags _ _ _) = (response_flags \<noteq> 0)"
| "response_wanted _ = False"

lemma parses_format_1_1:
  assumes "length key < 2 ^ 32" "length op < 2 ^ 32"
  shows "parses (giop_recv_buffer_demarshal_request_1_1 m lp64) e 12 (format_1_1 e i resp key op)
    (Request_1_1 (contexts_value [codesets e]) i resp (48, length key)
      (ALIGN_VALUE (44 + length (enc_octets e key 44)) 4 + 4)
      (ALIGN_VALUE (44 + length (enc_octets e key 44) + length (enc_octets e op (44 + length (enc_octets e key 44)))) 4 + 4, 0))"
  using parses_request_1_1[OF assms, of "[]" "[codesets e]" 36 12 e 44 "44 + length (enc_octets e key 44)"
      "44 + length (enc_octets e key 44) + length (enc_octets e op (44 + length (enc_octets e key 44)))" m lp64 i resp]
  by (simp add: format_1_1_def Let_def contexts_12 align_12 pad_def[of 4 36])

lemma parses_format_1_2:
  assumes "length key < 2 ^ 32" "length op < 2 ^ 32"
  shows "parses (giop_recv_buffer_demarshal_request_1_2 m lp64) e 12 (format_1_2 e i resp key op)
    (Request_1_2 i resp (KeyAddr (28, length key)) (ALIGN_VALUE (20 + length (enc_target e key 20)) 4 + 4)
      (contexts_value [codesets e]))"
proof -
  let ?q2 = "20 + length (enc_target e key 20)"
  let ?q3 = "?q2 + length (enc_octets e op ?q2)"
  show ?thesis
    using parses_request_1_2[OF assms, of "[codesets e]" 20 12 ?q2 e ?q3 "?q3 + length (enc_contexts e [codesets e] ?q3)" m lp64 i resp]
    by (simp add: format_1_2_def Let_def align_12 pad_def[of 4 12])
qed

lemma octets_split: "enc_octets e xs p = (pad 4 p @ u32_bytes e (of_nat (length xs))) @ xs"
  by (simp add: enc_octets_def enc_ulong_def)

lemma octets_behind:
  "enc_octets e op q @ pad 4 (q + length (enc_octets e op q)) @ zs
    = (pad 4 q @ u32_bytes e (of_nat (length op))) @ (op @ pad 4 (length op)) @ zs"
  unfolding pad_behind by (simp add: octets_split)

lemma request_at:
  assumes key: "length key < 2 ^ 32" and op: "n < length name" "op = take (n + 1) name" "length op < 2 ^ 32"
    and name: "op @ pad 4 (length op) = s" "0 \<in> set s"
    and b: "b = giop_send_buffer_use_request host v i resp key (operation_header host name n) None"
    and r: "r_version r = v" "r_type r = GIOP_REQUEST" "flag_endian (r_flags r) = host" "at_bytes 12 (s_out b) r"
  shows "\<exists>msg off. giop_recv_buffer_demarshal m lp64 r = Inr (msg, r\<lparr> r_cur := spos b \<rparr>)
    \<and> giop_recv_buffer_get_request_id msg = i \<and> response_wanted msg = resp
    \<and> giop_recv_buffer_get_objkey msg = Inr (off, length key) \<and> slice off (length key) (r_mem r) = key
    \<and> giop_recv_buffer_get_opname (r_mem r) msg = Inr (c_text s @ [0])"
proof (cases "v = GIOP_1_2")
  case False
  let ?f = "format_1_1 host i (of_bool resp) key op" and ?q3 = "44 + length (enc_octets host key 44)"
  have out: "s_out b = ?f" "spos b = 12 + length ?f" using use_request_1_1[OF op(1,2) False] b by simp_all
  note p = parsesD[OF parses_format_1_1[OF key op(3)] r(3), of i "of_bool resp" m lp64]
  have dec: "giop_recv_buffer_demarshal m lp64 r = giop_recv_buffer_demarshal_request_1_1 m lp64 r"
    using False r(1,2) by (simp add: giop_recv_buffer_demarshal_def giop_msg_types)
  have k: "slice 48 (length key) (r_mem r) = key"
    by (rule slice_of_bytes[OF r(4)[unfolded out], where xs = "enc_contexts host [codesets host] 12 @ u32_bytes host i
        @ [of_bool resp, 0, 0, 0] @ pad 4 44 @ u32_bytes host (of_nat (length key))" and zs = "enc_octets host op ?q3
        @ enc_octets host [] (?q3 + length (enc_octets host op ?q3))"])
      (simp_all add: format_1_1_def Let_def octets_split[of host key] contexts_12 pad_def[of 4 44] align_12)
  have "slice (ALIGN_VALUE ?q3 4 + 4) (length s) (r_mem r) = s" unfolding name(1)[symmetric]
    by (rule slice_of_bytes[OF r(4)[unfolded out], where xs = "enc_contexts host [codesets host] 12 @ u32_bytes host i
        @ [of_bool resp, 0, 0, 0] @ enc_octets host key 44 @ pad 4 ?q3 @ u32_bytes host (of_nat (length op))"
        and zs = "[0, 0, 0, 0]"])
      (use pad_pos[of 4 ?q3] octets_behind[of host op ?q3 "[0, 0, 0, 0]"] in
        \<open>simp_all add: format_1_1_def Let_def enc_no_octets contexts_12 del: pad_length\<close>)
  then have "c_at (ALIGN_VALUE ?q3 4 + 4) (r_mem r) = Inr (c_text s @ [0])" by (rule c_at_text[OF _ name(2)])
  then show ?thesis using p r(4) dec k unfolding out by auto
next
  case True
  let ?f = "format_1_2 host i (if resp then 3 else 0) key op" and ?q2 = "20 + length (enc_target host key 20)"
  let ?q3 = "?q2 + length (enc_octets host op ?q2)"
  let ?z = "enc_contexts host [codesets host] ?q3 @ pad 8 (?q3 + length (enc_contexts host [codesets host] ?q3))"
  have out: "s_out b = ?f" "spos b = 12 + length ?f" using use_request_1_2[OF op(1,2)] b True by simp_all
  note p = parsesD[OF parses_format_1_2[OF key op(3)] r(3), of i "if resp then 3 else 0" m lp64]
  have dec: "giop_recv_buffer_demarshal m lp64 r = giop_recv_buffer_demarshal_request_1_2 m lp64 r"
    using True r(1,2) by (simp add: giop_recv_buffer_demarshal_def giop_msg_types)
  have t: "enc_target host key 20 = u16_bytes host GIOP_KeyAddr @ enc_octets host key 22"
    by (simp add: enc_target_def pad_def align_12)
  have k: "slice 28 (length key) (r_mem r) = key"
    by (rule slice_of_bytes[OF r(4)[unfolded out], where xs = "u32_bytes host i @ [if resp then 3 else 0, 0, 0, 0]
        @ u16_bytes host GIOP_KeyAddr @ pad 4 22 @ u32_bytes host (of_nat (length key))" and zs = "enc_octets host op ?q2 @ ?z"])
      (simp_all add: format_1_2_def Let_def t octets_split[of host key] pad_def[of 4 22] align_12)
  have "slice (ALIGN_VALUE ?q2 4 + 4) (length s) (r_mem r) = s" unfolding name(1)[symmetric]
    by (rule slice_of_bytes[OF r(4)[unfolded out], where xs = "u32_bytes host i @ [if resp then 3 else 0, 0, 0, 0]
        @ enc_target host key 20 @ pad 4 ?q2 @ u32_bytes host (of_nat (length op))" and zs = "iop_service_context_data host @
          pad 8 (?q3 + length (enc_contexts host [codesets host] ?q3))"])
      (use pad_pos[of 4 ?q2] octets_behind[of host op ?q2 "iop_service_context_data host @
          pad 8 (?q3 + length (enc_contexts host [codesets host] ?q3))"] in
        \<open>simp_all add: format_1_2_def Let_def enc_codesets del: pad_length\<close>)
  then have "c_at (ALIGN_VALUE ?q2 4 + 4) (r_mem r) = Inr (c_text s @ [0])" by (rule c_at_text[OF _ name(2)])
  then show ?thesis using p r(4) dec k unfolding out by auto
qed

lemma received_sel [simp]:
  "r_version (received host s p) = s_version s" "r_type (received host s p) = s_type s"
  "flag_endian (r_flags (received host s p)) = s_host s" "r_mem (received host s p) = sb_wire s"
  "received host s p\<lparr> r_cur := q \<rparr> = received host s q"
  by (simp_all add: received_def)

lemma request_sel:
  "s_version (giop_send_buffer_use_request host v i resp key op pr) = v"
  "s_type (giop_send_buffer_use_request host v i resp key op pr) = GIOP_REQUEST"
  "s_host (giop_send_buffer_use_request host v i resp key op pr) = host"
  "s_header_size (giop_send_buffer_use_request host v i resp key op pr) = 12"
  by (simp_all add: giop_send_buffer_use_request_def Let_def append_ulong_def append_key_def sb_append_aligned_def)

lemma request_arrives:
  assumes "length key < 2 ^ 32" "n < length name" "op = take (n + 1) name" "length op < 2 ^ 32"
    and s: "op @ pad 4 (length op) = s" "0 \<in> set s"
    and b: "b = giop_send_buffer_use_request host v i resp key (operation_header host name n) None"
    and wire: "wire = sb_append args b"
  shows "\<exists>msg off. giop_recv_buffer_demarshal m lp64 (received host' wire 12) = Inr (msg, received host' wire (spos b))
    \<and> giop_recv_buffer_get_request_id msg = i \<and> response_wanted msg = resp
    \<and> giop_recv_buffer_get_objkey msg = Inr (off, length key) \<and> slice off (length key) (sb_wire wire) = key
    \<and> giop_recv_buffer_get_opname (sb_wire wire) msg = Inr (c_text s @ [0])"
proof -
  have at: "at_bytes 12 (s_out b) (received host' wire 12)"
    using at_bytes_received[of "start_message GIOP_REQUEST host v" wire "s_out b" args host'] wire by simp
  show ?thesis
    using request_at[OF assms(1-6) b _ _ _ at, of m lp64] by (simp add: wire b request_sel)
qed

text \<open>C24. A request that the ORB starts, with any arguments behind its header, is understood by a receiver of
  either byte order, in every version of GIOP: it finds the request's number, whether a response is wanted, the
  object's key and the name of the operation, and goes on reading where the arguments begin.\<close>

theorem request_travels:
  assumes "length objkey < 2 ^ 32" "c_string name" "length name < 2 ^ 32"
    and b: "b = giop_send_buffer_use_request host v i resp objkey (operation_header host name (length name - 1)) None"
    and wire: "wire = sb_append args b"
  shows "\<exists>msg off. giop_recv_buffer_demarshal m lp64 (received host' wire 12) = Inr (msg, received host' wire (spos b))
    \<and> giop_recv_buffer_get_request_id msg = i \<and> response_wanted msg = resp
    \<and> giop_recv_buffer_get_objkey msg = Inr (off, length objkey) \<and> slice off (length objkey) (sb_wire wire) = objkey
    \<and> giop_recv_buffer_get_opname (sb_wire wire) msg = Inr name"
proof -
  obtain t where t: "name = t @ [0]" "0 \<notin> set t" using assms(2) by (rule c_stringE)
  then have "c_text (name @ pad 4 (length name)) @ [0] = name" using c_text_append[OF t(2)] by simp
  then show ?thesis
    using request_arrives[OF assms(1) _ _ _ refl _ b wire, of name m lp64 host'] t assms(3) by simp
qed

theorem request_travels_witness:
  "\<exists>msg off. giop_recv_buffer_demarshal x86_64 True (received False (sb_append [1, 2, 3]
       (giop_send_buffer_use_request True GIOP_1_2 7 True [9, 8] (operation_header True (cstr ''ping'') 4) None)) 12)
     = Inr (msg, received False (sb_append [1, 2, 3]
       (giop_send_buffer_use_request True GIOP_1_2 7 True [9, 8] (operation_header True (cstr ''ping'') 4) None))
       (spos (giop_send_buffer_use_request True GIOP_1_2 7 True [9, 8] (operation_header True (cstr ''ping'') 4) None)))
     \<and> giop_recv_buffer_get_request_id msg = 7"
proof -
  have n: "c_string (cstr ''ping'')" "length (cstr ''ping'') < 2 ^ 32" "length (cstr ''ping'') - 1 = 4"
    by (simp_all add: cstr_def c_string_def)
  show ?thesis
    using request_travels[of "[9, 8]" "cstr ''ping''" _ True GIOP_1_2 7 True _ "[1, 2, 3]" x86_64 True False,
        OF _ n(1,2) refl refl] unfolding n(3) by auto
qed

lemma use_reply_enc:
  "giop_send_buffer_use_reply host v i st = sb_append (if v = GIOP_1_2
     then u32_bytes host i @ u32_bytes host st @ enc_contexts host [codesets host] 20 @ pad 8 44
     else enc_contexts host [codesets host] 12 @ u32_bytes host i @ u32_bytes host st) (start_message GIOP_REPLY host v)"
  by (simp add: giop_send_buffer_use_reply_def Let_def append_ulong_def contexts_12 context_data[of 20, symmetric])

lemma reply_at:
  assumes b: "b = giop_send_buffer_use_reply host v i st"
    and r: "r_version r = v" "r_type r = GIOP_REPLY" "flag_endian (r_flags r) = host" "at_bytes 12 (s_out b) r"
  shows "\<exists>msg. giop_recv_buffer_demarshal m lp64 r = Inr (msg, r\<lparr> r_cur := spos b \<rparr>)
    \<and> giop_recv_buffer_get_request_id msg = i \<and> giop_recv_buffer_reply_status v msg = st"
proof (cases "v = GIOP_1_2")
  case True
  have "parses (giop_recv_buffer_demarshal_reply_1_2 m lp64) host 12 (s_out b) (Reply_1_2 i st (contexts_value [codesets host]))"
    using parses_reply_1_2[of "[codesets host]" 20 12 44 host m lp64 i st] True context_data[of 20 host, symmetric]
    by (simp add: b use_reply_enc align_12 pad_def[of 4 12])
  from parsesD[OF this r(3,4)] show ?thesis
    using True r(1,2) by (simp add: giop_recv_buffer_demarshal_def giop_msg_types word_le_nat_alt b use_reply_enc)
next
  case False
  have "parses (giop_recv_buffer_demarshal_reply_1_1 m lp64) host 12 (s_out b) (Reply_1_1 (contexts_value [codesets host]) i st)"
    using parses_reply_1_1[of "[codesets host]" 36 12 host m lp64 i st] False
    by (simp add: b use_reply_enc contexts_12 pad_def[of 4 36] align_12)
  from parsesD[OF this r(3,4)] show ?thesis
    using False r(1,2) by (simp add: giop_recv_buffer_demarshal_def giop_msg_types word_le_nat_alt b use_reply_enc)
qed

lemma locate_reply_at:
  assumes b: "b = giop_send_buffer_use_locate_reply host v i st"
    and r: "r_type r = GIOP_LOCATEREPLY" "flag_endian (r_flags r) = host" "at_bytes 12 (s_out b) r"
  shows "giop_recv_buffer_demarshal m lp64 r = Inr (LocateReply i st, r\<lparr> r_cur := spos b \<rparr>)"
proof -
  have "parses giop_recv_buffer_demarshal_locate_reply_1_1 host 12 (s_out b) (LocateReply i st)"
    using parses_locate_reply[of host 12 i st]
    by (simp add: b giop_send_buffer_use_locate_reply_def append_ulong_def pad_def align_12)
  from parsesD[OF this r(2,3)] show ?thesis
    using r(1) by (simp add: giop_recv_buffer_demarshal_def giop_msg_types b giop_send_buffer_use_locate_reply_def
        append_ulong_def giop_recv_buffer_demarshal_locate_reply_1_2_def)
qed

lemma locate_request_at:
  assumes key: "length key < 2 ^ 32" and b: "b = giop_send_buffer_use_locate_request host v i key"
    and r: "r_version r = v" "r_type r = GIOP_LOCATEREQUEST" "flag_endian (r_flags r) = host" "at_bytes 12 (s_out b) r"
  shows "\<exists>msg off. giop_recv_buffer_demarshal m lp64 r = Inr (msg, r\<lparr> r_cur := spos b \<rparr>)
    \<and> giop_recv_buffer_get_request_id msg = i \<and> giop_recv_buffer_get_objkey msg = Inr (off, length key)
    \<and> slice off (length key) (r_mem r) = key"
proof (cases "v = GIOP_1_2")
  case True
  have out: "s_out b = u32_bytes host i @ u16_bytes host GIOP_KeyAddr @ enc_octets host key 18" "spos b = 12 + length (s_out b)"
    using True by (simp_all add: b giop_send_buffer_use_locate_request_def append_ulong_def sb_append_key Let_def spos_def)
  have f: "s_out b = enc_ulong host i 12 @ enc_target host key 16"
    by (simp add: out enc_ulong_def enc_target_def pad_def align_12)
  have k: "slice 24 (length key) (r_mem r) = key"
    by (rule slice_of_bytes[OF r(4)[unfolded out], where xs = "u32_bytes host i @ u16_bytes host GIOP_KeyAddr @ pad 4 18
        @ u32_bytes host (of_nat (length key))" and zs = "[]"])
      (simp_all add: octets_split[of host key] pad_def[of 4 18] ALIGN_VALUE_def)
  show ?thesis
    using parsesD[OF parses_locate_request_1_2[OF key, of 16 12 host i] r(3), unfolded f[symmetric]] r k True
    by (simp add: giop_recv_buffer_demarshal_def giop_msg_types out(2) enc_ulong_def pad_def ALIGN_VALUE_def)
next
  case False
  have out: "s_out b = u32_bytes host i @ u32_bytes host (of_nat (length key)) @ key" "spos b = 12 + length (s_out b)"
    using False by (simp_all add: b giop_send_buffer_use_locate_request_def append_ulong_def sb_append_key Let_def spos_def
        enc_octets_def enc_ulong_def pad_def align_12)
  have k: "slice 20 (length key) (r_mem r) = key"
    by (rule slice_of_bytes[OF r(4)[unfolded out], where xs = "u32_bytes host i @ u32_bytes host (of_nat (length key))"
        and zs = "[]"]) simp_all
  show ?thesis
    using parsesD[OF parses_locate_request_1_1[OF key, of host 12 i] r(3)] r k False
    by (simp add: giop_recv_buffer_demarshal_def giop_msg_types out pad_def align_12)
qed

section \<open>The operations of every object\<close>

text \<open>
  The methods that every object has (\<^verbatim>\<open>CORBA_Object__imethods\<close>): their names and the lengths that are
  written down with them; and the receiver's search for the skeleton of one of them.
\<close>

definition CORBA_Object__imethods :: "(string \<times> nat) list" where
  "CORBA_Object__imethods = [(''_interface'', 10), (''is_nil'', 6), (''duplicate'', 9), (''release'', 7), (''_is_a'', 5),
     (''_non_existent'', 13), (''is_equivalent'', 13), (''hash'', 4), (''create_request'', 14), (''get_policy'', 10),
     (''get_domain_managers'', 19), (''set_policy_overrides'', 20), (''MateCORBA_get_type_id'', 17),
     (''MateCORBA_get_iinterface'', 20)]"

definition CORBA_OBJECT_SMALL_GET_TYPE_ID :: nat where "CORBA_OBJECT_SMALL_GET_TYPE_ID = 12"
definition CORBA_OBJECT_SMALL_GET_IINTERFACE :: nat where "CORBA_OBJECT_SMALL_GET_IINTERFACE = 13"

definition get_small_skel_CORBA_Object :: "cblock \<Rightarrow> nat option" where
  "get_small_skel_CORBA_Object opname = (if opname = cstr ''_is_a'' then Some 4
     else if opname = cstr ''MateCORBA_get_type_id'' then Some CORBA_OBJECT_SMALL_GET_TYPE_ID
     else if opname = cstr ''MateCORBA_get_iinterface'' then Some CORBA_OBJECT_SMALL_GET_IINTERFACE
     else None)"

definition method_header :: "endian \<Rightarrow> nat \<Rightarrow> byte list" where
  "method_header host k = operation_header host (cstr (fst (CORBA_Object__imethods ! k))) (snd (CORBA_Object__imethods ! k))"

lemma method_names:
  assumes "k \<in> {4, 12, 13}"
  shows "\<exists>name n op s. method_header host k = operation_header host name n \<and> n < length name \<and> op = take (n + 1) name
    \<and> length op < 2 ^ 32 \<and> op @ pad 4 (length op) = s \<and> 0 \<in> set s
    \<and> get_small_skel_CORBA_Object (c_text s @ [0]) = (if k = 4 then Some 4 else None)"
proof -
  have "\<exists>name n op. method_header host k = operation_header host name n \<and> n < length name \<and> op = take (n + 1) name
      \<and> length op < 2 ^ 32 \<and> 0 \<in> set (op @ pad 4 (length op))
      \<and> get_small_skel_CORBA_Object (c_text (op @ pad 4 (length op)) @ [0]) = (if k = 4 then Some 4 else None)"
    using assms
    by (intro exI[of _ "cstr (fst (CORBA_Object__imethods ! k))"] exI[of _ "snd (CORBA_Object__imethods ! k)"]
        exI[of _ "take (snd (CORBA_Object__imethods ! k) + 1) (cstr (fst (CORBA_Object__imethods ! k)))"])
      (elim insertE emptyE; simp add: method_header_def CORBA_Object__imethods_def cstr_def pad_def ALIGN_VALUE_def
        c_text_def get_small_skel_CORBA_Object_def)
  then show ?thesis by blast
qed

text \<open>C27. The calls that ask a remote object for its type and its interface never reach their methods: the lengths of
  the two names date from before the library was renamed, so that the names arrive cut off, and the receiver
  finds a skeleton for neither. The call of \<^verbatim>\<open>_is_a\<close>, whose length is right, finds its own.\<close>

theorem type_id_call_misnamed:
  assumes "length objkey < 2 ^ 32" "k \<in> {4, CORBA_OBJECT_SMALL_GET_TYPE_ID, CORBA_OBJECT_SMALL_GET_IINTERFACE}"
    and "b = giop_send_buffer_use_request host v i resp objkey (method_header host k) None" "wire = sb_append args b"
  shows "\<exists>msg name. giop_recv_buffer_demarshal m lp64 (received host' wire 12) = Inr (msg, received host' wire (spos b))
    \<and> giop_recv_buffer_get_opname (sb_wire wire) msg = Inr name
    \<and> get_small_skel_CORBA_Object name = (if k = 4 then Some 4 else None)"
proof -
  have "k \<in> {4, 12, 13}"
    using assms(2) by (simp add: CORBA_OBJECT_SMALL_GET_TYPE_ID_def CORBA_OBJECT_SMALL_GET_IINTERFACE_def)
  from method_names[OF this, of host] obtain name n op s where
    n: "method_header host k = operation_header host name n" "n < length name" "op = take (n + 1) name"
      "length op < 2 ^ 32" "op @ pad 4 (length op) = s" "0 \<in> set s"
    and skel: "get_small_skel_CORBA_Object (c_text s @ [0]) = (if k = 4 then Some 4 else None)" by blast
  show ?thesis
    using request_arrives[OF assms(1) n(2-6) assms(3)[unfolded n(1)] assms(4), of m lp64 host'] skel by blast
qed

theorem type_id_call_misnamed_witness:
  "\<exists>msg name. giop_recv_buffer_get_opname (sb_wire (sb_append [] (giop_send_buffer_use_request True GIOP_1_2 7 True
       [9, 8] (method_header True 12) None))) msg = Inr name \<and> get_small_skel_CORBA_Object name = None"
  using type_id_call_misnamed[of "[9, 8]" 12 _ True GIOP_1_2 7 True _ "[]" x86_64 True False, OF _ _ refl refl]
  by (auto simp: CORBA_OBJECT_SMALL_GET_TYPE_ID_def)

section \<open>Replies arrive\<close>

definition arrives :: "endian \<Rightarrow> abi \<Rightarrow> bool \<Rightarrow> sbuf \<Rightarrow> byte list \<Rightarrow> (byte list \<Rightarrow> giop_msg \<Rightarrow> bool) \<Rightarrow> bool" where
  "arrives host' m lp64 b rest P \<longleftrightarrow> (let wire = sb_append rest b in
     case giop_recv_buffer_demarshal m lp64 (received host' wire 12) of Inl e \<Rightarrow> False
     | Inr (msg, r) \<Rightarrow> r = received host' wire (spos b) \<and> P (sb_wire wire) msg)"

lemma arrivesI:
  "\<exists>msg. giop_recv_buffer_demarshal m lp64 (received host' (sb_append rest b) 12)
       = Inr (msg, (received host' (sb_append rest b) 12)\<lparr> r_cur := spos b \<rparr>) \<and> P (sb_wire (sb_append rest b)) msg \<Longrightarrow>
     arrives host' m lp64 b rest P"
  by (auto simp: arrives_def)

text \<open>C25. Replies, locate replies and locate requests arrive as well, with their numbers, status and object key, and
  leave the receiver where the results begin.\<close>

theorem replies_travel:
  assumes "length objkey < 2 ^ 32"
  shows "arrives host' m lp64 (giop_send_buffer_use_reply host v i st) rest
      (\<lambda>_ msg. giop_recv_buffer_get_request_id msg = i \<and> giop_recv_buffer_reply_status v msg = st)
    \<and> arrives host' m lp64 (giop_send_buffer_use_locate_reply host v i st) rest (\<lambda>_ msg. msg = LocateReply i st)
    \<and> arrives host' m lp64 (giop_send_buffer_use_locate_request host v i objkey) rest
      (\<lambda>mem msg. giop_recv_buffer_get_request_id msg = i
        \<and> (\<exists>off. giop_recv_buffer_get_objkey msg = Inr (off, length objkey) \<and> slice off (length objkey) mem = objkey))"
proof -
  have at: "at_bytes 12 (s_out b) (received host' (sb_append rest b) 12)" for b
    using at_bytes_received[of "start_message 0 host v" "sb_append rest b" "s_out b" rest host'] by simp
  have "arrives host' m lp64 (giop_send_buffer_use_reply host v i st) rest
      (\<lambda>_ msg. giop_recv_buffer_get_request_id msg = i \<and> giop_recv_buffer_reply_status v msg = st)"
    by (rule arrivesI, rule reply_at[OF refl _ _ _ at]) (simp_all add: use_reply_enc)
  moreover have "arrives host' m lp64 (giop_send_buffer_use_locate_reply host v i st) rest (\<lambda>_ msg. msg = LocateReply i st)"
    by (rule arrivesI, intro exI conjI, rule locate_reply_at[OF refl _ _ at])
      (simp_all add: giop_send_buffer_use_locate_reply_def append_ulong_def)
  moreover have "s_type (giop_send_buffer_use_locate_request host v i objkey) = GIOP_LOCATEREQUEST"
    "s_version (giop_send_buffer_use_locate_request host v i objkey) = v"
    "s_host (giop_send_buffer_use_locate_request host v i objkey) = host"
    by (simp_all add: giop_send_buffer_use_locate_request_def append_ulong_def append_key_def Let_def
        sb_append_aligned_def)
  then have "arrives host' m lp64 (giop_send_buffer_use_locate_request host v i objkey) rest
      (\<lambda>mem msg. giop_recv_buffer_get_request_id msg = i
        \<and> (\<exists>off. giop_recv_buffer_get_objkey msg = Inr (off, length objkey) \<and> slice off (length objkey) mem = objkey))"
    using locate_request_at[OF assms refl _ _ _ at, where host = host and v = v and i = i]
    by (intro arrivesI) (auto simp del: received_cur received_sel(5))
  ultimately show ?thesis by blast
qed

theorem replies_travel_witness:
  "arrives False x86_64 True (giop_send_buffer_use_reply True GIOP_1_0 3 1) [5]
     (\<lambda>_ msg. giop_recv_buffer_get_request_id msg = 3 \<and> giop_recv_buffer_reply_status GIOP_1_0 msg = 1)"
  using replies_travel[of "[7]" False x86_64 True True GIOP_1_0 3 1 "[5]"] by simp

section \<open>Arbitrary bytes\<close>

text \<open>What a message points to lies in front of \<open>e\<close>.\<close>

fun target_inside :: "nat \<Rightarrow> giop_target \<Rightarrow> bool" where
  "target_inside e (KeyAddr (k, n)) = (k + n \<le> e)"
| "target_inside e (OtherAddr d) = True"

fun inside :: "nat \<Rightarrow> giop_msg \<Rightarrow> bool" where
  "inside e (Request_1_1 _ _ _ (k, n) op (p, l)) = (k + n \<le> e \<and> op \<le> e \<and> p + l \<le> e)"
| "inside e (Request_1_2 _ _ target op _) = (target_inside e target \<and> op \<le> e)"
| "inside e (LocateRequest_1_1 _ (k, n)) = (k + n \<le> e)"
| "inside e (LocateRequest_1_2 _ target) = target_inside e target"
| "inside e _ = True"

definition yields :: "(nat \<Rightarrow> 'a \<Rightarrow> bool) \<Rightarrow> 'a reader \<Rightarrow> bool" where
  "yields P m \<longleftrightarrow> (\<forall>b v b'. m b = Inr (v, b') \<longrightarrow> r_end b' = r_end b \<and> P (r_end b) v)"

named_theorems yields_rules "what readers return"

lemma yields_ret: "(\<And>e. P e v) \<Longrightarrow> yields P (rd_ret v)"
  by (simp add: yields_def rd_ret_def)

lemma yields_bind:
  "yields P m \<Longrightarrow> (\<And>x. yields (\<lambda>e y. P e x \<longrightarrow> Q e y) (k x)) \<Longrightarrow> yields Q (rd_bind m k)"
  by (fastforce simp: yields_def rd_bind_def rbind_eq_Inr)

lemma yields_fail: "yields P (rd_fail e)"
  by (simp add: yields_def rd_fail_def)

lemma yields_if: "yields P m \<Longrightarrow> yields P m' \<Longrightarrow> yields P (if c then m else m')"
  by simp

lemma yields_any [yields_rules]:
  "yields (\<lambda>_ _. True) (rd_align n)" "yields (\<lambda>_ _. True) (rd_need n)" "yields (\<lambda>_ _. True) (rd_bytes n)"
  by (auto simp: yields_def rd_align_def rd_need_def rd_bytes_def split: if_splits)

lemma yields_load [yields_rules]: "yields (\<lambda>_ _. True) (rd_load n swap)"
  by (auto simp: yields_def rd_load_def rd_bind_def rd_ret_def rd_bytes_def rbind_eq_Inr split: if_splits)

lemma yields_words [yields_rules]:
  "yields (\<lambda>_ _. True) rd_u16" "yields (\<lambda>_ _. True) rd_u32" "yields (\<lambda>_ _. True) rd_byte"
  unfolding rd_u16_def rd_u32_def rd_byte_def
  by (rule yields_load yields_bind[OF yields_any(3)] | rule yields_ret, simp)+

lemma yields_ulong [yields_rules]: "yields (\<lambda>_ _. True) rd_ulong"
  unfolding rd_ulong_def
  by (rule yields_bind[OF yields_any(1)], rule yields_bind[OF yields_any(2)]) (simp add: yields_words)

lemma yields_span [yields_rules]: "yields (\<lambda>e s. fst s + snd s \<le> e) (rd_span n)"
  by (auto simp: yields_def rd_span_def rd_bind_def rd_need_def rd_pos_def rd_skip_def rd_ret_def rbind_eq_Inr
      split: if_splits)

lemma yields_counted [yields_rules]: "yields (\<lambda>e s. fst s + snd s \<le> e) rd_counted"
  unfolding rd_counted_def by (rule yields_bind[OF yields_ulong]) (simp add: yields_span)

lemma yields_operation [yields_rules]: "yields (\<lambda>e p. p \<le> e) rd_operation"
  unfolding rd_operation_def by (rule yields_bind[OF yields_counted], rule yields_ret) simp

lemma yields_loop: "yields (\<lambda>_ _. True) g \<Longrightarrow> yields (\<lambda>_ _. True) (rd_loop g n)"
proof (induction n)
  case (Suc n)
  then show ?case by (simp, intro yields_bind[OF Suc.prems] yields_bind[OF Suc.IH] yields_ret) simp_all
qed (simp add: yields_ret)

lemma yields_true: "yields P m \<Longrightarrow> (\<And>e v. P e v \<Longrightarrow> Q e v) \<Longrightarrow> yields Q m"
  by (fastforce simp: yields_def)

lemma yields_contexts [yields_rules]: "yields (\<lambda>_ _. True) (giop_IOP_ServiceContextList_demarshal m lp64)"
proof -
  have "yields (\<lambda>_ _. True) (MateCORBA_demarshal_value m lp64 n (octet_seq_tc m))" for n
    unfolding demarshal_octet_seq
    by (intro yields_bind[OF yields_ulong]) (auto intro!: yields_ret yields_bind yields_rules)
  then have "yields (\<lambda>_ _. True) (MateCORBA_demarshal_value m lp64 n (service_context_tc m))" for n
    unfolding demarshal_context by (intro yields_bind[OF yields_ulong] yields_bind) (auto intro!: yields_ret)
  then show ?thesis
    unfolding demarshal_contexts
    by (intro yields_bind[OF yields_ulong] yields_bind[OF yields_loop]) (auto intro!: yields_ret)
qed

lemma yields_target [yields_rules]: "yields target_inside giop_GIOP_TargetAddress_demarshal"
  unfolding giop_GIOP_TargetAddress_demarshal_def rd_checked_def rd_bind_assoc
  by (intro yields_bind[OF yields_any(1)] yields_bind[OF yields_any(2)] yields_bind[OF yields_words(1)]
      yields_if yields_fail yields_ret yields_bind[OF yields_counted]) auto

lemma yields_decoders:
  "yields inside (giop_recv_buffer_demarshal_request_1_1 m lp64)"
  "yields inside (giop_recv_buffer_demarshal_request_1_2 m lp64)"
  "yields inside (giop_recv_buffer_demarshal_reply_1_1 m lp64)"
  "yields inside (giop_recv_buffer_demarshal_reply_1_2 m lp64)"
  "yields inside giop_recv_buffer_demarshal_cancel"
  "yields inside giop_recv_buffer_demarshal_locate_request_1_1"
  "yields inside giop_recv_buffer_demarshal_locate_request_1_2"
  "yields inside giop_recv_buffer_demarshal_locate_reply_1_1"
  unfolding giop_recv_buffer_demarshal_request_1_1_def giop_recv_buffer_demarshal_request_1_2_def
    giop_recv_buffer_demarshal_reply_1_1_def giop_recv_buffer_demarshal_reply_1_2_def
    giop_recv_buffer_demarshal_cancel_def giop_recv_buffer_demarshal_locate_request_1_1_def
    giop_recv_buffer_demarshal_locate_request_1_2_def giop_recv_buffer_demarshal_locate_reply_1_1_def
  by (rule yields_bind, rule yields_rules | rule yields_ret, force)+

lemma safe_octet_seq: "safe {} 0 n (MateCORBA_demarshal_value m lp64 k (octet_seq_tc m))"
  unfolding demarshal_octet_seq
  by (rule safe_bind, rule safe_ulong, rule safe_if, rule safe_ret) (rule safe_steps | simp)+

lemma safe_contexts [safe_rules]: "safe {} 0 n (giop_IOP_ServiceContextList_demarshal m lp64)"
proof -
  have "safe {} 0 k (MateCORBA_demarshal_value m lp64 j (service_context_tc m))" for k j
    unfolding demarshal_context
    by (rule safe_bind, rule safe_ulong, rule safe_bind, rule safe_octet_seq, rule safe_ret)
  then show ?thesis
    unfolding demarshal_contexts
    by (intro safe_bind[OF safe_ulong] safe_bind[OF safe_loop] safe_ret)
qed

lemma safe_span: "safe E s n (rd_span k)"
  by (rule safeI) (auto simp: rd_span_def rd_bind_def rd_need_def rd_pos_def rd_skip_def rd_ret_def moved_def)

lemma safe_counted: "safe E s n rd_counted"
  unfolding rd_counted_def by (rule safe_bind, rule safe_ulong, rule safe_span)

lemma safe_operation: "safe E s n rd_operation"
  unfolding rd_operation_def by (rule safe_bind, rule safe_counted, rule safe_ret)

lemma safe_target: "safe E s n giop_GIOP_TargetAddress_demarshal"
  unfolding giop_GIOP_TargetAddress_demarshal_def rd_checked_def rd_bind_assoc
  by (rule safe_bind, rule safe_align, simp, rule safe_need, rule safe_u16_bind, simp)
    (intro safe_if safe_bind[OF safe_counted] safe_ret safe_fail; simp)

lemma safe_decoders:
  "safe {} 0 0 (giop_recv_buffer_demarshal_request_1_1 m lp64)"
  "safe {} 0 0 (giop_recv_buffer_demarshal_request_1_2 m lp64)"
  "safe {} 0 0 (giop_recv_buffer_demarshal_reply_1_1 m lp64)"
  "safe {} 0 0 (giop_recv_buffer_demarshal_reply_1_2 m lp64)"
  "safe {} 0 0 giop_recv_buffer_demarshal_cancel"
  "safe {} 0 0 giop_recv_buffer_demarshal_locate_request_1_1"
  "safe {} 0 0 giop_recv_buffer_demarshal_locate_request_1_2"
  "safe {} 0 0 giop_recv_buffer_demarshal_locate_reply_1_1"
  unfolding giop_recv_buffer_demarshal_request_1_1_def giop_recv_buffer_demarshal_request_1_2_def
    giop_recv_buffer_demarshal_reply_1_1_def giop_recv_buffer_demarshal_reply_1_2_def
    giop_recv_buffer_demarshal_cancel_def giop_recv_buffer_demarshal_locate_request_1_1_def
    giop_recv_buffer_demarshal_locate_request_1_2_def giop_recv_buffer_demarshal_locate_reply_1_1_def
  by (rule safe_steps safe_contexts safe_span safe_counted safe_operation safe_target | simp)+

text \<open>C26. Whatever bytes a message has, its header is read inside the message: the decoder finishes or reports a broken
  message, and every key, operation name and principal that the message then points to lies in front of the end.\<close>

theorem header_decoder_stays_inside:
  assumes "rwf 0 b"
  shows "case giop_recv_buffer_demarshal m lp64 b of Inl e \<Rightarrow> e = Broken
    | Inr (msg, b') \<Rightarrow> moved b b' \<and> inside (r_end b) msg"
proof -
  have *: "case d b of Inl e \<Rightarrow> e = Broken | Inr (msg, b') \<Rightarrow> moved b b' \<and> inside (r_end b) msg"
    if "safe {} 0 0 d" "yields inside d" for d :: "giop_msg reader"
    using that assms unfolding safe_def yields_def avail_def by (fastforce split: sum.splits)
  show ?thesis
    unfolding giop_recv_buffer_demarshal_def Let_def giop_recv_buffer_demarshal_locate_reply_1_2_def
    using *[OF safe_decoders(1) yields_decoders(1)] *[OF safe_decoders(2) yields_decoders(2)]
      *[OF safe_decoders(3) yields_decoders(3)] *[OF safe_decoders(4) yields_decoders(4)]
      *[OF safe_decoders(5) yields_decoders(5)] *[OF safe_decoders(6) yields_decoders(6)]
      *[OF safe_decoders(7) yields_decoders(7)] *[OF safe_decoders(8) yields_decoders(8)]
    by simp
qed

theorem header_decoder_stays_inside_witness:
  "case giop_recv_buffer_demarshal x86_64 True (received True (giop_send_buffer_use True GIOP_1_0) 12) of
     Inl e \<Rightarrow> e = Broken | Inr (msg, b') \<Rightarrow> inside 12 msg"
proof -
  have "rwf 0 (received True (giop_send_buffer_use True GIOP_1_0) 12)"
    "r_end (received True (giop_send_buffer_use True GIOP_1_0) 12) = 12"
    by (simp_all add: rwf_def received_def sb_wire_length giop_send_buffer_use_def)
  then show ?thesis
    using header_decoder_stays_inside[of "received True (giop_send_buffer_use True GIOP_1_0) 12" x86_64 True]
    by (auto split: sum.splits)
qed

end
