(* ===== verification/Giop_Input.thy ===== *)
theory Giop_Input imports Giop_Recv begin

text \<open>
  Messages as they come in over a connection: \<^verbatim>\<open>giop_connection_handle_input\<close> of
  \<^verbatim>\<open>giop-recv-buffer.c\<close> with the reading of header and body, the fragments of a message, the
  queue of callers that wait for a reply, and what \<^verbatim>\<open>giop-connection.c\<close> does when a connection goes
  down. The model is that of a process without an I/O thread, whose locks and signals then do nothing. What
  the code hands on to other parts, a request to the object adaptor and a reply to the callback of an asynchronous
  call, is an event of the result.
\<close>

section \<open>State\<close>

datatype msg_state = READING_HEADER | READING_BODY | AWAITING_FRAGMENTS | READY

text \<open>
  A receive buffer while a message is read. The header goes to a structure of its own; in the
  body's block the first twelve bytes stay free. Whether \<^verbatim>\<open>g_try_realloc\<close> has moved the block since the
  header of the message was decoded is noted in \<open>b_stale\<close>: the pointers of the message are not moved with it.
\<close>

record gbuf =
  b_header :: "byte list"
  b_rbuf :: rbuf
  b_msg :: giop_msg
  b_state :: msg_state
  b_left :: nat
  b_stale :: bool

datatype link_status = LINK_CONNECTING | LINK_CONNECTED | LINK_DISCONNECTED | LINK_TIMEOUT

record gcnx =
  c_status :: link_status
  c_auth :: bool
  c_incoming :: "gbuf option"
  c_frags :: "gbuf list list"

text \<open>\<^verbatim>\<open>GIOPMessageQueueEntry\<close>: a caller's entry, with the connection it waits on and whether it has a callback.\<close>

record qent =
  e_buffer :: "gbuf option"
  e_cnx :: "nat option"
  e_type :: u32
  e_id :: u32
  e_async :: bool

record gworld =
  w_cnx :: "nat \<Rightarrow> gcnx"
  w_queue :: "nat list"
  w_ent :: "nat \<Rightarrow> qent"
  w_limit :: int

datatype gevent = HandleRequest nat gbuf | HandleLocateRequest nat gbuf | InvokeAsync nat

text \<open>The machine the ORB runs on: native layout, pointer size, byte order, and when \<^verbatim>\<open>realloc\<close> moves a block.\<close>

record machine =
  n_abi :: abi
  n_lp64 :: bool
  n_host :: endian
  n_moves :: "nat \<Rightarrow> nat \<Rightarrow> bool"

section \<open>The queue of waiting callers\<close>

definition giop_recv_list_setup_queue_entry :: "nat \<Rightarrow> nat \<Rightarrow> u32 \<Rightarrow> u32 \<Rightarrow> gworld \<Rightarrow> gworld" where
  "giop_recv_list_setup_queue_entry ent cnx msg_type request_id w = w\<lparr>
     w_ent := (w_ent w)(ent := \<lparr> e_buffer = None, e_cnx = Some cnx, e_type = msg_type, e_id = request_id, e_async = False \<rparr>),
     w_queue := ent # w_queue w \<rparr>"

definition giop_recv_list_setup_queue_entry_async :: "nat \<Rightarrow> gworld \<Rightarrow> gworld" where
  "giop_recv_list_setup_queue_entry_async ent w = w\<lparr> w_ent := (w_ent w)(ent := (w_ent w ent)\<lparr> e_async := True \<rparr>) \<rparr>"

text \<open>\<open>remove1\<close> as \<^verbatim>\<open>g_list_remove\<close>; the entry lets go of its connection.\<close>

definition giop_recv_destroy_queue_entry_T :: "nat \<Rightarrow> gworld \<Rightarrow> gworld" where
  "giop_recv_destroy_queue_entry_T ent w = w\<lparr> w_ent := (w_ent w)(ent := (w_ent w ent)\<lparr> e_cnx := None \<rparr>) \<rparr>"

definition giop_recv_list_destroy_queue_entry :: "nat \<Rightarrow> gworld \<Rightarrow> gworld" where
  "giop_recv_list_destroy_queue_entry ent w =
     giop_recv_destroy_queue_entry_T ent (w\<lparr> w_queue := remove1 ent (w_queue w) \<rparr>)"

text \<open>
  \<^verbatim>\<open>giop_recv_list_zap\<close>: the entries that wait on the connection leave the queue without a
  buffer; the callbacks of asynchronous ones are called afterwards, the last one first.
\<close>

definition zap_ent :: "nat \<Rightarrow> gworld \<Rightarrow> gworld" where
  "zap_ent ent w = giop_recv_destroy_queue_entry_T ent
     (w\<lparr> w_ent := (w_ent w)(ent := (w_ent w ent)\<lparr> e_buffer := None \<rparr>) \<rparr>)"

fun zap_loop :: "nat \<Rightarrow> nat list \<Rightarrow> gworld \<Rightarrow> nat list \<Rightarrow> gworld \<times> nat list" where
  "zap_loop cnx [] w notify = (w, notify)"
| "zap_loop cnx (ent # l) w notify = (if e_cnx (w_ent w ent) = Some cnx
     then zap_loop cnx l ((zap_ent ent w)\<lparr> w_queue := remove1 ent (w_queue w) \<rparr>)
       (if e_async (w_ent w ent) then ent # notify else notify)
     else zap_loop cnx l w notify)"

definition giop_recv_list_zap :: "nat \<Rightarrow> gworld \<Rightarrow> gworld \<times> gevent list" where
  "giop_recv_list_zap cnx w = (case zap_loop cnx (w_queue w) w [] of (w', notify) \<Rightarrow> (w', map InvokeAsync notify))"

text \<open>A waiting caller runs the main loop until this holds, and then takes what has come.\<close>

definition check_got :: "gworld \<Rightarrow> nat \<Rightarrow> bool" where
  "check_got w ent \<longleftrightarrow> e_buffer (w_ent w ent) \<noteq> None \<or> (case e_cnx (w_ent w ent) of None \<Rightarrow> True
     | Some c \<Rightarrow> c_status (w_cnx w c) \<in> {LINK_DISCONNECTED, LINK_TIMEOUT})"

definition giop_recv_buffer_get :: "nat \<Rightarrow> gworld \<Rightarrow> (gbuf option \<times> gworld) option" where
  "giop_recv_buffer_get ent w = (if check_got w ent
     then Some (e_buffer (w_ent w ent), giop_recv_list_destroy_queue_entry ent w) else None)"

section \<open>Connections\<close>

definition update_cnx :: "nat \<Rightarrow> (gcnx \<Rightarrow> gcnx) \<Rightarrow> gworld \<Rightarrow> gworld" where
  "update_cnx c f w = w\<lparr> w_cnx := (w_cnx w)(c := f (w_cnx w c)) \<rparr>"

text \<open>
  A change of the connection's status, of which \<^verbatim>\<open>giop_connection_real_state_changed\<close> hears: when the
  connection has gone down, the message being read and everybody who waits for a reply are dropped.
\<close>

definition giop_connection_real_state_changed :: "nat \<Rightarrow> link_status \<Rightarrow> gworld \<Rightarrow> gworld \<times> gevent list" where
  "giop_connection_real_state_changed c status w = (if status = LINK_DISCONNECTED
     then giop_recv_list_zap c (update_cnx c (\<lambda>x. x\<lparr> c_incoming := None \<rparr>) w) else (w, []))"

definition link_connection_state_changed :: "nat \<Rightarrow> link_status \<Rightarrow> gworld \<Rightarrow> gworld \<times> gevent list" where
  "link_connection_state_changed c status w =
     giop_connection_real_state_changed c status (update_cnx c (\<lambda>x. x\<lparr> c_status := status \<rparr>) w)"

definition giop_recv_set_limit :: "int \<Rightarrow> gworld \<Rightarrow> gworld" where
  "giop_recv_set_limit limit w = (if limit > 256 then w\<lparr> w_limit := limit \<rparr> else w)"

definition giop_recv_get_limit :: "gworld \<Rightarrow> int" where
  "giop_recv_get_limit = w_limit"

section \<open>Fragments\<close>

definition giop_connection_get_frag :: "gbuf list list \<Rightarrow> u32 \<Rightarrow> bool \<Rightarrow> nat option" where
  "giop_connection_get_frag frags request_id return_first_if_none =
     (case find (\<lambda>i. giop_recv_buffer_get_request_id (b_msg (hd (frags ! i))) = request_id) [0..<length frags] of
        Some i \<Rightarrow> Some i
      | None \<Rightarrow> if return_first_if_none \<and> frags \<noteq> [] then Some 0 else None)"

definition giop_connection_add_frag :: "gbuf \<Rightarrow> gbuf list list \<Rightarrow> gbuf list list" where
  "giop_connection_add_frag buf frags = [buf] # frags"

definition giop_connection_remove_frag :: "nat \<Rightarrow> gbuf list list \<Rightarrow> gbuf list list" where
  "giop_connection_remove_frag i frags = take i frags @ drop (Suc i) frags"

definition giop_connection_destroy_frags :: "nat \<Rightarrow> gworld \<Rightarrow> gworld" where
  "giop_connection_destroy_frags c = update_cnx c (\<lambda>x. x\<lparr> c_frags := [] \<rparr>)"

definition MORE_FRAGMENTS_FOLLOW :: "gbuf \<Rightarrow> bool" where
  "MORE_FRAGMENTS_FOLLOW buf \<longleftrightarrow> r_flags (b_rbuf buf) AND GIOP_FLAG_FRAGMENTED \<noteq> 0"

text \<open>
  \<^verbatim>\<open>alloc_buffer\<close>: twelve bytes more than the body, of which what the old block had is kept; what is
  new in the block is written before it is read, and is zero here. Memory does not run out.
\<close>

definition alloc_buffer :: "nat \<Rightarrow> gbuf \<Rightarrow> gbuf" where
  "alloc_buffer body_size buf = (let b = b_rbuf buf; n = body_size + 12 in buf\<lparr>
     b_rbuf := b\<lparr> r_mem := take n (r_mem b) @ replicate (n - length (r_mem b)) 0, r_cur := 12, r_end := 12 + body_size \<rparr>,
     b_left := body_size \<rparr>)"

definition write_mem :: "nat \<Rightarrow> byte list \<Rightarrow> byte list \<Rightarrow> byte list res" where
  "write_mem p bs mem = (if bs = [] \<or> p + length bs \<le> length mem
     then Inr (take p mem @ bs @ drop (p + length bs) mem) else Inl Overrun)"

text \<open>
  What is left of a buffer behind the reading position. The alignment behind the header of GIOP 1.2 can take
  the position beyond the end; the length, an unsigned difference, is then beyond any block.
\<close>

definition unread :: "gbuf \<Rightarrow> byte list res" where
  "unread buf = (let b = b_rbuf buf in if r_cur b \<le> r_end b
     then Inr (slice (r_cur b) (r_end b - r_cur b) (r_mem b)) else Inl Overrun)"

fun append_frags :: "gbuf list \<Rightarrow> nat \<Rightarrow> byte list \<Rightarrow> (nat \<times> byte list) res" where
  "append_frags [] ptr mem = Inr (ptr, mem)"
| "append_frags (buf # l) ptr mem = rbind (unread buf) (\<lambda>bs.
     rbind (write_mem ptr bs mem) (\<lambda>mem. append_frags l (ptr + length bs) mem))"

definition concat_frags :: "machine \<Rightarrow> gbuf \<Rightarrow> gbuf list \<Rightarrow> gbuf res" where
  "concat_frags M head rest = (let b = b_rbuf head;
       initial_offset = r_cur b;
       len = unat (r_size b) + initial_offset - 12;
       head' = alloc_buffer len head
     in rbind (append_frags rest (r_end b) (r_mem (b_rbuf head'))) (\<lambda>(ptr, mem). Inr (head'\<lparr>
       b_rbuf := (b_rbuf head')\<lparr> r_mem := mem, r_cur := initial_offset, r_end := ptr \<rparr>,
       b_left := 0, b_stale := b_stale head \<or> n_moves M (length (r_mem b)) (len + 12) \<rparr>)))"

text \<open>The number of the message that a buffer with more fragments, or a fragment, belongs to.\<close>

definition fragment_id :: "gbuf \<Rightarrow> (u32 \<times> gbuf) res" where
  "fragment_id buf = (let t = r_type (b_rbuf buf) in
     if t \<in> {GIOP_REPLY, GIOP_LOCATEREPLY, GIOP_REQUEST, GIOP_LOCATEREQUEST}
     then Inr (giop_recv_buffer_get_request_id (b_msg buf), buf)
     else if t = GIOP_FRAGMENT then
       (if r_version (b_rbuf buf) \<noteq> GIOP_1_1
        then rbind (rd_ulong (b_rbuf buf)) (\<lambda>(i, b). Inr (i, buf\<lparr> b_rbuf := b \<rparr>))
        else Inr (0, buf))
     else Inl Broken)"

definition count_fragment :: "gbuf \<Rightarrow> gbuf \<Rightarrow> gbuf" where
  "count_fragment buf head = head\<lparr> b_rbuf := (b_rbuf head)\<lparr> r_size := r_size (b_rbuf head)
     + (of_nat (r_end (b_rbuf buf)) - of_nat (r_cur (b_rbuf buf))) \<rparr> \<rparr>"

text \<open>
  \<^verbatim>\<open>giop_recv_buffer_handle_fragmented\<close> returns the fragments of the connection, the buffer the caller goes
  on with and whether there was an error. A message whose last fragment is above the limit has been freed when
  \<^verbatim>\<open>concat_frags\<close> reads it.
\<close>

definition giop_recv_buffer_handle_fragmented ::
    "machine \<Rightarrow> bool \<Rightarrow> int \<Rightarrow> gbuf list list \<Rightarrow> gbuf \<Rightarrow> (gbuf list list \<times> gbuf \<times> bool) res" where
  "giop_recv_buffer_handle_fragmented M is_auth limit frags buf =
     (case fragment_id buf of Inl e \<Rightarrow> if e = Broken then Inr (frags, buf, True) else Inl e
      | Inr (message_id, buf) \<Rightarrow>
     (case giop_connection_get_frag frags message_id (r_version (b_rbuf buf) = GIOP_1_1) of
       None \<Rightarrow> if \<not> MORE_FRAGMENTS_FOLLOW buf then Inr (frags, buf, True)
         else Inr (giop_connection_add_frag buf frags, buf, False)
     | Some i \<Rightarrow> (let head = hd (frags ! i) in
         if r_type (b_rbuf head) = GIOP_FRAGMENT then Inl Abort else (let
           head = count_fragment buf head;
           rest = tl (frags ! i) @ [buf];
           big = (\<not> is_auth \<and> int (unat (r_size (b_rbuf buf))) > limit);
           frags' = (if big then giop_connection_remove_frag i frags else frags[i := head # rest])
         in if MORE_FRAGMENTS_FOLLOW buf then Inr (frags', head, big)
         else if r_type (b_rbuf buf) \<noteq> GIOP_FRAGMENT then Inl Abort
         else if big then Inl Overrun
         else rbind (concat_frags M head rest) (\<lambda>head. Inr (giop_connection_remove_frag i frags', head, False))))))"

section \<open>Reading\<close>

definition giop_recv_buffer_use_buf :: "endian \<Rightarrow> gbuf" where
  "giop_recv_buffer_use_buf host = \<lparr> b_header = [],
     b_rbuf = \<lparr> r_host = host, r_mem = [], r_flags = 0, r_version = GIOP_1_0, r_type = 0, r_size = 0, r_body = 0, r_cur = 0, r_end = 0 \<rparr>,
     b_msg = NoMsg, b_state = READING_HEADER, b_left = 12, b_stale = False \<rparr>"

definition giop_version_of :: "byte list \<Rightarrow> GIOPVersion option" where
  "giop_version_of ids = (if ids = [1, 0] then Some GIOP_1_0 else if ids = [1, 1] then Some GIOP_1_1
     else if ids = [1, 2] then Some GIOP_1_2 else None)"

definition giop_msg_size :: "endian \<Rightarrow> GIOPMsgHeader \<Rightarrow> u32" where
  "giop_msg_size host h = (if giop_endian_conversion_needed host (flags h) then GUINT32_SWAP_LE_BE (message_size h)
     else message_size h)"

definition giop_recv_msg_reading_body :: "bool \<Rightarrow> int \<Rightarrow> gbuf \<Rightarrow> gbuf res" where
  "giop_recv_msg_reading_body is_auth limit buf = (let host = r_host (b_rbuf buf); h = header_of_image host (b_header buf) in
     if magic h \<noteq> giop_magic then Inl Broken
     else if message_type h \<ge> GIOP_NUM_MSG_TYPES then Inl Broken
     else case giop_version_of (version h) of
       None \<Rightarrow> Inl Broken
     | Some v \<Rightarrow> (let size = giop_msg_size host h
         in if \<not> is_auth \<and> int (unat size) > limit then Inl Broken
         else Inr (alloc_buffer (unat size) (buf\<lparr> b_rbuf := (b_rbuf buf)\<lparr> r_flags := flags h, r_version := v,
           r_type := message_type h, r_size := size \<rparr> \<rparr>))))"

text \<open>
  The next bytes arrive: \<^verbatim>\<open>link_connection_read\<close> puts them at the reading position.
\<close>

definition read_into :: "byte list \<Rightarrow> gbuf \<Rightarrow> gbuf" where
  "read_into bs buf = (let b = b_rbuf buf in case b_state buf of
     READING_HEADER \<Rightarrow> buf\<lparr> b_header := b_header buf @ bs, b_left := b_left buf - length bs \<rparr>
   | _ \<Rightarrow> buf\<lparr> b_rbuf := b\<lparr> r_mem := take (r_cur b) (r_mem b) @ bs @ drop (r_cur b + length bs) (r_mem b),
       r_cur := r_cur b + length bs \<rparr>, b_left := b_left buf - length bs \<rparr>)"

text \<open>
  How the reading of a part ends: more is to be read, a message is there, a fragment has been put
  aside, or the message is broken.
\<close>

datatype progress = More gbuf | Message gbuf | Parked | Failed

definition giop_msg_complete :: "machine \<Rightarrow> bool \<Rightarrow> int \<Rightarrow> gbuf list list \<Rightarrow> gbuf \<Rightarrow> (gbuf list list \<times> progress) res" where
  "giop_msg_complete M is_auth limit frags buf = (case b_state buf of
     READING_HEADER \<Rightarrow> (case giop_recv_msg_reading_body is_auth limit buf of
         Inl e \<Rightarrow> Inr (frags, Failed)
       | Inr buf \<Rightarrow> (let buf = buf\<lparr> b_state := READING_BODY \<rparr> in Inr (frags, if b_left buf > 0 then More buf else Message buf)))
   | READING_BODY \<Rightarrow> (let buf = buf\<lparr> b_rbuf := (b_rbuf buf)\<lparr> r_cur := 12 \<rparr>, b_state := READY \<rparr> in
       if 12 + unat (r_size (b_rbuf buf)) > r_end (b_rbuf buf) then Inr (frags, Failed)
       else (case giop_recv_buffer_demarshal (n_abi M) (n_lp64 M) (b_rbuf buf) of
         Inl e \<Rightarrow> if e = Broken then Inr (frags, Failed) else Inl e
       | Inr (msg, b) \<Rightarrow> (let buf = buf\<lparr> b_rbuf := b, b_msg := msg \<rparr> in
           if MORE_FRAGMENTS_FOLLOW buf \<or> r_type b = GIOP_FRAGMENT
           then rbind (giop_recv_buffer_handle_fragmented M is_auth limit frags buf) (\<lambda>(frags, head, error).
             Inr (frags, if error then Failed else if MORE_FRAGMENTS_FOLLOW buf then Parked else Message head))
           else Inr (frags, Message buf))))
   | _ \<Rightarrow> Inl Abort)"

text \<open>
  The loop of \<^verbatim>\<open>giop_connection_handle_input\<close>. What is there to read comes in segments, a
  \<^verbatim>\<open>read\<close> returns at most one of them, an empty one is a \<^verbatim>\<open>read\<close> that finds nothing. A body of two
  gigabytes or more is asked for with a negative length, which the system refuses. The result has what is left
  to read.
\<close>

definition read_more :: "machine \<Rightarrow> bool \<Rightarrow> int \<Rightarrow> gbuf list list \<Rightarrow> gbuf \<Rightarrow> byte list \<Rightarrow> (gbuf list list \<times> progress) res" where
  "read_more M is_auth limit frags buf bs = (let buf = read_into bs buf in
     if b_left buf = 0 then giop_msg_complete M is_auth limit frags buf else Inr (frags, More buf))"

function read_loop :: "machine \<Rightarrow> bool \<Rightarrow> int \<Rightarrow> gbuf list list \<Rightarrow> gbuf \<Rightarrow> byte list list
    \<Rightarrow> ((gbuf list list \<times> progress) \<times> byte list list) res" where
  "read_loop M is_auth limit frags buf [] = Inr ((frags, More buf), [])"
| "read_loop M is_auth limit frags buf (seg # segs) = (let n = min (b_left buf) (length seg) in
     if b_left buf \<ge> 2 ^ 31 then Inr ((frags, Failed), [])
     else if n = 0 then Inr ((frags, More buf), segs)
     else let rest = (if n = length seg then segs else drop n seg # segs) in
       rbind (read_more M is_auth limit frags buf (take n seg)) (\<lambda>(frags, p). case p of
         More buf \<Rightarrow> read_loop M is_auth limit frags buf rest
       | _ \<Rightarrow> Inr ((frags, p), rest)))"
  by pat_completeness auto
termination
  by (relation "measure (\<lambda>(M, a, l, f, b, segs). sum_list (map (\<lambda>s. Suc (length s)) segs))") (auto split: if_splits)

section \<open>Handling a message\<close>

definition CORBA_SYSTEM_EXCEPTION :: u32 where "CORBA_SYSTEM_EXCEPTION = 2"

text \<open>
  \<^verbatim>\<open>handle_reply\<close>: the first entry of the queue with the number and the type of the reply gets it if it
  waits on the connection that the reply has come from. The result says whether to pull the connection.
\<close>

definition handle_reply :: "nat \<Rightarrow> gbuf \<Rightarrow> gworld \<Rightarrow> gworld \<times> gevent list \<times> bool" where
  "handle_reply c buf w = (let request_id = giop_recv_buffer_get_request_id (b_msg buf) in
     case find (\<lambda>ent. e_id (w_ent w ent) = request_id \<and> e_type (w_ent w ent) = ucast (r_type (b_rbuf buf))) (w_queue w) of
       None \<Rightarrow> (w, [], giop_recv_buffer_reply_status (r_version (b_rbuf buf)) (b_msg buf) \<noteq> CORBA_SYSTEM_EXCEPTION)
     | Some ent \<Rightarrow> if e_cnx (w_ent w ent) \<noteq> Some c then (w, [], True)
         else (w\<lparr> w_queue := remove1 ent (w_queue w), w_ent := (w_ent w)(ent := (w_ent w ent)\<lparr> e_buffer := Some buf \<rparr>) \<rparr>,
           if e_async (w_ent w ent) then [InvokeAsync ent] else [], False))"

definition disconnect :: "nat \<Rightarrow> gworld \<Rightarrow> gworld \<times> gevent list" where
  "disconnect c = link_connection_state_changed c LINK_DISCONNECTED"

definition giop_dispatch :: "nat \<Rightarrow> gbuf \<Rightarrow> gworld \<Rightarrow> gworld \<times> gevent list" where
  "giop_dispatch c buf w = (let t = r_type (b_rbuf buf) in
     if t = GIOP_REPLY \<or> t = GIOP_LOCATEREPLY then (case handle_reply c buf w of
       (w, evs, error) \<Rightarrow> if error then (case disconnect c w of (w, evs') \<Rightarrow> (w, evs @ evs')) else (w, evs))
     else if t = GIOP_REQUEST then (w, [HandleRequest c buf])
     else if t = GIOP_LOCATEREQUEST then (w, [HandleLocateRequest c buf])
     else if t = GIOP_CANCELREQUEST \<or> t = GIOP_MESSAGEERROR then (w, [])
     else disconnect c w)"

text \<open>
  What follows the loop: the buffer that is being read stays with the connection, and is taken away from it
  when it is complete, put aside or broken.
\<close>

definition after_reading :: "nat \<Rightarrow> gworld \<Rightarrow> gbuf list list \<times> progress \<Rightarrow> gworld \<times> gevent list" where
  "after_reading c w r = (case r of (frags, p) \<Rightarrow> (let w = update_cnx c (\<lambda>x. x\<lparr> c_frags := frags,
       c_incoming := (case p of More buf \<Rightarrow> Some buf | _ \<Rightarrow> None) \<rparr>) w in
     case p of More buf \<Rightarrow> (w, []) | Parked \<Rightarrow> (w, []) | Message buf \<Rightarrow> giop_dispatch c buf w | Failed \<Rightarrow> disconnect c w))"

definition incoming_buf :: "machine \<Rightarrow> gcnx \<Rightarrow> gbuf" where
  "incoming_buf M x = (case c_incoming x of None \<Rightarrow> giop_recv_buffer_use_buf (n_host M) | Some buf \<Rightarrow> buf)"

definition giop_connection_handle_input ::
    "machine \<Rightarrow> nat \<Rightarrow> gworld \<Rightarrow> byte list list \<Rightarrow> ((gworld \<times> gevent list) \<times> byte list list) res" where
  "giop_connection_handle_input M c w segs = (let x = w_cnx w c in
     rbind (read_loop M (c_auth x) (w_limit w) (c_frags x) (incoming_buf M x) segs) (\<lambda>(r, rest).
       Inr (after_reading c w r, rest)))"

text \<open>The main loop calls it as long as the connection is up and there is something to read.\<close>

lemma read_loop_step:
  assumes "b_left b < 2 ^ 31" "n = min (b_left b) (length seg)" "n \<noteq> 0"
    "rest = (if n = length seg then segs else drop n seg # segs)"
  shows "read_loop M a l f b (seg # segs) = rbind (read_more M a l f b (take n seg)) (\<lambda>(f', p). case p of
    More b' \<Rightarrow> read_loop M a l f' b' rest | _ \<Rightarrow> Inr ((f', p), rest))"
  using assms(1,3) unfolding read_loop.simps Let_def assms(2)[symmetric] assms(4) by simp

lemma read_loop_stops:
  "b_left b \<ge> 2 ^ 31 \<Longrightarrow> read_loop M a l f b (seg # segs) = Inr ((f, Failed), [])"
  "b_left b < 2 ^ 31 \<Longrightarrow> min (b_left b) (length seg) = 0 \<Longrightarrow> read_loop M a l f b (seg # segs) = Inr ((f, More b), segs)"
  by (auto simp: Let_def)

declare read_loop.simps(2) [simp del]

definition unread_bytes :: "byte list list \<Rightarrow> nat" where
  "unread_bytes segs = sum_list (map (\<lambda>s. Suc (length s)) segs)"

lemma unread_bytes_simps [simp]: "unread_bytes [] = 0" "unread_bytes (s # segs) = Suc (length s) + unread_bytes segs"
  by (simp_all add: unread_bytes_def)

lemma unread_bytes_rest:
  "n \<noteq> 0 \<Longrightarrow> n \<le> length seg \<Longrightarrow> unread_bytes (if n = length seg then segs else drop n seg # segs) < unread_bytes (seg # segs)"
  by auto

lemma read_loop_consumes:
  "read_loop M a l f b segs = Inr (r, rest) \<Longrightarrow> segs \<noteq> [] \<Longrightarrow> unread_bytes rest < unread_bytes segs"
proof (induction "unread_bytes segs" arbitrary: f b segs r rest rule: less_induct)
  case less
  obtain seg segs' where segs: "segs = seg # segs'" using less(3) by (cases segs) auto
  let ?n = "min (b_left b) (length seg)"
  let ?rest = "if ?n = length seg then segs' else drop ?n seg # segs'"
  consider "b_left b \<ge> 2 ^ 31" | "b_left b < 2 ^ 31" "?n = 0" | "b_left b < 2 ^ 31" "?n \<noteq> 0" by fastforce
  then show ?case
  proof cases
    case 1
    then show ?thesis using less(2) by (simp add: segs read_loop_stops(1))
  next
    case 2
    then show ?thesis using less(2) unfolding segs read_loop_stops(2)[OF 2] by simp
  next
    case 3
    have smaller: "unread_bytes ?rest < unread_bytes segs" unfolding segs using 3(2) by (intro unread_bytes_rest) simp_all
    from less(2)[unfolded segs read_loop_step[OF 3(1) refl 3(2) refl]]
    obtain f' p where p: "(case p of More b' \<Rightarrow> read_loop M a l f' b' ?rest | _ \<Rightarrow> Inr ((f', p), ?rest)) = Inr (r, rest)"
      unfolding rbind_eq_Inr by (auto simp only: split_paired_Ex case_prod_conv)
    show ?thesis
    proof (cases "\<exists>b'. p = More b' \<and> ?rest \<noteq> []")
      case True
      then obtain b' where b': "read_loop M a l f' b' ?rest = Inr (r, rest)" "?rest \<noteq> []" using p by auto
      show ?thesis using less(1)[OF smaller b'] smaller by simp
    next
      case False
      then have "rest = ?rest" using p by (cases p) auto
      then show ?thesis using smaller by simp
    qed
  qed
qed

function giop_main_loop :: "machine \<Rightarrow> nat \<Rightarrow> gworld \<Rightarrow> byte list list \<Rightarrow> (gworld \<times> gevent list) res" where
  "giop_main_loop M c w segs = (if segs = [] \<or> c_status (w_cnx w c) \<noteq> LINK_CONNECTED then Inr (w, [])
     else case giop_connection_handle_input M c w segs of Inl e \<Rightarrow> Inl e
     | Inr ((w', evs), rest) \<Rightarrow> rbind (giop_main_loop M c w' rest) (\<lambda>(w'', evs'). Inr (w'', evs @ evs')))"
  by pat_completeness auto
termination
  by (relation "measure (\<lambda>(M, c, w, segs). unread_bytes segs)")
    (auto simp: giop_connection_handle_input_def Let_def rbind_eq_Inr dest!: read_loop_consumes)

section \<open>Byte by byte\<close>

text \<open>The reference: a connection that takes one byte at a time.\<close>

definition receive_byte :: "machine \<Rightarrow> nat \<Rightarrow> gworld \<Rightarrow> byte \<Rightarrow> (gworld \<times> gevent list) res" where
  "receive_byte M c w x = (let g = w_cnx w c; buf = incoming_buf M g in
     if c_status g \<noteq> LINK_CONNECTED then Inr (w, [])
     else if b_left buf \<ge> 2 ^ 31 then Inr (after_reading c w (c_frags g, Failed))
     else rbind (read_more M (c_auth g) (w_limit w) (c_frags g) buf [x]) (\<lambda>r. Inr (after_reading c w r)))"

fun receive_bytes :: "machine \<Rightarrow> nat \<Rightarrow> gworld \<Rightarrow> byte list \<Rightarrow> (gworld \<times> gevent list) res" where
  "receive_bytes M c w [] = Inr (w, [])"
| "receive_bytes M c w (x # xs) = rbind (receive_byte M c w x) (\<lambda>(w', evs).
     rbind (receive_bytes M c w' xs) (\<lambda>(w'', evs'). Inr (w'', evs @ evs')))"

text \<open>A buffer that waits for more bytes.\<close>

definition reading :: "gbuf \<Rightarrow> bool" where
  "reading buf \<longleftrightarrow> b_left buf > 0 \<and> (case b_state buf of
     READING_HEADER \<Rightarrow> length (b_header buf) + b_left buf = 12
   | READING_BODY \<Rightarrow> r_cur (b_rbuf buf) + b_left buf = r_end (b_rbuf buf) \<and> r_end (b_rbuf buf) = length (r_mem (b_rbuf buf))
   | _ \<Rightarrow> False)"

lemma reading_fresh [simp]: "reading (giop_recv_buffer_use_buf host)"
  by (simp add: reading_def giop_recv_buffer_use_buf_def)

lemma overwrite_append:
  assumes "p \<le> length mem"
  shows "take (p + length xs) (take p mem @ xs @ drop (p + length xs) mem) = take p mem @ xs"
    "drop (p + (length xs + length ys)) (take p mem @ xs @ drop (p + length xs) mem) = drop (p + (length xs + length ys)) mem"
  using assms by (simp_all add: add.commute add.left_commute)

lemma read_into_append:
  assumes "reading buf" "length xs + length ys \<le> b_left buf"
  shows "read_into (xs @ ys) buf = read_into ys (read_into xs buf)"
proof (cases "b_state buf")
  case READING_BODY
  then have "r_cur (b_rbuf buf) \<le> length (r_mem (b_rbuf buf))" using assms(1) by (auto simp: reading_def)
  then show ?thesis using READING_BODY by (simp add: read_into_def Let_def overwrite_append ac_simps)
qed (use assms(1) in \<open>auto simp: reading_def read_into_def Let_def\<close>)

lemma read_into_left [simp]: "b_left (read_into xs buf) = b_left buf - length xs"
  "b_state (read_into xs buf) = b_state buf"
  by (auto simp: read_into_def Let_def split: msg_state.split)

lemma reading_read_into: "reading buf \<Longrightarrow> length xs < b_left buf \<Longrightarrow> reading (read_into xs buf)"
  by (cases "b_state buf") (auto simp: reading_def read_into_def Let_def)

lemma read_more_short:
  "length xs < b_left buf \<Longrightarrow> read_more M a l f buf xs = Inr (f, More (read_into xs buf))"
  by (simp add: read_more_def)

lemma read_more_append:
  assumes "reading buf" "length xs + length ys \<le> b_left buf"
  shows "read_more M a l f buf (xs @ ys) = read_more M a l f (read_into xs buf) ys"
  unfolding read_more_def Let_def read_into_append[OF assms] ..

lemma alloc_left [simp]: "b_left (alloc_buffer n buf) = n"
  by (simp add: alloc_buffer_def Let_def)

lemma reading_alloc: "0 < n \<Longrightarrow> reading ((alloc_buffer n buf)\<lparr> b_state := READING_BODY \<rparr>)"
  by (simp add: reading_def alloc_buffer_def Let_def)

lemma reading_body_alloc:
  "giop_recv_msg_reading_body a l buf = Inr buf' \<Longrightarrow> \<exists>n g. buf' = alloc_buffer n g"
  by (auto simp: giop_recv_msg_reading_body_def Let_def split: if_splits option.splits)

lemma complete_more:
  assumes "giop_msg_complete M a l f buf = Inr (f', More buf')"
  shows "reading buf'"
proof (cases "b_state buf")
  case READING_HEADER
  then obtain n g where "buf' = (alloc_buffer n g)\<lparr> b_state := READING_BODY \<rparr>" "0 < b_left buf'"
    using assms by (auto simp: giop_msg_complete_def Let_def split: sum.splits if_splits dest!: reading_body_alloc)
  then show ?thesis using reading_alloc by simp
qed (use assms in \<open>auto simp: giop_msg_complete_def Let_def rbind_eq_Inr split: sum.splits if_splits prod.splits\<close>)

lemma read_more_reading:
  assumes "read_more M a l f buf xs = Inr (f', More buf')" "reading buf" "length xs \<le> b_left buf"
  shows "reading buf'"
proof (cases "length xs = b_left buf")
  case False
  then show ?thesis using assms(1,3) reading_read_into[OF assms(2), of xs] by (auto simp: read_more_short)
next
  case True
  then have "giop_msg_complete M a l f (read_into xs buf) = Inr (f', More buf')"
    using assms by (simp add: read_more_def)
  then show ?thesis by (rule complete_more)
qed

fun eat :: "machine \<Rightarrow> bool \<Rightarrow> int \<Rightarrow> gbuf list list \<Rightarrow> gbuf \<Rightarrow> byte list \<Rightarrow> ((gbuf list list \<times> progress) \<times> byte list) res" where
  "eat M a l f buf [] = Inr ((f, More buf), [])"
| "eat M a l f buf (x # xs) = (if b_left buf \<ge> 2 ^ 31 then Inr ((f, Failed), [])
     else rbind (read_more M a l f buf [x]) (\<lambda>(f', p). case p of
       More buf' \<Rightarrow> eat M a l f' buf' xs | _ \<Rightarrow> Inr ((f', p), xs)))"

lemma eat_append:
  assumes "reading buf" "b_left buf < 2 ^ 31" "xs \<noteq> []" "length xs \<le> b_left buf"
  shows "eat M a l f buf (xs @ ys) = rbind (read_more M a l f buf xs) (\<lambda>(f', p). case p of
    More buf' \<Rightarrow> eat M a l f' buf' ys | _ \<Rightarrow> Inr ((f', p), ys))"
  using assms
proof (induction xs arbitrary: buf)
  case (Cons x xs)
  show ?case
  proof (cases "xs = []")
    case True
    then show ?thesis using Cons.prems by simp
  next
    case False
    then have l: "1 + length xs \<le> b_left buf" "1 < b_left buf" using Cons.prems False by (cases xs; auto)+
    have one: "read_more M a l f buf [x] = Inr (f, More (read_into [x] buf))"
      using l by (intro read_more_short) auto
    have r: "reading (read_into [x] buf)" using Cons.prems(1) l by (intro reading_read_into) auto
    have "eat M a l f (read_into [x] buf) (xs @ ys) = rbind (read_more M a l f (read_into [x] buf) xs)
        (\<lambda>(f', p). case p of More buf' \<Rightarrow> eat M a l f' buf' ys | _ \<Rightarrow> Inr ((f', p), ys))"
      using l Cons.prems(2) False by (intro Cons.IH[OF r]) auto
    moreover have "read_more M a l f buf ([x] @ xs) = read_more M a l f (read_into [x] buf) xs"
      using l by (intro read_more_append[OF Cons.prems(1)]) simp
    ultimately show ?thesis using one Cons.prems(2) by simp
  qed
qed simp

lemma concat_rest: "n \<le> length seg \<Longrightarrow> concat (if n = length seg then segs else drop n seg # segs) = drop n seg @ concat segs"
  by simp

lemma read_loop_eat:
  "reading buf \<Longrightarrow> [] \<notin> set segs \<Longrightarrow> (case eat M a l f buf (concat segs) of
     Inl e \<Rightarrow> read_loop M a l f buf segs = Inl e
   | Inr (r, xs) \<Rightarrow> \<exists>rest. read_loop M a l f buf segs = Inr (r, rest) \<and> concat rest = xs \<and> [] \<notin> set rest)"
proof (induction "unread_bytes segs" arbitrary: f buf segs rule: less_induct)
  case less
  show ?case
  proof (cases segs)
    case (Cons seg segs')
    let ?n = "min (b_left buf) (length seg)"
    define rest where "rest = (if ?n = length seg then segs' else drop ?n seg # segs')"
    have seg: "seg \<noteq> []" "[] \<notin> set segs'" using less(3) Cons by auto
    then obtain x ys where x: "seg = x # ys" by (cases seg) auto
    have pos: "0 < b_left buf" using less(2) by (simp add: reading_def)
    show ?thesis
    proof (cases "b_left buf < 2 ^ 31")
      case False
      then show ?thesis by (simp add: Cons x read_loop_stops(1))
    next
      case True
      have n: "?n \<noteq> 0" "take ?n seg \<noteq> []" "length (take ?n seg) \<le> b_left buf" using pos seg by auto
      have smaller: "unread_bytes rest < unread_bytes segs" unfolding Cons rest_def using n(1) by (intro unread_bytes_rest) simp_all
      have cat: "concat segs = take ?n seg @ concat rest" unfolding Cons rest_def by (subst concat_rest) simp_all
      have ne: "[] \<notin> set rest" using seg n(1) by (auto simp: rest_def)
      note loop = read_loop_step[OF True refl n(1) rest_def, of M a l f, folded Cons]
      note eaten = eat_append[OF less(2) True n(2,3), of M a l f "concat rest", folded cat]
      show ?thesis
      proof (cases "read_more M a l f buf (take ?n seg)")
        case (Inl e)
        then show ?thesis unfolding loop eaten by simp
      next
        case (Inr fp)
        obtain f' p where fp: "fp = (f', p)" by force
        show ?thesis
        proof (cases p)
          case (More buf')
          have "reading buf'" using read_more_reading[OF _ less(2) n(3)] Inr fp More by blast
          from less(1)[OF smaller this ne, of f'] show ?thesis unfolding loop eaten Inr fp More rbind_simps case_prod_conv progress.case .
        qed (use ne in \<open>simp_all add: loop eaten Inr fp\<close>)
      qed
    qed
  qed simp
qed

lemma update_cnx_simps [simp]:
  "w_cnx (update_cnx c f w) c' = (if c' = c then f (w_cnx w c) else w_cnx w c')"
  "w_queue (update_cnx c f w) = w_queue w" "w_ent (update_cnx c f w) = w_ent w" "w_limit (update_cnx c f w) = w_limit w"
  by (simp_all add: update_cnx_def)

lemma update_cnx_twice [simp]: "update_cnx c f (update_cnx c g w) = update_cnx c (\<lambda>x. f (g x)) w"
  by (simp add: update_cnx_def)

lemma zap_loop_cnx: "zap_loop c l w n = (w', n') \<Longrightarrow> w_cnx w' = w_cnx w \<and> w_limit w' = w_limit w"
proof (induction c l w n arbitrary: w' n' rule: zap_loop.induct)
  case (2 cnx ent l w notify)
  then show ?case
    by (cases "e_cnx (w_ent w ent) = Some cnx") (auto simp: zap_ent_def giop_recv_destroy_queue_entry_T_def)
qed simp

lemma zap_cnx: "giop_recv_list_zap c w = (w', evs) \<Longrightarrow> w_cnx w' = w_cnx w \<and> w_limit w' = w_limit w"
  unfolding giop_recv_list_zap_def by (auto split: prod.splits dest: zap_loop_cnx)

lemma disconnect_down: "disconnect c w = (w', evs) \<Longrightarrow> c_status (w_cnx w' c) = LINK_DISCONNECTED"
  by (auto simp: disconnect_def link_connection_state_changed_def giop_connection_real_state_changed_def dest!: zap_cnx)

lemma receive_bytes_down: "c_status (w_cnx w c) \<noteq> LINK_CONNECTED \<Longrightarrow> receive_bytes M c w bs = Inr (w, [])"
  by (induction bs) (auto simp: receive_byte_def Let_def)

lemma after_reading_More:
  "after_reading c w (f, More buf) = (update_cnx c (\<lambda>x. x\<lparr> c_frags := f, c_incoming := Some buf \<rparr>) w, [])"
  by (simp add: after_reading_def)

lemma after_reading_again:
  "after_reading c (update_cnx c (\<lambda>x. x\<lparr> c_frags := f, c_incoming := i \<rparr>) w) r = after_reading c w r"
  by (cases r) (simp add: after_reading_def)

lemma receive_bytes_eat:
  assumes "c_status (w_cnx w c) = LINK_CONNECTED" "bs \<noteq> []"
  shows "receive_bytes M c w bs = rbind (eat M (c_auth (w_cnx w c)) (w_limit w) (c_frags (w_cnx w c)) (incoming_buf M (w_cnx w c)) bs)
    (\<lambda>(r, rest). case after_reading c w r of (w', evs) \<Rightarrow>
       rbind (receive_bytes M c w' rest) (\<lambda>(w'', evs'). Inr (w'', evs @ evs')))"
  using assms
proof (induction bs arbitrary: w)
  case (Cons x xs)
  let ?g = "w_cnx w c"
  let ?buf = "incoming_buf M ?g"
  let ?more = "read_more M (c_auth ?g) (w_limit w) (c_frags ?g) ?buf [x]"
  show ?case
  proof (cases "b_left ?buf \<ge> 2 ^ 31")
    case True
    obtain w' evs where w': "after_reading c w (c_frags ?g, Failed) = (w', evs)" by force
    then have "c_status (w_cnx w' c) \<noteq> LINK_CONNECTED"
      by (auto simp: after_reading_def dest: disconnect_down)
    then show ?thesis using True Cons.prems w' by (simp add: receive_byte_def Let_def receive_bytes_down)
  next
    case False
    have byte: "receive_byte M c w x = rbind ?more (\<lambda>r. Inr (after_reading c w r))"
      using False Cons.prems by (simp add: receive_byte_def Let_def)
    show ?thesis
    proof (cases ?more)
      case (Inl e)
      then show ?thesis using False byte by simp
    next
      case (Inr r)
      obtain f p where r: "r = (f, p)" by force
      show ?thesis
      proof (cases "\<exists>buf. p = More buf")
        case True
        then obtain buf where p: "p = More buf" by blast
        let ?w = "update_cnx c (\<lambda>x. x\<lparr> c_frags := f, c_incoming := Some buf \<rparr>) w"
        show ?thesis
        proof (cases "xs = []")
          case True
          then show ?thesis using False byte Inr r p by (simp add: after_reading_More)
        next
          case ne: False
          have "c_status (w_cnx ?w c) = LINK_CONNECTED" using Cons.prems(1) by simp
          from Cons.IH[OF this ne] show ?thesis
            using False byte Inr r p by (simp add: after_reading_More after_reading_again incoming_buf_def case_prod_beta)
        qed
      next
        case no: False
        then have "eat M (c_auth ?g) (w_limit w) (c_frags ?g) ?buf (x # xs) = Inr (r, xs)"
          using False Inr r by (cases p) simp_all
        then show ?thesis using byte Inr by (cases "after_reading c w r") simp
      qed
    qed
  qed
qed simp

text \<open>What a connection keeps between two calls is a buffer that waits for more.\<close>

definition cnx_ok :: "gcnx \<Rightarrow> bool" where
  "cnx_ok x \<longleftrightarrow> (case c_incoming x of None \<Rightarrow> True | Some buf \<Rightarrow> reading buf)"

lemma incoming_reading: "cnx_ok x \<Longrightarrow> reading (incoming_buf M x)"
  by (auto simp: cnx_ok_def incoming_buf_def split: option.splits)

lemma dispatch_cnx:
  assumes "giop_dispatch c buf w = (w', evs)"
  shows "w_cnx w' c = w_cnx w c \<or> c_status (w_cnx w' c) = LINK_DISCONNECTED \<and> c_incoming (w_cnx w' c) = None"
proof -
  have down: "c_incoming (w_cnx w' c) = None \<and> c_status (w_cnx w' c) = LINK_DISCONNECTED" if "disconnect c w = (w', evs)" for w w' evs
    using that by (auto simp: disconnect_def link_connection_state_changed_def giop_connection_real_state_changed_def dest!: zap_cnx)
  have "w_cnx w' = w_cnx w" if "handle_reply c buf w = (w', evs, err)" for w' evs err
    using that by (auto simp: handle_reply_def Let_def split: option.splits if_splits)
  with assms down show ?thesis
    by (auto simp: giop_dispatch_def Let_def split: if_splits prod.splits)
qed

lemma after_reading_ok:
  assumes "after_reading c w (f, p) = (w', evs)" "\<And>buf. p = More buf \<Longrightarrow> reading buf"
  shows "cnx_ok (w_cnx w' c)"
proof (cases p)
  case (Message buf)
  then show ?thesis
    using assms(1) dispatch_cnx[of c buf "update_cnx c (\<lambda>x. x\<lparr> c_frags := f, c_incoming := None \<rparr>) w" w' evs]
    by (auto simp: after_reading_def cnx_ok_def)
next
  case Failed
  then show ?thesis
    using assms(1)
    by (auto simp: after_reading_def cnx_ok_def disconnect_def link_connection_state_changed_def
        giop_connection_real_state_changed_def dest!: zap_cnx)
qed (use assms in \<open>auto simp: after_reading_def cnx_ok_def\<close>)

lemma eat_reading:
  assumes "reading buf" "eat M a l f buf bs = Inr ((f', More buf'), rest)"
  shows "reading buf'"
  using assms
proof (induction bs arbitrary: f buf)
  case (Cons x xs)
  have one: "length [x] \<le> b_left buf" using Cons.prems(1) by (simp add: reading_def)
  show ?case
    using Cons.prems(2) read_more_reading[OF _ Cons.prems(1) one] Cons.IH
    by (auto simp: rbind_eq_Inr split: if_splits progress.splits) (metis progress.exhaust)
qed simp

text \<open>A connection that has just come up, and a world of such connections where nobody waits.\<close>

definition GIOP_INITIAL_MSG_SIZE_LIMIT :: int where "GIOP_INITIAL_MSG_SIZE_LIMIT = 256 * 1024"

definition giop_new_connection :: gcnx where
  "giop_new_connection = \<lparr> c_status = LINK_CONNECTED, c_auth = False, c_incoming = None, c_frags = [] \<rparr>"

definition idle_world :: gworld where
  "idle_world = \<lparr> w_cnx = (\<lambda>_. giop_new_connection), w_queue = [],
     w_ent = (\<lambda>_. \<lparr> e_buffer = None, e_cnx = None, e_type = 0, e_id = 0, e_async = False \<rparr>),
     w_limit = GIOP_INITIAL_MSG_SIZE_LIMIT \<rparr>"

definition host_machine :: machine where
  "host_machine = \<lparr> n_abi = x86_64, n_lp64 = True, n_host = True, n_moves = (<) \<rparr>"

lemma segments_do_not_matter_bytes:
  assumes "cnx_ok (w_cnx w c)" "[] \<notin> set segs"
  shows "giop_main_loop M c w segs = receive_bytes M c w (concat segs)"
  using assms
proof (induction "unread_bytes segs" arbitrary: w segs rule: less_induct)
  case less
  let ?g = "w_cnx w c"
  show ?case
  proof (cases "segs = [] \<or> c_status ?g \<noteq> LINK_CONNECTED")
    case True
    then show ?thesis by (auto simp: receive_bytes_down)
  next
    case False
    then have up: "c_status ?g = LINK_CONNECTED" and ne: "segs \<noteq> []" "concat segs \<noteq> []"
      using less(3) by (cases segs; auto)+
    let ?buf = "incoming_buf M ?g"
    have reads: "reading ?buf" using less(2) by (rule incoming_reading)
    note loop = read_loop_eat[OF reads less(3), of M "c_auth ?g" "w_limit w" "c_frags ?g"]
    note bytes = receive_bytes_eat[OF up ne(2), of M]
    show ?thesis
    proof (cases "eat M (c_auth ?g) (w_limit w) (c_frags ?g) ?buf (concat segs)")
      case (Inl e)
      then have "giop_connection_handle_input M c w segs = Inl e"
        using loop by (simp add: giop_connection_handle_input_def Let_def)
      then show ?thesis using False Inl bytes by simp
    next
      case (Inr res)
      obtain f p xs where res: "res = ((f, p), xs)" by (metis surj_pair)
      obtain rest where rest: "read_loop M (c_auth ?g) (w_limit w) (c_frags ?g) ?buf segs = Inr ((f, p), rest)"
        "concat rest = xs" "[] \<notin> set rest" using loop Inr res by auto
      obtain w' evs where w': "after_reading c w (f, p) = (w', evs)" by force
      have handle: "giop_connection_handle_input M c w segs = Inr ((w', evs), rest)"
        using rest(1) w' by (simp add: giop_connection_handle_input_def Let_def)
      have "cnx_ok (w_cnx w' c)"
        using after_reading_ok[OF w'] eat_reading[OF reads] Inr res by blast
      with less(1)[OF read_loop_consumes[OF rest(1) ne(1)] _ rest(3)]
      have "giop_main_loop M c w' rest = receive_bytes M c w' xs" using rest(2) by blast
      then show ?thesis using False handle bytes Inr res w' by simp
    qed
  qed
qed

text \<open>C28. How the bytes of the stream are cut into pieces does not matter: the loops that read what is there
  and handle one message at a time do to the state, and call, what the connection that takes one byte at a time does,
  and fail when it fails.\<close>

theorem segments_do_not_matter:
  assumes "cnx_ok (w_cnx w c)" "[] \<notin> set segs"
  shows "giop_main_loop M c w segs = receive_bytes M c w (concat segs)"
  by (rule segments_do_not_matter_bytes[OF assms])

theorem segments_do_not_matter_witness:
  "giop_main_loop host_machine 5 idle_world [[0x47], [0x49, 0x4f]] = receive_bytes host_machine 5 idle_world [0x47, 0x49, 0x4f]"
  using segments_do_not_matter[of idle_world 5 "[[0x47], [0x49, 0x4f]]" host_machine]
  by (simp add: cnx_ok_def idle_world_def giop_new_connection_def)

end
