(* ===== verification/Giop_Delivery.thy ===== *)
theory Giop_Delivery imports Giop_Input begin

text \<open>
  What becomes of whole messages: a request that the ORB has sent reaches the object adaptor of the receiver and a reply
  its caller, and the fragments of a message are put together.
\<close>

section \<open>A whole message\<close>

text \<open>The buffer when the body with the header \<open>h\<close> has been read, \<open>q\<close> being the reading position.\<close>

definition arrived :: "endian \<Rightarrow> GIOPVersion \<Rightarrow> GIOPMsgHeader \<Rightarrow> byte list \<Rightarrow> nat \<Rightarrow> rbuf" where
  "arrived host v h body q = \<lparr> r_host = host, r_mem = replicate 12 0 @ body, r_flags = flags h, r_version = v,
     r_type = message_type h, r_size = message_size h, r_body = 0, r_cur = q, r_end = 12 + length body \<rparr>"

lemma arrived_sel [simp]:
  "r_version (arrived host v h body q) = v" "r_type (arrived host v h body q) = message_type h"
  "r_flags (arrived host v h body q) = flags h" "r_size (arrived host v h body q) = message_size h"
  "r_mem (arrived host v h body q) = replicate 12 0 @ body" "r_end (arrived host v h body q) = 12 + length body"
  "r_cur (arrived host v h body q) = q"
  "(arrived host v h body q)\<lparr> r_cur := q' \<rparr> = arrived host v h body q'"
  by (simp_all add: arrived_def)

lemma at_bytes_arrived: "body = bs @ rest \<Longrightarrow> at_bytes 12 bs (arrived host v h body 12)"
  using slice_middle[of "replicate 12 0" bs rest] by (simp add: at_bytes_def)

definition body_read :: "byte list \<Rightarrow> rbuf \<Rightarrow> msg_state \<Rightarrow> giop_msg \<Rightarrow> gbuf" where
  "body_read hdr b st msg = \<lparr> b_header = hdr, b_rbuf = b, b_msg = msg, b_state = st, b_left = 0, b_stale = False \<rparr>"

lemma header_of_other_image:
  assumes "length (magic h) = 4" "length (version h) = 2"
  shows "header_of_image host (header_image e h) = h\<lparr> message_size := mem_word host (u32_bytes e (message_size h)) \<rparr>"
proof -
  obtain a b c d where m: "magic h = [a, b, c, d]" using assms(1) by (auto simp: length_Suc_conv eval_nat_numeral)
  obtain x y where v: "version h = [x, y]" using assms(2) by (auto simp: length_Suc_conv eval_nat_numeral)
  show ?thesis using m v by (simp add: header_of_image_def header_image_def slice_def)
qed

lemma version_of_ids [simp]: "giop_version_of (giop_version_ids v) = Some v"
  by (cases v) (simp_all add: giop_version_of_def)

text \<open>Which messages the reader takes in: a header of the sender's byte order, with the size of the body.\<close>

definition sendable_msg :: "bool \<Rightarrow> int \<Rightarrow> GIOPVersion \<Rightarrow> GIOPMsgHeader \<Rightarrow> byte list \<Rightarrow> bool" where
  "sendable_msg auth limit v h body \<longleftrightarrow> magic h = giop_magic \<and> version h = giop_version_ids v
     \<and> message_type h < GIOP_NUM_MSG_TYPES \<and> message_size h = of_nat (length body)
     \<and> 0 < length body \<and> length body < 2 ^ 31 \<and> (auth \<or> int (length body) \<le> limit)"

definition msg_wire :: "GIOPMsgHeader \<Rightarrow> byte list \<Rightarrow> byte list" where
  "msg_wire h body = header_image (flag_endian (flags h)) h @ body"

lemma header_read:
  assumes "sendable_msg a l v h body"
  shows "read_more M a l f (giop_recv_buffer_use_buf host) (header_image (flag_endian (flags h)) h) =
    Inr (f, More \<lparr> b_header = header_image (flag_endian (flags h)) h,
      b_rbuf = \<lparr> r_host = host, r_mem = replicate (12 + length body) 0, r_flags = flags h, r_version = v,
        r_type = message_type h, r_size = message_size h, r_body = 0, r_cur = 12, r_end = 12 + length body \<rparr>,
      b_msg = NoMsg, b_state = READING_BODY, b_left = length body, b_stale = False \<rparr>)"
proof -
  let ?e = "flag_endian (flags h)"
  have m: "length (magic h) = 4" "length (version h) = 2" using assms by (simp_all add: sendable_msg_def)
  have h: "header_of_image host (header_image ?e h) = h\<lparr> message_size := mem_word host (u32_bytes ?e (message_size h)) \<rparr>"
    by (rule header_of_other_image[OF m])
  have size: "giop_msg_size host (h\<lparr> message_size := mem_word host (u32_bytes ?e (message_size h)) \<rparr>) = message_size h"
    by (cases "?e = host") (simp_all add: giop_msg_size_def conversion_needed_iff swap32_mem_word)
  have n: "unat (message_size h) = length body" using assms by (simp add: sendable_msg_def unat_of_nat_u32)
  then have n': "uint (message_size h) = int (length body)" by (metis uint_nat)
  have len: "length (header_image ?e h) = 12" using m by (rule header_image_length)
  have ok: "magic h = giop_magic" "version h = giop_version_ids v" "\<not> GIOP_NUM_MSG_TYPES \<le> message_type h"
    "\<not> (\<not> a \<and> l < int (length body))" using assms by (auto simp: sendable_msg_def)
  have "giop_recv_msg_reading_body a l ((giop_recv_buffer_use_buf host)\<lparr> b_header := header_image ?e h, b_left := 0 \<rparr>) =
    Inr \<lparr> b_header = header_image ?e h,
      b_rbuf = \<lparr> r_host = host, r_mem = replicate (12 + length body) 0, r_flags = flags h, r_version = v,
        r_type = message_type h, r_size = message_size h, r_body = 0, r_cur = 12, r_end = 12 + length body \<rparr>,
      b_msg = NoMsg, b_state = READING_HEADER, b_left = length body, b_stale = False \<rparr>"
    using ok unfolding giop_recv_msg_reading_body_def
    by (simp add: Let_def giop_recv_buffer_use_buf_def h size n n' alloc_buffer_def add.commute)
  then show ?thesis
    using assms len
    by (simp add: read_more_def read_into_def giop_msg_complete_def giop_recv_buffer_use_buf_def sendable_msg_def Let_def)
qed

lemma body_read_into:
  assumes "sendable_msg a l v h body"
  shows "read_more M a l f \<lparr> b_header = hdr,
      b_rbuf = \<lparr> r_host = host, r_mem = replicate (12 + length body) 0, r_flags = flags h, r_version = v,
        r_type = message_type h, r_size = message_size h, r_body = 0, r_cur = 12, r_end = 12 + length body \<rparr>,
      b_msg = NoMsg, b_state = READING_BODY, b_left = length body, b_stale = False \<rparr> body
    = giop_msg_complete M a l f (body_read hdr (arrived host v h body (12 + length body)) READING_BODY NoMsg)"
  by (simp add: read_more_def read_into_def Let_def body_read_def arrived_def min_def)

lemma message_arrives:
  assumes msg: "sendable_msg (c_auth (w_cnx w c)) (w_limit w) v h body"
    and up: "c_status (w_cnx w c) = LINK_CONNECTED" "c_incoming (w_cnx w c) = None"
  shows "receive_bytes M c w (msg_wire h body) =
    rbind (giop_msg_complete M (c_auth (w_cnx w c)) (w_limit w) (c_frags (w_cnx w c))
      (body_read (header_image (flag_endian (flags h)) h) (arrived (n_host M) v h body (12 + length body)) READING_BODY NoMsg))
    (\<lambda>r. Inr (after_reading c w r))"
proof -
  let ?hdr = "header_image (flag_endian (flags h)) h"
  have m: "length ?hdr = 12" "0 < length body" "length body < 2 ^ 31"
    using msg by (simp_all add: sendable_msg_def header_image_length)
  have eat1: "eat M a l f (giop_recv_buffer_use_buf host) (?hdr @ body) = rbind (read_more M a l f (giop_recv_buffer_use_buf host) ?hdr)
      (\<lambda>(f', p). case p of More buf' \<Rightarrow> eat M a l f' buf' body | _ \<Rightarrow> Inr ((f', p), body))" for a l f host
    using m(1) by (intro eat_append reading_fresh) (auto simp: giop_recv_buffer_use_buf_def)
  let ?b = "\<lparr> b_header = ?hdr,
      b_rbuf = \<lparr> r_host = n_host M, r_mem = replicate (12 + length body) 0, r_flags = flags h, r_version = v,
        r_type = message_type h, r_size = message_size h, r_body = 0, r_cur = 12, r_end = 12 + length body \<rparr>,
      b_msg = NoMsg, b_state = READING_BODY, b_left = length body, b_stale = False \<rparr>"
  have "reading ?b" using m by (simp add: reading_def)
  then have eat2: "eat M a l f ?b (body @ []) = rbind (read_more M a l f ?b body)
      (\<lambda>(f', p). case p of More buf' \<Rightarrow> eat M a l f' buf' [] | _ \<Rightarrow> Inr ((f', p), []))" for a l f
    using m by (intro eat_append) auto
  have p: "(case p of More buf' \<Rightarrow> eat M a l f' buf' [] | _ \<Rightarrow> Inr ((f', p), [])) = Inr ((f', p), [])" for p a l f'
    by (cases p) simp_all
  have inc: "incoming_buf M (w_cnx w c) = giop_recv_buffer_use_buf (n_host M)" using up by (simp add: incoming_buf_def)
  have ne: "?hdr @ body \<noteq> []" using m by auto
  show ?thesis
    unfolding msg_wire_def receive_bytes_eat[OF up(1) ne] inc eat1 header_read[OF msg] rbind_simps case_prod_conv progress.case
      eat2[unfolded append_Nil2] p body_read_into[OF msg] rbind_assoc
    by (rule rbind_cong[OF refl]) (simp add: case_prod_beta)
qed

lemma whole_message_arrives:
  assumes msg: "sendable_msg (c_auth (w_cnx w c)) (w_limit w) v h body"
    and up: "c_status (w_cnx w c) = LINK_CONNECTED" "c_incoming (w_cnx w c) = None"
    and whole: "flags h AND GIOP_FLAG_FRAGMENTED = 0" "message_type h \<noteq> GIOP_FRAGMENT"
    and dec: "giop_recv_buffer_demarshal (n_abi M) (n_lp64 M) (arrived (n_host M) v h body 12) = Inr (m, arrived (n_host M) v h body q)"
  shows "receive_bytes M c w (msg_wire h body) =
    Inr (giop_dispatch c (body_read (header_image (flag_endian (flags h)) h) (arrived (n_host M) v h body q) READY m) w)"
proof -
  have same: "update_cnx c (\<lambda>x. x\<lparr> c_frags := c_frags (w_cnx w c), c_incoming := None \<rparr>) w = w"
    using up(2) by (simp add: update_cnx_def fun_upd_idem)
  have "unat (message_size h) = length body" using msg by (simp add: sendable_msg_def unat_of_nat_u32)
  then show ?thesis
    unfolding message_arrives[OF msg up] using whole dec
    by (simp add: giop_msg_complete_def body_read_def MORE_FRAGMENTS_FOLLOW_def after_reading_def same)
qed

lemma msg_wire_sb: "sb_wire s = msg_wire (sb_header s) (s_out s)"
  by (simp add: msg_wire_def sb_wire_def sb_header_def)

lemma sb_header_sel [simp]:
  "flags (sb_header s) = GIOP_FLAG_ENDIANNESS (s_host s)" "message_type (sb_header s) = s_type s"
  by (simp_all add: sb_header_def)

lemma sendable_sb:
  assumes "sb_ok s" "s_type s < GIOP_NUM_MSG_TYPES" "s_out s \<noteq> []" "length (s_out s) < 2 ^ 31"
    "auth \<or> int (length (s_out s)) \<le> limit"
  shows "sendable_msg auth limit (s_version s) (sb_header s) (s_out s)"
  using assms by (simp add: sendable_msg_def sb_header_def sb_ok_def)

lemma whole_flags [simp]: "GIOP_FLAG_ENDIANNESS e AND GIOP_FLAG_FRAGMENTED = 0"
  by (cases e) (simp_all add: GIOP_FLAG_ENDIANNESS_def GIOP_FLAG_FRAGMENTED_def GIOP_FLAG_LITTLE_ENDIAN_def)

lemma unread_rest:
  assumes "body = bs @ rest"
  shows "unread (body_read hdr (arrived host v h body (12 + length bs)) st m) = Inr rest"
  using assms by (simp add: unread_def body_read_def slice_def)

lemma u32_bytes_ne [simp]: "u32_bytes e w \<noteq> []"
  by (metis mem_bytes_length list.size(3) zero_neq_numeral)

lemma reply_sel:
  "s_version (giop_send_buffer_use_reply host v i st) = v" "s_type (giop_send_buffer_use_reply host v i st) = GIOP_REPLY"
  "s_host (giop_send_buffer_use_reply host v i st) = host" "spos (giop_send_buffer_use_reply host v i st)
    = 12 + length (s_out (giop_send_buffer_use_reply host v i st))" "sb_ok (giop_send_buffer_use_reply host v i st)"
  "s_out (giop_send_buffer_use_reply host v i st) \<noteq> []"
  by (simp_all add: use_reply_enc spos_def)

lemma reply_arrives:
  assumes b: "b = giop_send_buffer_use_reply host v i st" and wire: "wire = sb_append results b"
    and up: "c_status (w_cnx w c) = LINK_CONNECTED" "c_incoming (w_cnx w c) = None"
    and size: "length (s_out wire) < 2 ^ 31" "c_auth (w_cnx w c) \<or> int (length (s_out wire)) \<le> w_limit w"
  shows "\<exists>buf. receive_bytes M c w (sb_wire wire) = Inr (giop_dispatch c buf w) \<and> r_type (b_rbuf buf) = GIOP_REPLY
    \<and> r_version (b_rbuf buf) = v \<and> giop_recv_buffer_get_request_id (b_msg buf) = i
    \<and> giop_recv_buffer_reply_status v (b_msg buf) = st \<and> unread buf = Inr results"
proof -
  have out: "s_out wire = s_out b @ results" "s_version wire = v" "s_type wire = GIOP_REPLY" "s_host wire = host"
    by (simp_all add: wire b reply_sel)
  have at: "at_bytes 12 (s_out b) (arrived (n_host M) v (sb_header wire) (s_out wire) 12)"
    using out(1) by (rule at_bytes_arrived)
  have p: "spos b = 12 + length (s_out b)" by (simp add: b reply_sel)
  have ty: "r_type (arrived (n_host M) v (sb_header wire) (s_out wire) 12) = GIOP_REPLY" by (simp add: out)
  have fl: "flag_endian (r_flags (arrived (n_host M) v (sb_header wire) (s_out wire) 12)) = host" by (simp add: out)
  from reply_at[OF b arrived_sel(1) ty fl at, of "n_abi M" "n_lp64 M"] obtain m where
    m: "giop_recv_buffer_demarshal (n_abi M) (n_lp64 M) (arrived (n_host M) v (sb_header wire) (s_out wire) 12)
      = Inr (m, arrived (n_host M) v (sb_header wire) (s_out wire) (spos b))"
    "giop_recv_buffer_get_request_id m = i" "giop_recv_buffer_reply_status v m = st"
    unfolding arrived_sel(8) by blast
  have "sendable_msg (c_auth (w_cnx w c)) (w_limit w) (s_version wire) (sb_header wire) (s_out wire)"
    using size by (intro sendable_sb) (simp_all add: out(3) wire reply_sel b giop_msg_types)
  from whole_message_arrives[OF this[unfolded out(2)] up _ _ m(1)]
  have "receive_bytes M c w (sb_wire wire) = Inr (giop_dispatch c (body_read (header_image host (sb_header wire))
      (arrived (n_host M) v (sb_header wire) (s_out wire) (spos b)) READY m) w)"
    unfolding msg_wire_sb by (simp add: out giop_msg_types)
  moreover have "unread (body_read (header_image host (sb_header wire))
      (arrived (n_host M) v (sb_header wire) (s_out wire) (spos b)) READY m) = Inr results"
    unfolding p using out(1) by (rule unread_rest)
  ultimately show ?thesis using m(2,3) by (intro exI conjI) (assumption | simp add: body_read_def out)+
qed

text \<open>C29. A reply reaches its caller: however its bytes are cut up, once they are there the first waiting entry with its
  number, if it waits on this connection, has the reply and has left the queue, the rest of the state is as before, the
  caller can go on, and reads the status and the results the server has sent.\<close>

theorem reply_reaches_caller:
  assumes "b = giop_send_buffer_use_reply host v i st" "wire = sb_append results b"
    and "c_status (w_cnx w c) = LINK_CONNECTED" "c_incoming (w_cnx w c) = None"
    and "length (s_out wire) < 2 ^ 31" "c_auth (w_cnx w c) \<or> int (length (s_out wire)) \<le> w_limit w"
    and waits: "find (\<lambda>ent. e_id (w_ent w ent) = i \<and> e_type (w_ent w ent) = ucast GIOP_REPLY) (w_queue w) = Some ent"
      "e_cnx (w_ent w ent) = Some c" "e_async (w_ent w ent) = False"
    and segs: "concat segs = sb_wire wire" "[] \<notin> set segs"
  shows "\<exists>buf w'. giop_main_loop M c w segs = Inr (w', [])
    \<and> w' = w\<lparr> w_queue := remove1 ent (w_queue w), w_ent := (w_ent w)(ent := (w_ent w ent)\<lparr> e_buffer := Some buf \<rparr>) \<rparr>
    \<and> fst (the (giop_recv_buffer_get ent w')) = Some buf
    \<and> giop_recv_buffer_reply_status v (b_msg buf) = st \<and> unread buf = Inr results"
proof -
  obtain buf where buf: "receive_bytes M c w (sb_wire wire) = Inr (giop_dispatch c buf w)" "r_type (b_rbuf buf) = GIOP_REPLY"
    "r_version (b_rbuf buf) = v" "giop_recv_buffer_get_request_id (b_msg buf) = i"
    "giop_recv_buffer_reply_status v (b_msg buf) = st" "unread buf = Inr results"
    using reply_arrives[OF assms(1-6)] by blast
  have "cnx_ok (w_cnx w c)" using assms(4) by (simp add: cnx_ok_def)
  from segments_do_not_matter_bytes[OF this segs(2), of M] have "giop_main_loop M c w segs = Inr (giop_dispatch c buf w)"
    using buf(1) segs(1) by simp
  moreover have "giop_dispatch c buf w = (w\<lparr> w_queue := remove1 ent (w_queue w),
      w_ent := (w_ent w)(ent := (w_ent w ent)\<lparr> e_buffer := Some buf \<rparr>) \<rparr>, [])"
    using buf(2,4) waits by (simp add: giop_dispatch_def handle_reply_def)
  ultimately show ?thesis
    using buf(5,6) by (auto simp: giop_recv_buffer_get_def check_got_def)
qed

text \<open>A caller with number 3 waits on connection 5.\<close>

definition one_caller :: gworld where
  "one_caller = giop_recv_list_setup_queue_entry 2 5 1 3 idle_world"

theorem reply_reaches_caller_witness:
  "\<exists>buf w'. giop_main_loop host_machine 5 one_caller [sb_wire (sb_append [7, 8] (giop_send_buffer_use_reply False GIOP_1_0 3 0))]
      = Inr (w', []) \<and> fst (the (giop_recv_buffer_get 2 w')) = Some buf \<and> unread buf = Inr [7, 8]"
proof -
  have w: "c_status (w_cnx one_caller 5) = LINK_CONNECTED" "c_incoming (w_cnx one_caller 5) = None" "w_queue one_caller = [2]"
    "w_ent one_caller 2 = \<lparr> e_buffer = None, e_cnx = Some 5, e_type = 1, e_id = 3, e_async = False \<rparr>"
    "c_auth (w_cnx one_caller 5) = False" "w_limit one_caller = 262144"
    by (simp_all add: one_caller_def giop_recv_list_setup_queue_entry_def idle_world_def giop_new_connection_def
        GIOP_INITIAL_MSG_SIZE_LIMIT_def)
  have l: "length (s_out (giop_send_buffer_use_reply False GIOP_1_0 3 0)) = 32" by (simp add: use_reply_enc contexts_12)
  have "length (sb_wire x) \<noteq> 0" for x by (simp add: sb_wire_length)
  then have "[] \<notin> set [sb_wire x]" for x by (metis empty_iff list.set(1) list.size(3) set_ConsD)
  from reply_reaches_caller[where M = host_machine, OF refl refl w(1,2) _ _ _ _ _ _ this, of "[7, 8]" False GIOP_1_0 3 0 2]
  show ?thesis by (simp add: w l giop_msg_types) blast
qed

lemma request_written:
  assumes "c_string name"
  shows "sb_ok (giop_send_buffer_use_request host v i resp key (operation_header host name (length name - 1)) None)"
    "spos (giop_send_buffer_use_request host v i resp key (operation_header host name (length name - 1)) None)
      = 12 + length (s_out (giop_send_buffer_use_request host v i resp key (operation_header host name (length name - 1)) None))"
    "s_out (giop_send_buffer_use_request host v i resp key (operation_header host name (length name - 1)) None) \<noteq> []"
proof -
  have op: "length name - 1 < length name" "name = take (length name - 1 + 1) name"
    using c_string_facts(1)[OF assms] by (cases name; simp)+
  have "format_1_1 host i r key name \<noteq> []" "format_1_2 host i r key name \<noteq> []" for r
    by (simp_all add: format_1_1_def format_1_2_def Let_def)
  then have "\<exists>xs. xs \<noteq> [] \<and> giop_send_buffer_use_request host v i resp key (operation_header host name (length name - 1)) None
      = sb_append xs (start_message GIOP_REQUEST host v)"
    using use_request_1_1[OF op] use_request_1_2[OF op] by (cases "v = GIOP_1_2") blast+
  then show "sb_ok (giop_send_buffer_use_request host v i resp key (operation_header host name (length name - 1)) None)"
    "spos (giop_send_buffer_use_request host v i resp key (operation_header host name (length name - 1)) None)
      = 12 + length (s_out (giop_send_buffer_use_request host v i resp key (operation_header host name (length name - 1)) None))"
    "s_out (giop_send_buffer_use_request host v i resp key (operation_header host name (length name - 1)) None) \<noteq> []"
    by (auto simp: spos_def)
qed

lemma request_arrives_here:
  assumes "length objkey < 2 ^ 32" "c_string name" "length name < 2 ^ 32"
    and b: "b = giop_send_buffer_use_request host v i resp objkey (operation_header host name (length name - 1)) None"
    and wire: "wire = sb_append args b"
    and up: "c_status (w_cnx w c) = LINK_CONNECTED" "c_incoming (w_cnx w c) = None"
    and size: "length (s_out wire) < 2 ^ 31" "c_auth (w_cnx w c) \<or> int (length (s_out wire)) \<le> w_limit w"
  shows "\<exists>buf off. receive_bytes M c w (sb_wire wire) = Inr (w, [HandleRequest c buf])
    \<and> giop_recv_buffer_get_request_id (b_msg buf) = i \<and> response_wanted (b_msg buf) = resp
    \<and> giop_recv_buffer_get_objkey (b_msg buf) = Inr (off, length objkey) \<and> slice off (length objkey) (r_mem (b_rbuf buf)) = objkey
    \<and> giop_recv_buffer_get_opname (r_mem (b_rbuf buf)) (b_msg buf) = Inr name \<and> unread buf = Inr args"
proof -
  have ok: "sb_ok b" "spos b = 12 + length (s_out b)" "s_out b \<noteq> []"
    unfolding b using request_written[OF assms(2)] by simp_all
  have out: "s_out wire = s_out b @ args" "s_version wire = v" "s_type wire = GIOP_REQUEST" "s_host wire = host"
    by (simp_all add: wire b request_sel)
  let ?r = "arrived (n_host M) v (sb_header wire) (s_out wire)"
  have at: "at_bytes 12 (s_out b) (?r 12)" using out(1) by (rule at_bytes_arrived)
  have ty: "r_type (?r 12) = GIOP_REQUEST" "flag_endian (r_flags (?r 12)) = host" by (simp_all add: out)
  obtain t where t: "name = t @ [0]" "0 \<notin> set t" using assms(2) by (rule c_stringE)
  then have cut: "c_text (name @ pad 4 (length name)) @ [0] = name" using c_text_append[OF t(2)] by simp
  have op: "length name - 1 < length name" "name = take (length name - 1 + 1) name" "0 \<in> set (name @ pad 4 (length name))"
    using t by simp_all
  from request_at[OF assms(1) op(1,2) assms(3) refl op(3) b arrived_sel(1) ty at, of "n_abi M" "n_lp64 M"]
  obtain m off where m: "giop_recv_buffer_demarshal (n_abi M) (n_lp64 M) (?r 12) = Inr (m, ?r (spos b))"
    "giop_recv_buffer_get_request_id m = i" "response_wanted m = resp"
    "giop_recv_buffer_get_objkey m = Inr (off, length objkey)" "slice off (length objkey) (r_mem (?r 12)) = objkey"
    "giop_recv_buffer_get_opname (r_mem (?r 12)) m = Inr name"
    unfolding arrived_sel(8) cut by blast
  have "sendable_msg (c_auth (w_cnx w c)) (w_limit w) (s_version wire) (sb_header wire) (s_out wire)"
    using size ok out(3) by (intro sendable_sb) (simp_all add: wire giop_msg_types)
  from whole_message_arrives[OF this[unfolded out(2)] up _ _ m(1)]
  have "receive_bytes M c w (sb_wire wire) = Inr (giop_dispatch c (body_read (header_image host (sb_header wire)) (?r (spos b)) READY m) w)"
    unfolding msg_wire_sb by (simp add: out giop_msg_types)
  moreover have "giop_dispatch c (body_read (header_image host (sb_header wire)) (?r (spos b)) READY m) w
      = (w, [HandleRequest c (body_read (header_image host (sb_header wire)) (?r (spos b)) READY m)])"
    by (simp add: giop_dispatch_def body_read_def out giop_msg_types)
  moreover have "unread (body_read (header_image host (sb_header wire)) (?r (spos b)) READY m) = Inr args"
    unfolding ok(2) using out(1) by (rule unread_rest)
  ultimately show ?thesis using m(2-6) by (intro exI conjI) (assumption | simp add: body_read_def)+
qed

text \<open>C30. A request reaches the object adaptor: however its bytes are cut up, the last of them makes the connection hand
  over one message, which has the request's number, its object key and operation, and the arguments behind the header; the
  state of the connections and of the waiting callers stays as it is.\<close>

theorem request_reaches_adaptor:
  assumes "length objkey < 2 ^ 32" "c_string name" "length name < 2 ^ 32"
    and "b = giop_send_buffer_use_request host v i resp objkey (operation_header host name (length name - 1)) None"
    and "wire = sb_append args b"
    and "c_status (w_cnx w c) = LINK_CONNECTED" "c_incoming (w_cnx w c) = None"
    and "length (s_out wire) < 2 ^ 31" "c_auth (w_cnx w c) \<or> int (length (s_out wire)) \<le> w_limit w"
    and segs: "concat segs = sb_wire wire" "[] \<notin> set segs"
  shows "\<exists>buf off. giop_main_loop M c w segs = Inr (w, [HandleRequest c buf])
    \<and> giop_recv_buffer_get_request_id (b_msg buf) = i \<and> response_wanted (b_msg buf) = resp
    \<and> giop_recv_buffer_get_objkey (b_msg buf) = Inr (off, length objkey) \<and> slice off (length objkey) (r_mem (b_rbuf buf)) = objkey
    \<and> giop_recv_buffer_get_opname (r_mem (b_rbuf buf)) (b_msg buf) = Inr name \<and> unread buf = Inr args"
proof -
  have "cnx_ok (w_cnx w c)" using assms(7) by (simp add: cnx_ok_def)
  from segments_do_not_matter_bytes[OF this segs(2), of M] show ?thesis
    using request_arrives_here[OF assms(1-9), of M] segs(1) by simp
qed

theorem request_reaches_adaptor_witness:
  "\<exists>buf. giop_main_loop host_machine 5 idle_world [sb_wire (sb_append [7, 8]
      (giop_send_buffer_use_request False GIOP_1_2 4 True [1, 2, 3] (operation_header False (cstr ''ping'') 4) None))]
    = Inr (idle_world, [HandleRequest 5 buf]) \<and> unread buf = Inr [7, 8]"
proof -
  have n: "c_string (cstr ''ping'')" "length (cstr ''ping'') < 2 ^ 32" "length (cstr ''ping'') - 1 = 4"
    by (simp_all add: cstr_def c_string_def)
  have w: "c_status (w_cnx idle_world 5) = LINK_CONNECTED" "c_incoming (w_cnx idle_world 5) = None"
    "c_auth (w_cnx idle_world 5) = False" "w_limit idle_world = 262144"
    by (simp_all add: idle_world_def giop_new_connection_def GIOP_INITIAL_MSG_SIZE_LIMIT_def)
  have l: "length (s_out (giop_send_buffer_use_request False GIOP_1_2 4 True [1, 2, 3]
      (operation_header False (cstr ''ping'') 4) None)) = 60"
    by (simp add: giop_send_buffer_use_request_def Let_def append_ulong_def append_key_def operation_header_def
        sb_append_aligned_def spos_def pad_def ALIGN_VALUE_def slice_def cstr_def)
  have "length (sb_wire x) \<noteq> 0" for x by (simp add: sb_wire_length)
  then have "[] \<notin> set [sb_wire x]" for x by (metis empty_iff list.set(1) list.size(3) set_ConsD)
  from request_reaches_adaptor[where M = host_machine, OF _ n(1,2) refl refl w(1,2) _ _ _ this, of "[1, 2, 3]" "[7, 8]" False GIOP_1_2 4 True]
  show ?thesis by (simp add: w l n(3)[simplified]) blast
qed

section \<open>Fragments\<close>

lemma append_frags_concat:
  "list_all2 (\<lambda>b p. unread b = Inr p) bufs ps \<Longrightarrow> ptr + length (concat ps) \<le> length mem \<Longrightarrow>
     append_frags bufs ptr mem = Inr (ptr + length (concat ps), take ptr mem @ concat ps @ drop (ptr + length (concat ps)) mem)"
proof (induction bufs arbitrary: ps ptr mem)
  case (Cons b bufs)
  from Cons.prems(1) obtain p qs where ps: "ps = p # qs" "unread b = Inr p" "list_all2 (\<lambda>b p. unread b = Inr p) bufs qs"
    by (cases ps) auto
  let ?mem = "take ptr mem @ p @ drop (ptr + length p) mem"
  have l: "ptr + length p + length (concat qs) \<le> length ?mem" using Cons.prems(2) ps(1) by simp
  have t: "take (ptr + length p) ?mem = take ptr mem @ p" using Cons.prems(2) ps(1) by simp
  have d: "drop (ptr + (length p + length (concat qs))) ?mem = drop (ptr + (length p + length (concat qs))) mem"
    using Cons.prems(2) ps(1) by (simp add: ac_simps)
  have "write_mem ptr p mem = Inr ?mem" using Cons.prems(2) ps(1) by (simp add: write_mem_def)
  then show ?case using Cons.IH[OF ps(3) l] t d by (simp add: ps(1,2) add.assoc)
qed simp

text \<open>
  A buffer with a fragment of message \<open>i\<close> that carries the bytes \<open>p\<close>: in GIOP 1.1 it has nothing else,
  otherwise the number of the message comes first.
\<close>

definition behind_id :: "gbuf \<Rightarrow> gbuf" where
  "behind_id buf = (if r_version (b_rbuf buf) = GIOP_1_1 then buf else buf\<lparr> b_rbuf := (b_rbuf buf)\<lparr> r_cur := 16 \<rparr> \<rparr>)"

definition carries :: "u32 \<Rightarrow> byte list \<Rightarrow> gbuf \<Rightarrow> bool" where
  "carries i p buf \<longleftrightarrow> r_type (b_rbuf buf) = GIOP_FRAGMENT \<and> unread (behind_id buf) = Inr p
     \<and> (r_version (b_rbuf buf) \<noteq> GIOP_1_1 \<longrightarrow>
        at_bytes 12 (u32_bytes (flag_endian (r_flags (b_rbuf buf))) i) (b_rbuf buf))"

lemma fragment_id_carries:
  assumes "carries i p buf"
  shows "fragment_id buf = Inr (if r_version (b_rbuf buf) = GIOP_1_1 then 0 else i, behind_id buf)"
proof (cases "r_version (b_rbuf buf) = GIOP_1_1")
  case False
  have "rd_ulong (b_rbuf buf) = Inr (i, (b_rbuf buf)\<lparr> r_cur := 12 + length (enc_ulong (flag_endian (r_flags (b_rbuf buf))) i 12) \<rparr>)"
    using assms False by (intro parsesD[OF parses_ulong]) (simp_all add: carries_def enc_ulong_def pad_def align_12)
  then show ?thesis
    using assms False by (simp add: fragment_id_def carries_def giop_msg_types behind_id_def enc_ulong_def pad_def align_12)
qed (use assms in \<open>simp add: fragment_id_def carries_def giop_msg_types behind_id_def\<close>)

lemma behind_id_sel [simp]:
  "r_version (b_rbuf (behind_id buf)) = r_version (b_rbuf buf)" "r_type (b_rbuf (behind_id buf)) = r_type (b_rbuf buf)"
  "r_size (b_rbuf (behind_id buf)) = r_size (b_rbuf buf)" "r_flags (b_rbuf (behind_id buf)) = r_flags (b_rbuf buf)"
  "MORE_FRAGMENTS_FOLLOW (behind_id buf) = MORE_FRAGMENTS_FOLLOW buf"
  by (simp_all add: behind_id_def MORE_FRAGMENTS_FOLLOW_def)

text \<open>The size that the head counts: what was left of the fragment.\<close>

lemma unread_length:
  assumes "unread buf = Inr p" "r_end (b_rbuf buf) \<le> length (r_mem (b_rbuf buf))"
  shows "length p = r_end (b_rbuf buf) - r_cur (b_rbuf buf)" "r_cur (b_rbuf buf) \<le> r_end (b_rbuf buf)"
  using assms by (auto simp: unread_def Let_def slice_def split: if_splits)

definition grown :: "nat \<Rightarrow> gbuf \<Rightarrow> gbuf" where
  "grown n head = head\<lparr> b_rbuf := (b_rbuf head)\<lparr> r_size := r_size (b_rbuf head) + of_nat n \<rparr> \<rparr>"

lemma grown_sel [simp]:
  "b_msg (grown n head) = b_msg head" "r_type (b_rbuf (grown n head)) = r_type (b_rbuf head)"
  "r_cur (b_rbuf (grown n head)) = r_cur (b_rbuf head)" "r_end (b_rbuf (grown n head)) = r_end (b_rbuf head)"
  "r_mem (b_rbuf (grown n head)) = r_mem (b_rbuf head)" "r_size (b_rbuf (grown n head)) = r_size (b_rbuf head) + of_nat n"
  "b_stale (grown n head) = b_stale head"
  by (simp_all add: grown_def)

lemma count_grown:
  assumes "unread buf = Inr p" "r_end (b_rbuf buf) \<le> length (r_mem (b_rbuf buf))"
  shows "count_fragment buf (grown n head) = grown (n + length p) head"
  using unread_length[OF assms] by (simp add: count_fragment_def grown_def of_nat_diff add.assoc)

text \<open>The first list of the connection is that of the message; no other has its number.\<close>

definition only_first :: "u32 \<Rightarrow> gbuf \<Rightarrow> gbuf list list \<Rightarrow> bool" where
  "only_first i head frags \<longleftrightarrow> giop_recv_buffer_get_request_id (b_msg head) = i
     \<and> (\<forall>l\<in>set frags. giop_recv_buffer_get_request_id (b_msg (hd l)) \<noteq> i)"

lemma get_frag_first:
  assumes "only_first i head frags" "first \<Longrightarrow> frags = []"
  shows "giop_connection_get_frag ((grown n head # bufs) # frags) (if first then 0 else i) first = Some 0"
proof (cases first)
  case True
  then show ?thesis using assms(2) by (simp add: giop_connection_get_frag_def)
next
  case False
  have "[0..<length ((grown n head # bufs) # frags)] = 0 # [1..<Suc (length frags)]" by (subst upt_conv_Cons) simp_all
  then show ?thesis using assms(1) False by (simp add: giop_connection_get_frag_def only_first_def)
qed

lemma get_frag_none:
  assumes "only_first i head frags" "first \<Longrightarrow> frags = []"
  shows "giop_connection_get_frag frags i first = None"
proof -
  have "find (\<lambda>k. giop_recv_buffer_get_request_id (b_msg (hd (frags ! k))) = i) [0..<length frags] = None"
    using assms(1) by (auto simp: find_None_iff only_first_def)
  then show ?thesis using assms(2) by (simp add: giop_connection_get_frag_def)
qed

text \<open>What the head of a message looks like when it has been decoded, with something behind its header or nothing.\<close>

definition head_ok :: "gbuf \<Rightarrow> bool" where
  "head_ok head \<longleftrightarrow> r_type (b_rbuf head) \<in> {GIOP_REPLY, GIOP_LOCATEREPLY, GIOP_REQUEST, GIOP_LOCATEREQUEST}
     \<and> MORE_FRAGMENTS_FOLLOW head \<and> 12 \<le> r_cur (b_rbuf head) \<and> r_cur (b_rbuf head) \<le> r_end (b_rbuf head)
     \<and> r_end (b_rbuf head) = length (r_mem (b_rbuf head)) \<and> unat (r_size (b_rbuf head)) = r_end (b_rbuf head) - 12"

definition joined :: "machine \<Rightarrow> gbuf \<Rightarrow> byte list \<Rightarrow> gbuf \<Rightarrow> bool" where
  "joined M head bs buf \<longleftrightarrow> b_msg buf = b_msg head \<and> r_type (b_rbuf buf) = r_type (b_rbuf head)
     \<and> r_cur (b_rbuf buf) = r_cur (b_rbuf head) \<and> r_end (b_rbuf buf) = r_end (b_rbuf head) + length bs
     \<and> r_end (b_rbuf buf) \<le> length (r_mem (b_rbuf buf))
     \<and> take (r_end (b_rbuf buf)) (r_mem (b_rbuf buf)) = r_mem (b_rbuf head) @ bs
     \<and> b_stale buf = (b_stale head \<or> n_moves M (length (r_mem (b_rbuf head))) (length (r_mem (b_rbuf buf))))"

lemma head_not_fragment: "head_ok head \<Longrightarrow> r_type (b_rbuf head) \<noteq> GIOP_FRAGMENT"
  by (auto simp: head_ok_def giop_msg_types)

lemma concat_joined:
  assumes head: "head_ok head" and bufs: "list_all2 (\<lambda>b p. unread b = Inr p) bufs ps"
    and small: "r_end (b_rbuf head) + length (concat ps) < 2 ^ 32"
  shows "\<exists>buf. concat_frags M (grown (length (concat ps)) head) bufs = Inr buf \<and> joined M head (concat ps) buf"
proof -
  let ?b = "b_rbuf head" and ?N = "length (concat ps)"
  let ?len = "r_end ?b - 12 + ?N + r_cur ?b - 12"
  let ?mem = "r_mem ?b @ replicate (?N + r_cur ?b - 12) 0"
  have h: "12 \<le> r_cur ?b" "r_cur ?b \<le> r_end ?b" "r_end ?b = length (r_mem ?b)" "unat (r_size ?b) = r_end ?b - 12"
    using head by (simp_all add: head_ok_def)
  have "r_size ?b = of_nat (r_end ?b - 12)" by (simp flip: h(4))
  then have "r_size ?b + of_nat ?N = of_nat (r_end ?b - 12 + ?N)" by simp
  then have size: "unat (r_size ?b + of_nat ?N) = r_end ?b - 12 + ?N" using small by (simp add: unat_of_nat_u32 del: of_nat_add)
  have n: "?len + 12 = r_end ?b + ?N + (r_cur ?b - 12)" using h by simp
  have room: "r_end ?b + ?N \<le> length ?mem" using h by simp
  note app = append_frags_concat[OF bufs room, unfolded h(3)]
  show ?thesis
    using h room
    by (simp add: concat_frags_def Let_def size alloc_buffer_def app joined_def)
qed

lemma first_fragment:
  assumes "head_ok head" "only_first i head frags" "r_version (b_rbuf head) = GIOP_1_1 \<Longrightarrow> frags = []"
  shows "giop_recv_buffer_handle_fragmented M a l frags head = Inr ([head] # frags, head, False)"
proof -
  have "fragment_id head = Inr (i, head)" using assms(1,2) by (auto simp: fragment_id_def head_ok_def only_first_def)
  then show ?thesis
    using assms(1) get_frag_none[OF assms(2,3)]
    by (simp add: giop_recv_buffer_handle_fragmented_def head_ok_def giop_connection_add_frag_def)
qed

text \<open>A fragment for the list of the message.\<close>

definition fits :: "bool \<Rightarrow> int \<Rightarrow> u32 \<Rightarrow> gbuf list list \<Rightarrow> byte list \<Rightarrow> gbuf \<Rightarrow> bool" where
  "fits a l i frags p buf \<longleftrightarrow> carries i p buf \<and> r_end (b_rbuf buf) \<le> length (r_mem (b_rbuf buf))
     \<and> (a \<or> int (unat (r_size (b_rbuf buf))) \<le> l) \<and> (r_version (b_rbuf buf) = GIOP_1_1 \<longrightarrow> frags = [])"

lemma next_fragment:
  assumes head: "head_ok head" "only_first i head frags" and buf: "fits a l i frags p buf"
  shows "giop_recv_buffer_handle_fragmented M a l ((grown n head # bufs) # frags) buf =
    (if MORE_FRAGMENTS_FOLLOW buf
     then Inr ((grown (n + length p) head # bufs @ [behind_id buf]) # frags, grown (n + length p) head, False)
     else rbind (concat_frags M (grown (n + length p) head) (bufs @ [behind_id buf])) (\<lambda>h. Inr (frags, h, False)))"
proof -
  have c: "carries i p buf" "unread (behind_id buf) = Inr p" "r_type (b_rbuf buf) = GIOP_FRAGMENT"
    and e: "r_end (b_rbuf (behind_id buf)) \<le> length (r_mem (b_rbuf (behind_id buf)))"
    and big: "\<not> (\<not> a \<and> l < uint (r_size (b_rbuf buf)))"
    using buf by (auto simp: fits_def carries_def behind_id_def)
  have g: "giop_connection_get_frag ((grown n head # bufs) # frags) (if r_version (b_rbuf buf) = GIOP_1_1 then 0 else i)
      (r_version (b_rbuf buf) = GIOP_1_1) = Some 0"
    using buf by (intro get_frag_first[OF head(2)]) (simp add: fits_def)
  show ?thesis
    using big head_not_fragment[OF head(1)]
    by (cases a) (simp_all add: giop_recv_buffer_handle_fragmented_def fragment_id_carries[OF c(1)] g count_grown[OF c(2) e]
        c(3) Let_def giop_connection_remove_frag_def)
qed

fun handle_in_turn :: "machine \<Rightarrow> bool \<Rightarrow> int \<Rightarrow> gbuf list list \<Rightarrow> gbuf list \<Rightarrow> (gbuf list list \<times> gbuf list) res" where
  "handle_in_turn M a l frags [] = Inr (frags, [])"
| "handle_in_turn M a l frags (buf # bufs) = rbind (giop_recv_buffer_handle_fragmented M a l frags buf)
     (\<lambda>(frags, h, error). if error then Inl Broken
       else rbind (handle_in_turn M a l frags bufs) (\<lambda>(frags, hs). Inr (frags, h # hs)))"

lemma behind_unread: "fits a l i frags p buf \<Longrightarrow> unread (behind_id buf) = Inr p"
  by (simp add: fits_def carries_def)

lemma rest_of_message:
  assumes head: "head_ok head" "only_first i head frags"
  shows "list_all2 (fits a l i frags) ps fs \<Longrightarrow> list_all MORE_FRAGMENTS_FOLLOW fs \<Longrightarrow>
    fits a l i frags p lst \<Longrightarrow> \<not> MORE_FRAGMENTS_FOLLOW lst \<Longrightarrow>
    list_all2 (\<lambda>b p. unread b = Inr p) bufs qs \<Longrightarrow>
    r_end (b_rbuf head) + length (concat (qs @ ps @ [p])) < 2 ^ 32 \<Longrightarrow>
    \<exists>hs buf. handle_in_turn M a l ((grown (length (concat qs)) head # bufs) # frags) (fs @ [lst]) = Inr (frags, hs @ [buf])
      \<and> joined M head (concat (qs @ ps @ [p])) buf"
proof (induction fs arbitrary: ps bufs qs)
  case Nil
  let ?bs = "concat (qs @ [p])"
  have "list_all2 (\<lambda>b p. unread b = Inr p) (bufs @ [behind_id lst]) (qs @ [p])"
    using Nil.prems(3,5) behind_unread by (auto intro!: list_all2_appendI)
  from concat_joined[OF head(1) this, of M] obtain buf where
    buf: "concat_frags M (grown (length ?bs) head) (bufs @ [behind_id lst]) = Inr buf" "joined M head ?bs buf"
    using Nil.prems(1,6) by auto
  show ?case
    using Nil.prems(1,4) buf next_fragment[OF head Nil.prems(3), of M "length (concat qs)" bufs]
    by (intro exI[of _ "[]"] exI[of _ buf]) simp
next
  case (Cons f fs)
  from Cons.prems(1) obtain q qs' where ps: "ps = q # qs'" "fits a l i frags q f" "list_all2 (fits a l i frags) qs' fs"
    by (cases ps) auto
  have more: "MORE_FRAGMENTS_FOLLOW f" "list_all MORE_FRAGMENTS_FOLLOW fs" using Cons.prems(2) by simp_all
  have "list_all2 (\<lambda>b p. unread b = Inr p) (bufs @ [behind_id f]) (qs @ [q])"
    using Cons.prems(5) ps(2) behind_unread by (auto intro!: list_all2_appendI)
  from Cons.IH[OF ps(3) more(2) Cons.prems(3,4) this] obtain hs buf where
    ih: "handle_in_turn M a l ((grown (length (concat (qs @ [q]))) head # bufs @ [behind_id f]) # frags) (fs @ [lst])
      = Inr (frags, hs @ [buf])" "joined M head (concat ((qs @ [q]) @ qs' @ [p])) buf"
    using Cons.prems(6) ps(1) by auto
  show ?case
    using ih more(1) next_fragment[OF head ps(2), of M "length (concat qs)" bufs] ps(1)
    by (intro exI[of _ "grown (length (concat (qs @ [q]))) head # hs"] exI[of _ buf]) simp
qed

text \<open>C31. Fragments are put together: a message whose first part has been decoded and whose fragments arrive in order
  comes out as one buffer that has, behind the bytes of the first part, those of all fragments without their headers, with
  the reading position where the first part left it; the fragments of other messages on the connection are
  untouched. All of it fits below 4 GiB, and the header's pointers stay good exactly if the block has not been moved.\<close>

theorem fragments_are_reassembled:
  assumes "head_ok head" "only_first i head frags" "r_version (b_rbuf head) = GIOP_1_1 \<Longrightarrow> frags = []"
    and "list_all2 (fits is_auth limit i frags) ps fs" "list_all MORE_FRAGMENTS_FOLLOW fs"
    and "fits is_auth limit i frags p lst" "\<not> MORE_FRAGMENTS_FOLLOW lst"
    and "r_end (b_rbuf head) + length (concat (ps @ [p])) < 2 ^ 32"
  shows "\<exists>hs buf. handle_in_turn M is_auth limit frags (head # fs @ [lst]) = Inr (frags, hs @ [buf])
    \<and> joined M head (concat (ps @ [p])) buf
    \<and> unread buf = Inr (drop (r_cur (b_rbuf head)) (r_mem (b_rbuf head)) @ concat (ps @ [p]))"
proof -
  have "grown 0 head = head" by (simp add: grown_def)
  with rest_of_message[OF assms(1,2,4-7), of "[]" "[]" M] assms(8) obtain hs buf where
    buf: "handle_in_turn M is_auth limit ([head] # frags) (fs @ [lst]) = Inr (frags, hs @ [buf])"
    "joined M head (concat (ps @ [p])) buf" by auto
  have h: "r_cur (b_rbuf head) \<le> length (r_mem (b_rbuf head))" using assms(1) by (simp add: head_ok_def)
  have j: "r_cur (b_rbuf buf) = r_cur (b_rbuf head)" "r_end (b_rbuf buf) = r_end (b_rbuf head) + length (concat (ps @ [p]))"
    "take (r_end (b_rbuf buf)) (r_mem (b_rbuf buf)) = r_mem (b_rbuf head) @ concat (ps @ [p])"
    using buf(2) unfolding joined_def by blast+
  have "r_cur (b_rbuf head) \<le> r_end (b_rbuf head)" using assms(1) by (simp add: head_ok_def)
  with j(2) have le: "r_cur (b_rbuf buf) \<le> r_end (b_rbuf buf)" using j(1) by linarith
  have "slice (r_cur (b_rbuf buf)) (r_end (b_rbuf buf) - r_cur (b_rbuf buf)) (r_mem (b_rbuf buf))
      = drop (r_cur (b_rbuf buf)) (take (r_end (b_rbuf buf)) (r_mem (b_rbuf buf)))"
    by (simp add: slice_def drop_take)
  then have "unread buf = Inr (drop (r_cur (b_rbuf head)) (r_mem (b_rbuf head)) @ concat (ps @ [p]))"
    unfolding unread_def Let_def using h j(1,3) le by (simp del: concat_append)
  then show ?thesis
    using buf first_fragment[OF assms(1-3), of M is_auth limit] by (intro exI[of _ "head # hs"] exI[of _ buf]) simp
qed

text \<open>A reply of GIOP 1.2 without results in its first part, and a last fragment with two bytes.\<close>

definition sample_header :: "byte \<Rightarrow> byte \<Rightarrow> nat \<Rightarrow> GIOPMsgHeader" where
  "sample_header fl t n = \<lparr> magic = giop_magic, version = [1, 2], flags = fl, message_type = t, message_size = of_nat n \<rparr>"

definition sample_head :: gbuf where
  "sample_head = body_read [] (arrived True GIOP_1_2 (sample_header 3 GIOP_REPLY 8) (u32_bytes True 7 @ u32_bytes True 0) 20)
     READY (Reply_1_2 7 0 (Sequence []))"

definition sample_fragment :: gbuf where
  "sample_fragment = body_read [] (arrived True GIOP_1_2 (sample_header 1 GIOP_FRAGMENT 6) (u32_bytes True 7 @ [5, 6]) 12) READY NoMsg"

theorem fragments_are_reassembled_witness:
  "\<exists>hs buf. handle_in_turn host_machine False 262144 [] [sample_head, sample_fragment] = Inr ([], hs @ [buf])
     \<and> unread buf = Inr [5, 6]"
proof -
  have head: "head_ok sample_head" "only_first 7 sample_head []"
    by (simp_all add: head_ok_def only_first_def sample_head_def body_read_def sample_header_def MORE_FRAGMENTS_FOLLOW_def
        GIOP_FLAG_FRAGMENTED_def)
  have frag: "fits False 262144 7 [] [5, 6] sample_fragment" "\<not> MORE_FRAGMENTS_FOLLOW sample_fragment"
    using at_bytes_arrived[of "u32_bytes True 7 @ [5, 6]" "u32_bytes True 7" "[5, 6]" True GIOP_1_2 "sample_header 1 GIOP_FRAGMENT 6"]
    by (simp_all add: fits_def carries_def sample_fragment_def body_read_def sample_header_def MORE_FRAGMENTS_FOLLOW_def
        GIOP_FLAG_FRAGMENTED_def behind_id_def unread_def slice_def flag_endian_def)
  have cur: "drop (r_cur (b_rbuf sample_head)) (r_mem (b_rbuf sample_head)) = []" "r_end (b_rbuf sample_head) = 20"
    by (simp_all add: sample_head_def body_read_def)
  show ?thesis
    using fragments_are_reassembled[OF head refl _ _ frag, of "[]" "[]" host_machine] by (auto simp: cur)
qed

lemma receive_bytes_append:
  "receive_bytes M c w (xs @ ys) = rbind (receive_bytes M c w xs) (\<lambda>(w', evs).
     rbind (receive_bytes M c w' ys) (\<lambda>(w'', evs'). Inr (w'', evs @ evs')))"
proof (induction xs arbitrary: w)
  case (Cons x xs)
  then show ?case by (auto simp: rbind_assoc case_prod_beta intro!: rbind_cong)
qed (simp add: case_prod_beta)

text \<open>A message that is one more fragment of a message with number \<open>i\<close>.\<close>

definition fragment_msg :: "bool \<Rightarrow> int \<Rightarrow> u32 \<Rightarrow> GIOPVersion \<Rightarrow> GIOPMsgHeader \<Rightarrow> byte list \<Rightarrow> bool" where
  "fragment_msg a l i v h body \<longleftrightarrow> sendable_msg a l v h body \<and> message_type h = GIOP_FRAGMENT
     \<and> flags h AND GIOP_FLAG_FRAGMENTED \<noteq> 0 \<and> (v = GIOP_1_1 \<or> (\<exists>p. body = u32_bytes (flag_endian (flags h)) i @ p))"

lemma fragment_arrives:
  assumes msg: "fragment_msg (c_auth (w_cnx w c)) (w_limit w) i v h body"
    and up: "c_status (w_cnx w c) = LINK_CONNECTED" "c_incoming (w_cnx w c) = None"
    and frags: "frags = c_frags (w_cnx w c)"
  shows "\<exists>buf. fragment_id buf = Inr (if v = GIOP_1_1 then 0 else i, behind_id buf) \<and> r_type (b_rbuf buf) = GIOP_FRAGMENT
    \<and> r_version (b_rbuf buf) = v \<and> MORE_FRAGMENTS_FOLLOW buf \<and> b_msg buf = NoMsg
    \<and> receive_bytes M c w (msg_wire h body) = rbind (giop_recv_buffer_handle_fragmented M (c_auth (w_cnx w c)) (w_limit w) frags buf)
        (\<lambda>(frags, head, error). Inr (after_reading c w (frags, if error then Failed else Parked)))"
proof -
  let ?hdr = "header_image (flag_endian (flags h)) h"
  let ?buf = "body_read ?hdr (arrived (n_host M) v h body 12) READY NoMsg"
  have s: "sendable_msg (c_auth (w_cnx w c)) (w_limit w) v h body" and t: "message_type h = GIOP_FRAGMENT"
    and fl: "flags h AND GIOP_FLAG_FRAGMENTED \<noteq> 0" using msg by (simp_all add: fragment_msg_def)
  have n: "unat (message_size h) = length body" using s by (simp add: sendable_msg_def unat_of_nat_u32)
  have dec: "giop_recv_buffer_demarshal m lp64 (arrived (n_host M) v h body 12) = Inr (NoMsg, arrived (n_host M) v h body 12)" for m lp64
    by (simp add: giop_recv_buffer_demarshal_def t giop_msg_types)
  have "\<exists>p. carries i p ?buf"
  proof (cases "v = GIOP_1_1")
    case True
    then show ?thesis by (simp add: carries_def body_read_def t behind_id_def unread_def)
  next
    case False
    then obtain p where p: "body = u32_bytes (flag_endian (flags h)) i @ p" using msg by (auto simp: fragment_msg_def)
    then show ?thesis
      using at_bytes_arrived[OF p, of "n_host M" v h] by (simp add: carries_def body_read_def t behind_id_def unread_def)
  qed
  then have "fragment_id ?buf = Inr (if v = GIOP_1_1 then 0 else i, behind_id ?buf)"
    using fragment_id_carries by (fastforce simp: body_read_def)
  moreover have "MORE_FRAGMENTS_FOLLOW ?buf" using fl by (simp add: MORE_FRAGMENTS_FOLLOW_def body_read_def)
  moreover have "giop_msg_complete M a l f (body_read ?hdr (arrived (n_host M) v h body (12 + length body)) READING_BODY NoMsg)
      = rbind (giop_recv_buffer_handle_fragmented M a l f ?buf) (\<lambda>(frags, head, error). Inr (frags, if error then Failed else Parked))"
    for a l f
    using n fl by (auto simp: giop_msg_complete_def body_read_def dec MORE_FRAGMENTS_FOLLOW_def Let_def intro!: rbind_cong)
  ultimately show ?thesis
    unfolding message_arrives[OF s up] frags
    by (intro exI[of _ ?buf]) (auto simp: body_read_def t rbind_assoc case_prod_beta intro!: rbind_cong)
qed



end
