(* ===== verification/Giop_Callers.thy ===== *)
theory Giop_Callers imports Giop_Delivery begin

text \<open>
  The connections and the queue of waiting callers as a system of steps, and the invariant that keeps every caller
  either served or in the queue of a connection that is alive.
\<close>

section \<open>Waiting callers\<close>

text \<open>What can happen, one thing at a time: input on a connection that is up, or its end; a caller that
  begins to wait on a connection that is not down, asks for a callback, or takes its reply; a connection that
  changes its status; the limit that is set.\<close>

definition giop_connection_hangup :: "nat \<Rightarrow> gworld \<Rightarrow> gworld \<times> gevent list" where
  "giop_connection_hangup c w = after_reading c w (c_frags (w_cnx w c), Failed)"

inductive giop_step :: "machine \<Rightarrow> gworld \<Rightarrow> gworld \<Rightarrow> bool" for M where
  input: "c_status (w_cnx w c) = LINK_CONNECTED \<Longrightarrow> [] \<notin> set segs \<Longrightarrow>
    giop_connection_handle_input M c w segs = Inr ((w', evs), rest) \<Longrightarrow> giop_step M w w'"
| hangup: "giop_connection_hangup c w = (w', evs) \<Longrightarrow> giop_step M w w'"
| status: "link_connection_state_changed c st w = (w', evs) \<Longrightarrow> giop_step M w w'"
| call: "ent \<notin> set (w_queue w) \<Longrightarrow> c_status (w_cnx w c) \<noteq> LINK_DISCONNECTED \<Longrightarrow>
    giop_step M w (giop_recv_list_setup_queue_entry ent c t i w)"
| callback: "giop_step M w (giop_recv_list_setup_queue_entry_async ent w)"
| get: "giop_recv_buffer_get ent w = Some (buf, w') \<Longrightarrow> giop_step M w w'"
| frags: "giop_step M w (giop_connection_destroy_frags c w)"
| limit: "giop_step M w (giop_recv_set_limit n w)"

inductive_cases giop_stepE: "giop_step M w w'"

definition queue_ok :: "gworld \<Rightarrow> bool" where
  "queue_ok w \<longleftrightarrow> distinct (w_queue w)
     \<and> (\<forall>ent\<in>set (w_queue w). e_buffer (w_ent w ent) = None
          \<and> (\<exists>c. e_cnx (w_ent w ent) = Some c \<and> c_status (w_cnx w c) \<noteq> LINK_DISCONNECTED))
     \<and> (\<forall>ent. ent \<notin> set (w_queue w) \<longrightarrow> e_buffer (w_ent w ent) \<noteq> None \<or> e_cnx (w_ent w ent) = None)"

text \<open>While a connection goes down its own callers are still in the queue.\<close>

definition queue_ok_but :: "nat \<Rightarrow> gworld \<Rightarrow> bool" where
  "queue_ok_but c w \<longleftrightarrow> distinct (w_queue w)
     \<and> (\<forall>ent\<in>set (w_queue w). e_buffer (w_ent w ent) = None
          \<and> (\<exists>c'. e_cnx (w_ent w ent) = Some c' \<and> (c' = c \<or> c_status (w_cnx w c') \<noteq> LINK_DISCONNECTED)))
     \<and> (\<forall>ent. ent \<notin> set (w_queue w) \<longrightarrow> e_buffer (w_ent w ent) \<noteq> None \<or> e_cnx (w_ent w ent) = None)"

lemma queue_ok_update:
  "queue_ok w \<Longrightarrow> queue_ok_but c (update_cnx c f w)"
  "queue_ok w \<Longrightarrow> c_status (f (w_cnx w c)) \<noteq> LINK_DISCONNECTED \<or> c_status (f (w_cnx w c)) = c_status (w_cnx w c)
    \<Longrightarrow> queue_ok (update_cnx c f w)"
  unfolding queue_ok_def queue_ok_but_def update_cnx_simps by (auto, metis)+

text \<open>After the loop over a rest of the queue nobody in it waits on the connection.\<close>

lemma zap_loop_queue:
  assumes "zap_loop c l w n = (w', n')" "distinct l" "set l \<subseteq> set (w_queue w)" "queue_ok_but c w"
    "\<forall>ent\<in>set (w_queue w) - set l. e_cnx (w_ent w ent) \<noteq> Some c"
  shows "queue_ok_but c w' \<and> (\<forall>ent\<in>set (w_queue w'). e_cnx (w_ent w' ent) \<noteq> Some c)"
  using assms
proof (induction c l w n arbitrary: w' n' rule: zap_loop.induct)
  case (2 c ent l w notify)
  show ?case
  proof (cases "e_cnx (w_ent w ent) = Some c")
    case True
    let ?w = "(zap_ent ent w)\<lparr> w_queue := remove1 ent (w_queue w) \<rparr>"
    have d: "distinct (w_queue w)" using 2(6) by (simp add: queue_ok_but_def)
    have q: "w_queue ?w = remove1 ent (w_queue w)" "w_cnx ?w = w_cnx w"
      "w_ent ?w = (w_ent w)(ent := (w_ent w ent)\<lparr> e_buffer := None, e_cnx := None \<rparr>)"
      by (simp_all add: zap_ent_def giop_recv_destroy_queue_entry_T_def)
    have s: "set (w_queue ?w) = set (w_queue w) - {ent}" using d q(1) by simp
    have "queue_ok_but c ?w" using 2(6) d unfolding queue_ok_but_def s q by auto
    moreover have "set l \<subseteq> set (w_queue ?w)" using 2(4,5) s by auto
    moreover have "\<forall>x\<in>set (w_queue ?w) - set l. e_cnx (w_ent ?w x) \<noteq> Some c" using 2(7) s q(3) by auto
    ultimately show ?thesis using 2(1)[OF True] 2(3,4) True by simp
  next
    case False
    then show ?thesis using 2(2)[OF False] 2(3-7) by auto
  qed
qed auto

lemma disconnect_queue:
  assumes "queue_ok w" "disconnect c w = (w', evs)"
  shows "queue_ok w'"
proof -
  let ?w = "update_cnx c (\<lambda>x. x\<lparr> c_status := LINK_DISCONNECTED, c_incoming := None \<rparr>) w"
  obtain n where z: "zap_loop c (w_queue ?w) ?w [] = (w', n)"
    using assms(2) by (auto simp: disconnect_def link_connection_state_changed_def giop_connection_real_state_changed_def
        giop_recv_list_zap_def split: prod.splits)
  have "queue_ok_but c ?w" using assms(1) by (rule queue_ok_update)
  from zap_loop_queue[OF z _ _ this] this have "queue_ok_but c w' \<and> (\<forall>ent\<in>set (w_queue w'). e_cnx (w_ent w' ent) \<noteq> Some c)"
    by (auto simp: queue_ok_but_def)
  then show ?thesis unfolding queue_ok_but_def queue_ok_def by fastforce
qed

lemma find_in_set: "find P xs = Some x \<Longrightarrow> x \<in> set xs \<and> P x"
  by (induction xs) (auto split: if_splits)

lemma handle_reply_queue:
  assumes "queue_ok w" "handle_reply c buf w = (w', evs, err)"
  shows "queue_ok w'"
proof (cases "w' = w")
  case False
  then obtain ent where ent: "ent \<in> set (w_queue w)" "e_cnx (w_ent w ent) = Some c"
    "w' = w\<lparr> w_queue := remove1 ent (w_queue w), w_ent := (w_ent w)(ent := (w_ent w ent)\<lparr> e_buffer := Some buf \<rparr>) \<rparr>"
    using assms(2) by (auto simp: handle_reply_def Let_def split: option.splits if_splits dest!: find_in_set)
  then show ?thesis using assms(1) by (auto simp: queue_ok_def)
qed (use assms(1) in simp)

lemma dispatch_result:
  assumes "giop_dispatch c buf w = (w', evs)"
  shows "\<exists>w1 e1 err. (w1 = w \<or> handle_reply c buf w = (w1, e1, err)) \<and> (w' = w1 \<or> (\<exists>e2. disconnect c w1 = (w', e2)))"
  using assms by (auto simp: giop_dispatch_def Let_def split: if_splits prod.splits)

lemma after_reading_result:
  assumes "after_reading c w (f, p) = (w', evs)"
  shows "\<exists>w0. w0 = update_cnx c (\<lambda>x. x\<lparr> c_frags := f, c_incoming := (case p of More buf \<Rightarrow> Some buf | _ \<Rightarrow> None) \<rparr>) w
    \<and> (w' = w0 \<or> disconnect c w0 = (w', evs) \<or> (\<exists>buf. giop_dispatch c buf w0 = (w', evs)))"
  using assms by (cases p) (auto simp: after_reading_def)

lemma after_reading_queue:
  assumes "queue_ok w" "after_reading c w (f, p) = (w', evs)"
  shows "queue_ok w'"
proof -
  have 0: "queue_ok (update_cnx c (\<lambda>x. x\<lparr> c_frags := f, c_incoming := i \<rparr>) w)" for i
    using assms(1) by (rule queue_ok_update) simp
  have "queue_ok w'" if "giop_dispatch c buf w0 = (w', evs)" "queue_ok w0" for buf w0
    using dispatch_result[OF that(1)] that(2) handle_reply_queue disconnect_queue by metis
  with after_reading_result[OF assms(2)] 0 disconnect_queue show ?thesis by metis
qed

definition all_reading :: "gworld \<Rightarrow> bool" where
  "all_reading w \<longleftrightarrow> (\<forall>c. cnx_ok (w_cnx w c))"

lemma disconnect_reading:
  assumes "all_reading w" "disconnect c w = (w', evs)"
  shows "all_reading w'"
  using assms by (auto simp: all_reading_def disconnect_def link_connection_state_changed_def
      giop_connection_real_state_changed_def cnx_ok_def dest!: zap_cnx)

lemma after_reading_reading:
  assumes "all_reading w" "after_reading c w (f, p) = (w', evs)" "\<And>buf. p = More buf \<Longrightarrow> reading buf"
  shows "all_reading w'"
proof -
  have reply: "all_reading w1" if "all_reading w0" "handle_reply c buf w0 = (w1, e1, err)" for buf w0 w1 e1 err
    using that by (auto simp: handle_reply_def Let_def all_reading_def split: option.splits if_splits)
  have "all_reading w'" if "giop_dispatch c buf w0 = (w', evs)" "all_reading w0" for buf w0
    using dispatch_result[OF that(1)] that(2) reply disconnect_reading by metis
  moreover have "all_reading (update_cnx c (\<lambda>x. x\<lparr> c_frags := f, c_incoming := (case p of More buf \<Rightarrow> Some buf | _ \<Rightarrow> None) \<rparr>) w)"
    using assms(1,3) by (cases p) (simp_all add: all_reading_def cnx_ok_def)
  ultimately show ?thesis using after_reading_result[OF assms(2)] disconnect_reading by metis
qed

lemma handle_input_shape:
  assumes "all_reading w" "[] \<notin> set segs" "giop_connection_handle_input M c w segs = Inr ((w', evs), rest)"
  shows "\<exists>f p. after_reading c w (f, p) = (w', evs) \<and> (\<forall>buf. p = More buf \<longrightarrow> reading buf)"
proof -
  have reads: "reading (incoming_buf M (w_cnx w c))" using assms(1) incoming_reading by (simp add: all_reading_def)
  from assms(3) obtain f p where fp:
    "read_loop M (c_auth (w_cnx w c)) (w_limit w) (c_frags (w_cnx w c)) (incoming_buf M (w_cnx w c)) segs = Inr ((f, p), rest)"
    "after_reading c w (f, p) = (w', evs)"
    by (auto simp: giop_connection_handle_input_def Let_def rbind_eq_Inr)
  have "reading buf" if "p = More buf" for buf
    using read_loop_eat[OF reads assms(2), of M "c_auth (w_cnx w c)" "w_limit w" "c_frags (w_cnx w c)"] eat_reading[OF reads] fp(1) that
    by (fastforce split: sum.splits)
  then show ?thesis using fp(2) by blast
qed

lemma step_keeps:
  assumes "giop_step M w w'" "queue_ok w \<and> all_reading w"
  shows "queue_ok w' \<and> all_reading w'"
  using assms
proof (induction rule: giop_step.induct)
  case (input w c segs w' evs rest)
  then obtain f p where "after_reading c w (f, p) = (w', evs)" "\<And>buf. p = More buf \<Longrightarrow> reading buf"
    using handle_input_shape by blast
  then show ?case using input.prems after_reading_queue after_reading_reading by blast
next
  case (hangup c w w' evs)
  then show ?case using after_reading_queue after_reading_reading
    unfolding giop_connection_hangup_def by (metis progress.distinct(5))
next
  case (status c st w w' evs)
  show ?case
  proof (cases "st = LINK_DISCONNECTED")
    case True
    then show ?thesis
      using status disconnect_queue disconnect_reading unfolding disconnect_def by blast
  next
    case False
    then have "w' = update_cnx c (\<lambda>x. x\<lparr> c_status := st \<rparr>) w"
      using status(1) by (simp add: link_connection_state_changed_def giop_connection_real_state_changed_def)
    then show ?thesis
      using status.prems False queue_ok_update(2)[where w = w and f = "\<lambda>x. x\<lparr> c_status := st \<rparr>" and c = c] by (simp add: all_reading_def cnx_ok_def)
  qed
next
  case (call ent w c t i)
  then show ?case by (auto simp: giop_recv_list_setup_queue_entry_def queue_ok_def all_reading_def)
next
  case (callback w ent)
  then show ?case by (auto simp: giop_recv_list_setup_queue_entry_async_def queue_ok_def all_reading_def)
next
  case (get ent w buf w')
  then show ?case
    by (auto simp: giop_recv_buffer_get_def giop_recv_list_destroy_queue_entry_def giop_recv_destroy_queue_entry_T_def
        queue_ok_def all_reading_def split: if_splits)
next
  case (frags w c)
  then show ?case
    using queue_ok_update(2)[where w = w and f = "\<lambda>x. x\<lparr> c_frags := [] \<rparr>" and c = c]
    by (simp add: giop_connection_destroy_frags_def all_reading_def cnx_ok_def)
next
  case (limit w n)
  then show ?case by (auto simp: giop_recv_set_limit_def queue_ok_def all_reading_def)
qed

text \<open>C33. No caller is forgotten: whatever happens in whatever order, a caller who would have to wait further is in the queue,
  exactly once, on a connection that is alive, so that a reply will find it and the end of the connection will wake it; and
  nobody in the queue has a reply yet.\<close>

theorem no_caller_is_forgotten:
  assumes "(giop_step M)\<^sup>*\<^sup>* idle_world w" "\<not> check_got w ent"
  shows "ent \<in> set (w_queue w) \<and> distinct (w_queue w) \<and> e_buffer (w_ent w ent) = None
    \<and> (\<exists>c. e_cnx (w_ent w ent) = Some c \<and> c_status (w_cnx w c) \<in> {LINK_CONNECTING, LINK_CONNECTED})"
proof -
  have "queue_ok idle_world \<and> all_reading idle_world"
    by (simp add: queue_ok_def all_reading_def cnx_ok_def idle_world_def giop_new_connection_def)
  with assms(1) have "queue_ok w \<and> all_reading w" by (induction rule: rtranclp_induct) (use step_keeps in blast)+
  then have q: "queue_ok w" by blast
  obtain c where c: "e_cnx (w_ent w ent) = Some c" "c_status (w_cnx w c) \<notin> {LINK_DISCONNECTED, LINK_TIMEOUT}"
    "e_buffer (w_ent w ent) = None"
    using assms(2) by (auto simp: check_got_def split: option.splits)
  then have "c_status (w_cnx w c) \<in> {LINK_CONNECTING, LINK_CONNECTED}" by (cases "c_status (w_cnx w c)") simp_all
  then show ?thesis using q c unfolding queue_ok_def by auto
qed

theorem no_caller_is_forgotten_witness:
  "2 \<in> set (w_queue one_caller) \<and> (\<exists>c. e_cnx (w_ent one_caller 2) = Some c \<and> c_status (w_cnx one_caller c) \<in> {LINK_CONNECTING, LINK_CONNECTED})"
proof -
  have "giop_step host_machine idle_world one_caller"
    unfolding one_caller_def by (rule call) (simp_all add: idle_world_def giop_new_connection_def)
  then have "(giop_step host_machine)\<^sup>*\<^sup>* idle_world one_caller" by simp
  moreover have "\<not> check_got one_caller 2"
    by (simp add: check_got_def one_caller_def giop_recv_list_setup_queue_entry_def idle_world_def giop_new_connection_def)
  ultimately show ?thesis using no_caller_is_forgotten by blast
qed

end
