(* ===== verification/Poa.thy ===== *)
theory Poa imports Giop_Recv "HOL-Library.AList" begin

text \<open>
  The object adaptor of \<^verbatim>\<open>poa.c\<close>: adaptors with their policies and tables of active objects, the objects,
  their servants and references, and every operation of the interface that works on them. Pointers are addresses
  into stores of objects, adaptors, servants and managers; an object that has been freed is not in its store any
  more, and to touch it is an \<open>Overrun\<close>. There is one thread, and the locks it takes are part of the state: a lock
  is not recursive, so that to take one that is held is a \<open>Hang\<close>. What is code of the application, a finalizer, a
  servant manager or a method, is a parameter: a function on the whole state, so that it may call the adaptor again.
\<close>

section \<open>Data\<close>

type_synonym objid = "byte list"
type_synonym servant = nat
type_synonym pobj = nat
type_synonym poa = nat
type_synonym manager = nat

datatype LifeF = NeedPostInvoke | DoEtherealize | IsCleanup | DeactivateDo | Deactivating | Deactivated
  | DestroyDo | Destroying | Destroyed

datatype ThreadPolicyValue = ORB_CTRL_MODEL | SINGLE_THREAD_MODEL
datatype LifespanPolicyValue = TRANSIENT | PERSISTENT
datatype IdUniquenessPolicyValue = UNIQUE_ID | MULTIPLE_ID
datatype IdAssignmentPolicyValue = USER_ID | SYSTEM_ID
datatype ImplicitActivationPolicyValue = IMPLICIT_ACTIVATION | NO_IMPLICIT_ACTIVATION
datatype ServantRetentionPolicyValue = RETAIN | NON_RETAIN
datatype RequestProcessingPolicyValue = USE_ACTIVE_OBJECT_MAP_ONLY | USE_DEFAULT_SERVANT | USE_SERVANT_MANAGER

datatype CORBA_Policy = THREAD_POLICY ThreadPolicyValue | LIFESPAN_POLICY LifespanPolicyValue
  | ID_UNIQUENESS_POLICY IdUniquenessPolicyValue | ID_ASSIGNMENT_POLICY IdAssignmentPolicyValue
  | IMPLICIT_ACTIVATION_POLICY ImplicitActivationPolicyValue | SERVANT_RETENTION_POLICY ServantRetentionPolicyValue
  | REQUEST_PROCESSING_POLICY RequestProcessingPolicyValue | OTHER_POLICY

record policies =
  p_thread :: ThreadPolicyValue
  p_lifespan :: LifespanPolicyValue
  p_id_uniqueness :: IdUniquenessPolicyValue
  p_id_assignment :: IdAssignmentPolicyValue
  p_implicit_activation :: ImplicitActivationPolicyValue
  p_servant_retention :: ServantRetentionPolicyValue
  p_request_processing :: RequestProcessingPolicyValue

datatype ThreadHint = HINT_NONE | HINT_PER_OBJECT | HINT_PER_REQUEST | HINT_PER_POA | HINT_PER_CONNECTION
  | HINT_ONEWAY_AT_IDLE | HINT_ALL_AT_IDLE | HINT_ON_CONTEXT

datatype poa_state = HOLDING | ACTIVE | DISCARDING | INACTIVE

text \<open>
  The exceptions of the interface and the system exceptions the adaptor raises.
\<close>

datatype poa_exn = InvalidPolicy | WrongPolicy | WrongAdapter | ServantAlreadyActive | ObjectAlreadyActive
  | ServantNotActive | ObjectNotActive | AdapterAlreadyExists | AdapterNonExistent | AdapterInactive | NoContext
  | EX_BAD_PARAM | EX_INV_OBJREF | EX_BAD_INV_ORDER | EX_OBJECT_NOT_EXIST | EX_TRANSIENT | EX_OBJ_ADAPTER
  | EX_NO_IMPLEMENT | EX_BAD_OPERATION

text \<open>
  \<^verbatim>\<open>struct MateCORBA_POAObject_type\<close>; \<open>po_objref\<close> is the reference that exists for the object, with its
  type id and how often it has been handed out.
\<close>

record pobject =
  po_refs :: nat
  po_poa :: poa
  po_oid :: objid
  po_servant :: "servant option"
  po_next :: "pobj option"
  po_use_cnt :: u16
  po_life :: "LifeF set"
  po_objref :: "(string \<times> nat) option"

text \<open>
  \<^verbatim>\<open>struct PortableServer_POA_type\<close> with the adaptor at its front. The table of objects is in the order of
  insertion; \<open>pa_sysid_hash\<close> tells which hash function it was made with.
\<close>

record adaptor =
  pa_key :: "byte list"
  pa_hint :: ThreadHint
  pa_life :: "LifeF set"
  pa_use_cnt :: u16
  pa_id :: nat
  pa_sysid :: u32
  pa_name :: string
  pa_parent :: "poa option"
  pa_manager :: manager
  pa_servant_manager :: "servant option"
  pa_default_servant :: "servant option"
  pa_sysid_hash :: bool
  pa_map :: "(objid \<times> pobj) list"
  pa_held :: "nat list"
  pa_children :: "(string \<times> poa) list"
  pa_policies :: policies

text \<open>A servant has its first object in \<^verbatim>\<open>_private\<close> and the class it was registered with.\<close>

record servant_rec =
  sv_private :: "pobj option"
  sv_class :: string

record poa_manager =
  pm_state :: poa_state
  pm_poas :: "poa list"

text \<open>The locks: \<^verbatim>\<open>poa->base.lock\<close> of each adaptor and \<^verbatim>\<open>_MateCORBA_poa_manager_lock\<close>.\<close>

datatype poa_lock = PoaLock poa | ManagerLock

text \<open>
  A request is known by the address of its receive buffer, which is in the store until the buffer is given back.
\<close>

record request =
  rq_id :: u32
  rq_key :: "byte list"
  rq_opname :: cblock

datatype poa_event = ExceptionReply u32 poa_exn | LocationForward u32 string | LocateReply u32 bool
  | Invoked servant cblock | Finalized servant

text \<open>
  The state of an ORB with its adaptors: \<^verbatim>\<open>orb->adaptors\<close>, \<^verbatim>\<open>orb->current_invocations\<close>, the requests
  that wait for the main loop to be idle and those in the queue of the main thread, \<^verbatim>\<open>orb->forw_binds\<close> with the type
  ids of its objects, the supply of addresses, the source of random bytes and what has been sent. \<open>pw_lock\<close> is the
  set of the locks that are held, or None when the ORB is not thread safe: then every lock is NULL, and there is no
  main thread to queue for.
\<close>

record poa_world =
  pw_host :: endian
  pw_pobjs :: "pobj \<rightharpoonup> pobject"
  pw_poas :: "poa \<rightharpoonup> adaptor"
  pw_servants :: "servant \<rightharpoonup> servant_rec"
  pw_managers :: "manager \<rightharpoonup> poa_manager"
  pw_adaptors :: "poa option list"
  pw_current :: "pobj list"
  pw_bufs :: "nat \<rightharpoonup> request"
  pw_idle :: "(pobj option \<times> nat option) list"
  pw_queue :: "(pobj \<times> nat) list"
  pw_forw :: "(byte list \<times> string option) list"
  pw_fresh :: nat
  pw_random :: "nat \<Rightarrow> byte list"
  pw_log :: "poa_event list"
  pw_lock :: "poa_lock set option"

text \<open>A call of the interface returns a value or an exception.\<close>

type_synonym 'a call = "((poa_exn + 'a) \<times> poa_world) res"

definition throw :: "poa_exn \<Rightarrow> poa_world \<Rightarrow> 'a call" where "throw x w = Inr (Inl x, w)"
definition return :: "'a \<Rightarrow> poa_world \<Rightarrow> 'a call" where "return v w = Inr (Inr v, w)"

text \<open>Following a pointer.\<close>

definition the_pobj :: "poa_world \<Rightarrow> pobj \<Rightarrow> pobject res" where
  "the_pobj w p = (case pw_pobjs w p of None \<Rightarrow> Inl Overrun | Some x \<Rightarrow> Inr x)"

definition the_poa :: "poa_world \<Rightarrow> poa \<Rightarrow> adaptor res" where
  "the_poa w p = (case pw_poas w p of None \<Rightarrow> Inl Overrun | Some x \<Rightarrow> Inr x)"

definition the_servant :: "poa_world \<Rightarrow> servant \<Rightarrow> servant_rec res" where
  "the_servant w p = (case pw_servants w p of None \<Rightarrow> Inl Overrun | Some x \<Rightarrow> Inr x)"

definition the_manager :: "poa_world \<Rightarrow> manager \<Rightarrow> poa_manager res" where
  "the_manager w p = (case pw_managers w p of None \<Rightarrow> Inl Overrun | Some x \<Rightarrow> Inr x)"

definition upd_pobj :: "pobj \<Rightarrow> (pobject \<Rightarrow> pobject) \<Rightarrow> poa_world \<Rightarrow> poa_world" where
  "upd_pobj p f w = w\<lparr> pw_pobjs := (pw_pobjs w)(p := map_option f (pw_pobjs w p)) \<rparr>"

definition upd_poa :: "poa \<Rightarrow> (adaptor \<Rightarrow> adaptor) \<Rightarrow> poa_world \<Rightarrow> poa_world" where
  "upd_poa p f w = w\<lparr> pw_poas := (pw_poas w)(p := map_option f (pw_poas w p)) \<rparr>"

definition upd_servant :: "servant \<Rightarrow> (servant_rec \<Rightarrow> servant_rec) \<Rightarrow> poa_world \<Rightarrow> poa_world" where
  "upd_servant p f w = w\<lparr> pw_servants := (pw_servants w)(p := map_option f (pw_servants w p)) \<rparr>"

definition upd_manager :: "manager \<Rightarrow> (poa_manager \<Rightarrow> poa_manager) \<Rightarrow> poa_world \<Rightarrow> poa_world" where
  "upd_manager p f w = w\<lparr> pw_managers := (pw_managers w)(p := map_option f (pw_managers w p)) \<rparr>"

section \<open>Locks\<close>

text \<open>
  \<^verbatim>\<open>LINK_MUTEX_LOCK\<close> and \<^verbatim>\<open>LINK_MUTEX_UNLOCK\<close>: a NULL lock is passed over. GLib ends a process that gives back a
  lock nobody holds.
\<close>

definition LINK_MUTEX_LOCK :: "poa_lock \<Rightarrow> poa_world \<Rightarrow> poa_world res" where
  "LINK_MUTEX_LOCK l w = (case pw_lock w of None \<Rightarrow> Inr w
   | Some H \<Rightarrow> if l \<in> H then Inl Hang else Inr (w\<lparr> pw_lock := Some (insert l H) \<rparr>))"

definition LINK_MUTEX_UNLOCK :: "poa_lock \<Rightarrow> poa_world \<Rightarrow> poa_world res" where
  "LINK_MUTEX_UNLOCK l w = (case pw_lock w of None \<Rightarrow> Inr w
   | Some H \<Rightarrow> if l \<in> H then Inr (w\<lparr> pw_lock := Some (H - {l}) \<rparr>) else Inl Abort)"

definition POA_LOCK :: "poa \<Rightarrow> poa_world \<Rightarrow> poa_world res" where
  "POA_LOCK p w = rbind (the_poa w p) (\<lambda>_. LINK_MUTEX_LOCK (PoaLock p) w)"

definition POA_UNLOCK :: "poa \<Rightarrow> poa_world \<Rightarrow> poa_world res" where
  "POA_UNLOCK p w = rbind (the_poa w p) (\<lambda>_. LINK_MUTEX_UNLOCK (PoaLock p) w)"

definition POA_MGR_LOCK :: "poa_world \<Rightarrow> poa_world res" where
  "POA_MGR_LOCK = LINK_MUTEX_LOCK ManagerLock"

definition POA_MGR_UNLOCK :: "poa_world \<Rightarrow> poa_world res" where
  "POA_MGR_UNLOCK = LINK_MUTEX_UNLOCK ManagerLock"

text \<open>
  How an operation of an adaptor begins and ends: the lock is taken, the policies are tested and the work is done. A
  test that fails returns from the middle of the function (\<^verbatim>\<open>poa_exception_if_fail\<close>), with the lock still held.
\<close>

definition locked_call :: "poa \<Rightarrow> (adaptor \<Rightarrow> poa_world \<Rightarrow> poa_exn option res) \<Rightarrow> (adaptor \<Rightarrow> poa_world \<Rightarrow> 'a call)
    \<Rightarrow> poa_world \<Rightarrow> 'a call" where
  "locked_call p test work w = rbind (POA_LOCK p w) (\<lambda>w. rbind (the_poa w p) (\<lambda>a. rbind (test a w) (\<lambda>e. case e of
     Some e \<Rightarrow> throw e w
   | None \<Rightarrow> rbind (work a w) (\<lambda>(r, w). rbind (POA_UNLOCK p w) (\<lambda>w. Inr (r, w))))))"

section \<open>The application\<close>

text \<open>
  A servant activator and a servant locator belong to a servant manager; a finalizer may be missing. \<open>ap_find\<close> is the class's table of operations: whether the
  operation is oneway and whether it is implemented. \<open>ap_method\<close> is the skeleton with the reading of arguments
  and the reply (\<^verbatim>\<open>MateCORBA_small_invoke_adaptor\<close>). \<open>ap_walk\<close> is not the application's but GLib's: the order in which it
  goes through a hash table.
\<close>

record app =
  ap_finalize :: "servant \<Rightarrow> (poa_world \<Rightarrow> poa_world res) option"
  ap_etherealize :: "servant \<Rightarrow> objid \<Rightarrow> poa \<Rightarrow> servant \<Rightarrow> bool \<Rightarrow> poa_world \<Rightarrow> poa_world res"
  ap_incarnate :: "servant \<Rightarrow> objid \<Rightarrow> poa \<Rightarrow> poa_world \<Rightarrow> ((poa_exn option \<times> servant option) \<times> poa_world) res"
  ap_preinvoke :: "servant \<Rightarrow> objid \<Rightarrow> poa \<Rightarrow> cblock \<Rightarrow> poa_world \<Rightarrow> ((poa_exn option \<times> servant option) \<times> poa_world) res"
  ap_postinvoke :: "servant \<Rightarrow> objid \<Rightarrow> poa \<Rightarrow> cblock \<Rightarrow> servant \<Rightarrow> poa_world \<Rightarrow> (poa_exn option \<times> poa_world) res"
  ap_find :: "string \<Rightarrow> cblock \<Rightarrow> (bool \<times> bool) option"
  ap_method :: "servant \<Rightarrow> cblock \<Rightarrow> nat option \<Rightarrow> poa_world \<Rightarrow> (poa_exn option \<times> poa_world) res"
  ap_walk :: "pobj list \<Rightarrow> pobj list"

section \<open>Policies\<close>

definition MateCORBA_POA_set_policy :: "CORBA_Policy \<Rightarrow> policies \<Rightarrow> policies" where
  "MateCORBA_POA_set_policy obj p = (case obj of
     THREAD_POLICY v \<Rightarrow> p\<lparr> p_thread := v \<rparr>
   | LIFESPAN_POLICY v \<Rightarrow> p\<lparr> p_lifespan := v \<rparr>
   | ID_UNIQUENESS_POLICY v \<Rightarrow> p\<lparr> p_id_uniqueness := v \<rparr>
   | ID_ASSIGNMENT_POLICY v \<Rightarrow> p\<lparr> p_id_assignment := v \<rparr>
   | IMPLICIT_ACTIVATION_POLICY v \<Rightarrow> p\<lparr> p_implicit_activation := v \<rparr>
   | SERVANT_RETENTION_POLICY v \<Rightarrow> p\<lparr> p_servant_retention := v \<rparr>
   | REQUEST_PROCESSING_POLICY v \<Rightarrow> p\<lparr> p_request_processing := v \<rparr>
   | OTHER_POLICY \<Rightarrow> p)"

definition default_policies :: policies where
  "default_policies = \<lparr> p_thread = SINGLE_THREAD_MODEL, p_lifespan = TRANSIENT, p_id_uniqueness = UNIQUE_ID,
     p_id_assignment = SYSTEM_ID, p_implicit_activation = NO_IMPLICIT_ACTIVATION, p_servant_retention = RETAIN,
     p_request_processing = USE_ACTIVE_OBJECT_MAP_ONLY \<rparr>"

definition MateCORBA_POA_set_policies :: "CORBA_Policy list \<Rightarrow> poa_exn + policies" where
  "MateCORBA_POA_set_policies ps = (let p = fold MateCORBA_POA_set_policy ps default_policies in
     if p_servant_retention p = NON_RETAIN \<and> p_request_processing p = USE_ACTIVE_OBJECT_MAP_ONLY then Inl InvalidPolicy
     else if p_request_processing p = USE_DEFAULT_SERVANT \<and> p_id_uniqueness p = UNIQUE_ID then Inl InvalidPolicy
     else if p_implicit_activation p = IMPLICIT_ACTIVATION
       \<and> (p_id_assignment p = USER_ID \<or> p_servant_retention p = NON_RETAIN) then Inl InvalidPolicy
     else Inr p)"

abbreviation IS_RETAIN :: "adaptor \<Rightarrow> bool" where "IS_RETAIN a \<equiv> p_servant_retention (pa_policies a) = RETAIN"
abbreviation IS_SYSTEM_ID :: "adaptor \<Rightarrow> bool" where "IS_SYSTEM_ID a \<equiv> p_id_assignment (pa_policies a) = SYSTEM_ID"
abbreviation IS_UNIQUE_ID :: "adaptor \<Rightarrow> bool" where "IS_UNIQUE_ID a \<equiv> p_id_uniqueness (pa_policies a) = UNIQUE_ID"
abbreviation IS_IMPLICIT_ACTIVATION :: "adaptor \<Rightarrow> bool" where
  "IS_IMPLICIT_ACTIVATION a \<equiv> p_implicit_activation (pa_policies a) = IMPLICIT_ACTIVATION"
abbreviation IS_USE_DEFAULT_SERVANT :: "adaptor \<Rightarrow> bool" where
  "IS_USE_DEFAULT_SERVANT a \<equiv> p_request_processing (pa_policies a) = USE_DEFAULT_SERVANT"

section \<open>Objects\<close>

definition MateCORBA_genuid_buffer :: "nat \<Rightarrow> poa_world \<Rightarrow> byte list \<times> poa_world" where
  "MateCORBA_genuid_buffer n w = (take n (pw_random w (pw_fresh w) @ replicate n 0), w\<lparr> pw_fresh := Suc (pw_fresh w) \<rparr>)"

definition MATECORBA_OBJECT_ID_LEN :: nat where "MATECORBA_OBJECT_ID_LEN = 4"

text \<open>A new id: a counter in the machine's byte order and four random octets.\<close>

definition MateCORBA_POA_new_system_objid_T :: "poa \<Rightarrow> poa_world \<Rightarrow> (objid \<times> poa_world) res" where
  "MateCORBA_POA_new_system_objid_T p w = rbind (the_poa w p) (\<lambda>a.
     if \<not> IS_SYSTEM_ID a then Inl Abort
     else let (r, w) = MateCORBA_genuid_buffer MATECORBA_OBJECT_ID_LEN w;
              w = upd_poa p (\<lambda>a. a\<lparr> pa_sysid := pa_sysid a + 1 \<rparr>) w
          in Inr (u32_bytes (pw_host w) (pa_sysid a + 1) @ r, w))"

text \<open>
  The object enters the table without anybody holding it yet: its count is 0. The hash function for ids of the
  system takes the first word of an id, however long that is.
\<close>

definition insert_object :: "poa \<Rightarrow> objid \<Rightarrow> poa_world \<Rightarrow> (pobj \<times> poa_world) res" where
  "insert_object p oid w = rbind (the_poa w p) (\<lambda>a. if pa_sysid_hash a \<and> length oid < 4 then Inl Overrun else
   let o' = pw_fresh w;
     x = \<lparr> po_refs = 0, po_poa = p, po_oid = oid, po_servant = None, po_next = None, po_use_cnt = 0,
           po_life = {}, po_objref = None \<rparr>;
     w = w\<lparr> pw_pobjs := (pw_pobjs w)(o' \<mapsto> x), pw_fresh := Suc o' \<rparr>
   in Inr (o', upd_poa p (\<lambda>a. a\<lparr> pa_map := AList.update oid o' (pa_map a) \<rparr>) w))"

definition MateCORBA_POA_create_object_T :: "poa \<Rightarrow> objid option \<Rightarrow> poa_world \<Rightarrow> (pobj \<times> poa_world) res" where
  "MateCORBA_POA_create_object_T p oid w = rbind (the_poa w p) (\<lambda>a.
     if IS_SYSTEM_ID a then (case oid of
         Some oid \<Rightarrow> if length oid \<noteq> 4 + MATECORBA_OBJECT_ID_LEN then Inl Abort else insert_object p oid w
       | None \<Rightarrow> rbind (MateCORBA_POA_new_system_objid_T p w) (\<lambda>(oid, w). insert_object p oid w))
     else (case oid of Some oid \<Rightarrow> insert_object p oid w | None \<Rightarrow> Inl Abort))"

text \<open>
  \<^verbatim>\<open>MateCORBA_POAObject_release_cb\<close>: who frees an object takes its id out of the table, unless the table is being
  gone through.
\<close>

definition MateCORBA_POAObject_release_cb :: "pobj \<Rightarrow> poa_world \<Rightarrow> poa_world res" where
  "MateCORBA_POAObject_release_cb p w = rbind (the_pobj w p) (\<lambda>x. rbind (the_poa w (po_poa x)) (\<lambda>a.
     if po_servant x \<noteq> None then Inl Abort
     else if Deactivating \<notin> pa_life a then
       (let w = upd_poa (po_poa x) (\<lambda>a. a\<lparr> pa_map := AList.delete (po_oid x) (pa_map a) \<rparr>) w
        in Inr (w\<lparr> pw_pobjs := (pw_pobjs w)(p := None) \<rparr>))
     else Inr (upd_pobj p (\<lambda>x. x\<lparr> po_life := {Destroyed} \<rparr>) w)))"

definition MATECORBA_REFCOUNT_MAX :: nat where "MATECORBA_REFCOUNT_MAX = 2 ^ 20"

definition pobj_duplicate :: "pobj \<Rightarrow> poa_world \<Rightarrow> poa_world" where
  "pobj_duplicate p w = upd_pobj p (\<lambda>x. x\<lparr> po_refs := Suc (po_refs x) \<rparr>) w"

definition pobj_release :: "pobj \<Rightarrow> poa_world \<Rightarrow> poa_world res" where
  "pobj_release p w = rbind (the_pobj w p) (\<lambda>x.
     if po_refs x = 0 \<or> po_refs x \<ge> MATECORBA_REFCOUNT_MAX then Inl Abort
     else let w = upd_pobj p (\<lambda>x. x\<lparr> po_refs := po_refs x - 1 \<rparr>) w
          in if po_refs x = 1 then MateCORBA_POAObject_release_cb p w else Inr w)"

definition pobj_release_opt :: "pobj option \<Rightarrow> poa_world \<Rightarrow> poa_world res" where
  "pobj_release_opt p w = (case p of None \<Rightarrow> Inr w | Some p \<Rightarrow> pobj_release p w)"

text \<open>
  \<^verbatim>\<open>MateCORBA_POA_object_id_lookup_T\<close>: the object comes with one more reference.\<close>

definition MateCORBA_POA_object_id_lookup_T :: "poa \<Rightarrow> objid \<Rightarrow> poa_world \<Rightarrow> (pobj option \<times> poa_world) res" where
  "MateCORBA_POA_object_id_lookup_T p oid w = rbind (the_poa w p) (\<lambda>a.
     if pa_sysid_hash a \<and> length oid < 4 then Inl Overrun
     else case map_of (pa_map a) oid of None \<Rightarrow> Inr (None, w)
       | Some q \<Rightarrow> rbind (the_pobj w q) (\<lambda>_. Inr (Some q, pobj_duplicate q w)))"

section \<open>Servants\<close>

text \<open>The objects of a servant are a list through \<^verbatim>\<open>next\<close>, the one activated last in front.\<close>

definition MateCORBA_POA_activate_object_T :: "poa \<Rightarrow> pobj \<Rightarrow> servant option \<Rightarrow> poa_world \<Rightarrow> poa_world res" where
  "MateCORBA_POA_activate_object_T p q servant w = rbind (the_pobj w q) (\<lambda>x. rbind (the_poa w p) (\<lambda>a.
     if po_servant x \<noteq> None \<or> DeactivateDo \<in> pa_life a \<or> po_use_cnt x \<noteq> 0 then Inl Abort
     else case servant of None \<Rightarrow> Inl Abort | Some s \<Rightarrow> rbind (the_servant w s) (\<lambda>sv.
       let w = upd_pobj q (\<lambda>x. x\<lparr> po_servant := Some s, po_next := sv_private sv \<rparr>) w;
           w = upd_servant s (\<lambda>sv. sv\<lparr> sv_private := Some q \<rparr>) w
       in Inr (pobj_duplicate q w))))"

text \<open>The loop that looks for the object in front of another; the list is not longer than there are addresses.\<close>

fun find_prev :: "nat \<Rightarrow> poa_world \<Rightarrow> pobj \<Rightarrow> pobj option \<Rightarrow> pobj res" where
  "find_prev n w q None = Inl Abort"
| "find_prev 0 w q (Some l) = Inl Abort"
| "find_prev (Suc n) w q (Some l) = rbind (the_pobj w l) (\<lambda>x.
     if po_next x = Some q then Inr l else find_prev n w q (po_next x))"

definition unlink_object :: "servant \<Rightarrow> pobj \<Rightarrow> poa_world \<Rightarrow> poa_world res" where
  "unlink_object s q w = rbind (the_servant w s) (\<lambda>sv. rbind (the_pobj w q) (\<lambda>x.
     rbind (if sv_private sv = Some q then Inr (upd_servant s (\<lambda>sv. sv\<lparr> sv_private := po_next x \<rparr>) w)
       else rbind (find_prev (pw_fresh w) w q (sv_private sv)) (\<lambda>l. Inr (upd_pobj l (\<lambda>y. y\<lparr> po_next := po_next x \<rparr>) w)))
     (\<lambda>w. Inr (upd_pobj q (\<lambda>x. x\<lparr> po_next := None \<rparr>) w))))"

text \<open>
  Etherealization: the servant activator and the finalizer are called while the count of uses keeps the object from
  being activated again; the lock is given back for the finalizer only.
\<close>

definition etherealize_object :: "app \<Rightarrow> poa \<Rightarrow> pobj \<Rightarrow> servant \<Rightarrow> poa_world \<Rightarrow> poa_world res" where
  "etherealize_object app p q s w = rbind (the_pobj w q) (\<lambda>x. rbind (the_poa w p) (\<lambda>a.
     let w = upd_pobj q (\<lambda>x. x\<lparr> po_use_cnt := po_use_cnt x + 1 \<rparr>) w in
     rbind (if p_request_processing (pa_policies a) = USE_SERVANT_MANAGER
         then (case pa_servant_manager a of None \<Rightarrow> Inl Abort
           | Some sm \<Rightarrow> ap_etherealize app sm (po_oid x) p s (IsCleanup \<in> po_life x) w)
         else Inr w) (\<lambda>w.
     rbind (case ap_finalize app s of None \<Rightarrow> Inr w
       | Some finalize \<Rightarrow> rbind (POA_UNLOCK p w) (\<lambda>w. rbind (finalize w) (POA_LOCK p))) (\<lambda>w. rbind (the_pobj w q) (\<lambda>_.
     Inr (upd_pobj q (\<lambda>x. x\<lparr> po_use_cnt := po_use_cnt x - 1 \<rparr>) w))))))"

definition MateCORBA_POA_deactivate_object_T :: "app \<Rightarrow> poa \<Rightarrow> pobj \<Rightarrow> bool \<Rightarrow> bool \<Rightarrow> poa_world \<Rightarrow> poa_world res" where
  "MateCORBA_POA_deactivate_object_T app p q do_etherealize is_cleanup w = rbind (the_pobj w q) (\<lambda>x.
     case po_servant x of None \<Rightarrow> Inr w
     | Some s \<Rightarrow>
       let life = po_life x \<union> (if do_etherealize \<and> DeactivateDo \<notin> po_life x then {DoEtherealize} else {})
             \<union> (if is_cleanup then {IsCleanup} else {})
       in if po_use_cnt x > 0
         then Inr (upd_pobj q (\<lambda>x. x\<lparr> po_life := life \<union> {DeactivateDo, NeedPostInvoke} \<rparr>) w)
         else
           let w = upd_pobj q (\<lambda>x. x\<lparr> po_life := life, po_servant := None \<rparr>) w in
           rbind (unlink_object s q w) (\<lambda>w.
           rbind (if DoEtherealize \<in> life then etherealize_object app p q s w else Inr w) (\<lambda>w.
           pobj_release q (upd_pobj q (\<lambda>x. x\<lparr> po_life := po_life x - {DeactivateDo, IsCleanup, DoEtherealize} \<rparr>) w))))"

section \<open>References\<close>

text \<open>
  \<^verbatim>\<open>MateCORBA_POA_obj_to_ref\<close>: the one reference of an object. It holds the object, and the object knows it
  without holding it. In the model a reference is the address of its object.
\<close>

definition MateCORBA_POA_obj_to_ref :: "pobj option \<Rightarrow> string option \<Rightarrow> poa_world \<Rightarrow> (pobj \<times> poa_world) res" where
  "MateCORBA_POA_obj_to_ref q intf w = (case q of None \<Rightarrow> Inl Abort
   | Some q \<Rightarrow> rbind (the_pobj w q) (\<lambda>x.
       if po_objref x \<noteq> None then Inl Abort
       else rbind (case intf of Some t \<Rightarrow> Inr t
           | None \<Rightarrow> (case po_servant x of None \<Rightarrow> Inl Abort
               | Some s \<Rightarrow> rbind (the_servant w s) (\<lambda>sv. Inr (sv_class sv)))) (\<lambda>type_id.
         Inr (q, pobj_duplicate q (upd_pobj q (\<lambda>x. x\<lparr> po_objref := Some (type_id, 1) \<rparr>) w)))))"

text \<open>Duplicating and releasing a reference; the last release lets go of the object (\<^verbatim>\<open>CORBA_Object_release_cb\<close>).\<close>

definition objref_duplicate :: "pobj \<Rightarrow> poa_world \<Rightarrow> poa_world" where
  "objref_duplicate q w = upd_pobj q (\<lambda>x. x\<lparr> po_objref := map_option (map_prod id Suc) (po_objref x) \<rparr>) w"

definition objref_release :: "pobj \<Rightarrow> poa_world \<Rightarrow> poa_world res" where
  "objref_release q w = rbind (the_pobj w q) (\<lambda>x. case po_objref x of None \<Rightarrow> Inl Overrun
     | Some (t, n) \<Rightarrow> if n = 0 \<or> n \<ge> MATECORBA_REFCOUNT_MAX then Inl Abort
         else if n = 1 then pobj_release q (upd_pobj q (\<lambda>x. x\<lparr> po_objref := None \<rparr>) w)
         else Inr (upd_pobj q (\<lambda>x. x\<lparr> po_objref := Some (t, n - 1) \<rparr>) w))"

definition objref_of :: "pobj \<Rightarrow> poa_world \<Rightarrow> (pobj \<times> poa_world) res" where
  "objref_of q w = rbind (the_pobj w q) (\<lambda>x.
     if po_objref x \<noteq> None then Inr (q, objref_duplicate q w) else MateCORBA_POA_obj_to_ref (Some q) None w)"

section \<open>The stack of invocations\<close>

text \<open>The object that is found is the one whose invocation began first.\<close>

fun MateCORBA_POA_invocation_stack_lookup_objid ::
  "poa_world \<Rightarrow> servant \<Rightarrow> pobj list \<Rightarrow> objid option \<Rightarrow> objid option res" where
  "MateCORBA_POA_invocation_stack_lookup_objid w s [] r = Inr r"
| "MateCORBA_POA_invocation_stack_lookup_objid w s (q # qs) r = rbind (the_pobj w q) (\<lambda>x.
     MateCORBA_POA_invocation_stack_lookup_objid w s qs (if po_servant x = Some s then Some (po_oid x) else r))"

fun MateCORBA_POA_invocation_stack_lookup_objref ::
  "servant \<Rightarrow> pobj list \<Rightarrow> pobj option \<Rightarrow> poa_world \<Rightarrow> (pobj option \<times> poa_world) res" where
  "MateCORBA_POA_invocation_stack_lookup_objref s [] r w = Inr (r, w)"
| "MateCORBA_POA_invocation_stack_lookup_objref s (q # qs) r w = rbind (the_pobj w q) (\<lambda>x.
     if po_servant x = Some s then rbind (MateCORBA_POA_obj_to_ref (Some q) None w)
         (\<lambda>(r, w). MateCORBA_POA_invocation_stack_lookup_objref s qs (Some r) w)
     else MateCORBA_POA_invocation_stack_lookup_objref s qs r w)"

definition PortableServer_Current_get_POA :: "poa_world \<Rightarrow> poa call" where
  "PortableServer_Current_get_POA w = (case pw_current w of [] \<Rightarrow> Inl Abort
     | q # _ \<Rightarrow> rbind (the_pobj w q) (\<lambda>x. return (po_poa x) w))"

definition PortableServer_Current_get_object_id :: "poa_world \<Rightarrow> objid call" where
  "PortableServer_Current_get_object_id w = (case pw_current w of [] \<Rightarrow> throw NoContext w
     | q # _ \<Rightarrow> rbind (the_pobj w q) (\<lambda>x. return (po_oid x) w))"

section \<open>Adaptors and managers\<close>

definition MATECORBA_ADAPTOR_KEY_LEN :: nat where "MATECORBA_ADAPTOR_KEY_LEN = 16"
definition MATECORBA_ADAPTOR_PREFIX_LEN :: nat where "MATECORBA_ADAPTOR_PREFIX_LEN = 4 + MATECORBA_ADAPTOR_KEY_LEN"

text \<open>\<^verbatim>\<open>MateCORBA_adaptor_setup\<close>: the adaptor's place in the list of the ORB and its key.\<close>

definition MateCORBA_adaptor_setup :: "poa \<Rightarrow> poa_world \<Rightarrow> (byte list \<times> nat) \<times> poa_world" where
  "MateCORBA_adaptor_setup p w = (let adaptor_id = length (pw_adaptors w);
     w = w\<lparr> pw_adaptors := pw_adaptors w @ [Some p] \<rparr>;
     (r, w) = MateCORBA_genuid_buffer MATECORBA_ADAPTOR_KEY_LEN w
   in ((u32_bytes (pw_host w) (of_nat adaptor_id) @ r, adaptor_id), w))"

definition MateCORBA_POAManager_new :: "poa_world \<Rightarrow> manager \<times> poa_world" where
  "MateCORBA_POAManager_new w = (pw_fresh w, w\<lparr> pw_managers := (pw_managers w)(pw_fresh w \<mapsto>
     \<lparr> pm_state = HOLDING, pm_poas = [] \<rparr>), pw_fresh := Suc (pw_fresh w) \<rparr>)"

definition MateCORBA_POAManager_register_poa :: "manager \<Rightarrow> poa \<Rightarrow> poa_world \<Rightarrow> poa_world res" where
  "MateCORBA_POAManager_register_poa mg p w = rbind (the_manager w mg) (\<lambda>m.
     if p \<in> set (pm_poas m) then Inl Abort
     else rbind (POA_MGR_LOCK w) (\<lambda>w. POA_MGR_UNLOCK (upd_manager mg (\<lambda>m. m\<lparr> pm_poas := pm_poas m @ [p] \<rparr>) w)))"

definition MateCORBA_POA_new :: "string \<Rightarrow> manager option \<Rightarrow> CORBA_Policy list \<Rightarrow> poa_world \<Rightarrow> poa call" where
  "MateCORBA_POA_new adaptor_name mg ps w = (case MateCORBA_POA_set_policies ps of Inl x \<Rightarrow> throw x w
   | Inr pol \<Rightarrow>
     let p = pw_fresh w; w = w\<lparr> pw_fresh := Suc p \<rparr>;
         (mg, w) = (case mg of Some mg \<Rightarrow> (mg, w) | None \<Rightarrow> MateCORBA_POAManager_new w);
         ((key, i), w) = MateCORBA_adaptor_setup p w;
         a = \<lparr> pa_key = key, pa_hint = HINT_NONE, pa_life = {}, pa_use_cnt = 0, pa_id = i, pa_sysid = 0,
               pa_name = adaptor_name, pa_parent = None, pa_manager = mg, pa_servant_manager = None,
               pa_default_servant = None, pa_sysid_hash = (p_id_assignment pol = SYSTEM_ID), pa_map = [], pa_held = [], pa_children = [], pa_policies = pol \<rparr>;
         w = w\<lparr> pw_poas := (pw_poas w)(p \<mapsto> a) \<rparr>
     in rbind (MateCORBA_POAManager_register_poa mg p w) (return p))"

text \<open>\<^verbatim>\<open>MateCORBA_POA_setup_root\<close>.\<close>

definition MateCORBA_POA_setup_root :: "poa_world \<Rightarrow> poa call" where
  "MateCORBA_POA_setup_root = MateCORBA_POA_new ''RootPOA'' None [IMPLICIT_ACTIVATION_POLICY IMPLICIT_ACTIVATION]"

definition MateCORBA_POA_add_child :: "poa \<Rightarrow> poa \<Rightarrow> string \<Rightarrow> poa_world \<Rightarrow> poa_world" where
  "MateCORBA_POA_add_child p child nm w = upd_poa p (\<lambda>a. a\<lparr> pa_children := AList.update nm child (pa_children a) \<rparr>)
     (upd_poa child (\<lambda>a. a\<lparr> pa_parent := Some p \<rparr>) w)"

definition PortableServer_POA_create_POA ::
  "poa option \<Rightarrow> string option \<Rightarrow> manager option \<Rightarrow> CORBA_Policy list option \<Rightarrow> poa_world \<Rightarrow> poa call" where
  "PortableServer_POA_create_POA p adaptor_name mg ps w = (case p of None \<Rightarrow> throw EX_INV_OBJREF w
   | Some p \<Rightarrow> (case (adaptor_name, ps) of (Some nm, Some ps) \<Rightarrow> rbind (the_poa w p) (\<lambda>a.
       if map_of (pa_children a) nm \<noteq> None then throw AdapterAlreadyExists w
       else rbind (MateCORBA_POA_new nm mg ps w) (\<lambda>(r, w). case r of Inl x \<Rightarrow> throw x w
         | Inr child \<Rightarrow> return child (MateCORBA_POA_add_child p child nm w)))
     | _ \<Rightarrow> throw EX_BAD_PARAM w))"

definition MateCORBA_POA_new_from :: "poa \<Rightarrow> string \<Rightarrow> CORBA_Policy list \<Rightarrow> poa_world \<Rightarrow> poa call" where
  "MateCORBA_POA_new_from p adaptor_name ps w = rbind (the_poa w p) (\<lambda>parent.
     rbind (MateCORBA_POA_new adaptor_name (Some (pa_manager parent)) [] w) (\<lambda>(r, w). case r of Inl x \<Rightarrow> throw x w
     | Inr child \<Rightarrow> return child (MateCORBA_POA_add_child p child adaptor_name (upd_poa child
         (\<lambda>a. a\<lparr> pa_policies := fold MateCORBA_POA_set_policy ps (pa_policies parent) \<rparr>) w))))"

definition PortableServer_POA_find_POA :: "poa option \<Rightarrow> string option \<Rightarrow> poa_world \<Rightarrow> poa call" where
  "PortableServer_POA_find_POA p adaptor_name w = (case p of None \<Rightarrow> throw EX_INV_OBJREF w
   | Some p \<Rightarrow> (case adaptor_name of None \<Rightarrow> throw EX_BAD_PARAM w
     | Some nm \<Rightarrow> rbind (the_poa w p) (\<lambda>a. case map_of (pa_children a) nm of
         None \<Rightarrow> throw AdapterNonExistent w | Some c \<Rightarrow> return c w)))"

definition PortableServer_POA__get_the_children :: "app \<Rightarrow> poa option \<Rightarrow> poa_world \<Rightarrow> poa list call" where
  "PortableServer_POA__get_the_children app p w = (case p of None \<Rightarrow> throw EX_INV_OBJREF w
   | Some p \<Rightarrow> rbind (the_poa w p) (\<lambda>a. return (ap_walk app (map snd (pa_children a))) w))"

definition PortableServer_POA__get_the_name :: "poa option \<Rightarrow> poa_world \<Rightarrow> string call" where
  "PortableServer_POA__get_the_name p w = (case p of None \<Rightarrow> throw EX_INV_OBJREF w
   | Some p \<Rightarrow> rbind (the_poa w p) (\<lambda>a. return (pa_name a) w))"

definition PortableServer_POA__get_the_parent :: "poa option \<Rightarrow> poa_world \<Rightarrow> poa option call" where
  "PortableServer_POA__get_the_parent p w = (case p of None \<Rightarrow> throw EX_INV_OBJREF w
   | Some p \<Rightarrow> rbind (the_poa w p) (\<lambda>a. return (pa_parent a) w))"

definition PortableServer_POA__get_the_POAManager :: "poa option \<Rightarrow> poa_world \<Rightarrow> manager call" where
  "PortableServer_POA__get_the_POAManager p w = (case p of None \<Rightarrow> throw EX_INV_OBJREF w
   | Some p \<Rightarrow> rbind (the_poa w p) (\<lambda>a. return (pa_manager a) w))"

definition PortableServer_POA_get_servant_manager :: "poa option \<Rightarrow> poa_world \<Rightarrow> servant option call" where
  "PortableServer_POA_get_servant_manager p w = (case p of None \<Rightarrow> throw EX_INV_OBJREF w
   | Some p \<Rightarrow> rbind (the_poa w p) (\<lambda>a. return (pa_servant_manager a) w))"

definition PortableServer_POA_get_servant :: "poa option \<Rightarrow> poa_world \<Rightarrow> servant option call" where
  "PortableServer_POA_get_servant p w = (case p of None \<Rightarrow> throw EX_INV_OBJREF w
   | Some p \<Rightarrow> rbind (the_poa w p) (\<lambda>a. return (pa_default_servant a) w))"

definition PortableServer_ServantBase__default_POA :: "servant option \<Rightarrow> poa_world \<Rightarrow> poa call" where
  "PortableServer_ServantBase__default_POA s w = (case s of None \<Rightarrow> throw EX_BAD_PARAM w
   | Some s \<Rightarrow> rbind (the_servant w s) (\<lambda>sv. case sv_private sv of None \<Rightarrow> throw EX_BAD_PARAM w
     | Some q \<Rightarrow> rbind (the_pobj w q) (\<lambda>x. return (po_poa x) w)))"

text \<open>
  Ids and strings. An id is turned into a string only if it has a zero in it, the test is the wrong way round; a
  wide string is written into the first half of an id whose second half nobody writes (\<open>junk\<close>).
\<close>

definition PortableServer_ObjectId_to_string :: "objid option \<Rightarrow> poa_exn + byte list" where
  "PortableServer_ObjectId_to_string oid = (case oid of None \<Rightarrow> Inl EX_BAD_PARAM
   | Some b \<Rightarrow> if 0 \<notin> set b then Inl EX_BAD_PARAM else Inr (b @ [0]))"

definition PortableServer_ObjectId_to_wstring :: "objid option \<Rightarrow> poa_exn + u32 list" where
  "PortableServer_ObjectId_to_wstring oid = (case oid of None \<Rightarrow> Inl EX_BAD_PARAM
   | Some b \<Rightarrow> if 0 \<notin> set b then Inl EX_BAD_PARAM else Inr (map ucast b @ [0]))"

definition PortableServer_string_to_ObjectId :: "byte list option \<Rightarrow> poa_exn + objid" where
  "PortableServer_string_to_ObjectId str = (case str of None \<Rightarrow> Inl EX_BAD_PARAM
   | Some s \<Rightarrow> Inr (takeWhile (\<lambda>b. b \<noteq> 0) s))"

definition PortableServer_wstring_to_ObjectId :: "byte list \<Rightarrow> u32 list option \<Rightarrow> poa_exn + objid" where
  "PortableServer_wstring_to_ObjectId junk str = (case str of None \<Rightarrow> Inl EX_BAD_PARAM
   | Some s \<Rightarrow> (let cs = takeWhile (\<lambda>c. c \<noteq> 0) s in Inr (map ucast cs @ take (length cs) junk)))"

definition PortableServer_POA_set_servant_manager :: "poa option \<Rightarrow> servant option \<Rightarrow> poa_world \<Rightarrow> unit call" where
  "PortableServer_POA_set_servant_manager p sm w = (case p of None \<Rightarrow> throw EX_INV_OBJREF w
   | Some p \<Rightarrow> if sm = None then throw EX_BAD_PARAM w else rbind (the_poa w p) (\<lambda>a.
       if pa_servant_manager a \<noteq> None then throw EX_BAD_INV_ORDER w
       else return () (upd_poa p (\<lambda>a. a\<lparr> pa_servant_manager := sm \<rparr>) w)))"

definition PortableServer_POA_set_servant :: "poa option \<Rightarrow> servant option \<Rightarrow> poa_world \<Rightarrow> unit call" where
  "PortableServer_POA_set_servant p s w = (case p of None \<Rightarrow> throw EX_INV_OBJREF w
   | Some p \<Rightarrow> if s = None then throw EX_BAD_PARAM w else rbind (the_poa w p) (\<lambda>a.
       return () (upd_poa p (\<lambda>a. a\<lparr> pa_default_servant := s \<rparr>) w)))"

section \<open>The interface\<close>

text \<open>
  The operations as they are called, with the tests of their arguments. A NULL servant or adaptor is followed before
  it is tested in the two operations that start from a servant.
\<close>

definition PortableServer_POA_activate_object :: "poa option \<Rightarrow> servant option \<Rightarrow> poa_world \<Rightarrow> objid call" where
  "PortableServer_POA_activate_object poa servant w = (case poa of None \<Rightarrow> throw EX_INV_OBJREF w
   | Some p \<Rightarrow> (case servant of None \<Rightarrow> throw EX_BAD_PARAM w
     | Some s \<Rightarrow> locked_call p
       (\<lambda>a w. if \<not> IS_RETAIN a then Inr (Some WrongPolicy)
         else if \<not> IS_SYSTEM_ID a then Inr (Some WrongPolicy)
         else rbind (the_servant w s) (\<lambda>sv.
           Inr (if IS_UNIQUE_ID a \<and> sv_private sv \<noteq> None then Some ServantAlreadyActive else None)))
       (\<lambda>a w. rbind (MateCORBA_POA_create_object_T p None w) (\<lambda>(q, w).
         rbind (MateCORBA_POA_activate_object_T p q (Some s) w) (\<lambda>w.
         rbind (the_pobj w q) (\<lambda>x. return (po_oid x) w)))) w))"

definition PortableServer_POA_activate_object_with_id ::
  "poa option \<Rightarrow> objid option \<Rightarrow> servant option \<Rightarrow> poa_world \<Rightarrow> unit call" where
  "PortableServer_POA_activate_object_with_id poa objid servant w = (case poa of None \<Rightarrow> throw EX_INV_OBJREF w
   | Some p \<Rightarrow> (case objid of None \<Rightarrow> throw EX_BAD_PARAM w
   | Some oid \<Rightarrow> (case servant of None \<Rightarrow> throw EX_BAD_PARAM w
   | Some s \<Rightarrow> locked_call p (\<lambda>a w. Inr (if IS_RETAIN a then None else Some WrongPolicy))
     (\<lambda>a w. rbind (MateCORBA_POA_object_id_lookup_T p oid w) (\<lambda>(q, w).
       rbind (case q of None \<Rightarrow> Inr None | Some q \<Rightarrow> rbind (the_pobj w q) (\<lambda>x. Inr (po_servant x))) (\<lambda>active.
       rbind (if active \<noteq> None then throw ObjectAlreadyActive w else rbind (the_servant w s) (\<lambda>sv.
         if IS_UNIQUE_ID a \<and> sv_private sv \<noteq> None then throw ServantAlreadyActive w
         else rbind (case q of None \<Rightarrow> MateCORBA_POA_create_object_T p (Some oid) w | Some q \<Rightarrow> Inr (q, w))
           (\<lambda>(newobj, w). rbind (MateCORBA_POA_activate_object_T p newobj (Some s) w) (return ()))))
       (\<lambda>(r, w). rbind (pobj_release_opt q w) (\<lambda>w. Inr (r, w)))))) w)))"

text \<open>After \<open>POA_UNLOCK\<close> the object that was looked up is let go.\<close>

definition PortableServer_POA_deactivate_object :: "app \<Rightarrow> poa option \<Rightarrow> objid option \<Rightarrow> poa_world \<Rightarrow> unit call" where
  "PortableServer_POA_deactivate_object app poa objid w = (case poa of None \<Rightarrow> throw EX_INV_OBJREF w
   | Some p \<Rightarrow> (case objid of None \<Rightarrow> throw EX_BAD_PARAM w
   | Some oid \<Rightarrow> rbind (locked_call p (\<lambda>a w. Inr (if IS_RETAIN a then None else Some WrongPolicy))
       (\<lambda>a w. rbind (MateCORBA_POA_object_id_lookup_T p oid w) (\<lambda>(q, w).
         rbind (case q of None \<Rightarrow> Inr w | Some q \<Rightarrow> MateCORBA_POA_deactivate_object_T app p q True False w) (return q))) w)
     (\<lambda>(r, w). case r of Inl e \<Rightarrow> throw e w | Inr q \<Rightarrow> rbind (pobj_release_opt q w) (return ()))))"

definition PortableServer_POA_create_reference :: "poa option \<Rightarrow> string option \<Rightarrow> poa_world \<Rightarrow> pobj call" where
  "PortableServer_POA_create_reference poa intf w = (case poa of None \<Rightarrow> throw EX_INV_OBJREF w
   | Some p \<Rightarrow> locked_call p (\<lambda>a w. Inr (if IS_SYSTEM_ID a then None else Some WrongPolicy))
     (\<lambda>a w. rbind (MateCORBA_POA_create_object_T p None w) (\<lambda>(q, w).
       rbind (MateCORBA_POA_obj_to_ref (Some q) intf w) (\<lambda>(r, w). return r w))) w)"

definition PortableServer_POA_create_reference_with_id ::
  "poa option \<Rightarrow> objid option \<Rightarrow> string option \<Rightarrow> poa_world \<Rightarrow> pobj call" where
  "PortableServer_POA_create_reference_with_id poa objid intf w = (case poa of None \<Rightarrow> throw EX_INV_OBJREF w
   | Some p \<Rightarrow> (case objid of None \<Rightarrow> throw EX_BAD_PARAM w
   | Some oid \<Rightarrow> locked_call p (\<lambda>a w. Inr None)
     (\<lambda>a w. rbind (MateCORBA_POA_object_id_lookup_T p oid w) (\<lambda>(q, w).
       rbind (case q of None \<Rightarrow> rbind (MateCORBA_POA_create_object_T p (Some oid) w) (\<lambda>(n, w). Inr (Some n, w))
         | Some q \<Rightarrow> Inr (None, w)) (\<lambda>(newobj, w).
       rbind (MateCORBA_POA_obj_to_ref q intf w) (\<lambda>(r, w).
       rbind (if newobj = None then pobj_release_opt q w else Inr w) (return r))))) w))"

definition PortableServer_POA_servant_to_id :: "poa option \<Rightarrow> servant option \<Rightarrow> poa_world \<Rightarrow> objid call" where
  "PortableServer_POA_servant_to_id poa servant w = (case (servant, poa) of (Some s, Some p) \<Rightarrow>
     rbind (the_servant w s) (\<lambda>sv. rbind (the_poa w p) (\<lambda>a.
     let q = sv_private sv; retain = IS_RETAIN a; implicit = IS_IMPLICIT_ACTIVATION a; unique = IS_UNIQUE_ID a in
     locked_call p (\<lambda>_ w. Inr (if IS_USE_DEFAULT_SERVANT a \<or> (retain \<and> (unique \<or> implicit)) then None else Some WrongPolicy))
     (\<lambda>_ w. rbind (case q of None \<Rightarrow> Inr None | Some q \<Rightarrow> if retain \<and> unique
           then rbind (the_pobj w q) (\<lambda>x. Inr (if po_servant x = Some s then Some (po_oid x) else None)) else Inr None)
       (\<lambda>r. case r of Some oid \<Rightarrow> return oid w
       | None \<Rightarrow> if retain \<and> implicit \<and> (\<not> unique \<or> q = None)
           then rbind (MateCORBA_POA_create_object_T p None w) (\<lambda>(q, w).
             rbind (MateCORBA_POA_activate_object_T p q (Some s) w) (\<lambda>w.
             rbind (the_pobj w q) (\<lambda>x. return (po_oid x) w)))
           else rbind (MateCORBA_POA_invocation_stack_lookup_objid w s (pw_current w) None)
             (\<lambda>r. case r of None \<Rightarrow> throw ServantNotActive w | Some oid \<Rightarrow> return oid w))) w))
   | _ \<Rightarrow> Inl Abort)"

definition PortableServer_POA_servant_to_reference :: "poa option \<Rightarrow> servant option \<Rightarrow> poa_world \<Rightarrow> pobj call" where
  "PortableServer_POA_servant_to_reference poa servant w = (case (servant, poa) of (Some s, Some p) \<Rightarrow>
     rbind (the_servant w s) (\<lambda>sv. rbind (the_poa w p) (\<lambda>a.
     let q = sv_private sv; retain = IS_RETAIN a; implicit = IS_IMPLICIT_ACTIVATION a; unique = IS_UNIQUE_ID a in
     locked_call p (\<lambda>_ w. Inr (if retain \<and> (unique \<or> implicit) then None else Some WrongPolicy))
     (\<lambda>_ w. if unique \<and> q \<noteq> None then rbind (objref_of (the q) w) (\<lambda>(r, w). return r w)
       else if implicit \<and> (\<not> unique \<or> q = None)
         then rbind (MateCORBA_POA_create_object_T p None w) (\<lambda>(q, w).
           rbind (MateCORBA_POA_activate_object_T p q (Some s) w) (\<lambda>w.
           rbind (MateCORBA_POA_obj_to_ref (Some q) None w) (\<lambda>(r, w). return r w)))
       else rbind (MateCORBA_POA_invocation_stack_lookup_objref s (pw_current w) None w)
         (\<lambda>(r, w). case r of None \<Rightarrow> throw ServantNotActive w | Some r \<Rightarrow> return r w)) w))
   | _ \<Rightarrow> Inl Abort)"

text \<open>
  A reference is nil, or has an object of this process, or not (\<^verbatim>\<open>adaptor_obj\<close>). These two operations take no lock.
\<close>

definition PortableServer_POA_reference_to_servant ::
  "poa option \<Rightarrow> pobj option option \<Rightarrow> poa_world \<Rightarrow> servant call" where
  "PortableServer_POA_reference_to_servant poa ref w = (case poa of None \<Rightarrow> throw EX_INV_OBJREF w
   | Some p \<Rightarrow> (case ref of None \<Rightarrow> throw EX_BAD_PARAM w
   | Some q \<Rightarrow> rbind (the_poa w p) (\<lambda>a.
       if \<not> (IS_USE_DEFAULT_SERVANT a \<or> IS_RETAIN a) then throw WrongPolicy w
       else if IS_RETAIN a then (case q of None \<Rightarrow> throw WrongAdapter w
         | Some q \<Rightarrow> rbind (the_pobj w q) (\<lambda>x. case po_servant x of Some s \<Rightarrow> return s w | None \<Rightarrow> throw ObjectNotActive w))
       else (case pa_default_servant a of Some s \<Rightarrow> return s w | None \<Rightarrow> throw ObjectNotActive w))))"

definition PortableServer_POA_reference_to_id :: "poa option \<Rightarrow> pobj option option \<Rightarrow> poa_world \<Rightarrow> objid call" where
  "PortableServer_POA_reference_to_id poa ref w = (case poa of None \<Rightarrow> throw EX_INV_OBJREF w
   | Some p \<Rightarrow> (case ref of None \<Rightarrow> throw EX_BAD_PARAM w
   | Some None \<Rightarrow> throw WrongAdapter w
   | Some (Some q) \<Rightarrow> rbind (the_pobj w q) (\<lambda>x. return (po_oid x) w)))"

text \<open>The servant is looked for, and NULL returned.\<close>

definition PortableServer_POA_id_to_servant :: "poa option \<Rightarrow> objid option \<Rightarrow> poa_world \<Rightarrow> servant option call" where
  "PortableServer_POA_id_to_servant poa objid w = (case poa of None \<Rightarrow> throw EX_INV_OBJREF w
   | Some p \<Rightarrow> (case objid of None \<Rightarrow> throw EX_BAD_PARAM w
   | Some oid \<Rightarrow> locked_call p (\<lambda>a w. Inr (if IS_USE_DEFAULT_SERVANT a \<or> IS_RETAIN a then None else Some WrongPolicy))
     (\<lambda>a w. rbind (if IS_RETAIN a then rbind (MateCORBA_POA_object_id_lookup_T p oid w) (\<lambda>(q, w).
           rbind (case q of None \<Rightarrow> Inr None | Some q \<Rightarrow> rbind (the_pobj w q) (\<lambda>x. Inr (po_servant x))) (\<lambda>s.
           rbind (pobj_release_opt q w) (\<lambda>w. Inr (s, w))))
         else Inr (pa_default_servant a, w)) (\<lambda>(s, w).
       case s of None \<Rightarrow> throw ObjectNotActive w | Some s \<Rightarrow> return None w)) w))"

definition PortableServer_POA_id_to_reference :: "poa option \<Rightarrow> objid option \<Rightarrow> poa_world \<Rightarrow> pobj call" where
  "PortableServer_POA_id_to_reference poa objid w = (case poa of None \<Rightarrow> throw EX_INV_OBJREF w
   | Some p \<Rightarrow> (case objid of None \<Rightarrow> throw EX_BAD_PARAM w
   | Some oid \<Rightarrow> rbind (locked_call p (\<lambda>a w. Inr (if IS_RETAIN a then None else Some WrongPolicy))
       (\<lambda>a w. rbind (MateCORBA_POA_object_id_lookup_T p oid w) (\<lambda>(q, w).
         rbind (case q of None \<Rightarrow> throw ObjectNotActive w
           | Some q \<Rightarrow> rbind (the_pobj w q) (\<lambda>x. if po_servant x = None then throw ObjectNotActive w
               else rbind (objref_of q w) (\<lambda>(r, w). return r w))) (\<lambda>(r, w). return (r, q) w))) w)
     (\<lambda>(z, w). case z of Inl e \<Rightarrow> throw e w | Inr (r, q) \<Rightarrow> rbind (pobj_release_opt q w) (\<lambda>w. Inr (r, w)))))"

end
