(* ===== verification/Poa_Request.thy ===== *)
theory Poa_Request imports Poa begin

text \<open>
  Requests: an object's key, the adaptor and the object it names, the states of the adaptor's manager, the servant
  for an object that has none, the invocation and what follows it, and the replies with exceptions.
\<close>

section \<open>Keys\<close>

definition MateCORBA_POAObject_object_to_objkey :: "poa_world \<Rightarrow> pobj \<Rightarrow> byte list res" where
  "MateCORBA_POAObject_object_to_objkey w q = rbind (the_pobj w q) (\<lambda>x. rbind (the_poa w (po_poa x)) (\<lambda>a.
     Inr (pa_key a @ po_oid x)))"

text \<open>The number in front of a key is the machine's own, and signed.\<close>

definition adaptor_number :: "poa_world \<Rightarrow> byte list \<Rightarrow> u32" where
  "adaptor_number w key = mem_word (pw_host w) (take 4 key)"

definition MateCORBA_adaptor_find :: "poa_world \<Rightarrow> byte list \<Rightarrow> poa option res" where
  "MateCORBA_adaptor_find w key = (if length key < MATECORBA_ADAPTOR_PREFIX_LEN then Inr None
   else let i = sint (adaptor_number w key) in
     if i < 0 \<or> nat i \<ge> length (pw_adaptors w) then Inr None
     else (case pw_adaptors w ! nat i of None \<Rightarrow> Inr None
       | Some p \<Rightarrow> rbind (the_poa w p) (\<lambda>a.
           Inr (if take MATECORBA_ADAPTOR_PREFIX_LEN key = take MATECORBA_ADAPTOR_PREFIX_LEN (pa_key a) then Some p else None))))"

definition MateCORBA_POA_object_key_lookup_T :: "poa \<Rightarrow> byte list \<Rightarrow> poa_world \<Rightarrow> (pobj option \<times> poa_world) res" where
  "MateCORBA_POA_object_key_lookup_T p key w = MateCORBA_POA_object_id_lookup_T p (drop MATECORBA_ADAPTOR_PREFIX_LEN key) w"

section \<open>Buffers and replies\<close>

definition the_buf :: "poa_world \<Rightarrow> nat \<Rightarrow> request res" where
  "the_buf w b = (case pw_bufs w b of None \<Rightarrow> Inl Overrun | Some r \<Rightarrow> Inr r)"

definition recv_unuse :: "nat option \<Rightarrow> poa_world \<Rightarrow> poa_world res" where
  "recv_unuse b w = (case b of None \<Rightarrow> Inr w
   | Some b \<Rightarrow> rbind (the_buf w b) (\<lambda>_. Inr (w\<lparr> pw_bufs := (pw_bufs w)(b := None) \<rparr>)))"

definition write_log :: "poa_event \<Rightarrow> poa_world \<Rightarrow> poa_world" where
  "write_log e w = w\<lparr> pw_log := pw_log w @ [e] \<rparr>"

definition is_system :: "poa_exn \<Rightarrow> bool" where
  "is_system e \<longleftrightarrow> e \<in> {EX_BAD_PARAM, EX_INV_OBJREF, EX_BAD_INV_ORDER, EX_OBJECT_NOT_EXIST, EX_TRANSIENT, EX_OBJ_ADAPTER,
     EX_NO_IMPLEMENT, EX_BAD_OPERATION}"

definition MateCORBA_recv_buffer_return_sys_exception :: "nat option \<Rightarrow> poa_exn \<Rightarrow> poa_world \<Rightarrow> poa_world res" where
  "MateCORBA_recv_buffer_return_sys_exception b e w = (case b of None \<Rightarrow> Inr w
   | Some b \<Rightarrow> if \<not> is_system e then Inr w
       else rbind (the_buf w b) (\<lambda>r. Inr (write_log (ExceptionReply (rq_id r) e) w)))"

definition return_exception :: "nat option \<Rightarrow> bool \<Rightarrow> poa_exn \<Rightarrow> poa_world \<Rightarrow> poa_world res" where
  "return_exception b oneway e w = (if b = None \<or> \<not> is_system e \<or> oneway then Inr w
     else MateCORBA_recv_buffer_return_sys_exception b e w)"

section \<open>Servant managers\<close>

text \<open>The servant is put in front of its list, and holds the object, in the same way in both cases.\<close>

definition MateCORBA_POA_ServantManager_use_servant ::
  "app \<Rightarrow> poa \<Rightarrow> pobj \<Rightarrow> cblock \<Rightarrow> poa_world \<Rightarrow> (poa_exn option \<times> poa_world) res" where
  "MateCORBA_POA_ServantManager_use_servant app p q opname w = rbind (the_poa w p) (\<lambda>a. rbind (the_pobj w q) (\<lambda>x.
     case pa_servant_manager a of None \<Rightarrow> Inl Abort
     | Some sm \<Rightarrow> rbind (if IS_RETAIN a then ap_incarnate app sm (po_oid x) p w else ap_preinvoke app sm (po_oid x) p opname w)
       (\<lambda>((ev, r), w). case r of None \<Rightarrow> Inr (ev, w)
         | Some s \<Rightarrow> rbind (the_servant w s) (\<lambda>sv.
             if IS_UNIQUE_ID a \<and> sv_private sv \<noteq> None then Inr (Some EX_OBJ_ADAPTER, w)
             else rbind (the_pobj w q) (\<lambda>_.
               let w = upd_pobj q (\<lambda>x. x\<lparr> po_next := sv_private sv \<rparr>) w;
                   w = upd_servant s (\<lambda>sv. sv\<lparr> sv_private := Some q \<rparr>) w;
                   w = pobj_duplicate q w
               in Inr (ev, upd_pobj q (\<lambda>x. x\<lparr> po_servant := Some s \<rparr>) w))))))"

definition MateCORBA_POA_ServantManager_unuse_servant ::
  "app \<Rightarrow> poa \<Rightarrow> pobj \<Rightarrow> cblock \<Rightarrow> servant option \<Rightarrow> poa_world \<Rightarrow> (poa_exn option \<times> poa_world) res" where
  "MateCORBA_POA_ServantManager_unuse_servant app p q opname serv w = rbind (the_poa w p) (\<lambda>a. rbind (the_pobj w q) (\<lambda>x.
     if IS_RETAIN a then Inl Abort
     else (case (pa_servant_manager a, serv) of (Some sm, Some s) \<Rightarrow>
         let oid = po_oid x; w = upd_pobj q (\<lambda>x. x\<lparr> po_servant := None \<rparr>) w in
         rbind (unlink_object s q w) (\<lambda>w. rbind (pobj_release q w) (\<lambda>w. ap_postinvoke app sm oid p opname s w))
       | _ \<Rightarrow> Inl Abort)))"

section \<open>Handling a request\<close>

definition MateCORBA_POAObject_post_invoke :: "app \<Rightarrow> pobj \<Rightarrow> poa_world \<Rightarrow> poa_world res" where
  "MateCORBA_POAObject_post_invoke app q w = rbind (the_pobj w q) (\<lambda>x.
     if po_use_cnt x > 0 then Inr w
     else if DeactivateDo \<in> po_life x then MateCORBA_POA_deactivate_object_T app (po_poa x) q False False w
     else Inr w)"

text \<open>The servant is the object's own, the default servant, or the one the servant manager finds.\<close>

definition find_servant :: "app \<Rightarrow> poa \<Rightarrow> pobj \<Rightarrow> cblock \<Rightarrow> poa_world \<Rightarrow> (poa_exn option \<times> poa_world) res" where
  "find_servant app p q opname w = rbind (the_poa w p) (\<lambda>a. rbind (the_pobj w q) (\<lambda>x.
     rbind (if po_servant x \<noteq> None then Inr (None, w) else case p_request_processing (pa_policies a) of
         USE_ACTIVE_OBJECT_MAP_ONLY \<Rightarrow> Inr (Some EX_OBJECT_NOT_EXIST, w)
       | USE_DEFAULT_SERVANT \<Rightarrow> rbind (MateCORBA_POA_activate_object_T p q (pa_default_servant a) w) (\<lambda>w. Inr (None, w))
       | USE_SERVANT_MANAGER \<Rightarrow> MateCORBA_POA_ServantManager_use_servant app p q opname w) (\<lambda>(ev, w).
     rbind (the_pobj w q) (\<lambda>x. Inr (if ev = None \<and> po_servant x = None then Some EX_OBJECT_NOT_EXIST else ev, w)))))"

definition invocation_stack_push :: "pobj \<Rightarrow> poa_world \<Rightarrow> poa_world" where
  "invocation_stack_push q w = w\<lparr> pw_current := q # pw_current w \<rparr>"

definition invocation_stack_pop :: "pobj \<Rightarrow> poa_world \<Rightarrow> poa_world" where
  "invocation_stack_pop q w = w\<lparr> pw_current := remove1 q (pw_current w) \<rparr>"

text \<open>
  The method, or an exception when there is none; oneway operations are not told. The adaptor is not locked while the
  method runs.
\<close>

definition call_method :: "app \<Rightarrow> poa \<Rightarrow> servant \<Rightarrow> cblock \<Rightarrow> nat option \<Rightarrow> poa_world \<Rightarrow> (poa_exn option \<times> poa_world) res" where
  "call_method app p s opname rb w = rbind (the_servant w s) (\<lambda>sv. case ap_find app (sv_class sv) opname of
     None \<Rightarrow> rbind (return_exception rb False EX_BAD_OPERATION w) (\<lambda>w. Inr (Some EX_BAD_OPERATION, w))
   | Some (oneway, False) \<Rightarrow> rbind (return_exception rb oneway EX_NO_IMPLEMENT w) (\<lambda>w. Inr (Some EX_NO_IMPLEMENT, w))
   | Some (oneway, True) \<Rightarrow> rbind (POA_UNLOCK p w) (\<lambda>w. rbind (ap_method app s opname rb w) (\<lambda>(ev, w).
       rbind (POA_LOCK p w) (\<lambda>w. Inr (ev, w)))))"

text \<open>What follows the method. The exception has been sent to a remote caller and is cleared.\<close>

definition after_method ::
  "app \<Rightarrow> poa \<Rightarrow> pobj \<Rightarrow> cblock \<Rightarrow> poa_exn option \<Rightarrow> poa_world \<Rightarrow> (poa_exn option \<times> poa_world) res" where
  "after_method app p q opname ev w = rbind (the_poa w p) (\<lambda>a. rbind (the_pobj w q) (\<lambda>x.
     rbind (if IS_RETAIN a then Inr (ev, w) else case p_request_processing (pa_policies a) of
         USE_SERVANT_MANAGER \<Rightarrow> rbind (MateCORBA_POA_ServantManager_unuse_servant app p q opname (po_servant x) w)
           (\<lambda>(ev', w). Inr (if ev' = None then ev else ev', w))
       | USE_DEFAULT_SERVANT \<Rightarrow> rbind (MateCORBA_POA_deactivate_object_T app p q False False w) (\<lambda>w. Inr (ev, w))
       | USE_ACTIVE_OBJECT_MAP_ONLY \<Rightarrow> Inl Abort) (\<lambda>(ev, w).
     let w = invocation_stack_pop q w in rbind (the_pobj w q) (\<lambda>x.
     let w = upd_pobj q (\<lambda>x. x\<lparr> po_use_cnt := po_use_cnt x - 1 \<rparr>) w in
     rbind (if NeedPostInvoke \<in> po_life x then MateCORBA_POAObject_post_invoke app q w else Inr w) (\<lambda>w. Inr (ev, w))))))"

definition refuse_request :: "nat option \<Rightarrow> poa_exn \<Rightarrow> poa_world \<Rightarrow> (poa_exn option \<times> poa_world) res" where
  "refuse_request rb e w = rbind (return_exception rb False e w) (\<lambda>w. Inr (Some e, w))"

definition MateCORBA_POAObject_handle_request ::
  "app \<Rightarrow> pobj \<Rightarrow> cblock \<Rightarrow> nat option \<Rightarrow> poa_world \<Rightarrow> (poa_exn option \<times> poa_world) res" where
  "MateCORBA_POAObject_handle_request app q opname rb w = rbind (the_pobj w q) (\<lambda>x. let p = po_poa x in
     rbind (POA_LOCK p w) (\<lambda>w. rbind (the_poa w p) (\<lambda>a. rbind (the_manager w (pa_manager a)) (\<lambda>m.
     rbind (case pm_state m of
       HOLDING \<Rightarrow> (case rb of Some b \<Rightarrow> Inr (None, upd_poa p (\<lambda>a. a\<lparr> pa_held := b # pa_held a \<rparr>) w)
         | None \<Rightarrow> refuse_request rb EX_TRANSIENT w)
     | DISCARDING \<Rightarrow> refuse_request rb EX_TRANSIENT w
     | INACTIVE \<Rightarrow> refuse_request rb EX_OBJ_ADAPTER w
     | ACTIVE \<Rightarrow> rbind (find_servant app p q opname w) (\<lambda>(ev, w). case ev of Some e \<Rightarrow> refuse_request rb e w
         | None \<Rightarrow> rbind (the_pobj w q) (\<lambda>x. case po_servant x of None \<Rightarrow> Inl Abort | Some s \<Rightarrow>
             let w = invocation_stack_push q (upd_pobj q (\<lambda>x. x\<lparr> po_use_cnt := po_use_cnt x + 1 \<rparr>) w) in
             rbind (call_method app p s opname rb w) (\<lambda>(ev, w).
             after_method app p q opname (if rb = None then ev else None) w))))
     (\<lambda>(ev, w). rbind (POA_UNLOCK p w) (\<lambda>w. Inr (ev, w)))))))"

text \<open>
  The end of every request that came from outside: the object is let go, an exception that is still there is sent,
  and the buffer is given back.
\<close>

definition MateCORBA_POAObject_invoke_incoming_request ::
  "app \<Rightarrow> pobj option \<Rightarrow> nat option \<Rightarrow> poa_exn option \<Rightarrow> poa_world \<Rightarrow> poa_world res" where
  "MateCORBA_POAObject_invoke_incoming_request app q rb ev w =
     rbind (case (ev, q, rb) of (None, Some q, Some b) \<Rightarrow> rbind (the_buf w b) (\<lambda>r.
         MateCORBA_POAObject_handle_request app q (rq_opname r) (Some b) w)
       | (None, Some q, None) \<Rightarrow> Inl Abort
       | _ \<Rightarrow> Inr (ev, w)) (\<lambda>(ev, w).
     rbind (pobj_release_opt q w) (\<lambda>w.
     rbind (case ev of None \<Rightarrow> Inr w | Some e \<Rightarrow> return_exception rb False e w) (\<lambda>w.
     recv_unuse rb w)))"

section \<open>Handing the request on\<close>

definition push_request_idle :: "pobj option \<Rightarrow> nat option \<Rightarrow> poa_world \<Rightarrow> poa_world" where
  "push_request_idle q b w = w\<lparr> pw_idle := pw_idle w @ [(q, b)] \<rparr>"

definition poa_invoke_at_idle :: "app \<Rightarrow> poa_world \<Rightarrow> poa_world res" where
  "poa_invoke_at_idle app w = (case pw_idle w of [] \<Rightarrow> Inr w
   | (q, b) # r \<Rightarrow> MateCORBA_POAObject_invoke_incoming_request app q b None (w\<lparr> pw_idle := r \<rparr>))"

text \<open>
  \<^verbatim>\<open>giop_thread_request_push\<close> to the main thread takes the object and the buffer from the caller, unless there is no
  main thread. \<^verbatim>\<open>giop_thread_queue_process\<close> serves the request that has waited longest.
\<close>

definition push_request_T :: "pobj \<Rightarrow> nat \<Rightarrow> poa_world \<Rightarrow> (pobj option \<times> nat option) \<times> poa_world" where
  "push_request_T q b w = (case pw_lock w of None \<Rightarrow> ((Some q, Some b), w)
   | Some _ \<Rightarrow> ((None, None), w\<lparr> pw_queue := pw_queue w @ [(q, b)] \<rparr>))"

definition giop_thread_queue_process :: "app \<Rightarrow> poa_world \<Rightarrow> poa_world res" where
  "giop_thread_queue_process app w = (case pw_queue w of [] \<Rightarrow> Inr w
   | (q, b) # r \<Rightarrow> MateCORBA_POAObject_invoke_incoming_request app (Some q) (Some b) None (w\<lparr> pw_queue := r \<rparr>))"

definition poa_recv_is_oneway :: "app \<Rightarrow> pobj \<Rightarrow> nat \<Rightarrow> poa_world \<Rightarrow> bool res" where
  "poa_recv_is_oneway app q b w = rbind (the_pobj w q) (\<lambda>x. case po_servant x of None \<Rightarrow> Inl Abort
   | Some s \<Rightarrow> rbind (the_servant w s) (\<lambda>sv. rbind (the_buf w b) (\<lambda>r.
       Inr (case ap_find app (sv_class sv) (rq_opname r) of None \<Rightarrow> False | Some (oneway, _) \<Rightarrow> oneway))))"

text \<open>
  Where a request goes, by the adaptor's threading. What is left in the two variables is invoked at once. There is no
  I/O thread, and without it no pool of threads: the hints that need one abort. The case of
  \<^verbatim>\<open>MATECORBA_THREAD_HINT_ONEWAY_AT_IDLE\<close> drops through to the next after the request has been handed to the main thread.
\<close>

definition poa_enqueue :: "app \<Rightarrow> adaptor \<Rightarrow> pobj \<Rightarrow> nat \<Rightarrow> poa_world \<Rightarrow> ((pobj option \<times> nat option) \<times> poa_world) res" where
  "poa_enqueue app a q b w = (let now = Inr ((Some q, Some b), w);
       later = (\<lambda>(q, b) w. Inr ((None, None), push_request_idle q b w)) in
     case p_thread (pa_policies a) of SINGLE_THREAD_MODEL \<Rightarrow> now
     | ORB_CTRL_MODEL \<Rightarrow> (case pa_hint a of HINT_NONE \<Rightarrow> now
       | HINT_ALL_AT_IDLE \<Rightarrow> later (Some q, Some b) w
       | HINT_ON_CONTEXT \<Rightarrow> later (Some q, Some b) w
       | HINT_ONEWAY_AT_IDLE \<Rightarrow> rbind (poa_recv_is_oneway app q b w) (\<lambda>oneway.
           let (qb, w) = (if oneway then ((Some q, Some b), w) else push_request_T q b w) in later qb w)
       | HINT_PER_OBJECT \<Rightarrow> Inl Abort | HINT_PER_REQUEST \<Rightarrow> Inl Abort | HINT_PER_POA \<Rightarrow> Inl Abort | HINT_PER_CONNECTION \<Rightarrow> Inl Abort))"

text \<open>The rest of \<^verbatim>\<open>MateCORBA_POA_handle_request\<close>, from the switch on the adaptor's threading on.\<close>

definition poa_dispatch :: "app \<Rightarrow> poa \<Rightarrow> adaptor \<Rightarrow> pobj \<Rightarrow> nat \<Rightarrow> poa_world \<Rightarrow> poa_world res" where
  "poa_dispatch app p a q b w = rbind (poa_enqueue app a q b w) (\<lambda>((q, b), w). rbind (POA_UNLOCK p w)
     (MateCORBA_POAObject_invoke_incoming_request app q b None))"

definition MateCORBA_POA_handle_request :: "app \<Rightarrow> poa \<Rightarrow> nat \<Rightarrow> byte list \<Rightarrow> poa_world \<Rightarrow> poa_world res" where
  "MateCORBA_POA_handle_request app p b key w = rbind (POA_LOCK p w) (\<lambda>w.
     rbind (MateCORBA_POA_object_key_lookup_T p key w) (\<lambda>(q, w).
     rbind (the_poa w p) (\<lambda>a. case q of Some q \<Rightarrow> poa_dispatch app p a q b w
     | None \<Rightarrow> if p_request_processing (pa_policies a) = USE_ACTIVE_OBJECT_MAP_ONLY
         then rbind (POA_UNLOCK p w) (MateCORBA_POAObject_invoke_incoming_request app None (Some b) (Some EX_OBJECT_NOT_EXIST))
         else rbind (MateCORBA_POA_create_object_T p (Some (drop MATECORBA_ADAPTOR_PREFIX_LEN key)) w)
           (\<lambda>(q, w). poa_dispatch app p a q b w))))"

text \<open>\<^verbatim>\<open>MateCORBA_forw_bind_find\<close>: the key up to its first zero names an object elsewhere, if that has a type id.\<close>

definition MateCORBA_forw_bind_find :: "byte list \<Rightarrow> poa_world \<Rightarrow> string option \<times> poa_world" where
  "MateCORBA_forw_bind_find key w = (let k = takeWhile (\<lambda>b. b \<noteq> 0) key in case map_of (pw_forw w) k of
     None \<Rightarrow> (None, w)
   | Some (Some t) \<Rightarrow> (Some t, w)
   | Some None \<Rightarrow> (None, w\<lparr> pw_forw := AList.delete k (pw_forw w) \<rparr>))"

definition MateCORBA_handle_request :: "app \<Rightarrow> nat \<Rightarrow> poa_world \<Rightarrow> poa_world res" where
  "MateCORBA_handle_request app b w = rbind (the_buf w b) (\<lambda>r. rbind (MateCORBA_adaptor_find w (rq_key r)) (\<lambda>p. case p of
     Some p \<Rightarrow> MateCORBA_POA_handle_request app p b (rq_key r) w
   | None \<Rightarrow> (case MateCORBA_forw_bind_find (rq_key r) w of
       (Some t, w) \<Rightarrow> recv_unuse (Some b) (write_log (LocationForward (rq_id r) t) w)
     | (None, w) \<Rightarrow> MateCORBA_recv_buffer_return_sys_exception (Some b) EX_OBJECT_NOT_EXIST w)))"

definition MateCORBA_handle_locate_request :: "nat \<Rightarrow> poa_world \<Rightarrow> poa_world res" where
  "MateCORBA_handle_locate_request b w = rbind (the_buf w b) (\<lambda>r. rbind (MateCORBA_adaptor_find w (rq_key r)) (\<lambda>p.
     recv_unuse (Some b) (write_log (LocateReply (rq_id r) (p \<noteq> None)) w)))"

section \<open>Small operations\<close>

definition MateCORBA_POAObject_is_active :: "poa_world \<Rightarrow> pobj option \<Rightarrow> bool res" where
  "MateCORBA_POAObject_is_active w q = (case q of None \<Rightarrow> Inr False
   | Some q \<Rightarrow> rbind (the_pobj w q) (\<lambda>x. Inr (po_servant x \<noteq> None)))"

text \<open>Without threads a hint is only noted.\<close>

definition MateCORBA_ObjectAdaptor_set_thread_hint :: "poa option \<Rightarrow> ThreadHint \<Rightarrow> poa_world \<Rightarrow> poa_world" where
  "MateCORBA_ObjectAdaptor_set_thread_hint p h w = (case p of None \<Rightarrow> w | Some p \<Rightarrow> upd_poa p (\<lambda>a. a\<lparr> pa_hint := h \<rparr>) w)"

definition MateCORBA_ObjectAdaptor_get_thread_hint :: "poa option \<Rightarrow> poa_world \<Rightarrow> ThreadHint res" where
  "MateCORBA_ObjectAdaptor_get_thread_hint p w = (case p of None \<Rightarrow> Inr HINT_NONE
   | Some p \<Rightarrow> rbind (the_poa w p) (\<lambda>a. Inr (pa_hint a)))"

end
