(* ===== verification/Poa_Manager.thy ===== *)
theory Poa_Manager imports Poa_Request begin

text \<open>
  The managers of adaptors, \<^verbatim>\<open>poa-manager.c\<close>, with what they make the adaptors do: handle the requests that were
  held, and deactivate; and the destruction of an adaptor.
\<close>

section \<open>Held requests\<close>

text \<open>
  \<^verbatim>\<open>MateCORBA_POA_handle_held_requests\<close>: the list is taken from the adaptor and gone through, the request that came
  last in front.\<close>

primrec handle_requests :: "app \<Rightarrow> nat list \<Rightarrow> poa_world \<Rightarrow> poa_world res" where
  "handle_requests app [] w = Inr w"
| "handle_requests app (b # bs) w = rbind (MateCORBA_handle_request app b w) (handle_requests app bs)"

definition MateCORBA_POA_handle_held_requests :: "app \<Rightarrow> poa \<Rightarrow> poa_world \<Rightarrow> poa_world res" where
  "MateCORBA_POA_handle_held_requests app p w = rbind (the_poa w p) (\<lambda>a.
     handle_requests app (pa_held a) (upd_poa p (\<lambda>a. a\<lparr> pa_held := [] \<rparr>) w))"

section \<open>Deactivation of an adaptor\<close>

definition MateCORBA_POA_set_life :: "poa \<Rightarrow> bool \<Rightarrow> LifeF \<Rightarrow> poa_world \<Rightarrow> poa_world" where
  "MateCORBA_POA_set_life p etherealize action_do w = upd_poa p (\<lambda>a. a\<lparr> pa_life := pa_life a
     \<union> (if pa_life a \<inter> {DeactivateDo, DestroyDo} = {} \<and> etherealize then {DoEtherealize} else {}) \<union> {action_do} \<rparr>) w"

text \<open>The objects are gone through in the order of the hash table; \<open>in_use\<close> says whether one of them was in use.\<close>

primrec traverse_objects :: "app \<Rightarrow> poa \<Rightarrow> bool \<Rightarrow> pobj list \<Rightarrow> bool \<Rightarrow> poa_world \<Rightarrow> (bool \<times> poa_world) res" where
  "traverse_objects app p etherealize [] in_use w = Inr (in_use, w)"
| "traverse_objects app p etherealize (q # qs) in_use w = rbind (the_pobj w q) (\<lambda>x.
     rbind (MateCORBA_POA_deactivate_object_T app p q etherealize True w)
       (traverse_objects app p etherealize qs (in_use \<or> po_use_cnt x > 0)))"

text \<open>Objects that lost their last holder meanwhile are freed now.\<close>

definition remove_destroyed :: "poa \<Rightarrow> poa_world \<Rightarrow> poa_world" where
  "remove_destroyed p w = (case pw_poas w p of None \<Rightarrow> w | Some a \<Rightarrow>
     let dead = (\<lambda>q. case pw_pobjs w q of None \<Rightarrow> False | Some x \<Rightarrow> Destroyed \<in> po_life x);
         gone = filter dead (map snd (pa_map a))
     in (upd_poa p (\<lambda>a. a\<lparr> pa_map := filter (\<lambda>(_, q). \<not> dead q) (pa_map a) \<rparr>) w)
       \<lparr> pw_pobjs := (\<lambda>q. if q \<in> set gone then None else pw_pobjs w q) \<rparr>)"

definition MateCORBA_POA_deactivate :: "app \<Rightarrow> poa \<Rightarrow> bool \<Rightarrow> poa_world \<Rightarrow> (bool \<times> poa_world) res" where
  "MateCORBA_POA_deactivate app p etherealize w = (let w = MateCORBA_POA_set_life p etherealize DeactivateDo w in
     rbind (the_poa w p) (\<lambda>a.
     if Deactivated \<in> pa_life a then Inr (True, w)
     else if Deactivating \<in> pa_life a then Inr (False, w)
     else let w = upd_poa p (\<lambda>a. a\<lparr> pa_life := insert Deactivating (pa_life a) \<rparr>) w in
       rbind (MateCORBA_POA_handle_held_requests app p w) (\<lambda>w. rbind (the_poa w p) (\<lambda>a.
       if pa_held a \<noteq> [] then Inl Abort
       else rbind (if IS_RETAIN a
           then rbind (traverse_objects app p (DoEtherealize \<in> pa_life a) (ap_walk app (map snd (pa_map a))) False w)
             (\<lambda>(in_use, w). Inr (\<not> in_use, remove_destroyed p w))
           else Inr (True, w)) (\<lambda>(ok, w).
         Inr (ok, upd_poa p (\<lambda>a. a\<lparr> pa_life := (pa_life a \<union> (if ok then {Deactivated} else {})) - {Deactivating} \<rparr>) w))))))"

text \<open>
  \<^verbatim>\<open>MateCORBA_POA_is_inuse_T\<close> goes down to the children of children, each under its own lock; the fuel is more than
  there are adaptors. Every lock that is taken is given back, and nothing else changes, so that only the answer is a
  result.
\<close>

fun MateCORBA_POA_is_inuse_T :: "nat \<Rightarrow> bool \<Rightarrow> poa \<Rightarrow> poa_world \<Rightarrow> bool res" where
  "MateCORBA_POA_is_inuse_T 0 consider_children p w = Inl Abort"
| "MateCORBA_POA_is_inuse_T (Suc n) consider_children p w = rbind (the_poa w p) (\<lambda>a.
     if pa_use_cnt a > 0 then Inr True
     else rbind (if consider_children
         then fold (\<lambda>c r. rbind r (\<lambda>b. rbind (POA_LOCK c w) (\<lambda>w. rbind (MateCORBA_POA_is_inuse_T n True c w) (\<lambda>b'.
           rbind (POA_UNLOCK c w) (\<lambda>_. Inr (b \<or> b')))))) (map snd (pa_children a)) (Inr False)
         else Inr False) (\<lambda>b.
       if b then Inr True
       else fold (\<lambda>q r. rbind r (\<lambda>b. rbind (the_pobj w q) (\<lambda>x. Inr (b \<or> po_use_cnt x > 0)))) (map snd (pa_map a)) (Inr False)))"

definition MateCORBA_POA_is_inuse :: "nat \<Rightarrow> bool \<Rightarrow> poa \<Rightarrow> poa_world \<Rightarrow> bool res" where
  "MateCORBA_POA_is_inuse n consider_children p w = rbind (POA_LOCK p w) (\<lambda>w.
     rbind (MateCORBA_POA_is_inuse_T n consider_children p w) (\<lambda>b. rbind (POA_UNLOCK p w) (\<lambda>_. Inr b)))"

section \<open>Managers\<close>

text \<open>Every operation holds the one lock of all managers from its beginning to its end.\<close>

definition manager_call :: "manager option \<Rightarrow> (manager \<Rightarrow> poa_manager \<Rightarrow> poa_world \<Rightarrow> 'a call) \<Rightarrow> poa_world \<Rightarrow> 'a call" where
  "manager_call manager work w = (case manager of None \<Rightarrow> throw EX_BAD_PARAM w
   | Some g \<Rightarrow> rbind (POA_MGR_LOCK w) (\<lambda>w. rbind (the_manager w g) (\<lambda>m. rbind (work g m w) (\<lambda>(r, w).
       rbind (POA_MGR_UNLOCK w) (\<lambda>w. Inr (r, w))))))"

definition PortableServer_POAManager_get_state :: "manager \<Rightarrow> poa_world \<Rightarrow> poa_state call" where
  "PortableServer_POAManager_get_state g = manager_call (Some g) (\<lambda>g m. return (pm_state m))"

definition set_state :: "manager \<Rightarrow> poa_state \<Rightarrow> poa_world \<Rightarrow> poa_world" where
  "set_state g s w = upd_manager g (\<lambda>m. m\<lparr> pm_state := s \<rparr>) w"

primrec handle_all_held :: "app \<Rightarrow> poa list \<Rightarrow> poa_world \<Rightarrow> poa_world res" where
  "handle_all_held app [] w = Inr w"
| "handle_all_held app (p # ps) w = rbind (MateCORBA_POA_handle_held_requests app p w) (handle_all_held app ps)"

definition PortableServer_POAManager_activate :: "app \<Rightarrow> manager option \<Rightarrow> poa_world \<Rightarrow> unit call" where
  "PortableServer_POAManager_activate app manager = manager_call manager (\<lambda>g m w.
     if pm_state m = INACTIVE then throw AdapterInactive w
     else rbind (handle_all_held app (pm_poas m) (set_state g ACTIVE w)) (return ()))"

text \<open>Nobody waits for the requests that are being served, asked to or not.\<close>

definition PortableServer_POAManager_hold_requests :: "manager option \<Rightarrow> bool \<Rightarrow> poa_world \<Rightarrow> unit call" where
  "PortableServer_POAManager_hold_requests manager wait_for_completion = manager_call manager (\<lambda>g m w.
     if pm_state m = INACTIVE then throw AdapterInactive w else return () (set_state g HOLDING w))"

definition PortableServer_POAManager_discard_requests :: "manager option \<Rightarrow> bool \<Rightarrow> poa_world \<Rightarrow> unit call" where
  "PortableServer_POAManager_discard_requests manager wait_for_completion = manager_call manager (\<lambda>g m w.
     if pm_state m = INACTIVE then throw AdapterInactive w else return () (set_state g DISCARDING w))"

text \<open>The test is the wrong way round: who waits is refused unless every adaptor is in use.\<close>

primrec all_in_use :: "poa_world \<Rightarrow> poa list \<Rightarrow> bool res" where
  "all_in_use w [] = Inr True"
| "all_in_use w (p # ps) = rbind (MateCORBA_POA_is_inuse 1 False p w) (\<lambda>b. if b then all_in_use w ps else Inr False)"

primrec deactivate_all :: "app \<Rightarrow> bool \<Rightarrow> poa list \<Rightarrow> poa_world \<Rightarrow> poa_world res" where
  "deactivate_all app etherealize [] w = Inr w"
| "deactivate_all app etherealize (p # ps) w
    = rbind (MateCORBA_POA_deactivate app p etherealize w) (\<lambda>(_, w). deactivate_all app etherealize ps w)"

text \<open>
  The adaptors are deactivated without their locks, which \<open>etherealize_object\<close> gives back around the finalizer.
\<close>

definition PortableServer_POAManager_deactivate :: "app \<Rightarrow> manager option \<Rightarrow> bool \<Rightarrow> bool \<Rightarrow> poa_world \<Rightarrow> unit call" where
  "PortableServer_POAManager_deactivate app manager etherealize wait_for_completion = manager_call manager (\<lambda>g m w.
     if pm_state m = INACTIVE then throw AdapterInactive w
     else rbind (if wait_for_completion then all_in_use w (pm_poas m) else Inr True) (\<lambda>go.
       if \<not> go then throw EX_BAD_INV_ORDER w
       else rbind (deactivate_all app etherealize (pm_poas m) (set_state g INACTIVE w)) (return ())))"

section \<open>Destruction\<close>

definition MateCORBA_POAManager_unregister_poa :: "manager \<Rightarrow> poa \<Rightarrow> poa_world \<Rightarrow> poa_world res" where
  "MateCORBA_POAManager_unregister_poa g p w = rbind (POA_MGR_LOCK w) (\<lambda>w.
     POA_MGR_UNLOCK (upd_manager g (\<lambda>m. m\<lparr> pm_poas := remove1 p (pm_poas m) \<rparr>) w))"

definition MateCORBA_POA_remove_child :: "poa option \<Rightarrow> poa \<Rightarrow> poa_world \<Rightarrow> poa_world res" where
  "MateCORBA_POA_remove_child parent child w = rbind (the_poa w child) (\<lambda>c. case pa_parent c of None \<Rightarrow> Inr w
   | Some pp \<Rightarrow> if parent \<noteq> Some pp then Inl Abort
       else Inr (upd_poa child (\<lambda>c. c\<lparr> pa_parent := None \<rparr>)
         (upd_poa pp (\<lambda>a. a\<lparr> pa_children := AList.delete (pa_name c) (pa_children a) \<rparr>) w)))"

text \<open>
  \<^verbatim>\<open>MateCORBA_POA_destroy_T_R\<close>: the children are looked for in the list of all adaptors, by their number, while that
  list may change, and each adaptor is locked to be looked at; the recursion goes to a child with \<open>n\<close> less by one. The
  adaptor's own lock is held when the function begins and when it ends, and given back for the time of the search.
\<close>

fun MateCORBA_POA_destroy_T_R :: "nat \<Rightarrow> app \<Rightarrow> bool \<Rightarrow> poa \<Rightarrow> poa_world \<Rightarrow> (bool \<times> poa_world) res" where
  "MateCORBA_POA_destroy_T_R 0 app etherealize p w = Inl Abort"
| "MateCORBA_POA_destroy_T_R (Suc n) app etherealize p w = (let w = MateCORBA_POA_set_life p etherealize DestroyDo w in
     rbind (the_poa w p) (\<lambda>a.
     if Destroyed \<in> pa_life a then Inr (True, w)
     else if pa_life a \<inter> {Deactivating, Destroying} \<noteq> {} then Inr (False, w)
     else let w = upd_poa p (\<lambda>a. a\<lparr> pa_life := insert Destroying (pa_life a) \<rparr>) w in
       rbind (fold (\<lambda>i r. rbind r (\<lambda>w. case pw_adaptors w ! i of None \<Rightarrow> Inr w
           | Some c \<Rightarrow> if c = p then Inr w else rbind (POA_LOCK c w) (\<lambda>w. rbind (the_poa w c) (\<lambda>ca.
               rbind (if pa_parent ca \<noteq> Some p then Inr w
                 else rbind (MateCORBA_POA_destroy_T_R n app etherealize c w) (\<lambda>(_, w). Inr w)) (POA_UNLOCK c)))))
         [0 ..< length (pw_adaptors w)] (POA_UNLOCK p w)) (\<lambda>w. rbind (POA_LOCK p w) (\<lambda>w.
       let w = upd_poa p (\<lambda>a. a\<lparr> pa_default_servant := None \<rparr>) w in
       rbind (the_poa w p) (\<lambda>a.
       rbind (if pa_children a \<noteq> [] \<or> pa_use_cnt a \<noteq> 0 then Inr (False, w) else MateCORBA_POA_deactivate app p etherealize w) (\<lambda>(ok, w).
       if \<not> ok then Inr (False, upd_poa p (\<lambda>a. a\<lparr> pa_life := pa_life a - {Destroying} \<rparr>) w)
       else rbind (the_poa w p) (\<lambda>a.
         rbind (MateCORBA_POAManager_unregister_poa (pa_manager a) p w) (\<lambda>w.
         rbind (MateCORBA_POA_remove_child (pa_parent a) p w) (\<lambda>w.
         let w = w\<lparr> pw_adaptors := (pw_adaptors w)[pa_id a := None] \<rparr> in
         Inr (True, upd_poa p (\<lambda>a. a\<lparr> pa_life := insert Destroyed (pa_life a) - {Destroying} \<rparr>) w))))))))))"

definition PortableServer_POA_destroy :: "app \<Rightarrow> poa option \<Rightarrow> bool \<Rightarrow> bool \<Rightarrow> poa_world \<Rightarrow> unit call" where
  "PortableServer_POA_destroy app poa etherealize wait_for_completion w = (case poa of None \<Rightarrow> throw EX_INV_OBJREF w
   | Some p \<Rightarrow> (let n = Suc (length (pw_adaptors w)) in locked_call p (\<lambda>a w. Inr None) (\<lambda>a w.
     if Destroyed \<in> pa_life a then return () w
     else rbind (if wait_for_completion then MateCORBA_POA_is_inuse_T n True p w else Inr False) (\<lambda>b.
       if b then throw EX_BAD_INV_ORDER w
       else rbind (MateCORBA_POA_destroy_T_R n app etherealize p w) (\<lambda>(ok, w).
         if \<not> ok \<and> wait_for_completion then Inl Abort else return () w))) w))"

end
