(* ===== verification/Poa_Inv.thy ===== *)
theory Poa_Inv imports Poa "HOL-Library.Multiset" begin

text \<open>
  What holds of the adaptors' tables between calls: the tables and the objects agree, every count of references is
  the number of holders, and the list of a servant's objects has just these. Those who hold an object for the time of
  a call are the multiset \<open>pins\<close>.
\<close>

section \<open>The invariant\<close>

definition tables_ok :: "poa_world \<Rightarrow> bool" where
  "tables_ok w \<longleftrightarrow> (\<forall>q x. pw_pobjs w q = Some x \<longrightarrow> q < pw_fresh w
       \<and> (\<exists>a. pw_poas w (po_poa x) = Some a \<and> map_of (pa_map a) (po_oid x) = Some q))
     \<and> (\<forall>p a. pw_poas w p = Some a \<longrightarrow> distinct (map fst (pa_map a))
       \<and> (\<forall>oid q. map_of (pa_map a) oid = Some q \<longrightarrow> (\<exists>x. pw_pobjs w q = Some x \<and> po_poa x = p \<and> po_oid x = oid)))"

definition holders :: "pobject \<Rightarrow> nat" where
  "holders x = (if po_servant x = None then 0 else 1) + (if po_objref x = None then 0 else 1)"

definition counts_ok :: "pobj multiset \<Rightarrow> poa_world \<Rightarrow> bool" where
  "counts_ok pins w \<longleftrightarrow> (\<forall>q x. pw_pobjs w q = Some x \<longrightarrow> po_refs x = holders x + count pins q
       \<and> (\<forall>t n. po_objref x = Some (t, n) \<longrightarrow> 0 < n))
     \<and> (\<forall>q. q \<in># pins \<longrightarrow> pw_pobjs w q \<noteq> None)"

fun path :: "poa_world \<Rightarrow> pobj option \<Rightarrow> pobj list \<Rightarrow> pobj option \<Rightarrow> bool" where
  "path w r [] r' \<longleftrightarrow> r = r'"
| "path w r (q # qs) r' \<longleftrightarrow> r = Some q \<and> (\<exists>x. pw_pobjs w q = Some x \<and> path w (po_next x) qs r')"

definition active_for :: "poa_world \<Rightarrow> servant \<Rightarrow> pobj set" where
  "active_for w s = {q. \<exists>x. pw_pobjs w q = Some x \<and> po_servant x = Some s}"

definition servants_ok :: "poa_world \<Rightarrow> bool" where
  "servants_ok w \<longleftrightarrow> (\<forall>s sv. pw_servants w s = Some sv \<longrightarrow>
       (\<exists>qs. path w (sv_private sv) qs None \<and> distinct qs \<and> set qs = active_for w s))
     \<and> (\<forall>q x s. pw_pobjs w q = Some x \<longrightarrow> po_servant x = Some s \<longrightarrow> pw_servants w s \<noteq> None)"

text \<open>No call is in progress: no object is in use or about to be deactivated, no table is being gone through.\<close>

definition at_rest :: "poa_world \<Rightarrow> bool" where
  "at_rest w \<longleftrightarrow> (\<forall>q x. pw_pobjs w q = Some x \<longrightarrow> po_use_cnt x = 0
       \<and> po_life x \<inter> {DeactivateDo, DoEtherealize, IsCleanup, Destroyed} = {})
     \<and> (\<forall>p a. pw_poas w p = Some a \<longrightarrow> Deactivating \<notin> pa_life a)"

definition pw_inv :: "pobj multiset \<Rightarrow> poa_world \<Rightarrow> bool" where
  "pw_inv pins w \<longleftrightarrow> tables_ok w \<and> counts_ok pins w \<and> servants_ok w \<and> at_rest w"

lemma pw_invD:
  assumes "pw_inv pins w"
  shows "tables_ok w" "counts_ok pins w" "servants_ok w" "at_rest w"
  using assms by (simp_all add: pw_inv_def)

lemma tables_object:
  assumes "tables_ok w" "pw_pobjs w q = Some x"
  obtains a where "pw_poas w (po_poa x) = Some a" "map_of (pa_map a) (po_oid x) = Some q" "q < pw_fresh w"
  using assms unfolding tables_ok_def by blast

lemma tables_entry:
  assumes "tables_ok w" "pw_poas w p = Some a" "map_of (pa_map a) oid = Some q"
  obtains x where "pw_pobjs w q = Some x" "po_poa x = p" "po_oid x = oid"
  using assms unfolding tables_ok_def by blast

lemma tables_distinct: "tables_ok w \<Longrightarrow> pw_poas w p = Some a \<Longrightarrow> distinct (map fst (pa_map a))"
  unfolding tables_ok_def by blast

text \<open>The active objects, seen from outside: which servant is behind which id of which adaptor.\<close>

definition active_map :: "poa_world \<Rightarrow> poa \<times> objid \<Rightarrow> servant option" where
  "active_map w k = (case pw_poas w (fst k) of None \<Rightarrow> None
   | Some a \<Rightarrow> (case map_of (pa_map a) (snd k) of None \<Rightarrow> None
     | Some q \<Rightarrow> (case pw_pobjs w q of None \<Rightarrow> None | Some x \<Rightarrow> po_servant x)))"

lemma active_map_object:
  assumes "tables_ok w" "pw_pobjs w q = Some x" shows "active_map w (po_poa x, po_oid x) = po_servant x"
proof -
  obtain a where "pw_poas w (po_poa x) = Some a" "map_of (pa_map a) (po_oid x) = Some q"
    using tables_object[OF assms] .
  then show ?thesis using assms(2) by (simp add: active_map_def)
qed

lemma active_map_unknown:
  "pw_poas w p = Some a \<Longrightarrow> map_of (pa_map a) oid = None \<Longrightarrow> active_map w (p, oid) = None"
  by (simp add: active_map_def)

text \<open>Maps that agree on every object are the same.\<close>

lemma active_map_eqI:
  assumes t: "tables_ok w" "tables_ok w'"
    and o: "\<And>q x. pw_pobjs w q = Some x \<Longrightarrow> active_map w' (po_poa x, po_oid x) = m (po_poa x, po_oid x)"
    and o': "\<And>q x. pw_pobjs w' q = Some x \<Longrightarrow> po_servant x = m (po_poa x, po_oid x)"
    and n: "\<And>k. m k \<noteq> None \<Longrightarrow> \<exists>q x. pw_pobjs w q = Some x \<and> k = (po_poa x, po_oid x)"
  shows "active_map w' = m"
proof
  fix k
  show "active_map w' k = m k"
  proof (cases "\<exists>q x. pw_pobjs w q = Some x \<and> k = (po_poa x, po_oid x)")
    case True
    then show ?thesis using o by blast
  next
    case False
    then have "m k = None" using n by blast
    moreover have "active_map w' k = None"
    proof (cases "pw_poas w' (fst k)")
      case a: (Some a)
      show ?thesis
      proof (cases "map_of (pa_map a) (snd k)")
        case (Some q)
        then obtain x where "pw_pobjs w' q = Some x" "po_poa x = fst k" "po_oid x = snd k"
          using tables_entry[OF t(2) a Some] by blast
        then show ?thesis using o'[of q x] \<open>m k = None\<close> a Some by (simp add: active_map_def)
      qed (simp add: active_map_def a)
    qed (simp add: active_map_def)
    ultimately show ?thesis by simp
  qed
qed

section \<open>Changes to one object\<close>

lemma upd_pobj_sel [simp]:
  "pw_poas (upd_pobj q f w) = pw_poas w" "pw_servants (upd_pobj q f w) = pw_servants w"
  "pw_fresh (upd_pobj q f w) = pw_fresh w" "pw_managers (upd_pobj q f w) = pw_managers w"
  "pw_adaptors (upd_pobj q f w) = pw_adaptors w" "pw_current (upd_pobj q f w) = pw_current w"
  "pw_bufs (upd_pobj q f w) = pw_bufs w" "pw_host (upd_pobj q f w) = pw_host w" "pw_log (upd_pobj q f w) = pw_log w"
  "pw_random (upd_pobj q f w) = pw_random w" "pw_lock (upd_pobj q f w) = pw_lock w"
  "pw_idle (upd_pobj q f w) = pw_idle w" "pw_queue (upd_pobj q f w) = pw_queue w"
  "pw_pobjs (upd_pobj q f w) = (pw_pobjs w)(q := map_option f (pw_pobjs w q))"
  by (simp_all add: upd_pobj_def)

lemma upd_poa_sel [simp]:
  "pw_pobjs (upd_poa q g w) = pw_pobjs w" "pw_servants (upd_poa q g w) = pw_servants w"
  "pw_fresh (upd_poa q g w) = pw_fresh w" "pw_managers (upd_poa q g w) = pw_managers w"
  "pw_adaptors (upd_poa q g w) = pw_adaptors w" "pw_current (upd_poa q g w) = pw_current w"
  "pw_bufs (upd_poa q g w) = pw_bufs w" "pw_host (upd_poa q g w) = pw_host w" "pw_log (upd_poa q g w) = pw_log w"
  "pw_random (upd_poa q g w) = pw_random w" "pw_lock (upd_poa q g w) = pw_lock w"
  "pw_idle (upd_poa q g w) = pw_idle w" "pw_queue (upd_poa q g w) = pw_queue w"
  "pw_poas (upd_poa q g w) = (pw_poas w)(q := map_option g (pw_poas w q))"
  by (simp_all add: upd_poa_def)

lemma upd_servant_sel [simp]:
  "pw_pobjs (upd_servant s h w) = pw_pobjs w" "pw_poas (upd_servant s h w) = pw_poas w"
  "pw_fresh (upd_servant s h w) = pw_fresh w" "pw_managers (upd_servant s h w) = pw_managers w"
  "pw_adaptors (upd_servant s h w) = pw_adaptors w" "pw_current (upd_servant s h w) = pw_current w"
  "pw_bufs (upd_servant s h w) = pw_bufs w" "pw_host (upd_servant s h w) = pw_host w"
  "pw_log (upd_servant s h w) = pw_log w" "pw_random (upd_servant s h w) = pw_random w" "pw_lock (upd_servant s h w) = pw_lock w"
  "pw_idle (upd_servant s h w) = pw_idle w" "pw_queue (upd_servant s h w) = pw_queue w"
  "pw_servants (upd_servant s h w) = (pw_servants w)(s := map_option h (pw_servants w s))"
  by (simp_all add: upd_servant_def)

lemma the_simps [simp]:
  "pw_pobjs w q = Some x \<Longrightarrow> the_pobj w q = Inr x" "pw_poas w p = Some a \<Longrightarrow> the_poa w p = Inr a"
  "pw_servants w s = Some sv \<Longrightarrow> the_servant w s = Inr sv" "pw_managers w g = Some m \<Longrightarrow> the_manager w g = Inr m"
  by (simp_all add: the_pobj_def the_poa_def the_servant_def the_manager_def)

lemma tables_okI:
  assumes "\<And>q x. pw_pobjs w q = Some x \<Longrightarrow> q < pw_fresh w"
    and "\<And>q x. pw_pobjs w q = Some x \<Longrightarrow> \<exists>a. pw_poas w (po_poa x) = Some a \<and> map_of (pa_map a) (po_oid x) = Some q"
    and "\<And>p a. pw_poas w p = Some a \<Longrightarrow> distinct (map fst (pa_map a))"
    and "\<And>p a oid q. pw_poas w p = Some a \<Longrightarrow> map_of (pa_map a) oid = Some q
      \<Longrightarrow> \<exists>x. pw_pobjs w q = Some x \<and> po_poa x = p \<and> po_oid x = oid"
  shows "tables_ok w"
  using assms unfolding tables_ok_def by blast

lemma tables_upd:
  assumes t: "tables_ok w" and f: "\<And>x. po_poa (f x) = po_poa x" "\<And>x. po_oid (f x) = po_oid x"
  shows "tables_ok (upd_pobj q f w)"
proof (rule tables_okI, goal_cases)
  case (1 r x)
  then show ?case using t by (fastforce simp: tables_ok_def split: if_splits)
next
  case (2 r x)
  then obtain y where y: "pw_pobjs w r = Some y" "po_poa x = po_poa y" "po_oid x = po_oid y"
    using f by (cases "r = q") auto
  then show ?case using tables_object[OF t y(1)] by auto
next
  case (3 p a)
  then show ?case using tables_distinct[OF t] by simp
next
  case (4 p a oid r)
  then obtain x where "pw_pobjs w r = Some x" "po_poa x = p" "po_oid x = oid"
    using tables_entry[OF t] by (metis upd_pobj_sel(1))
  then show ?case using f by (cases "r = q") auto
qed

lemma tables_upd_servant [simp]: "tables_ok (upd_servant s h w) = tables_ok w"
  by (simp add: tables_ok_def)

lemma path_upd: "q \<notin> set qs \<Longrightarrow> path (upd_pobj q f w) r qs r' = path w r qs r'"
  by (induction qs arbitrary: r) auto

lemma path_next: "(\<And>x. po_next (f x) = po_next x) \<Longrightarrow> path (upd_pobj q f w) r qs r' = path w r qs r'"
  by (induction qs arbitrary: r) auto

lemma path_servant [simp]: "path (upd_servant s h w) r qs r' = path w r qs r'"
  by (induction qs arbitrary: r) auto

lemma path_poa [simp]: "path (upd_poa p g w) r qs r' = path w r qs r'"
  by (induction qs arbitrary: r) auto

lemma path_append: "path w r (as @ bs) r' \<longleftrightarrow> (\<exists>r''. path w r as r'' \<and> path w r'' bs r')"
  by (induction as arbitrary: r) auto

lemma path_objects: "path w r qs r' \<Longrightarrow> q \<in> set qs \<Longrightarrow> pw_pobjs w q \<noteq> None"
  by (induction qs arbitrary: r) auto

lemma path_start: "path w r qs None \<Longrightarrow> r = None \<longleftrightarrow> qs = []"
  by (cases qs) auto

lemma update_same: "f(q := Some x) = f \<longleftrightarrow> f q = Some x"
  by (auto simp: fun_eq_iff)

section \<open>Parts of the invariant under changes\<close>

lemma counts_okI:
  assumes "\<And>q x. pw_pobjs w q = Some x \<Longrightarrow> po_refs x = holders x + count pins q"
    and "\<And>q x t n. pw_pobjs w q = Some x \<Longrightarrow> po_objref x = Some (t, n) \<Longrightarrow> 0 < n"
    and "\<And>q. q \<in># pins \<Longrightarrow> pw_pobjs w q \<noteq> None"
  shows "counts_ok pins w"
  using assms unfolding counts_ok_def by blast

lemma counts_refs: "counts_ok pins w \<Longrightarrow> pw_pobjs w q = Some x \<Longrightarrow> po_refs x = holders x + count pins q"
  unfolding counts_ok_def by blast

lemma counts_objref: "counts_ok pins w \<Longrightarrow> pw_pobjs w q = Some x \<Longrightarrow> po_objref x = Some (t, n) \<Longrightarrow> 0 < n"
  unfolding counts_ok_def by blast

lemma counts_pinned: "counts_ok pins w \<Longrightarrow> q \<in># pins \<Longrightarrow> \<exists>x. pw_pobjs w q = Some x"
  unfolding counts_ok_def by blast

text \<open>The servants only see which objects there are, who they are active for and how they are linked.\<close>

definition links :: "poa_world \<Rightarrow> pobj \<Rightarrow> (servant option \<times> pobj option) option" where
  "links w q = map_option (\<lambda>x. (po_servant x, po_next x)) (pw_pobjs w q)"

lemma path_links: "links w' = links w \<Longrightarrow> path w' r qs r' = path w r qs r'"
proof (induction qs arbitrary: r)
  case (Cons q qs)
  have "links w' q = links w q" using Cons.prems by simp
  moreover have "\<And>r. path w' r qs r' = path w r qs r'" using Cons by blast
  ultimately show ?case by (cases "pw_pobjs w q"; cases "pw_pobjs w' q") (simp_all add: links_def)
qed simp

lemma active_for_links: "active_for w s = {q. \<exists>n. links w q = Some (Some s, n)}"
  by (auto simp: active_for_def links_def)

lemma links_servant:
  "pw_pobjs w q = Some x \<Longrightarrow> po_servant x = Some s \<longleftrightarrow> (\<exists>n. links w q = Some (Some s, n))"
  by (simp add: links_def)

lemma servants_ok_links:
  assumes "servants_ok w" "links w' = links w" "pw_servants w' = pw_servants w"
  shows "servants_ok w'"
proof -
  have "path w' = path w" using path_links[OF assms(2)] by (intro ext) auto
  moreover have "active_for w' = active_for w" unfolding active_for_links assms(2) ..
  moreover have "\<forall>q x s. pw_pobjs w' q = Some x \<longrightarrow> po_servant x = Some s \<longrightarrow> pw_servants w s \<noteq> None"
  proof (intro allI impI)
    fix q x s assume x: "pw_pobjs w' q = Some x" "po_servant x = Some s"
    then obtain n where "links w q = Some (Some s, n)" using links_servant[OF x(1)] assms(2) by auto
    then obtain y where "pw_pobjs w q = Some y" "po_servant y = Some s" by (auto simp: links_def)
    then show "pw_servants w s \<noteq> None" using assms(1) unfolding servants_ok_def by blast
  qed
  ultimately show ?thesis using assms(1,3) unfolding servants_ok_def by simp
qed

lemma links_upd: "(\<And>x. po_servant (f x) = po_servant x) \<Longrightarrow> (\<And>x. po_next (f x) = po_next x) \<Longrightarrow> links (upd_pobj q f w) = links w"
  by (rule ext) (simp add: links_def map_option.compositionality o_def)

lemma active_map_upd:
  assumes "\<And>x. po_servant (f x) = po_servant x"
  shows "active_map (upd_pobj q f w) = active_map w"
  by (rule ext) (simp add: active_map_def assms map_option_case split: option.splits)

lemma at_restI:
  assumes "\<And>q x. pw_pobjs w q = Some x \<Longrightarrow> po_use_cnt x = 0"
    and "\<And>q x. pw_pobjs w q = Some x \<Longrightarrow> po_life x \<inter> {DeactivateDo, DoEtherealize, IsCleanup, Destroyed} = {}"
    and "\<And>p a. pw_poas w p = Some a \<Longrightarrow> Deactivating \<notin> pa_life a"
  shows "at_rest w"
  using assms unfolding at_rest_def by blast

lemma at_restD:
  assumes "at_rest w"
  shows "pw_pobjs w q = Some x \<Longrightarrow> po_use_cnt x = 0"
    "pw_pobjs w q = Some x \<Longrightarrow> po_life x \<inter> {DeactivateDo, DoEtherealize, IsCleanup, Destroyed} = {}"
    "pw_poas w p = Some a \<Longrightarrow> Deactivating \<notin> pa_life a"
  using assms unfolding at_rest_def by blast+

lemma at_rest_upd:
  assumes "at_rest w" "\<And>x. po_use_cnt (f x) = po_use_cnt x" "\<And>x. po_life (f x) = po_life x"
  shows "at_rest (upd_pobj q f w)"
proof (rule at_restI, goal_cases)
  case (1 r x)
  then show ?case using at_restD(1)[OF assms(1)] assms(2) by (cases "r = q") auto
next
  case (2 r x)
  then show ?case using at_restD(2)[OF assms(1)] assms(3) by (cases "r = q") auto
next
  case (3 p a)
  then show ?case using at_restD(3)[OF assms(1)] by simp
qed

text \<open>What the operations on objects leave alone: everything but the tables, the counters and the objects.\<close>

definition frame :: "poa_world \<Rightarrow> (poa \<Rightarrow> adaptor option) \<times> (servant \<Rightarrow> string option) \<times> poa_world" where
  "frame w = (\<lambda>p. map_option (\<lambda>a. a\<lparr> pa_map := [], pa_sysid := 0 \<rparr>) (pw_poas w p),
     \<lambda>s. map_option sv_class (pw_servants w s),
     w\<lparr> pw_pobjs := Map.empty, pw_poas := Map.empty, pw_servants := Map.empty, pw_fresh := 0, pw_log := [] \<rparr>)"

lemma frame_upd_pobj [simp]: "frame (upd_pobj q f w) = frame w"
  by (simp add: frame_def upd_pobj_def)

lemma frame_pobjs [simp]: "frame (w\<lparr> pw_pobjs := o' \<rparr>) = frame w"
  "frame (w\<lparr> pw_fresh := n \<rparr>) = frame w" "frame (w\<lparr> pw_log := l \<rparr>) = frame w"
  by (simp_all add: frame_def)

lemma frame_upd_poa:
  "(\<And>a. (g a)\<lparr> pa_map := [], pa_sysid := 0 \<rparr> = a\<lparr> pa_map := [], pa_sysid := 0 \<rparr>) \<Longrightarrow> frame (upd_poa p g w) = frame w"
  by (simp add: frame_def upd_poa_def map_option.compositionality o_def fun_eq_iff)

lemma frame_map [simp]: "frame (upd_poa p (\<lambda>a. a\<lparr> pa_map := h a \<rparr>) w) = frame w"
  "frame (upd_poa p (\<lambda>a. a\<lparr> pa_sysid := n a \<rparr>) w) = frame w"
  by (simp_all add: frame_upd_poa)

lemma frame_upd_servant [simp]: "frame (upd_servant s (\<lambda>sv. sv\<lparr> sv_private := h sv \<rparr>) w) = frame w"
  by (simp add: frame_def upd_servant_def map_option.compositionality o_def fun_eq_iff)

lemma frame_poa:
  assumes "frame w' = frame w" "pw_poas w p = Some a"
  obtains a' where "pw_poas w' p = Some a'" "a' = a\<lparr> pa_map := pa_map a', pa_sysid := pa_sysid a' \<rparr>"
proof -
  have f: "map_option (\<lambda>a. a\<lparr> pa_map := [], pa_sysid := 0 \<rparr>) (pw_poas w' p)
    = map_option (\<lambda>a. a\<lparr> pa_map := [], pa_sysid := 0 \<rparr>) (pw_poas w p)"
    using assms(1) by (simp add: frame_def fun_eq_iff)
  then obtain a' where a': "pw_poas w' p = Some a'"
      "a'\<lparr> pa_map := [], pa_sysid := 0 \<rparr> = a\<lparr> pa_map := [], pa_sysid := 0 \<rparr>"
    using assms(2) by (cases "pw_poas w' p") auto
  have "a'\<lparr> pa_map := [], pa_sysid := 0 \<rparr>\<lparr> pa_map := pa_map a', pa_sysid := pa_sysid a' \<rparr>
    = a\<lparr> pa_map := [], pa_sysid := 0 \<rparr>\<lparr> pa_map := pa_map a', pa_sysid := pa_sysid a' \<rparr>"
    using a'(2) by (rule arg_cong[where f = "\<lambda>z. z\<lparr> pa_map := pa_map a', pa_sysid := pa_sysid a' \<rparr>"])
  then show thesis using that[OF a'(1)] by simp
qed

lemma frame_servants: "frame w' = frame w \<Longrightarrow> pw_servants w s \<noteq> None \<Longrightarrow> pw_servants w' s \<noteq> None"
proof -
  assume f: "frame w' = frame w" and s: "pw_servants w s \<noteq> None"
  have "map_option sv_class (pw_servants w' s) = map_option sv_class (pw_servants w s)"
    using f by (simp add: frame_def fun_eq_iff)
  then show ?thesis using s by auto
qed

lemma frame_rest:
  assumes "frame w' = frame w"
  shows "pw_bufs w' = pw_bufs w" "pw_managers w' = pw_managers w" "pw_host w' = pw_host w" "pw_adaptors w' = pw_adaptors w"
    "pw_current w' = pw_current w" "pw_lock w' = pw_lock w"
proof -
  have e: "snd (snd (frame w')) = snd (snd (frame w))" using assms by simp
  show "pw_bufs w' = pw_bufs w" using arg_cong[OF e, of pw_bufs] by (simp add: frame_def)
  show "pw_managers w' = pw_managers w" using arg_cong[OF e, of pw_managers] by (simp add: frame_def)
  show "pw_host w' = pw_host w" using arg_cong[OF e, of pw_host] by (simp add: frame_def)
  show "pw_adaptors w' = pw_adaptors w" using arg_cong[OF e, of pw_adaptors] by (simp add: frame_def)
  show "pw_current w' = pw_current w" using arg_cong[OF e, of pw_current] by (simp add: frame_def)
  show "pw_lock w' = pw_lock w" using arg_cong[OF e, of pw_lock] by (simp add: frame_def)
qed

section \<open>Locks\<close>

text \<open>A lock can be taken, or its holder can give it back; both are so when there are no locks at all.\<close>

definition lock_free :: "poa_lock \<Rightarrow> poa_world \<Rightarrow> bool" where
  "lock_free l w \<longleftrightarrow> (\<forall>H. pw_lock w = Some H \<longrightarrow> l \<notin> H)"

definition lock_held :: "poa_lock \<Rightarrow> poa_world \<Rightarrow> bool" where
  "lock_held l w \<longleftrightarrow> (\<forall>H. pw_lock w = Some H \<longrightarrow> l \<in> H)"

definition taken :: "poa_lock \<Rightarrow> poa_world \<Rightarrow> poa_world" where
  "taken l w = w\<lparr> pw_lock := map_option (insert l) (pw_lock w) \<rparr>"

definition dropped :: "poa_lock \<Rightarrow> poa_world \<Rightarrow> poa_world" where
  "dropped l w = w\<lparr> pw_lock := map_option (\<lambda>H. H - {l}) (pw_lock w) \<rparr>"

lemma lock_take: "lock_free l w \<Longrightarrow> LINK_MUTEX_LOCK l w = Inr (taken l w)"
  by (auto simp: LINK_MUTEX_LOCK_def lock_free_def taken_def split: option.split)

lemma lock_stuck: "\<not> lock_free l w \<Longrightarrow> LINK_MUTEX_LOCK l w = Inl Hang"
  by (auto simp: LINK_MUTEX_LOCK_def lock_free_def)

lemma unlock_taken: "lock_free l w \<Longrightarrow> pw_lock v = pw_lock (taken l w) \<Longrightarrow> LINK_MUTEX_UNLOCK l v = Inr (v\<lparr> pw_lock := pw_lock w \<rparr>)"
  by (cases "pw_lock w") (auto simp: LINK_MUTEX_UNLOCK_def lock_free_def taken_def)

lemma unlock_held: "lock_held l w \<Longrightarrow> LINK_MUTEX_UNLOCK l w = Inr (dropped l w)"
  by (cases "pw_lock w") (auto simp: LINK_MUTEX_UNLOCK_def lock_held_def dropped_def)

lemma relock: "lock_held l w \<Longrightarrow> pw_lock v = pw_lock (dropped l w) \<Longrightarrow> LINK_MUTEX_LOCK l v = Inr (v\<lparr> pw_lock := pw_lock w \<rparr>)"
  by (cases "pw_lock w") (auto simp: LINK_MUTEX_LOCK_def lock_held_def dropped_def insert_absorb)

lemma taken_held [simp]: "lock_held l (taken l w)"
  by (auto simp: lock_held_def taken_def)

lemma taken_sel [simp]:
  "pw_pobjs (taken l w) = pw_pobjs w" "pw_poas (taken l w) = pw_poas w" "pw_servants (taken l w) = pw_servants w"
  "pw_managers (taken l w) = pw_managers w" "pw_fresh (taken l w) = pw_fresh w" "pw_host (taken l w) = pw_host w"
  "pw_random (taken l w) = pw_random w" "pw_current (taken l w) = pw_current w" "pw_log (taken l w) = pw_log w"
  "pw_bufs (taken l w) = pw_bufs w" "pw_adaptors (taken l w) = pw_adaptors w"
  by (simp_all add: taken_def)

lemma poa_locks:
  assumes "pw_poas w p = Some a"
  shows "POA_LOCK p w = LINK_MUTEX_LOCK (PoaLock p) w" "POA_UNLOCK p w = LINK_MUTEX_UNLOCK (PoaLock p) w"
  using assms by (simp_all add: POA_LOCK_def POA_UNLOCK_def)

lemma path_lock [simp]: "path (w\<lparr> pw_lock := L \<rparr>) r qs r' = path w r qs r'"
  by (induction qs arbitrary: r) auto

lemma pw_inv_lock [simp]: "pw_inv pins (w\<lparr> pw_lock := L \<rparr>) = pw_inv pins w" "pw_inv pins (taken l w) = pw_inv pins w"
  by (simp_all add: taken_def pw_inv_def tables_ok_def counts_ok_def servants_ok_def active_for_def at_rest_def)

lemma active_map_lock [simp]: "active_map (w\<lparr> pw_lock := L \<rparr>) = active_map w" "active_map (taken l w) = active_map w"
  by (rule ext, simp add: taken_def active_map_def cong: option.case_cong)+

lemma frame_lock [simp]: "fst (frame (w\<lparr> pw_lock := L \<rparr>)) = fst (frame w)" "fst (frame (taken l w)) = fst (frame w)"
  by (simp_all add: taken_def frame_def)

lemma frame_relock: "frame w' = frame w \<Longrightarrow> frame (w'\<lparr> pw_lock := L \<rparr>) = frame (w\<lparr> pw_lock := L \<rparr>)"
proof -
  assume f: "frame w' = frame w"
  have "snd (snd (frame (v\<lparr> pw_lock := L \<rparr>))) = (snd (snd (frame v)))\<lparr> pw_lock := L \<rparr>" for v by (simp add: frame_def)
  moreover have "fst (snd (frame (v\<lparr> pw_lock := L \<rparr>))) = fst (snd (frame v))" for v by (simp add: frame_def)
  ultimately show ?thesis using f by (simp add: prod_eq_iff)
qed

section \<open>Counting\<close>

lemma pobj_duplicate_inv:
  assumes i: "pw_inv pins w" and x: "pw_pobjs w q = Some x"
  shows "pw_inv (add_mset q pins) (pobj_duplicate q w)" "active_map (pobj_duplicate q w) = active_map w"
    "frame (pobj_duplicate q w) = frame w"
proof -
  note I = pw_invD[OF i]
  have "counts_ok (add_mset q pins) (pobj_duplicate q w)"
  proof (rule counts_okI, goal_cases)
    case (1 r y)
    then show ?case using counts_refs[OF I(2)] x by (cases "r = q") (auto simp: pobj_duplicate_def holders_def)
  next
    case (2 r y t n)
    then show ?case using counts_objref[OF I(2)] x by (cases "r = q") (auto simp: pobj_duplicate_def)
  next
    case (3 r)
    then show ?case using counts_pinned[OF I(2)] x by (cases "r = q") (auto simp: pobj_duplicate_def)
  qed
  moreover have "tables_ok (pobj_duplicate q w)" using I(1) by (simp add: pobj_duplicate_def tables_upd)
  moreover have "servants_ok (pobj_duplicate q w)"
    using I(3) by (rule servants_ok_links) (simp_all add: pobj_duplicate_def links_upd)
  moreover have "at_rest (pobj_duplicate q w)" using I(4) by (simp add: pobj_duplicate_def at_rest_upd)
  ultimately show "pw_inv (add_mset q pins) (pobj_duplicate q w)" by (simp add: pw_inv_def)
qed (simp_all add: pobj_duplicate_def active_map_upd)

text \<open>The last release takes the object out of its table; the servants do not notice, it is not active.\<close>

lemma removed_inv:
  assumes i: "pw_inv pins w" and x: "pw_pobjs w q = Some x" and z: "holders x = 0" "q \<notin># pins"
    and w': "w' = upd_poa (po_poa x) (\<lambda>a. a\<lparr> pa_map := AList.delete (po_oid x) (pa_map a) \<rparr>) (w\<lparr> pw_pobjs := (pw_pobjs w)(q := None) \<rparr>)"
  shows "pw_inv pins w'" "active_map w' = active_map w"
proof -
  note I = pw_invD[OF i]
  obtain a where a: "pw_poas w (po_poa x) = Some a" "map_of (pa_map a) (po_oid x) = Some q"
    using tables_object[OF I(1) x] .
  have s: "po_servant x = None" using z(1) by (simp add: holders_def split: if_splits)
  have o': "pw_pobjs w' = (pw_pobjs w)(q := None)" and f': "pw_fresh w' = pw_fresh w" "pw_servants w' = pw_servants w"
    unfolding w' by simp_all
  have p': "pw_poas w' = (pw_poas w)(po_poa x := Some (a\<lparr> pa_map := AList.delete (po_oid x) (pa_map a) \<rparr>))"
    unfolding w' using a(1) by simp
  have k: "po_poa y = po_poa x \<Longrightarrow> po_oid y = po_oid x \<Longrightarrow> pw_pobjs w r = Some y \<Longrightarrow> r = q" for r y
    using tables_object[OF I(1), of r y] a by (metis option.inject)
  have t: "tables_ok w'"
  proof (rule tables_okI, goal_cases)
    case (1 r y)
    then have "pw_pobjs w r = Some y" by (auto simp: o' split: if_splits)
    then show ?case using tables_object[OF I(1)] f' by metis
  next
    case (2 r y)
    then have y: "pw_pobjs w r = Some y" "r \<noteq> q" by (auto simp: o' split: if_splits)
    obtain b where b: "pw_poas w (po_poa y) = Some b" "map_of (pa_map b) (po_oid y) = Some r"
      using tables_object[OF I(1) y(1)] .
    show ?case
    proof (cases "po_poa y = po_poa x")
      case True
      then have "po_oid y \<noteq> po_oid x" using k[OF True _ y(1)] y(2) by blast
      then show ?thesis using True b a(1) by (simp add: p' delete_conv')
    qed (use b in \<open>simp add: p'\<close>)
  next
    case (3 p b)
    then show ?case using tables_distinct[OF I(1)] a(1) by (auto simp: p' distinct_delete split: if_splits)
  next
    case (4 p b oid r)
    then obtain c where c: "pw_poas w p = Some c" "map_of (pa_map c) oid = Some r" "p = po_poa x \<Longrightarrow> oid \<noteq> po_oid x"
      using a(1) by (auto simp: p' delete_conv' split: if_splits)
    obtain y where y: "pw_pobjs w r = Some y" "po_poa y = p" "po_oid y = oid" using tables_entry[OF I(1) c(1,2)] .
    then show ?case using c(3) x by (cases "r = q") (auto simp: o')
  qed
  have m: "links w' r = links w r" if "r \<noteq> q" for r using that by (simp add: links_def o')
  have P: "path w' r qs r'" if "path w r qs r'" "q \<notin> set qs" for r qs r'
    using that by (induction qs arbitrary: r) (auto simp: o')
  have act: "active_for w' u = active_for w u" for u using s x by (auto simp: active_for_def o' split: if_splits)
  have "servants_ok w'"
    unfolding servants_ok_def act f'
  proof (intro conjI allI impI)
    fix u sv assume "pw_servants w u = Some sv"
    then obtain qs where qs: "path w (sv_private sv) qs None" "distinct qs" "set qs = active_for w u"
      using I(3) unfolding servants_ok_def by blast
    then have "q \<notin> set qs" using s x by (auto simp: active_for_def)
    then show "\<exists>qs. path w' (sv_private sv) qs None \<and> distinct qs \<and> set qs = active_for w u" using P qs by blast
  next
    fix r y u assume "pw_pobjs w' r = Some y" "po_servant y = Some u"
    then show "pw_servants w u \<noteq> None" using I(3) unfolding servants_ok_def by (auto simp: o' split: if_splits)
  qed
  moreover have "counts_ok pins w'"
  proof (rule counts_okI, goal_cases)
    case (1 r y)
    then show ?case using counts_refs[OF I(2)] by (auto simp: o' split: if_splits)
  next
    case (2 r y t n)
    then show ?case using counts_objref[OF I(2)] by (auto simp: o' split: if_splits)
  next
    case (3 r)
    then show ?case using counts_pinned[OF I(2)] z(2) by (auto simp: o')
  qed
  moreover have "at_rest w'"
  proof (rule at_restI, goal_cases)
    case (1 r y)
    then show ?case using at_restD(1)[OF I(4)] by (auto simp: o' split: if_splits)
  next
    case (2 r y)
    then have "pw_pobjs w r = Some y" by (auto simp: o' split: if_splits)
    then show ?case by (rule at_restD(2)[OF I(4)])
  next
    case (3 p b)
    then show ?case using at_restD(3)[OF I(4)] a(1) by (auto simp: p' split: if_splits)
  qed
  ultimately show "pw_inv pins w'" using t by (simp add: pw_inv_def)
  show "active_map w' = active_map w"
  proof
    fix k' :: "poa \<times> objid"
    show "active_map w' k' = active_map w k'"
    proof (cases "k' = (po_poa x, po_oid x)")
      case True
      then show ?thesis using active_map_object[OF I(1) x] s by (simp add: active_map_def p' delete_conv')
    next
      case False
      have "map_of (pa_map b) (snd k') \<noteq> Some q" if b: "pw_poas w (fst k') = Some b" for b
        using tables_entry[OF I(1) b, of "snd k'" q] x False by (metis option.inject prod.collapse)
      moreover obtain c d where k': "k' = (c, d)" by fastforce
      ultimately have n: "\<And>b. pw_poas w c = Some b \<Longrightarrow> map_of (pa_map b) d \<noteq> Some q" by simp
      show ?thesis
      proof (cases "c = po_poa x")
        case True
        then have "d \<noteq> po_oid x" using False k' by simp
        then show ?thesis using True a(1) n[of a] by (auto simp: k' active_map_def p' o' delete_conv' split: option.split)
      next
        case c: False
        show ?thesis
        proof (cases "pw_poas w c")
          case (Some b)
          then show ?thesis using c n[OF Some] by (auto simp: k' active_map_def p' o' split: option.split)
        qed (use c in \<open>simp add: k' active_map_def p'\<close>)
      qed
    qed
  qed
qed

lemma pobj_release_inv:
  assumes i: "pw_inv (add_mset q pins) w" and x: "pw_pobjs w q = Some x" and m: "po_refs x < MATECORBA_REFCOUNT_MAX"
  obtains w' where "pobj_release q w = Inr w'" "pw_inv pins w'" "active_map w' = active_map w" "frame w' = frame w"
    "pw_servants w' = pw_servants w" "pw_fresh w' = pw_fresh w" "pw_log w' = pw_log w"
proof -
  note I = pw_invD[OF i]
  have r: "po_refs x = Suc (holders x + count pins q)" using counts_refs[OF I(2) x] by simp
  let ?w = "upd_pobj q (\<lambda>x. x\<lparr> po_refs := po_refs x - 1 \<rparr>) w"
  let ?x = "x\<lparr> po_refs := po_refs x - 1 \<rparr>"
  have "counts_ok pins ?w"
  proof (rule counts_okI, goal_cases)
    case (1 s y)
    then show ?case using counts_refs[OF I(2)] x r by (cases "s = q") (auto simp: holders_def)
  next
    case (2 s y t n)
    then show ?case using counts_objref[OF I(2)] x by (cases "s = q") auto
  next
    case (3 s)
    then show ?case using counts_pinned[OF I(2), of s] x by (cases "s = q") auto
  qed
  moreover have "tables_ok ?w" using I(1) by (simp add: tables_upd)
  moreover have "servants_ok ?w" using I(3) by (rule servants_ok_links) (simp_all add: links_upd)
  moreover have "at_rest ?w" using I(4) by (simp add: at_rest_upd)
  ultimately have inv: "pw_inv pins ?w" by (simp add: pw_inv_def)
  have am: "active_map ?w = active_map w" by (simp add: active_map_upd)
  show thesis
  proof (cases "po_refs x = 1")
    case False
    moreover have "po_refs x \<noteq> 0" using r by simp
    ultimately have "pobj_release q w = Inr ?w" using x m by (simp add: pobj_release_def Let_def)
    then show thesis using that inv am by simp
  next
    case True
    have x': "pw_pobjs ?w q = Some ?x" using x by simp
    have z: "holders ?x = 0" "q \<notin># pins" using True r by (simp_all add: holders_def not_in_iff)
    obtain a where a: "pw_poas ?w (po_poa ?x) = Some a" using tables_object[OF pw_invD(1)[OF inv] x'] .
    let ?w' = "upd_poa (po_poa ?x) (\<lambda>a. a\<lparr> pa_map := AList.delete (po_oid ?x) (pa_map a) \<rparr>)
      (?w\<lparr> pw_pobjs := (pw_pobjs ?w)(q := None) \<rparr>)"
    have "po_servant x = None" using z(1) by (simp add: holders_def split: if_splits)
    moreover have "Deactivating \<notin> pa_life a" using at_restD(3)[OF I(4)] a by simp
    ultimately have "MateCORBA_POAObject_release_cb q ?w = Inr ?w'"
      using x' a by (simp add: MateCORBA_POAObject_release_cb_def Let_def upd_poa_def upd_pobj_def)
    then have "pobj_release q w = Inr ?w'" using x True MATECORBA_REFCOUNT_MAX_def by (simp add: pobj_release_def Let_def)
    moreover have "frame ?w' = frame w" by simp
    ultimately show thesis using that removed_inv[OF inv x' z refl] am by simp
  qed
qed

lemma insert_object_inv:
  assumes i: "pw_inv pins w" and a: "pw_poas w p = Some a" and n: "map_of (pa_map a) oid = None"
    and l: "pa_sysid_hash a \<longrightarrow> 4 \<le> length oid"
  obtains w' x where "insert_object p oid w = Inr (pw_fresh w, w')" "pw_inv pins w'" "active_map w' = active_map w"
    "frame w' = frame w" "pw_servants w' = pw_servants w" "pw_log w' = pw_log w"
    "pw_pobjs w' (pw_fresh w) = Some x" "po_servant x = None" "po_poa x = p" "po_oid x = oid" "po_objref x = None"
proof -
  note I = pw_invD[OF i]
  let ?q = "pw_fresh w"
  define x where "x = \<lparr> po_refs = 0, po_poa = p, po_oid = oid, po_servant = None, po_next = None, po_use_cnt = 0,
           po_life = {}, po_objref = None \<rparr>"
  define w' where "w' = upd_poa p (\<lambda>a. a\<lparr> pa_map := AList.update oid ?q (pa_map a) \<rparr>)
    (w\<lparr> pw_pobjs := (pw_pobjs w)(?q \<mapsto> x), pw_fresh := Suc ?q \<rparr>)"
  have ins: "insert_object p oid w = Inr (?q, w')"
    using a l by (auto simp: insert_object_def Let_def w'_def x_def)
  have o': "pw_pobjs w' = (pw_pobjs w)(?q \<mapsto> x)" and f': "pw_fresh w' = Suc ?q" "pw_servants w' = pw_servants w"
    unfolding w'_def by simp_all
  have p': "pw_poas w' = (pw_poas w)(p := Some (a\<lparr> pa_map := AList.update oid ?q (pa_map a) \<rparr>))"
    unfolding w'_def using a by simp
  have fresh: "pw_pobjs w ?q = None" using I(1) unfolding tables_ok_def by (metis not_None_eq less_irrefl)
  have nx: "po_servant x = None" "po_poa x = p" "po_oid x = oid" "po_objref x = None" by (simp_all add: x_def)
  have t: "tables_ok w'"
  proof (rule tables_okI, goal_cases)
    case (1 r y)
    then show ?case using I(1) unfolding tables_ok_def by (auto simp: o' f' less_SucI split: if_splits)
  next
    case (2 r y)
    show ?case
    proof (cases "r = ?q")
      case True
      then show ?thesis using 2 nx by (simp add: o' p' update_conv')
    next
      case False
      then have y: "pw_pobjs w r = Some y" using 2 by (simp add: o')
      obtain b where b: "pw_poas w (po_poa y) = Some b" "map_of (pa_map b) (po_oid y) = Some r"
        using tables_object[OF I(1) y] .
      then show ?thesis using a n by (cases "po_poa y = p") (auto simp: p' update_conv')
    qed
  next
    case (3 c b)
    then show ?case using tables_distinct[OF I(1)] a by (auto simp: p' distinct_update split: if_splits)
  next
    case (4 c b i r)
    show ?case
    proof (cases "c = p \<and> i = oid")
      case True
      then have "r = ?q" using 4 by (auto simp: p' update_conv')
      then show ?thesis using True nx by (simp add: o')
    next
      case False
      obtain d where d: "pw_poas w c = Some d" "map_of (pa_map d) i = Some r"
        using 4 False a by (cases "c = p") (auto simp: p' update_conv')
      obtain y where y: "pw_pobjs w r = Some y" "po_poa y = c" "po_oid y = i" using tables_entry[OF I(1) d] .
      then show ?thesis using fresh by (cases "r = ?q") (auto simp: o')
    qed
  qed
  have m: "links w' r = links w r" if "r \<noteq> ?q" for r using that by (simp add: links_def o')
  have P: "path w' r qs r'" if "path w r qs r'" for r qs r'
    using that fresh by (induction qs arbitrary: r) (auto simp: o')
  have act: "active_for w' u = active_for w u" for u using fresh nx by (auto simp: active_for_def o' split: if_splits)
  have "servants_ok w'"
    unfolding servants_ok_def act f'
  proof (intro conjI allI impI)
    fix u sv assume "pw_servants w u = Some sv"
    then show "\<exists>qs. path w' (sv_private sv) qs None \<and> distinct qs \<and> set qs = active_for w u"
      using I(3) P unfolding servants_ok_def by blast
  next
    fix r y u assume "pw_pobjs w' r = Some y" "po_servant y = Some u"
    then show "pw_servants w u \<noteq> None" using I(3) nx unfolding servants_ok_def by (auto simp: o' split: if_splits)
  qed
  moreover have pin: "?q \<notin># pins" using counts_pinned[OF I(2)] fresh by fastforce
  have "counts_ok pins w'"
  proof (rule counts_okI, goal_cases)
    case (1 r y)
    then show ?case using counts_refs[OF I(2)] pin by (auto simp: o' x_def holders_def not_in_iff split: if_splits)
  next
    case (2 r y t n)
    then show ?case using counts_objref[OF I(2)] nx by (auto simp: o' split: if_splits)
  next
    case (3 r)
    then show ?case using counts_pinned[OF I(2)] by (auto simp: o')
  qed
  moreover have "at_rest w'"
  proof (rule at_restI, goal_cases)
    case (1 r y)
    then show ?case using at_restD(1)[OF I(4)] by (auto simp: o' x_def split: if_splits)
  next
    case (2 r y)
    then show ?case using at_restD(2)[OF I(4), of r y] by (cases "r = ?q") (auto simp: o' x_def)
  next
    case (3 p b)
    then show ?case using at_restD(3)[OF I(4)] a by (auto simp: p' split: if_splits)
  qed
  ultimately have inv: "pw_inv pins w'" using t by (simp add: pw_inv_def)
  have "active_map w' = active_map w"
  proof
    fix k :: "poa \<times> objid"
    obtain c d where k: "k = (c, d)" by fastforce
    show "active_map w' k = active_map w k"
    proof (cases "pw_poas w c")
      case None
      then show ?thesis using a by (auto simp: k active_map_def p')
    next
      case (Some b)
      have "map_of (pa_map b) d \<noteq> Some ?q" using tables_entry[OF I(1) Some] fresh by fastforce
      then show ?thesis using a n nx Some by (cases "c = p") (auto simp: k active_map_def p' o' update_conv' split: option.split)
    qed
  qed
  moreover have "frame w' = frame w" "pw_log w' = pw_log w" unfolding w'_def by simp_all
  ultimately show thesis using that[OF ins inv _ _ _ _ _ nx(1-4)] f' by (simp add: o' nx)
qed

section \<open>Changes that the invariant does not see\<close>

lemma pw_inv_same:
  assumes i: "pw_inv pins w" and o': "pw_pobjs w' = pw_pobjs w" "pw_servants w' = pw_servants w" "pw_fresh w' = pw_fresh w"
    and p': "\<And>p. map_option (\<lambda>a. (pa_map a, pa_life a)) (pw_poas w' p) = map_option (\<lambda>a. (pa_map a, pa_life a)) (pw_poas w p)"
  shows "pw_inv pins w'" "active_map w' = active_map w"
proof -
  note I = pw_invD[OF i]
  have to: "\<exists>b. pw_poas w p = Some b \<and> pa_map b = pa_map a \<and> pa_life b = pa_life a" if "pw_poas w' p = Some a" for p a
    using p'[of p] that by (cases "pw_poas w p") auto
  have un: "\<exists>b. pw_poas w' p = Some b \<and> pa_map b = pa_map a \<and> pa_life b = pa_life a" if "pw_poas w p = Some a" for p a
    using p'[of p] that by (cases "pw_poas w' p") auto
  have "tables_ok w'"
  proof (rule tables_okI, goal_cases)
    case (1 q x)
    then show ?case using I(1) by (auto simp: tables_ok_def o')
  next
    case (2 q x)
    then obtain a where "pw_poas w (po_poa x) = Some a" "map_of (pa_map a) (po_oid x) = Some q" using tables_object[OF I(1)] o' by metis
    then show ?case using un by metis
  next
    case (3 p a)
    then show ?case using to tables_distinct[OF I(1)] by metis
  next
    case (4 p a oid q)
    then show ?case using to tables_entry[OF I(1)] o' by metis
  qed
  moreover have "counts_ok pins w'" using I(2) by (simp add: counts_ok_def o')
  moreover have "servants_ok w'" using I(3) by (rule servants_ok_links) (simp_all add: links_def o' fun_eq_iff)
  moreover have "at_rest w'"
  proof (rule at_restI, goal_cases)
    case (1 q x)
    then show ?case using at_restD(1)[OF I(4)] o' by metis
  next
    case (2 q x)
    then show ?case using at_restD(2)[OF I(4)] o' by metis
  next
    case (3 p a)
    then show ?case using at_restD(3)[OF I(4)] to by metis
  qed
  ultimately show "pw_inv pins w'" by (simp add: pw_inv_def)
  show "active_map w' = active_map w"
  proof
    fix k show "active_map w' k = active_map w k"
      using to[of "fst k"] un[of "fst k"] unfolding active_map_def o'
      by (cases "pw_poas w (fst k)"; cases "pw_poas w' (fst k)") auto
  qed
qed

section \<open>Activation\<close>

lemma servants_path:
  assumes "servants_ok w" "pw_servants w s = Some sv"
  obtains qs where "path w (sv_private sv) qs None" "distinct qs" "set qs = active_for w s"
  using assms unfolding servants_ok_def by blast

lemma servants_known: "servants_ok w \<Longrightarrow> pw_pobjs w q = Some x \<Longrightarrow> po_servant x = Some s \<Longrightarrow> \<exists>sv. pw_servants w s = Some sv"
  unfolding servants_ok_def by blast

lemma active_map_entry:
  assumes "tables_ok w" "active_map w k = Some s"
  obtains q x where "pw_pobjs w q = Some x" "po_servant x = Some s" "k = (po_poa x, po_oid x)"
proof -
  obtain b r y where b: "pw_poas w (fst k) = Some b" "map_of (pa_map b) (snd k) = Some r" "pw_pobjs w r = Some y"
      "po_servant y = Some s"
    using assms(2) by (auto simp: active_map_def split: option.splits)
  then show thesis using tables_entry[OF assms(1) b(1,2)] that by (metis option.inject prod.collapse)
qed

text \<open>A servant has an object exactly when it is active somewhere, in whichever adaptor.\<close>

lemma servant_active_iff:
  assumes i: "tables_ok w" "servants_ok w" and s: "pw_servants w s = Some sv"
  shows "sv_private sv \<noteq> None \<longleftrightarrow> (\<exists>k. active_map w k = Some s)"
proof -
  obtain qs where qs: "path w (sv_private sv) qs None" "set qs = active_for w s" using servants_path[OF i(2) s] .
  have "sv_private sv \<noteq> None \<longleftrightarrow> active_for w s \<noteq> {}" using path_start[OF qs(1)] qs(2) by (cases qs) auto
  also have "\<dots> \<longleftrightarrow> (\<exists>k. active_map w k = Some s)"
  proof
    assume "active_for w s \<noteq> {}"
    then obtain q x where "pw_pobjs w q = Some x" "po_servant x = Some s" by (auto simp: active_for_def)
    then show "\<exists>k. active_map w k = Some s" using active_map_object[OF i(1)] by metis
  next
    assume "\<exists>k. active_map w k = Some s"
    then obtain k where k: "active_map w k = Some s" by blast
    show "active_for w s \<noteq> {}" using active_map_entry[OF i(1) k] unfolding active_for_def by blast
  qed
  finally show ?thesis .
qed

lemma activate_object_inv:
  assumes i: "pw_inv pins w" and x: "pw_pobjs w q = Some x" "po_servant x = None"
    and a: "pw_poas w p = Some a" "DeactivateDo \<notin> pa_life a" and s: "pw_servants w s = Some sv"
  obtains w' where "MateCORBA_POA_activate_object_T p q (Some s) w = Inr w'" "pw_inv pins w'"
    "active_map w' = (active_map w)((po_poa x, po_oid x) \<mapsto> s)" "frame w' = frame w" "pw_log w' = pw_log w"
    "pw_pobjs w' q = Some (x\<lparr> po_servant := Some s, po_next := sv_private sv, po_refs := Suc (po_refs x) \<rparr>)"
proof -
  note I = pw_invD[OF i]
  let ?x = "x\<lparr> po_servant := Some s, po_next := sv_private sv, po_refs := Suc (po_refs x) \<rparr>"
  define w' where "w' = pobj_duplicate q (upd_servant s (\<lambda>sv. sv\<lparr> sv_private := Some q \<rparr>)
    (upd_pobj q (\<lambda>x. x\<lparr> po_servant := Some s, po_next := sv_private sv \<rparr>) w))"
  have act: "MateCORBA_POA_activate_object_T p q (Some s) w = Inr w'"
    using x a s at_restD(1)[OF I(4) x(1)] by (simp add: MateCORBA_POA_activate_object_T_def Let_def w'_def)
  have o': "pw_pobjs w' = (pw_pobjs w)(q \<mapsto> ?x)" and p': "pw_poas w' = pw_poas w" and n': "pw_fresh w' = pw_fresh w"
    and s': "pw_servants w' = (pw_servants w)(s \<mapsto> sv\<lparr> sv_private := Some q \<rparr>)"
    unfolding w'_def pobj_duplicate_def using x s by simp_all
  have t: "tables_ok w'" unfolding w'_def pobj_duplicate_def using I(1) by (simp add: tables_upd)
  have P: "path w' r qs r'" if "path w r qs r'" "q \<notin> set qs" for r qs r'
    using that by (induction qs arbitrary: r) (auto simp: o')
  have A: "active_for w' u = (if u = s then insert q (active_for w s) else active_for w u)" for u
    using x by (auto simp: active_for_def o')
  have nq: "q \<notin> active_for w u" for u using x by (simp add: active_for_def)
  have "servants_ok w'"
    unfolding servants_ok_def
  proof (intro conjI allI impI)
    fix u v assume u: "pw_servants w' u = Some v"
    show "\<exists>qs. path w' (sv_private v) qs None \<and> distinct qs \<and> set qs = active_for w' u"
    proof (cases "u = s")
      case True
      obtain qs where qs: "path w (sv_private sv) qs None" "distinct qs" "set qs = active_for w s"
        using servants_path[OF I(3) s] .
      then have "q \<notin> set qs" using nq by simp
      then have "path w' (sv_private v) (q # qs) None" "distinct (q # qs)"
        using u True P[OF qs(1)] qs(2) by (auto simp: s' o')
      then show ?thesis using qs(3) True by (intro exI[of _ "q # qs"]) (simp add: A)
    next
      case False
      then have "pw_servants w u = Some v" using u by (simp add: s')
      then obtain qs where qs: "path w (sv_private v) qs None" "distinct qs" "set qs = active_for w u"
        using servants_path[OF I(3)] by blast
      then show ?thesis using P[OF qs(1)] nq False by (intro exI[of _ qs]) (simp add: A)
    qed
  next
    fix r y u assume "pw_pobjs w' r = Some y" "po_servant y = Some u"
    then show "pw_servants w' u \<noteq> None" using servants_known[OF I(3)] by (auto simp: o' s' split: if_splits)
  qed
  moreover have "counts_ok pins w'"
  proof (rule counts_okI, goal_cases)
    case (1 r y)
    then show ?case using counts_refs[OF I(2)] x by (cases "r = q") (auto simp: o' holders_def)
  next
    case (2 r y t n)
    then show ?case using counts_objref[OF I(2)] x by (cases "r = q") (auto simp: o')
  next
    case (3 r)
    then show ?case using counts_pinned[OF I(2)] by (auto simp: o')
  qed
  moreover have "at_rest w'"
  proof (rule at_restI, goal_cases)
    case (1 r y)
    then show ?case using at_restD(1)[OF I(4)] x by (cases "r = q") (auto simp: o')
  next
    case (2 r y)
    then show ?case using at_restD(2)[OF I(4), of r] at_restD(2)[OF I(4) x(1)] by (cases "r = q") (auto simp: o')
  next
    case (3 p b)
    then show ?case using at_restD(3)[OF I(4)] by (simp add: p')
  qed
  ultimately have inv: "pw_inv pins w'" using t by (simp add: pw_inv_def)
  have "active_map w' = (active_map w)((po_poa x, po_oid x) \<mapsto> s)"
  proof (rule active_map_eqI[OF I(1) t])
    fix r y assume y: "pw_pobjs w r = Some y"
    show "active_map w' (po_poa y, po_oid y) = ((active_map w)((po_poa x, po_oid x) \<mapsto> s)) (po_poa y, po_oid y)"
    proof (cases "r = q")
      case True
      then show ?thesis using active_map_object[OF t, of q ?x] y x by (simp add: o')
    next
      case False
      have "(po_poa y, po_oid y) \<noteq> (po_poa x, po_oid x)"
        using tables_object[OF I(1) y] tables_object[OF I(1) x(1)] False by (metis option.inject prod.inject)
      then show ?thesis using active_map_object[OF t, of r y] active_map_object[OF I(1) y] False y by (auto simp: o')
    qed
  next
    fix r y assume y: "pw_pobjs w' r = Some y"
    show "po_servant y = ((active_map w)((po_poa x, po_oid x) \<mapsto> s)) (po_poa y, po_oid y)"
    proof (cases "r = q")
      case False
      then have y': "pw_pobjs w r = Some y" using y by (simp add: o')
      have "(po_poa y, po_oid y) \<noteq> (po_poa x, po_oid x)"
        using tables_object[OF I(1) y'] tables_object[OF I(1) x(1)] False by (metis option.inject prod.inject)
      then show ?thesis using active_map_object[OF I(1) y'] by auto
    qed (use y in \<open>auto simp: o'\<close>)
  next
    fix k assume k: "((active_map w)((po_poa x, po_oid x) \<mapsto> s)) k \<noteq> None"
    show "\<exists>r y. pw_pobjs w r = Some y \<and> k = (po_poa y, po_oid y)"
    proof (cases "k = (po_poa x, po_oid x)")
      case False
      then obtain v where "active_map w k = Some v" using k by auto
      then show ?thesis using active_map_entry[OF I(1)] by metis
    qed (use x in blast)
  qed
  moreover have "frame w' = frame w" "pw_log w' = pw_log w" by (simp_all add: w'_def pobj_duplicate_def)
  ultimately show thesis using that[OF act inv] o' by simp
qed

end
