(* ===== verification/Poa_Life.thy ===== *)
theory Poa_Life imports Poa_Inv begin

text \<open>
  Deactivation of an object, and the life of its reference: the object leaves its servant's list, the application
  hears of it, and the last one who holds the object frees it.
\<close>

section \<open>Out of the servant's list\<close>

lemma path_agree:
  assumes "\<And>q. q \<in> set qs \<Longrightarrow> map_option po_next (pw_pobjs w' q) = map_option po_next (pw_pobjs w q)"
  shows "path w' r qs r' = path w r qs r'"
  using assms
proof (induction qs arbitrary: r)
  case (Cons q qs)
  then have "map_option po_next (pw_pobjs w' q) = map_option po_next (pw_pobjs w q)" by simp
  moreover have "\<And>r. path w' r qs r' = path w r qs r'" using Cons by simp
  ultimately show ?case by (cases "pw_pobjs w q"; cases "pw_pobjs w' q") simp_all
qed simp

lemma find_prev_path:
  assumes "path w r (as @ l # q # bs) None" "distinct (as @ l # q # bs)" "length as < n"
  shows "find_prev n w q r = Inr l"
  using assms
proof (induction as arbitrary: r n)
  case Nil
  then show ?case by (cases n) auto
next
  case (Cons b as)
  then obtain x m where x: "r = Some b" "pw_pobjs w b = Some x" "path w (po_next x) (as @ l # q # bs) None" "n = Suc m"
    by (cases n) auto
  then have "po_next x \<noteq> Some q" using Cons.prems(2) by (cases as) auto
  then show ?case using x Cons by simp
qed

lemma path_length:
  assumes "tables_ok w" "path w r qs r'" "distinct qs"
  shows "length qs \<le> pw_fresh w"
proof -
  have "q < pw_fresh w" if "q \<in> set qs" for q
    using path_objects[OF assms(2) that] assms(1) unfolding tables_ok_def by blast
  then have "set qs \<subseteq> {..<pw_fresh w}" by blast
  then have "card (set qs) \<le> card {..<pw_fresh w}" by (rule card_mono[OF finite_lessThan])
  then show ?thesis using distinct_card[OF assms(3)] by simp
qed

lemma unlink_object_path:
  assumes qs: "path w (sv_private sv) qs None" "distinct qs" "q \<in> set qs" "length qs \<le> pw_fresh w"
    and s: "pw_servants w s = Some sv"
  obtains w' nxt where "unlink_object s q w = Inr w'" "frame w' = frame w" "pw_poas w' = pw_poas w" "pw_fresh w' = pw_fresh w"
    "pw_log w' = pw_log w" "pw_pobjs w' = (\<lambda>r. map_option (\<lambda>y. y\<lparr> po_next := nxt r y \<rparr>) (pw_pobjs w r))"
    "\<And>r y. r \<notin> set qs \<Longrightarrow> nxt r y = po_next y" "\<And>y. nxt q y = None"
    "\<exists>h. pw_servants w' = (pw_servants w)(s \<mapsto> sv\<lparr> sv_private := h \<rparr>) \<and> path w' h (remove1 q qs) None"
proof -
  obtain as bs where split: "qs = as @ q # bs" using qs(3) by (meson split_list)
  have nb: "q \<notin> set as" "q \<notin> set bs" using qs(2) split by auto
  obtain x where x: "pw_pobjs w q = Some x" using path_objects[OF qs(1,3)] by auto
  have rm: "remove1 q qs = as @ bs" using split nb by (simp add: remove1_append)
  show thesis
  proof (cases "as" rule: rev_cases)
    case Nil
    then have p: "sv_private sv = Some q" "path w (po_next x) bs None" using qs(1) split x by auto
    let ?w = "upd_pobj q (\<lambda>x. x\<lparr> po_next := None \<rparr>) (upd_servant s (\<lambda>sv. sv\<lparr> sv_private := po_next x \<rparr>) w)"
    have "unlink_object s q w = Inr ?w" using s x p by (simp add: unlink_object_def)
    moreover have "pw_pobjs ?w = (\<lambda>r. map_option (\<lambda>y. y\<lparr> po_next := (if r = q then None else po_next y) \<rparr>) (pw_pobjs w r))"
      by (rule ext) (simp add: map_option_case split: option.split)
    moreover have "path ?w (po_next x) bs None" using p(2) nb by (simp add: path_upd)
    moreover have "pw_servants ?w = (pw_servants w)(s \<mapsto> sv\<lparr> sv_private := po_next x \<rparr>)" using s by simp
    ultimately show thesis
      using Nil rm qs(3) by (intro that[of ?w "\<lambda>r y. if r = q then None else po_next y"] exI[of _ "po_next x"]) auto
  next
    case (snoc cs l)
    then have p: "path w (sv_private sv) (cs @ l # q # bs) None" "distinct (cs @ l # q # bs)" using qs split by simp_all
    then have f: "find_prev (pw_fresh w) w q (sv_private sv) = Inr l"
      using qs(4) split snoc by (intro find_prev_path) auto
    obtain y where y: "pw_pobjs w l = Some y" "path w (sv_private sv) cs (Some l)" "path w (po_next x) bs None"
      using p(1) x by (auto simp: path_append)
    have hd: "sv_private sv \<noteq> Some q" using p by (cases cs) auto
    let ?w = "upd_pobj q (\<lambda>x. x\<lparr> po_next := None \<rparr>) (upd_pobj l (\<lambda>y. y\<lparr> po_next := po_next x \<rparr>) w)"
    let ?n = "\<lambda>r y. if r = q then None else if r = l then po_next x else po_next y"
    have "unlink_object s q w = Inr ?w" using s x f hd by (simp add: unlink_object_def)
    moreover have "pw_pobjs ?w = (\<lambda>r. map_option (\<lambda>y. y\<lparr> po_next := ?n r y \<rparr>) (pw_pobjs w r))"
      using p(2) by (intro ext) (auto simp: map_option_case split: option.split)
    moreover have "path ?w (sv_private sv) (cs @ l # bs) None"
    proof -
      have d: "l \<notin> set cs" "q \<notin> set cs" "l \<notin> set bs" "q \<notin> set bs" "l \<noteq> q" using p(2) by auto
      have "path ?w (sv_private sv) cs (Some l)" using y(2) d by (simp add: path_upd)
      moreover have "path ?w (po_next x) bs None" using y(3) d by (simp add: path_upd)
      ultimately show ?thesis using y(1) d by (auto simp: path_append)
    qed
    moreover have "pw_servants ?w = (pw_servants w)(s \<mapsto> sv\<lparr> sv_private := sv_private sv \<rparr>)" using s by (auto simp: fun_upd_idem)
    ultimately show thesis using that[of ?w ?n] rm snoc split by fastforce
  qed
qed

section \<open>Deactivation\<close>

text \<open>An application that only writes its log when it hears that a servant is not active any more.\<close>

definition quiet :: "app \<Rightarrow> bool" where
  "quiet app \<longleftrightarrow> (\<forall>s f w. ap_finalize app s = Some f \<longrightarrow> (\<exists>l. f w = Inr (w\<lparr> pw_log := pw_log w @ l \<rparr>)))
     \<and> (\<forall>sm oid p s c w. \<exists>l. ap_etherealize app sm oid p s c w = Inr (w\<lparr> pw_log := pw_log w @ l \<rparr>))"

text \<open>An adaptor that is not about to be destroyed and has the servant manager its policies ask for.\<close>

definition settled :: "adaptor \<Rightarrow> bool" where
  "settled a \<longleftrightarrow> DeactivateDo \<notin> pa_life a
     \<and> (p_request_processing (pa_policies a) = USE_SERVANT_MANAGER \<longrightarrow> pa_servant_manager a \<noteq> None)"

lemma etherealize_quiet:
  assumes "quiet app" "pw_pobjs w q = Some x" "pw_poas w p = Some a" "settled a" and held: "lock_held (PoaLock p) w"
  obtains l where "etherealize_object app p q s w = Inr (w\<lparr> pw_log := pw_log w @ l \<rparr>)"
proof -
  let ?w = "upd_pobj q (\<lambda>x. x\<lparr> po_use_cnt := po_use_cnt x + 1 \<rparr>) w"
  have "\<exists>l. (if p_request_processing (pa_policies a) = USE_SERVANT_MANAGER
         then (case pa_servant_manager a of None \<Rightarrow> Inl Abort
           | Some sm \<Rightarrow> ap_etherealize app sm (po_oid x) p s (IsCleanup \<in> po_life x) ?w)
         else Inr ?w) = Inr (?w\<lparr> pw_log := pw_log ?w @ l \<rparr>)"
  proof (cases "p_request_processing (pa_policies a) = USE_SERVANT_MANAGER")
    case True
    then obtain sm where "pa_servant_manager a = Some sm" using assms(4) by (auto simp: settled_def)
    moreover have "\<exists>l. ap_etherealize app sm (po_oid x) p s (IsCleanup \<in> po_life x) ?w = Inr (?w\<lparr> pw_log := pw_log ?w @ l \<rparr>)" for sm
      using assms(1) unfolding quiet_def by blast
    ultimately show ?thesis using True by simp
  qed (auto intro: exI[of _ "[]"])
  then obtain l where l: "(if p_request_processing (pa_policies a) = USE_SERVANT_MANAGER
         then (case pa_servant_manager a of None \<Rightarrow> Inl Abort
           | Some sm \<Rightarrow> ap_etherealize app sm (po_oid x) p s (IsCleanup \<in> po_life x) ?w)
         else Inr ?w) = Inr (?w\<lparr> pw_log := pw_log ?w @ l \<rparr>)" by blast
  define v where "v = ?w\<lparr> pw_log := pw_log w @ l \<rparr>"
  have vl: "lock_held (PoaLock p) v" "pw_poas v = pw_poas w" using held by (simp_all add: v_def lock_held_def)
  have "\<exists>l'. (case ap_finalize app s of None \<Rightarrow> Inr v
       | Some f \<Rightarrow> rbind (POA_UNLOCK p v) (\<lambda>w. rbind (f w) (POA_LOCK p))) = Inr (v\<lparr> pw_log := pw_log v @ l' \<rparr>)"
  proof (cases "ap_finalize app s")
    case (Some f)
    then obtain l' where f: "f (dropped (PoaLock p) v) = Inr ((dropped (PoaLock p) v)\<lparr> pw_log := pw_log (dropped (PoaLock p) v) @ l' \<rparr>)"
      using assms(1) unfolding quiet_def by blast
    have "POA_UNLOCK p v = Inr (dropped (PoaLock p) v)" using poa_locks(2)[of v] assms(3) vl unlock_held by simp
    moreover have "POA_LOCK p ((dropped (PoaLock p) v)\<lparr> pw_log := pw_log (dropped (PoaLock p) v) @ l' \<rparr>)
        = Inr (v\<lparr> pw_log := pw_log v @ l' \<rparr>)"
      using poa_locks(1)[of "(dropped (PoaLock p) v)\<lparr> pw_log := pw_log (dropped (PoaLock p) v) @ l' \<rparr>"] assms(3) vl
        relock[OF vl(1), of "(dropped (PoaLock p) v)\<lparr> pw_log := pw_log (dropped (PoaLock p) v) @ l' \<rparr>"]
      by (simp add: dropped_def)
    ultimately show ?thesis using Some f by auto
  qed (auto intro: exI[of _ "[]"])
  then obtain l' where l': "(case ap_finalize app s of None \<Rightarrow> Inr v
       | Some f \<Rightarrow> rbind (POA_UNLOCK p v) (\<lambda>w. rbind (f w) (POA_LOCK p))) = Inr (?w\<lparr> pw_log := pw_log w @ l @ l' \<rparr>)"
    by (auto simp: v_def)
  have "upd_pobj q (\<lambda>x. x\<lparr> po_use_cnt := po_use_cnt x - 1 \<rparr>) (?w\<lparr> pw_log := m \<rparr>) = w\<lparr> pw_log := m \<rparr>" for m
    using assms(2) by (simp add: upd_pobj_def update_same)
  then have "etherealize_object app p q s w = Inr (w\<lparr> pw_log := pw_log w @ (l @ l') \<rparr>)"
    using assms(2,3) by (simp add: etherealize_object_def Let_def l l'[unfolded v_def] the_pobj_def)
  then show thesis by (rule that)
qed

text \<open>What the object's servant and its list look like when the object has been taken out of it.\<close>

lemma unlinked_inv:
  assumes i: "pw_inv pins w" and x: "pw_pobjs w q = Some x" "po_servant x = Some s"
    and w1: "w1 = upd_pobj q (\<lambda>x. x\<lparr> po_life := lf, po_servant := None \<rparr>) w"
  obtains w2 where "unlink_object s q w1 = Inr w2" "frame w2 = frame w" "pw_log w2 = pw_log w" "pw_poas w2 = pw_poas w"
    "pw_pobjs w2 q = Some (x\<lparr> po_life := lf, po_servant := None, po_next := None \<rparr>)"
    "\<And>l. pw_inv (add_mset q pins) (upd_pobj q (\<lambda>y. y\<lparr> po_life := po_life x \<rparr>) (w2\<lparr> pw_log := l \<rparr>))
       \<and> active_map (upd_pobj q (\<lambda>y. y\<lparr> po_life := po_life x \<rparr>) (w2\<lparr> pw_log := l \<rparr>)) = (active_map w)((po_poa x, po_oid x) := None)"
proof -
  note I = pw_invD[OF i]
  obtain sv where sv: "pw_servants w s = Some sv" using servants_known[OF I(3) x] by blast
  obtain qs where qs: "path w (sv_private sv) qs None" "distinct qs" "set qs = active_for w s" using servants_path[OF I(3) sv] .
  have q: "q \<in> set qs" using qs(3) x by (simp add: active_for_def)
  have "path w1 (sv_private sv) qs None" using qs(1) by (simp add: w1 path_next)
  moreover have "length qs \<le> pw_fresh w1" using path_length[OF I(1) qs(1,2)] by (simp add: w1)
  moreover have "pw_servants w1 s = Some sv" using sv by (simp add: w1)
  ultimately obtain w2 nxt where u: "unlink_object s q w1 = Inr w2" "frame w2 = frame w1" "pw_poas w2 = pw_poas w1"
      "pw_fresh w2 = pw_fresh w1" "pw_log w2 = pw_log w1"
      "pw_pobjs w2 = (\<lambda>r. map_option (\<lambda>y. y\<lparr> po_next := nxt r y \<rparr>) (pw_pobjs w1 r))"
      "\<And>r y. r \<notin> set qs \<Longrightarrow> nxt r y = po_next y" "\<And>y. nxt q y = None"
      "\<exists>h. pw_servants w2 = (pw_servants w1)(s \<mapsto> sv\<lparr> sv_private := h \<rparr>) \<and> path w2 h (remove1 q qs) None"
    using unlink_object_path[OF _ qs(2) q] by blast
  obtain h where h: "pw_servants w2 = (pw_servants w)(s \<mapsto> sv\<lparr> sv_private := h \<rparr>)" "path w2 h (remove1 q qs) None"
    using u(9) by (auto simp: w1)
  have o2: "pw_pobjs w2 q = Some (x\<lparr> po_life := lf, po_servant := None, po_next := None \<rparr>)"
    using x by (simp add: u(6,8) w1)
  have inv: "pw_inv (add_mset q pins) w3 \<and> active_map w3 = (active_map w)((po_poa x, po_oid x) := None)"
    if w3: "w3 = upd_pobj q (\<lambda>y. y\<lparr> po_life := po_life x \<rparr>) (w2\<lparr> pw_log := l \<rparr>)" for w3 l
  proof -
    let ?x = "x\<lparr> po_servant := None, po_next := None \<rparr>"
    have oq: "pw_pobjs w3 q = Some ?x" using o2 by (simp add: w3)
    have or: "pw_pobjs w3 r = map_option (\<lambda>y. y\<lparr> po_next := nxt r y \<rparr>) (pw_pobjs w r)" if "r \<noteq> q" for r
      using that by (simp add: w3 u(6) w1)
    have p3: "pw_poas w3 = pw_poas w" "pw_fresh w3 = pw_fresh w" "pw_servants w3 = (pw_servants w)(s \<mapsto> sv\<lparr> sv_private := h \<rparr>)"
      using u(3,4) h(1) by (simp_all add: w3 w1)
    have obj: "\<exists>z n. pw_pobjs w r = Some z \<and> y = (if r = q then ?x else z\<lparr> po_next := n \<rparr>)" if "pw_pobjs w3 r = Some y" for r y
      using that or[of r] oq x(1) by (cases "r = q") auto
    have t: "tables_ok w3"
    proof (rule tables_okI, goal_cases)
      case (1 r y)
      then show ?case using obj[OF 1] I(1) p3 unfolding tables_ok_def by metis
    next
      case (2 r y)
      obtain z n where z: "pw_pobjs w r = Some z" "y = (if r = q then ?x else z\<lparr> po_next := n \<rparr>)" using obj[OF 2] by blast
      then have "po_poa y = po_poa z" "po_oid y = po_oid z" using x by auto
      then show ?case using tables_object[OF I(1) z(1)] p3 by metis
    next
      case (3 p a)
      then show ?case using tables_distinct[OF I(1)] p3 by simp
    next
      case (4 p a oid r)
      then obtain z where z: "pw_pobjs w r = Some z" "po_poa z = p" "po_oid z = oid" using tables_entry[OF I(1)] p3 by metis
      then show ?case using or[of r] oq x by (cases "r = q") auto
    qed
    have A: "active_for w3 v = active_for w v - {q}" for v
    proof (intro set_eqI iffI)
      fix r assume "r \<in> active_for w3 v"
      then obtain y where y: "pw_pobjs w3 r = Some y" "po_servant y = Some v" by (auto simp: active_for_def)
      then show "r \<in> active_for w v - {q}" using obj[OF y(1)] by (cases "r = q") (auto simp: active_for_def)
    next
      fix r assume "r \<in> active_for w v - {q}"
      then show "r \<in> active_for w3 v" using or[of r] by (auto simp: active_for_def)
    qed
    have "servants_ok w3"
      unfolding servants_ok_def
    proof (intro conjI allI impI)
      fix v c assume c: "pw_servants w3 v = Some c"
      show "\<exists>qs. path w3 (sv_private c) qs None \<and> distinct qs \<and> set qs = active_for w3 v"
      proof (cases "v = s")
        case True
        have "path w3 h (remove1 q qs) None"
          using h(2) by (subst path_agree[of _ _ w2]) (auto simp: w3 map_option.compositionality o_def)
        then show ?thesis using True c qs(2,3) by (intro exI[of _ "remove1 q qs"]) (auto simp: p3 A)
      next
        case False
        then have c': "pw_servants w v = Some c" using c by (simp add: p3)
        obtain rs where rs: "path w (sv_private c) rs None" "distinct rs" "set rs = active_for w v" using servants_path[OF I(3) c'] .
        have dis: "r \<notin> set qs" "r \<noteq> q" if "r \<in> set rs" for r
          using that False x rs(3) qs(3) by (auto simp: active_for_def)
        have "path w3 (sv_private c) rs None"
          using rs(1) by (subst path_agree[of _ _ w]) (auto simp: or[OF dis(2)] u(7)[OF dis(1)] map_option.compositionality o_def)
        moreover have "q \<notin> active_for w v" using False x by (simp add: active_for_def)
        ultimately show ?thesis using rs by (intro exI[of _ rs]) (simp add: A)
      qed
    next
      fix r y v assume y: "pw_pobjs w3 r = Some y" "po_servant y = Some v"
      then obtain z where "pw_pobjs w r = Some z" "po_servant z = Some v" using obj[OF y(1)] by (cases "r = q") auto
      then show "pw_servants w3 v \<noteq> None" using servants_known[OF I(3)] by (auto simp: p3)
    qed
    moreover have "counts_ok (add_mset q pins) w3"
    proof (rule counts_okI, goal_cases)
      case (1 r y)
      then show ?case using obj[OF 1] counts_refs[OF I(2)] x by (cases "r = q") (auto simp: holders_def)
    next
      case (2 r y t n)
      then show ?case using obj[OF 2(1)] counts_objref[OF I(2)] x by (cases "r = q") auto
    next
      case (3 r)
      then show ?case using counts_pinned[OF I(2), of r] or[of r] oq by (cases "r = q") auto
    qed
    moreover have "at_rest w3"
    proof (rule at_restI, goal_cases)
      case (1 r y)
      then show ?case using obj[OF 1] at_restD(1)[OF I(4)] x(1) by (cases "r = q") auto
    next
      case (2 r y)
      obtain z n where z: "pw_pobjs w r = Some z" "y = (if r = q then ?x else z\<lparr> po_next := n \<rparr>)" using obj[OF 2] by blast
      then have "po_life y = po_life z" using x by auto
      then show ?case using at_restD(2)[OF I(4) z(1)] by simp
    next
      case (3 p b)
      then show ?case using at_restD(3)[OF I(4)] by (simp add: p3)
    qed
    ultimately have "pw_inv (add_mset q pins) w3" using t by (simp add: pw_inv_def)
    moreover have "active_map w3 = (active_map w)((po_poa x, po_oid x) := None)"
    proof
      fix k :: "poa \<times> objid"
      show "active_map w3 k = ((active_map w)((po_poa x, po_oid x) := None)) k"
      proof (cases "k = (po_poa x, po_oid x)")
        case True
        then show ?thesis using active_map_object[OF t oq] by simp
      next
        case False
        have n: "map_of (pa_map b) (snd k) \<noteq> Some q" if "pw_poas w (fst k) = Some b" for b
          using tables_entry[OF I(1) that, of "snd k" q] x False by (metis option.inject prod.collapse)
        show ?thesis
        proof (cases "pw_poas w (fst k)")
          case (Some b)
          show ?thesis
          proof (cases "map_of (pa_map b) (snd k)")
            case r: (Some r)
            then have "r \<noteq> q" using n[OF Some] by auto
            then show ?thesis using False Some r or[of r] by (cases "pw_pobjs w r") (simp_all add: active_map_def p3)
          qed (use False Some in \<open>simp add: active_map_def p3\<close>)
        qed (use False in \<open>simp add: active_map_def p3\<close>)
      qed
    qed
    ultimately show ?thesis by blast
  qed
  show thesis using that[OF u(1) _ _ _ o2 inv[OF refl]] u(2,3,5) by (simp add: w1)
qed

lemma few_refs:
  assumes "counts_ok pins w" "pw_pobjs w q = Some x" "size pins + 2 < MATECORBA_REFCOUNT_MAX"
  shows "po_refs x < MATECORBA_REFCOUNT_MAX"
proof -
  have "po_refs x \<le> 2 + count pins q" using counts_refs[OF assms(1,2)] by (simp add: holders_def)
  also have "count pins q \<le> size pins" by (rule count_le_size)
  finally show ?thesis using assms(3) by simp
qed

theorem deactivate_inv:
  assumes i: "pw_inv pins w" and x: "pw_pobjs w q = Some x" and a: "pw_poas w p = Some a" "settled a" and app: "quiet app"
    and n: "size pins + 3 < MATECORBA_REFCOUNT_MAX" and held: "lock_held (PoaLock p) w"
  obtains w' l where "MateCORBA_POA_deactivate_object_T app p q eth False w = Inr w'" "pw_inv pins w'"
    "active_map w' = (active_map w)((po_poa x, po_oid x) := None)" "frame w' = frame w" "pw_log w' = pw_log w @ l"
proof (cases "po_servant x")
  case None
  then have "MateCORBA_POA_deactivate_object_T app p q eth False w = Inr w"
    using x by (simp add: MateCORBA_POA_deactivate_object_T_def)
  moreover have "active_map w = (active_map w)((po_poa x, po_oid x) := None)"
    using active_map_object[OF pw_invD(1)[OF i] x] None by (simp add: fun_upd_idem)
  ultimately show thesis using that[of w "[]"] i by simp
next
  case (Some s)
  note I = pw_invD[OF i]
  define lf where "lf = po_life x \<union> (if eth \<and> DeactivateDo \<notin> po_life x then {DoEtherealize} else {}) \<union> (if False then {IsCleanup} else {})"
  have life: "po_use_cnt x = 0" "po_life x \<inter> {DeactivateDo, DoEtherealize, IsCleanup, Destroyed} = {}"
    using at_restD(1,2)[OF I(4) x] by simp_all
  have un: "lf - {DeactivateDo, IsCleanup, DoEtherealize} = po_life x" using life(2) unfolding lf_def by auto
  let ?w1 = "upd_pobj q (\<lambda>x. x\<lparr> po_life := lf, po_servant := None \<rparr>) w"
  obtain w2 where u: "unlink_object s q ?w1 = Inr w2" "frame w2 = frame w" "pw_log w2 = pw_log w" "pw_poas w2 = pw_poas w"
    "pw_pobjs w2 q = Some (x\<lparr> po_life := lf, po_servant := None, po_next := None \<rparr>)"
    "\<And>l. pw_inv (add_mset q pins) (upd_pobj q (\<lambda>y. y\<lparr> po_life := po_life x \<rparr>) (w2\<lparr> pw_log := l \<rparr>))
       \<and> active_map (upd_pobj q (\<lambda>y. y\<lparr> po_life := po_life x \<rparr>) (w2\<lparr> pw_log := l \<rparr>)) = (active_map w)((po_poa x, po_oid x) := None)"
    by (rule unlinked_inv[OF i x Some refl]) blast
  have "pw_poas w2 p = Some a" "lock_held (PoaLock p) w2"
    using a(1) u(4) held frame_rest(6)[OF u(2)] by (simp_all add: lock_held_def)
  then obtain l0 where l0: "etherealize_object app p q s w2 = Inr (w2\<lparr> pw_log := pw_log w2 @ l0 \<rparr>)"
    using etherealize_quiet[OF app u(5)] a(2) by blast
  define l where "l = (if DoEtherealize \<in> lf then l0 else [])"
  have e: "(if DoEtherealize \<in> lf then etherealize_object app p q s w2 else Inr w2) = Inr (w2\<lparr> pw_log := pw_log w @ l \<rparr>)"
    using l0 u(3) by (simp add: l_def)
  let ?w3 = "upd_pobj q (\<lambda>y. y\<lparr> po_life := po_life x \<rparr>) (w2\<lparr> pw_log := pw_log w @ l \<rparr>)"
  have w3: "upd_pobj q (\<lambda>x. x\<lparr> po_life := po_life x - {DeactivateDo, IsCleanup, DoEtherealize} \<rparr>) (w2\<lparr> pw_log := pw_log w @ l \<rparr>) = ?w3"
    using u(5) un by (simp add: upd_pobj_def)
  have d: "MateCORBA_POA_deactivate_object_T app p q eth False w = pobj_release q ?w3"
    unfolding MateCORBA_POA_deactivate_object_T_def the_simps(1)[OF x] rbind_simps Some option.case Let_def lf_def[symmetric]
    using life(1) by (simp add: u(1) e w3)
  note inv = u(6)[of "pw_log w @ l"]
  obtain y where y: "pw_pobjs ?w3 q = Some y" using u(5) by simp
  have "po_refs y < MATECORBA_REFCOUNT_MAX" using few_refs[OF pw_invD(2)[OF conjunct1[OF inv]] y] n by simp
  then obtain w' where w': "pobj_release q ?w3 = Inr w'" "pw_inv pins w'" "active_map w' = active_map ?w3" "frame w' = frame ?w3"
      "pw_servants w' = pw_servants ?w3" "pw_fresh w' = pw_fresh ?w3" "pw_log w' = pw_log ?w3"
    using pobj_release_inv[OF conjunct1[OF inv] y] by blast
  then show thesis using that[of w' l] d inv u(2) by simp
qed

section \<open>Looking up\<close>

lemma lookup_inv:
  assumes i: "pw_inv pins w" and a: "pw_poas w p = Some a" "pa_sysid_hash a \<longrightarrow> 4 \<le> length oid"
  shows "map_of (pa_map a) oid = None \<Longrightarrow> MateCORBA_POA_object_id_lookup_T p oid w = Inr (None, w)"
    "map_of (pa_map a) oid = Some q \<Longrightarrow> MateCORBA_POA_object_id_lookup_T p oid w = Inr (Some q, pobj_duplicate q w)"
proof -
  show "map_of (pa_map a) oid = None \<Longrightarrow> MateCORBA_POA_object_id_lookup_T p oid w = Inr (None, w)"
    using a by (auto simp: MateCORBA_POA_object_id_lookup_T_def)
  assume m: "map_of (pa_map a) oid = Some q"
  obtain x where "pw_pobjs w q = Some x" using tables_entry[OF pw_invD(1)[OF i] a(1) m] .
  then show "MateCORBA_POA_object_id_lookup_T p oid w = Inr (Some q, pobj_duplicate q w)"
    using a m by (auto simp: MateCORBA_POA_object_id_lookup_T_def)
qed

section \<open>References\<close>

lemma obj_to_ref_inv:
  assumes i: "pw_inv pins w" and x: "pw_pobjs w q = Some x" "po_objref x = None"
    and t: "intf = Some t \<or> intf = None \<and> po_servant x \<noteq> None"
  obtains w' where "MateCORBA_POA_obj_to_ref (Some q) intf w = Inr (q, w')" "pw_inv pins w'" "active_map w' = active_map w"
    "frame w' = frame w" "pw_log w' = pw_log w"
proof -
  note I = pw_invD[OF i]
  have "\<exists>t. (case intf of Some t \<Rightarrow> Inr t | None \<Rightarrow> (case po_servant x of None \<Rightarrow> Inl Abort
      | Some s \<Rightarrow> rbind (the_servant w s) (\<lambda>sv. Inr (sv_class sv)))) = Inr t"
    using t servants_known[OF I(3) x(1)] by (auto split: option.splits)
  then obtain ty where ty: "(case intf of Some t \<Rightarrow> Inr t | None \<Rightarrow> (case po_servant x of None \<Rightarrow> Inl Abort
      | Some s \<Rightarrow> rbind (the_servant w s) (\<lambda>sv. Inr (sv_class sv)))) = Inr ty" by blast
  define w' where "w' = pobj_duplicate q (upd_pobj q (\<lambda>x. x\<lparr> po_objref := Some (ty, 1) \<rparr>) w)"
  have r: "MateCORBA_POA_obj_to_ref (Some q) intf w = Inr (q, w')"
    using x by (simp add: MateCORBA_POA_obj_to_ref_def ty w'_def)
  have "counts_ok pins w'"
  proof (rule counts_okI, goal_cases)
    case (1 s y)
    then show ?case using counts_refs[OF I(2)] x by (cases "s = q") (auto simp: w'_def pobj_duplicate_def holders_def)
  next
    case (2 s y u n)
    then show ?case using counts_objref[OF I(2)] x by (cases "s = q") (auto simp: w'_def pobj_duplicate_def)
  next
    case (3 s)
    then show ?case using counts_pinned[OF I(2)] x by (cases "s = q") (auto simp: w'_def pobj_duplicate_def)
  qed
  moreover have "tables_ok w'" using I(1) by (simp add: w'_def pobj_duplicate_def tables_upd)
  moreover have "servants_ok w'" using I(3) by (rule servants_ok_links) (simp_all add: w'_def pobj_duplicate_def links_upd)
  moreover have "at_rest w'" using I(4) by (simp add: w'_def pobj_duplicate_def at_rest_upd)
  ultimately have "pw_inv pins w'" by (simp add: pw_inv_def)
  then show thesis using that[OF r] by (simp add: w'_def pobj_duplicate_def active_map_upd)
qed

lemma objref_count_inv:
  assumes i: "pw_inv pins w" and x: "pw_pobjs w q = Some x" "po_objref x = Some (t, n)" "0 < m"
  shows "pw_inv pins (upd_pobj q (\<lambda>x. x\<lparr> po_objref := Some (t, m) \<rparr>) w)"
    "active_map (upd_pobj q (\<lambda>x. x\<lparr> po_objref := Some (t, m) \<rparr>) w) = active_map w"
proof -
  note I = pw_invD[OF i]
  let ?w = "upd_pobj q (\<lambda>x. x\<lparr> po_objref := Some (t, m) \<rparr>) w"
  have "counts_ok pins ?w"
  proof (rule counts_okI, goal_cases)
    case (1 s y)
    then show ?case using counts_refs[OF I(2)] x by (cases "s = q") (auto simp: holders_def)
  next
    case (2 s y u n)
    then show ?case using counts_objref[OF I(2)] x by (cases "s = q") auto
  next
    case (3 s)
    then show ?case using counts_pinned[OF I(2)] x by (cases "s = q") auto
  qed
  moreover have "tables_ok ?w" using I(1) by (simp add: tables_upd)
  moreover have "servants_ok ?w" using I(3) by (rule servants_ok_links) (simp_all add: links_upd)
  moreover have "at_rest ?w" using I(4) by (simp add: at_rest_upd)
  ultimately show "pw_inv pins ?w" by (simp add: pw_inv_def)
qed (simp add: active_map_upd)

lemma objref_of_inv:
  assumes i: "pw_inv pins w" and x: "pw_pobjs w q = Some x" "po_objref x \<noteq> None \<or> po_servant x \<noteq> None"
  obtains w' where "objref_of q w = Inr (q, w')" "pw_inv pins w'" "active_map w' = active_map w"
    "frame w' = frame w" "pw_log w' = pw_log w"
proof (cases "po_objref x")
  case None
  then obtain w' where w': "MateCORBA_POA_obj_to_ref (Some q) None w = Inr (q, w')" "pw_inv pins w'" "active_map w' = active_map w"
    "frame w' = frame w" "pw_log w' = pw_log w" using obj_to_ref_inv[OF i x(1)] x(2) by blast
  then show thesis using that x(1) None by (simp add: objref_of_def)
next
  case (Some r)
  obtain t n where r: "r = (t, n)" by (cases r)
  have e: "objref_duplicate q w = upd_pobj q (\<lambda>x. x\<lparr> po_objref := Some (t, Suc n) \<rparr>) w"
    using x(1) Some r by (simp add: objref_duplicate_def upd_pobj_def)
  then show thesis using that objref_count_inv[OF i x(1), of t n "Suc n"] x(1) Some r by (simp add: objref_of_def)
qed

lemma objref_release_inv:
  assumes i: "pw_inv pins w" and x: "pw_pobjs w q = Some x" "po_objref x = Some (t, n)" "n < MATECORBA_REFCOUNT_MAX"
    and m: "size pins + 3 < MATECORBA_REFCOUNT_MAX"
  obtains w' where "objref_release q w = Inr w'" "pw_inv pins w'" "active_map w' = active_map w"
    "frame w' = frame w" "pw_log w' = pw_log w"
proof (cases "n = 1")
  case False
  then have "0 < n - 1" using counts_objref[OF pw_invD(2)[OF i] x(1,2)] by simp
  moreover have "objref_release q w = Inr (upd_pobj q (\<lambda>x. x\<lparr> po_objref := Some (t, n - 1) \<rparr>) w)"
    using x False counts_objref[OF pw_invD(2)[OF i] x(1,2)] by (simp add: objref_release_def)
  ultimately show thesis using that objref_count_inv[OF i x(1,2)] by simp
next
  case True
  note I = pw_invD[OF i]
  let ?w = "upd_pobj q (\<lambda>x. x\<lparr> po_objref := None \<rparr>) w"
  have "counts_ok (add_mset q pins) ?w"
  proof (rule counts_okI, goal_cases)
    case (1 s y)
    then show ?case using counts_refs[OF I(2)] x by (cases "s = q") (auto simp: holders_def)
  next
    case (2 s y u n)
    then show ?case using counts_objref[OF I(2)] x by (cases "s = q") auto
  next
    case (3 s)
    then show ?case using counts_pinned[OF I(2)] x by (cases "s = q") auto
  qed
  moreover have "tables_ok ?w" using I(1) by (simp add: tables_upd)
  moreover have "servants_ok ?w" using I(3) by (rule servants_ok_links) (simp_all add: links_upd)
  moreover have "at_rest ?w" using I(4) by (simp add: at_rest_upd)
  ultimately have inv: "pw_inv (add_mset q pins) ?w" by (simp add: pw_inv_def)
  have y: "pw_pobjs ?w q = Some (x\<lparr> po_objref := None \<rparr>)" using x by simp
  have "po_refs (x\<lparr> po_objref := None \<rparr>) < MATECORBA_REFCOUNT_MAX" using few_refs[OF pw_invD(2)[OF inv] y] m by simp
  then obtain w' where "pobj_release q ?w = Inr w'" "pw_inv pins w'" "active_map w' = active_map ?w" "frame w' = frame ?w"
      "pw_log w' = pw_log ?w" using pobj_release_inv[OF inv y] by metis
  moreover have "1 < MATECORBA_REFCOUNT_MAX" by (simp add: MATECORBA_REFCOUNT_MAX_def)
  ultimately show thesis using that x True by (simp add: objref_release_def active_map_upd)
qed

end
