(* ===== verification/Poa_Calls.thy ===== *)
theory Poa_Calls imports Poa_Life begin

text \<open>
  The interface of an adaptor as a table of active objects: a contract for state that is seen through a map, and the
  proof that the adaptor's operations keep to it, whatever calls are made one after the other.
\<close>

section \<open>A contract for calls seen through an abstraction\<close>

primrec run_all :: "('c \<Rightarrow> 'w \<Rightarrow> ('r \<times> 'w) res) \<Rightarrow> 'c list \<Rightarrow> 'w \<Rightarrow> ('r list \<times> 'w) res" where
  "run_all run [] w = Inr ([], w)"
| "run_all run (c # cs) w = rbind (run c w) (\<lambda>(r, w). rbind (run_all run cs w) (\<lambda>(rs, w). Inr (r # rs, w)))"

text \<open>The caller keeps to its side in every state that is reached.\<close>

primrec all_pre :: "('c \<Rightarrow> 'w \<Rightarrow> ('r \<times> 'w) res) \<Rightarrow> ('c \<Rightarrow> 'w \<Rightarrow> bool) \<Rightarrow> 'c list \<Rightarrow> 'w \<Rightarrow> bool" where
  "all_pre run pre [] w = True"
| "all_pre run pre (c # cs) w = (pre c w \<and> (case run c w of Inl _ \<Rightarrow> True | Inr (r, w') \<Rightarrow> all_pre run pre cs w'))"

text \<open>A run of the specification with the same calls and the same answers.\<close>

inductive spec_run :: "('c \<Rightarrow> 'r \<Rightarrow> 'a \<Rightarrow> 'a \<Rightarrow> bool) \<Rightarrow> 'c list \<Rightarrow> 'r list \<Rightarrow> 'a \<Rightarrow> 'a \<Rightarrow> bool" for spec where
  spec_nil: "spec_run spec [] [] m m"
| spec_cons: "spec c r m m' \<Longrightarrow> spec_run spec cs rs m' m'' \<Longrightarrow> spec_run spec (c # cs) (r # rs) m m''"

inductive_simps spec_run_Nil: "spec_run spec [] rs m m'"
inductive_simps spec_run_Cons: "spec_run spec (c # cs) rs m m'"

text \<open>
  A call returns and is a step of the specification, or it is stuck, and then it does not return.
\<close>

locale refines =
  fixes ok :: "'w \<Rightarrow> bool"
    and obs :: "'w \<Rightarrow> 'a"
    and run :: "'c \<Rightarrow> 'w \<Rightarrow> ('r \<times> 'w) res"
    and pre :: "'c \<Rightarrow> 'w \<Rightarrow> bool"
    and spec :: "'c \<Rightarrow> 'r \<Rightarrow> 'a \<Rightarrow> 'a \<Rightarrow> bool"
    and stuck :: "'c \<Rightarrow> 'a \<Rightarrow> bool"
  assumes simulates: "ok w \<Longrightarrow> pre c w \<Longrightarrow> \<not> stuck c (obs w)
      \<Longrightarrow> \<exists>r w'. run c w = Inr (r, w') \<and> ok w' \<and> spec c r (obs w) (obs w')"
    and hangs: "ok w \<Longrightarrow> pre c w \<Longrightarrow> stuck c (obs w) \<Longrightarrow> run c w = Inl Hang"
begin

lemma simulation:
  "ok w \<Longrightarrow> all_pre run pre cs w
    \<Longrightarrow> \<exists>n rs w'. n \<le> length cs \<and> run_all run (take n cs) w = Inr (rs, w') \<and> ok w'
      \<and> spec_run spec (take n cs) rs (obs w) (obs w')
      \<and> (n < length cs \<longrightarrow> stuck (cs ! n) (obs w') \<and> run_all run cs w = Inl Hang)"
proof (induction cs arbitrary: w)
  case Nil
  then show ?case by (intro exI[of _ 0]) (simp add: spec_run_Nil)
next
  case (Cons c cs)
  show ?case
  proof (cases "stuck c (obs w)")
    case True
    then show ?thesis using hangs[of w c] Cons.prems by (intro exI[of _ 0]) (simp add: spec_run_Nil)
  next
    case False
    then obtain r w1 where 1: "run c w = Inr (r, w1)" "ok w1" "spec c r (obs w) (obs w1)"
      using simulates[of w c] Cons.prems by auto
    then obtain n rs w2 where 2: "n \<le> length cs" "run_all run (take n cs) w1 = Inr (rs, w2)" "ok w2"
      "spec_run spec (take n cs) rs (obs w1) (obs w2)"
      "n < length cs \<longrightarrow> stuck (cs ! n) (obs w2) \<and> run_all run cs w1 = Inl Hang"
      using Cons.IH[of w1] Cons.prems by auto
    have "spec_run spec (take (Suc n) (c # cs)) (r # rs) (obs w) (obs w2)" using spec_cons[OF 1(3) 2(4)] by simp
    then show ?thesis using 1 2 by (intro exI[of _ "Suc n"] exI[of _ "r # rs"] exI[of _ w2]) simp
  qed
qed

lemma returned: "ok w \<Longrightarrow> all_pre run pre cs w \<Longrightarrow> run_all run cs w = Inr (rs, w') \<Longrightarrow> ok w' \<and> spec_run spec cs rs (obs w) (obs w')"
  using simulation[of w cs] by (auto simp: le_less)

text \<open>What every step of the specification keeps holds of what is seen in the end.\<close>

lemma spec_invariant:
  assumes "ok w" "all_pre run pre cs w" "run_all run cs w = Inr (rs, w')" "P (obs w)"
    and "\<And>c r m m'. spec c r m m' \<Longrightarrow> P m \<Longrightarrow> P m'"
  shows "P (obs w')"
proof -
  have "spec_run spec cs rs (obs w) (obs w')" using returned[OF assms(1-3)] by simp
  then show ?thesis using assms(4) by (induction rule: spec_run.induct) (auto intro: assms(5))
qed

end

section \<open>The calls and what they promise\<close>

datatype poa_call = Activate poa servant | ActivateWithId poa objid servant | Deactivate poa objid
  | CreateReference poa string | IdToReference poa objid | IdToServant poa objid
  | ServantToId poa servant | ServantToReference poa servant | ReleaseReference pobj

datatype answer = ADone | AnId objid | ARef pobj | AServant "servant option"

type_synonym reply = "poa_exn + answer"

definition answer :: "('a \<Rightarrow> answer) \<Rightarrow> 'a call \<Rightarrow> (reply \<times> poa_world) res" where
  "answer f c = rbind c (\<lambda>(r, w). Inr (map_sum id f r, w))"

fun poa_run :: "app \<Rightarrow> poa_call \<Rightarrow> poa_world \<Rightarrow> (reply \<times> poa_world) res" where
  "poa_run app (Activate p s) w = answer AnId (PortableServer_POA_activate_object (Some p) (Some s) w)"
| "poa_run app (ActivateWithId p oid s) w
    = answer (\<lambda>_. ADone) (PortableServer_POA_activate_object_with_id (Some p) (Some oid) (Some s) w)"
| "poa_run app (Deactivate p oid) w = answer (\<lambda>_. ADone) (PortableServer_POA_deactivate_object app (Some p) (Some oid) w)"
| "poa_run app (CreateReference p intf) w = answer ARef (PortableServer_POA_create_reference (Some p) (Some intf) w)"
| "poa_run app (IdToReference p oid) w = answer ARef (PortableServer_POA_id_to_reference (Some p) (Some oid) w)"
| "poa_run app (IdToServant p oid) w = answer AServant (PortableServer_POA_id_to_servant (Some p) (Some oid) w)"
| "poa_run app (ServantToId p s) w = answer AnId (PortableServer_POA_servant_to_id (Some p) (Some s) w)"
| "poa_run app (ServantToReference p s) w = answer ARef (PortableServer_POA_servant_to_reference (Some p) (Some s) w)"
| "poa_run app (ReleaseReference q) w = rbind (objref_release q w) (\<lambda>w. Inr (Inr ADone, w))"

text \<open>The id the next object of an adaptor gets, and what a caller sees to.\<close>

definition next_id :: "poa_world \<Rightarrow> adaptor \<Rightarrow> objid" where
  "next_id w a = u32_bytes (pw_host w) (pa_sysid a + 1) @ fst (MateCORBA_genuid_buffer MATECORBA_OBJECT_ID_LEN w)"

definition id_ok :: "adaptor \<Rightarrow> objid \<Rightarrow> bool" where
  "id_ok a oid \<longleftrightarrow> (pa_sysid_hash a \<longrightarrow> 4 \<le> length oid) \<and> (IS_SYSTEM_ID a \<longrightarrow> length oid = 4 + MATECORBA_OBJECT_ID_LEN)"

definition next_ok :: "poa_world \<Rightarrow> adaptor \<Rightarrow> bool" where
  "next_ok w a \<longleftrightarrow> (IS_SYSTEM_ID a \<longrightarrow> map_of (pa_map a) (next_id w a) = None)"

fun poa_pre :: "poa_call \<Rightarrow> poa_world \<Rightarrow> bool" where
  "poa_pre (Activate p s) w = (case pw_poas w p of None \<Rightarrow> False | Some a \<Rightarrow> pw_servants w s \<noteq> None \<and> next_ok w a)"
| "poa_pre (ActivateWithId p oid s) w = (case pw_poas w p of None \<Rightarrow> False | Some a \<Rightarrow> pw_servants w s \<noteq> None \<and> id_ok a oid)"
| "poa_pre (Deactivate p oid) w = (case pw_poas w p of None \<Rightarrow> False | Some a \<Rightarrow> id_ok a oid)"
| "poa_pre (CreateReference p intf) w = (case pw_poas w p of None \<Rightarrow> False | Some a \<Rightarrow> next_ok w a)"
| "poa_pre (IdToReference p oid) w = (case pw_poas w p of None \<Rightarrow> False | Some a \<Rightarrow> id_ok a oid)"
| "poa_pre (IdToServant p oid) w = (case pw_poas w p of None \<Rightarrow> False | Some a \<Rightarrow> id_ok a oid)"
| "poa_pre (ServantToId p s) w = (case pw_poas w p of None \<Rightarrow> False
    | Some a \<Rightarrow> pw_servants w s \<noteq> None \<and> next_ok w a \<and> (IS_IMPLICIT_ACTIVATION a \<longrightarrow> IS_SYSTEM_ID a))"
| "poa_pre (ServantToReference p s) w = (case pw_poas w p of None \<Rightarrow> False
    | Some a \<Rightarrow> pw_servants w s \<noteq> None \<and> next_ok w a \<and> (IS_IMPLICIT_ACTIVATION a \<longrightarrow> IS_SYSTEM_ID a))"
| "poa_pre (ReleaseReference q) w = (case pw_pobjs w q of None \<Rightarrow> False
    | Some x \<Rightarrow> (case po_objref x of None \<Rightarrow> False | Some (t, n) \<Rightarrow> n < MATECORBA_REFCOUNT_MAX))"

text \<open>
  The specification: the adaptors are fixed, the active objects are a map from adaptor and id to servant. Uniqueness
  is over all adaptors.
\<close>

type_synonym active = "poa \<times> objid \<rightharpoonup> servant"

definition refuse :: "poa_exn \<Rightarrow> reply \<Rightarrow> active \<Rightarrow> active \<Rightarrow> bool" where
  "refuse e r m m' \<longleftrightarrow> r = Inl e \<and> m' = m"

definition spec_new :: "poa \<Rightarrow> servant \<Rightarrow> reply \<Rightarrow> active \<Rightarrow> active \<Rightarrow> bool" where
  "spec_new p s r m m' \<longleftrightarrow> (\<exists>oid. r = Inr (AnId oid) \<and> m (p, oid) = None \<and> m' = m((p, oid) \<mapsto> s))"

fun poa_spec :: "(poa \<Rightarrow> adaptor option) \<Rightarrow> poa_call \<Rightarrow> reply \<Rightarrow> active \<Rightarrow> active \<Rightarrow> bool" where
  "poa_spec ad (Activate p s) r m m' = (case ad p of None \<Rightarrow> False | Some a \<Rightarrow>
     if \<not> IS_RETAIN a \<or> \<not> IS_SYSTEM_ID a then refuse WrongPolicy r m m'
     else if IS_UNIQUE_ID a \<and> (\<exists>k. m k = Some s) then refuse ServantAlreadyActive r m m'
     else spec_new p s r m m')"
| "poa_spec ad (ActivateWithId p oid s) r m m' = (case ad p of None \<Rightarrow> False | Some a \<Rightarrow>
     if \<not> IS_RETAIN a then refuse WrongPolicy r m m'
     else if m (p, oid) \<noteq> None then refuse ObjectAlreadyActive r m m'
     else if IS_UNIQUE_ID a \<and> (\<exists>k. m k = Some s) then refuse ServantAlreadyActive r m m'
     else r = Inr ADone \<and> m' = m((p, oid) \<mapsto> s))"
| "poa_spec ad (Deactivate p oid) r m m' = (case ad p of None \<Rightarrow> False | Some a \<Rightarrow>
     if \<not> IS_RETAIN a then refuse WrongPolicy r m m' else r = Inr ADone \<and> m' = m((p, oid) := None))"
| "poa_spec ad (CreateReference p intf) r m m' = (case ad p of None \<Rightarrow> False | Some a \<Rightarrow>
     if \<not> IS_SYSTEM_ID a then refuse WrongPolicy r m m' else (\<exists>q. r = Inr (ARef q)) \<and> m' = m)"
| "poa_spec ad (IdToReference p oid) r m m' = (case ad p of None \<Rightarrow> False | Some a \<Rightarrow>
     if \<not> IS_RETAIN a then refuse WrongPolicy r m m'
     else if m (p, oid) = None then refuse ObjectNotActive r m m' else (\<exists>q. r = Inr (ARef q)) \<and> m' = m)"
| "poa_spec ad (IdToServant p oid) r m m' = (case ad p of None \<Rightarrow> False | Some a \<Rightarrow>
     if \<not> IS_RETAIN a \<and> \<not> IS_USE_DEFAULT_SERVANT a then refuse WrongPolicy r m m'
     else if (if IS_RETAIN a then m (p, oid) else pa_default_servant a) = None then refuse ObjectNotActive r m m'
     else r = Inr (AServant None) \<and> m' = m)"
| "poa_spec ad (ServantToId p s) r m m' = (case ad p of None \<Rightarrow> False | Some a \<Rightarrow>
     if \<not> IS_USE_DEFAULT_SERVANT a \<and> \<not> (IS_RETAIN a \<and> (IS_UNIQUE_ID a \<or> IS_IMPLICIT_ACTIVATION a)) then refuse WrongPolicy r m m'
     else if IS_RETAIN a \<and> IS_UNIQUE_ID a \<and> (\<exists>k. m k = Some s) then (\<exists>k. m k = Some s \<and> r = Inr (AnId (snd k))) \<and> m' = m
     else if IS_RETAIN a \<and> IS_IMPLICIT_ACTIVATION a then spec_new p s r m m'
     else refuse ServantNotActive r m m')"
| "poa_spec ad (ServantToReference p s) r m m' = (case ad p of None \<Rightarrow> False | Some a \<Rightarrow>
     if \<not> (IS_RETAIN a \<and> (IS_UNIQUE_ID a \<or> IS_IMPLICIT_ACTIVATION a)) then refuse WrongPolicy r m m'
     else if IS_UNIQUE_ID a \<and> (\<exists>k. m k = Some s) then (\<exists>q. r = Inr (ARef q)) \<and> m' = m
     else if IS_IMPLICIT_ACTIVATION a then (\<exists>q oid. r = Inr (ARef q) \<and> m (p, oid) = None \<and> m' = m((p, oid) \<mapsto> s))
     else refuse ServantNotActive r m m')"
| "poa_spec ad (ReleaseReference q) r m m' = (r = Inr ADone \<and> m' = m)"

text \<open>
  What is seen of a state: the active objects and the locks. A call waits for the lock of its adaptor. A refusal for a
  policy keeps it, and so does \<^verbatim>\<open>activate_object\<close> when the servant is active already; every other answer has given it
  back.
\<close>

fun call_adaptor :: "poa_call \<Rightarrow> poa option" where
  "call_adaptor (Activate p s) = Some p"
| "call_adaptor (ActivateWithId p oid s) = Some p"
| "call_adaptor (Deactivate p oid) = Some p"
| "call_adaptor (CreateReference p t) = Some p"
| "call_adaptor (IdToReference p oid) = Some p"
| "call_adaptor (IdToServant p oid) = Some p"
| "call_adaptor (ServantToId p s) = Some p"
| "call_adaptor (ServantToReference p s) = Some p"
| "call_adaptor (ReleaseReference q) = None"

definition keeps_lock :: "poa_call \<Rightarrow> reply \<Rightarrow> bool" where
  "keeps_lock c r \<longleftrightarrow> r = Inl WrongPolicy \<or> r = Inl ServantAlreadyActive \<and> (\<exists>p s. c = Activate p s)"

type_synonym poa_view = "active \<times> poa_lock set option"

definition poa_view :: "poa_world \<Rightarrow> poa_view" where
  "poa_view w = (active_map w, pw_lock w)"

definition poa_stuck :: "poa_call \<Rightarrow> poa_view \<Rightarrow> bool" where
  "poa_stuck c v \<longleftrightarrow> (\<exists>p H. call_adaptor c = Some p \<and> snd v = Some H \<and> PoaLock p \<in> H)"

definition poa_step :: "(poa \<Rightarrow> adaptor option) \<Rightarrow> poa_call \<Rightarrow> reply \<Rightarrow> poa_view \<Rightarrow> poa_view \<Rightarrow> bool" where
  "poa_step ad c r v v' \<longleftrightarrow> \<not> poa_stuck c v \<and> poa_spec ad c r (fst v) (fst v')
     \<and> snd v' = (case call_adaptor c of Some p \<Rightarrow> if keeps_lock c r then map_option (insert (PoaLock p)) (snd v) else snd v
       | None \<Rightarrow> snd v)"

text \<open>The states between calls.\<close>

definition between_calls :: "(poa \<Rightarrow> adaptor option) \<Rightarrow> poa_world \<Rightarrow> bool" where
  "between_calls ad w \<longleftrightarrow> pw_inv {#} w \<and> fst (frame w) = ad \<and> (\<forall>p a. ad p = Some a \<longrightarrow> settled a) \<and> pw_current w = []"

lemma between_callsD:
  assumes "between_calls ad w"
  shows "pw_inv {#} w" "fst (frame w) = ad" "ad p = Some a \<Longrightarrow> settled a" "pw_current w = []"
  using assms unfolding between_calls_def by blast+

lemma frame_current: "frame w' = frame w \<Longrightarrow> pw_current w' = pw_current w"
proof -
  assume "frame w' = frame w"
  then have "snd (snd (frame w')) = snd (snd (frame w))" by simp
  from arg_cong[OF this, of pw_current] show ?thesis by (simp add: frame_def)
qed

lemma between_callsI: "between_calls ad w \<Longrightarrow> pw_inv {#} w' \<Longrightarrow> frame w' = frame w \<Longrightarrow> between_calls ad w'"
  using frame_current[of w' w] unfolding between_calls_def by argo

lemma between_adaptor:
  assumes "between_calls ad w" "pw_poas w p = Some a"
  shows "ad p = Some (a\<lparr> pa_map := [], pa_sysid := 0 \<rparr>)" "settled a"
proof -
  show ad: "ad p = Some (a\<lparr> pa_map := [], pa_sysid := 0 \<rparr>)" 
  proof -
    have "ad p = fst (frame w) p" using between_callsD(2)[OF assms(1)] by simp
    then show ?thesis using assms(2) by (simp add: frame_def)
  qed
  show "settled a" using between_callsD(3)[OF assms(1) ad] by (simp add: settled_def)
qed

lemma answer_simps [simp]: "answer f (throw x w) = Inr (Inl x, w)" "answer f (return v w) = Inr (Inr (f v), w)"
  "answer f (Inr (r, w)) = Inr (map_sum id f r, w)" "rbind (throw x w) g = g (Inl x, w)" "rbind (return v w) h = h (Inr v, w)"
  by (simp_all add: answer_def throw_def return_def)

section \<open>New objects\<close>

lemma new_system_id:
  assumes i: "pw_inv pins w" and a: "pw_poas w p = Some a" "IS_SYSTEM_ID a"
  obtains w' a' where "MateCORBA_POA_new_system_objid_T p w = Inr (next_id w a, w')" "pw_inv pins w'" "active_map w' = active_map w"
    "frame w' = frame w" "pw_servants w' = pw_servants w" "pw_log w' = pw_log w" "pw_poas w' p = Some a'" "pa_map a' = pa_map a"
    "pa_sysid_hash a' = pa_sysid_hash a"
proof -
  note I = pw_invD[OF i]
  define w' where "w' = upd_poa p (\<lambda>a. a\<lparr> pa_sysid := pa_sysid a + 1 \<rparr>) (w\<lparr> pw_fresh := Suc (pw_fresh w) \<rparr>)"
  have r: "MateCORBA_POA_new_system_objid_T p w = Inr (next_id w a, w')"
    using a by (simp add: MateCORBA_POA_new_system_objid_T_def MateCORBA_genuid_buffer_def next_id_def w'_def Let_def)
  have o': "pw_pobjs w' = pw_pobjs w" "pw_servants w' = pw_servants w" "pw_fresh w' = Suc (pw_fresh w)"
    and p': "pw_poas w' = (pw_poas w)(p := Some (a\<lparr> pa_sysid := pa_sysid a + 1 \<rparr>))"
    unfolding w'_def using a(1) by simp_all
  have t: "tables_ok w'"
  proof (rule tables_okI, goal_cases)
    case (1 q x)
    then show ?case using I(1) by (auto simp: tables_ok_def o' less_SucI)
  next
    case (2 q x)
    then have x: "pw_pobjs w q = Some x" by (simp add: o')
    obtain b where "pw_poas w (po_poa x) = Some b" "map_of (pa_map b) (po_oid x) = Some q" using tables_object[OF I(1) x] .
    then show ?case using a(1) by (cases "po_poa x = p") (auto simp: p')
  next
    case (3 c b)
    then show ?case using tables_distinct[OF I(1)] a(1) by (auto simp: p' split: if_splits)
  next
    case (4 c b oid q)
    then obtain d where "pw_poas w c = Some d" "map_of (pa_map d) oid = Some q" using a(1) by (cases "c = p") (auto simp: p')
    then show ?case using tables_entry[OF I(1)] o' by metis
  qed
  have "counts_ok pins w'" using I(2) by (simp add: counts_ok_def o')
  moreover have "servants_ok w'" using I(3) by (rule servants_ok_links) (simp_all add: links_def o' fun_eq_iff)
  moreover have "at_rest w'"
    using at_restD[OF I(4)] a(1) by (intro at_restI) (auto simp: o' p' split: if_splits)
  ultimately have "pw_inv pins w'" using t by (simp add: pw_inv_def)
  moreover have "active_map w' = active_map w"
    unfolding active_map_def o' p' by (rule ext) (simp add: a(1))
  moreover have "frame w' = frame w" "pw_log w' = pw_log w" by (simp_all add: w'_def)
  ultimately show thesis using that[OF r, of "a\<lparr> pa_sysid := pa_sysid a + 1 \<rparr>"] o'(2) p' by simp
qed

lemma create_new:
  assumes i: "pw_inv pins w" and a: "pw_poas w p = Some a" "IS_SYSTEM_ID a" "map_of (pa_map a) (next_id w a) = None"
  obtains w' q x where "MateCORBA_POA_create_object_T p None w = Inr (q, w')" "pw_inv pins w'" "active_map w' = active_map w"
    "frame w' = frame w" "pw_servants w' = pw_servants w" "pw_log w' = pw_log w"
    "pw_pobjs w' q = Some x" "po_servant x = None" "po_poa x = p" "po_oid x = next_id w a" "po_objref x = None"
proof -
  obtain w1 a1 where 1: "MateCORBA_POA_new_system_objid_T p w = Inr (next_id w a, w1)" "pw_inv pins w1" "active_map w1 = active_map w"
    "frame w1 = frame w" "pw_servants w1 = pw_servants w" "pw_log w1 = pw_log w" "pw_poas w1 p = Some a1" "pa_map a1 = pa_map a"
    "pa_sysid_hash a1 = pa_sysid_hash a" using new_system_id[OF i a(1,2)] .
  have "4 \<le> length (next_id w a)" by (simp add: next_id_def)
  note l = this
  obtain w2 x where 2: "insert_object p (next_id w a) w1 = Inr (pw_fresh w1, w2)" "pw_inv pins w2" "active_map w2 = active_map w1"
    "frame w2 = frame w1" "pw_servants w2 = pw_servants w1" "pw_log w2 = pw_log w1"
    "pw_pobjs w2 (pw_fresh w1) = Some x" "po_servant x = None" "po_poa x = p" "po_oid x = next_id w a" "po_objref x = None"
    by (rule insert_object_inv[OF 1(2,7)]) (use a(3) l 1(8) in auto)
  show thesis using that[of "pw_fresh w1" w2 x] 1 2 a by (simp add: MateCORBA_POA_create_object_T_def)
qed

lemma create_with_id:
  assumes i: "pw_inv pins w" and a: "pw_poas w p = Some a" "id_ok a oid" "map_of (pa_map a) oid = None"
  obtains w' q x where "MateCORBA_POA_create_object_T p (Some oid) w = Inr (q, w')" "pw_inv pins w'" "active_map w' = active_map w"
    "frame w' = frame w" "pw_servants w' = pw_servants w" "pw_log w' = pw_log w"
    "pw_pobjs w' q = Some x" "po_servant x = None" "po_poa x = p" "po_oid x = oid" "po_objref x = None"
proof -
  obtain w2 x where "insert_object p oid w = Inr (pw_fresh w, w2)" "pw_inv pins w2" "active_map w2 = active_map w"
    "frame w2 = frame w" "pw_servants w2 = pw_servants w" "pw_log w2 = pw_log w"
    "pw_pobjs w2 (pw_fresh w) = Some x" "po_servant x = None" "po_poa x = p" "po_oid x = oid" "po_objref x = None"
    by (rule insert_object_inv[OF i a(1,3)]) (use a(2) in \<open>auto simp: id_ok_def\<close>)
  then show thesis using that[of "pw_fresh w" w2 x] a by (simp add: MateCORBA_POA_create_object_T_def id_ok_def)
qed

text \<open>A new object made active at once, which is how three operations begin.\<close>

lemma create_active:
  assumes i: "pw_inv pins w" and a: "pw_poas w p = Some a" "IS_SYSTEM_ID a" "map_of (pa_map a) (next_id w a) = None" "settled a"
    and s: "pw_servants w s = Some sv"
  obtains w1 w' q x where "MateCORBA_POA_create_object_T p None w = Inr (q, w1)"
    "MateCORBA_POA_activate_object_T p q (Some s) w1 = Inr w'" "pw_inv pins w'"
    "active_map w (p, next_id w a) = None" "active_map w' = (active_map w)((p, next_id w a) \<mapsto> s)" "frame w' = frame w"
    "pw_log w' = pw_log w" "pw_pobjs w' q = Some x" "po_oid x = next_id w a" "po_servant x = Some s" "po_objref x = None"
proof -
  obtain w1 q x where 1: "MateCORBA_POA_create_object_T p None w = Inr (q, w1)" "pw_inv pins w1" "active_map w1 = active_map w"
    "frame w1 = frame w" "pw_servants w1 = pw_servants w" "pw_log w1 = pw_log w"
    "pw_pobjs w1 q = Some x" "po_servant x = None" "po_poa x = p" "po_oid x = next_id w a" "po_objref x = None"
    using create_new[OF i a(1-3)] .
  obtain a1 where a1: "pw_poas w1 p = Some a1" "a1 = a\<lparr> pa_map := pa_map a1, pa_sysid := pa_sysid a1 \<rparr>" using frame_poa[OF 1(4) a(1)] .
  have "pa_life a1 = pa_life a" using arg_cong[OF a1(2), of pa_life] by simp
  then have "DeactivateDo \<notin> pa_life a1" using a(4) by (simp add: settled_def)
  then obtain w' where 2: "MateCORBA_POA_activate_object_T p q (Some s) w1 = Inr w'" "pw_inv pins w'"
    "active_map w' = (active_map w1)((po_poa x, po_oid x) \<mapsto> s)" "frame w' = frame w1" "pw_log w' = pw_log w1"
    "pw_pobjs w' q = Some (x\<lparr> po_servant := Some s, po_next := sv_private sv, po_refs := Suc (po_refs x) \<rparr>)"
    using activate_object_inv[OF 1(2,7,8) a1(1)] s 1(5) by metis
  have "active_map w (p, next_id w a) = None" by (rule active_map_unknown[OF a(1,3)])
  then show thesis using that[OF 1(1) 2(1,2) _ _ _ _ 2(6)] 1 2 by simp
qed

section \<open>Every call keeps the contract\<close>

declare keeps_lock_def [simp]

definition call_keeps :: "app \<Rightarrow> (poa \<Rightarrow> adaptor option) \<Rightarrow> poa_call \<Rightarrow> poa_world \<Rightarrow> bool" where
  "call_keeps app ad c w \<longleftrightarrow> (\<exists>r w'. poa_run app c w = Inr (r, w') \<and> between_calls ad w' \<and> poa_step ad c r (poa_view w) (poa_view w'))"

text \<open>A call that has its adaptor's lock, and one that is answered and gives it back.\<close>

lemma under_lock:
  "between_calls ad w \<Longrightarrow> between_calls ad (taken l w)" "poa_pre c w \<Longrightarrow> poa_pre c (taken l w)"
proof -
  show "between_calls ad w \<Longrightarrow> between_calls ad (taken l w)" by (simp add: between_calls_def)
  have "next_ok (taken l w) a = next_ok w a" for a by (simp add: next_ok_def next_id_def MateCORBA_genuid_buffer_def)
  then show "poa_pre c w \<Longrightarrow> poa_pre c (taken l w)" by (cases c) (simp_all split: option.splits)
qed

lemma locked_call_free:
  assumes "w = taken (PoaLock p) w0" "lock_free (PoaLock p) w0" "pw_poas w p = Some a"
  shows "locked_call p test work w0 = rbind (test a w) (\<lambda>e. case e of Some e \<Rightarrow> throw e w
     | None \<Rightarrow> rbind (work a w) (\<lambda>(r, w'). rbind (POA_UNLOCK p w') (\<lambda>w'. Inr (r, w'))))"
  using assms(2,3) unfolding assms(1) by (simp add: locked_call_def poa_locks lock_take)

lemma unlock_back:
  assumes "w = taken (PoaLock p) w0" "lock_free (PoaLock p) w0" "pw_poas w p = Some a" "frame w' = frame w"
  shows "POA_UNLOCK p w' = Inr (w'\<lparr> pw_lock := pw_lock w0 \<rparr>)"
proof -
  obtain b where "pw_poas w' p = Some b" using frame_poa[OF assms(4,3)] by blast
  then show ?thesis using assms(1,2) frame_rest(6)[OF assms(4)] unlock_taken[of "PoaLock p" w0 w'] by (simp add: poa_locks)
qed

lemma frame_back: "w = taken l w0 \<Longrightarrow> frame w' = frame w \<Longrightarrow> frame (w'\<lparr> pw_lock := pw_lock w0 \<rparr>) = frame w0"
  using frame_relock[of w' w "pw_lock w0"] by (simp add: taken_def)

lemma keeps_refused:
  assumes "poa_run app c w0 = Inr (Inl e, w)" "between_calls ad w0" "lock_free (PoaLock p) w0" "w = taken (PoaLock p) w0"
    and "call_adaptor c = Some p" "keeps_lock c (Inl e)" "poa_spec ad c (Inl e) (active_map w) (active_map w)"
  shows "call_keeps app ad c w0"
  using assms under_lock(1)[OF assms(2), of "PoaLock p"] unfolding call_keeps_def
  by (intro exI[of _ "Inl e"] exI[of _ w]) (auto simp: poa_step_def poa_view_def poa_stuck_def lock_free_def taken_def)

lemma keeps_done:
  assumes "poa_run app c w0 = Inr (r, w')" "between_calls ad w0" "lock_free (PoaLock p) w0" "w = taken (PoaLock p) w0"
    and "pw_inv {#} w'" "frame w' = frame w0" "call_adaptor c = Some p" "\<not> keeps_lock c r"
    and "poa_spec ad c r (active_map w) (active_map w')"
  shows "call_keeps app ad c w0"
proof -
  have "pw_lock w' = pw_lock w0" using frame_rest(6)[OF assms(6)] .
  then show ?thesis using assms between_callsI[OF assms(2,5,6)] unfolding call_keeps_def
    by (intro exI[of _ r] exI[of _ w']) (auto simp: poa_step_def poa_view_def poa_stuck_def lock_free_def)
qed

lemma keeps_unlocked:
  assumes "poa_run app c w0 = Inr (r, w'\<lparr> pw_lock := pw_lock w0 \<rparr>)" "between_calls ad w0" "lock_free (PoaLock p) w0"
    and "w = taken (PoaLock p) w0" "pw_inv {#} w'" "frame w' = frame w" "call_adaptor c = Some p" "\<not> keeps_lock c r"
    and "poa_spec ad c r (active_map w) (active_map w')"
  shows "call_keeps app ad c w0"
  by (rule keeps_done[OF assms(1-4)]) (use assms(5-9) frame_back[OF assms(4,6)] in simp_all)

lemma activate_keeps:
  assumes b0: "between_calls ad w0" and p0: "poa_pre (Activate p s) w0" and free: "lock_free (PoaLock p) w0"
  shows "call_keeps app ad (Activate p s) w0"
proof -
  define w where w: "w = taken (PoaLock p) w0"
  note b = under_lock(1)[OF b0, of "PoaLock p", folded w] and p = under_lock(2)[OF p0, of "PoaLock p", folded w]
  have w0: "pw_poas w0 = pw_poas w" "pw_servants w0 = pw_servants w" by (simp_all add: w)
  obtain a sv where a: "pw_poas w p = Some a" and s: "pw_servants w s = Some sv" and n: "next_ok w a"
    using p by (auto split: option.splits)
  note i = between_callsD(1)[OF b] and ad = between_adaptor[OF b a] and lc = locked_call_free[OF w free a] unlock_back[OF w free a]
  have u: "sv_private sv \<noteq> None \<longleftrightarrow> (\<exists>k. active_map w k = Some s)"
    using servant_active_iff[OF pw_invD(1)[OF i] pw_invD(3)[OF i] s] .
  consider "\<not> IS_RETAIN a \<or> \<not> IS_SYSTEM_ID a" | "IS_RETAIN a" "IS_SYSTEM_ID a" "IS_UNIQUE_ID a" "sv_private sv \<noteq> None"
    | "IS_RETAIN a" "IS_SYSTEM_ID a" "\<not> (IS_UNIQUE_ID a \<and> sv_private sv \<noteq> None)" by blast
  then show ?thesis
  proof cases
    case 1
    then have "poa_run app (Activate p s) w0 = Inr (Inl WrongPolicy, w)"
      using a by (auto simp: PortableServer_POA_activate_object_def w0 lc)
    then show ?thesis by (rule keeps_refused[OF _ b0 free w]) (use 1 ad in \<open>auto simp: refuse_def\<close>)
  next
    case 2
    then have "poa_run app (Activate p s) w0 = Inr (Inl ServantAlreadyActive, w)"
      using a s by (auto simp: PortableServer_POA_activate_object_def w0 lc)
    then show ?thesis by (rule keeps_refused[OF _ b0 free w]) (use 2 u ad in \<open>simp_all add: refuse_def\<close>)
  next
    case 3
    have n': "map_of (pa_map a) (next_id w a) = None" using n 3(2) by (simp add: next_ok_def)
    obtain w1 w' q x where c: "MateCORBA_POA_create_object_T p None w = Inr (q, w1)"
      "MateCORBA_POA_activate_object_T p q (Some s) w1 = Inr w'" "pw_inv {#} w'"
      "active_map w (p, next_id w a) = None" "active_map w' = (active_map w)((p, next_id w a) \<mapsto> s)" "frame w' = frame w"
      "pw_log w' = pw_log w" "pw_pobjs w' q = Some x" "po_oid x = next_id w a" "po_servant x = Some s" "po_objref x = None"
      by (rule create_active[OF i a 3(2) n' ad(2) s]) blast
    have "poa_run app (Activate p s) w0 = Inr (Inr (AnId (next_id w a)), w'\<lparr> pw_lock := pw_lock w0 \<rparr>)"
      using a s 3 c by (simp add: PortableServer_POA_activate_object_def w0 lc(1) lc(2)[OF c(6)])
    then show ?thesis
      by (rule keeps_unlocked[OF _ b0 free w c(3,6)]) (use 3 u ad c(4,5) in \<open>auto simp: spec_new_def\<close>)
  qed
qed

text \<open>A call that only looks an object up gives it back in the end.\<close>

lemma pinned_release:
  assumes "pw_inv {#q#} w"
  obtains w' where "pobj_release q w = Inr w'" "pw_inv {#} w'" "active_map w' = active_map w" "frame w' = frame w"
proof -
  obtain x where x: "pw_pobjs w q = Some x" using counts_pinned[OF pw_invD(2)[OF assms]] by auto
  have "po_refs x < MATECORBA_REFCOUNT_MAX"
    using few_refs[OF pw_invD(2)[OF assms] x] by (simp add: MATECORBA_REFCOUNT_MAX_def)
  then show thesis using pobj_release_inv[OF assms x] that by blast
qed

lemma found_object:
  assumes i: "pw_inv {#} w" and a: "pw_poas w p = Some a" "map_of (pa_map a) oid = Some q"
  obtains x where "pw_pobjs w q = Some x" "po_poa x = p" "po_oid x = oid" "po_servant x = active_map w (p, oid)"
    "pw_inv {#q#} (pobj_duplicate q w)" "active_map (pobj_duplicate q w) = active_map w" "frame (pobj_duplicate q w) = frame w"
    "pw_pobjs (pobj_duplicate q w) q = Some (x\<lparr> po_refs := Suc (po_refs x) \<rparr>)"
    "pw_poas (pobj_duplicate q w) = pw_poas w" "pw_servants (pobj_duplicate q w) = pw_servants w"
proof -
  obtain x where x: "pw_pobjs w q = Some x" "po_poa x = p" "po_oid x = oid" using tables_entry[OF pw_invD(1)[OF i] a] .
  then have "po_servant x = active_map w (p, oid)" using active_map_object[OF pw_invD(1)[OF i] x(1)] by simp
  then show thesis using that x pobj_duplicate_inv[OF i x(1)] by (simp add: pobj_duplicate_def)
qed

lemma activate_with_id_keeps:
  assumes b0: "between_calls ad w0" and p0: "poa_pre (ActivateWithId p oid s) w0" and free: "lock_free (PoaLock p) w0"
  shows "call_keeps app ad (ActivateWithId p oid s) w0"
proof -
  define w where w: "w = taken (PoaLock p) w0"
  note b = under_lock(1)[OF b0, of "PoaLock p", folded w] and p = under_lock(2)[OF p0, of "PoaLock p", folded w]
  have w0: "pw_poas w0 = pw_poas w" "pw_servants w0 = pw_servants w" by (simp_all add: w)
  obtain a sv where a: "pw_poas w p = Some a" and s: "pw_servants w s = Some sv" and n: "id_ok a oid"
    using p by (auto split: option.splits)
  note i = between_callsD(1)[OF b] and ad = between_adaptor[OF b a] and lc = locked_call_free[OF w free a] unlock_back[OF w free a]
  have u: "sv_private sv \<noteq> None \<longleftrightarrow> (\<exists>k. active_map w k = Some s)"
    using servant_active_iff[OF pw_invD(1)[OF i] pw_invD(3)[OF i] s] .
  have h: "pa_sysid_hash a \<longrightarrow> 4 \<le> length oid" using n by (simp add: id_ok_def)
  note lk = lookup_inv[OF i a h]
  have d: "DeactivateDo \<notin> pa_life a" using ad(2) by (simp add: settled_def)
  show ?thesis
  proof (cases "IS_RETAIN a")
    case False
    then have "poa_run app (ActivateWithId p oid s) w0 = Inr (Inl WrongPolicy, w)"
      using a by (simp add: PortableServer_POA_activate_object_with_id_def w0 lc)
    then show ?thesis by (rule keeps_refused[OF _ b0 free w]) (use False ad in \<open>auto simp: refuse_def\<close>)
  next
    case r: True
    show ?thesis
    proof (cases "map_of (pa_map a) oid")
      case None
      have m: "active_map w (p, oid) = None" using active_map_unknown[OF a None] .
      show ?thesis
      proof (cases "IS_UNIQUE_ID a \<and> sv_private sv \<noteq> None")
        case True
        then have "poa_run app (ActivateWithId p oid s) w0 = Inr (Inl ServantAlreadyActive, w\<lparr> pw_lock := pw_lock w0 \<rparr>)"
          using a s r lk(1)[OF None] by (simp add: PortableServer_POA_activate_object_with_id_def w0 lc pobj_release_opt_def throw_def answer_def)
        then show ?thesis by (rule keeps_unlocked[OF _ b0 free w i refl]) (use True u r m ad in \<open>simp_all add: refuse_def\<close>)
      next
        case False
        obtain w1 q x where c: "MateCORBA_POA_create_object_T p (Some oid) w = Inr (q, w1)" "pw_inv {#} w1" "active_map w1 = active_map w"
          "frame w1 = frame w" "pw_servants w1 = pw_servants w" "pw_log w1 = pw_log w"
          "pw_pobjs w1 q = Some x" "po_servant x = None" "po_poa x = p" "po_oid x = oid" "po_objref x = None"
          using create_with_id[OF i a n None] .
        obtain a1 where a1: "pw_poas w1 p = Some a1" "a1 = a\<lparr> pa_map := pa_map a1, pa_sysid := pa_sysid a1 \<rparr>" using frame_poa[OF c(4) a] .
        have "DeactivateDo \<notin> pa_life a1" using arg_cong[OF a1(2), of pa_life] d by simp
        then obtain w' where w': "MateCORBA_POA_activate_object_T p q (Some s) w1 = Inr w'" "pw_inv {#} w'"
          "active_map w' = (active_map w1)((po_poa x, po_oid x) \<mapsto> s)" "frame w' = frame w1"
          using activate_object_inv[OF c(2,7,8) a1(1)] s c(5) by metis
        have f: "frame w' = frame w" using w'(4) c(4) by simp
        have "poa_run app (ActivateWithId p oid s) w0 = Inr (Inr ADone, w'\<lparr> pw_lock := pw_lock w0 \<rparr>)"
          using a s r lk(1)[OF None] False c(1) w'(1)
          by (auto simp: PortableServer_POA_activate_object_with_id_def w0 lc(1) lc(2)[OF f] pobj_release_opt_def return_def answer_def)
        then show ?thesis
          by (rule keeps_unlocked[OF _ b0 free w w'(2) f]) (use False u r m ad c w'(3) in \<open>auto\<close>)
      qed
    next
      case (Some q)
      obtain x where x: "pw_pobjs w q = Some x" "po_poa x = p" "po_oid x = oid" "po_servant x = active_map w (p, oid)"
        "pw_inv {#q#} (pobj_duplicate q w)" "active_map (pobj_duplicate q w) = active_map w" "frame (pobj_duplicate q w) = frame w"
        "pw_pobjs (pobj_duplicate q w) q = Some (x\<lparr> po_refs := Suc (po_refs x) \<rparr>)"
        "pw_poas (pobj_duplicate q w) = pw_poas w" "pw_servants (pobj_duplicate q w) = pw_servants w"
        using found_object[OF i a Some] .
      obtain w' where w': "pobj_release q (pobj_duplicate q w) = Inr w'" "pw_inv {#} w'" "active_map w' = active_map (pobj_duplicate q w)"
        "frame w' = frame (pobj_duplicate q w)" using pinned_release[OF x(5)] .
      have f: "frame w' = frame w" using w'(4) x(7) by simp
      consider "po_servant x \<noteq> None" | "po_servant x = None" "IS_UNIQUE_ID a" "sv_private sv \<noteq> None"
        | "po_servant x = None" "\<not> (IS_UNIQUE_ID a \<and> sv_private sv \<noteq> None)" by blast
      then show ?thesis
      proof cases
        case 1
        then have "poa_run app (ActivateWithId p oid s) w0 = Inr (Inl ObjectAlreadyActive, w'\<lparr> pw_lock := pw_lock w0 \<rparr>)"
          using a r lk(2)[OF Some] x(8) w'(1)
          by (simp add: PortableServer_POA_activate_object_with_id_def w0 lc(1) lc(2)[OF f] pobj_release_opt_def throw_def answer_def)
        then show ?thesis
          by (rule keeps_unlocked[OF _ b0 free w w'(2) f]) (use 1 r ad x(4,6) w'(3) in \<open>simp_all add: refuse_def\<close>)
      next
        case 2
        then have "poa_run app (ActivateWithId p oid s) w0 = Inr (Inl ServantAlreadyActive, w'\<lparr> pw_lock := pw_lock w0 \<rparr>)"
          using a s r lk(2)[OF Some] x(8,10) w'(1)
          by (simp add: PortableServer_POA_activate_object_with_id_def w0 lc(1) lc(2)[OF f] pobj_release_opt_def throw_def answer_def)
        then show ?thesis
          by (rule keeps_unlocked[OF _ b0 free w w'(2) f]) (use 2 u r ad x(4,6) w'(3) in \<open>simp_all add: refuse_def\<close>)
      next
        case 3
        have n': "po_servant (x\<lparr> po_refs := Suc (po_refs x) \<rparr>) = None" using 3 by simp
        have a': "pw_poas (pobj_duplicate q w) p = Some a" "pw_servants (pobj_duplicate q w) s = Some sv" using x(9,10) a s by simp_all
        obtain w2 where w2: "MateCORBA_POA_activate_object_T p q (Some s) (pobj_duplicate q w) = Inr w2" "pw_inv {#q#} w2"
          "active_map w2 = (active_map (pobj_duplicate q w))((p, oid) \<mapsto> s)" "frame w2 = frame (pobj_duplicate q w)"
          by (rule activate_object_inv[OF x(5,8) n' a'(1) d a'(2)]) (use x(2,3) in auto)
        obtain w3 where w3: "pobj_release q w2 = Inr w3" "pw_inv {#} w3" "active_map w3 = active_map w2"
          "frame w3 = frame w2" using pinned_release[OF w2(2)] .
        have f: "frame w3 = frame w" using w3(4) w2(4) x(7) by simp
        have "poa_run app (ActivateWithId p oid s) w0 = Inr (Inr ADone, w3\<lparr> pw_lock := pw_lock w0 \<rparr>)"
          using a a' r lk(2)[OF Some] x(8) 3 w2(1) w3(1)
          by (auto simp: PortableServer_POA_activate_object_with_id_def w0 lc(1) lc(2)[OF f] pobj_release_opt_def return_def answer_def)
        then show ?thesis
          by (rule keeps_unlocked[OF _ b0 free w w3(2) f]) (use 3 u r ad x(4,6) w2(3) w3(3) in \<open>auto\<close>)
      qed
    qed
  qed
qed

lemma deactivate_keeps:
  assumes b0: "between_calls ad w0" and p0: "poa_pre (Deactivate p oid) w0" and free: "lock_free (PoaLock p) w0" and app: "quiet app"
  shows "call_keeps app ad (Deactivate p oid) w0"
proof -
  define w where w: "w = taken (PoaLock p) w0"
  note b = under_lock(1)[OF b0, of "PoaLock p", folded w] and p = under_lock(2)[OF p0, of "PoaLock p", folded w]
  have w0: "pw_poas w0 = pw_poas w" "pw_servants w0 = pw_servants w" by (simp_all add: w)
  obtain a where a: "pw_poas w p = Some a" and n: "id_ok a oid" using p by (auto split: option.splits)
  note i = between_callsD(1)[OF b] and ad = between_adaptor[OF b a] and lc = locked_call_free[OF w free a] unlock_back[OF w free a]
  have h: "pa_sysid_hash a \<longrightarrow> 4 \<le> length oid" using n by (simp add: id_ok_def)
  note lk = lookup_inv[OF i a h]
  show ?thesis
  proof (cases "IS_RETAIN a")
    case False
    then have "poa_run app (Deactivate p oid) w0 = Inr (Inl WrongPolicy, w)"
      using a by (simp add: PortableServer_POA_deactivate_object_def w0 lc)
    then show ?thesis by (rule keeps_refused[OF _ b0 free w]) (use False ad in \<open>auto simp: refuse_def\<close>)
  next
    case r: True
    show ?thesis
    proof (cases "map_of (pa_map a) oid")
      case None
      then have m: "(active_map w)((p, oid) := None) = active_map w" using active_map_unknown[OF a None] by (simp add: fun_upd_idem)
      have "poa_run app (Deactivate p oid) w0 = Inr (Inr ADone, w\<lparr> pw_lock := pw_lock w0 \<rparr>)"
        using a r lk(1)[OF None] by (simp add: PortableServer_POA_deactivate_object_def w0 lc pobj_release_opt_def)
      then show ?thesis by (rule keeps_unlocked[OF _ b0 free w i refl]) (use r m ad in simp_all)
    next
      case (Some q)
      obtain x where x: "pw_pobjs w q = Some x" "po_poa x = p" "po_oid x = oid" "po_servant x = active_map w (p, oid)"
        "pw_inv {#q#} (pobj_duplicate q w)" "active_map (pobj_duplicate q w) = active_map w" "frame (pobj_duplicate q w) = frame w"
        "pw_pobjs (pobj_duplicate q w) q = Some (x\<lparr> po_refs := Suc (po_refs x) \<rparr>)"
        "pw_poas (pobj_duplicate q w) = pw_poas w" "pw_servants (pobj_duplicate q w) = pw_servants w"
        using found_object[OF i a Some] .
      have a': "pw_poas (pobj_duplicate q w) p = Some a" using x(9) a by simp
      have h': "lock_held (PoaLock p) (pobj_duplicate q w)" by (auto simp: w lock_held_def taken_def pobj_duplicate_def)
      have z: "size {#q#} + 3 < MATECORBA_REFCOUNT_MAX" by (simp add: MATECORBA_REFCOUNT_MAX_def)
      obtain w2 l where w2: "MateCORBA_POA_deactivate_object_T app p q True False (pobj_duplicate q w) = Inr w2" "pw_inv {#q#} w2"
        "active_map w2 = (active_map (pobj_duplicate q w))((p, oid) := None)" "frame w2 = frame (pobj_duplicate q w)"
        by (rule deactivate_inv[OF x(5,8) a' ad(2) app z h', of True]) (use x(2,3) in auto)
      have f: "frame w2 = frame w" using w2(4) x(7) by simp
      have "pw_inv {#q#} (w2\<lparr> pw_lock := pw_lock w0 \<rparr>)" using w2(2) by simp
      then obtain w3 where w3: "pobj_release q (w2\<lparr> pw_lock := pw_lock w0 \<rparr>) = Inr w3" "pw_inv {#} w3"
        "active_map w3 = active_map (w2\<lparr> pw_lock := pw_lock w0 \<rparr>)" "frame w3 = frame (w2\<lparr> pw_lock := pw_lock w0 \<rparr>)"
        by (rule pinned_release)
      have f3: "frame w3 = frame w0" using w3(4) frame_back[OF w f] by simp
      have "poa_run app (Deactivate p oid) w0 = Inr (Inr ADone, w3)"
        using a r lk(2)[OF Some] w2(1) w3(1)
        by (simp add: PortableServer_POA_deactivate_object_def w0 lc(1) lc(2)[OF f] pobj_release_opt_def)
      then show ?thesis
        by (rule keeps_done[OF _ b0 free w w3(2) f3]) (use r ad x(6) w2(3) w3(3) in simp_all)
    qed
  qed
qed

lemma create_reference_keeps:
  assumes b0: "between_calls ad w0" and p0: "poa_pre (CreateReference p intf) w0" and free: "lock_free (PoaLock p) w0"
  shows "call_keeps app ad (CreateReference p intf) w0"
proof -
  define w where w: "w = taken (PoaLock p) w0"
  note b = under_lock(1)[OF b0, of "PoaLock p", folded w] and p = under_lock(2)[OF p0, of "PoaLock p", folded w]
  have w0: "pw_poas w0 = pw_poas w" "pw_servants w0 = pw_servants w" by (simp_all add: w)
  obtain a where a: "pw_poas w p = Some a" and n: "next_ok w a" using p by (auto split: option.splits)
  note i = between_callsD(1)[OF b] and ad = between_adaptor[OF b a] and lc = locked_call_free[OF w free a] unlock_back[OF w free a]
  show ?thesis
  proof (cases "IS_SYSTEM_ID a")
    case False
    then have "poa_run app (CreateReference p intf) w0 = Inr (Inl WrongPolicy, w)"
      using a by (simp add: PortableServer_POA_create_reference_def w0 lc)
    then show ?thesis by (rule keeps_refused[OF _ b0 free w]) (use False ad in \<open>auto simp: refuse_def\<close>)
  next
    case True
    then have n': "map_of (pa_map a) (next_id w a) = None" using n by (simp add: next_ok_def)
    obtain w1 q x where c: "MateCORBA_POA_create_object_T p None w = Inr (q, w1)" "pw_inv {#} w1" "active_map w1 = active_map w"
      "frame w1 = frame w" "pw_servants w1 = pw_servants w" "pw_log w1 = pw_log w"
      "pw_pobjs w1 q = Some x" "po_servant x = None" "po_poa x = p" "po_oid x = next_id w a" "po_objref x = None"
      using create_new[OF i a True n'] .
    obtain w2 where w2: "MateCORBA_POA_obj_to_ref (Some q) (Some intf) w1 = Inr (q, w2)" "pw_inv {#} w2" "active_map w2 = active_map w1"
      "frame w2 = frame w1" using obj_to_ref_inv[OF c(2,7,11), of "Some intf" intf] by auto
    have f: "frame w2 = frame w" using w2(4) c(4) by simp
    have "poa_run app (CreateReference p intf) w0 = Inr (Inr (ARef q), w2\<lparr> pw_lock := pw_lock w0 \<rparr>)"
      using a True c(1) w2(1) by (simp add: PortableServer_POA_create_reference_def w0 lc(1) lc(2)[OF f])
    then show ?thesis
      by (rule keeps_unlocked[OF _ b0 free w w2(2) f]) (use True ad w2(3) c(3) in simp_all)
  qed
qed

lemma id_to_reference_keeps:
  assumes b0: "between_calls ad w0" and p0: "poa_pre (IdToReference p oid) w0" and free: "lock_free (PoaLock p) w0"
  shows "call_keeps app ad (IdToReference p oid) w0"
proof -
  define w where w: "w = taken (PoaLock p) w0"
  note b = under_lock(1)[OF b0, of "PoaLock p", folded w] and p = under_lock(2)[OF p0, of "PoaLock p", folded w]
  have w0: "pw_poas w0 = pw_poas w" "pw_servants w0 = pw_servants w" by (simp_all add: w)
  obtain a where a: "pw_poas w p = Some a" and n: "id_ok a oid" using p by (auto split: option.splits)
  note i = between_callsD(1)[OF b] and ad = between_adaptor[OF b a] and lc = locked_call_free[OF w free a] unlock_back[OF w free a]
  have h: "pa_sysid_hash a \<longrightarrow> 4 \<le> length oid" using n by (simp add: id_ok_def)
  note lk = lookup_inv[OF i a h]
  consider "\<not> IS_RETAIN a" | "IS_RETAIN a" "map_of (pa_map a) oid = None"
    | q where "IS_RETAIN a" "map_of (pa_map a) oid = Some q" by (cases "map_of (pa_map a) oid") auto
  then show ?thesis
  proof cases
    case 1
    then have "poa_run app (IdToReference p oid) w0 = Inr (Inl WrongPolicy, w)"
      using a by (simp add: PortableServer_POA_id_to_reference_def w0 lc)
    then show ?thesis by (rule keeps_refused[OF _ b0 free w]) (use 1 ad in \<open>auto simp: refuse_def\<close>)
  next
    case 2
    then have "poa_run app (IdToReference p oid) w0 = Inr (Inl ObjectNotActive, w\<lparr> pw_lock := pw_lock w0 \<rparr>)"
      using a lk(1)[OF 2(2)] by (simp add: PortableServer_POA_id_to_reference_def w0 lc pobj_release_opt_def throw_def answer_def)
    then show ?thesis
      by (rule keeps_unlocked[OF _ b0 free w i refl]) (use 2 ad active_map_unknown[OF a 2(2)] in \<open>simp_all add: refuse_def\<close>)
  next
    case (3 q)
    obtain x where x: "pw_pobjs w q = Some x" "po_poa x = p" "po_oid x = oid" "po_servant x = active_map w (p, oid)"
      "pw_inv {#q#} (pobj_duplicate q w)" "active_map (pobj_duplicate q w) = active_map w" "frame (pobj_duplicate q w) = frame w"
      "pw_pobjs (pobj_duplicate q w) q = Some (x\<lparr> po_refs := Suc (po_refs x) \<rparr>)"
      "pw_poas (pobj_duplicate q w) = pw_poas w" "pw_servants (pobj_duplicate q w) = pw_servants w"
      using found_object[OF i a 3(2)] .
    note au = lc(1) lc(2)[OF x(7)]
    show ?thesis
    proof (cases "po_servant x")
      case None
      have "pw_inv {#q#} ((pobj_duplicate q w)\<lparr> pw_lock := pw_lock w0 \<rparr>)" using x(5) by simp
      then obtain w' where w': "pobj_release q ((pobj_duplicate q w)\<lparr> pw_lock := pw_lock w0 \<rparr>) = Inr w'" "pw_inv {#} w'"
        "active_map w' = active_map ((pobj_duplicate q w)\<lparr> pw_lock := pw_lock w0 \<rparr>)"
        "frame w' = frame ((pobj_duplicate q w)\<lparr> pw_lock := pw_lock w0 \<rparr>)" by (rule pinned_release)
      have f: "frame w' = frame w0" using w'(4) frame_back[OF w x(7)] by simp
      have "poa_run app (IdToReference p oid) w0 = Inr (Inl ObjectNotActive, w')"
        using a 3 lk(2)[OF 3(2)] x(8) None w'(1)
        by (simp add: PortableServer_POA_id_to_reference_def w0 au pobj_release_opt_def throw_def return_def answer_def)
      then show ?thesis
        by (rule keeps_done[OF _ b0 free w w'(2) f]) (use 3 None ad x(4,6) w'(3) in \<open>simp_all add: refuse_def\<close>)
    next
      case (Some s)
      obtain w1 where w1: "objref_of q (pobj_duplicate q w) = Inr (q, w1)" "pw_inv {#q#} w1"
        "active_map w1 = active_map (pobj_duplicate q w)" "frame w1 = frame (pobj_duplicate q w)"
        using objref_of_inv[OF x(5,8)] Some by auto
      have f1: "frame w1 = frame w" using w1(4) x(7) by simp
      have "pw_inv {#q#} (w1\<lparr> pw_lock := pw_lock w0 \<rparr>)" using w1(2) by simp
      then obtain w' where w': "pobj_release q (w1\<lparr> pw_lock := pw_lock w0 \<rparr>) = Inr w'" "pw_inv {#} w'"
        "active_map w' = active_map (w1\<lparr> pw_lock := pw_lock w0 \<rparr>)" "frame w' = frame (w1\<lparr> pw_lock := pw_lock w0 \<rparr>)"
        by (rule pinned_release)
      have f: "frame w' = frame w0" using w'(4) frame_back[OF w f1] by simp
      have "poa_run app (IdToReference p oid) w0 = Inr (Inr (ARef q), w')"
        using a 3 lk(2)[OF 3(2)] x(8) Some w1(1) w'(1)
        by (simp add: PortableServer_POA_id_to_reference_def w0 lc(1) lc(2)[OF f1] pobj_release_opt_def return_def answer_def)
      then show ?thesis
        by (rule keeps_done[OF _ b0 free w w'(2) f]) (use 3 Some ad x(4,6) w1(3) w'(3) in auto)
    qed
  qed
qed

text \<open>Whoever is behind the id, the answer is NULL.\<close>

lemma id_to_servant_keeps:
  assumes b0: "between_calls ad w0" and p0: "poa_pre (IdToServant p oid) w0" and free: "lock_free (PoaLock p) w0"
  shows "call_keeps app ad (IdToServant p oid) w0"
proof -
  define w where w: "w = taken (PoaLock p) w0"
  note b = under_lock(1)[OF b0, of "PoaLock p", folded w] and p = under_lock(2)[OF p0, of "PoaLock p", folded w]
  have w0: "pw_poas w0 = pw_poas w" "pw_servants w0 = pw_servants w" by (simp_all add: w)
  obtain a where a: "pw_poas w p = Some a" and n: "id_ok a oid" using p by (auto split: option.splits)
  note i = between_callsD(1)[OF b] and ad = between_adaptor[OF b a] and lc = locked_call_free[OF w free a] unlock_back[OF w free a]
  have h: "pa_sysid_hash a \<longrightarrow> 4 \<le> length oid" using n by (simp add: id_ok_def)
  note lk = lookup_inv[OF i a h]
  consider "\<not> IS_RETAIN a" "\<not> IS_USE_DEFAULT_SERVANT a" | "\<not> IS_RETAIN a" "IS_USE_DEFAULT_SERVANT a"
    | "IS_RETAIN a" "map_of (pa_map a) oid = None"
    | q where "IS_RETAIN a" "map_of (pa_map a) oid = Some q" by (cases "map_of (pa_map a) oid") auto
  then show ?thesis
  proof cases
    case 1
    then have "poa_run app (IdToServant p oid) w0 = Inr (Inl WrongPolicy, w)"
      using a by (simp add: PortableServer_POA_id_to_servant_def w0 lc)
    then show ?thesis by (rule keeps_refused[OF _ b0 free w]) (use 1 ad in \<open>auto simp: refuse_def\<close>)
  next
    case 2
    then have "poa_run app (IdToServant p oid) w0 = Inr (case pa_default_servant a of None \<Rightarrow> Inl ObjectNotActive
        | Some s \<Rightarrow> Inr (AServant None), w\<lparr> pw_lock := pw_lock w0 \<rparr>)"
      using a by (cases "pa_default_servant a") (simp_all add: PortableServer_POA_id_to_servant_def w0 lc)
    then show ?thesis by (rule keeps_unlocked[OF _ b0 free w i refl]) (use 2 ad in \<open>auto simp: refuse_def split: option.split\<close>)
  next
    case 3
    then have "poa_run app (IdToServant p oid) w0 = Inr (Inl ObjectNotActive, w\<lparr> pw_lock := pw_lock w0 \<rparr>)"
      using a lk(1)[OF 3(2)] by (simp add: PortableServer_POA_id_to_servant_def w0 lc pobj_release_opt_def)
    then show ?thesis
      by (rule keeps_unlocked[OF _ b0 free w i refl]) (use 3 ad active_map_unknown[OF a 3(2)] in \<open>simp_all add: refuse_def\<close>)
  next
    case (4 q)
    obtain x where x: "pw_pobjs w q = Some x" "po_poa x = p" "po_oid x = oid" "po_servant x = active_map w (p, oid)"
      "pw_inv {#q#} (pobj_duplicate q w)" "active_map (pobj_duplicate q w) = active_map w" "frame (pobj_duplicate q w) = frame w"
      "pw_pobjs (pobj_duplicate q w) q = Some (x\<lparr> po_refs := Suc (po_refs x) \<rparr>)"
      "pw_poas (pobj_duplicate q w) = pw_poas w" "pw_servants (pobj_duplicate q w) = pw_servants w"
      using found_object[OF i a 4(2)] .
    obtain w' where w': "pobj_release q (pobj_duplicate q w) = Inr w'" "pw_inv {#} w'" "active_map w' = active_map (pobj_duplicate q w)"
      "frame w' = frame (pobj_duplicate q w)" using pinned_release[OF x(5)] .
    have f: "frame w' = frame w" using w'(4) x(7) by simp
    have "poa_run app (IdToServant p oid) w0 = Inr (case po_servant x of None \<Rightarrow> Inl ObjectNotActive
        | Some s \<Rightarrow> Inr (AServant None), w'\<lparr> pw_lock := pw_lock w0 \<rparr>)"
      using a 4 lk(2)[OF 4(2)] x(8) w'(1)
      by (cases "po_servant x") (simp_all add: PortableServer_POA_id_to_servant_def w0 lc(1) lc(2)[OF f] pobj_release_opt_def)
    then show ?thesis
      by (rule keeps_unlocked[OF _ b0 free w w'(2) f]) (use 4 ad x(4,6) w'(3) in \<open>auto simp: refuse_def split: option.split\<close>)
  qed
qed

text \<open>The object in front of a servant's list.\<close>

lemma private_object:
  assumes i: "pw_inv pins w" and s: "pw_servants w s = Some sv" and q: "sv_private sv = Some q"
  obtains x where "pw_pobjs w q = Some x" "po_servant x = Some s" "active_map w (po_poa x, po_oid x) = Some s"
proof -
  obtain qs where qs: "path w (sv_private sv) qs None" "set qs = active_for w s" using servants_path[OF pw_invD(3)[OF i] s] .
  then have "q \<in> active_for w s" using q by (cases qs) auto
  then obtain x where "pw_pobjs w q = Some x" "po_servant x = Some s" by (auto simp: active_for_def)
  then show thesis using that active_map_object[OF pw_invD(1)[OF i]] by metis
qed

lemma servant_to_id_keeps:
  assumes b0: "between_calls ad w0" and p0: "poa_pre (ServantToId p s) w0" and free: "lock_free (PoaLock p) w0"
  shows "call_keeps app ad (ServantToId p s) w0"
proof -
  define w where w: "w = taken (PoaLock p) w0"
  note b = under_lock(1)[OF b0, of "PoaLock p", folded w] and p = under_lock(2)[OF p0, of "PoaLock p", folded w]
  have w0: "pw_poas w0 = pw_poas w" "pw_servants w0 = pw_servants w" by (simp_all add: w)
  obtain a sv where a: "pw_poas w p = Some a" and s: "pw_servants w s = Some sv" and n: "next_ok w a"
    and sys: "IS_IMPLICIT_ACTIVATION a \<longrightarrow> IS_SYSTEM_ID a"
    using p by (auto split: option.splits)
  note i = between_callsD(1)[OF b] and ad = between_adaptor[OF b a] and lc = locked_call_free[OF w free a] unlock_back[OF w free a]
  have u: "sv_private sv \<noteq> None \<longleftrightarrow> (\<exists>k. active_map w k = Some s)"
    using servant_active_iff[OF pw_invD(1)[OF i] pw_invD(3)[OF i] s] .
  have cur: "pw_current w = []" using between_callsD(4)[OF b] .
  consider "\<not> IS_USE_DEFAULT_SERVANT a" "\<not> (IS_RETAIN a \<and> (IS_UNIQUE_ID a \<or> IS_IMPLICIT_ACTIVATION a))"
    | q where "IS_RETAIN a" "IS_UNIQUE_ID a" "sv_private sv = Some q"
    | "IS_RETAIN a" "IS_IMPLICIT_ACTIVATION a" "\<not> (IS_UNIQUE_ID a \<and> sv_private sv \<noteq> None)"
    | "IS_USE_DEFAULT_SERVANT a \<or> IS_RETAIN a \<and> (IS_UNIQUE_ID a \<or> IS_IMPLICIT_ACTIVATION a)"
      "\<not> (IS_RETAIN a \<and> IS_UNIQUE_ID a \<and> sv_private sv \<noteq> None)" "\<not> (IS_RETAIN a \<and> IS_IMPLICIT_ACTIVATION a)"
    by (cases "sv_private sv") auto
  then show ?thesis
  proof cases
    case 1
    then have "poa_run app (ServantToId p s) w0 = Inr (Inl WrongPolicy, w)"
      using a s by (auto simp: PortableServer_POA_servant_to_id_def w0 lc Let_def)
    then show ?thesis by (rule keeps_refused[OF _ b0 free w]) (use 1 ad in \<open>auto simp: refuse_def\<close>)
  next
    case (2 q)
    obtain x where x: "pw_pobjs w q = Some x" "po_servant x = Some s" "active_map w (po_poa x, po_oid x) = Some s"
      using private_object[OF i s 2(3)] .
    then have "poa_run app (ServantToId p s) w0 = Inr (Inr (AnId (po_oid x)), w\<lparr> pw_lock := pw_lock w0 \<rparr>)"
      using a s 2 by (simp add: PortableServer_POA_servant_to_id_def w0 lc Let_def)
    moreover have "\<exists>k. active_map w k = Some s \<and> po_oid x = snd k" using x(3) by (metis snd_conv)
    ultimately show ?thesis by (intro keeps_unlocked[OF _ b0 free w i refl]) (use 2 u x(3) ad in \<open>auto simp: refuse_def\<close>)
  next
    case 3
    then have n': "map_of (pa_map a) (next_id w a) = None" "IS_SYSTEM_ID a" using n sys by (simp_all add: next_ok_def)
    obtain w1 w' q x where c: "MateCORBA_POA_create_object_T p None w = Inr (q, w1)"
      "MateCORBA_POA_activate_object_T p q (Some s) w1 = Inr w'" "pw_inv {#} w'"
      "active_map w (p, next_id w a) = None" "active_map w' = (active_map w)((p, next_id w a) \<mapsto> s)" "frame w' = frame w"
      "pw_log w' = pw_log w" "pw_pobjs w' q = Some x" "po_oid x = next_id w a" "po_servant x = Some s" "po_objref x = None"
      by (rule create_active[OF i a n'(2,1) ad(2) s]) blast
    have "rbind (case sv_private sv of None \<Rightarrow> Inr None | Some q \<Rightarrow> if IS_RETAIN a \<and> IS_UNIQUE_ID a
        then rbind (the_pobj w q) (\<lambda>x. Inr (if po_servant x = Some s then Some (po_oid x) else None)) else Inr None) f = f None" for f :: "_ \<Rightarrow> objid call"
      using 3(3) by (auto split: option.split)
    then have "poa_run app (ServantToId p s) w0 = Inr (Inr (AnId (next_id w a)), w'\<lparr> pw_lock := pw_lock w0 \<rparr>)"
      using a s 3 c by (auto simp: PortableServer_POA_servant_to_id_def w0 lc(1) lc(2)[OF c(6)] Let_def)
    then show ?thesis
      by (rule keeps_unlocked[OF _ b0 free w c(3,6)]) (use 3 u ad c(4,5) in \<open>auto simp: spec_new_def\<close>)
  next
    case 4
    have "rbind (case sv_private sv of None \<Rightarrow> Inr None | Some q \<Rightarrow> if IS_RETAIN a \<and> IS_UNIQUE_ID a
        then rbind (the_pobj w q) (\<lambda>x. Inr (if po_servant x = Some s then Some (po_oid x) else None)) else Inr None) f = f None" for f :: "_ \<Rightarrow> objid call"
      using 4(2) by (auto split: option.split)
    then have "poa_run app (ServantToId p s) w0 = Inr (Inl ServantNotActive, w\<lparr> pw_lock := pw_lock w0 \<rparr>)"
      using a s 4 cur by (auto simp: PortableServer_POA_servant_to_id_def w0 lc Let_def)
    then show ?thesis by (rule keeps_unlocked[OF _ b0 free w i refl]) (use 4 u ad in \<open>auto simp: refuse_def\<close>)
  qed
qed

lemma servant_to_reference_keeps:
  assumes b0: "between_calls ad w0" and p0: "poa_pre (ServantToReference p s) w0" and free: "lock_free (PoaLock p) w0"
  shows "call_keeps app ad (ServantToReference p s) w0"
proof -
  define w where w: "w = taken (PoaLock p) w0"
  note b = under_lock(1)[OF b0, of "PoaLock p", folded w] and p = under_lock(2)[OF p0, of "PoaLock p", folded w]
  have w0: "pw_poas w0 = pw_poas w" "pw_servants w0 = pw_servants w" by (simp_all add: w)
  obtain a sv where a: "pw_poas w p = Some a" and s: "pw_servants w s = Some sv" and n: "next_ok w a"
    and sys: "IS_IMPLICIT_ACTIVATION a \<longrightarrow> IS_SYSTEM_ID a"
    using p by (auto split: option.splits)
  note i = between_callsD(1)[OF b] and ad = between_adaptor[OF b a] and lc = locked_call_free[OF w free a] unlock_back[OF w free a]
  have u: "sv_private sv \<noteq> None \<longleftrightarrow> (\<exists>k. active_map w k = Some s)"
    using servant_active_iff[OF pw_invD(1)[OF i] pw_invD(3)[OF i] s] .
  have cur: "pw_current w = []" using between_callsD(4)[OF b] .
  consider "\<not> (IS_RETAIN a \<and> (IS_UNIQUE_ID a \<or> IS_IMPLICIT_ACTIVATION a))"
    | q where "IS_RETAIN a" "IS_UNIQUE_ID a" "sv_private sv = Some q"
    | "IS_RETAIN a" "IS_IMPLICIT_ACTIVATION a" "\<not> (IS_UNIQUE_ID a \<and> sv_private sv \<noteq> None)"
    | "IS_RETAIN a" "IS_UNIQUE_ID a" "sv_private sv = None" "\<not> IS_IMPLICIT_ACTIVATION a"
    by (cases "sv_private sv") auto
  then show ?thesis
  proof cases
    case 1
    then have "poa_run app (ServantToReference p s) w0 = Inr (Inl WrongPolicy, w)"
      using a s by (auto simp: PortableServer_POA_servant_to_reference_def w0 lc Let_def)
    then show ?thesis by (rule keeps_refused[OF _ b0 free w]) (use 1 ad in \<open>auto simp: refuse_def\<close>)
  next
    case (2 q)
    obtain x where x: "pw_pobjs w q = Some x" "po_servant x = Some s" "active_map w (po_poa x, po_oid x) = Some s"
      using private_object[OF i s 2(3)] .
    obtain w1 where w1: "objref_of q w = Inr (q, w1)" "pw_inv {#} w1" "active_map w1 = active_map w" "frame w1 = frame w"
      using objref_of_inv[OF i x(1)] x(2) by auto
    have "poa_run app (ServantToReference p s) w0 = Inr (Inr (ARef q), w1\<lparr> pw_lock := pw_lock w0 \<rparr>)"
      using a s 2 w1(1) by (simp add: PortableServer_POA_servant_to_reference_def w0 lc(1) lc(2)[OF w1(4)] Let_def)
    then show ?thesis by (rule keeps_unlocked[OF _ b0 free w w1(2,4)]) (use 2 x(3) ad w1(3) in auto)
  next
    case 3
    then have n': "map_of (pa_map a) (next_id w a) = None" "IS_SYSTEM_ID a" using n sys by (simp_all add: next_ok_def)
    obtain w1 w' q x where c: "MateCORBA_POA_create_object_T p None w = Inr (q, w1)"
      "MateCORBA_POA_activate_object_T p q (Some s) w1 = Inr w'" "pw_inv {#} w'"
      "active_map w (p, next_id w a) = None" "active_map w' = (active_map w)((p, next_id w a) \<mapsto> s)" "frame w' = frame w"
      "pw_log w' = pw_log w" "pw_pobjs w' q = Some x" "po_oid x = next_id w a" "po_servant x = Some s" "po_objref x = None"
      by (rule create_active[OF i a n'(2,1) ad(2) s]) blast
    obtain w2 where w2: "MateCORBA_POA_obj_to_ref (Some q) None w' = Inr (q, w2)" "pw_inv {#} w2" "active_map w2 = active_map w'"
      "frame w2 = frame w'" using obj_to_ref_inv[OF c(3,8,11), of None] c(10) by auto
    have f: "frame w2 = frame w" using w2(4) c(6) by simp
    have "poa_run app (ServantToReference p s) w0 = Inr (Inr (ARef q), w2\<lparr> pw_lock := pw_lock w0 \<rparr>)"
      using a s 3 c(1,2) w2(1) by (auto simp: PortableServer_POA_servant_to_reference_def w0 lc(1) lc(2)[OF f] Let_def)
    then show ?thesis
      by (rule keeps_unlocked[OF _ b0 free w w2(2) f]) (use 3 u ad c(4,5) w2(3) in auto)
  next
    case 4
    then have "poa_run app (ServantToReference p s) w0 = Inr (Inl ServantNotActive, w\<lparr> pw_lock := pw_lock w0 \<rparr>)"
      using a s cur by (auto simp: PortableServer_POA_servant_to_reference_def w0 lc Let_def)
    then show ?thesis by (rule keeps_unlocked[OF _ b0 free w i refl]) (use 4 u ad in \<open>auto simp: refuse_def\<close>)
  qed
qed

lemma release_reference_keeps:
  assumes b: "between_calls ad w" and p: "poa_pre (ReleaseReference q) w"
  shows "call_keeps app ad (ReleaseReference q) w"
proof -
  obtain x t n where x: "pw_pobjs w q = Some x" "po_objref x = Some (t, n)" "n < MATECORBA_REFCOUNT_MAX"
    using p by (auto split: option.splits)
  note i = between_callsD(1)[OF b]
  obtain w' where w': "objref_release q w = Inr w'" "pw_inv {#} w'" "active_map w' = active_map w" "frame w' = frame w"
    using objref_release_inv[OF i x] by (auto simp: MATECORBA_REFCOUNT_MAX_def)
  then show ?thesis using between_callsI[OF b w'(2,4)] frame_rest(6)[OF w'(4)] unfolding call_keeps_def
    by (intro exI[of _ "Inr ADone"] exI[of _ w']) (simp add: poa_step_def poa_stuck_def poa_view_def)
qed

section \<open>The adaptors meet the contract\<close>

lemma locked_call_stuck: "pw_poas w p = Some a \<Longrightarrow> \<not> lock_free (PoaLock p) w \<Longrightarrow> locked_call p test work w = Inl Hang"
  by (simp add: locked_call_def poa_locks lock_stuck)

lemma poa_hangs:
  assumes "poa_pre c w" "poa_stuck c (poa_view w)"
  shows "poa_run app c w = Inl Hang"
proof -
  obtain p where p: "call_adaptor c = Some p" "\<not> lock_free (PoaLock p) w"
    using assms(2) by (auto simp: poa_stuck_def poa_view_def lock_free_def)
  obtain a where a: "pw_poas w p = Some a" using assms(1) p(1) by (cases c) (auto split: option.splits)
  note st = locked_call_stuck[OF a p(2)]
  show ?thesis using assms(1) p(1) a
    by (cases c) (auto simp: answer_def st Let_def PortableServer_POA_activate_object_def
      PortableServer_POA_activate_object_with_id_def PortableServer_POA_deactivate_object_def PortableServer_POA_create_reference_def
      PortableServer_POA_id_to_reference_def PortableServer_POA_id_to_servant_def PortableServer_POA_servant_to_id_def
      PortableServer_POA_servant_to_reference_def)
qed

lemma poa_simulates:
  assumes app: "quiet app" and b: "between_calls ad w" and p: "poa_pre c w" and n: "\<not> poa_stuck c (poa_view w)"
  shows "\<exists>r w'. poa_run app c w = Inr (r, w') \<and> between_calls ad w' \<and> poa_step ad c r (poa_view w) (poa_view w')"
  unfolding call_keeps_def[symmetric]
proof (cases "call_adaptor c")
  case None
  then obtain q where "c = ReleaseReference q" by (cases c) auto
  then show "call_keeps app ad c w" using release_reference_keeps[OF b] p by simp
next
  case (Some k)
  have f: "lock_free (PoaLock k) w" using n Some by (auto simp: poa_stuck_def poa_view_def lock_free_def)
  show "call_keeps app ad c w" using p Some f
  proof (induction c)
    case (Activate)
    then show ?case using activate_keeps[OF b] by simp
  next
    case (ActivateWithId)
    then show ?case using activate_with_id_keeps[OF b] by simp
  next
    case (Deactivate)
    then show ?case using deactivate_keeps[OF b _ _ app] by simp
  next
    case (CreateReference)
    then show ?case using create_reference_keeps[OF b] by simp
  next
    case (IdToReference)
    then show ?case using id_to_reference_keeps[OF b] by simp
  next
    case (IdToServant)
    then show ?case using id_to_servant_keeps[OF b] by simp
  next
    case (ServantToId)
    then show ?case using servant_to_id_keeps[OF b] by simp
  next
    case (ServantToReference)
    then show ?case using servant_to_reference_keeps[OF b] by simp
  next
    case (ReleaseReference)
    then show ?case by simp
  qed
qed

interpretation adaptors: refines "\<lambda>w. quiet app \<and> between_calls ad w" poa_view "poa_run app" poa_pre "poa_step ad" poa_stuck
  for app ad
  by unfold_locales (use poa_simulates poa_hangs in blast)+

section \<open>Any sequence of calls\<close>


text \<open>A process with one adaptor, in which one of two servants is active.\<close>

definition sample_policies :: policies where
  "sample_policies = default_policies\<lparr> p_implicit_activation := IMPLICIT_ACTIVATION \<rparr>"

definition sample_id :: objid where "sample_id = [1, 0, 0, 0, 9, 9, 9, 9]"

definition sample_adaptor :: adaptor where
  "sample_adaptor = \<lparr> pa_key = u32_bytes True 0 @ replicate 16 3, pa_hint = HINT_NONE, pa_life = {}, pa_use_cnt = 0, pa_id = 0,
     pa_sysid = 1, pa_name = ''RootPOA'', pa_parent = None, pa_manager = 2, pa_servant_manager = None,
     pa_default_servant = None, pa_sysid_hash = True, pa_map = [(sample_id, 5)], pa_held = [], pa_children = [],
     pa_policies = sample_policies \<rparr>"

definition sample_object :: pobject where
  "sample_object = \<lparr> po_refs = 1, po_poa = 1, po_oid = sample_id, po_servant = Some 7, po_next = None, po_use_cnt = 0,
     po_life = {}, po_objref = None \<rparr>"

definition sample_request :: request where
  "sample_request = \<lparr> rq_id = 11, rq_key = u32_bytes True 0 @ replicate 16 3 @ sample_id, rq_opname = [] \<rparr>"

definition sample_poas :: "poa_state \<Rightarrow> poa_world" where
  "sample_poas st = \<lparr> pw_host = True, pw_pobjs = [5 \<mapsto> sample_object], pw_poas = [1 \<mapsto> sample_adaptor],
     pw_servants = [7 \<mapsto> \<lparr> sv_private = Some 5, sv_class = ''Echo'' \<rparr>, 8 \<mapsto> \<lparr> sv_private = None, sv_class = ''Echo'' \<rparr>],
     pw_managers = [2 \<mapsto> \<lparr> pm_state = st, pm_poas = [1] \<rparr>], pw_adaptors = [Some 1], pw_current = [],
     pw_bufs = [4 \<mapsto> sample_request], pw_idle = [], pw_queue = [], pw_forw = [], pw_fresh = 9, pw_random = (\<lambda>n. [6, 6, 6, 6]), pw_log = [],
     pw_lock = Some {} \<rparr>"

definition sample_app :: app where
  "sample_app = \<lparr> ap_finalize = (\<lambda>s. Some (\<lambda>w. Inr (w\<lparr> pw_log := pw_log w @ [Finalized s] \<rparr>))),
     ap_etherealize = (\<lambda>sm oid p s c w. Inr (w\<lparr> pw_log := pw_log w @ [] \<rparr>)),
     ap_incarnate = (\<lambda>sm oid p w. Inr ((None, None), w)), ap_preinvoke = (\<lambda>sm oid p n w. Inr ((None, None), w)),
     ap_postinvoke = (\<lambda>sm oid p n s w. Inr (None, w)), ap_find = (\<lambda>c n. Some (False, True)),
     ap_method = (\<lambda>s n b w. Inr (None, w\<lparr> pw_log := pw_log w @ [Invoked s n] \<rparr>)), ap_walk = (\<lambda>qs. qs) \<rparr>"

lemma sample_quiet: "quiet sample_app"
  unfolding quiet_def
proof (intro conjI allI)
  show "ap_finalize sample_app s = Some f \<longrightarrow> (\<exists>l. f w = Inr (w\<lparr> pw_log := pw_log w @ l \<rparr>))" for s f w
    by (auto simp: sample_app_def)
  show "\<exists>l. ap_etherealize sample_app sm oid p s c w = Inr (w\<lparr> pw_log := pw_log w @ l \<rparr>)" for sm oid p s c w
    by (rule exI[of _ "[]"]) (simp add: sample_app_def)
qed

lemma sample_inv: "pw_inv {#} (sample_poas st)"
proof -
  have "tables_ok (sample_poas st)"
    by (rule tables_okI) (auto simp: sample_poas_def sample_object_def sample_adaptor_def split: if_splits)
  moreover have "counts_ok {#} (sample_poas st)"
    by (rule counts_okI) (auto simp: sample_poas_def sample_object_def holders_def split: if_splits)
  moreover have "active_for (sample_poas st) s = (if s = 7 then {5} else {})" for s
    by (auto simp: active_for_def sample_poas_def sample_object_def split: if_splits)
  then have "servants_ok (sample_poas st)"
    unfolding servants_ok_def
    by (auto simp: sample_poas_def sample_object_def intro: exI[of _ "[5]"] exI[of _ "[]"] split: if_splits)
  moreover have "at_rest (sample_poas st)"
    by (rule at_restI) (auto simp: sample_poas_def sample_object_def sample_adaptor_def split: if_splits)
  ultimately show ?thesis by (simp add: pw_inv_def)
qed

definition sample_fixed :: "poa \<Rightarrow> adaptor option" where
  "sample_fixed = fst (frame (sample_poas ACTIVE))"

lemma sample_between: "between_calls sample_fixed (sample_poas ACTIVE)"
  using sample_inv[of ACTIVE] unfolding between_calls_def sample_fixed_def
  by (auto simp: frame_def sample_poas_def settled_def sample_adaptor_def sample_policies_def default_policies_def split: if_splits)

text \<open>The second of these calls is refused and keeps the lock, so that the third waits for it.\<close>

definition sample_calls :: "poa_call list" where
  "sample_calls = [ServantToId 1 7, Activate 1 7, Deactivate 1 sample_id]"

definition sample_use :: "poa_call list" where
  "sample_use = [ServantToId 1 7, Deactivate 1 sample_id]"

lemma sample_next: "next_ok (sample_poas ACTIVE) sample_adaptor"
  by code_simp

lemma sample_stores [simp]:
  "pw_poas (sample_poas st) = [1 \<mapsto> sample_adaptor]" "pw_pobjs (sample_poas st) = [5 \<mapsto> sample_object]"
  "pw_servants (sample_poas st) = [7 \<mapsto> \<lparr> sv_private = Some 5, sv_class = ''Echo'' \<rparr>, 8 \<mapsto> \<lparr> sv_private = None, sv_class = ''Echo'' \<rparr>]"
  by (simp_all add: sample_poas_def)

lemma sample_policy [simp]:
  "IS_RETAIN sample_adaptor" "IS_SYSTEM_ID sample_adaptor" "IS_UNIQUE_ID sample_adaptor" "IS_IMPLICIT_ACTIVATION sample_adaptor"
  by (simp_all add: sample_adaptor_def sample_policies_def default_policies_def)

lemma sample_lock [simp]: "pw_lock (sample_poas st) = Some {}" "(sample_poas st)\<lparr> pw_lock := Some {} \<rparr> = sample_poas st"
  by (simp_all add: sample_poas_def)

lemmas sample_locking = locked_call_def POA_LOCK_def POA_UNLOCK_def LINK_MUTEX_LOCK_def LINK_MUTEX_UNLOCK_def taken_def

lemma sample_to_id: "poa_run sample_app (ServantToId 1 7) (sample_poas ACTIVE) = Inr (Inr (AnId sample_id), sample_poas ACTIVE)"
  by (simp add: PortableServer_POA_servant_to_id_def Let_def sample_object_def sample_locking)

lemma sample_refused: "poa_run sample_app (Activate 1 7) (sample_poas ACTIVE)
    = Inr (Inl ServantAlreadyActive, taken (PoaLock 1) (sample_poas ACTIVE))"
  by (simp add: PortableServer_POA_activate_object_def sample_locking)

lemma sample_pre: "all_pre (poa_run sample_app) poa_pre sample_calls (sample_poas ACTIVE)"
    "all_pre (poa_run sample_app) poa_pre sample_use (sample_poas ACTIVE)"
proof -
  have 1: "id_ok sample_adaptor sample_id" by (simp add: id_ok_def sample_id_def MATECORBA_OBJECT_ID_LEN_def)
  show "all_pre (poa_run sample_app) poa_pre sample_calls (sample_poas ACTIVE)"
    unfolding sample_calls_def all_pre.simps sample_to_id sample_refused sum.case prod.case
    using sample_next 1 by (simp split: sum.split)
  show "all_pre (poa_run sample_app) poa_pre sample_use (sample_poas ACTIVE)"
    unfolding sample_use_def all_pre.simps sample_to_id sum.case prod.case
    using sample_next 1 by (simp split: sum.split)
qed


text \<open>Where no call is refused in a way that keeps the lock, all return.\<close>

lemma spec_run_lock:
  assumes "spec_run spec cs rs v v'" "\<And>c r v v'. c \<in> set cs \<Longrightarrow> spec c r v v' \<Longrightarrow> snd v' = snd v"
  shows "snd v' = snd v"
  using assms
proof (induction rule: spec_run.induct)
  case (spec_cons c r v v1 cs rs v')
  have "snd v1 = snd v" using spec_cons.prems[of c r v v1] spec_cons.hyps(1) by simp
  moreover have "snd v' = snd v1" using spec_cons.IH spec_cons.prems by (meson list.set_intros(2))
  ultimately show ?case by simp
qed simp

lemma sample_use_returns: "\<exists>rs w'. run_all (poa_run sample_app) sample_use (sample_poas ACTIVE) = Inr (rs, w')"
proof -
  obtain n rs w' where n: "n \<le> length sample_use" "run_all (poa_run sample_app) (take n sample_use) (sample_poas ACTIVE) = Inr (rs, w')"
    "spec_run (poa_step sample_fixed) (take n sample_use) rs (poa_view (sample_poas ACTIVE)) (poa_view w')"
    "n < length sample_use \<longrightarrow> poa_stuck (sample_use ! n) (poa_view w')"
    using adaptors.simulation[of sample_app sample_fixed "sample_poas ACTIVE" sample_use] sample_quiet sample_between sample_pre(2) by blast
  have ad: "sample_fixed 1 = Some (sample_adaptor\<lparr> pa_map := [], pa_sysid := 0 \<rparr>)" by (simp add: sample_fixed_def frame_def)
  have "snd (poa_view w') = snd (poa_view (sample_poas ACTIVE))"
  proof (rule spec_run_lock[OF n(3)])
    fix c r v v' assume "c \<in> set (take n sample_use)" and s: "poa_step sample_fixed c r v v'"
    then have "c \<in> set sample_use" using in_set_takeD by metis
    then show "snd v' = snd v" using s ad
      by (auto simp: sample_use_def poa_step_def spec_new_def refuse_def split: if_splits)
  qed
  then have "\<not> poa_stuck (sample_use ! n) (poa_view w')" by (auto simp: poa_stuck_def poa_view_def)
  then have "n = length sample_use" using n(1,4) by auto
  then show ?thesis using n(2) by auto
qed

section \<open>Unique servants\<close>

definition exclusive :: "active \<Rightarrow> bool" where
  "exclusive m \<longleftrightarrow> (\<forall>k k' s. m k = Some s \<longrightarrow> m k' = Some s \<longrightarrow> k = k')"

lemma exclusive_enter: "exclusive m \<Longrightarrow> \<forall>a b. m (a, b) \<noteq> Some s \<Longrightarrow> exclusive (m(k \<mapsto> s))"
  unfolding exclusive_def by (auto split: if_splits)

lemma exclusive_leave: "exclusive m \<Longrightarrow> exclusive (m(k := None))"
  unfolding exclusive_def by (auto split: if_splits)

lemma spec_exclusive:
  assumes "poa_spec ad c r m m'" "exclusive m" "\<And>p a. ad p = Some a \<Longrightarrow> IS_UNIQUE_ID a"
  shows "exclusive m'"
  using assms
  by (cases c) (auto simp: refuse_def spec_new_def exclusive_enter exclusive_leave split: option.splits if_splits)

text \<open>C36. Where every adaptor has the policy of unique ids, no servant is ever active under two ids, in one adaptor or in
  two, whatever sequence of activations, implicit activations, deactivations and lookups is made.
\<close>

theorem unique_servants:
  assumes "quiet app" "between_calls ad w" "all_pre (poa_run app) poa_pre cs w" "run_all (poa_run app) cs w = Inr (rs, w')"
    and "exclusive (active_map w)" and "\<And>p a. ad p = Some a \<Longrightarrow> IS_UNIQUE_ID a"
  shows "exclusive (active_map w')"
proof -
  have "exclusive (fst v')" if "poa_step ad c r v v'" "exclusive (fst v)" for c r v v'
    using spec_exclusive[of ad c r "fst v" "fst v'"] that assms(6) unfolding poa_step_def by blast
  then have "exclusive (fst (poa_view w'))"
    using adaptors.spec_invariant[of app ad w cs rs w' "\<lambda>v. exclusive (fst v)"] assms by (simp add: poa_view_def)
  then show ?thesis by (simp add: poa_view_def)
qed

lemma sample_active: "active_map (sample_poas st) = [(1, sample_id) \<mapsto> 7]"
  by (auto simp: fun_eq_iff active_map_def sample_poas_def sample_adaptor_def sample_object_def split: if_splits)

theorem unique_servants_witness: "\<exists>rs w'. run_all (poa_run sample_app) sample_use (sample_poas ACTIVE) = Inr (rs, w')
    \<and> exclusive (active_map w')"
proof -
  obtain rs w' where w': "run_all (poa_run sample_app) sample_use (sample_poas ACTIVE) = Inr (rs, w')"
    using sample_use_returns by blast
  moreover have "exclusive (active_map (sample_poas ACTIVE))" by (simp add: sample_active exclusive_def)
  moreover have "IS_UNIQUE_ID a" if "sample_fixed p = Some a" for p a
    using that by (auto simp: sample_fixed_def frame_def sample_poas_def sample_adaptor_def sample_policies_def default_policies_def split: if_splits)
  ultimately show ?thesis using unique_servants[OF sample_quiet sample_between sample_pre(2) w'] by blast
qed

end
