(* ===== verification/Poa_Serve.thy ===== *)
theory Poa_Serve imports Poa_Manager Poa_Calls begin

text \<open>
  What a request meets: it finds the object whose key it carries; the method of an active object is called once;
  a manager that discards or is inactive makes for two replies; a request that was held is used after its buffer has
  been given back.
\<close>

section \<open>The invariant and the rest of the state\<close>

lemma write_log_sel [simp]:
  "pw_pobjs (write_log e w) = pw_pobjs w" "pw_poas (write_log e w) = pw_poas w" "pw_servants (write_log e w) = pw_servants w"
  "pw_fresh (write_log e w) = pw_fresh w" "pw_managers (write_log e w) = pw_managers w" "pw_bufs (write_log e w) = pw_bufs w"
  "pw_log (write_log e w) = pw_log w @ [e]" "pw_current (write_log e w) = pw_current w" "pw_lock (write_log e w) = pw_lock w"
  by (simp_all add: write_log_def)

lemma write_log_inv [simp]: "pw_inv pins w \<Longrightarrow> pw_inv pins (write_log e w)" "pw_inv pins w \<Longrightarrow> active_map (write_log e w) = active_map w"
  using pw_inv_same[of pins w "write_log e w"] by simp_all

section \<open>The key finds the object\<close>

text \<open>An adaptor with its place in the list of the ORB and the key that tells it.\<close>

definition keyed :: "poa_world \<Rightarrow> poa \<Rightarrow> adaptor \<Rightarrow> bool" where
  "keyed w p a \<longleftrightarrow> pa_id a < length (pw_adaptors w) \<and> pa_id a < 2 ^ 31 \<and> pw_adaptors w ! pa_id a = Some p
     \<and> length (pa_key a) = MATECORBA_ADAPTOR_PREFIX_LEN \<and> take 4 (pa_key a) = u32_bytes (pw_host w) (of_nat (pa_id a))"

lemma sint_small: "n < 2 ^ 31 \<Longrightarrow> sint (of_nat n :: u32) = int n"
  by (simp add: signed_of_nat signed_take_bit_int_eq_self)

lemma adaptor_find_keyed:
  assumes "keyed w p a" "pw_poas w p = Some a"
  shows "MateCORBA_adaptor_find w (pa_key a @ oid) = Inr (Some p)"
proof -
  have l: "length (pa_key a) = 20" using assms(1) by (simp add: keyed_def MATECORBA_ADAPTOR_PREFIX_LEN_def MATECORBA_ADAPTOR_KEY_LEN_def)
  have "adaptor_number w (pa_key a @ oid) = of_nat (pa_id a)"
    using assms(1) l by (simp add: adaptor_number_def keyed_def)
  then show ?thesis using assms l sint_small[of "pa_id a"]
    by (simp add: MateCORBA_adaptor_find_def MATECORBA_ADAPTOR_PREFIX_LEN_def MATECORBA_ADAPTOR_KEY_LEN_def keyed_def)
qed

lemma objkey_found:
  assumes i: "pw_inv pins w" and x: "pw_pobjs w q = Some x" and a: "pw_poas w (po_poa x) = Some a" "keyed w (po_poa x) a"
    and l: "pa_sysid_hash a \<longrightarrow> 4 \<le> length (po_oid x)" and b: "pw_bufs w b = Some r"
    and k: "MateCORBA_POAObject_object_to_objkey w q = Inr (rq_key r)"
  shows "MateCORBA_handle_request app b w = (if lock_free (PoaLock (po_poa x)) w
    then poa_dispatch app (po_poa x) a q b (pobj_duplicate q (taken (PoaLock (po_poa x)) w)) else Inl Hang)"
proof (cases "lock_free (PoaLock (po_poa x)) w")
  case False
  have "rq_key r = pa_key a @ po_oid x" using k x a(1) by (simp add: MateCORBA_POAObject_object_to_objkey_def)
  then show ?thesis using a(1) b adaptor_find_keyed[OF a(2,1)] False
    by (simp add: MateCORBA_handle_request_def MateCORBA_POA_handle_request_def the_buf_def poa_locks lock_stuck)
next
  case True
  let ?v = "taken (PoaLock (po_poa x)) w"
  have i': "pw_inv pins ?v" and a': "pw_poas ?v (po_poa x) = Some a" using i a(1) by simp_all
  have key: "rq_key r = pa_key a @ po_oid x" using k x a(1) by (simp add: MateCORBA_POAObject_object_to_objkey_def)
  have len: "length (pa_key a) = MATECORBA_ADAPTOR_PREFIX_LEN" using a(2) by (simp add: keyed_def)
  obtain a' where "pw_poas w (po_poa x) = Some a'" "map_of (pa_map a') (po_oid x) = Some q" using tables_object[OF pw_invD(1)[OF i] x] .
  then have m: "map_of (pa_map a) (po_oid x) = Some q" using a(1) by simp
  have "MateCORBA_POA_object_key_lookup_T (po_poa x) (rq_key r) ?v = Inr (Some q, pobj_duplicate q ?v)"
    using lookup_inv(2)[OF i' a' l m] key len by (simp add: MateCORBA_POA_object_key_lookup_T_def)
  moreover have "pw_poas (pobj_duplicate q ?v) (po_poa x) = Some a" using a(1) by (simp add: pobj_duplicate_def)
  ultimately show ?thesis using b adaptor_find_keyed[OF a(2,1)] key True a(1)
    by (simp add: MateCORBA_handle_request_def MateCORBA_POA_handle_request_def the_buf_def poa_locks lock_take)
qed

section \<open>What happens to a request in each state of the manager\<close>

text \<open>Requests are handled where they arrive, without waiting for the main loop.\<close>

definition immediate :: "adaptor \<Rightarrow> bool" where
  "immediate a \<longleftrightarrow> p_thread (pa_policies a) = SINGLE_THREAD_MODEL \<or> pa_hint a = HINT_NONE"

lemma dispatch_immediate:
  "immediate a \<Longrightarrow> poa_dispatch app p a q b w
    = rbind (POA_UNLOCK p w) (MateCORBA_POAObject_invoke_incoming_request app (Some q) (Some b) None)"
  by (cases "p_thread (pa_policies a)") (auto simp: poa_dispatch_def poa_enqueue_def immediate_def Let_def)

text \<open>An object that was found for a request is let go in the end, whatever happened meanwhile.\<close>

lemma incoming_request:
  assumes i: "pw_inv {#q#} w1" and b: "pw_bufs w b = Some r"
    and h: "MateCORBA_POAObject_handle_request app q (rq_opname r) (Some b) w = Inr (ev, w1)"
    and k: "pw_bufs w1 b = Some r" and e: "\<And>e. ev = Some e \<Longrightarrow> is_system e"
  obtains w' where "MateCORBA_POAObject_invoke_incoming_request app (Some q) (Some b) None w = Inr w'" "pw_inv {#} w'"
    "active_map w' = active_map w1" "pw_bufs w' = (pw_bufs w1)(b := None)"
    "pw_log w' = pw_log w1 @ (case ev of None \<Rightarrow> [] | Some e \<Rightarrow> [ExceptionReply (rq_id r) e])"
    "fst (frame w') = fst (frame w1)" "pw_managers w' = pw_managers w1" "pw_lock w' = pw_lock w1"
proof -
  obtain x where x: "pw_pobjs w1 q = Some x" using counts_pinned[OF pw_invD(2)[OF i]] by auto
  have "po_refs x < MATECORBA_REFCOUNT_MAX"
    using few_refs[OF pw_invD(2)[OF i] x] by (simp add: MATECORBA_REFCOUNT_MAX_def)
  then obtain w2 where w2: "pobj_release q w1 = Inr w2" "pw_inv {#} w2" "active_map w2 = active_map w1" "frame w2 = frame w1"
    "pw_servants w2 = pw_servants w1" "pw_fresh w2 = pw_fresh w1" "pw_log w2 = pw_log w1"
    using pobj_release_inv[OF i x] by metis
  have k2: "pw_bufs w2 b = Some r" "pw_managers w2 = pw_managers w1" "pw_bufs w2 = pw_bufs w1" "pw_lock w2 = pw_lock w1"
    using frame_rest[OF w2(4)] k by simp_all
  define w3 where "w3 = (case ev of None \<Rightarrow> w2 | Some e \<Rightarrow> write_log (ExceptionReply (rq_id r) e) w2)"
  have w3: "(case ev of None \<Rightarrow> Inr w2 | Some e \<Rightarrow> return_exception (Some b) False e w2) = Inr w3"
    using e k2(1) by (auto simp: w3_def return_exception_def MateCORBA_recv_buffer_return_sys_exception_def the_buf_def split: option.split)
  let ?w = "w3\<lparr> pw_bufs := (pw_bufs w3)(b := None) \<rparr>"
  have b3: "pw_bufs w3 = pw_bufs w1" using k2(3) by (simp add: w3_def split: option.split)
  have res: "MateCORBA_POAObject_invoke_incoming_request app (Some q) (Some b) None w = Inr ?w"
    using b h w2(1) w3 b3 k
    by (simp add: MateCORBA_POAObject_invoke_incoming_request_def the_buf_def pobj_release_opt_def recv_unuse_def)
  have i3: "pw_inv {#} w3" "active_map w3 = active_map w2" using w2(2) by (auto simp: w3_def split: option.split)
  have "pw_inv {#} ?w" "active_map ?w = active_map w3" using pw_inv_same[OF i3(1), of ?w] by simp_all
  moreover have "pw_log ?w = pw_log w1 @ (case ev of None \<Rightarrow> [] | Some e \<Rightarrow> [ExceptionReply (rq_id r) e])"
    using w2(7) by (simp add: w3_def split: option.split)
  moreover have "fst (frame ?w) = fst (frame w1)" using w2(4) by (auto simp: w3_def frame_def write_log_def split: option.split)
  moreover have "pw_managers ?w = pw_managers w1" using k2(2) by (simp add: w3_def split: option.split)
  moreover have "pw_lock ?w = pw_lock w1" using k2(4) by (simp add: w3_def split: option.split)
  ultimately show thesis using that[OF res] i3 w2(3) b3 by simp
qed

text \<open>
  A request that its own object's key brings here, at an adaptor that handles it at once, while no lock is held.
\<close>

definition arrives :: "poa_world \<Rightarrow> nat \<Rightarrow> request \<Rightarrow> pobj \<Rightarrow> pobject \<Rightarrow> adaptor \<Rightarrow> poa_manager \<Rightarrow> bool" where
  "arrives w b r q x a m \<longleftrightarrow> pw_bufs w b = Some r \<and> pw_pobjs w q = Some x \<and> pw_poas w (po_poa x) = Some a
     \<and> keyed w (po_poa x) a \<and> immediate a \<and> (pa_sysid_hash a \<longrightarrow> 4 \<le> length (po_oid x))
     \<and> rq_key r = pa_key a @ po_oid x \<and> pw_managers w (pa_manager a) = Some m
     \<and> (pw_lock w = None \<or> pw_lock w = Some {})"

lemma arrivesD:
  assumes "arrives w b r q x a m"
  shows "pw_bufs w b = Some r" "pw_pobjs w q = Some x" "pw_poas w (po_poa x) = Some a" "keyed w (po_poa x) a" "immediate a"
    "pa_sysid_hash a \<longrightarrow> 4 \<le> length (po_oid x)" "rq_key r = pa_key a @ po_oid x" "pw_managers w (pa_manager a) = Some m"
    "pw_lock w = None \<or> pw_lock w = Some {}"
  using assms unfolding arrives_def by blast+

lemma duplicate_sel [simp]:
  "pw_poas (pobj_duplicate q w) = pw_poas w" "pw_bufs (pobj_duplicate q w) = pw_bufs w" "pw_log (pobj_duplicate q w) = pw_log w"
  "pw_managers (pobj_duplicate q w) = pw_managers w" "pw_servants (pobj_duplicate q w) = pw_servants w"
  "pw_current (pobj_duplicate q w) = pw_current w" "pw_fresh (pobj_duplicate q w) = pw_fresh w"
  "pw_lock (pobj_duplicate q w) = pw_lock w"
  "pw_pobjs (pobj_duplicate q w) = (pw_pobjs w)(q := map_option (\<lambda>x. x\<lparr> po_refs := Suc (po_refs x) \<rparr>) (pw_pobjs w q))"
  by (simp_all add: pobj_duplicate_def)

lemma arrives_unlocked: "arrives w b r q x a m \<Longrightarrow> pw_lock w' = pw_lock w \<Longrightarrow> lock_free l w'"
  using arrivesD(9)[of w b r q x a m] by (auto simp: lock_free_def)

lemma arrives_handled:
  assumes i: "pw_inv pins w" and r: "arrives w b r q x a m"
  shows "MateCORBA_handle_request app b w
    = MateCORBA_POAObject_invoke_incoming_request app (Some q) (Some b) None (pobj_duplicate q w)"
proof -
  note A = arrivesD[OF r] and free = arrives_unlocked[OF r refl, of "PoaLock (po_poa x)"]
  let ?v = "pobj_duplicate q (taken (PoaLock (po_poa x)) w)"
  have "MateCORBA_POAObject_object_to_objkey w q = Inr (rq_key r)"
    using A by (simp add: MateCORBA_POAObject_object_to_objkey_def)
  moreover have "POA_UNLOCK (po_poa x) ?v = Inr (pobj_duplicate q w)"
    using A(3) unlock_taken[OF free, of ?v] by (simp add: poa_locks taken_def pobj_duplicate_def upd_pobj_def)
  ultimately show ?thesis using objkey_found[OF i A(2,3,4,6,1)] dispatch_immediate[OF A(5)] free by simp
qed

text \<open>
  The object handles the request with the adaptor's lock, and gives that back.
\<close>

lemma arrives_lock:
  "arrives w b r q x a m \<Longrightarrow> POA_LOCK (po_poa x) (pobj_duplicate q w) = Inr (taken (PoaLock (po_poa x)) (pobj_duplicate q w))"
  using arrivesD(3)[of w b r q x a m] lock_take[OF arrives_unlocked[of w b r q x a m "pobj_duplicate q w"]]
  by (simp add: poa_locks)

lemma arrives_unlock:
  assumes r: "arrives w b r q x a m" and o': "pw_poas v (po_poa x) = Some a'" "pw_lock v = pw_lock (taken (PoaLock (po_poa x)) w)"
  shows "POA_UNLOCK (po_poa x) v = Inr (v\<lparr> pw_lock := pw_lock w \<rparr>)"
  using o' unlock_taken[OF arrives_unlocked[OF r refl] o'(2)] by (simp add: poa_locks)

text \<open>A manager that discards, or is inactive: the exception is sent by who found it and again at the end.\<close>

definition refusal :: "poa_state \<Rightarrow> poa_exn" where
  "refusal s = (if s = DISCARDING then EX_TRANSIENT else EX_OBJ_ADAPTER)"

lemma refused_twice:
  assumes i: "pw_inv {#} w" and r: "arrives w b r q x a m" and s: "pm_state m \<in> {DISCARDING, INACTIVE}"
  obtains w' where "MateCORBA_handle_request app b w = Inr w'" "pw_inv {#} w'" "active_map w' = active_map w"
    "pw_log w' = pw_log w @ [ExceptionReply (rq_id r) (refusal (pm_state m)), ExceptionReply (rq_id r) (refusal (pm_state m))]"
    "pw_bufs w' = (pw_bufs w)(b := None)"
    "0 < po_refs x \<longrightarrow> w' = w\<lparr> pw_bufs := (pw_bufs w)(b := None), pw_log := pw_log w
       @ [ExceptionReply (rq_id r) (refusal (pm_state m)), ExceptionReply (rq_id r) (refusal (pm_state m))] \<rparr>"
proof -
  note A = arrivesD[OF r]
  let ?e = "refusal (pm_state m)" let ?w = "pobj_duplicate q w"
  let ?w1 = "write_log (ExceptionReply (rq_id r) ?e) ?w"
  have sys: "is_system ?e" by (simp add: refusal_def is_system_def)
  have h: "MateCORBA_POAObject_handle_request app q (rq_opname r) (Some b) ?w = Inr (Some ?e, ?w1)"
  proof -
    let ?v = "write_log (ExceptionReply (rq_id r) ?e) (taken (PoaLock (po_poa x)) ?w)"
    have "POA_UNLOCK (po_poa x) ?v = Inr ?w1"
      using arrives_unlock[OF r, of ?v a] A(3) by (simp add: taken_def) (simp add: write_log_def)
    then show ?thesis using A(1-3,8) s sys arrives_lock[OF r]
      by (auto simp: MateCORBA_POAObject_handle_request_def Let_def refuse_request_def return_exception_def
          MateCORBA_recv_buffer_return_sys_exception_def the_buf_def refusal_def)
  qed
  have j: "pw_inv {#q#} ?w1" "active_map ?w1 = active_map w" using pobj_duplicate_inv[OF i A(2)] by simp_all
  have b: "pw_bufs ?w b = Some r" "pw_bufs ?w1 b = Some r" using A(1) by simp_all
  obtain w' where w': "MateCORBA_POAObject_invoke_incoming_request app (Some q) (Some b) None ?w = Inr w'" "pw_inv {#} w'"
    "active_map w' = active_map ?w1" "pw_bufs w' = (pw_bufs ?w1)(b := None)"
    "pw_log w' = pw_log ?w1 @ (case Some ?e of None \<Rightarrow> [] | Some e \<Rightarrow> [ExceptionReply (rq_id r) e])"
    by (rule incoming_request[OF j(1) b(1) h b(2)]) (use sys in auto)
  have "po_refs x = holders x" using counts_refs[OF pw_invD(2)[OF i] A(2)] by simp
  then have few: "po_refs x \<le> 2" by (simp add: holders_def)
  have given: "pobj_release q ?w1 = Inr (write_log (ExceptionReply (rq_id r) ?e) w)" if "0 < po_refs x"
    using that few A(2)
    by (simp add: pobj_release_def pobj_duplicate_def upd_pobj_def write_log_def MATECORBA_REFCOUNT_MAX_def update_same)
  have "w' = w\<lparr> pw_bufs := (pw_bufs w)(b := None), pw_log := pw_log w @ [ExceptionReply (rq_id r) ?e, ExceptionReply (rq_id r) ?e] \<rparr>"
    if "0 < po_refs x"
    using w'(1) h given[OF that] A(1) sys
    by (auto simp: MateCORBA_POAObject_invoke_incoming_request_def the_buf_def pobj_release_opt_def recv_unuse_def
        return_exception_def MateCORBA_recv_buffer_return_sys_exception_def write_log_def)
  then show thesis using that w' arrives_handled[OF i r] j by simp
qed

text \<open>A manager that holds: the buffer is in the list of the adaptor, and has been given back.\<close>

lemma held_freed:
  assumes i: "pw_inv {#} w" and r: "arrives w b r q x a m" and s: "pm_state m = HOLDING"
  obtains w' where "MateCORBA_handle_request app b w = Inr w'" "pw_poas w' (po_poa x) \<noteq> None"
    "map_option pa_held (pw_poas w' (po_poa x)) = Some (b # pa_held a)" "pw_bufs w' b = None" "pw_log w' = pw_log w"
    "pw_managers w' = pw_managers w" "map_option pa_manager (pw_poas w' (po_poa x)) = Some (pa_manager a)" "pw_lock w' = pw_lock w"
proof -
  note A = arrivesD[OF r]
  let ?w = "pobj_duplicate q w"
  let ?w1 = "upd_poa (po_poa x) (\<lambda>a. a\<lparr> pa_held := b # pa_held a \<rparr>) ?w"
  let ?v = "upd_poa (po_poa x) (\<lambda>a. a\<lparr> pa_held := b # pa_held a \<rparr>) (taken (PoaLock (po_poa x)) ?w)"
  have o1: "pw_poas ?v (po_poa x) = Some (a\<lparr> pa_held := b # pa_held a \<rparr>)" and o2: "pw_lock ?v = pw_lock (taken (PoaLock (po_poa x)) w)"
    using A(3) by (simp_all add: taken_def)
  have e: "?v\<lparr> pw_lock := pw_lock w \<rparr> = ?w1" by (simp add: upd_poa_def taken_def pobj_duplicate_def upd_pobj_def)
  have "POA_UNLOCK (po_poa x) ?v = Inr ?w1" using arrives_unlock[OF r o1 o2] unfolding e .
  then have h: "MateCORBA_POAObject_handle_request app q (rq_opname r) (Some b) ?w = Inr (None, ?w1)"
    using A(1-3,8) s arrives_lock[OF r] by (simp add: MateCORBA_POAObject_handle_request_def Let_def)
  have j: "pw_inv {#q#} ?w" using pobj_duplicate_inv[OF i A(2)] by simp
  have j1: "pw_inv {#q#} ?w1" by (rule pw_inv_same(1)[OF j]) (use A(3) in simp_all)
  have b: "pw_bufs ?w b = Some r" "pw_bufs ?w1 b = Some r" using A(1) by simp_all
  obtain w' where w': "MateCORBA_POAObject_invoke_incoming_request app (Some q) (Some b) None ?w = Inr w'"
    "pw_bufs w' = (pw_bufs ?w1)(b := None)" "pw_log w' = pw_log ?w1" "fst (frame w') = fst (frame ?w1)" "pw_managers w' = pw_managers ?w1"
    "pw_lock w' = pw_lock ?w1"
    by (rule incoming_request[OF j1 b(1) h b(2)]) (use that in auto)
  have "fst (frame w') (po_poa x) = fst (frame ?w1) (po_poa x)" using w'(4) by simp
  then have "map_option (\<lambda>a. a\<lparr> pa_map := [], pa_sysid := 0 \<rparr>) (pw_poas w' (po_poa x))
    = Some (a\<lparr> pa_held := b # pa_held a, pa_map := [], pa_sysid := 0 \<rparr>)" using A(3) by (simp add: frame_def)
  then obtain a' where a': "pw_poas w' (po_poa x) = Some a'"
      "a'\<lparr> pa_map := [], pa_sysid := 0 \<rparr> = a\<lparr> pa_held := b # pa_held a, pa_map := [], pa_sysid := 0 \<rparr>" by auto
  have "pa_held a' = b # pa_held a" "pa_manager a' = pa_manager a"
    using arg_cong[OF a'(2), of pa_held] arg_cong[OF a'(2), of pa_manager] by simp_all
  then show thesis using that[of w'] a'(1) w' arrives_handled[OF i r] by simp
qed

lemma held_then_activated:
  assumes i: "pw_inv {#} w" and r: "arrives w b r q x a m" and s: "pm_state m = HOLDING" and first: "pm_poas m = po_poa x # ps"
  shows "rbind (MateCORBA_handle_request app b w) (PortableServer_POAManager_activate app (Some (pa_manager a))) = Inl Overrun"
proof -
  obtain w' where w': "MateCORBA_handle_request app b w = Inr w'" "pw_poas w' (po_poa x) \<noteq> None"
    "map_option pa_held (pw_poas w' (po_poa x)) = Some (b # pa_held a)" "pw_bufs w' b = None" "pw_log w' = pw_log w"
    "pw_managers w' = pw_managers w" "pw_lock w' = pw_lock w" using held_freed[OF i r s] by metis
  obtain a' where a': "pw_poas w' (po_poa x) = Some a'" "pa_held a' = b # pa_held a" using w'(3) by auto
  have "pw_managers w' (pa_manager a) = Some m" using w'(6) arrivesD(8)[OF r] by simp
  moreover have "POA_MGR_LOCK w' = Inr (taken ManagerLock w')"
    unfolding POA_MGR_LOCK_def by (rule lock_take[OF arrives_unlocked[OF r w'(7)]])
  ultimately show ?thesis using w'(1,4) a' s first
    by (simp add: PortableServer_POAManager_activate_def manager_call_def MateCORBA_POA_handle_held_requests_def set_state_def
        the_poa_def upd_manager_def upd_poa_def MateCORBA_handle_request_def the_buf_def)
qed

text \<open>An active manager and an active object: the method is called, once, and nothing else changes.\<close>

definition plain_method :: "app \<Rightarrow> servant \<Rightarrow> cblock \<Rightarrow> nat \<Rightarrow> poa_event list \<Rightarrow> bool" where
  "plain_method app s opname b l \<longleftrightarrow> (\<forall>w. \<exists>ev. ap_method app s opname (Some b) w = Inr (ev, w\<lparr> pw_log := pw_log w @ l \<rparr>))"

lemma served:
  assumes i: "pw_inv {#} w" and r: "arrives w b r q x a m" and s: "pm_state m = ACTIVE" and v: "po_servant x = Some s"
    and re: "IS_RETAIN a" and sv: "pw_servants w s = Some sv" and f: "ap_find app (sv_class sv) (rq_opname r) = Some (oneway, True)"
    and pl: "plain_method app s (rq_opname r) b l"
  shows "MateCORBA_handle_request app b w = Inr (w\<lparr> pw_bufs := (pw_bufs w)(b := None), pw_log := pw_log w @ l \<rparr>)"
proof -
  note A = arrivesD[OF r] and I = pw_invD[OF i]
  let ?l = "PoaLock (po_poa x)" let ?p = "po_poa x"
  let ?w = "pobj_duplicate q w" let ?x = "x\<lparr> po_refs := Suc (po_refs x) \<rparr>"
  let ?v = "taken ?l ?w"
  let ?va = "invocation_stack_push q (upd_pobj q (\<lambda>x. x\<lparr> po_use_cnt := po_use_cnt x + 1 \<rparr>) ?v)"
  let ?wa = "?va\<lparr> pw_lock := pw_lock w \<rparr>"
  let ?vb = "?va\<lparr> pw_log := pw_log w @ l \<rparr>"
  let ?vc = "?v\<lparr> pw_log := pw_log w @ l \<rparr>"
  let ?wc = "?w\<lparr> pw_log := pw_log w @ l \<rparr>"
  note hl = arrives_lock[OF r] arrives_unlock[OF r]
  have z: "po_use_cnt x = 0" "DeactivateDo \<notin> po_life x" using at_restD(1,2)[OF I(4) A(2)] by auto
  have o1: "pw_pobjs ?vb q = Some (?x\<lparr> po_use_cnt := 1 \<rparr>)" "pw_poas ?vb ?p = Some a" "pw_pobjs ?vc q = Some ?x"
    "pw_pobjs (invocation_stack_pop q ?vb) q = Some (?x\<lparr> po_use_cnt := 1 \<rparr>)" "pw_poas ?va ?p = Some a" "pw_lock ?va = pw_lock ?v"
    "pw_pobjs ?v q = Some ?x" "pw_poas ?v ?p = Some a" "pw_servants ?va s = Some sv" "pw_managers ?v (pa_manager a) = Some m"
    "pw_lock ?v = pw_lock (taken ?l w)" "pw_poas ?vc ?p = Some a" "pw_lock ?vc = pw_lock ?v"
    using A(2,3,8) z(1) sv by (simp_all add: invocation_stack_push_def invocation_stack_pop_def taken_def)
  obtain ev where ev: "ap_method app s (rq_opname r) (Some b) ?wa = Inr (ev, ?wa\<lparr> pw_log := pw_log ?wa @ l \<rparr>)"
    using pl unfolding plain_method_def by blast
  have ul: "POA_UNLOCK ?p ?va = Inr ?wa" using hl(2)[of ?va a] o1(5,6,11) by simp
  have "lock_free ?l (?wa\<lparr> pw_log := pw_log ?wa @ l \<rparr>)" using arrives_unlocked[OF r, of "?wa\<lparr> pw_log := pw_log ?wa @ l \<rparr>"] by simp
  then have "LINK_MUTEX_LOCK ?l (?wa\<lparr> pw_log := pw_log ?wa @ l \<rparr>) = Inr (taken ?l (?wa\<lparr> pw_log := pw_log ?wa @ l \<rparr>))"
    by (rule lock_take)
  moreover have "taken ?l (?wa\<lparr> pw_log := pw_log ?wa @ l \<rparr>) = ?vb"
    by (simp add: taken_def invocation_stack_push_def upd_pobj_def pobj_duplicate_def)
  moreover have "pw_poas (?wa\<lparr> pw_log := pw_log ?wa @ l \<rparr>) ?p = Some a" using o1(5) by simp
  ultimately have lk: "POA_LOCK ?p (?wa\<lparr> pw_log := pw_log ?wa @ l \<rparr>) = Inr ?vb" by (simp add: poa_locks(1))
  have fs: "find_servant app ?p q (rq_opname r) ?v = Inr (None, ?v)"
    unfolding find_servant_def the_simps(2)[OF o1(8)] the_simps(1)[OF o1(7)] rbind_simps using v by (simp add: the_simps(1)[OF o1(7)])
  have cm: "call_method app ?p s (rq_opname r) (Some b) ?va = Inr (ev, ?vb)"
    unfolding call_method_def the_simps(3)[OF o1(9)] rbind_simps f option.case prod.case bool.case ul ev lk ..
  have un: "upd_pobj q (\<lambda>x. x\<lparr> po_use_cnt := po_use_cnt x - 1 \<rparr>) (invocation_stack_pop q ?vb) = ?vc"
    using A(2) by (simp add: invocation_stack_pop_def invocation_stack_push_def upd_pobj_def pobj_duplicate_def taken_def)
  have post: "MateCORBA_POAObject_post_invoke app q ?vc = Inr ?vc"
    using z unfolding MateCORBA_POAObject_post_invoke_def the_simps(1)[OF o1(3)] rbind_simps by simp
  have am: "after_method app ?p q (rq_opname r) None ?vb = Inr (None, ?vc)"
    unfolding after_method_def the_simps(2)[OF o1(2)] the_simps(1)[OF o1(1)] rbind_simps Let_def
    using re by (simp add: the_simps(1)[OF o1(4)] un post)
  have uc: "POA_UNLOCK ?p ?vc = Inr ?wc"
    using hl(2)[of ?vc a] o1(11-13) by (simp add: taken_def pobj_duplicate_def upd_pobj_def)
  have x1: "pw_pobjs ?w q = Some ?x" using A(2) by simp
  have v1: "po_servant ?x = Some s" using v by simp
  have pp: "po_poa ?x = ?p" by simp
  have h: "MateCORBA_POAObject_handle_request app q (rq_opname r) (Some b) ?w = Inr (None, ?wc)"
    unfolding MateCORBA_POAObject_handle_request_def the_simps(1)[OF x1] rbind_simps Let_def pp hl(1) the_simps(2)[OF o1(8)]
      the_simps(4)[OF o1(10)] s poa_state.case fs prod.case option.case the_simps(1)[OF o1(7)] v1 cm
    by (simp add: am uc)
  have rf: "po_refs x = holders x" using counts_refs[OF I(2) A(2)] by simp
  have nz: "0 < holders x" "holders x \<le> 2" using v by (simp_all add: holders_def)
  have "pobj_release q ?wc = Inr (w\<lparr> pw_log := pw_log w @ l \<rparr>)"
    using A(2) rf nz
    by (simp add: pobj_release_def pobj_duplicate_def upd_pobj_def MATECORBA_REFCOUNT_MAX_def update_same)
  then show ?thesis using arrives_handled[OF i r] h A(1)
    by (simp add: MateCORBA_POAObject_invoke_incoming_request_def the_buf_def pobj_release_opt_def recv_unuse_def)
qed

section \<open>New adaptors\<close>

text \<open>Adaptors have addresses that have been given out, and managers know adaptors only.\<close>

definition adaptors_ok :: "poa_world \<Rightarrow> bool" where
  "adaptors_ok w \<longleftrightarrow> (\<forall>p a. pw_poas w p = Some a \<longrightarrow> p < pw_fresh w \<and> keyed w p a)
     \<and> (\<forall>g m p. pw_managers w g = Some m \<longrightarrow> p \<in> set (pm_poas m) \<longrightarrow> p < pw_fresh w)"

lemma POA_new_ok:
  assumes i: "pw_inv pins w" and ok: "adaptors_ok w" and n: "length (pw_adaptors w) < 2 ^ 31"
    and pol: "MateCORBA_POA_set_policies ps = Inr pol" and g: "\<And>g. mg = Some g \<Longrightarrow> pw_managers w g \<noteq> None"
    and free: "lock_free ManagerLock w"
  obtains w' a where "MateCORBA_POA_new nm mg ps w = Inr (Inr (pw_fresh w), w')" "pw_inv pins w'" "active_map w' = active_map w"
    "adaptors_ok w'" "pw_poas w' = (pw_poas w)(pw_fresh w \<mapsto> a)" "pa_policies a = pol" "pw_servants w' = pw_servants w"
    "pw_lock w' = pw_lock w"
proof -
  let ?p = "pw_fresh w"
  obtain g' w1 m where 1: "(case mg of Some g \<Rightarrow> (g, w\<lparr> pw_fresh := Suc ?p \<rparr>) | None \<Rightarrow> MateCORBA_POAManager_new (w\<lparr> pw_fresh := Suc ?p \<rparr>)) = (g', w1)"
    "pw_managers w1 g' = Some m" "?p \<notin> set (pm_poas m)" "pw_poas w1 = pw_poas w" "pw_pobjs w1 = pw_pobjs w" "pw_servants w1 = pw_servants w"
    "pw_adaptors w1 = pw_adaptors w" "pw_host w1 = pw_host w" "Suc ?p \<le> pw_fresh w1"
    "\<And>h k. pw_managers w1 h = Some k \<Longrightarrow> pm_poas k = [] \<or> pw_managers w h = Some k" "pw_lock w1 = pw_lock w"
  proof (cases mg)
    case None
    let ?v = "snd (MateCORBA_POAManager_new (w\<lparr> pw_fresh := Suc ?p \<rparr>))"
    have "pm_poas k = [] \<or> pw_managers w h = Some k" if "pw_managers ?v h = Some k" for h k
      using that by (auto simp: MateCORBA_POAManager_new_def split: if_splits)
    then show thesis
      by (intro that[of "Suc ?p" ?v "\<lparr> pm_state = HOLDING, pm_poas = [] \<rparr>"]) (simp_all add: None MateCORBA_POAManager_new_def)
  next
    case (Some g0)
    then obtain m where m: "pw_managers w g0 = Some m" using g by auto
    then have "?p \<notin> set (pm_poas m)" using ok unfolding adaptors_ok_def by blast
    then show thesis using that[of g0 "w\<lparr> pw_fresh := Suc ?p \<rparr>" m] m by (simp add: Some)
  qed
  define r where "r = take 16 (pw_random w1 (pw_fresh w1) @ replicate 16 0)"
  define a where "a = \<lparr> pa_key = u32_bytes (pw_host w) (of_nat (length (pw_adaptors w))) @ r, pa_hint = HINT_NONE, pa_life = {}, pa_use_cnt = 0,
    pa_id = length (pw_adaptors w), pa_sysid = 0, pa_name = nm, pa_parent = None, pa_manager = g', pa_servant_manager = None,
    pa_default_servant = None, pa_sysid_hash = (p_id_assignment pol = SYSTEM_ID), pa_map = [], pa_held = [], pa_children = [], pa_policies = pol \<rparr>"
  define w2 where "w2 = w1\<lparr> pw_adaptors := pw_adaptors w @ [Some ?p], pw_fresh := Suc (pw_fresh w1), pw_poas := (pw_poas w)(?p \<mapsto> a) \<rparr>"
  define w3 where "w3 = upd_manager g' (\<lambda>m. m\<lparr> pm_poas := pm_poas m @ [?p] \<rparr>) w2"
  have l2: "lock_free ManagerLock w2" using free 1(11) by (simp add: w2_def lock_free_def)
  have "pw_lock (upd_manager g' (\<lambda>m. m\<lparr> pm_poas := pm_poas m @ [?p] \<rparr>) (taken ManagerLock w2)) = pw_lock (taken ManagerLock w2)"
    by (simp add: upd_manager_def)
  then have lk: "POA_MGR_LOCK w2 = Inr (taken ManagerLock w2)"
    "POA_MGR_UNLOCK (upd_manager g' (\<lambda>m. m\<lparr> pm_poas := pm_poas m @ [?p] \<rparr>) (taken ManagerLock w2)) = Inr w3"
    using lock_take[OF l2] unlock_taken[OF l2]
    by (simp_all add: POA_MGR_LOCK_def POA_MGR_UNLOCK_def w3_def) (simp add: upd_manager_def taken_def)
  have reg: "MateCORBA_POAManager_register_poa g' ?p w2 = Inr w3"
    using 1(2,3) lk by (simp add: MateCORBA_POAManager_register_poa_def the_manager_def w2_def)
  have res: "MateCORBA_POA_new nm mg ps w = Inr (Inr ?p, w3)"
    using 1 reg by (simp add: MateCORBA_POA_new_def pol Let_def MateCORBA_adaptor_setup_def MateCORBA_genuid_buffer_def
        MATECORBA_ADAPTOR_KEY_LEN_def return_def w2_def a_def r_def)
  have sel: "pw_pobjs w3 = pw_pobjs w" "pw_servants w3 = pw_servants w" "pw_poas w3 = (pw_poas w)(?p \<mapsto> a)" "pw_host w3 = pw_host w"
    "pw_adaptors w3 = pw_adaptors w @ [Some ?p]" "Suc ?p < pw_fresh w3"
    "pw_managers w3 = (pw_managers w1)(g' \<mapsto> m\<lparr> pm_poas := pm_poas m @ [?p] \<rparr>)" "pw_lock w3 = pw_lock w"
    using 1 by (simp_all add: w3_def w2_def upd_manager_def)
  have new: "pw_poas w ?p = None" using ok unfolding adaptors_ok_def by (metis less_irrefl not_None_eq)
  note I = pw_invD[OF i]
  have t: "tables_ok w3"
  proof (rule tables_okI, goal_cases)
    case (1 q x)
    then show ?case using I(1) sel(1,6) unfolding tables_ok_def by (metis Suc_lessD order.strict_trans)
  next
    case (2 q x)
    then obtain b where "pw_poas w (po_poa x) = Some b" "map_of (pa_map b) (po_oid x) = Some q" using tables_object[OF I(1)] sel(1) by metis
    then show ?case using new sel(3) by (cases "po_poa x = ?p") auto
  next
    case (3 p b)
    then show ?case using tables_distinct[OF I(1)] sel(3) by (auto simp: a_def split: if_splits)
  next
    case (4 p b oid q)
    then have "pw_poas w p = Some b" using sel(3) by (auto simp: a_def split: if_splits)
    then show ?case using tables_entry[OF I(1) _ 4(2)] sel(1) by metis
  qed
  have "counts_ok pins w3" using I(2) by (simp add: counts_ok_def sel(1))
  moreover have "servants_ok w3" using I(3) by (rule servants_ok_links) (simp_all add: links_def sel fun_eq_iff)
  moreover have "at_rest w3"
  proof (rule at_restI, goal_cases)
    case (1 q x)
    then show ?case using at_restD(1)[OF I(4)] sel(1) by metis
  next
    case (2 q x)
    then show ?case using at_restD(2)[OF I(4)] sel(1) by metis
  next
    case (3 p b)
    then show ?case using at_restD(3)[OF I(4)] sel(3) by (auto simp: a_def split: if_splits)
  qed
  ultimately have inv: "pw_inv pins w3" using t by (simp add: pw_inv_def)
  have am: "active_map w3 = active_map w"
  proof
    fix k show "active_map w3 k = active_map w k"
      unfolding active_map_def sel(1,3) using new by (cases "fst k = ?p") (simp_all add: a_def)
  qed
  have key: "keyed w3 p b" if "pw_poas w3 p = Some b" for p b
  proof (cases "p = ?p")
    case True
    then have "b = a" using that sel(3) by simp
    then show ?thesis using True n
      by (simp add: keyed_def sel a_def r_def MATECORBA_ADAPTOR_PREFIX_LEN_def MATECORBA_ADAPTOR_KEY_LEN_def)
  next
    case False
    then have "keyed w p b" using that sel(3) ok unfolding adaptors_ok_def by auto
    then show ?thesis by (simp add: keyed_def sel nth_append)
  qed
  have "adaptors_ok w3"
    unfolding adaptors_ok_def
  proof (intro conjI allI impI)
    fix p b assume b: "pw_poas w3 p = Some b"
    show "keyed w3 p b" by (rule key[OF b])
    show "p < pw_fresh w3" using b ok sel(3,6) unfolding adaptors_ok_def by (cases "p = ?p") (auto dest: Suc_lessD intro: less_trans)
  next
    fix h k p assume "pw_managers w3 h = Some k" "p \<in> set (pm_poas k)"
    then have "p = ?p \<or> (\<exists>h k. pw_managers w1 h = Some k \<and> p \<in> set (pm_poas k))" using 1(2) sel(7) by (auto split: if_splits)
    then have "p = ?p \<or> p < ?p"
    proof
      assume "\<exists>h k. pw_managers w1 h = Some k \<and> p \<in> set (pm_poas k)"
      then obtain h k where "pw_managers w h = Some k" "p \<in> set (pm_poas k)" using 1(10) by force
      then show ?thesis using ok unfolding adaptors_ok_def by blast
    qed simp
    then show "p < pw_fresh w3" using sel(6) by auto
  qed
  then show thesis using that[OF res inv am] sel by (simp add: a_def)
qed

section \<open>The properties\<close>

lemma sample_arrives: "arrives (sample_poas st) 4 sample_request 5 sample_object sample_adaptor \<lparr> pm_state = st, pm_poas = [1] \<rparr>"
  by (simp add: arrives_def keyed_def immediate_def sample_poas_def sample_request_def sample_object_def sample_adaptor_def
      sample_policies_def default_policies_def sample_id_def MATECORBA_ADAPTOR_PREFIX_LEN_def MATECORBA_ADAPTOR_KEY_LEN_def)

text \<open>C37. A request that carries the key of an object, as \<^verbatim>\<open>object_to_objkey\<close> makes it, is handed to that object with
  one more reference: the number and the cookie in the key find the adaptor and the rest of it the object. The adaptor is
  locked meanwhile; if its lock is held, by a call that kept it, the request is never handed on.
\<close>

theorem request_reaches_object:
  assumes "pw_inv pins w" "pw_pobjs w q = Some x" "pw_poas w (po_poa x) = Some a" "keyed w (po_poa x) a"
    and "pa_sysid_hash a \<longrightarrow> 4 \<le> length (po_oid x)" "pw_bufs w b = Some r"
    and "MateCORBA_POAObject_object_to_objkey w q = Inr (rq_key r)"
  shows "MateCORBA_handle_request app b w = (if lock_free (PoaLock (po_poa x)) w
    then poa_dispatch app (po_poa x) a q b (pobj_duplicate q (taken (PoaLock (po_poa x)) w)) else Inl Hang)"
  using objkey_found[OF assms] .

theorem request_reaches_object_witness:
  "MateCORBA_handle_request sample_app 4 (sample_poas ACTIVE)
    = poa_dispatch sample_app 1 sample_adaptor 5 4 (pobj_duplicate 5 (taken (PoaLock 1) (sample_poas ACTIVE)))"
proof -
  note A = arrivesD[OF sample_arrives[of ACTIVE]]
  have "MateCORBA_POAObject_object_to_objkey (sample_poas ACTIVE) 5 = Inr (rq_key sample_request)"
    using A by (simp add: MateCORBA_POAObject_object_to_objkey_def)
  moreover have "po_poa sample_object = 1" "lock_free (PoaLock 1) (sample_poas ACTIVE)"
    by (simp_all add: sample_object_def lock_free_def)
  ultimately show ?thesis using request_reaches_object[OF sample_inv A(2,3,4,6,1), of sample_app] by simp
qed

text \<open>C38. A request to an active object whose manager is active has the method of the object's servant called once. The
  method's events are the only ones, the buffer is given back, and everything else is as before: the counts of
  references and of uses, the tables, the stack of invocations, what waits and the locks.
\<close>

theorem request_served:
  assumes "pw_inv {#} w" "arrives w b r q x a m" "pm_state m = ACTIVE" "po_servant x = Some s" "IS_RETAIN a"
    and "pw_servants w s = Some sv" "ap_find app (sv_class sv) (rq_opname r) = Some (oneway, True)"
    and "plain_method app s (rq_opname r) b l"
  shows "MateCORBA_handle_request app b w = Inr (w\<lparr> pw_bufs := (pw_bufs w)(b := None), pw_log := pw_log w @ l \<rparr>)"
  using served[OF assms] .

lemma sample_method: "plain_method sample_app s n b [Invoked s n]"
  by (simp add: plain_method_def sample_app_def)

theorem request_served_witness:
  "MateCORBA_handle_request sample_app 4 (sample_poas ACTIVE)
    = Inr ((sample_poas ACTIVE)\<lparr> pw_bufs := Map.empty, pw_log := [Invoked 7 []] \<rparr>)"
proof -
  have "MateCORBA_handle_request sample_app 4 (sample_poas ACTIVE) = Inr ((sample_poas ACTIVE)
      \<lparr> pw_bufs := (pw_bufs (sample_poas ACTIVE))(4 := None), pw_log := pw_log (sample_poas ACTIVE) @ [Invoked 7 []] \<rparr>)"
    by (rule request_served[OF sample_inv sample_arrives, where s = 7 and oneway = False
        and sv = "\<lparr> sv_private = Some 5, sv_class = ''Echo'' \<rparr>"])
      (simp_all add: sample_object_def sample_app_def plain_method_def sample_request_def)
  then show ?thesis by (simp add: sample_poas_def)
qed

text \<open>C39. While the manager discards, or when it is inactive, a request is answered twice, with \<^verbatim>\<open>TRANSIENT\<close> or
  \<^verbatim>\<open>OBJ_ADAPTER\<close>: by \<^verbatim>\<open>handle_request\<close> and again by \<^verbatim>\<open>invoke_incoming_request\<close>, which finds the exception still
  set. No method is called, what is active stays active, and as long as somebody holds the object, everything but the buffer and
  the two replies is as before.
\<close>

theorem refused_request_answered_twice:
  assumes "pw_inv {#} w" "arrives w b r q x a m" "pm_state m \<in> {DISCARDING, INACTIVE}"
  shows "\<exists>w'. MateCORBA_handle_request app b w = Inr w' \<and> pw_inv {#} w' \<and> active_map w' = active_map w
    \<and> pw_log w' = pw_log w @ [ExceptionReply (rq_id r) (refusal (pm_state m)), ExceptionReply (rq_id r) (refusal (pm_state m))]
    \<and> pw_bufs w' = (pw_bufs w)(b := None)
    \<and> (0 < po_refs x \<longrightarrow> w' = w\<lparr> pw_bufs := (pw_bufs w)(b := None), pw_log := pw_log w
         @ [ExceptionReply (rq_id r) (refusal (pm_state m)), ExceptionReply (rq_id r) (refusal (pm_state m))] \<rparr>)"
  using refused_twice[OF assms] by blast

theorem refused_request_answered_twice_witness:
  "\<exists>w'. MateCORBA_handle_request sample_app 4 (sample_poas DISCARDING) = Inr w'
    \<and> pw_log w' = [ExceptionReply 11 EX_TRANSIENT, ExceptionReply 11 EX_TRANSIENT]"
  using refused_request_answered_twice[OF sample_inv[of DISCARDING] sample_arrives, of sample_app]
  by (auto simp: sample_poas_def sample_request_def refusal_def)

text \<open>C40. A request that comes while the manager holds is put into the adaptor's list and its buffer is given back; when the
  manager is then activated, the request is taken from the list and the freed buffer is read.
\<close>

theorem held_request_read_after_free:
  assumes "pw_inv {#} w" "arrives w b r q x a m" "pm_state m = HOLDING" "pm_poas m = po_poa x # ps"
  shows "rbind (MateCORBA_handle_request app b w) (PortableServer_POAManager_activate app (Some (pa_manager a))) = Inl Overrun"
  using held_then_activated[OF assms] .

theorem held_request_read_after_free_witness:
  "rbind (MateCORBA_handle_request sample_app 4 (sample_poas HOLDING)) (PortableServer_POAManager_activate sample_app (Some 2))
    = Inl Overrun"
  using held_request_read_after_free[OF sample_inv[of HOLDING] sample_arrives, of "[]" sample_app]
  by (simp add: sample_object_def sample_adaptor_def)

end
