(* ===== verification/Poa_Class.thy ===== *)
theory Poa_Class imports Poa begin

text \<open>
  The classes of servants: the numbers they are given when their skeletons are registered, the tables that lead from
  the number of an ancestor to the place of its methods, and the calls that go to a method of this process without
  being marshalled.
\<close>

section \<open>Registration\<close>

text \<open>
  \<^verbatim>\<open>PortableServer_ClassInfo\<close>; a class without a number has the number 0. The first entry of \<open>ci_vepvmap\<close> is the
  size of the table, in 16 bits as all of it.
\<close>

record class_info =
  ci_name :: string
  ci_id :: u32
  ci_vepvmap :: "u16 list option"

record classes =
  cl_infos :: "nat \<rightharpoonup> class_info"
  cl_assignments :: "(string \<times> nat) list"
  cl_counter :: u32

definition upd_class :: "nat \<Rightarrow> (class_info \<Rightarrow> class_info) \<Rightarrow> classes \<Rightarrow> classes" where
  "upd_class c f s = s\<lparr> cl_infos := (cl_infos s)(c := map_option f (cl_infos s c)) \<rparr>"

definition MateCORBA_classinfo_lookup :: "classes \<Rightarrow> string \<Rightarrow> nat option" where
  "MateCORBA_classinfo_lookup s type_id = map_of (cl_assignments s) type_id"

definition MateCORBA_classinfo_register :: "nat \<Rightarrow> classes \<Rightarrow> classes res" where
  "MateCORBA_classinfo_register c s = (case cl_infos s c of None \<Rightarrow> Inl Overrun
   | Some ci \<Rightarrow> if ci_id ci \<noteq> 0 then Inr s
     else let n = cl_counter s + 1; s = upd_class c (\<lambda>ci. ci\<lparr> ci_id := n \<rparr>) (s\<lparr> cl_counter := n \<rparr>)
       in Inr (s\<lparr> cl_assignments := AList.update (ci_name ci) c (cl_assignments s) \<rparr>))"

text \<open>The ancestors come as pairs of number and offset, up to the first number 0.\<close>

fun enter_ancestors :: "u32 \<Rightarrow> (u32 \<times> u32) list \<Rightarrow> u16 list \<Rightarrow> u16 list res" where
  "enter_ancestors cid [] vm = Inr vm"
| "enter_ancestors cid ((i, offset) # r) vm = (if i = 0 then Inr vm
     else if i > cid then Inl Abort else enter_ancestors cid r (vm[unat i := ucast offset]))"

definition MateCORBA_skel_class_register :: "nat \<Rightarrow> u32 \<Rightarrow> (u32 \<times> u32) list \<Rightarrow> classes \<Rightarrow> classes res" where
  "MateCORBA_skel_class_register c class_offset ancestors s = rbind (MateCORBA_classinfo_register c s) (\<lambda>s.
     case cl_infos s c of None \<Rightarrow> Inl Overrun
     | Some ci \<Rightarrow> (case ci_vepvmap ci of Some _ \<Rightarrow> Inr s
       | None \<Rightarrow> let sz = unat (ci_id ci + 1); vm = (replicate sz 0)[0 := of_nat sz] in
           if sz = 0 then Inl Overrun
           else rbind (enter_ancestors (ci_id ci) ancestors (vm[unat (ci_id ci) := ucast class_offset])) (\<lambda>vm.
             Inr (upd_class c (\<lambda>ci. ci\<lparr> ci_vepvmap := Some vm \<rparr>) s))))"

text \<open>Numbers are given out once: they are not above the counter, and no two classes share one.\<close>

definition classes_ok :: "classes \<Rightarrow> bool" where
  "classes_ok s \<longleftrightarrow> (\<forall>c ci. cl_infos s c = Some ci \<longrightarrow> ci_id ci \<le> cl_counter s)
     \<and> (\<forall>c d ci di. cl_infos s c = Some ci \<longrightarrow> cl_infos s d = Some di \<longrightarrow> ci_id ci = ci_id di \<longrightarrow> ci_id ci \<noteq> 0 \<longrightarrow> c = d)"

lemma register_keeps:
  assumes ok: "classes_ok s" and n: "cl_counter s \<noteq> - 1" and r: "MateCORBA_classinfo_register c s = Inr s'"
  shows "classes_ok s'"
proof -
  obtain ci where ci: "cl_infos s c = Some ci" using r by (auto simp: MateCORBA_classinfo_register_def split: option.splits)
  show ?thesis
  proof (cases "ci_id ci = 0")
    case False
    then show ?thesis using r ci ok by (simp add: MateCORBA_classinfo_register_def)
  next
    case True
    have s': "cl_infos s' = (cl_infos s)(c \<mapsto> ci\<lparr> ci_id := cl_counter s + 1 \<rparr>)" "cl_counter s' = cl_counter s + 1"
      using r ci True by (auto simp: MateCORBA_classinfo_register_def Let_def upd_class_def)
    have "1 + cl_counter s \<noteq> 0" using n by (simp add: eq_neg_iff_add_eq_0 add.commute)
    then have up: "cl_counter s < cl_counter s + 1" by (simp add: word_less_nat_alt add.commute unatSuc)
    have le: "ci_id di \<le> cl_counter s" if "cl_infos s d = Some di" for d di using ok that unfolding classes_ok_def by blast
    have lt: "ci_id di \<le> cl_counter s + 1" "ci_id di \<noteq> cl_counter s + 1" if "cl_infos s d = Some di" for d di
      using le[OF that] up by auto
    show ?thesis
      unfolding classes_ok_def s'
    proof (intro conjI allI impI)
      fix d di assume "((cl_infos s)(c \<mapsto> ci\<lparr> ci_id := cl_counter s + 1 \<rparr>)) d = Some di"
      then show "ci_id di \<le> cl_counter s + 1" using lt(1) by (auto split: if_splits)
    next
      fix a d ai di
      assume a: "((cl_infos s)(c \<mapsto> ci\<lparr> ci_id := cl_counter s + 1 \<rparr>)) a = Some ai"
        "((cl_infos s)(c \<mapsto> ci\<lparr> ci_id := cl_counter s + 1 \<rparr>)) d = Some di" "ci_id ai = ci_id di" "ci_id ai \<noteq> 0"
      consider "a = c" "d = c" | "a = c" "d \<noteq> c" | "a \<noteq> c" "d = c" | "a \<noteq> c" "d \<noteq> c" by blast
      then show "a = d"
      proof cases
        case 2
        then show ?thesis using a lt(2)[of d di] by auto
      next
        case 3
        then show ?thesis using a lt(2)[of a ai] by auto
      next
        case 4
        then have "cl_infos s a = Some ai" "cl_infos s d = Some di" using a by simp_all
        then show ?thesis using a(3,4) ok unfolding classes_ok_def by blast
      qed simp
    qed
  qed
qed

section \<open>Calls within the process\<close>

text \<open>
  \<^verbatim>\<open>get_c_method\<close>: the table of methods the class's own table points to, and where in it the method is; what is
  there is the application's. \<open>allowed\<close> is \<^verbatim>\<open>MateCORBA_poa_allow_cross_thread_call\<close>, \<open>generic\<close> the flag that forces
  marshalling.
\<close>

definition get_c_method ::
  "(servant \<Rightarrow> nat \<Rightarrow> int \<Rightarrow> nat option) \<Rightarrow> bool \<Rightarrow> bool \<Rightarrow> poa_world \<Rightarrow> pobj option \<Rightarrow> u16 list option \<Rightarrow> int \<Rightarrow> int \<Rightarrow> (servant \<times> nat) option res" where
  "get_c_method epv allowed generic w q vm class_id method_offset = (case q of None \<Rightarrow> Inr None
   | Some q \<Rightarrow> rbind (the_pobj w q) (\<lambda>x. case po_servant x of None \<Rightarrow> Inr None
     | Some s \<Rightarrow> if method_offset \<le> 0 \<or> class_id \<le> 0 \<or> \<not> allowed \<or> generic then Inr None
       else (case vm of None \<Rightarrow> Inr None
         | Some vm \<Rightarrow> if class_id \<ge> sint (vm ! 0) then Inr None
             else Inr (map_option (Pair s) (epv s (unat (vm ! nat class_id)) method_offset)))))"

datatype stub_call = Direct servant nat | Marshalled | Refused poa_exn

text \<open>
  \<^verbatim>\<open>MateCORBA_c_stub_invoke\<close>: the index may be one too large, then what is behind the array of methods is read.
\<close>

definition MateCORBA_c_stub_invoke :: "int \<Rightarrow> nat \<Rightarrow> bool \<Rightarrow> (servant \<times> nat) option res \<Rightarrow> stub_call res" where
  "MateCORBA_c_stub_invoke method_index methods_len has_skel found =
     (if method_index < 0 \<or> method_index > int methods_len then Inr (Refused EX_NO_IMPLEMENT)
      else if \<not> has_skel then Inr Marshalled
      else if method_index = int methods_len then Inl Overrun
      else rbind found (\<lambda>r. Inr (case r of None \<Rightarrow> Marshalled | Some (s, f) \<Rightarrow> Direct s f)))"

end
