(* ===== verification/Spec2Isabelle.thy ===== *)
theory Spec2Isabelle
  imports Iop_Props Iop_Servers Send_Iovec Typecode_Safety Typecode_Round Layout Any_Ops Any_Travel Giop_Callers Poa_Serve Poa_Class
begin

text \<open>
  A verification library for MateCORBA, the CORBA implementation of the MATE desktop (in C). The paths are those
  under \<^verbatim>\<open>src/\<close>.

  \<^bold>\<open>The program.\<close> A client calls an object through a reference, a list of profiles that say where the object
  lives. The call is marshalled behind a GIOP header into a send buffer and written to a connection; the other side
  collects the message, or its fragments, in a receive buffer and decodes the header. A request goes to the object
  adaptor the object key names, which finds the object and calls its servant; a reply goes to the caller that waits
  with its number. Arguments are marshalled by their TypeCodes, which themselves travel within anys.

  \<^bold>\<open>The theories.\<close>
  \<^item> \<^verbatim>\<open>Prelude\<close>: machine integers and their bytes in either byte order, alignment, results, C strings.
  \<^item> \<^verbatim>\<open>Giop_Types\<close>: versions, message types and header of GIOP (\<^verbatim>\<open>giop-types.h\<close>, \<^verbatim>\<open>giop-basics.h\<close>).
  \<^item> \<^verbatim>\<open>Send_Buffer\<close>, \<^verbatim>\<open>Send_Iovec\<close>: \<^verbatim>\<open>giop-send-buffer.c\<close>, first as the bytes that have been
    appended, then with the iovecs, chunks and header of the code; the second refines the first.
  \<^item> \<^verbatim>\<open>Recv_Base\<close>, \<^verbatim>\<open>Codec\<close>: the receive buffer of \<^verbatim>\<open>giop-recv-buffer.c\<close>, readers with their
    checks, encapsulations; two ways of reasoning about readers, \<open>parses\<close> (a reader accepts an encoding, whatever
    follows it) and \<open>safe\<close> (it reads inside the message on arbitrary bytes); the interface \<open>cdr_codec\<close> of a type
    that can be sent, with an interpretation for every such type.
  \<^item> \<^verbatim>\<open>Iop_Profiles\<close>, \<^verbatim>\<open>Iop_Demarshal\<close>, \<^verbatim>\<open>Iop_Codec\<close>, \<^verbatim>\<open>Ior\<close>, \<^verbatim>\<open>Iop_Objects\<close>,
    \<^verbatim>\<open>Iop_Servers\<close>, \<^verbatim>\<open>Iop_Props\<close>: profiles, components and object references (\<^verbatim>\<open>iop-profiles.c\<close>,
    \<^verbatim>\<open>corba-object.c\<close>, \<^verbatim>\<open>corba-orb.c\<close>), IOR strings, the table of references, the profiles of the ORB's
    own servers.
  \<^item> \<^verbatim>\<open>Typecode\<close>, \<^verbatim>\<open>Typecode_Coding\<close> (\<^verbatim>\<open>corba-typecode.c\<close>): TypeCodes as trees of nodes with
    addresses, so that sharing is visible; comparison, member access, encoder and decoder with their references back.
    \<^verbatim>\<open>Typecode_Safety\<close> treats the decoder on arbitrary bytes; \<^verbatim>\<open>Typecode_Sim\<close>,
    \<^verbatim>\<open>Typecode_Nodes\<close>, \<^verbatim>\<open>Typecode_Round\<close> run encoder and decoder side by side.
  \<^item> \<^verbatim>\<open>Layout\<close>, \<^verbatim>\<open>Any_Value\<close>, \<^verbatim>\<open>Any_Ops\<close>, \<^verbatim>\<open>Any_Round\<close>, \<^verbatim>\<open>Any_Travel\<close>
    (\<^verbatim>\<open>corba-any.c\<close>, \<^verbatim>\<open>allocators.c\<close>): sizes of native values against the layout of C; values as trees;
    marshalling, demarshalling, copying and comparing them by TypeCode.
  \<^item> \<^verbatim>\<open>Giop_Recv\<close>, \<^verbatim>\<open>Giop_Input\<close>, \<^verbatim>\<open>Giop_Delivery\<close>, \<^verbatim>\<open>Giop_Callers\<close>: the message headers;
    \<^verbatim>\<open>giop_connection_handle_input\<close> with fragments, dispatch and the queue of callers; what becomes of whole
    messages; the steps of connections and callers with an invariant of all reachable states.
  \<^item> \<^verbatim>\<open>Poa\<close>, \<^verbatim>\<open>Poa_Request\<close>, \<^verbatim>\<open>Poa_Manager\<close>, \<^verbatim>\<open>Poa_Class\<close> (\<^verbatim>\<open>poa.c\<close>, \<^verbatim>\<open>poa-manager.c\<close>,
    \<^verbatim>\<open>matecorba-adaptor.c\<close>): the object adaptor. Objects, adaptors, servants and managers are records in stores by
    address, reference counts included, so that the use of a freed object is seen. \<^verbatim>\<open>Poa\<close> has the tables and
    the interface, \<^verbatim>\<open>Poa_Request\<close> what becomes of a request, \<^verbatim>\<open>Poa_Manager\<close> the states of managers,
    deactivation and destruction, \<^verbatim>\<open>Poa_Class\<close> the classes of servants and direct calls. \<^verbatim>\<open>Poa_Inv\<close>
    states when tables, counts and the servants' lists agree (\<open>pw_inv\<close>) and shows that creation, activation and release
    keep it, \<^verbatim>\<open>Poa_Life\<close> deactivation and references; \<^verbatim>\<open>Poa_Calls\<close> has the contract \<open>refines\<close> of calls
    seen through an abstraction, interpreted on the adaptor's calls with the map of active objects; \<^verbatim>\<open>Poa_Serve\<close>
    follows a request through each state of the manager.

  \<^bold>\<open>Conventions.\<close> A result is a value or one of three errors: \<open>Broken\<close>, the failure the code reports;
  \<open>Overrun\<close>, an access outside memory the code owns; \<open>Abort\<close>, the end of the process (\<^verbatim>\<open>g_assert\<close>,
  \<^verbatim>\<open>g_error\<close>, a NULL pointer followed). Machine integers keep their width; positions in a buffer are numbers
  with the wrap of 32-bit sizes written out. A block of memory is a list of bytes, the empty list a NULL pointer.
  Allocation does not fail. The byte order of a machine, the sizes and alignments of C's types (\<^verbatim>\<open>abi\<close>) and
  whether pointer differences have 64 bits are parameters.

  \<^bold>\<open>Fuel.\<close> Where the code recurses on what it reads, the model counts. The TypeCode decoder and the
  demarshaller of values get one more than the bytes left; \<^verbatim>\<open>Typecode_Safety\<close> proves that every nested
  TypeCode takes at least one byte, so more fuel changes nothing, and \<^verbatim>\<open>Any_Travel\<close> that a value of depth
  \<open>n\<close> in anys has at least \<open>n\<close> bytes. The walk to the object
  in front of another one in a servant's list is bounded by the number of addresses given out, which no list exceeds
  (\<open>path_length\<close>); the recursions into child adaptors by the number of adaptors. Every other function is total by a
  measure.

  \<^bold>\<open>Not modelled.\<close> The I/O thread and locks; the sockets below \<^verbatim>\<open>linc2\<close>; timeouts and the main
  loop; the dynamic any; the IDL compiler and the modules that work on the trees of libIDL, which is not in the
  repository; the network client \<^verbatim>\<open>orbhttp.c\<close>; TypeCodes that contain themselves. Of the object adaptor: the
  reference counts of adaptors and managers, so that they live for ever; the calls an application makes from a
  finalizer, in the theorems that ask for one that is \<open>quiet\<close>; the reading of arguments and the writing of results,
  which belong to the method that is called (\<open>ap_method\<close>); the pools of threads.
\<close>

end
